(* ===== verification/Rust_Strings.thy ===== *)
theory Rust_Strings
  imports Prelude "HOL-Library.Sublist" "HOL-Library.Code_Target_Nat"
begin

text \<open>
  Rust strings. A \<open>str\<close> is a sequence of Unicode scalar values, modelled as a list of code
  points (\<open>rstr\<close>); \<open>str ''...''\<close> embeds an ASCII literal. The standard library
  operations the sources call are defined here, with the facts about them the components use:
  \<open>contains\<close> is the sublist relation, \<open>replace\<close> leaves no occurrence of a delimited
  pattern, \<open>trim\<close> is idempotent. Offsets that the source takes in bytes are code-point
  offsets here: each comes from a match and is used for slicing only. Where the source compares a
  byte length with a bound, \<open>utf8_len\<close> is used.
\<close>

section \<open>Operations\<close>

type_synonym rchar = nat
type_synonym rstr = "rchar list"

definition str :: "string \<Rightarrow> rstr" where
  "str s = map of_char s"

lemma str_Nil [simp, str_eval]: "str [] = []"
  by (simp add: str_def)

lemma str_Cons [str_eval]: "str (c # s) = of_char c # str s"
  by (simp add: str_def)

lemma str_append: "str (s @ t) = str s @ str t"
  by (simp add: str_def)

lemma str_eq_iff [simp]: "str s = str t \<longleftrightarrow> s = t"
  by (simp add: str_def inj_map_eq_map [OF inj_of_char])

lemma str_eq_Nil [simp]: "str s = [] \<longleftrightarrow> s = []" "[] = str s \<longleftrightarrow> s = []"
  by (auto simp: str_def)

lemma length_str [simp]: "length (str s) = length s"
  by (simp add: str_def)

abbreviation ch :: "char \<Rightarrow> rchar" where
  "ch c \<equiv> of_char c"

text \<open>The newline character as a string, and \<open>char::is_whitespace\<close>
  (Unicode's \<open>White_Space\<close> property).\<close>

definition nl :: rstr where "nl = [10]"

definition is_ws :: "rchar \<Rightarrow> bool" where
  "is_ws c \<longleftrightarrow> 9 \<le> c \<and> c \<le> 13 \<or> c = 32 \<or> c = 133 \<or> c = 160 \<or> c = 5760
     \<or> 8192 \<le> c \<and> c \<le> 8202 \<or> c = 8232 \<or> c = 8233 \<or> c = 8239 \<or> c = 8287 \<or> c = 12288"

definition is_ascii_digit :: "rchar \<Rightarrow> bool" where
  "is_ascii_digit c \<longleftrightarrow> 48 \<le> c \<and> c \<le> 57"

definition to_ascii_lower :: "rchar \<Rightarrow> rchar" where
  "to_ascii_lower c = (if 65 \<le> c \<and> c \<le> 90 then c + 32 else c)"

definition to_ascii_lowercase :: "rstr \<Rightarrow> rstr" where
  "to_ascii_lowercase s = map to_ascii_lower s"

definition trim_start :: "rstr \<Rightarrow> rstr" where
  "trim_start s = dropWhile is_ws s"

definition trim_end :: "rstr \<Rightarrow> rstr" where
  "trim_end s = rev (dropWhile is_ws (rev s))"

definition trim :: "rstr \<Rightarrow> rstr" where
  "trim s = trim_end (trim_start s)"

definition utf8_width :: "rchar \<Rightarrow> nat" where
  "utf8_width c = (if c < 128 then 1 else if c < 2048 then 2 else if c < 65536 then 3 else 4)"

definition utf8_len :: "rstr \<Rightarrow> nat" where
  "utf8_len s = sum_list (map utf8_width s)"

definition starts_with :: "rstr \<Rightarrow> rstr \<Rightarrow> bool" where
  "starts_with s p \<longleftrightarrow> prefix p s"

definition ends_with :: "rstr \<Rightarrow> rstr \<Rightarrow> bool" where
  "ends_with s p \<longleftrightarrow> suffix p s"

definition strip_prefix_str :: "rstr \<Rightarrow> rstr \<Rightarrow> rstr option" where
  "strip_prefix_str s p = (if prefix p s then Some (drop (length p) s) else None)"

fun find_str :: "rstr \<Rightarrow> rstr \<Rightarrow> nat option" where
  "find_str p [] = (if p = [] then Some 0 else None)"
| "find_str p (c # s) = (if prefix p (c # s) then Some 0 else map_option Suc (find_str p s))"

definition contains :: "rstr \<Rightarrow> rstr \<Rightarrow> bool" where
  "contains s p \<longleftrightarrow> find_str p s \<noteq> None"

text \<open>\<open>str::replace\<close>: leftmost, non-overlapping; an empty pattern matches at every boundary.\<close>

function replace_ne :: "rstr \<Rightarrow> rstr \<Rightarrow> rstr \<Rightarrow> rstr" where
  "replace_ne p r [] = []"
| "replace_ne p r (c # s) =
     (if p \<noteq> [] \<and> prefix p (c # s) then r @ replace_ne p r (drop (length p) (c # s))
      else c # replace_ne p r s)"
  by pat_completeness auto
termination
  by (relation "measure (\<lambda>(p, r, s). length s)") (auto simp: neq_Nil_conv)

definition replace :: "rstr \<Rightarrow> rstr \<Rightarrow> rstr \<Rightarrow> rstr" where
  "replace s p r = (if p = [] then r @ concat (map (\<lambda>c. c # r) s) else replace_ne p r s)"

fun split_char :: "rchar \<Rightarrow> rstr \<Rightarrow> rstr list" where
  "split_char d [] = [[]]"
| "split_char d (c # s) =
     (if c = d then [] # split_char d s
      else (case split_char d s of [] \<Rightarrow> [[c]] | x # xs \<Rightarrow> (c # x) # xs))"

text \<open>\<open>split_whitespace\<close>.\<close>

definition words :: "rstr \<Rightarrow> rstr list" where
  "words s = filter (\<lambda>w. w \<noteq> []) (split_char 32 (map (\<lambda>c. if is_ws c then 32 else c) s))"

definition split_once :: "rchar \<Rightarrow> rstr \<Rightarrow> (rstr \<times> rstr) option" where
  "split_once d s = (if d \<in> set s then Some (takeWhile (\<lambda>c. c \<noteq> d) s, tl (dropWhile (\<lambda>c. c \<noteq> d) s)) else None)"

text \<open>\<open>str::lines\<close>: pieces ended by a newline lose it and one carriage return before it; a last
  piece without newline is kept as it is; there is no empty last piece.\<close>

definition strip_cr :: "rstr \<Rightarrow> rstr" where
  "strip_cr l = (if l \<noteq> [] \<and> last l = 13 then butlast l else l)"

definition lines :: "rstr \<Rightarrow> rstr list" where
  "lines s = (let ps = split_char 10 s in
     map strip_cr (butlast ps) @ (if last ps = [] then [] else [last ps]))"

fun join :: "rstr \<Rightarrow> rstr list \<Rightarrow> rstr" where
  "join sep [] = []"
| "join sep [x] = x"
| "join sep (x # y # xs) = x @ sep @ join sep (y # xs)"

fun digits_val :: "nat \<Rightarrow> rstr \<Rightarrow> nat" where
  "digits_val acc [] = acc"
| "digits_val acc (c # s) = digits_val (acc * 10 + (c - 48)) s"

text \<open>\<open>str::parse::<i64>\<close>: an optional sign, at least one digit, digits only, in range.\<close>

definition parse_digits :: "rstr \<Rightarrow> nat option" where
  "parse_digits s = (if s \<noteq> [] \<and> list_all is_ascii_digit s then Some (digits_val 0 s) else None)"

definition check_i64 :: "int \<Rightarrow> i64 option" where
  "check_i64 x = (if in_i64 x then Some x else None)"

definition parse_i64 :: "rstr \<Rightarrow> i64 option" where
  "parse_i64 s = (case s of
       [] \<Rightarrow> None
     | c # t \<Rightarrow>
         if c = 45 then Option.bind (parse_digits t) (\<lambda>n. check_i64 (- int n))
         else if c = 43 then Option.bind (parse_digits t) (\<lambda>n. check_i64 (int n))
         else Option.bind (parse_digits s) (\<lambda>n. check_i64 (int n)))"

text \<open>\<open>char::to_digit(16)\<close>.\<close>

definition hex_val :: "rchar \<Rightarrow> nat option" where
  "hex_val c = (if 48 \<le> c \<and> c \<le> 57 then Some (c - 48)
     else if 97 \<le> c \<and> c \<le> 102 then Some (c - 87)
     else if 65 \<le> c \<and> c \<le> 70 then Some (c - 55) else None)"

text \<open>Decimal printing of a natural number (\<open>format!("{n}")\<close>).\<close>

fun show_nat :: "nat \<Rightarrow> rstr" where
  "show_nat n = (if n < 10 then [48 + n] else show_nat (n div 10) @ [48 + n mod 10])"

declare show_nat.simps [simp del]

section \<open>Searching\<close>

lemma prefix_append_drop: "prefix p s \<Longrightarrow> s = p @ drop (length p) s"
  by (auto simp: prefix_def)

lemma find_str_Some_split:
  "find_str p s = Some i \<Longrightarrow> i + length p \<le> length s \<and> s = take i s @ p @ drop (i + length p) s"
proof (induction s arbitrary: i)
  case Nil
  then show ?case by (auto split: if_splits)
next
  case (Cons c s)
  show ?case
  proof (cases "prefix p (c # s)")
    case True
    with Cons.prems show ?thesis using prefix_append_drop [OF True] prefix_length_le [OF True] by simp
  next
    case False
    with Cons.prems Cons.IH show ?thesis by auto
  qed
qed

lemma find_str_prefix: "find_str p s = Some i \<Longrightarrow> prefix p (drop i s)"
  by (induction s arbitrary: i) (auto split: if_splits)

lemma find_str_append: "\<exists>i. find_str p (a @ p @ b) = Some i \<and> i \<le> length a"
proof (induction a)
  case Nil
  then show ?case by (cases p; cases b) (auto simp: prefix_def)
next
  case (Cons c a)
  then show ?case by (cases "prefix p (c # a @ p @ b)") auto
qed

lemma contains_iff_sublist: "contains s p \<longleftrightarrow> sublist p s"
proof
  assume "contains s p"
  then obtain i where "find_str p s = Some i" by (auto simp: contains_def)
  then show "sublist p s" unfolding sublist_def by (metis find_str_Some_split)
next
  assume "sublist p s"
  then obtain a b where "s = a @ p @ b" by (auto simp: sublist_def)
  then show "contains s p" using find_str_append [of p a b] by (auto simp: contains_def)
qed

lemma contains_append_left: "contains a p \<Longrightarrow> contains (a @ b) p"
  by (simp add: contains_iff_sublist sublist_append)

lemma contains_append_right: "contains b p \<Longrightarrow> contains (a @ b) p"
  by (simp add: contains_iff_sublist sublist_append)

lemma not_contains_Cons: "\<not> contains (c # s) p \<Longrightarrow> \<not> contains s p"
  by (auto simp: contains_def split: if_splits)

section \<open>Trimming\<close>

lemma trim_start_idem [simp]: "trim_start (trim_start s) = trim_start s"
  by (simp add: trim_start_def)

lemma set_trim: "set (trim s) \<subseteq> set s"
  unfolding trim_def trim_end_def trim_start_def
  by (metis set_dropWhileD set_rev subsetI)

lemma trim_start_trim: "trim_start (trim s) = trim s"
proof (cases "trim_start s")
  case Nil
  then have "trim s = []" by (simp add: trim_def trim_end_def)
  then show ?thesis by (simp add: trim_start_def)
next
  case (Cons c t)
  then have c: "\<not> is_ws c" by (metis hd_dropWhile list.discI list.sel(1) trim_start_def)
  then have "dropWhile is_ws (rev t @ [c]) \<noteq> []" by (simp add: dropWhile_eq_Nil_conv)
  have "trim s = rev (dropWhile is_ws (rev t @ [c]))"
    by (simp add: trim_def Cons trim_end_def)
  also have "\<dots> = c # rev (dropWhile is_ws (rev t))"
    using c by (auto simp: dropWhile_append dropWhile_eq_Nil_conv)
  finally show ?thesis using c by (simp add: trim_start_def)
qed

lemma trim_idem [simp]: "trim (trim s) = trim s"
proof -
  have "trim (trim s) = trim_end (trim s)" by (simp only: trim_def [of "trim s"] trim_start_trim)
  also have "\<dots> = trim s" by (simp add: trim_def trim_end_def)
  finally show ?thesis .
qed

section \<open>Replacing\<close>

text \<open>
  If the first and the last character of \<open>q\<close> do not occur in the replacement and the
  replacement has a character that \<open>q\<close> lacks, then every occurrence of \<open>q\<close> in the output
  lies inside text that was kept.
\<close>

lemma replace_ne_prefix:
  assumes "q \<noteq> []" "last q \<notin> set r" "x \<in> set r" "x \<notin> set q" "prefix q (replace_ne p r s)"
  shows "prefix q s"
  using assms
proof (induction p r s arbitrary: q rule: replace_ne.induct)
  case (1 p r)
  then show ?case by simp
next
  case (2 p r c s)
  show ?case
  proof (cases "p \<noteq> [] \<and> prefix p (c # s)")
    case True
    then have "prefix q (r @ replace_ne p r (drop (length p) (c # s)))"
      using "2.prems"(5) by simp
    then consider "prefix q r" | u where "q = r @ u" by (auto simp: prefix_append)
    then show ?thesis
    proof cases
      case 1
      with "2.prems"(1,2) show ?thesis by (metis last_in_set set_mono_prefix subsetD)
    next
      case 2
      with "2.prems"(3,4) show ?thesis by simp
    qed
  next
    case False
    then have "prefix q (c # replace_ne p r s)"
      using "2.prems"(5) by auto
    then obtain u where u: "q = c # u" "prefix u (replace_ne p r s)"
      using "2.prems"(1) by (cases q) auto
    show ?thesis
    proof (cases "u = []")
      case True
      with u show ?thesis by simp
    next
      case ne: False
      have "prefix u s"
        by (rule "2.IH"(2) [OF False ne]) (use "2.prems" u ne in auto)
      with u show ?thesis by simp
    qed
  qed
qed

lemma replace_ne_sublist:
  assumes "q \<noteq> []" "hd q \<notin> set r" "last q \<notin> set r" "x \<in> set r" "x \<notin> set q" "p \<noteq> []"
    and "sublist q (replace_ne p r s)"
  shows "sublist q s \<and> q \<noteq> p"
  using assms
proof (induction p r s rule: replace_ne.induct)
  case (1 p r)
  then show ?case by simp
next
  case (2 p r c s)
  note q = "2.prems"(1-5)
  show ?case
  proof (cases "p \<noteq> [] \<and> prefix p (c # s)")
    case True
    let ?t = "replace_ne p r (drop (length p) (c # s))"
    have r: "sublist q (r @ ?t)" using True "2.prems"(7) by simp
    have no: "a = []" if "q = a @ b" "suffix a r" for a b
    proof (rule ccontr)
      assume "a \<noteq> []"
      then have "hd q \<in> set a" using that(1) by simp
      then show False using q(2) set_mono_suffix [OF that(2)] by auto
    qed
    have "\<not> sublist q r" using q(1,2) set_mono_sublist [of q r] by (cases q) auto
    with r no have "sublist q ?t" by (force simp: sublist_append)
    with "2.IH"(1) True "2.prems" have "sublist q (drop (length p) (c # s)) \<and> q \<noteq> p" by blast
    then show ?thesis by (meson sublist_drop sublist_order.order_trans)
  next
    case False
    then have eq: "replace_ne p r (c # s) = c # replace_ne p r s" by auto
    consider "prefix q (replace_ne p r (c # s))" | "sublist q (replace_ne p r s)"
      using "2.prems"(7) eq by (auto simp: sublist_Cons_right)
    then show ?thesis
    proof cases
      case 1
      then have "prefix q (c # s)" by (rule replace_ne_prefix [OF q(1) q(3) q(4) q(5)])
      with False "2.prems"(6) show ?thesis by auto
    next
      case b: 2
      with "2.IH"(2) False "2.prems" have "sublist q s \<and> q \<noteq> p" by blast
      then show ?thesis by (simp add: sublist_Cons_right)
    qed
  qed
qed

text \<open>The two consequences the escaping code relies on: replacing a delimited tag removes it, and
  does not bring back another tag that was absent.\<close>

lemma replace_removes:
  assumes "p \<noteq> []" "hd p \<notin> set r" "last p \<notin> set r" "x \<in> set r" "x \<notin> set p"
  shows "\<not> contains (replace s p r) p"
  using replace_ne_sublist [of p r x p s] assms by (auto simp: contains_iff_sublist replace_def)

lemma replace_keeps_absent:
  assumes "p \<noteq> []" "q \<noteq> []" "hd q \<notin> set r" "last q \<notin> set r" "x \<in> set r" "x \<notin> set q"
    and "\<not> contains s q"
  shows "\<not> contains (replace s p r) q"
  using replace_ne_sublist [of q r x p s] assms by (auto simp: contains_iff_sublist replace_def)

lemma replace_absent: "p \<noteq> [] \<Longrightarrow> \<not> contains s p \<Longrightarrow> replace s p r = s"
proof -
  assume p: "p \<noteq> []"
  have "\<not> contains s p \<Longrightarrow> replace_ne p r s = s"
  proof (induction s)
    case (Cons c s)
    then have "\<not> prefix p (c # s)" and "\<not> contains s p"
      by (auto simp: contains_def split: if_splits)
    with Cons.IH show ?case by auto
  qed simp
  then show "\<not> contains s p \<Longrightarrow> replace s p r = s" using p by (simp add: replace_def)
qed

end
