(* ===== verification/Json.thy ===== *)
theory Json
  imports Rust_Strings "HOL-Library.List_Lexorder"
begin

text \<open>
  JSON values as \<open>serde_json::Value\<close> holds them: objects are \<open>BTreeMap\<close>s (the workspace does
  not enable \<open>preserve_order\<close>), modelled as association lists kept strictly sorted by key
  (\<open>wf_value\<close>); numbers keep the crate's three-way representation, a float by its bit pattern.
  The accessors the sources call (\<open>get\<close>, \<open>pointer\<close>, \<open>as_str\<close>, \<open>as_u64\<close>,
  \<open>as_array\<close>) are defined here, and \<open>deep_merge_object\<close> of \<open>router/src/dispatch_http.rs\<close>
  with its correctness: the merge is described key by key, keeps the sorted-map invariant and never
  drops a sibling key.

  The parser \<open>serde_json::from_str\<close> is a parameter of the definitions that call it.
\<close>

section \<open>Values and accessors\<close>

datatype number = PosInt u64 | NegInt i64 | Float u64

datatype jvalue =
    JNull
  | JBool bool
  | JNumber number
  | JString rstr
  | JArray "jvalue list"
  | JObject "(rstr \<times> jvalue) list"

type_synonym jmap = "(rstr \<times> jvalue) list"
type_synonym from_str = "rstr \<Rightarrow> jvalue option"

fun obj_get :: "jmap \<Rightarrow> rstr \<Rightarrow> jvalue option" where
  "obj_get [] k = None"
| "obj_get ((k', v) # m) k = (if k = k' then Some v else obj_get m k)"

fun obj_insert :: "rstr \<Rightarrow> jvalue \<Rightarrow> jmap \<Rightarrow> jmap" where
  "obj_insert k v [] = [(k, v)]"
| "obj_insert k v ((k', v') # m) =
     (if k < k' then (k, v) # (k', v') # m
      else if k = k' then (k, v) # m
      else (k', v') # obj_insert k v m)"

fun jget :: "jvalue \<Rightarrow> rstr \<Rightarrow> jvalue option" where
  "jget (JObject m) k = obj_get m k"
| "jget _ k = None"

fun jget_idx :: "jvalue \<Rightarrow> nat \<Rightarrow> jvalue option" where
  "jget_idx (JArray xs) i = (if i < length xs then Some (xs ! i) else None)"
| "jget_idx _ i = None"

fun as_str :: "jvalue \<Rightarrow> rstr option" where
  "as_str (JString s) = Some s"
| "as_str _ = None"

fun as_u64 :: "jvalue \<Rightarrow> u64 option" where
  "as_u64 (JNumber (PosInt n)) = Some n"
| "as_u64 _ = None"

fun as_bool :: "jvalue \<Rightarrow> bool option" where
  "as_bool (JBool b) = Some b"
| "as_bool _ = None"

fun as_array :: "jvalue \<Rightarrow> jvalue list option" where
  "as_array (JArray xs) = Some xs"
| "as_array _ = None"

fun is_object :: "jvalue \<Rightarrow> bool" where
  "is_object (JObject m) = True"
| "is_object _ = False"

text \<open>\<open>json!\<close> of fields in key order.\<close>

definition json_obj :: "(string \<times> jvalue) list \<Rightarrow> jvalue" where
  "json_obj kvs = JObject (fold (\<lambda>(k, v). obj_insert (str k) v) kvs [])"

definition get_str :: "jvalue \<Rightarrow> string \<Rightarrow> rstr option" where
  "get_str v k = Option.bind (jget v (str k)) as_str"

text \<open>\<open>Value::pointer\<close>: an array step needs a canonical decimal index.\<close>

definition parse_index :: "rstr \<Rightarrow> nat option" where
  "parse_index t = (if t = [] \<or> hd t = 43 \<or> (hd t = 48 \<and> length t \<noteq> 1) then None
     else parse_digits t)"

fun pointer :: "jvalue \<Rightarrow> rstr list \<Rightarrow> jvalue option" where
  "pointer v [] = Some v"
| "pointer (JObject m) (t # ts) = (case obj_get m t of None \<Rightarrow> None | Some w \<Rightarrow> pointer w ts)"
| "pointer (JArray xs) (t # ts) =
     (case parse_index t of None \<Rightarrow> None
      | Some i \<Rightarrow> if i < length xs then pointer (xs ! i) ts else None)"
| "pointer _ (t # ts) = None"

section \<open>The sorted-map invariant\<close>

definition sorted_keys :: "(rstr \<times> 'v) list \<Rightarrow> bool" where
  "sorted_keys m \<longleftrightarrow> sorted_wrt (<) (map fst m)"

fun wf_value :: "jvalue \<Rightarrow> bool" where
  "wf_value (JArray xs) = list_all wf_value xs"
| "wf_value (JObject m) = (sorted_keys m \<and> list_all (\<lambda>kv. wf_value (snd kv)) m)"
| "wf_value _ = True"

lemma obj_get_insert: "obj_get (obj_insert k v m) k' = (if k' = k then Some v else obj_get m k')"
  by (induction m) (auto split: prod.splits)

lemma keys_insert: "fst ` set (obj_insert k v m) = insert k (fst ` set m)"
  by (induction k v m rule: obj_insert.induct) (simp_all add: insert_commute)

lemma sorted_keys_insert: "sorted_keys m \<Longrightarrow> sorted_keys (obj_insert k v m)"
proof (induction m)
  case Nil
  then show ?case by (simp add: sorted_keys_def)
next
  case (Cons kv m)
  obtain k' v' where kv: "kv = (k', v')" by (cases kv)
  show ?case
  proof (cases "k < k' \<or> k = k'")
    case True
    with Cons.prems kv show ?thesis by (auto simp: sorted_keys_def)
  next
    case False
    then have "k' < k" by auto
    with Cons kv False keys_insert [of k v m] show ?thesis by (auto simp: sorted_keys_def)
  qed
qed

lemma obj_get_in: "obj_get m k = Some v \<Longrightarrow> (k, v) \<in> set m"
  by (induction m) (auto split: if_splits)

lemma wf_obj_get: "wf_value (JObject m) \<Longrightarrow> obj_get m k = Some v \<Longrightarrow> wf_value v"
  by (auto dest!: obj_get_in simp: list_all_iff)

lemma set_obj_insert: "set (obj_insert k v m) \<subseteq> insert (k, v) (set m)"
  by (induction m) (auto split: if_splits)

lemma wf_obj_insert: "wf_value (JObject m) \<Longrightarrow> wf_value v \<Longrightarrow> wf_value (JObject (obj_insert k v m))"
  using set_obj_insert [of k v m] by (auto simp: list_all_iff sorted_keys_insert)

lemma obj_get_None_iff: "obj_get m k = None \<longleftrightarrow> k \<notin> fst ` set m"
  by (induction m) (auto split: if_splits)

section \<open>Deep merge of request bodies\<close>

fun deep_merge_object :: "jvalue \<Rightarrow> jvalue \<Rightarrow> jvalue"
  and merge_entries :: "jmap \<Rightarrow> jmap \<Rightarrow> jmap" where
  "deep_merge_object (JObject b) (JObject ov) = JObject (merge_entries b ov)"
| "deep_merge_object b ov = ov"
| "merge_entries b [] = b"
| "merge_entries b ((k, v) # ov) =
     merge_entries (case obj_get b k of
         Some existing \<Rightarrow> obj_insert k (deep_merge_object existing v) b
       | None \<Rightarrow> obj_insert k v b) ov"

lemma deep_merge_wf:
  "wf_value b \<Longrightarrow> wf_value ov \<Longrightarrow> wf_value (deep_merge_object b ov)"
  "wf_value (JObject bm) \<Longrightarrow> list_all (\<lambda>kv. wf_value (snd kv)) om \<Longrightarrow> wf_value (JObject (merge_entries bm om))"
proof (induction b ov and bm om rule: deep_merge_object_merge_entries.induct)
  case (4 b k v ov)
  have "wf_value (JObject (case obj_get b k of
         Some existing \<Rightarrow> obj_insert k (deep_merge_object existing v) b
       | None \<Rightarrow> obj_insert k v b))"
  proof (cases "obj_get b k")
    case None
    with "4.prems" show ?thesis by (simp add: wf_obj_insert del: wf_value.simps)
  next
    case (Some e)
    with "4.prems" have "wf_value e" using wf_obj_get by blast
    with "4.IH"(1) Some "4.prems" show ?thesis
      by (simp add: wf_obj_insert del: wf_value.simps)
  qed
  with "4.IH"(2) "4.prems" show ?case by simp
qed auto

lemma merge_entries_get:
  "sorted_keys ov \<Longrightarrow> obj_get (merge_entries b ov) k =
     (case obj_get ov k of
        None \<Rightarrow> obj_get b k
      | Some v \<Rightarrow> Some (case obj_get b k of None \<Rightarrow> v | Some e \<Rightarrow> deep_merge_object e v))"
proof (induction ov arbitrary: b)
  case Nil
  then show ?case by simp
next
  case (Cons kv ov)
  obtain k0 v0 where kv: "kv = (k0, v0)" by (cases kv)
  from Cons.prems kv have s: "sorted_keys ov" and n: "k0 \<notin> fst ` set ov"
    by (auto simp: sorted_keys_def)
  from n have "obj_get ov k0 = None" by (simp add: obj_get_None_iff)
  then show ?case
    using Cons.IH [OF s] kv by (auto simp: obj_get_insert split: option.splits)
qed

end
