(* ===== verification/Protocol.thy ===== *)
theory Protocol
  imports Json
begin

text \<open>
  The shared types of the \<open>protocol\<close> crate: the error taxonomy and the classifier's result
  (\<open>error.rs\<close>), the superset transcript message and its tool calls (\<open>message.rs\<close>), the
  normalized response (\<open>response.rs\<close>), the usage ledger (\<open>usage.rs\<close>), the internal stream
  model (\<open>stream.rs\<close>), the credential status (\<open>cred.rs\<close>) and the wire modes
  (\<open>api_mode.rs\<close>). Field names that are the same in several structs carry a prefix, since
  record selectors are global.
\<close>

datatype api_mode = ChatCompletions | AnthropicMessages | Responses

datatype failover_reason =
    Auth | AuthPermanent | Billing | RateLimit | Overloaded | ServerError | Timeout
  | ContextOverflow | PayloadTooLarge | ModelNotFound | ContentPolicyBlocked | FormatError | Unknown

record classified_error =
  reason :: failover_reason
  status_code :: "u16 option"
  retryable :: bool
  should_compress :: bool
  should_rotate_credential :: bool
  should_fallback :: bool
  reset_at_ms :: "i64 option"

datatype api_error =
    Status u16 rstr
  | StreamIdle u64
  | StreamTtfb u64
  | Transport rstr
  | Decode rstr

fun body_json :: "from_str \<Rightarrow> api_error \<Rightarrow> jvalue option" where
  "body_json from_str (Status st body) = from_str body"
| "body_json from_str _ = None"

datatype finish_reason = Stop | ToolCalls | Length | ContentFilter

datatype role = System | User | Assistant | Tool

record canonical_usage =
  u_input :: u64
  u_output :: u64
  u_cache_read :: u64
  u_cache_write :: u64
  u_reasoning :: u64

definition usage_default :: canonical_usage where
  "usage_default = \<lparr>u_input = 0, u_output = 0, u_cache_read = 0, u_cache_write = 0, u_reasoning = 0\<rparr>"

record tool_call =
  tc_id :: "rstr option"
  tc_name :: rstr
  arguments :: rstr
  tc_provider_data :: "jvalue option"

record tool_def =
  td_name :: rstr
  td_description :: rstr
  input_schema :: jvalue

record message =
  role :: role
  content :: "rstr option"
  tool_call_id :: "rstr option"
  tool_name :: "rstr option"
  tool_calls :: "tool_call list option"
  finish_reason :: "finish_reason option"
  reasoning :: "rstr option"
  provider_data :: "jvalue option"
  active :: bool
  is_untrusted :: bool

record normalized_response =
  nr_content :: "rstr option"
  nr_tool_calls :: "tool_call list option"
  nr_finish_reason :: finish_reason
  nr_reasoning :: "rstr option"
  nr_usage :: "canonical_usage option"
  nr_provider_data :: "jvalue option"

datatype block = TextBlock | ThinkingBlock | ToolUse rstr rstr

datatype delta = TextDelta rstr | ThinkingDelta rstr | InputJsonDelta rstr

datatype stream_event =
    MessageStart
  | ContentBlockStart block
  | ContentBlockDelta delta
  | ContentBlockStop
  | MessageDelta "finish_reason option" "canonical_usage option"
  | MessageStop

datatype cred_status = CredOk | Exhausted i64 | Dead

text \<open>Field-wise sum of two usage records (five additions the sources write out in place).\<close>

definition usage_add :: "canonical_usage \<Rightarrow> canonical_usage \<Rightarrow> canonical_usage" where
  "usage_add a b = \<lparr>u_input = u_input a + u_input b, u_output = u_output a + u_output b,
     u_cache_read = u_cache_read a + u_cache_read b, u_cache_write = u_cache_write a + u_cache_write b,
     u_reasoning = u_reasoning a + u_reasoning b\<rparr>"

lemma usage_add_assoc: "usage_add (usage_add a b) c = usage_add a (usage_add b c)"
  by (simp add: usage_add_def add.assoc)

lemma usage_add_commute: "usage_add a b = usage_add b a"
  by (simp add: usage_add_def add.commute)

lemma usage_add_left_commute: "usage_add a (usage_add b c) = usage_add b (usage_add a c)"
  by (simp add: usage_add_def add.left_commute)

lemma usage_add_default [simp]: "usage_add usage_default b = b" "usage_add b usage_default = b"
  by (simp_all add: usage_add_def usage_default_def)

lemmas usage_add_ac = usage_add_assoc usage_add_commute usage_add_left_commute

end
