(* ===== verification/Classify.thy ===== *)
theory Classify
  imports Protocol
begin

text \<open>
  Error classification and recovery decisions: \<open>router/src/classify.rs\<close> (what went wrong, as
  a reason and four action bits), \<open>router/src/retry_loop.rs\<close> (the bits to exactly one action,
  and the fallback chain), \<open>http/src/retry.rs\<close> (the back-off delay) and the
  \<open>Retry-After\<close> parser of \<open>router/src/dispatch_http.rs\<close>.

  \<open>serde_json::from_str\<close>, \<open>httpdate::parse_http_date\<close> and the random byte of the jitter
  are parameters.
\<close>

section \<open>The classifier\<close>

record classify_ctx =
  cc_provider :: rstr
  retry_after_ms :: "i64 option"

definition TERMINAL_AUTH :: "rstr list" where
  "TERMINAL_AUTH = map str [''token_revoked'', ''invalid_grant'', ''token_invalidated'', ''account_deactivated'']"

definition TRANSIENT_SIGNALS :: "rstr list" where
  "TRANSIENT_SIGNALS = map str [''try again'', ''retry after'', ''resets at'', ''resets in'',
     ''requests remaining'', ''rate limit'', ''too many requests'']"

definition BILLING_SIGNALS :: "rstr list" where
  "BILLING_SIGNALS = map str [''quota'', ''insufficient_quota'', ''billing'', ''exceeded your current quota'',
     ''payment'', ''credit'']"

definition contains_any :: "rstr \<Rightarrow> rstr list \<Rightarrow> bool" where
  "contains_any msg sigs \<longleftrightarrow> list_ex (contains msg) sigs"

fun raw_message :: "api_error \<Rightarrow> rstr" where
  "raw_message (Status st body) = body"
| "raw_message (StreamIdle ms) = str ''stream timeout''"
| "raw_message (StreamTtfb ms) = str ''stream timeout''"
| "raw_message (Transport s) = s"
| "raw_message (Decode s) = s"

definition error_message_ptr :: "rstr list" where
  "error_message_ptr = [str ''error'', str ''message'']"

definition error_raw_ptr :: "rstr list" where
  "error_raw_ptr = [str ''error'', str ''metadata'', str ''raw'']"

definition extract_message :: "from_str \<Rightarrow> api_error \<Rightarrow> rstr" where
  "extract_message from_str err = to_ascii_lowercase (
     case body_json from_str err of
       None \<Rightarrow> raw_message err
     | Some v \<Rightarrow>
         (case Option.bind (pointer v error_raw_ptr) as_str of
            Some raw \<Rightarrow>
              (case Option.bind (from_str raw) (\<lambda>inner. Option.bind (pointer inner error_message_ptr) as_str) of
                 Some m \<Rightarrow> m | None \<Rightarrow> raw)
          | None \<Rightarrow>
              (case Option.bind (pointer v error_message_ptr) as_str of
                 Some m \<Rightarrow> m | None \<Rightarrow> raw_message err)))"

text \<open>The scan for a reset delay. One step consumes a digit run or one other character.\<close>

definition reset_unit :: "i64 \<Rightarrow> rstr \<Rightarrow> i64 option" where
  "reset_unit num rest =
     (if starts_with rest (str ''s'') \<or> starts_with rest (str ''sec'') then Some (sat_i64 (num * 1000))
      else if starts_with rest (str ''m'') \<and> \<not> starts_with rest (str ''ms'') then Some (sat_i64 (num * 60000))
      else if starts_with rest (str ''h'') then Some (sat_i64 (num * 3600000))
      else None)"

function extract_reset_ms :: "rstr \<Rightarrow> i64 option" where
  "extract_reset_ms [] = None"
| "extract_reset_ms (c # s) =
     (if is_ascii_digit c then
        (let ds = takeWhile is_ascii_digit (c # s);
             after = dropWhile is_ascii_digit (c # s);
             num = the_or 0 (parse_i64 ds)
         in case reset_unit num (trim_start after) of
              Some ms \<Rightarrow> Some ms
            | None \<Rightarrow> extract_reset_ms after)
      else extract_reset_ms s)"
  by pat_completeness auto
termination
  by (relation "measure length") (auto simp: le_imp_less_Suc length_dropWhile_le)

definition is_stream_timeout :: "api_error \<Rightarrow> bool" where
  "is_stream_timeout err = (case err of StreamIdle _ \<Rightarrow> True | StreamTtfb _ \<Rightarrow> True | _ \<Rightarrow> False)"

definition transient_or_billing :: "rstr \<Rightarrow> failover_reason \<Rightarrow> failover_reason" where
  "transient_or_billing msg dflt =
     (if contains_any msg TRANSIENT_SIGNALS then RateLimit
      else if contains_any msg BILLING_SIGNALS then Billing
      else dflt)"

definition classify_reason :: "api_error \<Rightarrow> u16 option \<Rightarrow> rstr \<Rightarrow> failover_reason" where
  "classify_reason err status msg =
     (if is_stream_timeout err then Timeout
      else if contains_any msg TERMINAL_AUTH then AuthPermanent
      else if contains msg (str ''content policy'') \<or> contains msg (str ''content_policy'') then ContentPolicyBlocked
      else if contains msg (str ''context length'') \<or> contains msg (str ''context_length'')
              \<or> contains msg (str ''maximum context'') then ContextOverflow
      else case status of
          None \<Rightarrow> transient_or_billing msg Unknown
        | Some s \<Rightarrow>
            if s = 401 then Auth
            else if s = 403 then (if contains_any msg TERMINAL_AUTH then AuthPermanent else Auth)
            else if s = 404 then ModelNotFound
            else if s = 413 then PayloadTooLarge
            else if s = 429 then transient_or_billing msg RateLimit
            else if s = 529 then Overloaded
            else if s \<ge> 500 then ServerError
            else transient_or_billing msg Unknown)"

text \<open>\<open>(retryable, should_rotate_credential, should_fallback, should_compress)\<close>\<close>

fun action_bits :: "failover_reason \<Rightarrow> bool \<times> bool \<times> bool \<times> bool" where
  "action_bits Auth = (True, True, False, False)"
| "action_bits AuthPermanent = (False, False, False, False)"
| "action_bits Billing = (False, False, True, False)"
| "action_bits RateLimit = (True, True, False, False)"
| "action_bits Overloaded = (True, False, True, False)"
| "action_bits ServerError = (True, False, True, False)"
| "action_bits Timeout = (True, False, False, False)"
| "action_bits ContextOverflow = (True, False, False, True)"
| "action_bits PayloadTooLarge = (True, False, False, True)"
| "action_bits ModelNotFound = (False, False, True, False)"
| "action_bits ContentPolicyBlocked = (False, False, False, False)"
| "action_bits FormatError = (True, False, False, False)"
| "action_bits Unknown = (True, False, True, False)"

fun status_of :: "api_error \<Rightarrow> u16 option" where
  "status_of (Status st body) = Some st"
| "status_of _ = None"

definition classify :: "from_str \<Rightarrow> api_error \<Rightarrow> classify_ctx \<Rightarrow> classified_error" where
  "classify from_str err ctx =
     (let status = status_of err;
          msg = extract_message from_str err;
          reset = (case retry_after_ms ctx of Some ms \<Rightarrow> Some ms | None \<Rightarrow> extract_reset_ms msg);
          why = classify_reason err status msg
      in case action_bits why of (rt, rot, fb, cmp) \<Rightarrow>
        \<lparr>reason = why, status_code = status, retryable = rt, should_compress = cmp,
         should_rotate_credential = rot, should_fallback = fb, reset_at_ms = reset\<rparr>)"

section \<open>The retry decision and the fallback chain\<close>

datatype action = Rotate | Fallback | Compress | Backoff | Abort

definition decide_action :: "classified_error \<Rightarrow> action" where
  "decide_action ce =
     (if should_rotate_credential ce then Rotate
      else if should_fallback ce then Fallback
      else if should_compress ce then Compress
      else if retryable ce then Backoff
      else Abort)"

type_synonym link = "rstr \<times> rstr \<times> api_mode"

record fallback_chain =
  links :: "link list"
  idx :: nat

definition chain_new :: "link list \<Rightarrow> fallback_chain" where
  "chain_new ls = \<lparr>links = ls, idx = 0\<rparr>"

text \<open>\<open>current\<close> indexes the vector: out of range it panics (\<open>None\<close>).\<close>

definition chain_current :: "fallback_chain \<Rightarrow> link option" where
  "chain_current fc = (if idx fc < length (links fc) then Some (links fc ! idx fc) else None)"

definition chain_advance :: "fallback_chain \<Rightarrow> fallback_chain \<times> link option" where
  "chain_advance fc =
     (if idx fc + 1 < length (links fc)
      then (fc\<lparr>idx := idx fc + 1\<rparr>, Some (links fc ! (idx fc + 1)))
      else (fc, None))"

section \<open>Back-off delays\<close>

record retry_policy =
  base_ms :: u64
  max_ms :: u64

definition default_retry_policy :: retry_policy where
  "default_retry_policy = \<lparr>base_ms = 500, max_ms = 60000\<rparr>"

text \<open>\<open>byte\<close> is the first byte of the fresh UUID.\<close>

definition jitter_factor_milli :: "u8 \<Rightarrow> u64" where
  "jitter_factor_milli byte = 900 + ucast byte * 200 div 255"

definition backoff_jittered :: "u8 \<Rightarrow> retry_policy \<Rightarrow> u32 \<Rightarrow> u64" where
  "backoff_jittered byte p attempt =
     (let exp = sat_mul (base_ms p) (push_bit (unat (min (sat_sub attempt 1) 20)) 1)
      in min (sat_mul exp (jitter_factor_milli byte) div 1000) (max_ms p))"

definition backoff_delay_ms :: "u8 \<Rightarrow> retry_policy \<Rightarrow> u32 \<Rightarrow> i64 option \<Rightarrow> u64" where
  "backoff_delay_ms byte p attempt reset =
     (case reset of
        Some r \<Rightarrow> if r \<ge> 0 then min (word_of_int r) (max (max_ms p) (word_of_int r))
                  else backoff_jittered byte p attempt
      | None \<Rightarrow> backoff_jittered byte p attempt)"

text \<open>\<open>http_date_ms v\<close>: milliseconds from now to the HTTP-date \<open>v\<close>, \<open>None\<close> when \<open>v\<close> is no
  date or lies in the past (\<open>httpdate\<close> and the system clock).\<close>

definition parse_retry_after_ms :: "(rstr \<Rightarrow> nat option) \<Rightarrow> rstr \<Rightarrow> i64 option" where
  "parse_retry_after_ms http_date_ms v0 =
     (let v = trim v0 in
      case parse_i64 v of
        Some secs \<Rightarrow> Some (sat_i64 (max secs 0 * 1000))
      | None \<Rightarrow> map_option (\<lambda>d. if in_i64 (int d) then int d else i64_max) (http_date_ms v))"

section \<open>Facts about classification\<close>

lemma classify_simps [simp]:
  "reason (classify f err ctx) = classify_reason err (status_of err) (extract_message f err)"
  "status_code (classify f err ctx) = status_of err"
  "reset_at_ms (classify f err ctx) =
     (case retry_after_ms ctx of Some ms \<Rightarrow> Some ms | None \<Rightarrow> extract_reset_ms (extract_message f err))"
  by (simp_all add: classify_def Let_def split: prod.splits)

text \<open>The action each reason leads to.\<close>

fun action_of_reason :: "failover_reason \<Rightarrow> action" where
  "action_of_reason Auth = Rotate"
| "action_of_reason RateLimit = Rotate"
| "action_of_reason Billing = Fallback"
| "action_of_reason Overloaded = Fallback"
| "action_of_reason ServerError = Fallback"
| "action_of_reason ModelNotFound = Fallback"
| "action_of_reason Unknown = Fallback"
| "action_of_reason ContextOverflow = Compress"
| "action_of_reason PayloadTooLarge = Compress"
| "action_of_reason Timeout = Backoff"
| "action_of_reason FormatError = Backoff"
| "action_of_reason AuthPermanent = Abort"
| "action_of_reason ContentPolicyBlocked = Abort"

lemma decide_classify: "decide_action (classify f err ctx) = action_of_reason (reason (classify f err ctx))"
  by (cases "classify_reason err (status_of err) (extract_message f err)")
     (simp_all add: decide_action_def classify_def)

lemma decide_action_Abort_iff:
  "decide_action ce = Abort \<longleftrightarrow>
     \<not> should_rotate_credential ce \<and> \<not> should_fallback ce \<and> \<not> should_compress ce \<and> \<not> retryable ce"
  by (simp add: decide_action_def)

definition policy_blocked :: "rstr \<Rightarrow> bool" where
  "policy_blocked msg \<longleftrightarrow> contains msg (str ''content policy'') \<or> contains msg (str ''content_policy'')"

definition context_overflow :: "rstr \<Rightarrow> bool" where
  "context_overflow msg \<longleftrightarrow> contains msg (str ''context length'') \<or> contains msg (str ''context_length'')
     \<or> contains msg (str ''maximum context'')"

lemma transient_or_billing_neq:
  "transient_or_billing msg Unknown \<noteq> AuthPermanent" "transient_or_billing msg Unknown \<noteq> ContentPolicyBlocked"
  "transient_or_billing msg RateLimit \<noteq> AuthPermanent" "transient_or_billing msg RateLimit \<noteq> ContentPolicyBlocked"
  by (simp_all add: transient_or_billing_def)

lemma classify_reason_AuthPermanent:
  "classify_reason err status msg = AuthPermanent \<longleftrightarrow> \<not> is_stream_timeout err \<and> contains_any msg TERMINAL_AUTH"
  by (auto simp: classify_reason_def transient_or_billing_neq split: option.splits)

lemma classify_reason_ContentPolicy:
  "classify_reason err status msg = ContentPolicyBlocked \<longleftrightarrow>
     \<not> is_stream_timeout err \<and> \<not> contains_any msg TERMINAL_AUTH \<and> policy_blocked msg"
  by (auto simp: classify_reason_def policy_blocked_def transient_or_billing_neq split: option.splits)

lemma action_of_reason_Abort: "action_of_reason r = Abort \<longleftrightarrow> r = AuthPermanent \<or> r = ContentPolicyBlocked"
  by (cases r) simp_all

lemma classify_reason_not_FormatError: "classify_reason err status msg \<noteq> FormatError"
  by (auto simp: classify_reason_def transient_or_billing_def split: option.splits)

lemma reset_unit_bounds: "0 \<le> num \<Longrightarrow> reset_unit num rest = Some ms \<Longrightarrow> 0 \<le> ms \<and> ms \<le> i64_max"
  by (auto simp: reset_unit_def sat_i64_def i64_min_def i64_max_def split: if_splits)

lemma digits_not_sign: "is_ascii_digit c \<Longrightarrow> c \<noteq> 45 \<and> c \<noteq> 43"
  by (auto simp: is_ascii_digit_def)

lemma parse_i64_digits_nonneg:
  "is_ascii_digit (hd ds) \<Longrightarrow> parse_i64 ds = Some n \<Longrightarrow> 0 \<le> n"
  by (auto simp: parse_i64_def check_i64_def is_ascii_digit_def bind_eq_Some_conv split: list.splits if_splits)

lemma extract_reset_ms_bounds: "extract_reset_ms s = Some ms \<Longrightarrow> 0 \<le> ms \<and> ms \<le> i64_max"
proof (induction s rule: extract_reset_ms.induct)
  case 1
  then show ?case by simp
next
  case (2 c s)
  show ?case
  proof (cases "is_ascii_digit c")
    case True
    let ?num = "the_or 0 (parse_i64 (takeWhile is_ascii_digit (c # s)))"
    let ?after = "dropWhile is_ascii_digit (c # s)"
    have "0 \<le> ?num"
      using parse_i64_digits_nonneg [of "takeWhile is_ascii_digit (c # s)"] True
      by (cases "parse_i64 (takeWhile is_ascii_digit (c # s))") auto
    then show ?thesis
      using "2.IH"(1) [OF True refl refl refl] "2.prems" True reset_unit_bounds
      by (auto simp: Let_def split: option.splits)
  next
    case False
    with "2.IH"(2) "2.prems" show ?thesis by simp
  qed
qed

section \<open>Facts about the fallback chain and the back-off\<close>

lemma chain_advance_progress:
  "chain_advance fc = (fc', Some l) \<Longrightarrow>
     links fc' = links fc \<and> idx fc' = Suc (idx fc) \<and> idx fc' < length (links fc) \<and> chain_current fc' = Some l"
  by (auto simp: chain_advance_def chain_current_def split: if_splits)

lemma chain_advance_stop: "chain_advance fc = (fc', None) \<Longrightarrow> fc' = fc \<and> length (links fc) \<le> Suc (idx fc)"
  by (auto simp: chain_advance_def split: if_splits)

lemma jitter_bounds: "900 \<le> unat (jitter_factor_milli byte) \<and> unat (jitter_factor_milli byte) \<le> 1100"
proof -
  have b: "unat byte \<le> 255" using unsigned_less [of byte, where ?'a = nat] by simp
  then have s: "unat byte * 200 div 255 \<le> 200" by (simp add: div_le_mono)
  have u: "unat (ucast byte :: u64) = unat byte"
    using b by (simp add: unsigned_ucast_eq take_bit_nat_eq_self)
  have m: "unat (ucast byte * 200 :: u64) = unat byte * 200"
    using b by (simp add: unat_word_ariths u)
  have d: "unat (ucast byte * 200 div 255 :: u64) = unat byte * 200 div 255"
    by (simp add: unat_div m)
  have "unat (900 + ucast byte * 200 div 255 :: u64) = 900 + unat byte * 200 div 255"
    using s by (subst unat_add_lem [THEN iffD1]) (simp_all add: d)
  with s show ?thesis by (simp add: jitter_factor_milli_def)
qed

lemma word_of_int_unat: "0 \<le> r \<Longrightarrow> r \<le> i64_max \<Longrightarrow> unat (word_of_int r :: u64) = nat r"
  by (simp add: unat_eq_nat_uint uint_word_of_int i64_max_def)

section \<open>Properties\<close>

text \<open>Further: the recovery loop gives up on an error exactly when it is no stream timeout and its extracted
  message carries a terminal authentication or content-policy signal; every other error leads to a
  recovery action, and which one is a function of the reason alone.\<close>

theorem classify_abort_iff:
  "(decide_action (classify f err ctx) = Abort \<longleftrightarrow>
      \<not> is_stream_timeout err \<and>
      (contains_any (extract_message f err) TERMINAL_AUTH \<or> policy_blocked (extract_message f err)))
   \<and> decide_action (classify f err ctx) = action_of_reason (reason (classify f err ctx))
   \<and> reason (classify f err ctx) \<noteq> FormatError"
  unfolding decide_classify action_of_reason_Abort classify_simps
    classify_reason_AuthPermanent classify_reason_ContentPolicy
  using classify_reason_not_FormatError by blast

text \<open>Further: an HTTP 429 whose message has no terminal, policy or context-length signal rotates the
  credential, unless the message has a billing signal and no transient signal, in which case the loop
  falls back to another provider.\<close>

theorem classify_rate_limit:
  assumes "\<not> contains_any (extract_message f (Status 429 body)) TERMINAL_AUTH"
    and "\<not> policy_blocked (extract_message f (Status 429 body))"
    and "\<not> context_overflow (extract_message f (Status 429 body))"
  shows "decide_action (classify f (Status 429 body) ctx) =
     (if contains_any (extract_message f (Status 429 body)) BILLING_SIGNALS
        \<and> \<not> contains_any (extract_message f (Status 429 body)) TRANSIENT_SIGNALS
      then Fallback else Rotate)"
  using assms
  by (simp add: decide_classify classify_reason_def is_stream_timeout_def policy_blocked_def
      context_overflow_def transient_or_billing_def)

theorem classify_rate_limit_witness:
  "decide_action (classify (\<lambda>_. None) (Status 429 (str ''Quota gone'')) \<lparr>cc_provider = [], retry_after_ms = None\<rparr>) = Fallback"
proof -
  let ?m = "extract_message (\<lambda>_. None) (Status 429 (str ''Quota gone''))"
  have m: "?m = str ''quota gone''" by code_simp
  have "\<not> contains_any (str ''quota gone'') TERMINAL_AUTH" "\<not> policy_blocked (str ''quota gone'')"
    "\<not> context_overflow (str ''quota gone'')" "contains_any (str ''quota gone'') BILLING_SIGNALS"
    "\<not> contains_any (str ''quota gone'') TRANSIENT_SIGNALS"
    by code_simp+
  then show ?thesis
    using classify_rate_limit [of "\<lambda>_. None" "str ''Quota gone''"] by (simp add: m)
qed

text \<open>Further: whatever digits an error text or header carries, the reset delay of the classifier is a
  non-negative 64-bit number of milliseconds; the \<open>Retry-After\<close> header wins over the text.\<close>

theorem reset_delay_bounds:
  assumes "reset_at_ms (classify f err \<lparr>cc_provider = pr, retry_after_ms = Option.bind header (parse_retry_after_ms http_date)\<rparr>) = Some ms"
  shows "0 \<le> ms \<and> ms \<le> i64_max
    \<and> (\<forall>d. Option.bind header (parse_retry_after_ms http_date) = Some d \<longrightarrow> ms = d)"
proof -
  have hdr: "0 \<le> d \<and> d \<le> i64_max" if "parse_retry_after_ms http_date v = Some d" for v d
    using that
    by (auto simp: parse_retry_after_ms_def Let_def sat_i64_def in_i64_def i64_min_def i64_max_def
        split: option.splits if_splits)
  show ?thesis
    using assms extract_reset_ms_bounds hdr
    by (cases "Option.bind header (parse_retry_after_ms http_date)")
       (auto simp: bind_eq_Some_conv)
qed

theorem reset_delay_bounds_witness:
  "reset_at_ms (classify (\<lambda>_. None) (Status 429 []) \<lparr>cc_provider = [], retry_after_ms =
     Option.bind (Some (str ''99'')) (parse_retry_after_ms (\<lambda>_. None))\<rparr>) = Some 99000 \<and> (99000::int) \<le> i64_max"
proof -
  have p: "parse_retry_after_ms (\<lambda>_. None) (str ''99'') = Some 99000" by code_simp
  show ?thesis
    using reset_delay_bounds [of "\<lambda>_. None" "Status 429 []" "[]" "Some (str ''99'')" "\<lambda>_. None" 99000] p by simp
qed

text \<open>Further: without a provider hint the back-off delay never exceeds the policy's maximum, whatever the
  attempt number, the base and the jitter; with a non-negative hint it is the hint itself, so the
  maximum does not apply.\<close>

theorem backoff_bounds:
  assumes "case reset of None \<Rightarrow> True | Some r \<Rightarrow> r \<le> i64_max"
  shows "case reset of
      None \<Rightarrow> backoff_delay_ms byte p attempt reset \<le> max_ms p
    | Some r \<Rightarrow> if 0 \<le> r then unat (backoff_delay_ms byte p attempt reset) = nat r
                else backoff_delay_ms byte p attempt reset \<le> max_ms p"
  using assms
  by (auto simp: backoff_delay_ms_def backoff_jittered_def Let_def word_of_int_unat split: option.split)

theorem backoff_bounds_witness:
  "unat (backoff_delay_ms 7 default_retry_policy 3 (Some 90000)) = 90000"
  using backoff_bounds [of "Some 90000" 7 default_retry_policy 3] by (simp add: i64_max_def)

end
