(* ===== verification/Pool.thy ===== *)
theory Pool
  imports Protocol
begin

text \<open>
  The credential pool of \<open>router/src/pool.rs\<close>: three-state credentials (\<open>Ok\<close>, cooling until a
  deadline, \<open>Dead\<close>), four selection strategies, cooldowns, soft leases and pruning. Every method
  of \<open>CredentialPool\<close> is a definition. \<open>Vec::sort_by_key\<close> is the stable \<open>sort_key\<close>; a
  \<open>HashMap\<close> is a map. The lemmas show that selection is sound and complete, which credential
  each strategy picks, that round-robin is fair, that no error parks a credential for longer than
  \<open>MAX_COOLDOWN_MS\<close>, and the lease and status invariants over arbitrary operation sequences.
\<close>

section \<open>State\<close>

datatype pool_strategy = FillFirst | RoundRobin | Random | LeastUsed

record pooled_credential =
  cred_id :: uuid
  label :: "rstr option"
  priority :: int
  status :: cred_status
  key_hint :: rstr
  last_error_code :: "u16 option"
  last_error_reason :: "rstr option"
  request_count :: u64

record credential_pool =
  entries :: "pooled_credential list"
  strategy :: pool_strategy
  rr_cursor :: u64
  leases :: "uuid \<rightharpoonup> u32"
  max_concurrent_per_credential :: u32
  dead_at :: "rstr \<rightharpoonup> i64"

definition ttl_for_status :: "u16 \<Rightarrow> i64" where
  "ttl_for_status st = (if st = 401 then 30 * 1000 else if st = 429 then 60 * 1000 else 60 * 1000)"

definition MAX_COOLDOWN_MS :: i64 where
  "MAX_COOLDOWN_MS = 5 * 60 * 1000"

definition pool_new :: "pooled_credential list \<Rightarrow> pool_strategy \<Rightarrow> credential_pool" where
  "pool_new es st = \<lparr>entries = es, strategy = st, rr_cursor = 0, leases = Map.empty,
     max_concurrent_per_credential = 1, dead_at = Map.empty\<rparr>"

section \<open>Selection\<close>

definition status_ok :: "cred_status \<Rightarrow> i64 \<Rightarrow> bool" where
  "status_ok st now = (case st of CredOk \<Rightarrow> True | Exhausted until \<Rightarrow> now \<ge> until | Dead \<Rightarrow> False)"

definition lease_ok :: "credential_pool \<Rightarrow> pooled_credential \<Rightarrow> bool" where
  "lease_ok p c \<longleftrightarrow> the_or 0 (leases p (cred_id c)) < max_concurrent_per_credential p"

definition eligible :: "credential_pool \<Rightarrow> pooled_credential \<Rightarrow> i64 \<Rightarrow> bool" where
  "eligible p c now \<longleftrightarrow> status_ok (status c) now \<and> lease_ok p c"

definition eligible_idxs :: "credential_pool \<Rightarrow> i64 \<Rightarrow> nat list" where
  "eligible_idxs p now = filter (\<lambda>i. eligible p (entries p ! i) now) [0..<length (entries p)]"

definition select :: "credential_pool \<Rightarrow> i64 \<Rightarrow> credential_pool \<times> pooled_credential option" where
  "select p now =
     (let idxs = eligible_idxs p now in
      if idxs = [] then (p, None)
      else case strategy p of
        FillFirst \<Rightarrow> (p, Some (entries p ! hd (sort_key (\<lambda>i. priority (entries p ! i)) idxs)))
      | LeastUsed \<Rightarrow> (p, Some (entries p ! hd (sort_key (\<lambda>i. request_count (entries p ! i)) idxs)))
      | Random \<Rightarrow> (p, Some (entries p ! (idxs ! (unat (word_of_int now + rr_cursor p) mod length idxs))))
      | RoundRobin \<Rightarrow> (p\<lparr>rr_cursor := rr_cursor p + 1\<rparr>,
                       Some (entries p ! (idxs ! (unat (rr_cursor p) mod length idxs)))))"

definition find_hint :: "credential_pool \<Rightarrow> rstr \<Rightarrow> pooled_credential option" where
  "find_hint p hint = find (\<lambda>c. key_hint c = hint) (entries p)"

section \<open>Status transitions\<close>

text \<open>\<open>find_mut\<close> followed by an update of the credential found: the first one with this hint.\<close>

fun update_hint :: "rstr \<Rightarrow> (pooled_credential \<Rightarrow> pooled_credential) \<Rightarrow> pooled_credential list \<Rightarrow> pooled_credential list" where
  "update_hint hint f [] = []"
| "update_hint hint f (c # cs) = (if key_hint c = hint then f c # cs else c # update_hint hint f cs)"

definition cooldown_until :: "u16 \<Rightarrow> i64 option \<Rightarrow> i64 \<Rightarrow> i64" where
  "cooldown_until st reset_at now =
     min (case reset_at of Some r \<Rightarrow> r | None \<Rightarrow> wrap_i64 (now + ttl_for_status st))
         (wrap_i64 (now + MAX_COOLDOWN_MS))"

definition mark_exhausted :: "u16 \<Rightarrow> i64 option \<Rightarrow> rstr option \<Rightarrow> i64 \<Rightarrow> credential_pool \<Rightarrow> credential_pool" where
  "mark_exhausted st reset_at hint now p =
     (case hint of
        Some h \<Rightarrow> p\<lparr>entries := update_hint h
           (\<lambda>c. c\<lparr>status := Exhausted (cooldown_until st reset_at now), last_error_code := Some st\<rparr>) (entries p)\<rparr>
      | None \<Rightarrow> p)"

definition mark_exhausted_and_rotate ::
  "credential_pool \<Rightarrow> u16 \<Rightarrow> i64 option \<Rightarrow> rstr option \<Rightarrow> i64 \<Rightarrow> credential_pool \<times> pooled_credential option" where
  "mark_exhausted_and_rotate p st reset_at hint now = select (mark_exhausted st reset_at hint now p) now"

definition mark_ok :: "credential_pool \<Rightarrow> rstr \<Rightarrow> credential_pool \<times> bool" where
  "mark_ok p hint =
     (case find_hint p hint of
        Some c \<Rightarrow> (case status c of
            Exhausted _ \<Rightarrow> (p\<lparr>entries := update_hint hint (\<lambda>c. c\<lparr>status := CredOk, last_error_code := None\<rparr>) (entries p)\<rparr>, True)
          | _ \<Rightarrow> (p, False))
      | None \<Rightarrow> (p, False))"

definition mark_dead :: "credential_pool \<Rightarrow> rstr \<Rightarrow> credential_pool" where
  "mark_dead p hint = p\<lparr>entries := update_hint hint (\<lambda>c. c\<lparr>status := Dead\<rparr>) (entries p)\<rparr>"

definition set_dead_at :: "credential_pool \<Rightarrow> rstr \<Rightarrow> i64 \<Rightarrow> credential_pool" where
  "set_dead_at p hint now = p\<lparr>dead_at := (dead_at p)(hint \<mapsto> now)\<rparr>"

definition prune_keeps :: "(rstr \<rightharpoonup> i64) \<Rightarrow> i64 \<Rightarrow> pooled_credential \<Rightarrow> bool" where
  "prune_keeps dead now c \<longleftrightarrow>
     status c \<noteq> Dead \<or> (case dead (key_hint c) of Some d \<Rightarrow> now < wrap_i64 (d + 24 * 3600000) | None \<Rightarrow> True)"

definition prune_dead :: "credential_pool \<Rightarrow> i64 \<Rightarrow> credential_pool" where
  "prune_dead p now = p\<lparr>entries := filter (prune_keeps (dead_at p) now) (entries p)\<rparr>"

section \<open>Leases\<close>

definition acquire_lease :: "credential_pool \<Rightarrow> uuid option \<Rightarrow> credential_pool \<times> uuid option" where
  "acquire_lease p oid =
     (case oid of
        None \<Rightarrow> (p, None)
      | Some i \<Rightarrow>
          (let n = the_or 0 (leases p i) in
           if n \<ge> max_concurrent_per_credential p then (p\<lparr>leases := (leases p)(i \<mapsto> n)\<rparr>, None)
           else (p\<lparr>leases := (leases p)(i \<mapsto> n + 1)\<rparr>, Some i)))"

definition release_lease :: "credential_pool \<Rightarrow> uuid \<Rightarrow> credential_pool" where
  "release_lease p i =
     (case leases p i of Some n \<Rightarrow> p\<lparr>leases := (leases p)(i \<mapsto> sat_sub n 1)\<rparr> | None \<Rightarrow> p)"

section \<open>Selection is sound and complete\<close>

lemma set_eligible_idxs: "set (eligible_idxs p now) = {i. i < length (entries p) \<and> eligible p (entries p ! i) now}"
  by (auto simp: eligible_idxs_def)

lemma sorted_head_in: "xs \<noteq> [] \<Longrightarrow> hd (sort_key f xs) \<in> set xs"
  by (metis hd_in_set set_empty set_sort)

lemma sorted_head_least: "x \<in> set xs \<Longrightarrow> f (hd (sort_key f xs)) \<le> f x"
proof -
  assume x: "x \<in> set xs"
  then obtain y ys where ys: "sort_key f xs = y # ys"
    by (metis empty_iff list.exhaust list.set(1) set_sort)
  have "sorted (map f (y # ys))" using sorted_sort_key [of f xs] by (simp only: ys)
  moreover have "x \<in> set (y # ys)" using x ys set_sort by metis
  ultimately show ?thesis by (auto simp: ys)
qed

lemma select_None_iff: "snd (select p now) = None \<longleftrightarrow> eligible_idxs p now = []"
  by (auto simp: select_def Let_def split: pool_strategy.splits)

lemma select_entries [simp]: "entries (fst (select p now)) = entries p"
  by (auto simp: select_def Let_def split: pool_strategy.splits)

lemma select_frame [simp]:
  "leases (fst (select p now)) = leases p" "dead_at (fst (select p now)) = dead_at p"
  "max_concurrent_per_credential (fst (select p now)) = max_concurrent_per_credential p"
  "strategy (fst (select p now)) = strategy p"
  by (auto simp: select_def Let_def split: pool_strategy.splits)

lemma select_index:
  "select p now = (p', Some c) \<Longrightarrow> \<exists>i \<in> set (eligible_idxs p now). c = entries p ! i"
  by (auto simp: select_def Let_def intro!: bexI sorted_head_in nth_mem
      split: if_splits pool_strategy.splits)

lemma select_eligible: "select p now = (p', Some c) \<Longrightarrow> c \<in> set (entries p) \<and> eligible p c now"
  using select_index [of p now p' c] by (auto simp: set_eligible_idxs)

lemma select_complete: "(\<exists>c \<in> set (entries p). eligible p c now) \<longleftrightarrow> snd (select p now) \<noteq> None"
proof -
  have "(\<exists>c \<in> set (entries p). eligible p c now) \<longleftrightarrow> set (eligible_idxs p now) \<noteq> {}"
    unfolding set_eligible_idxs by (force simp: in_set_conv_nth)
  then show ?thesis by (simp add: select_None_iff)
qed

section \<open>Round-robin is fair\<close>

fun select_n :: "nat \<Rightarrow> credential_pool \<Rightarrow> i64 \<Rightarrow> pooled_credential option list" where
  "select_n 0 p now = []"
| "select_n (Suc n) p now = snd (select p now) # select_n n (fst (select p now)) now"

definition eligible_entries :: "credential_pool \<Rightarrow> i64 \<Rightarrow> pooled_credential list" where
  "eligible_entries p now = map (\<lambda>i. entries p ! i) (eligible_idxs p now)"

lemma eligible_entries_filter: "eligible_entries p now = filter (\<lambda>c. eligible p c now) (entries p)"
proof -
  have "filter (\<lambda>c. eligible p c now) (map (\<lambda>i. entries p ! i) [0..<length (entries p)])
      = map (\<lambda>i. entries p ! i) (filter ((\<lambda>c. eligible p c now) \<circ> (\<lambda>i. entries p ! i)) [0..<length (entries p)])"
    by (rule filter_map)
  then show ?thesis
    by (simp add: eligible_entries_def eligible_idxs_def map_nth comp_def)
qed

lemma eligible_cursor [simp]: "eligible (p\<lparr>rr_cursor := k\<rparr>) c now = eligible p c now"
  by (simp add: eligible_def lease_ok_def)

lemma eligible_entries_cursor [simp]: "eligible_entries (p\<lparr>rr_cursor := k\<rparr>) now = eligible_entries p now"
  by (simp add: eligible_entries_filter)

lemma select_round_robin:
  assumes "strategy p = RoundRobin" "eligible_entries p now \<noteq> []"
  shows "select p now = (p\<lparr>rr_cursor := rr_cursor p + 1\<rparr>,
     Some (eligible_entries p now ! (unat (rr_cursor p) mod length (eligible_entries p now))))"
  using assms by (simp add: select_def eligible_entries_def Let_def)

lemma select_n_round_robin:
  assumes "strategy p = RoundRobin" "eligible_entries p now \<noteq> []" "unat (rr_cursor p) + n < 2 ^ 64"
  shows "select_n n p now =
     map (\<lambda>j. Some (eligible_entries p now ! ((unat (rr_cursor p) + j) mod length (eligible_entries p now)))) [0..<n]"
  using assms
proof (induction n arbitrary: p)
  case 0
  then show ?case by simp
next
  case (Suc n)
  let ?p = "p\<lparr>rr_cursor := rr_cursor p + 1\<rparr>"
  have u: "unat (rr_cursor p + 1) = Suc (unat (rr_cursor p))"
    using Suc.prems(3) by (simp add: unat_word_ariths)
  have "select_n n ?p now =
     map (\<lambda>j. Some (eligible_entries p now ! ((Suc (unat (rr_cursor p)) + j) mod length (eligible_entries p now)))) [0..<n]"
    using Suc.IH [of ?p] Suc.prems u by simp
  then show ?case
    using Suc.prems by (simp add: select_round_robin upt_conv_Cons map_Suc_upt [symmetric] comp_def del: upt_Suc)
qed

lemma mod_shift_surj:
  assumes "(m::nat) > 0" "i < m"
  shows "\<exists>j < m. (a + j) mod m = i"
proof -
  let ?j = "(i + m - a mod m) mod m"
  have "(a + ?j) mod m = (a mod m + (i + m - a mod m)) mod m"
    by (simp add: mod_simps)
  also have "a mod m + (i + m - a mod m) = i + m"
    using mod_less_divisor [OF assms(1), of a] by simp
  finally have "(a + ?j) mod m = i" using assms by simp
  then show ?thesis using assms(1) by (intro exI [of _ ?j]) simp
qed

lemma rotation_image:
  assumes "xs \<noteq> []"
  shows "(\<lambda>j. f (xs ! ((a + j) mod length xs))) ` {0..<length xs} = f ` set xs"
proof
  show "(\<lambda>j. f (xs ! ((a + j) mod length xs))) ` {0..<length xs} \<subseteq> f ` set xs"
    using assms by auto
  show "f ` set xs \<subseteq> (\<lambda>j. f (xs ! ((a + j) mod length xs))) ` {0..<length xs}"
  proof
    fix y assume "y \<in> f ` set xs"
    then obtain i where i: "i < length xs" "y = f (xs ! i)" by (auto simp: in_set_conv_nth)
    then obtain j where "j < length xs" "(a + j) mod length xs = i"
      using mod_shift_surj [of "length xs" i a] assms by auto
    with i show "y \<in> (\<lambda>j. f (xs ! ((a + j) mod length xs))) ` {0..<length xs}" by auto
  qed
qed

section \<open>Status invariants\<close>

lemma update_hint_ids:
  "(\<And>c. cred_id (f c) = cred_id c) \<Longrightarrow> map cred_id (update_hint h f cs) = map cred_id cs"
  by (induction cs) auto

lemma update_hint_hints:
  "(\<And>c. key_hint (f c) = key_hint c) \<Longrightarrow> map key_hint (update_hint h f cs) = map key_hint cs"
  by (induction cs) auto

lemma in_update_hint: "c \<in> set (update_hint h f cs) \<Longrightarrow> c \<in> set cs \<or> (\<exists>d \<in> set cs. key_hint d = h \<and> c = f d)"
  by (induction cs) (auto split: if_splits)

lemma find_hint_update:
  assumes "\<And>c. key_hint (f c) = key_hint c"
  shows "find (\<lambda>c. key_hint c = h') (update_hint h f cs) =
    (if h' = h then map_option f (find (\<lambda>c. key_hint c = h) cs) else find (\<lambda>c. key_hint c = h') cs)"
  using assms by (induction cs) auto

lemma update_hint_absent: "find (\<lambda>c. key_hint c = h) cs = None \<Longrightarrow> update_hint h f cs = cs"
  by (induction cs) (auto split: if_splits)

lemma find_hint_in: "find_hint p h = Some c \<Longrightarrow> c \<in> set (entries p) \<and> key_hint c = h"
  by (auto simp: find_hint_def find_Some_iff)

lemma find_hint_frame [simp]:
  "find_hint (fst (select p now)) h = find_hint p h"
  "find_hint (set_dead_at p h' now) h = find_hint p h"
  "find_hint (fst (acquire_lease p i)) h = find_hint p h"
  "find_hint (release_lease p j) h = find_hint p h"
  by (auto simp: find_hint_def set_dead_at_def acquire_lease_def release_lease_def Let_def split: option.splits)

text \<open>The lookup by hint after each status operation.\<close>

lemma find_mark_exhausted:
  "find_hint (mark_exhausted st r hint now p) h =
     (if hint = Some h
      then map_option (\<lambda>c. c\<lparr>status := Exhausted (cooldown_until st r now), last_error_code := Some st\<rparr>) (find_hint p h)
      else find_hint p h)"
  by (cases hint) (auto simp: mark_exhausted_def find_hint_def find_hint_update)

lemma find_mark_dead:
  "find_hint (mark_dead p h') h = (if h = h' then map_option (\<lambda>c. c\<lparr>status := Dead\<rparr>) (find_hint p h) else find_hint p h)"
  by (simp add: mark_dead_def find_hint_def find_hint_update)

lemma find_mark_ok:
  "find_hint (fst (mark_ok p h')) h =
     (if h = h' then map_option (\<lambda>c. case status c of Exhausted _ \<Rightarrow> c\<lparr>status := CredOk, last_error_code := None\<rparr> | _ \<Rightarrow> c) (find_hint p h)
      else find_hint p h)"
  by (auto simp: mark_ok_def find_hint_def find_hint_update split: option.splits cred_status.splits)

lemma mark_exhausted_frame [simp]:
  "leases (mark_exhausted st r h now p) = leases p"
  "max_concurrent_per_credential (mark_exhausted st r h now p) = max_concurrent_per_credential p"
  by (simp_all add: mark_exhausted_def split: option.split)

lemma cooldown_until_le:
  "in_i64 (now + MAX_COOLDOWN_MS) \<Longrightarrow> cooldown_until st r now \<le> now + MAX_COOLDOWN_MS"
  by (simp add: cooldown_until_def)

lemma cooldown_until_default:
  assumes "in_i64 now" "in_i64 (now + MAX_COOLDOWN_MS)"
  shows "cooldown_until st None now = now + ttl_for_status st"
proof -
  have "in_i64 (now + ttl_for_status st)"
    using assms by (auto simp: in_i64_def ttl_for_status_def MAX_COOLDOWN_MS_def)
  then show ?thesis
    using assms by (auto simp: cooldown_until_def ttl_for_status_def MAX_COOLDOWN_MS_def)
qed

section \<open>The pool as a state machine\<close>

text \<open>The mutating operations, with their arguments.\<close>

datatype pool_op =
    OpSelect i64
  | OpExhaust u16 "i64 option" "rstr option" i64
  | OpOk rstr
  | OpDead rstr
  | OpDeadAt rstr i64
  | OpPrune i64
  | OpAcquire "uuid option"
  | OpRelease uuid

fun pool_step :: "credential_pool \<Rightarrow> pool_op \<Rightarrow> credential_pool" where
  "pool_step p (OpSelect now) = fst (select p now)"
| "pool_step p (OpExhaust st r h now) = fst (mark_exhausted_and_rotate p st r h now)"
| "pool_step p (OpOk h) = fst (mark_ok p h)"
| "pool_step p (OpDead h) = mark_dead p h"
| "pool_step p (OpDeadAt h now) = set_dead_at p h now"
| "pool_step p (OpPrune now) = prune_dead p now"
| "pool_step p (OpAcquire i) = fst (acquire_lease p i)"
| "pool_step p (OpRelease i) = release_lease p i"

inductive pool_reach :: "credential_pool \<Rightarrow> credential_pool \<Rightarrow> bool" where
  pool_refl: "pool_reach p p"
| pool_trans: "pool_reach p q \<Longrightarrow> pool_reach p (pool_step q oper)"

text \<open>No lease counter passes the cap, and no operation invents a credential.\<close>

definition leases_bounded :: "credential_pool \<Rightarrow> bool" where
  "leases_bounded p \<longleftrightarrow> (\<forall>i n. leases p i = Some n \<longrightarrow> n \<le> max_concurrent_per_credential p)"

definition ids :: "credential_pool \<Rightarrow> uuid set" where
  "ids p = cred_id ` set (entries p)"

lemma sat_sub_le: "sat_sub a b \<le> (a :: 'a::len word)"
  by (simp add: word_le_nat_alt unat_sat_sub)

lemma pool_step_cap [simp]:
  "max_concurrent_per_credential (pool_step p oper) = max_concurrent_per_credential p"
  by (cases oper) (auto simp: mark_exhausted_and_rotate_def mark_exhausted_def mark_ok_def mark_dead_def
      set_dead_at_def prune_dead_def acquire_lease_def release_lease_def Let_def
      split: option.splits cred_status.splits)

lemma acquire_bounded:
  assumes "leases_bounded p" shows "leases_bounded (fst (acquire_lease p oid))"
proof (cases oid)
  case None
  with assms show ?thesis by (simp add: acquire_lease_def)
next
  case (Some i)
  let ?n = "the_or 0 (leases p i)"
  have "?n \<le> max_concurrent_per_credential p"
    using assms by (cases "leases p i") (auto simp: leases_bounded_def)
  moreover have "?n < max_concurrent_per_credential p \<Longrightarrow> ?n + 1 \<le> max_concurrent_per_credential p"
    by (rule inc_le)
  ultimately show ?thesis
    using assms Some by (auto simp: acquire_lease_def Let_def leases_bounded_def not_le)
qed

lemma release_bounded: "leases_bounded p \<Longrightarrow> leases_bounded (release_lease p i)"
  by (auto simp: release_lease_def leases_bounded_def intro: order_trans [OF sat_sub_le] split: option.splits)

lemma pool_step_bounded: "leases_bounded p \<Longrightarrow> leases_bounded (pool_step p oper)"
proof (cases oper)
  case (OpAcquire i)
  then show "leases_bounded p \<Longrightarrow> ?thesis" by (simp add: acquire_bounded)
next
  case (OpRelease i)
  then show "leases_bounded p \<Longrightarrow> ?thesis" by (simp add: release_bounded)
qed (auto simp: leases_bounded_def mark_exhausted_and_rotate_def mark_exhausted_def mark_ok_def mark_dead_def
      set_dead_at_def prune_dead_def split: option.splits cred_status.splits)

lemma ids_map: "map cred_id (entries q) = map cred_id (entries p) \<Longrightarrow> ids q = ids p"
  by (metis ids_def set_map)

lemma pool_step_ids: "ids (pool_step p oper) \<subseteq> ids p"
proof (cases oper)
  case (OpPrune now)
  then show ?thesis by (auto simp: prune_dead_def ids_def)
next
  case (OpExhaust st r h now)
  have "ids (pool_step p oper) = ids p"
    by (rule ids_map) (auto simp: OpExhaust mark_exhausted_and_rotate_def mark_exhausted_def update_hint_ids split: option.splits)
  then show ?thesis by simp
next
  case (OpOk h)
  have "ids (pool_step p oper) = ids p"
    by (rule ids_map) (auto simp: OpOk mark_ok_def update_hint_ids split: option.splits cred_status.splits)
  then show ?thesis by simp
next
  case (OpDead h)
  have "ids (pool_step p oper) = ids p"
    by (rule ids_map) (simp add: OpDead mark_dead_def update_hint_ids)
  then show ?thesis by simp
qed (auto simp: ids_def set_dead_at_def acquire_lease_def release_lease_def Let_def split: option.splits)

lemma pool_reach_inv:
  "pool_reach p q \<Longrightarrow> leases_bounded p \<Longrightarrow> leases_bounded q \<and> ids q \<subseteq> ids p
     \<and> max_concurrent_per_credential q = max_concurrent_per_credential p"
proof (induction rule: pool_reach.induct)
  case (pool_refl p)
  then show ?case by simp
next
  case (pool_trans p q oper)
  then show ?case using pool_step_bounded [of q oper] pool_step_ids [of q oper] by auto
qed

section \<open>Properties\<close>

text \<open>A credential and a pool for the concrete instances.\<close>

definition demo_cred :: "uuid \<Rightarrow> string \<Rightarrow> int \<Rightarrow> cred_status \<Rightarrow> pooled_credential" where
  "demo_cred i hint prio st = \<lparr>cred_id = i, label = None, priority = prio, status = st, key_hint = str hint,
     last_error_code = None, last_error_reason = None, request_count = 0\<rparr>"

definition demo_pool :: "pool_strategy \<Rightarrow> credential_pool" where
  "demo_pool st = pool_new [demo_cred 1 ''k1'' 5 CredOk, demo_cred 2 ''k2'' 3 CredOk, demo_cred 3 ''k3'' 1 Dead] st"

lemmas demo_simps = demo_pool_def demo_cred_def pool_new_def eligible_def lease_ok_def status_ok_def

text \<open>C7: \<open>select\<close> returns a credential exactly when some entry is eligible, and what it returns is
  an entry that is not dead, not cooling at \<open>now\<close> and below its lease cap; the entries are unchanged.\<close>

theorem select_sound_complete:
  "(case select p now of
      (p', None) \<Rightarrow> (\<nexists>c. c \<in> set (entries p) \<and> eligible p c now) \<and> p' = p
    | (p', Some c) \<Rightarrow> c \<in> set (entries p) \<and> status_ok (status c) now
        \<and> the_or 0 (leases p (cred_id c)) < max_concurrent_per_credential p
        \<and> entries p' = entries p)"
proof (cases "snd (select p now)")
  case None
  then have "(\<nexists>c. c \<in> set (entries p) \<and> eligible p c now)" using select_complete [of p now] by auto
  moreover have "fst (select p now) = p" using None by (simp add: select_None_iff) (simp add: select_def)
  ultimately show ?thesis using None by (cases "select p now") simp
next
  case (Some c)
  then obtain p' where sel: "select p now = (p', Some c)" by (cases "select p now") simp
  then have "entries p' = entries p" using select_entries [of p now] by simp
  with select_eligible [OF sel] sel show ?thesis by (simp add: eligible_def lease_ok_def)
qed

text \<open>Further: under \<open>FillFirst\<close> the selected credential has the least priority among the eligible
  ones, under \<open>LeastUsed\<close> the least request count.\<close>

theorem select_picks_least:
  assumes "select p now = (p', Some c)" "d \<in> set (entries p)" "eligible p d now"
  shows "(strategy p = FillFirst \<longrightarrow> priority c \<le> priority d) \<and>
         (strategy p = LeastUsed \<longrightarrow> request_count c \<le> request_count d)"
proof -
  obtain i where i: "i < length (entries p)" "d = entries p ! i"
    using assms(2) by (metis in_set_conv_nth)
  then have "i \<in> set (eligible_idxs p now)" using assms(3) by (simp add: set_eligible_idxs)
  then show ?thesis
    using assms(1) i sorted_head_least [of i "eligible_idxs p now" "\<lambda>i. priority (entries p ! i)"]
      sorted_head_least [of i "eligible_idxs p now" "\<lambda>i. request_count (entries p ! i)"]
    by (auto simp: select_def Let_def split: if_splits)
qed

theorem select_picks_least_witness:
  "priority (demo_cred 2 ''k2'' 3 CredOk) \<le> priority (demo_cred 1 ''k1'' 5 CredOk)"
proof -
  have s: "select (demo_pool FillFirst) 7 = (demo_pool FillFirst, Some (demo_cred 2 ''k2'' 3 CredOk))"
    by (simp add: select_def eligible_idxs_def demo_simps upt_rec)
  show ?thesis
    using select_picks_least [OF s, of "demo_cred 1 ''k1'' 5 CredOk"] by (simp add: demo_simps)
qed

text \<open>Further: round-robin is fair: as many consecutive selections as there are eligible credentials
  visit every one of them, and nothing else, wherever the cursor starts.\<close>

theorem round_robin_fair:
  assumes "strategy p = RoundRobin" "eligible_entries p now \<noteq> []"
    and "unat (rr_cursor p) + length (eligible_entries p now) < 2 ^ 64"
  shows "set (select_n (length (eligible_entries p now)) p now)
       = Some ` {c \<in> set (entries p). eligible p c now}"
proof -
  let ?es = "eligible_entries p now"
  have "set (select_n (length ?es) p now)
      = (\<lambda>j. Some (?es ! ((unat (rr_cursor p) + j) mod length ?es))) ` {0..<length ?es}"
    by (simp add: select_n_round_robin [OF assms])
  also have "\<dots> = Some ` set ?es"
    by (rule rotation_image [OF assms(2)])
  also have "set ?es = {c \<in> set (entries p). eligible p c now}"
    by (simp add: eligible_entries_filter)
  finally show ?thesis .
qed

theorem round_robin_fair_witness:
  "set (select_n 2 (demo_pool RoundRobin) 0) = {Some (demo_cred 1 ''k1'' 5 CredOk), Some (demo_cred 2 ''k2'' 3 CredOk)}"
proof -
  have e: "eligible_entries (demo_pool RoundRobin) 0 = [demo_cred 1 ''k1'' 5 CredOk, demo_cred 2 ''k2'' 3 CredOk]"
    by (simp add: eligible_entries_filter demo_simps)
  have "set (select_n (length (eligible_entries (demo_pool RoundRobin) 0)) (demo_pool RoundRobin) 0)
      = Some ` {c \<in> set (entries (demo_pool RoundRobin)). eligible (demo_pool RoundRobin) c 0}"
    by (rule round_robin_fair) (simp_all add: e, simp_all add: demo_simps)
  also have "\<dots> = Some ` set (eligible_entries (demo_pool RoundRobin) 0)"
    by (simp add: eligible_entries_filter)
  finally show ?thesis by (simp add: e numeral_2_eq_2)
qed

text \<open>Further: an error reported for a credential parks it for at most five minutes, whatever the
  provider's reset hint says: its new status is a cooldown ending by \<open>now + MAX_COOLDOWN_MS\<close>, from
  which instant its status is acceptable to selection again; other credentials keep their status.\<close>

theorem cooldown_bounded:
  assumes "in_i64 (now + MAX_COOLDOWN_MS)" "find_hint p h = Some c"
  shows "\<exists>c' until. find_hint (fst (mark_exhausted_and_rotate p st r (Some h) now)) h = Some c'
     \<and> status c' = Exhausted until \<and> until \<le> now + MAX_COOLDOWN_MS
     \<and> status_ok (status c') (now + MAX_COOLDOWN_MS)
     \<and> (\<forall>h'. h' \<noteq> h \<longrightarrow> find_hint (fst (mark_exhausted_and_rotate p st r (Some h) now)) h' = find_hint p h')"
proof -
  let ?q = "mark_exhausted st r (Some h) now p"
  have same: "find_hint (fst (mark_exhausted_and_rotate p st r (Some h) now)) h' = find_hint ?q h'" for h'
    by (simp add: mark_exhausted_and_rotate_def find_hint_def)
  show ?thesis
    using assms cooldown_until_le [OF assms(1)] by (auto simp: same find_mark_exhausted status_ok_def)
qed

theorem cooldown_bounded_witness:
  "\<exists>c' until. find_hint (fst (mark_exhausted_and_rotate (demo_pool FillFirst) 429 (Some 99999999) (Some (str ''k1'')) 1000)) (str ''k1'') = Some c'
     \<and> status c' = Exhausted until \<and> until \<le> 1000 + MAX_COOLDOWN_MS"
proof -
  have "in_i64 (1000 + MAX_COOLDOWN_MS)"
    by (simp add: in_i64_def MAX_COOLDOWN_MS_def i64_min_def i64_max_def)
  moreover have "find_hint (demo_pool FillFirst) (str ''k1'') = Some (demo_cred 1 ''k1'' 5 CredOk)"
    by (simp add: find_hint_def demo_simps)
  ultimately show ?thesis
    using cooldown_bounded [of 1000 "demo_pool FillFirst" "str ''k1''" _ 429 "Some 99999999"] by blast
qed

text \<open>C8: over every sequence of pool operations from a pool within its lease cap, no lease counter
  passes the cap, no credential is invented and the cap never changes.\<close>

theorem pool_lease_safety:
  assumes "pool_reach p q" "leases_bounded p"
  shows "leases_bounded q \<and> cred_id ` set (entries q) \<subseteq> cred_id ` set (entries p)
     \<and> max_concurrent_per_credential q = max_concurrent_per_credential p"
  using pool_reach_inv [OF assms] by (simp add: ids_def)

theorem pool_lease_safety_witness:
  "leases_bounded (pool_step (pool_step (demo_pool Random) (OpAcquire (Some 1))) (OpAcquire (Some 1)))"
  by (rule pool_lease_safety [THEN conjunct1, of "demo_pool Random"])
     (intro pool_reach.intros, simp add: leases_bounded_def demo_simps)

text \<open>Further: a lease taken and given back leaves every lease count as it was, and a credential at its cap
  is refused.\<close>

theorem lease_roundtrip:
  "(case acquire_lease p (Some i) of
      (q, Some j) \<Rightarrow> j = i \<and> the_or 0 (leases q i) = the_or 0 (leases p i) + 1
        \<and> (\<forall>k. the_or 0 (leases (release_lease q i) k) = the_or 0 (leases p k))
    | (q, None) \<Rightarrow> max_concurrent_per_credential p \<le> the_or 0 (leases p i)
        \<and> (\<forall>k. the_or 0 (leases q k) = the_or 0 (leases p k)))"
proof (cases "the_or 0 (leases p i) \<ge> max_concurrent_per_credential p")
  case True
  then show ?thesis by (simp add: acquire_lease_def Let_def)
next
  case False
  let ?n = "the_or 0 (leases p i)"
  have "unat ?n < unat (max_concurrent_per_credential p)" using False by (simp add: word_less_nat_alt not_le)
  then have "unat ?n + 1 < 2 ^ 32"
    using unsigned_less [of "max_concurrent_per_credential p", where ?'a = nat] by simp
  then have "unat (sat_sub (?n + 1) 1) = unat ?n" by (simp add: unat_sat_sub unat_word_ariths)
  then have "sat_sub (?n + 1) 1 = ?n" by (simp add: word_unat_eq_iff)
  with False show ?thesis by (simp add: acquire_lease_def release_lease_def Let_def)
qed

text \<open>Further: when hints are unique, a dead credential stays dead under every operation of the pool but the
  report of an error for its own hint: healing, leases, pruning and errors of other credentials never
  revive it.\<close>

theorem dead_stays_dead:
  assumes "distinct (map key_hint (entries p))" "find_hint p h = Some c" "status c = Dead"
    and "find_hint (pool_step p oper) h = Some c'" "\<nexists>st r now. oper = OpExhaust st r (Some h) now"
  shows "status c' = Dead"
proof (cases oper)
  case (OpExhaust st r hint now)
  then have "hint \<noteq> Some h" using assms(5) by simp
  then have "find_hint (pool_step p oper) h = find_hint p h"
    using find_mark_exhausted [of st r hint now p h]
    by (simp add: OpExhaust mark_exhausted_and_rotate_def find_hint_def)
  with assms show ?thesis by simp
next
  case (OpPrune now)
  have "c \<in> set (entries p)" "key_hint c = h" using assms(2) find_hint_in by blast+
  moreover have "c' \<in> set (entries p)" "key_hint c' = h"
    using assms(4) find_hint_in [of "prune_dead p now" h c'] by (auto simp: OpPrune prune_dead_def)
  ultimately have "c' = c" using assms(1) by (auto simp: distinct_map inj_on_def)
  with assms(3) show ?thesis by simp
qed (use assms in \<open>auto simp: find_mark_ok find_mark_dead split: if_splits\<close>)

theorem dead_stays_dead_witness:
  "status (demo_cred 3 ''k3'' 1 Dead) = Dead"
  by (rule dead_stays_dead [of "demo_pool FillFirst" "str ''k3''" "demo_cred 3 ''k3'' 1 Dead" "OpOk (str ''k3'')"])
     (simp_all add: demo_simps find_hint_def mark_ok_def)

text \<open>Further: the exception of the previous property is real: an error reported for the hint of a dead
  credential turns it back into a cooling one, and once the cooldown has passed the pool selects it
  again, although the comment on \<open>mark_dead\<close> says that a dead credential never re-enters rotation.\<close>

theorem exhausted_report_revives_dead:
  assumes "in_i64 (now + MAX_COOLDOWN_MS)" "find_hint p h = Some c" "status c = Dead" "lease_ok p c"
  shows "\<exists>c'. find_hint (fst (mark_exhausted_and_rotate p st r (Some h) now)) h = Some c'
     \<and> cred_id c' = cred_id c
     \<and> eligible (fst (mark_exhausted_and_rotate p st r (Some h) now)) c' (now + MAX_COOLDOWN_MS)"
proof -
  let ?q = "mark_exhausted st r (Some h) now p"
  have "find_hint (fst (mark_exhausted_and_rotate p st r (Some h) now)) h = find_hint ?q h"
    by (simp add: mark_exhausted_and_rotate_def find_hint_def)
  then show ?thesis
    using assms cooldown_until_le [OF assms(1), of st r]
    by (simp add: find_mark_exhausted eligible_def status_ok_def lease_ok_def mark_exhausted_and_rotate_def)
qed

theorem exhausted_report_revives_dead_witness:
  "\<exists>c'. find_hint (fst (mark_exhausted_and_rotate (demo_pool FillFirst) 429 None (Some (str ''k3'')) 0)) (str ''k3'') = Some c'
     \<and> cred_id c' = 3
     \<and> eligible (fst (mark_exhausted_and_rotate (demo_pool FillFirst) 429 None (Some (str ''k3'')) 0)) c' 300000"
proof -
  have "in_i64 (0 + MAX_COOLDOWN_MS)"
    by (simp add: in_i64_def MAX_COOLDOWN_MS_def i64_min_def i64_max_def)
  then show ?thesis
    using exhausted_report_revives_dead [of 0 "demo_pool FillFirst" "str ''k3''" "demo_cred 3 ''k3'' 1 Dead" 429 None]
    by (simp add: demo_simps find_hint_def MAX_COOLDOWN_MS_def)
qed

end
