(* ===== verification/Transcript.thy ===== *)
theory Transcript
  imports Protocol
begin

text \<open>
  Transcript hygiene: the untrusted-content fences (\<open>router/src/sanitize.rs\<close> and
  \<open>utils/fence/src/lib.rs\<close>), the compressor with its orphan cleaning
  (\<open>router/src/compress.rs\<close>), and the copy that is sent to a provider: role repair and recall
  injection of \<open>router/src/turn.rs\<close>. The lemmas show that fenced content cannot contain a
  reserved tag, that no orphan tool result survives, and when the repaired copy alternates.
\<close>

section \<open>Fences\<close>

definition escape_reserved_tags :: "rstr \<Rightarrow> rstr" where
  "escape_reserved_tags s0 =
     (let s1 = replace s0 (str ''<system-reminder>'') (str ''&lt;system-reminder&gt;'');
          s2 = replace s1 (str ''</system-reminder>'') (str ''&lt;/system-reminder&gt;'');
          s3 = replace s2 (str ''<untrusted_source>'') (str ''&lt;untrusted_source&gt;'')
      in replace s3 (str ''</untrusted_source>'') (str ''&lt;/untrusted_source&gt;''))"

definition fence_open :: "rstr \<Rightarrow> rstr" where
  "fence_open origin = str ''<untrusted_source origin='' @ [34] @ origin @ [34, 62]"

definition fence_close :: rstr where
  "fence_close = str ''</untrusted_source>''"

definition fence_untrusted :: "rstr \<Rightarrow> rstr \<Rightarrow> rstr" where
  "fence_untrusted origin body = fence_open origin @ escape_reserved_tags body @ fence_close"

text \<open>The fence of the leaf crate escapes a larger namespace.\<close>

definition RESERVED :: "rstr list" where
  "RESERVED = map str [''system-reminder'', ''untrusted_source'', ''system'', ''tool_result'', ''tool_use'']"

definition escape_tag :: "rstr \<Rightarrow> rstr \<Rightarrow> rstr" where
  "escape_tag tag s =
     replace (replace s (str ''<'' @ tag @ str ''>'') (str ''&lt;'' @ tag @ str ''&gt;''))
       (str ''</'' @ tag @ str ''>'') (str ''&lt;/'' @ tag @ str ''&gt;'')"

definition util_fence_untrusted :: "rstr \<Rightarrow> rstr \<Rightarrow> rstr" where
  "util_fence_untrusted origin content0 =
     fence_open origin @ foldl (\<lambda>s tag. escape_tag tag s) content0 RESERVED @ fence_close"

section \<open>Compression and orphan cleaning\<close>

definition call_ids :: "message \<Rightarrow> rstr list" where
  "call_ids m = (case tool_calls m of None \<Rightarrow> [] | Some tcs \<Rightarrow> List.map_filter tc_id tcs)"

fun clean_from :: "rstr list \<Rightarrow> message list \<Rightarrow> message list" where
  "clean_from known [] = []"
| "clean_from known (m # ms) =
     (let known' = known @ call_ids m in
      if role m = Tool then
        (case tool_call_id m of
           Some i \<Rightarrow> if i \<in> set known' then m # clean_from known' ms else clean_from known' ms
         | None \<Rightarrow> clean_from known' ms)
      else m # clean_from known' ms)"

definition clean_orphan_tool_results :: "message list \<Rightarrow> message list" where
  "clean_orphan_tool_results msgs = clean_from [] msgs"

definition plain_message :: "role \<Rightarrow> rstr \<Rightarrow> message" where
  "plain_message r text = \<lparr>role = r, content = Some text, tool_call_id = None, tool_name = None,
     tool_calls = None, finish_reason = None, reasoning = None, provider_data = None,
     active = True, is_untrusted = False\<rparr>"

text \<open>\<open>summarize\<close> is the closure argument of the source.\<close>

definition compress_oldest :: "message list \<Rightarrow> nat \<Rightarrow> (message list \<Rightarrow> rstr) \<Rightarrow> message list" where
  "compress_oldest history count summarize =
     (let sys = filter (\<lambda>m. role m = System) history;
          non_sys = filter (\<lambda>m. role m \<noteq> System) history
      in if length non_sys \<le> count then history
         else clean_orphan_tool_results
                (sys @ [plain_message Assistant (summarize (take count non_sys))] @ drop count non_sys))"

section \<open>The copy sent to a provider\<close>

definition merge_content :: "message \<Rightarrow> message \<Rightarrow> message" where
  "merge_content l m = l\<lparr>content := Some (trim (the_or [] (content l) @ nl @ the_or [] (content m)))\<rparr>"

definition coalesces :: "message \<Rightarrow> message \<Rightarrow> bool" where
  "coalesces l m \<longleftrightarrow> role l = role m \<and> (role m = User \<or> role m = Assistant)"

definition repair_step :: "message list \<Rightarrow> message \<Rightarrow> message list" where
  "repair_step out m =
     (if out \<noteq> [] \<and> coalesces (last out) m then butlast out @ [merge_content (last out) m]
      else out @ [m])"

definition repair_role_alternation :: "message list \<Rightarrow> message list" where
  "repair_role_alternation msgs = clean_orphan_tool_results (foldl repair_step [] msgs)"

definition build_api_copy :: "message list \<Rightarrow> message list" where
  "build_api_copy history = repair_role_alternation history"

definition inject :: "rstr \<Rightarrow> rstr \<Rightarrow> message \<Rightarrow> message" where
  "inject origin recall m =
     m\<lparr>content := Some (the_or [] (content m) @ nl @ nl @ fence_untrusted origin recall), is_untrusted := True\<rparr>"

text \<open>\<open>update_last P f\<close>: apply \<open>f\<close> to the last element that satisfies \<open>P\<close>
  (\<open>iter_mut().rev().find(..)\<close>).\<close>

fun update_first :: "('a \<Rightarrow> bool) \<Rightarrow> ('a \<Rightarrow> 'a) \<Rightarrow> 'a list \<Rightarrow> 'a list" where
  "update_first P f [] = []"
| "update_first P f (x # xs) = (if P x then f x # xs else x # update_first P f xs)"

definition update_last :: "('a \<Rightarrow> bool) \<Rightarrow> ('a \<Rightarrow> 'a) \<Rightarrow> 'a list \<Rightarrow> 'a list" where
  "update_last P f xs = rev (update_first P f (rev xs))"

definition inject_recall_into_tail :: "message list \<Rightarrow> rstr \<Rightarrow> rstr \<Rightarrow> message list" where
  "inject_recall_into_tail history origin recall =
     update_last (\<lambda>m. role m = User) (inject origin recall) history"

section \<open>Escaping removes every reserved tag\<close>

definition tag_rule :: "rstr \<times> rstr \<Rightarrow> bool" where
  "tag_rule = (\<lambda>(p, r). p \<noteq> [] \<and> hd p = 60 \<and> last p = 62 \<and> 60 \<notin> set r \<and> 62 \<notin> set r
     \<and> 38 \<in> set r \<and> 38 \<notin> set p)"

definition apply_rules :: "(rstr \<times> rstr) list \<Rightarrow> rstr \<Rightarrow> rstr" where
  "apply_rules rules s = foldl (\<lambda>s (p, r). replace s p r) s rules"

lemma apply_rules_Nil [simp]: "apply_rules [] s = s"
  and apply_rules_Cons [simp]: "apply_rules ((p, r) # rs) s = apply_rules rs (replace s p r)"
  by (simp_all add: apply_rules_def)

lemma apply_rules_keeps_absent:
  "list_all tag_rule rs \<Longrightarrow> tag_rule (p, r) \<Longrightarrow> \<not> contains s p \<Longrightarrow> \<not> contains (apply_rules rs s) p"
proof (induction rs arbitrary: s)
  case (Cons a rs)
  obtain p' r' where a: "a = (p', r')" by (cases a)
  have "\<not> contains (replace s p' r') p"
    by (rule replace_keeps_absent [of _ _ _ 38]) (use Cons.prems a in \<open>auto simp: tag_rule_def\<close>)
  with Cons a show ?case by simp
qed simp

lemma apply_rules_removes:
  "list_all tag_rule rs \<Longrightarrow> (p, r) \<in> set rs \<Longrightarrow> \<not> contains (apply_rules rs s) p"
proof (induction rs arbitrary: s)
  case (Cons a rs)
  obtain p' r' where a: "a = (p', r')" by (cases a)
  show ?case
  proof (cases "(p, r) = a")
    case True
    have "\<not> contains (replace s p r) p"
      by (rule replace_removes [of _ _ 38]) (use Cons.prems a True in \<open>auto simp: tag_rule_def\<close>)
    then show ?thesis
      using apply_rules_keeps_absent [of rs p r] Cons.prems a True by auto
  next
    case False
    with Cons a show ?thesis by auto
  qed
qed simp

lemma apply_rules_absent:
  "list_all tag_rule rs \<Longrightarrow> (\<And>p r. (p, r) \<in> set rs \<Longrightarrow> \<not> contains s p) \<Longrightarrow> apply_rules rs s = s"
proof (induction rs)
  case (Cons a rs)
  obtain p r where a: "a = (p, r)" by (cases a)
  have "replace s p r = s"
    by (rule replace_absent) (use Cons.prems a in \<open>auto simp: tag_rule_def\<close>)
  moreover have "apply_rules rs s = s" by (rule Cons.IH) (use Cons.prems a in auto)
  ultimately show ?case by (simp add: a)
qed simp

definition sanitize_rules :: "(rstr \<times> rstr) list" where
  "sanitize_rules = [(str ''<system-reminder>'', str ''&lt;system-reminder&gt;''),
     (str ''</system-reminder>'', str ''&lt;/system-reminder&gt;''),
     (str ''<untrusted_source>'', str ''&lt;untrusted_source&gt;''),
     (str ''</untrusted_source>'', str ''&lt;/untrusted_source&gt;'')]"

lemma escape_reserved_rules: "escape_reserved_tags s = apply_rules sanitize_rules s"
  by (simp add: escape_reserved_tags_def sanitize_rules_def Let_def)

lemma sanitize_rules_ok: "list_all tag_rule sanitize_rules"
  by code_simp

definition fence_rules :: "rstr list \<Rightarrow> (rstr \<times> rstr) list" where
  "fence_rules tags = concat (map (\<lambda>tag. [(str ''<'' @ tag @ str ''>'', str ''&lt;'' @ tag @ str ''&gt;''),
     (str ''</'' @ tag @ str ''>'', str ''&lt;/'' @ tag @ str ''&gt;'')]) tags)"

lemma fence_fold_rules: "foldl (\<lambda>s tag. escape_tag tag s) s tags = apply_rules (fence_rules tags) s"
  by (induction tags arbitrary: s) (simp_all add: fence_rules_def escape_tag_def)

lemma fence_rules_ok: "list_all tag_rule (fence_rules RESERVED)"
  by code_simp

section \<open>Orphan cleaning\<close>

lemma clean_from_subseq: "subseq (clean_from known ms) ms"
proof (induction ms arbitrary: known)
  case (Cons m ms)
  have "subseq (clean_from (known @ call_ids m) ms) (m # ms)" using Cons by blast
  then show ?case using Cons by (auto simp: Let_def split: option.split)
qed simp

lemma clean_from_others: "filter (\<lambda>m. role m \<noteq> Tool) (clean_from known ms) = filter (\<lambda>m. role m \<noteq> Tool) ms"
  by (induction ms arbitrary: known) (simp_all add: Let_def split: option.split)

lemma set_call_ids_tool: "tool_calls m = None \<Longrightarrow> call_ids m = []"
  by (simp add: call_ids_def)

text \<open>\<open>no_orphans known ms\<close>: every tool result of \<open>ms\<close> answers a call of \<open>known\<close> or of an earlier
  message of \<open>ms\<close>.\<close>

fun no_orphans :: "rstr list \<Rightarrow> message list \<Rightarrow> bool" where
  "no_orphans known [] = True"
| "no_orphans known (m # ms) =
     ((if role m = Tool then (case tool_call_id m of Some i \<Rightarrow> i \<in> set (known @ call_ids m) | None \<Rightarrow> False) else True)
      \<and> no_orphans (known @ call_ids m) ms)"

definition tools_call_nothing :: "message list \<Rightarrow> bool" where
  "tools_call_nothing ms \<longleftrightarrow> list_all (\<lambda>m. role m = Tool \<longrightarrow> tool_calls m = None) ms"

lemma clean_from_no_orphans: "tools_call_nothing ms \<Longrightarrow> no_orphans known (clean_from known ms)"
proof (induction ms arbitrary: known)
  case (Cons m ms)
  then have ms: "tools_call_nothing ms" by (simp add: tools_call_nothing_def)
  have "call_ids m = []" if "role m = Tool"
    using Cons.prems that by (simp add: tools_call_nothing_def set_call_ids_tool)
  with Cons.IH [OF ms] show ?case by (auto simp: Let_def split: option.split)
qed simp

lemma clean_from_id: "no_orphans known ms \<Longrightarrow> clean_from known ms = ms"
  by (induction ms arbitrary: known) (auto simp: Let_def split: option.splits if_splits)

section \<open>Role repair\<close>

fun alternating :: "message list \<Rightarrow> bool" where
  "alternating [] = True"
| "alternating [a] = True"
| "alternating (a # b # ms) = (\<not> coalesces a b \<and> alternating (b # ms))"

lemma alternating_snoc: "alternating (ms @ [a, b]) \<longleftrightarrow> alternating (ms @ [a]) \<and> \<not> coalesces a b"
proof (induction ms rule: alternating.induct)
  case (2 v)
  then show ?case by auto
qed auto

lemma alternating_replace_last:
  "role a' = role a \<Longrightarrow> alternating (ms @ [a]) \<Longrightarrow> alternating (ms @ [a'])"
proof (induction ms rule: alternating.induct)
  case (2 v)
  then show ?case by (auto simp: coalesces_def)
qed (auto simp: coalesces_def)

lemma repair_step_alternating: "alternating out \<Longrightarrow> alternating (repair_step out m)"
proof -
  assume alt: "alternating out"
  show ?thesis
  proof (cases "out = []")
    case True
    then show ?thesis by (simp add: repair_step_def)
  next
    case False
    then have out: "out = butlast out @ [last out]" by simp
    show ?thesis
    proof (cases "coalesces (last out) m")
      case True
      then have "repair_step out m = butlast out @ [merge_content (last out) m]"
        using False by (simp add: repair_step_def)
      with alternating_replace_last [of "merge_content (last out) m" "last out" "butlast out"] alt out
      show ?thesis by (simp add: merge_content_def)
    next
      case no: False
      have "repair_step out m = butlast out @ [last out, m]"
        using no False out by (simp add: repair_step_def)
      with alternating_snoc [of "butlast out" "last out" m] alt out no show ?thesis by simp
    qed
  qed
qed

lemma repair_fold_alternating: "alternating out \<Longrightarrow> alternating (foldl repair_step out ms)"
  by (induction ms arbitrary: out) (simp_all add: repair_step_alternating)

lemma update_first_none: "(\<And>x. x \<in> set xs \<Longrightarrow> \<not> P x) \<Longrightarrow> update_first P f xs = xs"
  by (induction xs) auto

lemma update_first_at: "P x \<Longrightarrow> (\<And>a. a \<in> set as \<Longrightarrow> \<not> P a) \<Longrightarrow> update_first P f (as @ x # bs) = as @ f x # bs"
  by (induction as) auto

lemma update_first_split:
  "update_first P f xs = xs \<and> (\<forall>x \<in> set xs. \<not> P x)
   \<or> (\<exists>as x bs. xs = as @ x # bs \<and> P x \<and> (\<forall>a \<in> set as. \<not> P a) \<and> update_first P f xs = as @ f x # bs)"
proof (cases "\<exists>x \<in> set xs. P x")
  case True
  from split_list_first_prop [OF True] obtain as x bs
    where s: "xs = as @ x # bs" "P x" "\<forall>a \<in> set as. \<not> P a" by blast
  moreover have "update_first P f xs = as @ f x # bs" using s update_first_at [of P x as f bs] by simp
  ultimately show ?thesis by blast
next
  case False
  then have "update_first P f xs = xs" by (intro update_first_none) blast
  with False show ?thesis by blast
qed

lemma update_last_split:
  "update_last P f xs = xs \<and> (\<forall>x \<in> set xs. \<not> P x)
   \<or> (\<exists>as x bs. xs = as @ x # bs \<and> P x \<and> (\<forall>b \<in> set bs. \<not> P b) \<and> update_last P f xs = as @ f x # bs)"
  (is "?A \<or> ?B")
proof (cases "\<exists>as x bs. rev xs = as @ x # bs \<and> P x \<and> (\<forall>a \<in> set as. \<not> P a) \<and> update_first P f (rev xs) = as @ f x # bs")
  case True
  then obtain as x bs where s: "rev xs = as @ x # bs" "P x" "\<forall>a \<in> set as. \<not> P a"
    "update_first P f (rev xs) = as @ f x # bs" by blast
  have "xs = rev bs @ x # rev as" using arg_cong [OF s(1), of rev] by simp
  moreover have "update_last P f xs = rev bs @ f x # rev as" by (simp add: update_last_def s(4))
  ultimately have ?B using s(2,3) by (metis set_rev)
  then show ?thesis ..
next
  case False
  with update_first_split [of P f "rev xs"] show ?thesis by (auto simp: update_last_def)
qed

section \<open>Properties\<close>

definition tag_free :: "rstr \<Rightarrow> rstr \<Rightarrow> bool" where
  "tag_free e t \<longleftrightarrow> \<not> contains e (str ''<'' @ t @ str ''>'') \<and> \<not> contains e (str ''</'' @ t @ str ''>'')"

lemma escape_tag_free: "t \<in> {str ''system-reminder'', str ''untrusted_source''} \<Longrightarrow> tag_free (escape_reserved_tags s) t"
proof -
  assume t: "t \<in> {str ''system-reminder'', str ''untrusted_source''}"
  have "(str ''<'' @ t @ str ''>'', str ''&lt;'' @ t @ str ''&gt;'') \<in> set sanitize_rules"
    and "(str ''</'' @ t @ str ''>'', str ''&lt;/'' @ t @ str ''&gt;'') \<in> set sanitize_rules"
    using t by (auto simp: sanitize_rules_def simp flip: str_append)
  then show "tag_free (escape_reserved_tags s) t"
    unfolding tag_free_def escape_reserved_rules using apply_rules_removes [OF sanitize_rules_ok] by blast
qed

lemma fence_tag_free: "t \<in> set RESERVED \<Longrightarrow> tag_free (apply_rules (fence_rules RESERVED) s) t"
proof -
  assume t: "t \<in> set RESERVED"
  have "(str ''<'' @ t @ str ''>'', str ''&lt;'' @ t @ str ''&gt;'') \<in> set (fence_rules RESERVED)"
    and "(str ''</'' @ t @ str ''>'', str ''&lt;/'' @ t @ str ''&gt;'') \<in> set (fence_rules RESERVED)"
    using t by (auto simp: fence_rules_def)
  then show "tag_free (apply_rules (fence_rules RESERVED) s) t"
    unfolding tag_free_def using apply_rules_removes [OF fence_rules_ok] by blast
qed

text \<open>What a fence promises its clients: the escaped text is free of every reserved tag, and text that
  has none of them is passed through unchanged.\<close>

locale tag_fence =
  fixes escape :: "rstr \<Rightarrow> rstr" and tags :: "rstr set"
  assumes escape_free: "t \<in> tags \<Longrightarrow> tag_free (escape s) t"
    and escape_plain: "(\<And>t. t \<in> tags \<Longrightarrow> tag_free s t) \<Longrightarrow> escape s = s"
begin

lemma escape_idem: "escape (escape s) = escape s"
  by (rule escape_plain) (rule escape_free)

lemma fenced_body:
  "\<exists>e. fence_open origin @ escape s @ fence_close = fence_open origin @ e @ fence_close \<and> tags \<subseteq> {t. tag_free e t}
     \<and> escape e = e"
  using escape_free escape_idem by blast

end

interpretation router_fence: tag_fence escape_reserved_tags "{str ''system-reminder'', str ''untrusted_source''}"
proof
  show "t \<in> {str ''system-reminder'', str ''untrusted_source''} \<Longrightarrow> tag_free (escape_reserved_tags s) t" for t s
    by (rule escape_tag_free)
next
  fix s
  assume free: "\<And>t. t \<in> {str ''system-reminder'', str ''untrusted_source''} \<Longrightarrow> tag_free s t"
  have "\<not> contains s p" if "(p, r) \<in> set sanitize_rules" for p r
    using that free [of "str ''system-reminder''"] free [of "str ''untrusted_source''"]
    by (auto simp: sanitize_rules_def tag_free_def simp flip: str_append)
  then show "escape_reserved_tags s = s"
    unfolding escape_reserved_rules by (intro apply_rules_absent sanitize_rules_ok)
qed

interpretation util_fence: tag_fence "\<lambda>s. foldl (\<lambda>s tag. escape_tag tag s) s RESERVED" "set RESERVED"
proof
  show "t \<in> set RESERVED \<Longrightarrow> tag_free (foldl (\<lambda>s tag. escape_tag tag s) s RESERVED) t" for t s
    unfolding fence_fold_rules by (rule fence_tag_free)
next
  fix s
  assume free: "\<And>t. t \<in> set RESERVED \<Longrightarrow> tag_free s t"
  have "\<not> contains s p" if "(p, r) \<in> set (fence_rules RESERVED)" for p r
    using that free by (auto simp: fence_rules_def tag_free_def)
  then show "foldl (\<lambda>s tag. escape_tag tag s) s RESERVED = s"
    unfolding fence_fold_rules by (intro apply_rules_absent fence_rules_ok)
qed

text \<open>Further: whatever the untrusted content is, the body inside either fence contains none of the reserved
  tags, opening or closing, so it can neither close the fence nor open a system block; fencing the
  escaped body again changes nothing.\<close>

theorem fence_neutralizes:
  "(\<exists>e. fence_untrusted origin body = fence_open origin @ e @ fence_close
      \<and> {str ''system-reminder'', str ''untrusted_source''} \<subseteq> {t. tag_free e t}
      \<and> fence_untrusted origin e = fence_untrusted origin body)
   \<and> (\<exists>e. util_fence_untrusted origin body = fence_open origin @ e @ fence_close
      \<and> set RESERVED \<subseteq> {t. tag_free e t}
      \<and> util_fence_untrusted origin e = util_fence_untrusted origin body)"
  unfolding fence_untrusted_def util_fence_untrusted_def
  using router_fence.fenced_body [of origin body] util_fence.fenced_body [of origin body] by force

text \<open>Further: recall is injected into the last user message only: every other message is unchanged, the
  recall text stands fenced at the tail of that message, which is marked untrusted; a history without
  a user message is unchanged.\<close>

theorem inject_recall_tail_only:
  "(inject_recall_into_tail h origin recall = h \<and> User \<notin> role ` set h)
   \<or> (\<exists>pre m post. h = pre @ m # post \<and> role m = User \<and> User \<notin> role ` set post
        \<and> inject_recall_into_tail h origin recall = pre @ inject origin recall m # post
        \<and> is_untrusted (inject origin recall m)
        \<and> content (inject origin recall m) =
            Some (the_or [] (content m) @ nl @ nl @ fence_untrusted origin recall)
        \<and> (inject origin recall m)\<lparr>content := content m, is_untrusted := is_untrusted m\<rparr> = m)"
  using update_last_split [of "\<lambda>m. role m = User" "inject origin recall" h]
  unfolding inject_recall_into_tail_def by (fastforce simp: inject_def)

text \<open>Further: cleaning keeps every message that is no tool result, in order, only drops tool results, leaves
  no orphan among them, and is idempotent (tool results themselves carry no tool calls, as
  \<open>ToolDispatcher::dispatch\<close> builds them).\<close>

theorem clean_orphans_correct:
  assumes "tools_call_nothing ms"
  shows "subseq (clean_orphan_tool_results ms) ms
    \<and> filter (\<lambda>m. role m \<noteq> Tool) (clean_orphan_tool_results ms) = filter (\<lambda>m. role m \<noteq> Tool) ms
    \<and> no_orphans [] (clean_orphan_tool_results ms)
    \<and> clean_orphan_tool_results (clean_orphan_tool_results ms) = clean_orphan_tool_results ms"
  using clean_from_subseq clean_from_others clean_from_no_orphans [OF assms] clean_from_id
  unfolding clean_orphan_tool_results_def by blast

definition demo_tool_result :: message where
  "demo_tool_result = (plain_message Tool (str ''r''))\<lparr>tool_call_id := Some (str ''c9'')\<rparr>"

theorem clean_orphans_correct_witness:
  "no_orphans [] (clean_orphan_tool_results [plain_message User [], demo_tool_result, plain_message Assistant []])
   \<and> clean_orphan_tool_results [plain_message User [], demo_tool_result, plain_message Assistant []]
     = [plain_message User [], plain_message Assistant []]"
  using clean_orphans_correct [of "[plain_message User [], demo_tool_result, plain_message Assistant []]"]
  by (simp add: tools_call_nothing_def plain_message_def demo_tool_result_def clean_orphan_tool_results_def
      Let_def call_ids_def)

text \<open>Further: when no tool result is orphaned after coalescing, the repaired copy has no two adjacent user
  messages and no two adjacent assistant messages.\<close>

theorem repair_alternates:
  assumes "no_orphans [] (foldl repair_step [] msgs)"
  shows "alternating (repair_role_alternation msgs)"
  using repair_fold_alternating [of "[]" msgs] clean_from_id [OF assms]
  by (simp add: repair_role_alternation_def clean_orphan_tool_results_def)

theorem repair_alternates_witness:
  "alternating (repair_role_alternation [plain_message User (str ''a''), plain_message User (str ''b''), plain_message Assistant []])"
  by (rule repair_alternates) (simp add: repair_step_def coalesces_def plain_message_def merge_content_def)

text \<open>Further: the orphan cleaning runs after the coalescing, so dropping an orphan between two user messages
  leaves them adjacent: the repaired copy does not alternate, although the function is there to make
  roles alternate.\<close>

theorem repair_can_leave_adjacent_users:
  "repair_role_alternation [plain_message User (str ''a''), demo_tool_result, plain_message User (str ''b'')]
     = [plain_message User (str ''a''), plain_message User (str ''b'')]
   \<and> \<not> alternating (repair_role_alternation [plain_message User (str ''a''), demo_tool_result, plain_message User (str ''b'')])"
  by (simp add: repair_role_alternation_def repair_step_def coalesces_def plain_message_def demo_tool_result_def
      clean_orphan_tool_results_def Let_def call_ids_def)

text \<open>Further: coalescing two assistant messages keeps the first one's tool calls and drops the second one's,
  so the results that answer the second message's calls are removed as orphans.\<close>

theorem coalesce_drops_tool_calls:
  assumes "role a = Assistant" "role b = Assistant" "tool_calls a = None"
    and "role t = Tool" "tool_call_id t = Some i" "i \<in> set (call_ids b)" "tool_calls t = None"
  shows "repair_role_alternation [a, b, t] = [merge_content a b] \<and> tool_calls (merge_content a b) = None"
  using assms
  by (simp add: repair_role_alternation_def repair_step_def coalesces_def merge_content_def
      clean_orphan_tool_results_def Let_def call_ids_def)

theorem coalesce_drops_tool_calls_witness:
  "tool_calls (merge_content (plain_message Assistant (str ''summary''))
     ((plain_message Assistant [])\<lparr>tool_calls := Some [\<lparr>tc_id = Some (str ''c9''), tc_name = str ''read_page'',
        arguments = str ''{}'', tc_provider_data = None\<rparr>]\<rparr>)) = None"
  by (rule coalesce_drops_tool_calls [where t = demo_tool_result and i = "str ''c9''", THEN conjunct2])
     (simp_all add: plain_message_def demo_tool_result_def call_ids_def map_filter_simps)

end
