(* ===== verification/Ssrf.thy ===== *)
theory Ssrf
  imports Rust_Strings
begin

unbundle bit_operations_syntax

text \<open>
  The egress guard of \<open>http/src/ssrf.rs\<close> and the base-URL checks of \<open>http/src/client.rs\<close>.
  IP addresses and their textual form (\<open>std::net\<close>) are modelled here: \<open>parse_ip\<close> is
  \<open>str::parse::<IpAddr>\<close>. The URL parser (\<open>reqwest::Url\<close>) and the system resolver are
  parameters. The lemmas show which address ranges are blocked, that an IPv4-mapped IPv6 address
  is treated as its IPv4 address, and that no accepted URL names a blocked literal.
\<close>

section \<open>Addresses\<close>

datatype ip_addr = V4 u8 u8 u8 u8 | V6 "u16 list"

definition is_loopback4 :: "u8 \<Rightarrow> u8 \<Rightarrow> u8 \<Rightarrow> u8 \<Rightarrow> bool" where
  "is_loopback4 a b c d \<longleftrightarrow> a = 127"

definition is_private4 :: "u8 \<Rightarrow> u8 \<Rightarrow> u8 \<Rightarrow> u8 \<Rightarrow> bool" where
  "is_private4 a b c d \<longleftrightarrow> a = 10 \<or> (a = 172 \<and> b \<ge> 16 \<and> b \<le> 31) \<or> (a = 192 \<and> b = 168)"

definition is_link_local4 :: "u8 \<Rightarrow> u8 \<Rightarrow> u8 \<Rightarrow> u8 \<Rightarrow> bool" where
  "is_link_local4 a b c d \<longleftrightarrow> a = 169 \<and> b = 254"

definition is_unspecified4 :: "u8 \<Rightarrow> u8 \<Rightarrow> u8 \<Rightarrow> u8 \<Rightarrow> bool" where
  "is_unspecified4 a b c d \<longleftrightarrow> a = 0 \<and> b = 0 \<and> c = 0 \<and> d = 0"

definition is_broadcast4 :: "u8 \<Rightarrow> u8 \<Rightarrow> u8 \<Rightarrow> u8 \<Rightarrow> bool" where
  "is_broadcast4 a b c d \<longleftrightarrow> a = 255 \<and> b = 255 \<and> c = 255 \<and> d = 255"

definition is_documentation4 :: "u8 \<Rightarrow> u8 \<Rightarrow> u8 \<Rightarrow> u8 \<Rightarrow> bool" where
  "is_documentation4 a b c d \<longleftrightarrow> (a = 192 \<and> b = 0 \<and> c = 2) \<or> (a = 198 \<and> b = 51 \<and> c = 100) \<or> (a = 203 \<and> b = 0 \<and> c = 113)"

definition is_multicast4 :: "u8 \<Rightarrow> u8 \<Rightarrow> u8 \<Rightarrow> u8 \<Rightarrow> bool" where
  "is_multicast4 a b c d \<longleftrightarrow> a \<ge> 224 \<and> a \<le> 239"

definition v4_blocked :: "u8 \<Rightarrow> u8 \<Rightarrow> u8 \<Rightarrow> u8 \<Rightarrow> bool" where
  "v4_blocked a b c d \<longleftrightarrow>
     is_loopback4 a b c d \<or> is_private4 a b c d \<or> is_link_local4 a b c d \<or> is_unspecified4 a b c d
     \<or> is_broadcast4 a b c d \<or> is_documentation4 a b c d \<or> is_multicast4 a b c d
     \<or> a = 0 \<or> (a = 100 \<and> b AND 0xc0 = 0x40)"

text \<open>\<open>Ipv6Addr::to_ipv4_mapped\<close>: \<open>::ffff:a.b.c.d\<close> only.\<close>

definition to_ipv4_mapped :: "u16 list \<Rightarrow> (u8 \<times> u8 \<times> u8 \<times> u8) option" where
  "to_ipv4_mapped g =
     (if length g = 8 \<and> take 6 g = [0, 0, 0, 0, 0, 0xffff]
      then Some (ucast (drop_bit 8 (g ! 6)), ucast (g ! 6), ucast (drop_bit 8 (g ! 7)), ucast (g ! 7))
      else None)"

definition ip_is_blocked :: "ip_addr \<Rightarrow> bool" where
  "ip_is_blocked ip = (case ip of
       V4 a b c d \<Rightarrow> v4_blocked a b c d
     | V6 g \<Rightarrow> (case to_ipv4_mapped g of
           Some (a, b, c, d) \<Rightarrow> v4_blocked a b c d
         | None \<Rightarrow>
             g = [0, 0, 0, 0, 0, 0, 0, 1]
             \<or> g = [0, 0, 0, 0, 0, 0, 0, 0]
             \<or> (hd g AND 0xff00) = 0xff00
             \<or> (hd g AND 0xfe00) = 0xfc00
             \<or> (hd g AND 0xffc0) = 0xfe80))"

section \<open>Textual addresses\<close>

text \<open>An IPv4 octet: one to three digits, no leading zero, at most 255.\<close>

definition parse_octet :: "rstr \<Rightarrow> u8 option" where
  "parse_octet s =
     (if s = [] \<or> 3 < length s \<or> (hd s = 48 \<and> 1 < length s) then None
      else case parse_digits s of Some n \<Rightarrow> if n \<le> 255 then Some (of_nat n) else None | None \<Rightarrow> None)"

definition parse_ipv4 :: "rstr \<Rightarrow> (u8 \<times> u8 \<times> u8 \<times> u8) option" where
  "parse_ipv4 s = (case map parse_octet (split_char 46 s) of
       [Some a, Some b, Some c, Some d] \<Rightarrow> Some (a, b, c, d) | _ \<Rightarrow> None)"

fun hex_group :: "nat \<Rightarrow> rstr \<Rightarrow> nat option" where
  "hex_group acc [] = Some acc"
| "hex_group acc (c # s) = (case hex_val c of None \<Rightarrow> None | Some h \<Rightarrow> hex_group (16 * acc + h) s)"

definition parse_group :: "rstr \<Rightarrow> u16 option" where
  "parse_group s = (if s = [] \<or> 4 < length s then None else map_option of_nat (hex_group 0 s))"

fun parse_groups :: "bool \<Rightarrow> rstr list \<Rightarrow> u16 list option" where
  "parse_groups v4_ok [] = Some []"
| "parse_groups v4_ok [g] =
     (case parse_group g of
        Some w \<Rightarrow> Some [w]
      | None \<Rightarrow> if v4_ok then (case parse_ipv4 g of
            Some (a, b, c, d) \<Rightarrow> Some [push_bit 8 (ucast a) + ucast b, push_bit 8 (ucast c) + ucast d]
          | None \<Rightarrow> None) else None)"
| "parse_groups v4_ok (g # gs) =
     (case parse_group g of None \<Rightarrow> None | Some w \<Rightarrow> map_option ((#) w) (parse_groups v4_ok gs))"

definition groups_of :: "bool \<Rightarrow> rstr \<Rightarrow> u16 list option" where
  "groups_of v4_ok s = (if s = [] then Some [] else parse_groups v4_ok (split_char 58 s))"

definition parse_ipv6 :: "rstr \<Rightarrow> u16 list option" where
  "parse_ipv6 s = (case find_str [58, 58] s of
       None \<Rightarrow> (case groups_of True s of Some g \<Rightarrow> if length g = 8 then Some g else None | None \<Rightarrow> None)
     | Some i \<Rightarrow> (case (groups_of False (take i s), groups_of True (drop (i + 2) s)) of
           (Some h, Some t) \<Rightarrow> if length h + length t \<le> 7
              then Some (h @ replicate (8 - length h - length t) 0 @ t) else None
         | _ \<Rightarrow> None))"

definition parse_ip :: "rstr \<Rightarrow> ip_addr option" where
  "parse_ip s = (case parse_ipv4 s of
       Some (a, b, c, d) \<Rightarrow> Some (V4 a b c d)
     | None \<Rightarrow> map_option V6 (parse_ipv6 s))"

section \<open>Hosts and URLs\<close>

definition trim_start_matches :: "rchar \<Rightarrow> rstr \<Rightarrow> rstr" where
  "trim_start_matches d s = dropWhile (\<lambda>c. c = d) s"

definition trim_end_matches :: "rchar \<Rightarrow> rstr \<Rightarrow> rstr" where
  "trim_end_matches d s = rev (dropWhile (\<lambda>c. c = d) (rev s))"

definition unbracket :: "rstr \<Rightarrow> rstr" where
  "unbracket host = trim_end_matches 93 (trim_start_matches 91 host)"

definition internal_name :: "rstr \<Rightarrow> bool" where
  "internal_name host \<longleftrightarrow> (let h = to_ascii_lowercase host in
     h = str ''localhost'' \<or> ends_with h (str ''.localhost'') \<or> ends_with h (str ''.local'')
     \<or> ends_with h (str ''.internal'') \<or> h = str ''metadata.google.internal'')"

definition host_is_blocked_literal :: "rstr \<Rightarrow> bool" where
  "host_is_blocked_literal host =
     (case parse_ip (unbracket host) of
        Some ip \<Rightarrow> ip_is_blocked ip
      | None \<Rightarrow> internal_name host)"

text \<open>What the sources read of a \<open>reqwest::Url\<close>.\<close>

record url =
  scheme :: rstr
  host_str :: "rstr option"
  url_text :: rstr

datatype url_error = NotAbsolute | BlockedScheme rstr | NoHost | BlockedAddress rstr | BlockedInternal rstr

definition classify_url :: "(rstr \<Rightarrow> url option) \<Rightarrow> rstr \<Rightarrow> url_error + url" where
  "classify_url url_parse raw =
     (case url_parse raw of
        None \<Rightarrow> Inl NotAbsolute
      | Some u \<Rightarrow>
          if scheme u \<noteq> str ''http'' \<and> scheme u \<noteq> str ''https'' then Inl (BlockedScheme (scheme u))
          else (case host_str u of
              None \<Rightarrow> Inl NoHost
            | Some host \<Rightarrow>
                (case parse_ip (unbracket host) of
                   Some ip \<Rightarrow> if ip_is_blocked ip then Inl (BlockedAddress host) else Inr u
                 | None \<Rightarrow> if internal_name host then Inl (BlockedInternal host) else Inr u)))"

text \<open>The resolver handed to the HTTP client: \<open>lookup\<close> is the system's resolution of the host.\<close>

definition guarded_resolve :: "(rstr \<Rightarrow> ip_addr list option) \<Rightarrow> rstr \<Rightarrow> ip_addr list option" where
  "guarded_resolve lookup host =
     (case lookup host of
        None \<Rightarrow> None
      | Some addrs \<Rightarrow> (let ok = filter (\<lambda>a. \<not> ip_is_blocked a) addrs in if ok = [] then None else Some ok))"

datatype base_url_check = Accepted | Insecure

definition validate_base_url_security :: "(rstr \<Rightarrow> url option) \<Rightarrow> rstr \<Rightarrow> bool \<Rightarrow> base_url_check" where
  "validate_base_url_security url_parse base_url allow_insecure =
     (if allow_insecure then Accepted
      else case url_parse base_url of
          None \<Rightarrow> Insecure
        | Some u \<Rightarrow>
            if scheme u \<noteq> str ''https'' then Insecure
            else (let host = the_or [] (host_str u) in
                  if host = [] \<or> host_is_blocked_literal host then Insecure else Accepted))"

text \<open>\<open>trim_end_matches("/beta")\<close> removes the suffix as often as it occurs.\<close>

function trim_end_str :: "rstr \<Rightarrow> rstr \<Rightarrow> rstr" where
  "trim_end_str p s = (if p \<noteq> [] \<and> suffix p s then trim_end_str p (take (length s - length p) s) else s)"
  by pat_completeness auto
termination
  by (relation "measure (\<lambda>(p, s). length s)") (auto simp: suffix_def)

declare trim_end_str.simps [simp del]

definition versioned_base_url :: "rstr \<Rightarrow> rstr \<Rightarrow> rstr" where
  "versioned_base_url base_url path =
     (let trimmed = trim_end_matches 47 base_url;
          normalized =
            (if ends_with trimmed (str ''/beta'') then trim_end_str (str ''/beta'') trimmed @ str ''/v1''
             else if ends_with trimmed (str ''/v1'') then trimmed
             else trimmed @ str ''/v1'')
      in normalized @ str ''/'' @ trim_start_matches 47 path)"

section \<open>The blocked IPv4 ranges\<close>

definition v4_num :: "u8 \<Rightarrow> u8 \<Rightarrow> u8 \<Rightarrow> u8 \<Rightarrow> nat" where
  "v4_num a b c d = ((unat a * 256 + unat b) * 256 + unat c) * 256 + unat d"

text \<open>\<open>cidr a b c d len\<close>: the addresses of the network \<open>a.b.c.d/len\<close>.\<close>

definition cidr :: "nat \<Rightarrow> nat \<Rightarrow> nat \<Rightarrow> nat \<Rightarrow> nat \<Rightarrow> nat set" where
  "cidr a b c d len = (let base = ((a * 256 + b) * 256 + c) * 256 + d in {base ..< base + 2 ^ (32 - len)})"

definition blocked_ranges :: "nat set" where
  "blocked_ranges = cidr 0 0 0 0 8 \<union> cidr 10 0 0 0 8 \<union> cidr 100 64 0 0 10 \<union> cidr 127 0 0 0 8
     \<union> cidr 169 254 0 0 16 \<union> cidr 172 16 0 0 12 \<union> cidr 192 0 2 0 24 \<union> cidr 192 168 0 0 16
     \<union> cidr 198 51 100 0 24 \<union> cidr 203 0 113 0 24 \<union> cidr 224 0 0 0 4 \<union> cidr 255 255 255 255 32"

lemma u8_bound: "unat (x :: u8) < 256"
  using unsigned_less [of x, where ?'a = nat] by simp

lemma u8_eq_iff: "(x :: u8) = y \<longleftrightarrow> unat x = unat y"
  by (simp add: word_unat_eq_iff)

lemma and_not_mask: "(b :: u8) AND NOT (mask n) = push_bit n (drop_bit n b)"
  by (auto intro!: bit_word_eqI simp: bit_simps)

lemma cgnat_mask: "(b :: u8) AND 0xc0 = 0x40 \<longleftrightarrow> 64 \<le> unat b \<and> unat b < 128"
proof -
  have "(0xc0 :: u8) = NOT (mask 6)" by (simp add: mask_eq_exp_minus_1)
  then have m: "b AND 0xc0 = push_bit 6 (drop_bit 6 b)" by (simp only: and_not_mask)
  have "unat (push_bit 6 (drop_bit 6 b)) = unat b div 64 * 64"
    using unsigned_less [of b, where ?'a = nat]
    by (simp only: unsigned_push_bit_eq unsigned_drop_bit_eq) (simp add: take_bit_eq_mod push_bit_eq_mult drop_bit_eq_div)
  then show ?thesis unfolding m word_unat_eq_iff [of _ "0x40"] by simp arith
qed

text \<open>Membership in a network of each prefix length the guard uses, octet by octet.\<close>

lemma interval_div: "0 < k \<Longrightarrow> N \<in> {A * k ..< A * k + k} \<longleftrightarrow> N div k = (A::nat)"
proof -
  assume k: "0 < k"
  have "A * k \<le> N \<longleftrightarrow> A \<le> N div k" using k by (simp add: less_eq_div_iff_mult_less_eq)
  moreover have "N < A * k + k \<longleftrightarrow> N div k < Suc A" using k by (simp add: div_less_iff_less_mult add.commute)
  ultimately show ?thesis by auto
qed

lemma digit_eq_iff: "y < 256 \<Longrightarrow> B < 256 \<Longrightarrow> x * 256 + y = A * 256 + B \<longleftrightarrow> x = A \<and> y = (B::nat)"
proof -
  assume b: "y < 256" "B < 256"
  show ?thesis
  proof
    assume e: "x * 256 + y = A * 256 + B"
    have "(x * 256 + y) div 256 = (A * 256 + B) div 256" by (simp only: e)
    then have "x = A" using b by simp
    with e show "x = A \<and> y = B" by simp
  qed simp
qed

lemma octets_div:
  assumes "y < 256" "z < 256" "w < (256::nat)"
  shows "(((x * 256 + y) * 256 + z) * 256 + w) div 256 = (x * 256 + y) * 256 + z"
    and "(((x * 256 + y) * 256 + z) * 256 + w) div 65536 = x * 256 + y"
    and "(((x * 256 + y) * 256 + z) * 256 + w) div 16777216 = x"
proof -
  let ?N = "((x * 256 + y) * 256 + z) * 256 + w"
  show d1: "?N div 256 = (x * 256 + y) * 256 + z" using assms by simp
  show d2: "?N div 65536 = x * 256 + y"
    using div_mult2_eq [of ?N 256 256] d1 assms by simp
  show "?N div 16777216 = x"
    using div_mult2_eq [of ?N 65536 256] d2 assms by simp
qed

lemma cidr_octets:
  fixes x :: nat
  assumes "y < 256" "z < 256" "w < (256::nat)"
  defines "N \<equiv> ((x * 256 + y) * 256 + z) * 256 + w"
  shows "N \<in> cidr A 0 0 0 8 \<longleftrightarrow> x = A"
    and "N \<in> cidr 224 0 0 0 4 \<longleftrightarrow> 224 \<le> x \<and> x \<le> 239"
    and "N \<in> cidr 100 64 0 0 10 \<longleftrightarrow> x = 100 \<and> 64 \<le> y \<and> y < 128"
    and "N \<in> cidr 172 16 0 0 12 \<longleftrightarrow> x = 172 \<and> 16 \<le> y \<and> y \<le> 31"
    and "B < 256 \<Longrightarrow> N \<in> cidr A B 0 0 16 \<longleftrightarrow> x = A \<and> y = B"
    and "B < 256 \<Longrightarrow> C < 256 \<Longrightarrow> N \<in> cidr A B C 0 24 \<longleftrightarrow> x = A \<and> y = B \<and> z = C"
    and "N \<in> cidr 255 255 255 255 32 \<longleftrightarrow> x = 255 \<and> y = 255 \<and> z = 255 \<and> w = 255"
proof -
  note d = octets_div [OF assms(1-3), of x, folded N_def]
  show "N \<in> cidr A 0 0 0 8 \<longleftrightarrow> x = A"
    using interval_div [of 16777216 N A] d(3) by (simp add: cidr_def Let_def mult.commute)
  have "N div 268435456 = x div 16" using div_mult2_eq [of N 16777216 16] d(3) by simp
  then show "N \<in> cidr 224 0 0 0 4 \<longleftrightarrow> 224 \<le> x \<and> x \<le> 239"
    using interval_div [of 268435456 N 14] by (simp add: cidr_def) arith
  have "(x * 256 + y) div 64 = y div 64 + 4 * x" using div_mult_self1 [of 64 y "4 * x"] by (simp add: ac_simps)
  then have "N div 4194304 = y div 64 + 4 * x" using div_mult2_eq [of N 65536 64] d(2) by simp
  then have "N \<in> cidr 100 64 0 0 10 \<longleftrightarrow> y div 64 + 4 * x = 401"
    using interval_div [of 4194304 N 401] by (simp add: cidr_def)
  moreover have "y div 64 = 1 \<longleftrightarrow> 64 \<le> y \<and> y < 128" "y div 64 < 4"
    using interval_div [of 64 y 1] assms(1) by auto
  moreover have "q + 4 * x = 401 \<longleftrightarrow> x = 100 \<and> q = 1" if "q < 4" for q :: nat
    using that by arith
  ultimately show "N \<in> cidr 100 64 0 0 10 \<longleftrightarrow> x = 100 \<and> 64 \<le> y \<and> y < 128" by blast
  have "(x * 256 + y) div 16 = y div 16 + 16 * x" using div_mult_self1 [of 16 y "16 * x"] by (simp add: ac_simps)
  then have "N div 1048576 = y div 16 + 16 * x" using div_mult2_eq [of N 65536 16] d(2) by simp
  then have "N \<in> cidr 172 16 0 0 12 \<longleftrightarrow> y div 16 + 16 * x = 2753"
    using interval_div [of 1048576 N 2753] by (simp add: cidr_def)
  moreover have "y div 16 = 1 \<longleftrightarrow> 16 \<le> y \<and> y < 32" "y div 16 < 16"
    using interval_div [of 16 y 1] assms(1) by auto
  moreover have "q + 16 * x = 2753 \<longleftrightarrow> x = 172 \<and> q = 1" if "q < 16" for q :: nat
    using that by arith
  ultimately show "N \<in> cidr 172 16 0 0 12 \<longleftrightarrow> x = 172 \<and> 16 \<le> y \<and> y \<le> 31" by auto
  show "N \<in> cidr A B 0 0 16 \<longleftrightarrow> x = A \<and> y = B" if "B < 256"
  proof -
    have "N \<in> cidr A B 0 0 16 \<longleftrightarrow> x * 256 + y = A * 256 + B"
      using interval_div [of 65536 N "A * 256 + B"] d(2) by (simp add: cidr_def Let_def algebra_simps)
    then show ?thesis using digit_eq_iff [OF assms(1) that] by simp
  qed
  show "N \<in> cidr A B C 0 24 \<longleftrightarrow> x = A \<and> y = B \<and> z = C" if "B < 256" "C < 256"
  proof -
    have "N \<in> cidr A B C 0 24 \<longleftrightarrow> (x * 256 + y) * 256 + z = (A * 256 + B) * 256 + C"
      using interval_div [of 256 N "(A * 256 + B) * 256 + C"] d(1) by (simp add: cidr_def Let_def algebra_simps)
    then show ?thesis
      by (simp only: digit_eq_iff [OF assms(2) that(2)] digit_eq_iff [OF assms(1) that(1)] conj_assoc)
  qed
  have k: "(255::nat) < 256" by simp
  have "N \<in> cidr 255 255 255 255 32 \<longleftrightarrow> N = ((255 * 256 + 255) * 256 + 255) * 256 + 255"
    by (auto simp: cidr_def)
  then show "N \<in> cidr 255 255 255 255 32 \<longleftrightarrow> x = 255 \<and> y = 255 \<and> z = 255 \<and> w = 255"
    unfolding N_def
    by (simp only: digit_eq_iff [OF assms(3) k] digit_eq_iff [OF assms(2) k] digit_eq_iff [OF assms(1) k] conj_assoc)
qed

lemma v4_blocked_num: "v4_blocked a b c d \<longleftrightarrow> v4_num a b c d \<in> blocked_ranges"
proof -
  have nums: "unat (0::u8) = 0" "unat (2::u8) = 2" "unat (10::u8) = 10" "unat (16::u8) = 16" "unat (31::u8) = 31"
    "unat (51::u8) = 51" "unat (100::u8) = 100" "unat (113::u8) = 113" "unat (127::u8) = 127" "unat (168::u8) = 168"
    "unat (169::u8) = 169" "unat (172::u8) = 172" "unat (192::u8) = 192" "unat (198::u8) = 198" "unat (203::u8) = 203"
    "unat (224::u8) = 224" "unat (239::u8) = 239" "unat (254::u8) = 254" "unat (255::u8) = 255"
    by simp_all
  note oct = cidr_octets [where x = "unat a" and y = "unat b" and z = "unat c" and w = "unat d",
      OF u8_bound u8_bound u8_bound, folded v4_num_def]
  have "v4_num a b c d \<in> blocked_ranges \<longleftrightarrow>
      unat a = 0 \<or> unat a = 10 \<or> unat a = 100 \<and> 64 \<le> unat b \<and> unat b < 128 \<or> unat a = 127
      \<or> unat a = 169 \<and> unat b = 254 \<or> unat a = 172 \<and> 16 \<le> unat b \<and> unat b \<le> 31
      \<or> unat a = 192 \<and> unat b = 0 \<and> unat c = 2 \<or> unat a = 192 \<and> unat b = 168
      \<or> unat a = 198 \<and> unat b = 51 \<and> unat c = 100 \<or> unat a = 203 \<and> unat b = 0 \<and> unat c = 113
      \<or> 224 \<le> unat a \<and> unat a \<le> 239 \<or> unat a = 255 \<and> unat b = 255 \<and> unat c = 255 \<and> unat d = 255"
    unfolding blocked_ranges_def Un_iff oct(1-4) oct(7)
    by (simp only: oct(5) [of 254 169, simplified] oct(5) [of 168 192, simplified]
        oct(6) [of 0 2 192, simplified] oct(6) [of 51 100 198, simplified] oct(6) [of 0 113 203, simplified] disj_assoc)
  also have "\<dots> \<longleftrightarrow> v4_blocked a b c d"
    unfolding v4_blocked_def is_loopback4_def is_private4_def is_link_local4_def is_unspecified4_def
      is_broadcast4_def is_documentation4_def is_multicast4_def cgnat_mask
    unfolding u8_eq_iff word_le_nat_alt nums by satx
  finally show ?thesis by simp
qed

lemma mapped_octets:
  fixes a b :: u8
  shows "ucast (drop_bit 8 (push_bit 8 (ucast a) + ucast b :: u16)) = a"
    and "ucast (push_bit 8 (ucast a) + ucast b :: u16) = b"
proof -
  have u: "unat (ucast x :: u16) = unat x" for x :: u8
    using u8_bound [of x] by (simp add: unsigned_ucast_eq take_bit_nat_eq_self)
  have n: "unat (push_bit 8 (ucast a) + ucast b :: u16) = unat a * 256 + unat b"
    using u8_bound [of a] u8_bound [of b]
    by (simp add: unat_word_ariths unsigned_push_bit_eq u push_bit_eq_mult take_bit_eq_mod)
  show "ucast (push_bit 8 (ucast a) + ucast b :: u16) = b"
    using u8_bound [of b] by (simp add: u8_eq_iff unsigned_ucast_eq n take_bit_eq_mod)
  show "ucast (drop_bit 8 (push_bit 8 (ucast a) + ucast b :: u16)) = a"
    using u8_bound [of a] u8_bound [of b]
    by (simp add: u8_eq_iff unsigned_ucast_eq take_bit_eq_mod drop_bit_eq_div unat_div n)
qed

section \<open>Properties\<close>

text \<open>Further: the octet tests of the guard block exactly the twelve IPv4 networks of \<open>blocked_ranges\<close>, and an
  IPv4-mapped IPv6 address is blocked exactly when the IPv4 address it carries is.\<close>

theorem v4_blocked_ranges:
  "ip_is_blocked (V4 a b c d) = (v4_num a b c d \<in> blocked_ranges)
   \<and> ip_is_blocked (V6 [0, 0, 0, 0, 0, 0xffff, push_bit 8 (ucast a) + ucast b, push_bit 8 (ucast c) + ucast d])
     = (v4_num a b c d \<in> blocked_ranges)"
proof -
  have "to_ipv4_mapped [0, 0, 0, 0, 0, 0xffff, push_bit 8 (ucast a) + ucast b, push_bit 8 (ucast c) + ucast d] = Some (a, b, c, d)"
    by (simp add: to_ipv4_mapped_def mapped_octets)
  then show ?thesis by (simp add: ip_is_blocked_def v4_blocked_num)
qed

text \<open>C10: a URL the classifier accepts is http or https, has a host, and that host is neither an IP
  literal in a blocked range nor an internal name; a production base URL is https on top of that.
  Every address the guarded resolver hands out is unblocked.\<close>

theorem egress_guard_sound:
  "(\<forall>u. classify_url parse raw = Inr u \<longrightarrow>
      parse raw = Some u \<and> scheme u \<in> {str ''http'', str ''https''}
      \<and> (\<exists>h. host_str u = Some h \<and> \<not> host_is_blocked_literal h))
   \<and> (validate_base_url_security parse raw False = Accepted \<longrightarrow>
      (\<exists>u h. parse raw = Some u \<and> scheme u = str ''https'' \<and> host_str u = Some h \<and> h \<noteq> [] \<and> \<not> host_is_blocked_literal h))
   \<and> (\<forall>addrs a. guarded_resolve lookup name = Some addrs \<longrightarrow> a \<in> set addrs \<longrightarrow> \<not> ip_is_blocked a)"
proof (intro conjI allI impI)
  fix u assume "classify_url parse raw = Inr u"
  then show "parse raw = Some u" "scheme u \<in> {str ''http'', str ''https''}"
    "\<exists>h. host_str u = Some h \<and> \<not> host_is_blocked_literal h"
    by (auto simp: classify_url_def host_is_blocked_literal_def split: option.splits if_splits)
next
  assume "validate_base_url_security parse raw False = Accepted"
  then show "\<exists>u h. parse raw = Some u \<and> scheme u = str ''https'' \<and> host_str u = Some h \<and> h \<noteq> [] \<and> \<not> host_is_blocked_literal h"
    by (auto simp: validate_base_url_security_def Let_def the_or_def split: option.splits if_splits)
next
  fix addrs a assume "guarded_resolve lookup name = Some addrs" "a \<in> set addrs"
  then show "\<not> ip_is_blocked a"
    by (auto simp: guarded_resolve_def Let_def split: option.splits if_splits)
qed

definition demo_url :: "rstr \<Rightarrow> url option" where
  "demo_url raw = (if raw = str ''https://1.1.1.1/'' then Some \<lparr>scheme = str ''https'', host_str = Some (str ''1.1.1.1''), url_text = raw\<rparr> else None)"

theorem egress_guard_sound_witness:
  "classify_url demo_url (str ''https://1.1.1.1/'') = Inr \<lparr>scheme = str ''https'', host_str = Some (str ''1.1.1.1''), url_text = str ''https://1.1.1.1/''\<rparr>
   \<and> \<not> host_is_blocked_literal (str ''1.1.1.1'') \<and> host_is_blocked_literal (str ''[::ffff:169.254.169.254]'')
   \<and> validate_base_url_security demo_url (str ''https://1.1.1.1/'') False = Accepted"
proof -
  have nb: "\<not> host_is_blocked_literal (str ''1.1.1.1'')" by code_simp
  have ip: "parse_ip (unbracket (str ''1.1.1.1'')) = Some (V4 1 1 1 1)" by code_simp
  have "classify_url demo_url (str ''https://1.1.1.1/'') = Inr \<lparr>scheme = str ''https'', host_str = Some (str ''1.1.1.1''), url_text = str ''https://1.1.1.1/''\<rparr>"
    using nb by (simp add: classify_url_def demo_url_def host_is_blocked_literal_def ip)
  moreover have "host_is_blocked_literal (str ''[::ffff:169.254.169.254]'')" by code_simp
  moreover have "validate_base_url_security demo_url (str ''https://1.1.1.1/'') False = Accepted"
    using nb by (simp add: validate_base_url_security_def demo_url_def Let_def)
  ultimately show ?thesis
    using egress_guard_sound [of demo_url "str ''https://1.1.1.1/''" "\<lambda>_. None" "[]"] by auto
qed

text \<open>Further: the guard lets through addresses that are not public unicast, such as the reserved
  240.0.0.0/4 block and the benchmarking network 198.18.0.0/15, although its comment says that it
  blocks every such address.\<close>

theorem guard_passes_reserved:
  "\<not> ip_is_blocked (V4 240 0 0 1) \<and> \<not> ip_is_blocked (V4 198 18 0 1) \<and> \<not> ip_is_blocked (V4 192 0 0 1)
   \<and> \<not> host_is_blocked_literal (str ''240.0.0.1'') \<and> \<not> host_is_blocked_literal (str ''localhost.'')"
  by code_simp

end
