(* ===== verification/Providers.thy ===== *)
theory Providers
  imports Protocol Ssrf
begin

text \<open>
  The \<open>providers\<close> crate: declarative profiles with their hooks (\<open>profile.rs\<close>,
  \<open>hooks.rs\<close>, \<open>vendors/*.rs\<close>), the wire-quirk tables (\<open>quirks.rs\<close>), the
  wire resolution (\<open>resolve.rs\<close>) and the registry (\<open>registry.rs\<close>); also the request
  parameters of \<open>router/src/transport.rs\<close>. A \<open>dyn ProviderHooks\<close> is a record of
  functions. An \<open>f32\<close> is kept as its bit pattern. The asynchronous model-list fetch, which no
  provider implements, is left out of the hooks.
\<close>

section \<open>Request parameters and hooks\<close>

datatype effort = Minimal | Low | Medium | High | XHigh | Max

record reasoning_config =
  effort :: "effort option"

datatype server_tool = WebSearch "u32 option"

record req_params =
  temperature :: "u32 option"
  max_tokens :: "u32 option"
  response_format :: "jvalue option"
  stream :: bool
  server_tools :: "server_tool list"
  rp_reasoning :: "reasoning_config option"
  session_id :: "rstr option"

record req_ctx =
  ctx_session_id :: "rstr option"
  ctx_model :: rstr

text \<open>\<open>body["k"] = v\<close> on a JSON value: a null becomes an object, any other non-object panics
  (\<open>None\<close>).\<close>

fun index_set :: "jvalue \<Rightarrow> rstr \<Rightarrow> jvalue \<Rightarrow> jvalue option" where
  "index_set (JObject m) k v = Some (JObject (obj_insert k v m))"
| "index_set JNull k v = Some (JObject [(k, v)])"
| "index_set _ k v = None"

definition obj_remove :: "rstr \<Rightarrow> jmap \<Rightarrow> jmap" where
  "obj_remove k m = filter (\<lambda>kv. fst kv \<noteq> k) m"

record provider_hooks =
  prepare_messages :: "message list \<Rightarrow> message list"
  build_extra_body :: "rstr option \<Rightarrow> req_ctx \<Rightarrow> jvalue"
  build_api_kwargs_extras :: "reasoning_config option \<Rightarrow> req_ctx \<Rightarrow> jvalue \<times> jmap"
  get_max_tokens :: "rstr \<Rightarrow> u32 option"
  apply_reasoning_effort :: "jvalue \<Rightarrow> effort \<Rightarrow> jvalue option"
  api_mode_override :: "rstr \<Rightarrow> api_mode option"

definition DefaultHooks :: provider_hooks where
  "DefaultHooks = \<lparr>prepare_messages = (\<lambda>m. m), build_extra_body = (\<lambda>_ _. JObject []),
     build_api_kwargs_extras = (\<lambda>_ _. (JObject [], [])), get_max_tokens = (\<lambda>_. None),
     apply_reasoning_effort = (\<lambda>b _. Some b), api_mode_override = (\<lambda>_. None)\<rparr>"

section \<open>Quirk tables\<close>

definition REASONING_REPLAY_PROVIDERS :: "rstr list" where
  "REASONING_REPLAY_PROVIDERS = map str [''deepseek'', ''nvidianim'', ''nvidia'', ''openrouter'', ''xiaomimimo'',
     ''novita'', ''fireworks'', ''siliconflow'', ''arcee'', ''sglang'']"

definition is_deepseek_family_model :: "rstr \<Rightarrow> bool" where
  "is_deepseek_family_model model = (let m = to_ascii_lowercase model in
     contains m (str ''deepseek'') \<or> contains m (str ''reasoner'') \<or> contains m (str ''-reasoning'')
     \<or> contains m (str ''-thinking'') \<or> starts_with m (str ''deepseek-r''))"

definition needs_reasoning_replay :: "rstr \<Rightarrow> rstr \<Rightarrow> bool" where
  "needs_reasoning_replay provider model \<longleftrightarrow>
     to_ascii_lowercase provider \<in> set REASONING_REPLAY_PROVIDERS \<and> is_deepseek_family_model model"

definition is_reasoning_provider :: "rstr \<Rightarrow> bool" where
  "is_reasoning_provider provider \<longleftrightarrow>
     to_ascii_lowercase provider \<in> set (map str [''deepseek'', ''siliconflow'', ''novita'', ''fireworks''])"

datatype thinking_disable =
  ThinkingTypeDisabled | ChatTemplateEnableThinkingFalse | ChatTemplateThinkingFalse | Ignored

definition thinking_disable_shape :: "rstr \<Rightarrow> thinking_disable" where
  "thinking_disable_shape provider = (let p = to_ascii_lowercase provider in
     if p \<in> set (map str [''deepseek'', ''siliconflow'', ''volcengine'']) then ThinkingTypeDisabled
     else if p = str ''vllm'' then ChatTemplateEnableThinkingFalse
     else if p \<in> set (map str [''nvidia'', ''nvidianim'']) then ChatTemplateThinkingFalse
     else Ignored)"

definition scale_effort :: "rstr \<Rightarrow> effort \<Rightarrow> effort" where
  "scale_effort provider e = (let p = to_ascii_lowercase provider in
     if p \<in> set (map str [''deepseek'', ''siliconflow''])
     then (case e of Low \<Rightarrow> High | Medium \<Rightarrow> High | XHigh \<Rightarrow> Max | other \<Rightarrow> other)
     else if p = str ''vllm'' then (case e of Max \<Rightarrow> High | other \<Rightarrow> other)
     else e)"

definition effort_str :: "effort \<Rightarrow> rstr" where
  "effort_str e = (case e of Minimal \<Rightarrow> str ''minimal'' | Low \<Rightarrow> str ''low'' | Medium \<Rightarrow> str ''medium''
     | High \<Rightarrow> str ''high'' | XHigh \<Rightarrow> str ''xhigh'' | Max \<Rightarrow> str ''max'')"

section \<open>Vendor hooks\<close>

definition model_supports_reasoning :: "rstr \<Rightarrow> bool" where
  "model_supports_reasoning model = (let m = to_ascii_lowercase model in
     if starts_with m (str ''gpt-5'') then True
     else starts_with m (str ''o'') \<and> 1 < length m \<and> is_ascii_digit (m ! 1))"

definition accepts_chat_reasoning_effort :: "rstr \<Rightarrow> bool" where
  "accepts_chat_reasoning_effort model = (let m = to_ascii_lowercase model in
     if starts_with m (str ''gpt-5.'') then False else model_supports_reasoning m)"

definition openai_effort_str :: "rstr \<Rightarrow> effort \<Rightarrow> rstr" where
  "openai_effort_str model e = (case e of
       Minimal \<Rightarrow> if starts_with (to_ascii_lowercase model) (str ''gpt-5'') then str ''minimal'' else str ''low''
     | Low \<Rightarrow> str ''low'' | Medium \<Rightarrow> str ''medium''
     | High \<Rightarrow> str ''high'' | XHigh \<Rightarrow> str ''high'' | Max \<Rightarrow> str ''high'')"

definition openai_apply_effort :: "jvalue \<Rightarrow> effort \<Rightarrow> jvalue option" where
  "openai_apply_effort body e =
     (let model = the_or [] (get_str body ''model'') in
      if \<not> accepts_chat_reasoning_effort model then Some body
      else index_set body (str ''reasoning_effort'') (JString (openai_effort_str model e)))"

definition openai_api_mode_override :: "rstr \<Rightarrow> api_mode option" where
  "openai_api_mode_override model =
     (if starts_with (to_ascii_lowercase model) (str ''gpt-5.'') then Some Responses else None)"

definition OpenAiHooks :: provider_hooks where
  "OpenAiHooks = DefaultHooks\<lparr>apply_reasoning_effort := openai_apply_effort,
     api_mode_override := openai_api_mode_override\<rparr>"

definition thinking_disabled :: jvalue where
  "thinking_disabled = JObject [(str ''type'', JString (str ''disabled''))]"

definition effort_or_disable :: "rstr \<Rightarrow> jvalue \<Rightarrow> effort \<Rightarrow> jvalue option" where
  "effort_or_disable provider body e =
     (if e = Minimal then index_set body (str ''thinking'') thinking_disabled
      else index_set body (str ''reasoning_effort'') (JString (effort_str (scale_effort provider e))))"

definition DeepSeekHooks :: provider_hooks where
  "DeepSeekHooks = DefaultHooks\<lparr>apply_reasoning_effort := effort_or_disable (str ''deepseek'')\<rparr>"

definition KimiHooks :: provider_hooks where
  "KimiHooks = DefaultHooks\<lparr>apply_reasoning_effort := effort_or_disable (str ''kimi'')\<rparr>"

fun anthropic_budget_tokens :: "effort \<Rightarrow> u64 option" where
  "anthropic_budget_tokens Minimal = None"
| "anthropic_budget_tokens Low = Some 2048"
| "anthropic_budget_tokens Medium = Some 4096"
| "anthropic_budget_tokens High = Some 8192"
| "anthropic_budget_tokens XHigh = Some 16384"
| "anthropic_budget_tokens Max = Some 32768"

definition anthropic_apply_effort :: "jvalue \<Rightarrow> effort \<Rightarrow> jvalue option" where
  "anthropic_apply_effort body e =
     (case anthropic_budget_tokens e of
        None \<Rightarrow> Some (case body of JObject m \<Rightarrow> JObject (obj_remove (str ''thinking'') m) | other \<Rightarrow> other)
      | Some budget \<Rightarrow>
          Option.bind (index_set body (str ''thinking'')
             (JObject [(str ''budget_tokens'', JNumber (PosInt budget)), (str ''type'', JString (str ''enabled''))]))
           (\<lambda>b1. let current = the_or 0 (Option.bind (jget b1 (str ''max_tokens'')) as_u64) in
             Option.bind (if current \<le> budget then index_set b1 (str ''max_tokens'') (JNumber (PosInt (budget + 4096))) else Some b1)
              (\<lambda>b2. index_set b2 (str ''temperature'') (JNumber (PosInt 1)))))"

definition AnthropicHooks :: provider_hooks where
  "AnthropicHooks = DefaultHooks\<lparr>apply_reasoning_effort := anthropic_apply_effort\<rparr>"

section \<open>Profiles and the registry\<close>

datatype auth_type = ApiKey | OAuthExternal | AwsSdk | Custom
datatype temp_policy = Inherit | Fixed u32 | Omit

record provider_profile =
  pf_name :: rstr
  pf_api_mode :: api_mode
  base_url :: rstr
  models_url :: "rstr option"
  auth_type :: auth_type
  default_headers :: "(rstr \<times> rstr) list"
  env_http_headers :: "(rstr \<times> rstr) list"
  fixed_temperature :: temp_policy
  default_max_tokens :: "u32 option"
  fallback_models :: "rstr list"
  supports_vision :: bool
  request_max_retries :: u32
  stream_idle_timeout_ms :: u64
  stream_ttfb_timeout_ms :: u64
  cache_supported :: bool
  hooks :: provider_hooks

text \<open>The profile every vendor starts from; it is also the generic profile that
  \<open>router/src/dispatch_http.rs\<close> uses for an unregistered provider.\<close>

definition fallback_profile :: "rstr \<Rightarrow> provider_profile" where
  "fallback_profile provider = \<lparr>pf_name = provider, pf_api_mode = ChatCompletions, base_url = [],
     models_url = None, auth_type = ApiKey, default_headers = [], env_http_headers = [],
     fixed_temperature = Inherit, default_max_tokens = Some 4096, fallback_models = [],
     supports_vision = False, request_max_retries = 3, stream_idle_timeout_ms = 30000,
     stream_ttfb_timeout_ms = 60000, cache_supported = False, hooks = DefaultHooks\<rparr>"

definition bearer :: "string \<Rightarrow> (rstr \<times> rstr) list" where
  "bearer env = [(str ''Authorization'', str env)]"

definition openai_profile :: provider_profile where
  "openai_profile = (fallback_profile (str ''openai''))\<lparr>base_url := str ''https://api.openai.com/v1'',
     models_url := Some (str ''https://api.openai.com/v1/models''), env_http_headers := bearer ''OPENAI_API_KEY'',
     fallback_models := [str ''gpt-5.4-mini''], supports_vision := True, cache_supported := True, hooks := OpenAiHooks\<rparr>"

definition anthropic_profile :: provider_profile where
  "anthropic_profile = (fallback_profile (str ''anthropic''))\<lparr>pf_api_mode := AnthropicMessages,
     base_url := str ''https://api.anthropic.com/v1'',
     default_headers := [(str ''anthropic-version'', str ''2023-06-01'')],
     env_http_headers := [(str ''x-api-key'', str ''ANTHROPIC_API_KEY'')], default_max_tokens := Some 8192,
     supports_vision := True, stream_ttfb_timeout_ms := 90000, cache_supported := True, hooks := AnthropicHooks\<rparr>"

definition gemini_profile :: provider_profile where
  "gemini_profile = (fallback_profile (str ''gemini''))\<lparr>
     base_url := str ''https://generativelanguage.googleapis.com/v1beta/openai'',
     env_http_headers := bearer ''GEMINI_API_KEY'', default_max_tokens := Some 8192, supports_vision := True\<rparr>"

definition deepseek_profile :: provider_profile where
  "deepseek_profile = (fallback_profile (str ''deepseek''))\<lparr>base_url := str ''https://api.deepseek.com'',
     env_http_headers := bearer ''DEEPSEEK_API_KEY'', hooks := DeepSeekHooks\<rparr>"

definition kimi_profile :: provider_profile where
  "kimi_profile = (fallback_profile (str ''kimi''))\<lparr>base_url := str ''https://api.moonshot.cn/v1'',
     env_http_headers := bearer ''MOONSHOT_API_KEY'', fixed_temperature := Omit, hooks := KimiHooks\<rparr>"

definition qwen_profile :: provider_profile where
  "qwen_profile = (fallback_profile (str ''qwen''))\<lparr>
     base_url := str ''https://dashscope.aliyuncs.com/compatible-mode/v1'',
     env_http_headers := bearer ''DASHSCOPE_API_KEY''\<rparr>"

definition openrouter_profile :: provider_profile where
  "openrouter_profile = (fallback_profile (str ''openrouter''))\<lparr>base_url := str ''https://openrouter.ai/api/v1'',
     env_http_headers := bearer ''OPENROUTER_API_KEY''\<rparr>"

type_synonym registry = "rstr \<rightharpoonup> provider_profile"

definition register_all :: registry where
  "register_all = map_of [(str ''openai'', openai_profile), (str ''anthropic'', anthropic_profile),
     (str ''gemini'', gemini_profile), (str ''deepseek'', deepseek_profile), (str ''kimi'', kimi_profile),
     (str ''qwen'', qwen_profile), (str ''openrouter'', openrouter_profile)]"

record open_ai_compatible =
  oc_base_url :: rstr
  header_template :: "(rstr \<times> rstr) list"
  oc_api_mode :: api_mode

datatype profile_source = Static provider_profile | DbRow provider_profile

definition resolve_profile :: "registry \<Rightarrow> rstr \<Rightarrow> open_ai_compatible option \<Rightarrow> profile_source" where
  "resolve_profile reg provider row =
     (case row of
        Some r \<Rightarrow> DbRow ((fallback_profile provider)\<lparr>pf_api_mode := oc_api_mode r, base_url := oc_base_url r,
                           default_headers := header_template r\<rparr>)
      | None \<Rightarrow> (case reg provider of Some p \<Rightarrow> Static p | None \<Rightarrow> DbRow (fallback_profile provider)))"

section \<open>Wire resolution\<close>

definition resolve_api_mode :: "api_mode option \<Rightarrow> rstr \<Rightarrow> rstr \<Rightarrow> api_mode" where
  "resolve_api_mode explicit provider url =
     (case explicit of
        Some m \<Rightarrow> m
      | None \<Rightarrow>
          (let p = to_ascii_lowercase provider; host = trim_end_matches 47 url in
           if p = str ''anthropic'' \<or> ends_with p (str ''-anthropic'') then AnthropicMessages
           else if contains host (str ''api.anthropic.com'') \<or> ends_with host (str ''/anthropic'') then AnthropicMessages
           else ChatCompletions))"

text \<open>The kill switch: \<open>var\<close> is the value of \<open>QCUE_RESPONSES_API\<close>, if set.\<close>

definition responses_api_enabled :: "rstr option \<Rightarrow> bool" where
  "responses_api_enabled var = (case var of
       Some v \<Rightarrow> to_ascii_lowercase (trim v) \<notin> set (map str [''0'', ''false'', ''off'', ''no''])
     | None \<Rightarrow> True)"

definition effective_api_mode :: "rstr option \<Rightarrow> provider_profile \<Rightarrow> rstr \<Rightarrow> api_mode" where
  "effective_api_mode var profile model =
     (if responses_api_enabled var
      then (case api_mode_override (hooks profile) model of Some m \<Rightarrow> m | None \<Rightarrow> pf_api_mode profile)
      else pf_api_mode profile)"

end
