(* ===== verification/Turn.thy ===== *)
theory Turn
  imports Transcript Providers
begin

text \<open>
  The turn loop of \<open>router/src/turn.rs\<close> with the tool dispatcher of \<open>router/src/tools.rs\<close>.
  The outside world of a turn (the cancellation token, the cost guard, the provider behind the
  \<open>ProviderDispatch\<close> seam and the tool executor) is a record of functions over an abstract
  world state \<open>'e\<close>, so a run is deterministic given that world. One iteration of the loop is
  \<open>turn_step\<close>; it ends the turn or yields the next loop state, together with the events that
  left the loop in order (persistence, guard checks, provider calls and their responses, sink
  notifications). \<open>turn_loop\<close> iterates it; it is total because every continuing step completes one
  more of the budget's finitely many rounds.
\<close>

section \<open>The budget\<close>

record budget =
  tokens_remaining :: u64
  b_round :: u32
  max_rounds :: u32

definition budget_tokens :: "u64 \<Rightarrow> u32 \<Rightarrow> budget" where
  "budget_tokens tokens rounds = \<lparr>tokens_remaining = tokens, b_round = 0, max_rounds = rounds\<rparr>"

definition exhausted :: "budget \<Rightarrow> bool" where
  "exhausted b \<longleftrightarrow> tokens_remaining b = 0 \<or> b_round b \<ge> max_rounds b"

definition tick_round :: "budget \<Rightarrow> budget" where
  "tick_round b = b\<lparr>b_round := sat_add (b_round b) 1\<rparr>"

definition consume_tokens :: "u64 \<Rightarrow> budget \<Rightarrow> budget" where
  "consume_tokens n b = b\<lparr>tokens_remaining := sat_sub (tokens_remaining b) n\<rparr>"

definition turn_tokens :: "canonical_usage \<Rightarrow> u64" where
  "turn_tokens u = u_input u + u_output u + u_reasoning u + u_cache_write u"

section \<open>Tools\<close>

record read_only_tool_policy =
  allow_network :: bool
  allow_propose_writes :: bool
  wall_clock_cap_ms :: u64
  tool_call_cap :: u32

definition policy_build :: "bool \<Rightarrow> read_only_tool_policy" where
  "policy_build propose = \<lparr>allow_network = False, allow_propose_writes = propose,
     wall_clock_cap_ms = 120000, tool_call_cap = 30\<rparr>"

definition policy_recall :: read_only_tool_policy where "policy_recall = policy_build False"
definition policy_dream :: read_only_tool_policy where "policy_dream = policy_build True"

text \<open>The executor seam: \<open>Inl\<close> is the handler's error.\<close>

type_synonym 'e tool_exec = "'e \<Rightarrow> rstr \<Rightarrow> rstr \<Rightarrow> 'e \<times> (rstr + rstr)"

record 'e tool_dispatcher =
  defs :: "tool_def list"
  exec :: "'e tool_exec option"

definition tool_content :: "'e tool_dispatcher \<Rightarrow> 'e \<Rightarrow> tool_call \<Rightarrow> 'e \<times> rstr" where
  "tool_content d env tc =
     (case exec d of
        Some ex \<Rightarrow> (case ex env (tc_name tc) (arguments tc) of
            (env', Inr s) \<Rightarrow> (env', s)
          | (env', Inl e) \<Rightarrow> (env', str ''tool error ('' @ tc_name tc @ str ''): '' @ e))
      | None \<Rightarrow> (env, str ''result for '' @ tc_name tc))"

definition tool_message :: "tool_call \<Rightarrow> rstr \<Rightarrow> message" where
  "tool_message tc text = \<lparr>role = Tool, content = Some text, tool_call_id = tc_id tc,
     tool_name = Some (tc_name tc), tool_calls = None, finish_reason = None, reasoning = None,
     provider_data = None, active = True, is_untrusted = True\<rparr>"

fun dispatch_tools :: "'e tool_dispatcher \<Rightarrow> 'e \<Rightarrow> tool_call list \<Rightarrow> 'e \<times> message list" where
  "dispatch_tools d env [] = (env, [])"
| "dispatch_tools d env (tc # tcs) =
     (case tool_content d env tc of (env1, text) \<Rightarrow>
        (case dispatch_tools d env1 tcs of (env2, ms) \<Rightarrow> (env2, tool_message tc text # ms)))"

section \<open>The turn\<close>

record dispatch_request =
  dr_messages :: "message list"
  dr_tools :: "tool_def list"
  dr_params :: req_params
  dr_tenant :: uuid

datatype turn_result =
    Final "rstr option" canonical_usage finish_reason
  | Interrupted
  | Refused rstr

datatype turn_event =
    PersistUser message
  | CostPassed
  | CostDenied rstr
  | Called dispatch_request
  | Returned normalized_response
  | OnToolCall u32 rstr rstr
  | OnToolResult u32 rstr rstr
  | OnAssistantDelta u32 rstr
  | PersistAssistant message

text \<open>The world of a turn: what \<open>cancel\<close>, \<open>cost_guard\<close> and \<open>harness.dispatch\<close> answer.\<close>

record 'e turn_world =
  is_cancelled :: "'e \<Rightarrow> bool"
  check_before_call :: "'e \<Rightarrow> 'e \<times> rstr option"
  complete :: "'e \<Rightarrow> dispatch_request \<Rightarrow> 'e \<times> (api_error + normalized_response)"

record 'e turn_ctx =
  history :: "message list"
  ctx_budget :: budget
  ctx_params :: req_params
  ctx_tools :: "'e tool_dispatcher"
  ctx_tenant :: uuid
  has_sink :: bool
  world :: "'e turn_world"

record 'e loop_state =
  ls_env :: 'e
  ls_budget :: budget
  ls_messages :: "message list"
  ls_usage :: canonical_usage
  ls_nudged :: bool

definition build_assistant_message :: "normalized_response \<Rightarrow> message" where
  "build_assistant_message nr = \<lparr>role = Assistant, content = nr_content nr, tool_call_id = None,
     tool_name = None, tool_calls = nr_tool_calls nr, finish_reason = Some (nr_finish_reason nr),
     reasoning = nr_reasoning nr, provider_data = nr_provider_data nr, active = True, is_untrusted = False\<rparr>"

definition finalize_nudge :: message where
  "finalize_nudge = plain_message User (str (''You have gathered enough context. Answer the user'' @ [CHR 0x27] @
     ''s question now, fully, using only the information already available. Do not call any tools.''))"

text \<open>\<open>Display\<close> of an \<open>ApiError\<close> (the \<open>thiserror\<close> formats).\<close>

fun api_error_display :: "api_error \<Rightarrow> rstr" where
  "api_error_display (Status st body) = str ''http status '' @ show_nat (unat st) @ str '': '' @ body"
| "api_error_display (StreamIdle ms) = str ''stream idle timeout after '' @ show_nat (unat ms) @ str ''ms''"
| "api_error_display (StreamTtfb ms) = str ''stream ttfb timeout after '' @ show_nat (unat ms) @ str ''ms''"
| "api_error_display (Transport s) = str ''transport: '' @ s"
| "api_error_display (Decode s) = str ''decode: '' @ s"

definition sink_events :: "'e turn_ctx \<Rightarrow> turn_event list \<Rightarrow> turn_event list" where
  "sink_events ctx evs = (if has_sink ctx then evs else [])"

definition finish_turn ::
  "'e turn_ctx \<Rightarrow> u32 \<Rightarrow> normalized_response \<Rightarrow> message \<Rightarrow> turn_event list" where
  "finish_turn ctx rnd nr assistant =
     sink_events ctx [OnAssistantDelta rnd (the_or [] (nr_content nr))] @ [PersistAssistant assistant]"

definition debit :: "normalized_response \<Rightarrow> budget \<Rightarrow> budget" where
  "debit nr b = tick_round (case nr_usage nr of Some u \<Rightarrow> consume_tokens (turn_tokens u) b | None \<Rightarrow> b)"

definition add_usage :: "normalized_response \<Rightarrow> canonical_usage \<Rightarrow> canonical_usage" where
  "add_usage nr tot = (case nr_usage nr of Some u \<Rightarrow> usage_add tot u | None \<Rightarrow> tot)"

text \<open>The working transcript and the request of an iteration: once the budget is spent the one-shot nudge
  joins the transcript and no tools are offered.\<close>

definition working_messages :: "'e loop_state \<Rightarrow> message list" where
  "working_messages s = (if exhausted (ls_budget s) \<and> \<not> ls_nudged s
     then ls_messages s @ [finalize_nudge] else ls_messages s)"

definition turn_request :: "'e turn_ctx \<Rightarrow> 'e loop_state \<Rightarrow> dispatch_request" where
  "turn_request ctx s = \<lparr>dr_messages = build_api_copy (working_messages s),
     dr_tools = (if exhausted (ls_budget s) then [] else defs (ctx_tools ctx)),
     dr_params = ctx_params ctx, dr_tenant = ctx_tenant ctx\<rparr>"

text \<open>One iteration. The left value is the end of the turn: \<open>Inl e\<close> an error, \<open>Inr r\<close> a result.\<close>

definition turn_step ::
  "'e turn_ctx \<Rightarrow> 'e loop_state \<Rightarrow> turn_event list \<times> (('e \<times> (rstr + turn_result)) + 'e loop_state)" where
  "turn_step ctx s =
    (if is_cancelled (world ctx) (ls_env s) then ([], Inl (ls_env s, Inr Interrupted))
     else case check_before_call (world ctx) (ls_env s) of
        (env1, Some e) \<Rightarrow> ([CostDenied e], Inl (env1, Inr (Refused e)))
      | (env1, None) \<Rightarrow>
          (case complete (world ctx) env1 (turn_request ctx s) of
             (env2, Inl e) \<Rightarrow> ([CostPassed, Called (turn_request ctx s)], Inl (env2, Inl (api_error_display e)))
           | (env2, Inr nr) \<Rightarrow>
               (let tot = add_usage nr (ls_usage s);
                    b = debit nr (ls_budget s);
                    assistant = build_assistant_message nr;
                    messages2 = working_messages s @ [assistant];
                    evs = [CostPassed, Called (turn_request ctx s), Returned nr]
                in if exhausted (ls_budget s) then
                     (evs @ finish_turn ctx (b_round b) nr assistant,
                      Inl (env2, Inr (Final (nr_content nr) tot (nr_finish_reason nr))))
                   else (case nr_tool_calls nr of
                       Some (tc # tcs) \<Rightarrow>
                         (case dispatch_tools (ctx_tools ctx) env2 (tc # tcs) of (env3, results) \<Rightarrow>
                           (evs
                             @ sink_events ctx (map (\<lambda>c. OnToolCall (b_round b) (tc_name c) (arguments c)) (tc # tcs))
                             @ sink_events ctx (map (\<lambda>r. OnToolResult (b_round b) (the_or [] (tool_name r)) (the_or [] (content r))) results),
                            Inr \<lparr>ls_env = env3, ls_budget = b, ls_messages = messages2 @ results,
                                 ls_usage = tot, ls_nudged = ls_nudged s \<or> exhausted (ls_budget s)\<rparr>))
                     | _ \<Rightarrow>
                         (evs @ finish_turn ctx (b_round b) nr assistant,
                          Inl (env2, Inr (Final (nr_content nr) tot (nr_finish_reason nr))))))))"

lemma debit_max [simp]: "max_rounds (debit nr b) = max_rounds b"
  by (simp add: debit_def tick_round_def consume_tokens_def split: option.split)

lemma debit_round [simp]: "b_round (debit nr b) = sat_add (b_round b) 1"
  by (simp add: debit_def tick_round_def consume_tokens_def split: option.split)

text \<open>A step that continues had budget left and spends one round.\<close>

lemma turn_step_more:
  assumes "turn_step ctx s = (evs, Inr s')"
  shows "\<not> exhausted (ls_budget s) \<and> max_rounds (ls_budget s') = max_rounds (ls_budget s)
    \<and> b_round (ls_budget s') = sat_add (b_round (ls_budget s)) 1"
  using assms
  by (auto simp: turn_step_def Let_def split: if_splits prod.splits sum.splits option.splits list.splits)

definition rounds_left :: "budget \<Rightarrow> nat" where
  "rounds_left b = unat (max_rounds b) - unat (b_round b)"

lemma rounds_left_step:
  assumes "turn_step ctx s = (evs, Inr s')"
  shows "rounds_left (ls_budget s) = Suc (rounds_left (ls_budget s'))"
proof -
  note m = turn_step_more [OF assms]
  then have lt: "unat (b_round (ls_budget s)) < unat (max_rounds (ls_budget s))"
    by (simp add: exhausted_def word_less_nat_alt not_le)
  then have "unat (b_round (ls_budget s)) + 1 < 2 ^ 32"
    using unsigned_less [of "max_rounds (ls_budget s)", where ?'a = nat] by simp
  with m lt show ?thesis by (simp add: rounds_left_def unat_sat_add)
qed

function turn_loop :: "'e turn_ctx \<Rightarrow> 'e loop_state \<Rightarrow> turn_event list \<times> 'e \<times> (rstr + turn_result)" where
  "turn_loop ctx s =
     (case turn_step ctx s of
        (evs, Inl (env, r)) \<Rightarrow> (evs, env, r)
      | (evs, Inr s') \<Rightarrow> (case turn_loop ctx s' of (evs', env, r) \<Rightarrow> (evs @ evs', env, r)))"
  by pat_completeness auto
termination
  by (relation "measure (\<lambda>(ctx, s). rounds_left (ls_budget s))") (auto dest: rounds_left_step [OF sym])

declare turn_loop.simps [simp del]

definition last_user :: "message list \<Rightarrow> message option" where
  "last_user h = find (\<lambda>m. role m = User) (rev h)"

definition initial_state :: "'e turn_ctx \<Rightarrow> 'e \<Rightarrow> 'e loop_state" where
  "initial_state ctx env = \<lparr>ls_env = env, ls_budget = ctx_budget ctx, ls_messages = history ctx,
     ls_usage = usage_default, ls_nudged = False\<rparr>"

definition run_turn :: "'e turn_ctx \<Rightarrow> 'e \<Rightarrow> turn_event list \<times> 'e \<times> (rstr + turn_result)" where
  "run_turn ctx env =
     (case turn_loop ctx (initial_state ctx env) of (evs, env', r) \<Rightarrow>
        ((case last_user (history ctx) of Some u \<Rightarrow> [PersistUser u] | None \<Rightarrow> []) @ evs, env', r))"

section \<open>What an iteration can do\<close>

definition is_called :: "turn_event \<Rightarrow> bool" where
  "is_called e = (case e of Called _ \<Rightarrow> True | _ \<Rightarrow> False)"

definition offers_tools :: "turn_event \<Rightarrow> bool" where
  "offers_tools e = (case e of Called req \<Rightarrow> dr_tools req \<noteq> [] | _ \<Rightarrow> False)"

definition is_persist_assistant :: "turn_event \<Rightarrow> bool" where
  "is_persist_assistant e = (case e of PersistAssistant _ \<Rightarrow> True | _ \<Rightarrow> False)"

text \<open>Sink notifications carry no obligation.\<close>

definition is_sink_event :: "turn_event \<Rightarrow> bool" where
  "is_sink_event e = (case e of OnToolCall _ _ _ \<Rightarrow> True | OnToolResult _ _ _ \<Rightarrow> True
     | OnAssistantDelta _ _ \<Rightarrow> True | _ \<Rightarrow> False)"

text \<open>Every provider call stands directly after a cost check that passed, and a denied check is the last
  thing that happens.\<close>

fun guarded :: "bool \<Rightarrow> turn_event list \<Rightarrow> bool" where
  "guarded ok [] = True"
| "guarded ok (Called _ # es) = (ok \<and> guarded False es)"
| "guarded ok (CostPassed # es) = guarded True es"
| "guarded ok (CostDenied _ # es) = (es = [])"
| "guarded ok (_ # es) = guarded False es"

text \<open>The ledger's reading of a run: the sum of the usage of the responses.\<close>

fun usage_of :: "turn_event list \<Rightarrow> canonical_usage" where
  "usage_of [] = usage_default"
| "usage_of (Returned nr # es) = add_usage nr (usage_of es)"
| "usage_of (_ # es) = usage_of es"

lemmas turn_event_defs = is_called_def offers_tools_def is_persist_assistant_def is_sink_event_def

lemma sink_event_inert [simp]:
  assumes "is_sink_event e"
  shows "\<not> is_called e" "\<not> offers_tools e" "\<not> is_persist_assistant e"
  using assms by (auto simp: turn_event_defs split: turn_event.splits)

lemma guarded_sink: "list_all is_sink_event es \<Longrightarrow> guarded ok (es @ es') = guarded (ok \<and> es = []) es'"
proof (induction es arbitrary: ok)
  case (Cons e es)
  then show ?case by (cases e) (auto simp: is_sink_event_def)
qed simp

lemma usage_of_sink: "list_all is_sink_event es \<Longrightarrow> usage_of (es @ es') = usage_of es'"
proof (induction es)
  case (Cons e es)
  then show ?case by (cases e) (auto simp: is_sink_event_def)
qed simp

lemma sink_not_denied: "CostDenied e \<in> set es \<Longrightarrow> list_all is_sink_event es \<Longrightarrow> P"
  by (auto simp: list_all_iff is_sink_event_def)

lemma filter_sink:
  assumes "list_all is_sink_event es"
  shows "filter is_called es = []" "filter offers_tools es = []" "filter is_persist_assistant es = []"
  using assms by (auto simp: list_all_iff filter_empty_conv)

lemma sink_events_sink: "list_all is_sink_event evs \<Longrightarrow> list_all is_sink_event (sink_events ctx evs)"
  by (simp add: sink_events_def)

lemma add_usage_swap: "add_usage nr (add_usage nr' u) = add_usage nr' (add_usage nr u)"
  by (auto simp: add_usage_def usage_add_def ac_simps split: option.split)

lemma add_usage_usage_add: "usage_add (add_usage nr u) v = add_usage nr (usage_add u v)"
  by (auto simp: add_usage_def usage_add_def ac_simps split: option.split)

text \<open>The five outcomes of an iteration.\<close>

lemma turn_step_outcomes:
  obtains
    (cancelled) "is_cancelled (world ctx) (ls_env s)" "turn_step ctx s = ([], Inl (ls_env s, Inr Interrupted))"
  | (denied) env e where "check_before_call (world ctx) (ls_env s) = (env, Some e)"
      "turn_step ctx s = ([CostDenied e], Inl (env, Inr (Refused e)))"
  | (failed) env1 env req e where "complete (world ctx) env1 req = (env, Inl e)"
      "offers_tools (Called req) \<Longrightarrow> \<not> exhausted (ls_budget s)"
      "turn_step ctx s = ([CostPassed, Called req], Inl (env, Inl (api_error_display e)))"
  | (final) env req nr snk where "list_all is_sink_event snk"
      "offers_tools (Called req) \<Longrightarrow> \<not> exhausted (ls_budget s)"
      "turn_step ctx s = ([CostPassed, Called req, Returned nr] @ snk @ [PersistAssistant (build_assistant_message nr)],
         Inl (env, Inr (Final (nr_content nr) (add_usage nr (ls_usage s)) (nr_finish_reason nr))))"
  | (more) req nr snk s' where "list_all is_sink_event snk" "\<not> exhausted (ls_budget s)"
      "ls_usage s' = add_usage nr (ls_usage s)" "ls_budget s' = debit nr (ls_budget s)"
      "turn_step ctx s = ([CostPassed, Called req, Returned nr] @ snk, Inr s')"
proof (cases "is_cancelled (world ctx) (ls_env s)")
  case True
  then show ?thesis by (rule cancelled) (simp add: turn_step_def True)
next
  case live: False
  define req where "req = turn_request ctx s"
  have tools: "offers_tools (Called req) \<Longrightarrow> \<not> exhausted (ls_budget s)"
    by (auto simp: offers_tools_def req_def turn_request_def split: if_splits)
  have delta: "list_all is_sink_event (sink_events ctx [OnAssistantDelta r x])" for r x
    by (rule sink_events_sink) (simp add: is_sink_event_def)
  obtain env1 d where chk: "check_before_call (world ctx) (ls_env s) = (env1, d)" by fastforce
  obtain env2 ans where cmp: "complete (world ctx) env1 req = (env2, ans)" by fastforce
  note unf = turn_step_def live chk cmp req_def [symmetric] Let_def
  show ?thesis
  proof (cases d)
    case (Some e)
    then show ?thesis by (intro denied [of env1 e]) (simp_all add: chk turn_step_def live)
  next
    case None
    show ?thesis
    proof (cases ans)
      case (Inl e)
      show ?thesis by (rule failed [of env1 req env2 e]) (use tools None Inl in \<open>simp_all add: unf\<close>)
    next
      case (Inr nr)
      show ?thesis
      proof (cases "exhausted (ls_budget s) \<or> nr_tool_calls nr = None \<or> nr_tool_calls nr = Some []")
        case True
        show ?thesis
          by (rule final [OF delta tools, where env = env2 and nr = nr])
            (use True None Inr in \<open>auto simp: unf finish_turn_def\<close>)
      next
        case False
        then obtain tc tcs where tcs: "nr_tool_calls nr = Some (tc # tcs)"
          by (metis list.exhaust option.exhaust)
        obtain env3 results where run: "dispatch_tools (ctx_tools ctx) env2 (tc # tcs) = (env3, results)" by fastforce
        define snk where "snk =
          sink_events ctx (map (\<lambda>c. OnToolCall (b_round (debit nr (ls_budget s))) (tc_name c) (arguments c)) (tc # tcs))
          @ sink_events ctx (map (\<lambda>r. OnToolResult (b_round (debit nr (ls_budget s)))
              (the_or [] (tool_name r)) (the_or [] (content r))) results)"
        have "list_all is_sink_event snk"
          by (auto simp: snk_def sink_events_def list_all_iff is_sink_event_def)
        then show ?thesis
          by (rule more [of snk _ nr req])
            (use False None Inr tcs run in \<open>simp_all add: unf snk_def del: dispatch_tools.simps\<close>)
      qed
    qed
  qed
qed

section \<open>What a whole turn does\<close>

lemma turn_loop_stop: "turn_step ctx s = (evs, Inl (env, r)) \<Longrightarrow> turn_loop ctx s = (evs, env, r)"
  by (subst turn_loop.simps) simp

lemma turn_loop_more:
  "turn_step ctx s = (evs, Inr s') \<Longrightarrow>
   turn_loop ctx s = (evs @ fst (turn_loop ctx s'), snd (turn_loop ctx s'))"
  by (subst turn_loop.simps) (simp split: prod.split)

text \<open>Induction over the iterations of a turn: a property of the finished run is checked on the outcomes that
  end the turn and carried over one continuing step.\<close>

lemma turn_loop_induct [case_names cancelled denied failed final more]:
  fixes P :: "'e loop_state \<Rightarrow> turn_event list \<Rightarrow> (rstr + turn_result) \<Rightarrow> bool"
  assumes "\<And>s. is_cancelled (world ctx) (ls_env s) \<Longrightarrow> P s [] (Inr Interrupted)"
    and "\<And>s env e. check_before_call (world ctx) (ls_env s) = (env, Some e) \<Longrightarrow> P s [CostDenied e] (Inr (Refused e))"
    and "\<And>s env1 env req e. complete (world ctx) env1 req = (env, Inl e) \<Longrightarrow>
      (offers_tools (Called req) \<Longrightarrow> \<not> exhausted (ls_budget s)) \<Longrightarrow>
      P s [CostPassed, Called req] (Inl (api_error_display e))"
    and "\<And>s req nr snk. list_all is_sink_event snk \<Longrightarrow>
      (offers_tools (Called req) \<Longrightarrow> \<not> exhausted (ls_budget s)) \<Longrightarrow>
      P s ([CostPassed, Called req, Returned nr] @ snk @ [PersistAssistant (build_assistant_message nr)])
        (Inr (Final (nr_content nr) (add_usage nr (ls_usage s)) (nr_finish_reason nr)))"
    and "\<And>s req nr snk s' evs r. list_all is_sink_event snk \<Longrightarrow> \<not> exhausted (ls_budget s) \<Longrightarrow>
      ls_usage s' = add_usage nr (ls_usage s) \<Longrightarrow> rounds_left (ls_budget s) = Suc (rounds_left (ls_budget s')) \<Longrightarrow>
      P s' evs r \<Longrightarrow> P s ([CostPassed, Called req, Returned nr] @ snk @ evs) r"
  shows "P s (fst (turn_loop ctx s)) (snd (snd (turn_loop ctx s)))"
proof (induction "rounds_left (ls_budget s)" arbitrary: s rule: less_induct)
  case less
  show ?case
  proof (cases rule: turn_step_outcomes [of ctx s])
    case cancelled
    then show ?thesis using assms(1) by (simp add: turn_loop_stop)
  next
    case (denied env e)
    then show ?thesis using assms(2) by (simp add: turn_loop_stop)
  next
    case (failed env1 env req e)
    then show ?thesis using assms(3) by (simp add: turn_loop_stop)
  next
    case (final env req nr snk)
    then show ?thesis using assms(4) [of snk req s nr] by (simp add: turn_loop_stop)
  next
    case (more req nr snk s')
    note left = rounds_left_step [OF more(5)]
    have "P s' (fst (turn_loop ctx s')) (snd (snd (turn_loop ctx s')))"
      by (rule less) (simp add: left)
    from assms(5) [OF more(1) more(2) more(3) left this, of req] show ?thesis
      by (simp add: turn_loop_more [OF more(5)])
  qed
qed

lemma turn_loop_calls:
  "length (filter is_called (fst (turn_loop ctx s))) \<le> rounds_left (ls_budget s) + 1
   \<and> length (filter offers_tools (fst (turn_loop ctx s))) \<le> rounds_left (ls_budget s)"
proof (induction rule: turn_loop_induct
    [where P = "\<lambda>s evs r. length (filter is_called evs) \<le> rounds_left (ls_budget s) + 1
      \<and> length (filter offers_tools evs) \<le> rounds_left (ls_budget s)" and s = s])
  case (failed s env1 env req e)
  then show ?case
    by (auto simp: turn_event_defs exhausted_def rounds_left_def word_less_nat_alt not_le)
next
  case (final s req nr snk)
  then show ?case
    by (auto simp: filter_sink turn_event_defs exhausted_def rounds_left_def word_less_nat_alt not_le)
next
  case (more s req nr snk s' evs r)
  then show ?case by (auto simp: filter_sink turn_event_defs)
qed (simp_all add: turn_event_defs)

lemma turn_loop_guarded:
  "\<forall>ok. guarded ok (fst (turn_loop ctx s)) \<and>
   (\<forall>e. snd (snd (turn_loop ctx s)) = Inr (Refused e) \<longleftrightarrow> CostDenied e \<in> set (fst (turn_loop ctx s)))"
proof (induction rule: turn_loop_induct
    [where P = "\<lambda>s evs r. \<forall>ok. guarded ok evs \<and> (\<forall>e. r = Inr (Refused e) \<longleftrightarrow> CostDenied e \<in> set evs)"
      and s = s])
  case (final s req nr snk)
  then show ?case by (auto simp: guarded_sink dest: sink_not_denied)
next
  case (more s req nr snk s' evs r)
  then show ?case by (auto simp: guarded_sink dest: sink_not_denied)
qed auto

lemma turn_loop_ledger:
  "case snd (snd (turn_loop ctx s)) of
     Inr (Final c u f) \<Rightarrow> u = usage_add (ls_usage s) (usage_of (fst (turn_loop ctx s)))
       \<and> (\<exists>evs nr. fst (turn_loop ctx s) = evs @ [PersistAssistant (build_assistant_message nr)]
            \<and> filter is_persist_assistant evs = [] \<and> Returned nr \<in> set evs
            \<and> c = nr_content nr \<and> f = nr_finish_reason nr)
   | _ \<Rightarrow> filter is_persist_assistant (fst (turn_loop ctx s)) = []"
proof (induction rule: turn_loop_induct
    [where P = "\<lambda>s evs r. case r of
     Inr (Final c u f) \<Rightarrow> u = usage_add (ls_usage s) (usage_of evs)
       \<and> (\<exists>es nr. evs = es @ [PersistAssistant (build_assistant_message nr)]
            \<and> filter is_persist_assistant es = [] \<and> Returned nr \<in> set es
            \<and> c = nr_content nr \<and> f = nr_finish_reason nr)
   | _ \<Rightarrow> filter is_persist_assistant evs = []" and s = s])
  case (final s req nr snk)
  let ?es = "[CostPassed, Called req, Returned nr] @ snk"
  have "filter is_persist_assistant ?es = []"
    by (simp add: filter_sink [OF final(1)] is_persist_assistant_def)
  moreover have "usage_add (ls_usage s) (add_usage nr usage_default) = add_usage nr (ls_usage s)"
    by (simp add: add_usage_def split: option.split)
  ultimately show ?case
    by (auto simp: usage_of_sink [OF final(1)] intro!: exI [of _ ?es] exI [of _ nr])
next
  case (more s req nr snk s' evs r)
  have usage: "usage_add (ls_usage s') v = usage_add (ls_usage s) (add_usage nr v)" for v
    using more(3) by (auto simp: add_usage_def usage_add_def ac_simps split: option.split)
  have pre: "filter is_persist_assistant ([CostPassed, Called req, Returned nr] @ snk @ es) = filter is_persist_assistant es" for es
    by (simp add: filter_sink [OF more(1)] is_persist_assistant_def)
  show ?case
  proof (cases "\<exists>c u f. r = Inr (Final c u f)")
    case True
    then obtain c u f where r: "r = Inr (Final c u f)" by blast
    with more(5) obtain es n where es: "u = usage_add (ls_usage s') (usage_of evs)"
      "evs = es @ [PersistAssistant (build_assistant_message n)]" "filter is_persist_assistant es = []"
      "Returned n \<in> set es" "c = nr_content n" "f = nr_finish_reason n" by auto
    let ?es = "[CostPassed, Called req, Returned nr] @ snk @ es"
    have "filter is_persist_assistant ?es = []" by (simp only: pre es(3))
    with r es show ?thesis
      by (auto simp: usage usage_of_sink [OF more(1)] intro!: exI [of _ ?es] exI [of _ n])
  next
    case False
    with more(5) have "filter is_persist_assistant evs = []"
      by (auto split: sum.splits turn_result.splits)
    with False pre [of evs] show ?thesis by (auto split: sum.splits turn_result.splits)
  qed
qed (simp_all add: is_persist_assistant_def)

lemma run_turn_result [simp]: "snd (snd (run_turn ctx env)) = snd (snd (turn_loop ctx (initial_state ctx env)))"
  by (simp add: run_turn_def split: prod.split)

lemma run_turn_events:
  "fst (run_turn ctx env) = (case last_user (history ctx) of Some u \<Rightarrow> [PersistUser u] | None \<Rightarrow> [])
     @ fst (turn_loop ctx (initial_state ctx env))"
  by (simp add: run_turn_def split: prod.split)

text \<open>The prologue persists the user message and is inert otherwise.\<close>

lemma prologue_inert:
  "filter is_called (case m of Some u \<Rightarrow> [PersistUser u] | None \<Rightarrow> []) = []"
  "filter offers_tools (case m of Some u \<Rightarrow> [PersistUser u] | None \<Rightarrow> []) = []"
  "filter is_persist_assistant (case m of Some u \<Rightarrow> [PersistUser u] | None \<Rightarrow> []) = []"
  "guarded ok ((case m of Some u \<Rightarrow> [PersistUser u] | None \<Rightarrow> []) @ evs) = guarded (ok \<and> m = None) evs"
  "usage_of ((case m of Some u \<Rightarrow> [PersistUser u] | None \<Rightarrow> []) @ evs) = usage_of evs"
  "CostDenied e \<notin> set (case m of Some u \<Rightarrow> [PersistUser u] | None \<Rightarrow> [])"
  by (simp_all add: turn_event_defs split: option.split)

section \<open>Metering the world of a turn\<close>

text \<open>A meter on the world: the guard and the tools do not raise it and a provider call raises it by at most
  \<open>k\<close>. Then a whole turn raises it by at most \<open>k\<close> per provider call.\<close>

locale turn_meter =
  fixes ctx :: "'e turn_ctx" and meter :: "'e \<Rightarrow> nat" and k :: nat
  assumes guard_meter: "meter (fst (check_before_call (world ctx) e)) \<le> meter e"
    and call_meter: "meter (fst (complete (world ctx) e req)) \<le> meter e + k"
    and tool_meter: "exec (ctx_tools ctx) = Some ex \<Longrightarrow> meter (fst (ex e n a)) \<le> meter e"
begin

lemma content_meter: "meter (fst (tool_content (ctx_tools ctx) e tc)) \<le> meter e"
proof (cases "exec (ctx_tools ctx)")
  case None
  then show ?thesis by (simp add: tool_content_def)
next
  case (Some ex)
  then show ?thesis
    using tool_meter [OF Some, of e "tc_name tc" "arguments tc"]
    by (auto simp: tool_content_def split: prod.splits sum.splits)
qed

lemma dispatch_meter: "meter (fst (dispatch_tools (ctx_tools ctx) e tcs)) \<le> meter e"
proof (induction tcs arbitrary: e)
  case (Cons tc tcs)
  obtain e1 c where 1: "tool_content (ctx_tools ctx) e tc = (e1, c)" by fastforce
  have "meter e1 \<le> meter e" using content_meter [of e tc] 1 by simp
  with Cons [of e1] 1 show ?case by (auto split: prod.split intro: le_trans)
qed simp

lemma step_meter:
  assumes "turn_step ctx s = (evs, res)"
  shows "meter (case res of Inl (env, _) \<Rightarrow> env | Inr s' \<Rightarrow> ls_env s') \<le> meter (ls_env s) + k * length (filter is_called evs)"
proof (cases "is_cancelled (world ctx) (ls_env s)")
  case True
  with assms show ?thesis by (auto simp: turn_step_def)
next
  case live: False
  obtain env1 verdict where chk: "check_before_call (world ctx) (ls_env s) = (env1, verdict)" by fastforce
  obtain env2 ans where cmp: "complete (world ctx) env1 (turn_request ctx s) = (env2, ans)" by fastforce
  have 1: "meter env1 \<le> meter (ls_env s)" using guard_meter [of "ls_env s"] chk by simp
  have 2: "meter env2 \<le> meter env1 + k" using call_meter [of env1 "turn_request ctx s"] cmp by simp
  have 3: "meter (fst (dispatch_tools (ctx_tools ctx) env2 tcs)) \<le> meter env2" for tcs by (rule dispatch_meter)
  have snk: "filter is_called (sink_events ctx (map (\<lambda>c. OnToolCall (r c) (n c) (a c)) xs)) = []"
    "filter is_called (sink_events ctx (map (\<lambda>c. OnToolResult (r' c) (n' c) (a' c)) ys)) = []"
    "filter is_called (finish_turn ctx q nr m) = []" for r n a xs r' n' a' ys q nr m
    by (auto simp: sink_events_def finish_turn_def is_called_def filter_empty_conv)
  show ?thesis
  proof (cases verdict)
    case (Some e)
    with assms live chk 1 show ?thesis by (auto simp: turn_step_def is_called_def)
  next
    case None
    note unf = turn_step_def live chk None cmp Let_def
    show ?thesis
    proof (cases ans)
      case (Inl e)
      with assms 1 2 show ?thesis by (auto simp: unf is_called_def)
    next
      case (Inr nr)
      show ?thesis
      proof (cases "exhausted (ls_budget s) \<or> nr_tool_calls nr = None \<or> nr_tool_calls nr = Some []")
        case True
        with assms 1 2 Inr show ?thesis
          by (cases "exhausted (ls_budget s)") (auto simp: unf is_called_def snk)
      next
        case False
        then obtain tc tcs where tcs: "nr_tool_calls nr = Some (tc # tcs)" by (metis list.exhaust option.exhaust)
        obtain env3 results where run: "dispatch_tools (ctx_tools ctx) env2 (tc # tcs) = (env3, results)" by fastforce
        have "meter env3 \<le> meter env2" using 3 [of "tc # tcs"] run by simp
        moreover have "ls_env (case res of Inr s' \<Rightarrow> s') = env3 \<and> (\<exists>s'. res = Inr s') \<and> length (filter is_called evs) = 1"
          using assms Inr False tcs run
          by (auto simp: unf is_called_def snk simp del: dispatch_tools.simps list.map)
        ultimately show ?thesis using 1 2 by auto
      qed
    qed
  qed
qed

lemma loop_meter:
  "meter (fst (snd (turn_loop ctx s))) \<le> meter (ls_env s) + k * length (filter is_called (fst (turn_loop ctx s)))"
proof (induction "rounds_left (ls_budget s)" arbitrary: s rule: less_induct)
  case less
  obtain evs res where step: "turn_step ctx s = (evs, res)" by fastforce
  show ?case
  proof (cases res)
    case (Inl r)
    with step_meter [OF step] step show ?thesis by (cases r) (simp add: turn_loop_stop)
  next
    case (Inr s')
    with step have loop: "turn_loop ctx s = (evs @ fst (turn_loop ctx s'), snd (turn_loop ctx s'))"
      by (simp add: turn_loop_more)
    have "rounds_left (ls_budget s') < rounds_left (ls_budget s)"
      using rounds_left_step [of ctx s evs s'] step Inr by simp
    with less [of s'] step_meter [OF step] Inr show ?thesis by (auto simp: loop algebra_simps intro: le_trans)
  qed
qed

lemma turn_meter: "meter (fst (snd (run_turn ctx env))) \<le> meter env + k * (unat (max_rounds (ctx_budget ctx)) + 1)"
proof -
  let ?s = "initial_state ctx env"
  have "fst (snd (run_turn ctx env)) = fst (snd (turn_loop ctx ?s))" by (simp add: run_turn_def split: prod.split)
  moreover have "length (filter is_called (fst (turn_loop ctx ?s))) \<le> unat (max_rounds (ctx_budget ctx)) + 1"
    using turn_loop_calls [of ctx ?s] by (auto simp: initial_state_def rounds_left_def)
  then have "k * length (filter is_called (fst (turn_loop ctx ?s))) \<le> k * (unat (max_rounds (ctx_budget ctx)) + 1)"
    by (rule mult_le_mono2)
  ultimately show ?thesis using loop_meter [of ?s] by (simp add: initial_state_def)
qed

end

section \<open>The properties of a turn\<close>

text \<open>Further: Spend bound. Whatever the provider, the tools and the guard answer, a turn makes at most
  \<open>max_rounds + 1\<close> provider calls, and at most \<open>max_rounds\<close> of them offer tools to the model (the extra
  one is the tool-less finalizing call).\<close>

theorem turn_calls_bounded:
  "length (filter is_called (fst (run_turn ctx env))) \<le> unat (max_rounds (ctx_budget ctx)) + 1
   \<and> length (filter offers_tools (fst (run_turn ctx env))) \<le> unat (max_rounds (ctx_budget ctx))"
proof -
  have "rounds_left (ctx_budget ctx) \<le> unat (max_rounds (ctx_budget ctx))" by (simp add: rounds_left_def)
  with turn_loop_calls [of ctx "initial_state ctx env"] show ?thesis
    by (auto simp: run_turn_events prologue_inert initial_state_def)
qed

text \<open>C2: The cost cap is checked before every call. In the events of a turn each provider call directly
  follows a cost check that passed, nothing follows a denied check, and the turn is refused with reason
  \<open>e\<close> exactly when a check was denied with that reason.\<close>

theorem turn_cost_guarded:
  "guarded False (fst (run_turn ctx env)) \<and>
   (\<forall>e. snd (snd (run_turn ctx env)) = Inr (Refused e) \<longleftrightarrow> CostDenied e \<in> set (fst (run_turn ctx env)))"
  using turn_loop_guarded [of ctx "initial_state ctx env"]
  by (simp add: run_turn_events prologue_inert)

text \<open>C3: Ledger and epilogue. When the turn answers, the reported usage is the sum of the usage of all the
  responses of the turn, and the assistant message persisted last, the only one, is that of a response received in this turn,
  whose content and finish reason are the ones reported; a turn that does not answer persists no assistant
  message.\<close>

theorem turn_ledger:
  "case snd (snd (run_turn ctx env)) of
     Inr (Final c u f) \<Rightarrow> u = usage_of (fst (run_turn ctx env))
       \<and> (\<exists>evs nr. fst (run_turn ctx env) = evs @ [PersistAssistant (build_assistant_message nr)]
            \<and> filter is_persist_assistant evs = [] \<and> Returned nr \<in> set evs
            \<and> c = nr_content nr \<and> f = nr_finish_reason nr)
   | _ \<Rightarrow> filter is_persist_assistant (fst (run_turn ctx env)) = []"
proof -
  let ?pre = "case last_user (history ctx) of Some u \<Rightarrow> [PersistUser u] | None \<Rightarrow> []"
  note L = turn_loop_ledger [of ctx "initial_state ctx env"]
  show ?thesis
  proof (cases "\<exists>c u f. snd (snd (run_turn ctx env)) = Inr (Final c u f)")
    case True
    then obtain c u f where r: "snd (snd (run_turn ctx env)) = Inr (Final c u f)" by blast
    with L obtain es nr where es: "u = usage_of (fst (turn_loop ctx (initial_state ctx env)))"
      "fst (turn_loop ctx (initial_state ctx env)) = es @ [PersistAssistant (build_assistant_message nr)]"
      "filter is_persist_assistant es = []" "Returned nr \<in> set es" "c = nr_content nr" "f = nr_finish_reason nr"
      by (auto simp: initial_state_def)
    have "filter is_persist_assistant (?pre @ es) = []" by (simp add: prologue_inert es(3))
    with r es show ?thesis
      by (auto simp: run_turn_events prologue_inert intro!: exI [of _ "?pre @ es"] exI [of _ nr])
  next
    case False
    with L show ?thesis
      by (auto simp: run_turn_events prologue_inert split: sum.splits turn_result.splits)
  qed
qed

text \<open>C4: A turn always answers. If the turn is never cancelled, the guard never denies and the provider
  always responds, then the turn ends with a final answer, even when every response asks for more tools.\<close>

theorem turn_answers:
  assumes "\<forall>e. \<not> is_cancelled (world ctx) e"
    and "\<forall>e. snd (check_before_call (world ctx) e) = None"
    and "\<forall>e req. \<exists>nr. snd (complete (world ctx) e req) = Inr nr"
  shows "\<exists>c u f. snd (snd (run_turn ctx env)) = Inr (Final c u f)"
proof -
  have "\<exists>c u f. snd (snd (turn_loop ctx s)) = Inr (Final c u f)" for s
  proof (induction rule: turn_loop_induct [where P = "\<lambda>s evs r. \<exists>c u f. r = Inr (Final c u f)" and s = s])
    case (denied s env e)
    with assms(2) show ?case by (metis option.distinct(1) snd_conv)
  next
    case (failed s env1 env req e)
    with assms(3) show ?case by (metis Inl_Inr_False snd_conv)
  qed (use assms(1) in simp_all)
  then show ?thesis by simp
qed

text \<open>A world whose model asks for a tool in every response: only the budget ends the turn.\<close>

definition looping_response :: normalized_response where
  "looping_response = \<lparr>nr_content = Some (str ''hm''), nr_tool_calls = Some [\<lparr>tc_id = None, tc_name = str ''read_page'',
      arguments = str ''{}'', tc_provider_data = None\<rparr>], nr_finish_reason = ToolCalls, nr_reasoning = None,
      nr_usage = None, nr_provider_data = None\<rparr>"

definition looping_ctx :: "nat turn_ctx" where
  "looping_ctx = \<lparr>history = [], ctx_budget = budget_tokens 100 3, 
     ctx_params = \<lparr>temperature = None, max_tokens = None, response_format = None, stream = False,
       server_tools = [], rp_reasoning = None, session_id = None\<rparr>,
     ctx_tools = \<lparr>defs = [], exec = None\<rparr>, ctx_tenant = 0, has_sink = False,
     world = \<lparr>is_cancelled = (\<lambda>_. False), check_before_call = (\<lambda>n. (n, None)),
       complete = (\<lambda>n req. (Suc n, Inr looping_response))\<rparr>\<rparr>"

theorem turn_answers_witness:
  "\<exists>c u f. snd (snd (run_turn looping_ctx 0)) = Inr (Final c u f)"
  by (rule turn_answers) (simp_all add: looping_ctx_def)

text \<open>Further: Tool results answer their calls. Dispatching a list of calls yields exactly one result message per
  call, in order, with the call's id and name, marked untrusted, and with a content whether or not the handler
  fails.\<close>

theorem tool_results_match:
  "list_all2 (\<lambda>tc m. role m = Tool \<and> tool_call_id m = tc_id tc \<and> tool_name m = Some (tc_name tc)
      \<and> is_untrusted m \<and> content m \<noteq> None) tcs (snd (dispatch_tools d env tcs))"
proof (induction tcs arbitrary: env)
  case (Cons tc tcs)
  obtain env1 res where "tool_content d env tc = (env1, res)" by fastforce
  with Cons [of env1] show ?case by (auto simp: tool_message_def split: prod.split)
qed simp

text \<open>Further: The token ceiling can be missed. The debit of a response is a wrapping 64-bit sum of the four
  provider-reported counters, so a response that reports more tokens than fit in 64 bits may debit nothing
  (an overflow-checked build panics there instead).\<close>

theorem turn_tokens_wrap:
  "\<exists>u b. 2 ^ 64 \<le> unat (u_input u) + unat (u_output u) + unat (u_reasoning u) + unat (u_cache_write u)
     \<and> tokens_remaining b = 1 \<and> \<not> exhausted b \<and> consume_tokens (turn_tokens u) b = b"
  by (rule exI [of _ "\<lparr>u_input = 2 ^ 63, u_output = 2 ^ 63, u_cache_read = 0, u_cache_write = 0, u_reasoning = 0\<rparr>"],
      rule exI [of _ "budget_tokens 1 8"])
    (simp add: turn_tokens_def consume_tokens_def budget_tokens_def exhausted_def sat_sub_def word_le_nat_alt)

end
