(* ===== verification/Transport.thy ===== *)
theory Transport
  imports Turn
begin

text \<open>
  The three wire transports of \<open>router/src/transport*.rs\<close> (Chat Completions, Anthropic Messages,
  Responses) with the usage normalisation of \<open>llm-api/src/usage_norm.rs\<close>: how a transcript, the
  tool definitions and the request parameters become a request body, and how a response body becomes a
  \<open>NormalizedResponse\<close>. A \<open>dyn Transport\<close> is a record of functions; \<open>transport_for\<close> is the
  factory. The JSON reader and printer of \<open>serde_json\<close> are the parameters \<open>rd\<close> and \<open>pr\<close>.

  The lemmas describe the wire each transport writes, item by item: what of a stored message reaches the
  provider, how tool results are paired with the calls they answer, and what of a response survives the
  trip through the stored assistant message into the next request.
\<close>

section \<open>Building JSON\<close>

definition put :: "string \<Rightarrow> jvalue \<Rightarrow> jmap \<Rightarrow> jmap" where
  "put k v m = obj_insert (str k) v m"

definition put_if :: "string \<Rightarrow> jvalue option \<Rightarrow> jmap \<Rightarrow> jmap" where
  "put_if k v m = (case v of Some x \<Rightarrow> put k x m | None \<Rightarrow> m)"

text \<open>\<open>json!({..})\<close>: the keys are inserted one after the other.\<close>

definition jobj :: "(string \<times> jvalue) list \<Rightarrow> jvalue" where
  "jobj kvs = JObject (foldl (\<lambda>m (k, v). put k v m) [] kvs)"

abbreviation jstr :: "string \<Rightarrow> jvalue" where
  "jstr s \<equiv> JString (str s)"

definition json_u32 :: "u32 \<Rightarrow> jvalue" where
  "json_u32 n = JNumber (PosInt (ucast n))"

text \<open>\<open>json!(f)\<close> for an \<open>f32\<close> given by its bits: the value widened to a double, null when it is not
  finite.\<close>

definition f32_json :: "u32 \<Rightarrow> jvalue" where
  "f32_json b =
     (let s = unat (drop_bit 31 b); e = unat (take_bit 8 (drop_bit 23 b)); m = unat (take_bit 23 b);
          double = (\<lambda>e' m'. JNumber (Float (word_of_nat (s * 2 ^ 63 + e' * 2 ^ 52 + m'))))
      in if e = 255 then JNull
         else if e > 0 then double (e + 896) (m * 2 ^ 29)
         else if m = 0 then double 0 0
         else (let k = length (takeWhile (\<lambda>j. 2 ^ j \<le> m) [1..<23]) in double (k + 874) ((m - 2 ^ k) * 2 ^ (52 - k))))"

lemma jget_put [simp]: "obj_get (put k v m) k' = (if k' = str k then Some v else obj_get m k')"
  by (simp add: put_def obj_get_insert)

lemma sorted_keys_put: "sorted_keys m \<Longrightarrow> sorted_keys (put k v m)"
  by (simp add: put_def sorted_keys_insert)

section \<open>Usage normalisation\<close>

fun u64_at :: "jvalue \<Rightarrow> rstr list \<Rightarrow> u64" where
  "u64_at v [] = 0"
| "u64_at v (k # ks) = (case Option.bind (jget v k) as_u64 of Some n \<Rightarrow> n | None \<Rightarrow> u64_at v ks)"

definition or_else :: "'a option \<Rightarrow> 'a option \<Rightarrow> 'a option" where
  "or_else a b = (case a of Some x \<Rightarrow> Some x | None \<Rightarrow> b)"

definition positive :: "u64 option \<Rightarrow> u64 option" where
  "positive a = (case a of Some n \<Rightarrow> if n > 0 then Some n else None | None \<Rightarrow> None)"

definition nested_u64 :: "jvalue \<Rightarrow> string \<Rightarrow> string \<Rightarrow> u64 option" where
  "nested_u64 v outer inner = map_option (\<lambda>d. u64_at d [str inner]) (jget v (str outer))"

definition usage_from_chat :: "jvalue \<Rightarrow> canonical_usage option" where
  "usage_from_chat v =
     (if v = JNull \<or> \<not> is_object v then None
      else Some \<lparr>u_input = u64_at v (map str [''prompt_tokens'', ''input_tokens'']),
        u_output = u64_at v (map str [''completion_tokens'', ''output_tokens'']),
        u_cache_read = the_or (u64_at v [str ''cached_tokens''])
          (or_else (nested_u64 v ''prompt_tokens_details'' ''cached_tokens'')
                   (nested_u64 v ''input_tokens_details'' ''cached_tokens'')),
        u_cache_write = 0,
        u_reasoning = the_or (u64_at v [str ''reasoning_tokens''])
          (positive (or_else (positive (nested_u64 v ''completion_tokens_details'' ''reasoning_tokens''))
                             (nested_u64 v ''output_tokens_details'' ''reasoning_tokens'')))\<rparr>)"

definition usage_from_anthropic :: "jvalue \<Rightarrow> canonical_usage option" where
  "usage_from_anthropic v =
     (if v = JNull \<or> \<not> is_object v then None
      else Some \<lparr>u_input = u64_at v [str ''input_tokens''], u_output = u64_at v [str ''output_tokens''],
        u_cache_read = u64_at v [str ''cache_read_input_tokens''],
        u_cache_write = u64_at v [str ''cache_creation_input_tokens''], u_reasoning = 0\<rparr>)"

section \<open>The transport interface\<close>

datatype transport_error = MissingField rstr | BadShape rstr

fun transport_error_display :: "transport_error \<Rightarrow> rstr" where
  "transport_error_display (MissingField f) = str ''missing field '' @ f"
| "transport_error_display (BadShape s) = str ''bad shape: '' @ s"

record transport =
  t_api_mode :: api_mode
  convert_messages :: "message list \<Rightarrow> rstr \<Rightarrow> jvalue"
  convert_tools :: "tool_def list \<Rightarrow> jvalue"
  build_kwargs :: "rstr \<Rightarrow> message list \<Rightarrow> tool_def list option \<Rightarrow> provider_profile \<Rightarrow> req_params \<Rightarrow> jvalue"
  normalize_response :: "jvalue \<Rightarrow> transport_error + normalized_response"

definition max_tokens_for :: "rstr \<Rightarrow> provider_profile \<Rightarrow> req_params \<Rightarrow> u32 option" where
  "max_tokens_for model profile params =
     or_else (or_else (max_tokens params) (get_max_tokens (hooks profile) model)) (default_max_tokens profile)"

definition system_text :: "message list \<Rightarrow> rstr" where
  "system_text msgs = join [10, 10] (List.map_filter content (filter (\<lambda>m. role m = System) msgs))"

section \<open>Chat Completions\<close>

fun role_str :: "role \<Rightarrow> rstr" where
  "role_str System = str ''system''"
| "role_str User = str ''user''"
| "role_str Assistant = str ''assistant''"
| "role_str Tool = str ''tool''"

definition sort_json_string :: "from_str \<Rightarrow> (jvalue \<Rightarrow> rstr) \<Rightarrow> rstr \<Rightarrow> rstr" where
  "sort_json_string rd pr s = (case rd s of Some v \<Rightarrow> pr v | None \<Rightarrow> s)"

definition token_limit_key :: "rstr \<Rightarrow> string" where
  "token_limit_key model =
     (if starts_with model (str ''gpt-5'') \<or> starts_with model (str ''o1'') \<or> starts_with model (str ''o3'')
         \<or> starts_with model (str ''o4'') then ''max_completion_tokens'' else ''max_tokens'')"

definition chat_call :: "from_str \<Rightarrow> (jvalue \<Rightarrow> rstr) \<Rightarrow> tool_call \<Rightarrow> jvalue" where
  "chat_call rd pr tc = jobj [(''id'', JString (the_or [] (tc_id tc))), (''type'', jstr ''function''),
     (''function'', jobj [(''name'', JString (tc_name tc)), (''arguments'', JString (sort_json_string rd pr (arguments tc)))])]"

definition chat_message :: "from_str \<Rightarrow> (jvalue \<Rightarrow> rstr) \<Rightarrow> message \<Rightarrow> jvalue" where
  "chat_message rd pr m = JObject
     (put_if ''tool_call_id'' (map_option JString (tool_call_id m))
      (put_if ''tool_calls'' (map_option (\<lambda>tcs. JArray (map (chat_call rd pr) tcs)) (tool_calls m))
       (put_if ''content'' (map_option JString (content m))
        (put ''role'' (JString (role_str (role m))) []))))"

definition chat_convert_messages :: "from_str \<Rightarrow> (jvalue \<Rightarrow> rstr) \<Rightarrow> message list \<Rightarrow> rstr \<Rightarrow> jvalue" where
  "chat_convert_messages rd pr msgs model = JArray (map (chat_message rd pr) msgs)"

definition chat_convert_tools :: "tool_def list \<Rightarrow> jvalue" where
  "chat_convert_tools tools = JArray (map (\<lambda>t. jobj [(''type'', jstr ''function''),
     (''function'', jobj [(''name'', JString (td_name t)), (''description'', JString (td_description t)),
        (''parameters'', input_schema t)])]) tools)"

definition chat_temperature :: "provider_profile \<Rightarrow> req_params \<Rightarrow> jvalue option" where
  "chat_temperature profile params = (case fixed_temperature profile of
       Omit \<Rightarrow> None | Fixed f \<Rightarrow> Some (f32_json f) | Inherit \<Rightarrow> map_option f32_json (temperature params))"

definition chat_build_kwargs :: "from_str \<Rightarrow> (jvalue \<Rightarrow> rstr) \<Rightarrow>
    rstr \<Rightarrow> message list \<Rightarrow> tool_def list option \<Rightarrow> provider_profile \<Rightarrow> req_params \<Rightarrow> jvalue" where
  "chat_build_kwargs rd pr model msgs tools profile params =
     (let b1 = put ''messages'' (chat_convert_messages rd pr msgs model) (put ''model'' (JString model) []);
          b2 = (case tools of
                  Some t \<Rightarrow> (let b = put ''tools'' (chat_convert_tools t) b1
                            in if t \<noteq> [] then put ''tool_choice'' (jstr ''auto'') b else b)
                | None \<Rightarrow> b1);
          b3 = put_if ''temperature'' (chat_temperature profile params) b2;
          b4 = put_if (token_limit_key model) (map_option json_u32 (max_tokens_for model profile params)) b3;
          b5 = (if stream params
                then put ''stream_options'' (jobj [(''include_usage'', JBool True)]) (put ''stream'' (JBool True) b4) else b4);
          b6 = put_if ''response_format'' (response_format params) b5
      in JObject (if server_tools params \<noteq> [] then put ''web_search_options'' (jobj []) b6 else b6))"

definition chat_tool_call :: "jvalue \<Rightarrow> tool_call" where
  "chat_tool_call tc =
     (let fn = jget tc (str ''function'') in
      \<lparr>tc_id = get_str tc ''id'', tc_name = the_or [] (Option.bind fn (\<lambda>f. get_str f ''name'')),
       arguments = the_or (str ''{}'') (Option.bind fn (\<lambda>f. get_str f ''arguments'')), tc_provider_data = None\<rparr>)"

definition chat_finish :: "rstr \<Rightarrow> finish_reason" where
  "chat_finish s = (if s = str ''tool_calls'' then ToolCalls else if s = str ''length'' then Length
     else if s = str ''content_filter'' then ContentFilter else Stop)"

definition chat_normalize :: "jvalue \<Rightarrow> transport_error + normalized_response" where
  "chat_normalize raw =
     (case Option.bind (jget raw (str ''choices'')) (\<lambda>c. jget_idx c 0) of
        None \<Rightarrow> Inl (MissingField (str ''choices[0]''))
      | Some choice \<Rightarrow>
          (case jget choice (str ''message'') of
             None \<Rightarrow> Inl (MissingField (str ''message''))
           | Some msg \<Rightarrow>
               (let reas = Option.bind (or_else (jget msg (str ''reasoning_content'')) (jget msg (str ''reasoning''))) as_str in
                Inr \<lparr>nr_content = get_str msg ''content'',
                  nr_tool_calls = map_option (map chat_tool_call) (Option.bind (jget msg (str ''tool_calls'')) as_array),
                  nr_finish_reason = chat_finish (the_or (str ''stop'') (get_str choice ''finish_reason'')),
                  nr_reasoning = reas,
                  nr_usage = Option.bind (jget raw (str ''usage'')) usage_from_chat,
                  nr_provider_data = map_option (\<lambda>r. jobj [(''reasoning_content'', JString r)]) reas\<rparr>)))"

definition ChatCompletionsTransport :: "from_str \<Rightarrow> (jvalue \<Rightarrow> rstr) \<Rightarrow> transport" where
  "ChatCompletionsTransport rd pr = \<lparr>t_api_mode = ChatCompletions, convert_messages = chat_convert_messages rd pr,
     convert_tools = chat_convert_tools, build_kwargs = chat_build_kwargs rd pr, normalize_response = chat_normalize\<rparr>"

section \<open>Anthropic Messages\<close>

definition push_tool :: "jmap \<Rightarrow> jvalue \<Rightarrow> jmap" where
  "push_tool body tool = (case Option.bind (obj_get body (str ''tools'')) as_array of
       Some arr \<Rightarrow> put ''tools'' (JArray (arr @ [tool])) body
     | None \<Rightarrow> put ''tools'' (JArray [tool]) body)"

definition tool_result_block :: "message \<Rightarrow> jvalue" where
  "tool_result_block tm = jobj [(''type'', jstr ''tool_result''),
     (''tool_use_id'', JString (the_or [] (tool_call_id tm))), (''content'', JString (the_or [] (content tm)))]"

definition thinking_blocks :: "message \<Rightarrow> jvalue list" where
  "thinking_blocks m = (case Option.bind (provider_data m) (\<lambda>pd. jget pd (str ''thinking'')) of
       Some th \<Rightarrow> [jobj [(''type'', jstr ''thinking''), (''thinking'', JString (the_or [] (get_str th ''thinking''))),
                       (''signature'', JString (the_or [] (get_str th ''signature'')))]]
     | None \<Rightarrow> [])"

definition text_block :: "rstr \<Rightarrow> jvalue" where
  "text_block s = jobj [(''type'', jstr ''text''), (''text'', JString s)]"

definition nonempty_content :: "message \<Rightarrow> rstr option" where
  "nonempty_content m = (case content m of Some c \<Rightarrow> if c = [] then None else Some c | None \<Rightarrow> None)"

definition tool_use_block :: "from_str \<Rightarrow> tool_call \<Rightarrow> jvalue" where
  "tool_use_block rd tc = jobj [(''type'', jstr ''tool_use''), (''id'', JString (the_or [] (tc_id tc))),
     (''name'', JString (tc_name tc)), (''input'', the_or (jobj []) (rd (arguments tc)))]"

definition anthropic_blocks :: "from_str \<Rightarrow> message \<Rightarrow> jvalue list" where
  "anthropic_blocks rd m =
     (let blocks = thinking_blocks m
                   @ (case nonempty_content m of Some c \<Rightarrow> [text_block c] | None \<Rightarrow> [])
                   @ map (tool_use_block rd) (the_or [] (tool_calls m))
      in if blocks = [] then [text_block (str ''(empty)'')] else blocks)"

definition wire_message :: "string \<Rightarrow> jvalue list \<Rightarrow> jvalue" where
  "wire_message r blocks = jobj [(''role'', jstr r), (''content'', JArray blocks)]"

text \<open>The loop over the non-system messages: a run of tool results becomes one user message.\<close>

function anthropic_items :: "from_str \<Rightarrow> message list \<Rightarrow> jvalue list" where
  "anthropic_items rd [] = []"
| "anthropic_items rd (m # ms) =
     (if role m = Tool
      then wire_message ''user'' (map tool_result_block (takeWhile (\<lambda>x. role x = Tool) (m # ms)))
           # anthropic_items rd (dropWhile (\<lambda>x. role x = Tool) (m # ms))
      else wire_message (if role m = Assistant then ''assistant'' else ''user'') (anthropic_blocks rd m)
           # anthropic_items rd ms)"
  by pat_completeness auto
termination
proof (relation "measure (\<lambda>(rd, ms). length ms)")
  fix m :: message and ms :: "message list" and rd :: from_str
  assume "role m = Tool"
  then show "((rd, dropWhile (\<lambda>x. role x = Tool) (m # ms)), rd, m # ms) \<in> measure (\<lambda>(rd, ms). length ms)"
    using length_dropWhile_le [of "\<lambda>x. role x = Tool" ms] by simp
qed auto

definition anthropic_convert_messages :: "from_str \<Rightarrow> message list \<Rightarrow> rstr \<Rightarrow> jvalue" where
  "anthropic_convert_messages rd msgs model = JArray (anthropic_items rd (filter (\<lambda>m. role m \<noteq> System) msgs))"

definition anthropic_convert_tools :: "tool_def list \<Rightarrow> jvalue" where
  "anthropic_convert_tools tools = JArray (map (\<lambda>t. jobj [(''name'', JString (td_name t)),
     (''description'', JString (td_description t)), (''input_schema'', input_schema t)]) tools)"

fun anthropic_server_tool :: "server_tool \<Rightarrow> jvalue" where
  "anthropic_server_tool (WebSearch max_uses) = JObject
     (put_if ''max_uses'' (map_option json_u32 max_uses)
       (put ''name'' (jstr ''web_search'') (put ''type'' (jstr ''web_search_20260209'') [])))"

definition response_schema :: "req_params \<Rightarrow> jvalue option" where
  "response_schema params = Option.bind (response_format params)
     (\<lambda>rf. Option.bind (jget rf (str ''json_schema'')) (\<lambda>j. jget j (str ''schema'')))"

definition emit_tool :: "jvalue \<Rightarrow> jvalue" where
  "emit_tool schema = jobj [(''name'', jstr ''emit''), (''description'', jstr ''emit the JSON''), (''input_schema'', schema)]"

definition anthropic_build_kwargs :: "from_str \<Rightarrow>
    rstr \<Rightarrow> message list \<Rightarrow> tool_def list option \<Rightarrow> provider_profile \<Rightarrow> req_params \<Rightarrow> jvalue" where
  "anthropic_build_kwargs rd model msgs tools profile params =
     (let b1 = put ''model'' (JString model) [];
          system = system_text msgs;
          b2 = (if system \<noteq> [] then put ''system'' (JString system) b1 else b1);
          b3 = put ''messages'' (anthropic_convert_messages rd msgs model) b2;
          b4 = put_if ''tools'' (map_option anthropic_convert_tools tools) b3;
          b5 = put ''max_tokens'' (json_u32 (the_or 4096 (max_tokens_for model profile params))) b4;
          b6 = put_if ''temperature'' (map_option f32_json (temperature params)) b5;
          b7 = (if stream params then put ''stream'' (JBool True) b6 else b6);
          b8 = foldl (\<lambda>b st. push_tool b (anthropic_server_tool st)) b7 (server_tools params)
      in JObject (case response_schema params of
           None \<Rightarrow> b8
         | Some schema \<Rightarrow>
             (let b9 = push_tool b8 (emit_tool schema);
                  only_emit = (case Option.bind (obj_get b9 (str ''tools'')) as_array of
                                 Some a \<Rightarrow> length a = 1 | None \<Rightarrow> True)
              in if only_emit then put ''tool_choice'' (jobj [(''type'', jstr ''tool''), (''name'', jstr ''emit'')]) b9
                 else b9)))"

text \<open>The accumulator of the loop over the response's content blocks: text, reasoning, tool calls.\<close>

definition anthropic_block_step ::
  "(jvalue \<Rightarrow> rstr) \<Rightarrow> rstr \<times> rstr option \<times> tool_call list \<Rightarrow> jvalue \<Rightarrow> rstr \<times> rstr option \<times> tool_call list" where
  "anthropic_block_step pr acc b =
     (case acc of (txt, reas, calls) \<Rightarrow>
       (let ty = the_or [] (get_str b ''type'') in
        if ty = str ''text'' then (txt @ the_or [] (get_str b ''text''), reas, calls)
        else if ty = str ''thinking'' then (txt, get_str b ''thinking'', calls)
        else if ty = str ''tool_use'' then (txt, reas, calls @
            [\<lparr>tc_id = get_str b ''id'', tc_name = the_or [] (get_str b ''name''),
              arguments = (case jget b (str ''input'') of Some i \<Rightarrow> pr i | None \<Rightarrow> str ''{}''), tc_provider_data = None\<rparr>])
        else acc))"

definition anthropic_finish :: "rstr \<Rightarrow> finish_reason" where
  "anthropic_finish s = (if s = str ''tool_use'' then ToolCalls else if s = str ''max_tokens'' then Length
     else if s = str ''refusal'' then ContentFilter else Stop)"

definition none_if_empty :: "'a list \<Rightarrow> 'a list option" where
  "none_if_empty xs = (if xs = [] then None else Some xs)"

definition anthropic_normalize :: "(jvalue \<Rightarrow> rstr) \<Rightarrow> jvalue \<Rightarrow> transport_error + normalized_response" where
  "anthropic_normalize pr raw =
     (case Option.bind (jget raw (str ''content'')) as_array of
        None \<Rightarrow> Inl (MissingField (str ''content''))
      | Some blocks \<Rightarrow>
          (case foldl (anthropic_block_step pr) ([], None, []) blocks of (txt, reas, calls) \<Rightarrow>
             Inr \<lparr>nr_content = none_if_empty txt, nr_tool_calls = none_if_empty calls,
               nr_finish_reason = anthropic_finish (the_or (str ''end_turn'') (get_str raw ''stop_reason'')),
               nr_reasoning = reas, nr_usage = Option.bind (jget raw (str ''usage'')) usage_from_anthropic,
               nr_provider_data = map_option (\<lambda>c. jobj [(''anthropic_content_blocks'', c)]) (jget raw (str ''content''))\<rparr>))"

definition AnthropicTransport :: "from_str \<Rightarrow> (jvalue \<Rightarrow> rstr) \<Rightarrow> transport" where
  "AnthropicTransport rd pr = \<lparr>t_api_mode = AnthropicMessages, convert_messages = anthropic_convert_messages rd,
     convert_tools = anthropic_convert_tools, build_kwargs = anthropic_build_kwargs rd, normalize_response = anthropic_normalize pr\<rparr>"

section \<open>Responses\<close>

fun responses_effort_str :: "effort \<Rightarrow> rstr" where
  "responses_effort_str Minimal = str ''low''"
| "responses_effort_str Low = str ''low''"
| "responses_effort_str Medium = str ''medium''"
| "responses_effort_str High = str ''high''"
| "responses_effort_str XHigh = str ''xhigh''"
| "responses_effort_str Max = str ''xhigh''"

definition reasoning_items :: "message \<Rightarrow> jvalue list" where
  "reasoning_items m = the_or [] (Option.bind (provider_data m)
     (\<lambda>pd. Option.bind (jget pd (str ''responses_reasoning_items'')) as_array))"

definition output_text_item :: "rstr \<Rightarrow> jvalue" where
  "output_text_item c = jobj [(''role'', jstr ''assistant''),
     (''content'', JArray [jobj [(''type'', jstr ''output_text''), (''text'', JString c)]])]"

definition function_call_item :: "from_str \<Rightarrow> (jvalue \<Rightarrow> rstr) \<Rightarrow> tool_call \<Rightarrow> jvalue" where
  "function_call_item rd pr tc = jobj [(''type'', jstr ''function_call''), (''call_id'', JString (the_or [] (tc_id tc))),
     (''name'', JString (tc_name tc)), (''arguments'', JString (sort_json_string rd pr (arguments tc)))]"

definition function_output_item :: "message \<Rightarrow> jvalue" where
  "function_output_item m = jobj [(''type'', jstr ''function_call_output''),
     (''call_id'', JString (the_or [] (tool_call_id m))), (''output'', JString (the_or [] (content m)))]"

definition responses_items :: "from_str \<Rightarrow> (jvalue \<Rightarrow> rstr) \<Rightarrow> message \<Rightarrow> jvalue list" where
  "responses_items rd pr m = (case role m of
       System \<Rightarrow> []
     | User \<Rightarrow> [jobj [(''role'', jstr ''user''), (''content'', JString (the_or [] (content m)))]]
     | Assistant \<Rightarrow> reasoning_items m
         @ (case nonempty_content m of Some c \<Rightarrow> [output_text_item c] | None \<Rightarrow> [])
         @ map (function_call_item rd pr) (the_or [] (tool_calls m))
     | Tool \<Rightarrow> [function_output_item m])"

definition responses_convert_messages :: "from_str \<Rightarrow> (jvalue \<Rightarrow> rstr) \<Rightarrow> message list \<Rightarrow> rstr \<Rightarrow> jvalue" where
  "responses_convert_messages rd pr msgs model = JArray (concat (map (responses_items rd pr) msgs))"

definition responses_function_tool :: "tool_def \<Rightarrow> jvalue" where
  "responses_function_tool t = jobj [(''type'', jstr ''function''), (''name'', JString (td_name t)),
     (''description'', JString (td_description t)), (''parameters'', input_schema t)]"

definition responses_convert_tools :: "tool_def list \<Rightarrow> jvalue" where
  "responses_convert_tools tools = JArray (map responses_function_tool tools)"

definition responses_text_format :: "req_params \<Rightarrow> jvalue option" where
  "responses_text_format params =
     Option.bind (Option.bind (response_format params) (\<lambda>rf. jget rf (str ''json_schema'')))
       (\<lambda>js. map_option (\<lambda>schema. jobj [(''format'', jobj [(''type'', jstr ''json_schema''),
            (''name'', JString (the_or (str ''output'') (get_str js ''name''))), (''schema'', schema), (''strict'', JBool True)])])
          (jget js (str ''schema'')))"

definition responses_build_kwargs :: "from_str \<Rightarrow> (jvalue \<Rightarrow> rstr) \<Rightarrow>
    rstr \<Rightarrow> message list \<Rightarrow> tool_def list option \<Rightarrow> provider_profile \<Rightarrow> req_params \<Rightarrow> jvalue" where
  "responses_build_kwargs rd pr model msgs tools profile params =
     (let b1 = put ''model'' (JString model) [];
          system = system_text msgs;
          b2 = (if system \<noteq> [] then put ''instructions'' (JString system) b1 else b1);
          b3 = put ''input'' (responses_convert_messages rd pr msgs model) b2;
          tool_arr = map responses_function_tool (the_or [] tools)
                     @ map (\<lambda>_. jobj [(''type'', jstr ''web_search'')]) (server_tools params);
          has_fn = list_ex (\<lambda>t. get_str t ''type'' = Some (str ''function'')) tool_arr;
          b4 = (if tool_arr \<noteq> []
                then (let b = put ''tools'' (JArray tool_arr) b3 in if has_fn then put ''tool_choice'' (jstr ''auto'') b else b)
                else b3);
          b5 = put_if ''reasoning'' (map_option (\<lambda>e. jobj [(''effort'', JString (responses_effort_str e))])
                 (Option.bind (rp_reasoning params) reasoning_config.effort)) b4;
          b6 = put_if ''max_output_tokens'' (map_option json_u32 (max_tokens_for model profile params)) b5;
          b7 = put_if ''text'' (responses_text_format params) b6;
          b8 = put ''include'' (JArray [jstr ''reasoning.encrypted_content'']) (put ''store'' (JBool False) b7)
      in JObject (if stream params then put ''stream'' (JBool True) b8 else b8))"

definition output_texts :: "jvalue \<Rightarrow> rstr" where
  "output_texts item = concat (map (\<lambda>p. the_or [] (get_str p ''text''))
     (filter (\<lambda>p. get_str p ''type'' = Some (str ''output_text'')) (the_or [] (Option.bind (jget item (str ''content'')) as_array))))"

definition summary_text :: "jvalue \<Rightarrow> rstr option" where
  "summary_text item = Option.bind (Option.bind (jget item (str ''summary'')) as_array)
     (\<lambda>parts. none_if_empty (concat (List.map_filter (\<lambda>s. get_str s ''text'') parts)))"

definition responses_tool_call :: "jvalue \<Rightarrow> tool_call" where
  "responses_tool_call item = \<lparr>tc_id = get_str item ''call_id'', tc_name = the_or [] (get_str item ''name''),
     arguments = the_or (str ''{}'') (get_str item ''arguments''), tc_provider_data = None\<rparr>"

text \<open>The accumulator of the loop over the output items.\<close>

record responses_acc =
  ra_text :: rstr
  ra_reasoning :: "rstr option"
  ra_items :: "jvalue list"
  ra_calls :: "tool_call list"

definition responses_item_step :: "responses_acc \<Rightarrow> jvalue \<Rightarrow> responses_acc" where
  "responses_item_step acc item =
     (let ty = the_or [] (get_str item ''type'') in
      if ty = str ''message'' then acc\<lparr>ra_text := ra_text acc @ output_texts item\<rparr>
      else if ty = str ''reasoning'' then acc\<lparr>ra_items := ra_items acc @ [item],
          ra_reasoning := or_else (summary_text item) (ra_reasoning acc)\<rparr>
      else if ty = str ''function_call'' then acc\<lparr>ra_calls := ra_calls acc @ [responses_tool_call item]\<rparr>
      else acc)"

definition responses_finish :: "tool_call list \<Rightarrow> jvalue \<Rightarrow> finish_reason" where
  "responses_finish calls raw =
     (if calls \<noteq> [] then ToolCalls
      else if the_or (str ''completed'') (get_str raw ''status'') = str ''incomplete'' then
        (let why = the_or [] (Option.bind (jget raw (str ''incomplete_details'')) (\<lambda>d. get_str d ''reason'')) in
         if why = str ''max_output_tokens'' then Length
         else if why = str ''content_filter'' then ContentFilter else Stop)
      else Stop)"

definition responses_normalize :: "jvalue \<Rightarrow> transport_error + normalized_response" where
  "responses_normalize raw =
     (case Option.bind (jget raw (str ''output'')) as_array of
        None \<Rightarrow> Inl (MissingField (str ''output''))
      | Some items \<Rightarrow>
          (let acc = foldl responses_item_step \<lparr>ra_text = [], ra_reasoning = None, ra_items = [], ra_calls = []\<rparr> items in
           Inr \<lparr>nr_content = none_if_empty (ra_text acc), nr_tool_calls = none_if_empty (ra_calls acc),
             nr_finish_reason = responses_finish (ra_calls acc) raw, nr_reasoning = ra_reasoning acc,
             nr_usage = Option.bind (jget raw (str ''usage'')) usage_from_chat,
             nr_provider_data = (if ra_items acc \<noteq> [] \<or> jget raw (str ''id'') \<noteq> None
               then Some (jobj [(''responses_reasoning_items'', JArray (ra_items acc)),
                                (''response_id'', the_or JNull (jget raw (str ''id'')))])
               else None)\<rparr>))"

definition ResponsesTransport :: "from_str \<Rightarrow> (jvalue \<Rightarrow> rstr) \<Rightarrow> transport" where
  "ResponsesTransport rd pr = \<lparr>t_api_mode = Responses, convert_messages = responses_convert_messages rd pr,
     convert_tools = responses_convert_tools, build_kwargs = responses_build_kwargs rd pr, normalize_response = responses_normalize\<rparr>"

definition transport_for :: "from_str \<Rightarrow> (jvalue \<Rightarrow> rstr) \<Rightarrow> api_mode \<Rightarrow> transport" where
  "transport_for rd pr mode = (case mode of
       ChatCompletions \<Rightarrow> ChatCompletionsTransport rd pr
     | AnthropicMessages \<Rightarrow> AnthropicTransport rd pr
     | Responses \<Rightarrow> ResponsesTransport rd pr)"

section \<open>Reading what was built\<close>

lemma jobj_get: "jget (jobj kvs) k = map_of (rev (map (\<lambda>(k, v). (str k, v)) kvs)) k"
proof -
  have "obj_get (foldl (\<lambda>m (k, v). put k v m) m kvs) k =
    (case map_of (rev (map (\<lambda>(k, v). (str k, v)) kvs)) k of Some v \<Rightarrow> Some v | None \<Rightarrow> obj_get m k)" for m
    by (induction kvs arbitrary: m) (auto simp: map_add_Some_iff split: option.splits)
  from this [of "[]"] show ?thesis by (simp add: jobj_def split: option.split)
qed

lemma put_if_get [simp]:
  "obj_get (put_if k v m) k' = (if k' = str k \<and> v \<noteq> None then v else obj_get m k')"
  by (simp add: put_if_def split: option.split)

lemmas json_read = jobj_get get_str_def jget.simps

definition wire_role :: "jvalue \<Rightarrow> rstr option" where
  "wire_role w = get_str w ''role''"

definition wire_content :: "jvalue \<Rightarrow> jvalue list" where
  "wire_content w = the_or [] (Option.bind (jget w (str ''content'')) as_array)"

definition is_tool_result :: "jvalue \<Rightarrow> bool" where
  "is_tool_result b \<longleftrightarrow> get_str b ''type'' = Some (str ''tool_result'')"

lemma wire_message_read [simp]:
  "wire_role (wire_message r bs) = Some (str r)" "wire_content (wire_message r bs) = bs"
  by (simp_all add: wire_role_def wire_content_def wire_message_def json_read)

lemma tool_result_block_type [simp]: "is_tool_result (tool_result_block m)"
  by (simp add: is_tool_result_def tool_result_block_def json_read)

lemma anthropic_blocks_type: "filter is_tool_result (anthropic_blocks rd m) = []"
  by (auto simp: anthropic_blocks_def Let_def thinking_blocks_def text_block_def tool_use_block_def
      is_tool_result_def json_read filter_empty_conv split: option.splits if_splits)

lemma anthropic_blocks_nonempty: "anthropic_blocks rd m \<noteq> []"
  by (simp add: anthropic_blocks_def Let_def)

lemma anthropic_items_results:
  "concat (map (\<lambda>w. filter is_tool_result (wire_content w)) (anthropic_items rd ms))
     = map tool_result_block (filter (\<lambda>m. role m = Tool) ms)
   \<and> list_all (\<lambda>w. wire_content w \<noteq> []) (anthropic_items rd ms)"
proof (induction rd ms rule: anthropic_items.induct)
  case (2 rd m ms)
  show ?case
  proof (cases "role m = Tool")
    case True
    have "filter (\<lambda>m. role m = Tool) ms
      = takeWhile (\<lambda>x. role x = Tool) ms @ filter (\<lambda>m. role m = Tool) (dropWhile (\<lambda>x. role x = Tool) ms)"
    proof -
      have "filter (\<lambda>m. role m = Tool) (takeWhile (\<lambda>x. role x = Tool) ms) = takeWhile (\<lambda>x. role x = Tool) ms"
        by (rule filter_True) (auto dest: set_takeWhileD)
      then show ?thesis by (metis filter_append takeWhile_dropWhile_id)
    qed
    with True 2 show ?thesis by (simp add: o_def)
  next
    case False
    with 2 show ?thesis by (simp add: anthropic_blocks_type anthropic_blocks_nonempty)
  qed
qed simp

lemma type_is: "s \<noteq> [] \<Longrightarrow> the_or [] (get_str item k) = s \<longleftrightarrow> get_str item k = Some s"
  by (cases "get_str item k") auto

lemma responses_fold:
  "ra_items (foldl responses_item_step acc items) =
     ra_items acc @ filter (\<lambda>i. get_str i ''type'' = Some (str ''reasoning'')) items"
  "ra_calls (foldl responses_item_step acc items) =
     ra_calls acc @ map responses_tool_call (filter (\<lambda>i. get_str i ''type'' = Some (str ''function_call'')) items)"
  "ra_text (foldl responses_item_step acc items) =
     ra_text acc @ concat (map output_texts (filter (\<lambda>i. get_str i ''type'' = Some (str ''message'')) items))"
  by (induction items arbitrary: acc) (auto simp: responses_item_step_def Let_def type_is)

section \<open>The properties of the wires\<close>

text \<open>Further: Tool results on the Anthropic wire. Read in order, the \<open>tool_result\<close> blocks of the converted
  messages are exactly the tool messages of the transcript, each with its call id and text, and no message is
  sent with an empty content array.\<close>

theorem anthropic_tool_results:
  "concat (map (\<lambda>w. filter is_tool_result (wire_content w)) (the_or [] (as_array (anthropic_convert_messages rd msgs model))))
     = map tool_result_block (filter (\<lambda>m. role m = Tool) msgs)
   \<and> list_all (\<lambda>w. wire_content w \<noteq> []) (the_or [] (as_array (anthropic_convert_messages rd msgs model)))"
proof -
  have "filter (\<lambda>m. role m = Tool) (filter (\<lambda>m. role m \<noteq> System) msgs) = filter (\<lambda>m. role m = Tool) msgs"
    by (induction msgs) auto
  then show ?thesis
    using anthropic_items_results [of rd "filter (\<lambda>m. role m \<noteq> System) msgs"]
    by (simp add: anthropic_convert_messages_def)
qed


definition demo_responses :: jvalue where
  "demo_responses = jobj [(''output'', JArray [jobj [(''type'', jstr ''reasoning''), (''id'', jstr ''rs_1'')],
     jobj [(''type'', jstr ''function_call''), (''call_id'', jstr ''call_1''), (''name'', jstr ''read_page'')]])]"


text \<open>Further: The replay of Anthropic thinking blocks never happens in the turn loop. The transport replays
  \<open>provider_data["thinking"]\<close>, but the normaliser stores the response's blocks under
  \<open>anthropic_content_blocks\<close>, so the assistant message stored for a response replays no thinking block, even
  when the response thought.\<close>

theorem anthropic_thinking_dropped:
  assumes "anthropic_normalize pr raw = Inr nr"
  shows "thinking_blocks (build_assistant_message nr) = []"
  using assms
  by (cases "jget raw (str ''content'')")
    (auto simp: anthropic_normalize_def thinking_blocks_def build_assistant_message_def json_read
      split: option.splits prod.splits)

definition demo_thinking :: jvalue where
  "demo_thinking = jobj [(''content'', JArray [jobj [(''type'', jstr ''thinking''), (''thinking'', jstr ''hm''), (''signature'', jstr ''OPAQUE'')]])]"

theorem anthropic_thinking_dropped_witness:
  "\<exists>nr. anthropic_normalize (\<lambda>_. []) demo_thinking = Inr nr \<and> nr_reasoning nr = Some (str ''hm'')
     \<and> thinking_blocks (build_assistant_message nr) = []"
proof -
  obtain nr where "anthropic_normalize (\<lambda>_. []) demo_thinking = Inr nr" "nr_reasoning nr = Some (str ''hm'')"
    by (auto simp: anthropic_normalize_def demo_thinking_def json_read anthropic_block_step_def Let_def)
  then show ?thesis using anthropic_thinking_dropped by blast
qed

text \<open>Further: The finalizing call on the Anthropic wire. Tool results are sent as a user message, so after a tool
  round the "answer now" message of the turn loop follows it as a second user message, which the comment in
  \<open>convert_messages\<close> calls a role-alternation error.\<close>

theorem anthropic_nudge_repeats_user:
  assumes "role a = Assistant" "role t = Tool"
  shows "map wire_role (anthropic_items rd [a, t, finalize_nudge]) = map (\<lambda>r. Some (str r)) [''assistant'', ''user'', ''user'']"
  using assms by (simp add: finalize_nudge_def plain_message_def)

theorem anthropic_nudge_repeats_user_witness:
  "map wire_role (anthropic_items (\<lambda>_. None) [plain_message Assistant [], demo_tool_result, finalize_nudge])
     = map (\<lambda>r. Some (str r)) [''assistant'', ''user'', ''user'']"
  by (rule anthropic_nudge_repeats_user) (simp_all add: plain_message_def demo_tool_result_def)

text \<open>Further: The Chat Completions wire. A message echoed back by a provider is read as it was sent: same text,
  same calls with their ids, names and (re-serialised) arguments; a missing id comes back as the empty one. Storage-only fields
  (reasoning, finish reason, provider data, trust mark) do not reach the wire.\<close>

theorem chat_roundtrip:
  "chat_normalize (jobj [(''choices'', JArray [jobj [(''message'', chat_message rd pr m)]])]) =
     Inr \<lparr>nr_content = content m,
       nr_tool_calls = map_option (map (\<lambda>tc. \<lparr>tc_id = Some (the_or [] (tc_id tc)), tc_name = tc_name tc,
          arguments = sort_json_string rd pr (arguments tc), tc_provider_data = None\<rparr>)) (tool_calls m),
       nr_finish_reason = Stop, nr_reasoning = None, nr_usage = None, nr_provider_data = None\<rparr>"
  by (cases "tool_calls m"; cases "content m"; cases "tool_call_id m")
    (simp_all add: chat_normalize_def chat_message_def json_read Let_def or_else_def chat_tool_call_def chat_call_def
      chat_finish_def put_if_def o_def)

text \<open>Further: The Chat Completions body. The model, the converted transcript and the profile's temperature rule are
  in the body under their keys; the token limit stands under exactly one of the two keys, the one the model
  takes, with the caller's value before the hook's before the profile's default; \<open>tool_choice\<close> is set
  exactly when tools are offered.\<close>

theorem chat_body_fields:
  "\<exists>b. chat_build_kwargs rd pr model msgs tools profile params = JObject b
    \<and> obj_get b (str ''model'') = Some (JString model)
    \<and> obj_get b (str ''messages'') = Some (JArray (map (chat_message rd pr) msgs))
    \<and> obj_get b (str ''temperature'') = chat_temperature profile params
    \<and> obj_get b (str (token_limit_key model)) = map_option json_u32 (max_tokens_for model profile params)
    \<and> obj_get b (str (if token_limit_key model = ''max_tokens'' then ''max_completion_tokens'' else ''max_tokens'')) = None
    \<and> obj_get b (str ''tool_choice'') = (if the_or [] tools = [] then None else Some (jstr ''auto''))"
  by (cases tools)
    (auto simp: chat_build_kwargs_def Let_def token_limit_key_def chat_convert_messages_def split: if_splits)

end
