(* ===== verification/Utf8.thy ===== *)
theory Utf8
  imports Rust_Strings
begin

text \<open>
  UTF-8, as far as the sources use it: the bytes of a string (\<open>str::as_bytes\<close>) and
  \<open>String::from_utf8_lossy\<close>, which replaces each maximal ill-formed prefix by U+FFFD. Decoding undoes
  encoding, also in front of arbitrary further bytes; a split in the middle of a character is not undone.
\<close>

definition utf8_bytes :: "rchar \<Rightarrow> nat list" where
  "utf8_bytes c =
     (if c < 128 then [c]
      else if c < 2048 then [192 + c div 64, 128 + c mod 64]
      else if c < 65536 then [224 + c div 4096, 128 + c div 64 mod 64, 128 + c mod 64]
      else [240 + c div 262144, 128 + c div 4096 mod 64, 128 + c div 64 mod 64, 128 + c mod 64])"

definition as_bytes :: "rstr \<Rightarrow> nat list" where
  "as_bytes s = concat (map utf8_bytes s)"

definition is_scalar :: "rchar \<Rightarrow> bool" where
  "is_scalar c \<longleftrightarrow> c < 55296 \<or> 57344 \<le> c \<and> c < 1114112"

definition is_cont :: "nat \<Rightarrow> bool" where
  "is_cont b \<longleftrightarrow> 128 \<le> b \<and> b \<le> 191"

text \<open>The length of the sequence a lead byte announces; 0 for a byte that leads none.\<close>

definition seq_len :: "nat \<Rightarrow> nat" where
  "seq_len b = (if b < 128 then 1 else if 194 \<le> b \<and> b \<le> 223 then 2
     else if 224 \<le> b \<and> b \<le> 239 then 3 else if 240 \<le> b \<and> b \<le> 244 then 4 else 0)"

definition second_ok :: "nat \<Rightarrow> nat \<Rightarrow> bool" where
  "second_ok b0 b1 \<longleftrightarrow> is_cont b1 \<and> (b0 = 224 \<longrightarrow> 160 \<le> b1) \<and> (b0 = 237 \<longrightarrow> b1 \<le> 159)
     \<and> (b0 = 240 \<longrightarrow> 144 \<le> b1) \<and> (b0 = 244 \<longrightarrow> b1 \<le> 143)"

text \<open>One step of the decoder: the character it yields and how many bytes it takes.\<close>

definition decode_one :: "nat list \<Rightarrow> rchar \<times> nat" where
  "decode_one bs =
     (let b0 = bs ! 0; b1 = bs ! 1; b2 = bs ! 2; b3 = bs ! 3; n = seq_len b0 in
      if n = 1 then (b0, 1)
      else if n = 0 then (65533, 1)
      else if length bs < 2 \<or> \<not> second_ok b0 b1 then (65533, 1)
      else if n = 2 then ((b0 - 192) * 64 + (b1 - 128), 2)
      else if length bs < 3 \<or> \<not> is_cont b2 then (65533, 2)
      else if n = 3 then ((b0 - 224) * 4096 + (b1 - 128) * 64 + (b2 - 128), 3)
      else if length bs < 4 \<or> \<not> is_cont b3 then (65533, 3)
      else ((b0 - 240) * 262144 + (b1 - 128) * 4096 + (b2 - 128) * 64 + (b3 - 128), 4))"

lemma decode_one_pos: "0 < snd (decode_one bs)"
  by (simp add: decode_one_def Let_def)

function from_utf8_lossy :: "nat list \<Rightarrow> rstr" where
  "from_utf8_lossy bs =
     (if bs = [] then [] else fst (decode_one bs) # from_utf8_lossy (drop (snd (decode_one bs)) bs))"
  by pat_completeness auto
termination
  by (relation "measure length") (use decode_one_pos in \<open>auto simp: diff_less\<close>)

declare from_utf8_lossy.simps [simp del]

lemma lossy_Nil [simp]: "from_utf8_lossy [] = []"
  by (subst from_utf8_lossy.simps) simp

lemma base64_digits:
  fixes c :: nat
  obtains a b d where "c = (a * 64 + b) * 64 + d" "b < 64" "d < 64"
    "c div 4096 = a" "c div 64 = a * 64 + b" "c div 64 mod 64 = b" "c mod 64 = d"
proof
  show "c = (c div 4096 * 64 + c div 64 mod 64) * 64 + c mod 64"
    using div_mult2_eq [of c 64 64] by simp
  show "c div 64 = c div 4096 * 64 + c div 64 mod 64"
    using div_mult2_eq [of c 64 64] by simp
qed simp_all

lemma decode_encode:
  assumes "is_scalar c"
  shows "decode_one (utf8_bytes c @ bs) = (c, length (utf8_bytes c))"
proof -
  have "c < 1114112" using assms by (auto simp: is_scalar_def)
  then consider "c < 128" | "128 \<le> c" "c < 2048" | "2048 \<le> c" "c < 65536" | "65536 \<le> c" "c < 1114112"
    by linarith
  then show ?thesis
  proof cases
    case 1
    then show ?thesis by (simp add: utf8_bytes_def decode_one_def seq_len_def)
  next
    case 2
    then have "2 \<le> c div 64" "c div 64 \<le> 31" by auto
    with 2 show ?thesis
      by (simp add: utf8_bytes_def decode_one_def seq_len_def Let_def second_ok_def is_cont_def)
  next
    case 3
    obtain a b d where c: "c = (a * 64 + b) * 64 + d" "b < 64" "d < 64"
      and div: "c div 4096 = a" "c div 64 = a * 64 + b" "c div 64 mod 64 = b" "c mod 64 = d"
      by (rule base64_digits [of c])
    have "a \<le> 15" "a = 0 \<Longrightarrow> 32 \<le> b" "a = 13 \<Longrightarrow> b \<le> 31"
      using 3 c assms by (auto simp: is_scalar_def)
    moreover have "utf8_bytes c = [224 + a, 128 + b, 128 + d]" using 3 by (simp add: utf8_bytes_def div(1,3,4))
    ultimately show ?thesis using c
      by (simp add: decode_one_def seq_len_def Let_def second_ok_def is_cont_def)
  next
    case 4
    obtain x b d where c: "c = (x * 64 + b) * 64 + d" "b < 64" "d < 64"
      and div: "c div 4096 = x" "c div 64 = x * 64 + b" "c div 64 mod 64 = b" "c mod 64 = d"
      by (rule base64_digits [of c])
    define a where "a = x div 64"
    define e where "e = x mod 64"
    have x: "x = a * 64 + e" "e < 64" by (simp_all add: a_def e_def)
    have "c div 262144 = a" using div(1) div_mult2_eq [of c 4096 64] by (simp add: a_def)
    then have "utf8_bytes c = [240 + a, 128 + e, 128 + b, 128 + d]" using 4 div(1,3,4) by (simp add: utf8_bytes_def e_def)
    moreover have "a \<le> 4" "a = 0 \<Longrightarrow> 16 \<le> e" "a = 4 \<Longrightarrow> e \<le> 15" using 4 c x by auto
    moreover have "a * 262144 + e * 4096 + b * 64 + d = c" using c x by simp
    ultimately show ?thesis using c(2,3) x(2)
      by (simp add: decode_one_def seq_len_def Let_def second_ok_def is_cont_def)
  qed
qed

lemma lossy_char: "is_scalar c \<Longrightarrow> from_utf8_lossy (utf8_bytes c @ bs) = c # from_utf8_lossy bs"
  by (subst from_utf8_lossy.simps) (simp add: decode_encode, simp add: utf8_bytes_def)

lemma as_bytes_simps [simp]:
  "as_bytes [] = []" "as_bytes (c # s) = utf8_bytes c @ as_bytes s" "as_bytes (s @ t) = as_bytes s @ as_bytes t"
  by (simp_all add: as_bytes_def)

text \<open>Decoding undoes encoding.\<close>

lemma lossy_as_bytes: "list_all is_scalar s \<Longrightarrow> from_utf8_lossy (as_bytes s @ bs) = s @ from_utf8_lossy bs"
  by (induction s) (simp_all add: lossy_char)

lemma length_as_bytes: "length (as_bytes s) = utf8_len s"
  by (induction s) (simp_all add: utf8_len_def utf8_bytes_def utf8_width_def)

end
