(* ===== verification/Prompt_Cache.thy ===== *)
theory Prompt_Cache
  imports Transport Utf8 "HOL-Library.AList" "HOL-Library.Multiset"
begin

text \<open>
  \<open>router/src/prompt_cache.rs\<close>: the stable system prompt, the djb2 hash used for cache-break
  attribution, the cache breakpoints put on an already built Anthropic body, and the de-duplication of usage
  records by request id. The breakpoints are shown to touch content blocks only, never a message object.
\<close>

definition build_system_prompt :: "rstr list \<Rightarrow> rstr" where
  "build_system_prompt parts = join [10, 10] parts"

definition hash_bytes :: "rstr \<Rightarrow> u64" where
  "hash_bytes s = foldl (\<lambda>h b. h * 33 + word_of_nat b) 5381 (as_bytes s)"

section \<open>Cache breakpoints\<close>

definition ephemeral :: jvalue where
  "ephemeral = jobj [(''type'', jstr ''ephemeral'')]"

fun mark_block_cache_control :: "jvalue \<Rightarrow> jvalue" where
  "mark_block_cache_control (JObject m) = JObject (put ''cache_control'' ephemeral m)"
| "mark_block_cache_control v = v"

definition map_last :: "('a \<Rightarrow> 'a) \<Rightarrow> 'a list \<Rightarrow> 'a list" where
  "map_last f xs = (if xs = [] then [] else butlast xs @ [f (last xs)])"

text \<open>The message has a non-empty array of content blocks.\<close>

definition has_blocks :: "jvalue \<Rightarrow> bool" where
  "has_blocks m \<longleftrightarrow> the_or [] (Option.bind (jget m (str ''content'')) as_array) \<noteq> []"

fun mark_message :: "jvalue \<Rightarrow> jvalue" where
  "mark_message (JObject m) =
     (case Option.bind (obj_get m (str ''content'')) as_array of
        Some blocks \<Rightarrow> JObject (put ''content'' (JArray (map_last mark_block_cache_control blocks)) m)
      | None \<Rightarrow> JObject m)"
| "mark_message v = v"

definition mark_system :: "jmap \<Rightarrow> jmap" where
  "mark_system obj = (case obj_get obj (str ''system'') of
       Some (JString s) \<Rightarrow> if s = [] then obj else
         put ''system'' (JArray [jobj [(''type'', jstr ''text''), (''text'', JString s), (''cache_control'', ephemeral)]]) obj
     | Some (JArray blocks) \<Rightarrow> put ''system'' (JArray (map_last mark_block_cache_control blocks)) obj
     | _ \<Rightarrow> obj)"

definition mark_messages :: "jmap \<Rightarrow> jmap" where
  "mark_messages obj = (case obj_get obj (str ''messages'') of
       Some (JArray msgs) \<Rightarrow> put ''messages'' (JArray (update_last has_blocks mark_message msgs)) obj
     | _ \<Rightarrow> obj)"

fun apply_anthropic_cache_control_to_body :: "jvalue \<Rightarrow> jvalue" where
  "apply_anthropic_cache_control_to_body (JObject obj) = JObject (mark_messages (mark_system obj))"
| "apply_anthropic_cache_control_to_body v = v"

section \<open>Usage records\<close>

record usage_record =
  request_id :: "rstr option"
  ur_usage :: canonical_usage

text \<open>The loop: the map from request id to usage, the last record winning, and the sum of the anonymous
  records.\<close>

definition dedup_step :: "(rstr \<times> canonical_usage) list \<times> canonical_usage \<Rightarrow> usage_record \<Rightarrow>
    (rstr \<times> canonical_usage) list \<times> canonical_usage" where
  "dedup_step acc r = (case request_id r of
       Some i \<Rightarrow> (AList.update i (ur_usage r) (fst acc), snd acc)
     | None \<Rightarrow> (fst acc, usage_add (snd acc) (ur_usage r)))"

text \<open>\<open>iter\<close> is the order in which the hash map yields its values.\<close>

definition dedup_usage_by_request_id ::
  "((rstr \<times> canonical_usage) list \<Rightarrow> canonical_usage list) \<Rightarrow> usage_record list \<Rightarrow> canonical_usage" where
  "dedup_usage_by_request_id iter records =
     (case foldl dedup_step ([], usage_default) records of (by_id, anon) \<Rightarrow> foldl usage_add anon (iter by_id))"

text \<open>The records that count: every anonymous one, and of each request the last.\<close>

fun last_records :: "usage_record list \<Rightarrow> usage_record list" where
  "last_records [] = []"
| "last_records (r # rs) =
     (if request_id r \<noteq> None \<and> request_id r \<in> set (map request_id rs) then last_records rs else r # last_records rs)"

definition usage_sum :: "canonical_usage list \<Rightarrow> canonical_usage" where
  "usage_sum us = foldr usage_add us usage_default"

section \<open>Lemmas\<close>

lemma foldl_usage_add: "foldl usage_add a us = usage_add a (usage_sum us)"
  by (induction us arbitrary: a) (simp_all add: usage_sum_def usage_add_ac)

lemma usage_sum_simps [simp]: "usage_sum [] = usage_default" "usage_sum (u # us) = usage_add u (usage_sum us)"
  by (simp_all add: usage_sum_def)

lemma usage_sum_append: "usage_sum (us @ vs) = usage_add (usage_sum us) (usage_sum vs)"
  by (induction us) (simp_all add: usage_add_ac)

lemma usage_sum_mset: "mset us = mset vs \<Longrightarrow> usage_sum us = usage_sum vs"
proof (induction us arbitrary: vs)
  case (Cons u us)
  then have "u \<in> set vs" by (metis list.set_intros(1) set_mset_mset)
  then obtain as bs where vs: "vs = as @ u # bs" by (auto dest: split_list)
  with Cons have "usage_sum us = usage_sum (as @ bs)" by simp
  then show ?case by (simp add: vs usage_sum_append usage_add_ac)
qed simp

text \<open>The map after the loop: per id the usage of its last record.\<close>

definition ids_of :: "usage_record list \<Rightarrow> rstr set" where
  "ids_of rs = {i. Some i \<in> request_id ` set rs}"

lemma usage_sum_filter_split:
  "usage_sum (map snd (filter (\<lambda>x. P x) m)) = usage_sum (map snd (filter (\<lambda>x. P x \<and> Q x) m @ filter (\<lambda>x. P x \<and> \<not> Q x) m))"
  by (induction m) (auto simp: usage_sum_append usage_add_ac)

lemma filter_update_same:
  "\<not> P i \<Longrightarrow> filter (\<lambda>x. P (fst x)) (AList.update i u m) = filter (\<lambda>x. P (fst x)) m"
  by (induction m) auto

lemma usage_sum_update:
  "P i \<Longrightarrow> distinct (map fst m) \<Longrightarrow> usage_sum (map snd (filter (\<lambda>x. P (fst x)) (AList.update i u m)))
     = usage_add u (usage_sum (map snd (filter (\<lambda>x. P (fst x) \<and> fst x \<noteq> i) m)))"
proof (induction m)
  case (Cons kv m)
  obtain j v where kv: "kv = (j, v)" by (cases kv)
  show ?case
  proof (cases "j = i")
    case True
    have "filter (\<lambda>x. P (fst x) \<and> fst x \<noteq> i) m = filter (\<lambda>x. P (fst x)) m"
      using Cons(3) True by (auto intro!: filter_cong simp: kv rev_image_eqI)
    with True Cons(2) show ?thesis by (simp add: kv)
  next
    case False
    then have "usage_sum (map snd (filter (\<lambda>x. P (fst x)) (AList.update i u m)))
      = usage_add u (usage_sum (map snd (filter (\<lambda>x. P (fst x) \<and> fst x \<noteq> i) m)))"
      using Cons by (simp add: kv)
    with False show ?thesis by (simp add: kv usage_add_left_commute)
  qed
qed simp

lemma dedup_fold:
  "distinct (map fst m) \<Longrightarrow>
   (case foldl dedup_step (m, a) rs of (by_id, anon) \<Rightarrow> distinct (map fst by_id) \<and>
      usage_add anon (usage_sum (map snd by_id)) =
        usage_add a (usage_add (usage_sum (map ur_usage (last_records rs)))
          (usage_sum (map snd (filter (\<lambda>x. fst x \<notin> ids_of rs) m)))))"
proof (induction rs arbitrary: m a)
  case Nil
  then show ?case by (simp add: ids_of_def)
next
  case (Cons r rs)
  show ?case
  proof (cases "request_id r")
    case None
    have "ids_of (r # rs) = ids_of rs" using None by (auto simp: ids_of_def image_iff)
    moreover have "foldl dedup_step (m, a) (r # rs) = foldl dedup_step (m, usage_add a (ur_usage r)) rs"
      by (simp add: dedup_step_def None)
    ultimately show ?thesis
      using Cons(1) [OF Cons(2), of "usage_add a (ur_usage r)"] None by (simp add: usage_add_ac split: prod.splits)
  next
    case (Some i)
    let ?m = "AList.update i (ur_usage r) m"
    have ids: "ids_of (r # rs) = insert i (ids_of rs)" using Some by (auto simp: ids_of_def image_iff)
    have mem: "request_id r \<in> set (map request_id rs) \<longleftrightarrow> i \<in> ids_of rs" using Some by (auto simp: ids_of_def)
    have step: "dedup_step (m, a) r = (?m, a)" by (simp add: dedup_step_def Some)
    have d: "distinct (map fst ?m)" using Cons(2) by (simp add: distinct_update)
    have out: "filter (\<lambda>x. fst x \<notin> ids_of (r # rs)) m = filter (\<lambda>x. fst x \<notin> ids_of rs \<and> fst x \<noteq> i) m"
      by (rule filter_cong) (auto simp: ids)
    show ?thesis
    proof (cases "i \<in> ids_of rs")
      case True
      then have "filter (\<lambda>x. fst x \<notin> ids_of rs) ?m = filter (\<lambda>x. fst x \<notin> ids_of (r # rs)) m"
        using filter_update_same [of "\<lambda>j. j \<notin> ids_of rs" i "ur_usage r" m] ids by (simp add: insert_absorb)
      with Cons(1) [OF d, of a] True mem Some show ?thesis by (simp add: step split: prod.splits)
    next
      case False
      with usage_sum_update [of "\<lambda>j. j \<notin> ids_of rs" i m "ur_usage r"] Cons(2)
      have "usage_sum (map snd (filter (\<lambda>x. fst x \<notin> ids_of rs) ?m))
        = usage_add (ur_usage r) (usage_sum (map snd (filter (\<lambda>x. fst x \<notin> ids_of (r # rs)) m)))"
        by (simp add: out)
      with Cons(1) [OF d, of a] False mem Some show ?thesis
        by (simp add: step usage_add_ac split: prod.splits)
    qed
  qed
qed

lemma map_last_Nil_iff [simp]: "map_last f xs = [] \<longleftrightarrow> xs = []"
  by (simp add: map_last_def)

lemma mark_message_frame: "k \<noteq> str ''content'' \<Longrightarrow> jget (mark_message m) k = jget m k"
  by (cases m rule: mark_message.cases) (simp_all split: option.split)

lemma mark_block_frame: "k \<noteq> str ''cache_control'' \<Longrightarrow> jget (mark_block_cache_control b) k = jget b k"
  by (cases b rule: mark_block_cache_control.cases) simp_all

section \<open>Properties\<close>

text \<open>Further: Usage is billed once per request. Whatever order the hash map yields, the de-duplicated usage is the
  sum of the anonymous records and, of every request id, the last record.\<close>

theorem dedup_usage_correct:
  assumes "\<And>m. mset (iter m) = mset (map snd m)"
  shows "dedup_usage_by_request_id iter records = usage_sum (map ur_usage (last_records records))"
proof -
  obtain m a where f: "foldl dedup_step ([], usage_default) records = (m, a)" by fastforce
  have "dedup_usage_by_request_id iter records = usage_add a (usage_sum (iter m))"
    by (simp add: dedup_usage_by_request_id_def f foldl_usage_add)
  also have "usage_sum (iter m) = usage_sum (map snd m)" by (rule usage_sum_mset) (rule assms)
  finally show ?thesis using dedup_fold [of "[]" usage_default records] f by simp
qed

theorem dedup_usage_correct_witness:
  "dedup_usage_by_request_id (\<lambda>m. rev (map snd m)) [\<lparr>request_id = Some (str ''a''), ur_usage = usage_default\<rparr>]
     = usage_sum (map ur_usage (last_records [\<lparr>request_id = Some (str ''a''), ur_usage = usage_default\<rparr>]))"
  by (rule dedup_usage_correct) simp

text \<open>Further: Cache breakpoints stand on content blocks only. Annotating a body changes at most one message, the
  last one that has content blocks, and of it only the \<open>content\<close> key, where the last block alone changes and
  only at its \<open>cache_control\<close> key; every key of the body other than \<open>system\<close> and \<open>messages\<close> is
  untouched.\<close>

theorem cache_breakpoints:
  "(\<forall>k. jget (apply_anthropic_cache_control_to_body body) k = jget body k \<or> k = str ''system'' \<or> k = str ''messages'')
   \<and> (case Option.bind (jget body (str ''messages'')) as_array of
        None \<Rightarrow> jget (apply_anthropic_cache_control_to_body body) (str ''messages'') = jget body (str ''messages'')
      | Some ms \<Rightarrow> \<exists>ms'. jget (apply_anthropic_cache_control_to_body body) (str ''messages'') = Some (JArray ms')
          \<and> (ms' = ms \<or> (\<exists>as m bs blocks b. ms = as @ m # bs \<and> ms' = as @ mark_message m # bs \<and> list_all (\<lambda>x. \<not> has_blocks x) bs
               \<and> jget m (str ''content'') = Some (JArray (blocks @ [b]))
               \<and> jget (mark_message m) (str ''content'') = Some (JArray (blocks @ [mark_block_cache_control b]))
               \<and> (\<forall>k. jget (mark_message m) k = jget m k \<or> k = str ''content'')
               \<and> (\<forall>k. jget (mark_block_cache_control b) k = jget b k \<or> k = str ''cache_control''))))"
proof (cases body rule: apply_anthropic_cache_control_to_body.cases)
  case (1 obj)
  have sys: "obj_get (mark_system obj) k = obj_get obj k" if "k \<noteq> str ''system''" for k
    using that by (auto simp: mark_system_def split: option.splits jvalue.splits)
  have msg: "obj_get (mark_system obj) (str ''messages'') = obj_get obj (str ''messages'')" by (rule sys) simp
  have frame: "obj_get (mark_messages (mark_system obj)) k = obj_get obj k \<or> k = str ''system'' \<or> k = str ''messages''" for k
    using sys [of k] by (auto simp: mark_messages_def split: option.splits jvalue.splits)
  have split: "ms' = ms \<or> (\<exists>as m bs blocks b. ms = as @ m # bs \<and> ms' = as @ mark_message m # bs \<and> list_all (\<lambda>x. \<not> has_blocks x) bs
       \<and> jget m (str ''content'') = Some (JArray (blocks @ [b]))
       \<and> jget (mark_message m) (str ''content'') = Some (JArray (blocks @ [mark_block_cache_control b]))
       \<and> (\<forall>k. jget (mark_message m) k = jget m k \<or> k = str ''content'')
       \<and> (\<forall>k. jget (mark_block_cache_control b) k = jget b k \<or> k = str ''cache_control''))"
    if ms': "ms' = update_last has_blocks mark_message ms" for ms ms'
  proof -
    consider "ms' = ms" | as m bs where "ms = as @ m # bs" "has_blocks m" "\<forall>b\<in>set bs. \<not> has_blocks b" "ms' = as @ mark_message m # bs"
      using update_last_split [of has_blocks mark_message ms] ms' by blast
    then show ?thesis
    proof cases
      case (2 as m bs)
      then obtain xs where xs: "jget m (str ''content'') = Some (JArray xs)" "xs \<noteq> []"
        by (auto simp: has_blocks_def elim!: as_array.elims split: option.splits
            simp: bind_eq_Some_conv the_or_def)
      then have b: "jget m (str ''content'') = Some (JArray (butlast xs @ [last xs]))" by simp
      have mm: "jget (mark_message m) (str ''content'') = Some (JArray (butlast xs @ [mark_block_cache_control (last xs)]))"
        using xs by (cases m rule: mark_message.cases) (simp_all add: map_last_def)
      show ?thesis
        using 2 b mm mark_message_frame [of _ m] mark_block_frame [of _ "last xs"]
        by (intro disjI2 exI [of _ as] exI [of _ m] exI [of _ bs] exI [of _ "butlast xs"] exI [of _ "last xs"])
          (auto simp: list_all_iff)
    qed simp
  qed
  show ?thesis
  proof (cases "Option.bind (obj_get obj (str ''messages'')) as_array")
    case None
    then have "mark_messages (mark_system obj) = mark_system obj"
      by (auto simp: mark_messages_def msg split: option.splits jvalue.splits)
    with None 1 frame msg show ?thesis by simp
  next
    case (Some ms)
    then have "obj_get obj (str ''messages'') = Some (JArray ms)"
      by (auto simp: bind_eq_Some_conv elim!: as_array.elims)
    then have "obj_get (mark_messages (mark_system obj)) (str ''messages'')
        = Some (JArray (update_last has_blocks mark_message ms))"
      by (simp add: mark_messages_def msg)
    with Some 1 frame split [OF refl, of ms] show ?thesis by simp
  qed
qed simp_all

end
