(* ===== verification/Dispatch.thy ===== *)
theory Dispatch
  imports Prompt_Cache Ssrf Pool Classify
begin

text \<open>
  \<open>router/src/dispatch_http.rs\<close>: the recovery loop of \<open>HttpDispatch::complete\<close>, the one place a
  provider is called. The outside world (cancellation, the credential resolver, the clock, the HTTP client,
  the back-off timer) is a record of functions over a world state \<open>'e\<close>; the fallback chain, which lives
  in a mutex across calls, is part of the loop state. One attempt is \<open>dispatch_step\<close>; the loop is total
  because each continuing attempt consumes one of sixteen. A panic of the source (an index out of range, a
  hook indexing a non-object) is the outcome \<open>None\<close>; integer arithmetic wraps, as in a release build.
\<close>

section \<open>The request\<close>

fun endpoint_for :: "api_mode \<Rightarrow> rstr" where
  "endpoint_for ChatCompletions = str ''chat/completions''"
| "endpoint_for AnthropicMessages = str ''messages''"
| "endpoint_for Responses = str ''responses''"

definition build_outbound_body :: "from_str \<Rightarrow> (jvalue \<Rightarrow> rstr) \<Rightarrow> rstr option \<Rightarrow>
    provider_profile \<Rightarrow> rstr \<Rightarrow> message list \<Rightarrow> tool_def list \<Rightarrow> req_params \<Rightarrow> jvalue option" where
  "build_outbound_body rd pr var profile model messages tools params =
     (let mode = effective_api_mode var profile model;
          prepared = prepare_messages (hooks profile) messages;
          ctx = \<lparr>ctx_session_id = session_id params, ctx_model = model\<rparr>;
          b0 = build_kwargs (transport_for rd pr mode) model prepared (none_if_empty tools) profile params;
          b1 = deep_merge_object b0 (build_extra_body (hooks profile) (session_id params) ctx);
          (extra, top_level) = build_api_kwargs_extras (hooks profile) (rp_reasoning params) ctx;
          b2 = deep_merge_object b1 extra;
          b3 = (case b2 of JObject m \<Rightarrow> JObject (foldl (\<lambda>m (k, v). obj_insert k v m) m top_level) | v \<Rightarrow> v);
          b4 = (if mode \<noteq> Responses
                then (case Option.bind (rp_reasoning params) reasoning_config.effort of
                        Some e \<Rightarrow> apply_reasoning_effort (hooks profile) b3 e
                      | None \<Rightarrow> Some b3)
                else Some b3)
      in map_option (\<lambda>b. if cache_supported profile \<and> mode = AnthropicMessages
                         then apply_anthropic_cache_control_to_body b else b) b4)"

record http_request =
  hr_url :: rstr
  hr_headers :: "(rstr \<times> rstr) list"
  hr_body :: jvalue

definition bearer_value :: "rstr \<Rightarrow> rstr" where
  "bearer_value key = str ''Bearer '' @ key"

definition auth_headers :: "provider_profile \<Rightarrow> rstr \<Rightarrow> (rstr \<times> rstr) list" where
  "auth_headers profile key =
     (if env_http_headers profile = [] then [(str ''Authorization'', bearer_value key)]
      else map (\<lambda>(h, _). (h, if to_ascii_lowercase h = str ''authorization'' then bearer_value key else key))
             (env_http_headers profile))"

section \<open>World, state and outcome\<close>

datatype resolve_error = NotFound | DecryptFailed rstr | Db rstr

text \<open>What a send yields: cancelled while waiting, a network error, or a response with its status, its
  \<open>Retry-After\<close> header if it has one, and its text.\<close>

datatype send_outcome = SendCancelled | NetError rstr | Response u16 "rstr option" rstr

record 'e http_world =
  hw_cancelled :: "'e \<Rightarrow> bool"
  pool_for :: "'e \<Rightarrow> uuid \<Rightarrow> rstr \<Rightarrow> 'e \<times> (resolve_error + credential_pool)"
  clock_ms :: "'e \<Rightarrow> 'e \<times> i64"
  decrypt :: "'e \<Rightarrow> uuid \<Rightarrow> uuid \<Rightarrow> 'e \<times> (resolve_error + rstr)"
  send :: "'e \<Rightarrow> http_request \<Rightarrow> 'e \<times> send_outcome"
  persist_transitions :: "'e \<Rightarrow> uuid \<Rightarrow> rstr \<Rightarrow> credential_pool \<Rightarrow> 'e"
  sleep_ms :: "'e \<Rightarrow> u64 \<Rightarrow> 'e \<times> bool"
  http_date :: "'e \<Rightarrow> rstr \<Rightarrow> nat option"

record 'e http_dispatch =
  hd_registry :: registry
  allow_insecure :: bool
  responses_var :: "rstr option"
  url_parse :: "rstr \<Rightarrow> url option"
  json_read :: from_str
  json_write :: "jvalue \<Rightarrow> rstr"
  json_error :: "rstr \<Rightarrow> rstr"
  hd_world :: "'e http_world"

record 'e dispatch_state =
  ds_env :: 'e
  ds_chain :: fallback_chain
  ds_attempts :: nat
  ds_last_err :: api_error

text \<open>The trace of a call: a request sent for a provider with a credential chosen from a pool at an instant,
  a pool written back, a back-off sleep.\<close>

datatype dispatch_event =
    Sent rstr credential_pool i64 pooled_credential http_request
  | Persisted rstr credential_pool
  | Slept u64

type_synonym outcome = "(api_error + normalized_response) option"
type_synonym 'e step_result = "('e dispatch_state \<times> outcome) + 'e dispatch_state"

definition cancelled_error :: api_error where
  "cancelled_error = Transport (str ''cancelled'')"

definition give_up :: "'e dispatch_state \<Rightarrow> api_error \<Rightarrow> 'e step_result" where
  "give_up st err = Inl (st, Some (Inl err))"

text \<open>\<open>if self.advance_chain() { continue } else { return Err(err) }\<close>.\<close>

definition fall_back :: "'e dispatch_state \<Rightarrow> api_error \<Rightarrow> 'e step_result" where
  "fall_back st err =
     (case chain_advance (ds_chain st) of
        (c, Some _) \<Rightarrow> Inr (st\<lparr>ds_chain := c\<rparr>)
      | (c, None) \<Rightarrow> give_up (st\<lparr>ds_chain := c\<rparr>) err)"

definition profile_for :: "'e http_dispatch \<Rightarrow> rstr \<Rightarrow> provider_profile" where
  "profile_for d provider = (case hd_registry d provider of Some p \<Rightarrow> p | None \<Rightarrow> fallback_profile provider)"

definition mode_for :: "'e http_dispatch \<Rightarrow> link \<Rightarrow> api_mode" where
  "mode_for d l = (case l of (provider, model, chain_mode) \<Rightarrow>
     (case hd_registry d provider of
        Some p \<Rightarrow> effective_api_mode (responses_var d) p model
      | None \<Rightarrow> chain_mode))"

section \<open>One attempt\<close>

definition persisted :: "'e http_dispatch \<Rightarrow> dispatch_request \<Rightarrow> rstr \<Rightarrow> credential_pool \<Rightarrow>
    'e dispatch_state \<Rightarrow> 'e dispatch_state" where
  "persisted d req provider pool st =
     st\<lparr>ds_env := persist_transitions (hd_world d) (ds_env st) (dr_tenant req) provider pool\<rparr>"

definition backoff_delay :: "classified_error \<Rightarrow> u64" where
  "backoff_delay ce = word_of_int (max 0 (min 30000 (the_or 500 (reset_at_ms ce))))"

definition handle_error :: "'e http_dispatch \<Rightarrow> dispatch_request \<Rightarrow> rstr \<Rightarrow> credential_pool \<Rightarrow> i64 \<Rightarrow> rstr \<Rightarrow>
    'e dispatch_state \<Rightarrow> u16 \<Rightarrow> rstr \<Rightarrow> i64 option \<Rightarrow> dispatch_event list \<times> 'e step_result" where
  "handle_error d req provider pool now hint st0 code txt retry_after =
     (let err = Status code txt;
          st = st0\<lparr>ds_last_err := err\<rparr>;
          ce = classify (json_read d) err \<lparr>cc_provider = provider, retry_after_ms = retry_after\<rparr>
      in case decide_action ce of
           Rotate \<Rightarrow>
             (case mark_exhausted_and_rotate pool code (map_option (\<lambda>ms. wrap_i64 (now + ms)) (reset_at_ms ce)) (Some hint) now of
                (pool', next) \<Rightarrow>
                  (let st' = persisted d req provider pool' st
                   in ([Persisted provider pool'], if next \<noteq> None then Inr st' else fall_back st' err)))
         | Fallback \<Rightarrow> ([], fall_back st err)
         | Compress \<Rightarrow> ([], fall_back st err)
         | Backoff \<Rightarrow>
             (case sleep_ms (hd_world d) (ds_env st) (backoff_delay ce) of
                (env, cancelled) \<Rightarrow>
                  ([Slept (backoff_delay ce)],
                   if cancelled then give_up (st\<lparr>ds_env := env\<rparr>) cancelled_error else Inr (st\<lparr>ds_env := env\<rparr>)))
         | Abort \<Rightarrow>
             (if reason ce = AuthPermanent
              then (let pool' = set_dead_at (mark_dead pool hint) hint now
                    in ([Persisted provider pool'], give_up (persisted d req provider pool' st) err))
              else ([], give_up st err)))"

definition handle_success :: "'e http_dispatch \<Rightarrow> dispatch_request \<Rightarrow> rstr \<Rightarrow> api_mode \<Rightarrow> credential_pool \<Rightarrow> rstr \<Rightarrow>
    'e dispatch_state \<Rightarrow> rstr \<Rightarrow> dispatch_event list \<times> 'e step_result" where
  "handle_success d req provider mode pool hint st0 txt =
     (case mark_ok pool hint of (pool', healed) \<Rightarrow>
       (let st = (if healed then persisted d req provider pool' st0 else st0);
            evs = (if healed then [Persisted provider pool'] else [])
        in case json_read d txt of
             None \<Rightarrow> (evs, give_up st (Decode (json_error d txt)))
           | Some json \<Rightarrow>
               (case normalize_response (transport_for (json_read d) (json_write d) mode) json of
                  Inl e \<Rightarrow> (evs, give_up st (Decode (transport_error_display e)))
                | Inr nr \<Rightarrow> (evs, Inl (st, Some (Inr nr))))))"

definition is_success :: "u16 \<Rightarrow> bool" where
  "is_success code \<longleftrightarrow> 200 \<le> code \<and> code < 300"

definition handle_outcome :: "'e http_dispatch \<Rightarrow> dispatch_request \<Rightarrow> rstr \<Rightarrow> api_mode \<Rightarrow> credential_pool \<Rightarrow> i64 \<Rightarrow> rstr \<Rightarrow>
    'e dispatch_state \<Rightarrow> send_outcome \<Rightarrow> dispatch_event list \<times> 'e step_result" where
  "handle_outcome d req provider mode pool now hint st sent =
     (case sent of
        SendCancelled \<Rightarrow> ([], give_up st cancelled_error)
      | NetError e \<Rightarrow> ([], fall_back (st\<lparr>ds_last_err := Transport e\<rparr>) (Transport e))
      | Response code retry txt \<Rightarrow>
          (if is_success code then handle_success d req provider mode pool hint st txt
           else handle_error d req provider pool now hint st code txt
                  (Option.bind retry (parse_retry_after_ms (http_date (hd_world d) (ds_env st))))))"

text \<open>Steps 4 to 9: a credential \<open>c\<close> was selected at \<open>now\<close>, leaving \<open>pool\<close>.\<close>

definition send_with :: "'e http_dispatch \<Rightarrow> dispatch_request \<Rightarrow> link \<Rightarrow> credential_pool \<Rightarrow> i64 \<Rightarrow> pooled_credential \<Rightarrow>
    'e dispatch_state \<Rightarrow> dispatch_event list \<times> 'e step_result" where
  "send_with d req l pool now c st0 =
     (case l of (provider, model, _) \<Rightarrow>
       (case decrypt (hd_world d) (ds_env st0) (dr_tenant req) (cred_id c) of
          (env1, Inl _) \<Rightarrow> ([], fall_back (st0\<lparr>ds_env := env1\<rparr>) (Transport (str ''decrypt failed for '' @ provider)))
        | (env1, Inr key) \<Rightarrow>
            (let st = st0\<lparr>ds_env := env1\<rparr>; profile = profile_for d provider
             in case build_outbound_body (json_read d) (json_write d) (responses_var d) profile model
                       (dr_messages req) (dr_tools req) (dr_params req) of
                  None \<Rightarrow> ([], Inl (st, None))
                | Some body \<Rightarrow>
                    (if validate_base_url_security (url_parse d) (base_url profile) (allow_insecure d) \<noteq> Accepted
                     then ([], give_up st (Transport (str ''insecure base_url rejected for '' @ provider)))
                     else
                       (let r = \<lparr>hr_url = versioned_base_url (base_url profile) (endpoint_for (mode_for d l)),
                                 hr_headers = default_headers profile @ auth_headers profile key, hr_body = body\<rparr>
                        in case send (hd_world d) (ds_env st) r of
                             (env2, sent) \<Rightarrow>
                               (case handle_outcome d req provider (mode_for d l) pool now (key_hint c) (st\<lparr>ds_env := env2\<rparr>) sent of
                                  (evs, res) \<Rightarrow> (Sent provider pool now c r # evs, res)))))))"

definition dispatch_step :: "'e http_dispatch \<Rightarrow> dispatch_request \<Rightarrow> 'e dispatch_state \<Rightarrow>
    dispatch_event list \<times> 'e step_result" where
  "dispatch_step d req st0 =
     (if hw_cancelled (hd_world d) (ds_env st0) then ([], give_up st0 cancelled_error)
      else if ds_attempts st0 \<ge> 16 then ([], give_up st0 (ds_last_err st0))
      else
        (let st = st0\<lparr>ds_attempts := ds_attempts st0 + 1\<rparr> in
         case chain_current (ds_chain st) of
           None \<Rightarrow> ([], Inl (st, None))
         | Some (provider, model, chain_mode) \<Rightarrow>
             (case pool_for (hd_world d) (ds_env st) (dr_tenant req) provider of
                (env1, Inl _) \<Rightarrow> ([], fall_back (st\<lparr>ds_env := env1\<rparr>) (Transport (str ''no credentials for '' @ provider)))
              | (env1, Inr pool) \<Rightarrow>
                  (case clock_ms (hd_world d) env1 of (env2, now) \<Rightarrow>
                    (case select pool now of
                       (pool', None) \<Rightarrow> ([], fall_back (st\<lparr>ds_env := env2\<rparr>) (Transport (str ''no eligible credential for '' @ provider)))
                     | (pool', Some c) \<Rightarrow> send_with d req (provider, model, chain_mode) pool' now c (st\<lparr>ds_env := env2\<rparr>))))))"

section \<open>The loop\<close>

lemma fall_back_attempts: "fall_back st err = Inr st' \<Longrightarrow> ds_attempts st' = ds_attempts st"
  by (auto simp: fall_back_def give_up_def split: prod.splits option.splits)

lemma persisted_simps [simp]:
  "ds_attempts (persisted d req p pool st) = ds_attempts st" "ds_chain (persisted d req p pool st) = ds_chain st"
  by (simp_all add: persisted_def)

lemma handle_outcome_attempts:
  "handle_outcome d req p m pool now h st sent = (evs, Inr st') \<Longrightarrow> ds_attempts st' = ds_attempts st"
  by (auto simp: handle_outcome_def handle_success_def handle_error_def Let_def give_up_def dest!: fall_back_attempts
      split: send_outcome.splits if_splits prod.splits option.splits sum.splits action.splits)

lemma dispatch_step_attempts:
  "dispatch_step d req st = (evs, Inr st') \<Longrightarrow> ds_attempts st < 16 \<and> ds_attempts st' = Suc (ds_attempts st)"
  by (auto simp: dispatch_step_def send_with_def Let_def give_up_def dest!: fall_back_attempts handle_outcome_attempts
      split: if_splits prod.splits option.splits sum.splits)

function dispatch_loop :: "'e http_dispatch \<Rightarrow> dispatch_request \<Rightarrow> 'e dispatch_state \<Rightarrow>
    dispatch_event list \<times> 'e dispatch_state \<times> outcome" where
  "dispatch_loop d req st =
     (case dispatch_step d req st of
        (evs, Inl (st', out)) \<Rightarrow> (evs, st', out)
      | (evs, Inr st') \<Rightarrow> (case dispatch_loop d req st' of (evs', st'', out) \<Rightarrow> (evs @ evs', st'', out)))"
  by pat_completeness auto
termination
  by (relation "measure (\<lambda>(d, req, st). 16 - ds_attempts st)") (auto dest: dispatch_step_attempts [OF sym])

declare dispatch_loop.simps [simp del]

definition http_complete :: "'e http_dispatch \<Rightarrow> 'e \<times> fallback_chain \<Rightarrow> dispatch_request \<Rightarrow>
    dispatch_event list \<times> 'e dispatch_state \<times> outcome" where
  "http_complete d s req = dispatch_loop d req
     \<lparr>ds_env = fst s, ds_chain = snd s, ds_attempts = 0, ds_last_err = Transport (str ''no provider attempted'')\<rparr>"

section \<open>What an attempt does\<close>

definition is_sent :: "dispatch_event \<Rightarrow> bool" where
  "is_sent e = (case e of Sent _ _ _ _ _ \<Rightarrow> True | _ \<Rightarrow> False)"

definition is_slept :: "dispatch_event \<Rightarrow> bool" where
  "is_slept e = (case e of Slept _ \<Rightarrow> True | _ \<Rightarrow> False)"

text \<open>What must hold of a request that leaves: the provider is one of the chain, the credential is an eligible
  one of the pool, the base URL passed the egress check, and the URL is that of the wire in force.\<close>

definition sent_ok :: "'e http_dispatch \<Rightarrow> link list \<Rightarrow> dispatch_event \<Rightarrow> bool" where
  "sent_ok d ls e = (case e of
       Sent provider pool now c r \<Rightarrow>
         (\<exists>l \<in> set ls. fst l = provider \<and>
            hr_url r = versioned_base_url (base_url (profile_for d provider)) (endpoint_for (mode_for d l)))
         \<and> c \<in> set (entries pool) \<and> eligible pool c now
         \<and> validate_base_url_security (url_parse d) (base_url (profile_for d provider)) (allow_insecure d) = Accepted
     | _ \<Rightarrow> True)"

definition chain_le :: "fallback_chain \<Rightarrow> fallback_chain \<Rightarrow> bool" where
  "chain_le c c' \<longleftrightarrow> links c' = links c \<and> idx c \<le> idx c'"

definition state_of :: "'e step_result \<Rightarrow> 'e dispatch_state" where
  "state_of res = (case res of Inl (st, _) \<Rightarrow> st | Inr st \<Rightarrow> st)"

lemma state_of_simps [simp]: "state_of (Inl (st, out)) = st" "state_of (Inr st) = st" "state_of (give_up st err) = st"
  by (simp_all add: state_of_def give_up_def)

lemma chain_le_refl [simp]: "chain_le c c"
  by (simp add: chain_le_def)

lemma chain_le_trans: "chain_le a b \<Longrightarrow> chain_le b c \<Longrightarrow> chain_le a c"
  by (auto simp: chain_le_def)

lemma fall_back_chain: "chain_le (ds_chain st) (ds_chain (state_of (fall_back st err)))"
  by (auto simp: fall_back_def chain_advance_def chain_le_def)

lemma status_never_backs_off: "decide_action (classify f (Status code txt) ctx) \<noteq> Backoff"
proof -
  let ?r = "classify_reason (Status code txt) (Some code) (extract_message f (Status code txt))"
  have "?r \<noteq> Timeout"
    by (auto simp: classify_reason_def is_stream_timeout_def transient_or_billing_def)
  moreover have "?r \<noteq> FormatError" by (rule classify_reason_not_FormatError)
  ultimately have "action_of_reason ?r \<noteq> Backoff" by (cases ?r) simp_all
  then show ?thesis by (simp add: decide_classify)
qed

lemma handle_error_inert:
  assumes "handle_error d req p pool now h st code txt retry = (evs, res)"
  shows "list_all (\<lambda>e. \<not> is_sent e \<and> \<not> is_slept e) evs \<and> chain_le (ds_chain st) (ds_chain (state_of res))"
proof -
  let ?st = "st\<lparr>ds_last_err := Status code txt\<rparr>"
  let ?ce = "classify (json_read d) (Status code txt) \<lparr>cc_provider = p, retry_after_ms = retry\<rparr>"
  have fb: "chain_le (ds_chain st) (ds_chain (state_of (fall_back s err)))" if "ds_chain s = ds_chain st" for s err
    using fall_back_chain [of s err] that by simp
  have nb: "decide_action ?ce \<noteq> Backoff" by (rule status_never_backs_off)
  show ?thesis
    using assms nb fb [of ?st] fb [of "persisted d req p pl ?st" for pl]
    by (cases "decide_action ?ce")
      (auto simp: handle_error_def Let_def is_sent_def is_slept_def split: prod.splits if_splits)
qed

lemma handle_outcome_inert:
  assumes "handle_outcome d req p m pool now h st sent = (evs, res)"
  shows "list_all (\<lambda>e. \<not> is_sent e \<and> \<not> is_slept e) evs \<and> chain_le (ds_chain st) (ds_chain (state_of res))"
proof (cases sent)
  case SendCancelled
  with assms show ?thesis by (auto simp: handle_outcome_def)
next
  case (NetError e)
  with assms fall_back_chain [of "st\<lparr>ds_last_err := Transport e\<rparr>" "Transport e"]
  show ?thesis by (auto simp: handle_outcome_def)
next
  case (Response code retry reply)
  show ?thesis
  proof (cases "is_success code")
    case True
    with Response assms show ?thesis
      by (auto simp: handle_outcome_def handle_success_def Let_def is_sent_def is_slept_def
          split: prod.splits option.splits sum.splits if_splits)
  next
    case False
    with Response assms have "handle_error d req p pool now h st code reply
      (Option.bind retry (parse_retry_after_ms (http_date (hd_world d) (ds_env st)))) = (evs, res)"
      by (simp add: handle_outcome_def)
    then show ?thesis by (rule handle_error_inert)
  qed
qed

lemma eligible_after_select: "select p now = (p', Some c) \<Longrightarrow> c \<in> set (entries p') \<and> eligible p' c now"
  using select_eligible [of p now p' c] select_entries [of p now] select_frame [of p now]
  by (auto simp: eligible_def lease_ok_def)

lemma send_with_events:
  assumes "send_with d req l pool now c st = (evs, res)" "l \<in> set (links (ds_chain st))"
    "c \<in> set (entries pool)" "eligible pool c now"
  shows "list_all (sent_ok d (links (ds_chain st))) evs \<and> length (filter is_sent evs) \<le> 1
    \<and> filter is_slept evs = [] \<and> chain_le (ds_chain st) (ds_chain (state_of res))"
proof -
  obtain provider model cm where l: "l = (provider, model, cm)" by (cases l) auto
  obtain env1 k where k: "decrypt (hd_world d) (ds_env st) (dr_tenant req) (cred_id c) = (env1, k)" by fastforce
  show ?thesis
  proof (cases k)
    case (Inl e)
    with assms k l fall_back_chain [of "st\<lparr>ds_env := env1\<rparr>"] show ?thesis by (auto simp: send_with_def)
  next
    case (Inr key)
    show ?thesis
    proof (cases "build_outbound_body (json_read d) (json_write d) (responses_var d) (profile_for d provider) model
        (dr_messages req) (dr_tools req) (dr_params req)")
      case None
      with assms k l Inr show ?thesis by (auto simp: send_with_def Let_def)
    next
      case (Some body)
      show ?thesis
      proof (cases "validate_base_url_security (url_parse d) (base_url (profile_for d provider)) (allow_insecure d) = Accepted")
        case False
        with assms k l Inr Some show ?thesis by (auto simp: send_with_def Let_def)
      next
        case True
        define r where "r = \<lparr>hr_url = versioned_base_url (base_url (profile_for d provider)) (endpoint_for (mode_for d l)),
          hr_headers = default_headers (profile_for d provider) @ auth_headers (profile_for d provider) key, hr_body = body\<rparr>"
        obtain env2 sent where s: "send (hd_world d) env1 r = (env2, sent)" by fastforce
        obtain evs' res' where h: "handle_outcome d req provider (mode_for d l) pool now (key_hint c)
            (st\<lparr>ds_env := env2\<rparr>) sent = (evs', res')" by fastforce
        have out: "evs = Sent provider pool now c r # evs'" "res = res'"
          using assms(1) k Inr Some True s h by (simp_all add: send_with_def l Let_def r_def)
        have "sent_ok d (links (ds_chain st)) (Sent provider pool now c r)"
          using assms(2-4) True by (auto simp: sent_ok_def r_def l intro!: bexI [of _ l])
        moreover have "list_all (\<lambda>e. \<not> is_sent e \<and> \<not> is_slept e) evs'" "chain_le (ds_chain st) (ds_chain (state_of res'))"
          using handle_outcome_inert [OF h] by simp_all
        moreover from this(1) have "filter is_sent evs' = []" "filter is_slept evs' = []"
          "list_all (sent_ok d (links (ds_chain st))) evs'"
          by (auto simp: list_all_iff filter_empty_conv sent_ok_def is_sent_def split: dispatch_event.splits)
        ultimately show ?thesis by (simp add: out is_sent_def is_slept_def)
      qed
    qed
  qed
qed

lemma dispatch_step_events:
  assumes "dispatch_step d req st = (evs, res)"
  shows "list_all (sent_ok d (links (ds_chain st))) evs \<and> length (filter is_sent evs) \<le> (if ds_attempts st < 16 then 1 else 0)
    \<and> filter is_slept evs = [] \<and> chain_le (ds_chain st) (ds_chain (state_of res))"
proof (cases "hw_cancelled (hd_world d) (ds_env st) \<or> ds_attempts st \<ge> 16 \<or> chain_current (ds_chain st) = None")
  case True
  with assms show ?thesis by (auto simp: dispatch_step_def Let_def split: if_splits)
next
  case False
  then obtain provider model cm where cur: "chain_current (ds_chain st) = Some (provider, model, cm)" by auto
  let ?st = "st\<lparr>ds_attempts := ds_attempts st + 1\<rparr>"
  obtain env1 pr where p: "pool_for (hd_world d) (ds_env st) (dr_tenant req) provider = (env1, pr)" by fastforce
  obtain env2 now where now: "clock_ms (hd_world d) env1 = (env2, now)" by fastforce
  have fb: "chain_le (ds_chain st) (ds_chain (state_of (fall_back (?st\<lparr>ds_env := e\<rparr>) err)))" for e err
    using fall_back_chain [of "?st\<lparr>ds_env := e\<rparr>" err] by simp
  show ?thesis
  proof (cases pr)
    case (Inl e)
    with assms False cur p fb show ?thesis by (auto simp: dispatch_step_def)
  next
    case (Inr pool)
    obtain pool' oc where sel: "select pool now = (pool', oc)" by fastforce
    show ?thesis
    proof (cases oc)
      case None
      with assms False cur p now Inr sel fb show ?thesis by (auto simp: dispatch_step_def)
    next
      case (Some c)
      have call: "send_with d req (provider, model, cm) pool' now c (?st\<lparr>ds_env := env2\<rparr>) = (evs, res)"
        using assms False cur p now Inr sel Some by (simp add: dispatch_step_def)
      have "(provider, model, cm) \<in> set (links (ds_chain st))"
        using cur by (auto simp: chain_current_def split: if_splits) (metis nth_mem)
      with send_with_events [OF call] eligible_after_select [OF sel [unfolded Some]] False
      show ?thesis by simp
    qed
  qed
qed

lemma dispatch_loop_events:
  "list_all (sent_ok d (links (ds_chain st))) (fst (dispatch_loop d req st))
   \<and> length (filter is_sent (fst (dispatch_loop d req st))) \<le> 16 - ds_attempts st
   \<and> filter is_slept (fst (dispatch_loop d req st)) = []
   \<and> chain_le (ds_chain st) (ds_chain (fst (snd (dispatch_loop d req st))))"
proof (induction d req st rule: dispatch_loop.induct)
  case (1 d req st)
  obtain evs res where step: "dispatch_step d req st = (evs, res)" by fastforce
  note ev = dispatch_step_events [OF step]
  show ?case
  proof (cases res)
    case (Inl r)
    then obtain st' out where "res = Inl (st', out)" by (cases r) auto
    moreover from this step have "dispatch_loop d req st = (evs, st', out)" by (subst dispatch_loop.simps) simp
    ultimately show ?thesis using ev by (auto split: if_splits)
  next
    case (Inr st')
    have at: "ds_attempts st < 16" "ds_attempts st' = Suc (ds_attempts st)"
      using dispatch_step_attempts [of d req st evs st'] step Inr by auto
    have loop: "dispatch_loop d req st = (evs @ fst (dispatch_loop d req st'), snd (dispatch_loop d req st'))"
      using step Inr by (subst dispatch_loop.simps) (simp split: prod.split)
    note ih = 1 [OF step [symmetric] Inr]
    have "links (ds_chain st') = links (ds_chain st)" using ev Inr by (simp add: chain_le_def)
    with ih ev at Inr show ?thesis by (auto simp: loop intro: chain_le_trans)
  qed
qed

section \<open>The properties of a dispatch\<close>

lemma http_complete_events:
  "list_all (sent_ok d (links (snd s))) (fst (http_complete d s req))
   \<and> length (filter is_sent (fst (http_complete d s req))) \<le> 16
   \<and> filter is_slept (fst (http_complete d s req)) = []
   \<and> chain_le (snd s) (ds_chain (fst (snd (http_complete d s req))))"
  unfolding http_complete_def
  using dispatch_loop_events [of d "\<lparr>ds_env = fst s, ds_chain = snd s, ds_attempts = 0,
    ds_last_err = Transport (str ''no provider attempted'')\<rparr>" req] by simp

text \<open>Further: A call is bounded and moves forward. Whatever the providers, the resolver and the clock answer, one
  call sends at most sixteen requests, and the fallback chain keeps its links and never moves back.\<close>

theorem dispatch_bounded:
  "length (filter is_sent (fst (http_complete d s req))) \<le> 16
   \<and> links (ds_chain (fst (snd (http_complete d s req)))) = links (snd s)
   \<and> idx (snd s) \<le> idx (ds_chain (fst (snd (http_complete d s req))))"
  using http_complete_events [of d s req] by (simp add: chain_le_def)

text \<open>C5: Every request that leaves is justified: its provider is a link of the chain, its credential was
  eligible in the resolved pool (not dead, not cooling, below its lease cap), the profile's base URL passed the
  egress check, and its URL is the versioned base URL with the path of the wire in force for that link.\<close>

theorem dispatch_sends_safely:
  "list_all (sent_ok d (links (snd s))) (fst (http_complete d s req))"
  using http_complete_events [of d s req] by simp

text \<open>Further: The back-off branch is dead code. No status error is ever classified into a reason that backs off, so
  a call never sleeps: a rate limit rotates at once and a server error falls back at once.\<close>

theorem dispatch_never_sleeps:
  "filter is_slept (fst (http_complete d s req)) = []"
  using http_complete_events [of d s req] by simp

text \<open>C6: A terminal authentication error ends the call and kills the credential: when the response to a
  request made with a credential of hint \<open>h\<close> carries a terminal-authentication signal, the error is returned
  as it is, and the pool written back holds the credential as dead.\<close>

theorem terminal_auth_kills:
  assumes "find_hint pool h = Some c"
    and "contains_any (extract_message (json_read d) (Status code body)) TERMINAL_AUTH"
  shows "\<exists>pool' c'. handle_error d req provider pool now h st code body retry =
      ([Persisted provider pool'], give_up (persisted d req provider pool' (st\<lparr>ds_last_err := Status code body\<rparr>)) (Status code body))
    \<and> find_hint pool' h = Some c' \<and> status c' = Dead \<and> cred_id c' = cred_id c"
proof -
  let ?ce = "classify (json_read d) (Status code body) \<lparr>cc_provider = provider, retry_after_ms = retry\<rparr>"
  have why: "reason ?ce = AuthPermanent"
    using assms(2) by (simp add: classify_reason_AuthPermanent is_stream_timeout_def)
  then have act: "decide_action ?ce = Abort" by (simp add: decide_classify)
  have "find_hint (set_dead_at (mark_dead pool h) h now) h = Some (c\<lparr>status := Dead\<rparr>)"
    using assms(1) find_mark_dead [of pool h] by (simp add: set_dead_at_def find_hint_def mark_dead_def)
  with why act show ?thesis by (auto simp: handle_error_def Let_def)
qed

text \<open>A configuration for the concrete instances: one credential, a server that answers every request with the
  same response.\<close>

definition demo_dispatch :: "send_outcome \<Rightarrow> unit http_dispatch" where
  "demo_dispatch reply = \<lparr>hd_registry = register_all, allow_insecure = False, responses_var = None,
     url_parse = (\<lambda>_. None), json_read = (\<lambda>_. None), json_write = (\<lambda>_. []), json_error = (\<lambda>s. s),
     hd_world = \<lparr>hw_cancelled = (\<lambda>_. False), pool_for = (\<lambda>e _ _. (e, Inr (demo_pool FillFirst))),
       clock_ms = (\<lambda>e. (e, 1000)), decrypt = (\<lambda>e _ _. (e, Inr [])), send = (\<lambda>e _. (e, reply)),
       persist_transitions = (\<lambda>e _ _ _. e), sleep_ms = (\<lambda>e _. (e, False)), http_date = (\<lambda>_ _. None)\<rparr>\<rparr>"

definition demo_request :: dispatch_request where
  "demo_request = \<lparr>dr_messages = [], dr_tools = [], dr_params = \<lparr>temperature = None, max_tokens = None,
     response_format = None, stream = False, server_tools = [], rp_reasoning = None, session_id = None\<rparr>, dr_tenant = 0\<rparr>"

definition demo_state :: "unit dispatch_state" where
  "demo_state = \<lparr>ds_env = (), ds_chain = chain_new [(str ''openai'', str ''gpt-4o'', ChatCompletions)],
     ds_attempts = 1, ds_last_err = cancelled_error\<rparr>"

theorem terminal_auth_kills_witness:
  "\<exists>pool' c'. handle_error (demo_dispatch SendCancelled) demo_request (str ''openai'') (demo_pool FillFirst) 1000 (str ''k1'')
       demo_state 401 (str ''token_revoked'') None =
      ([Persisted (str ''openai'') pool'], give_up (persisted (demo_dispatch SendCancelled) demo_request (str ''openai'') pool'
         (demo_state\<lparr>ds_last_err := Status 401 (str ''token_revoked'')\<rparr>)) (Status 401 (str ''token_revoked'')))
    \<and> find_hint pool' (str ''k1'') = Some c' \<and> status c' = Dead \<and> cred_id c' = 1"
proof -
  have "find_hint (demo_pool FillFirst) (str ''k1'') = Some (demo_cred 1 ''k1'' 5 CredOk)" by code_simp
  moreover have "extract_message (\<lambda>_. None) (Status 401 (str ''token_revoked'')) = str ''token_revoked''" by code_simp
  then have "contains_any (extract_message (json_read (demo_dispatch SendCancelled)) (Status 401 (str ''token_revoked''))) TERMINAL_AUTH"
    by (simp add: demo_dispatch_def) code_simp
  ultimately show ?thesis
    using terminal_auth_kills [of "demo_pool FillFirst" "str ''k1''" "demo_cred 1 ''k1'' 5 CredOk" "demo_dispatch SendCancelled"
      401 "str ''token_revoked''" demo_request "str ''openai''" 1000 demo_state None]
    by (simp add: demo_cred_def)
qed

text \<open>Further: A huge \<open>Retry-After\<close> disables the cooldown. The header is saturated to the largest 64-bit value, but
  the loop adds the clock to it without saturation, so the sum wraps to a negative instant and the rate-limited credential
  is eligible at once: the loop retries the same provider, and the pool would select the credential again.\<close>

theorem retry_after_overflow:
  assumes "0 < now" "in_i64 (now + MAX_COOLDOWN_MS)" "find_hint pool h = Some c" "lease_ok pool c"
    and "decide_action (classify (json_read d) (Status code body)
          \<lparr>cc_provider = provider, retry_after_ms = parse_retry_after_ms dates (str ''9223372036854776'')\<rparr>) = Rotate"
  shows "\<exists>pool' c'. handle_error d req provider pool now h st code body (parse_retry_after_ms dates (str ''9223372036854776'')) =
      ([Persisted provider pool'], Inr (persisted d req provider pool' (st\<lparr>ds_last_err := Status code body\<rparr>)))
    \<and> find_hint pool' h = Some c' \<and> cred_id c' = cred_id c \<and> eligible pool' c' now"
proof -
  have "parse_i64 (trim (str ''9223372036854776'')) = Some 9223372036854776" by code_simp
  then have hdr: "parse_retry_after_ms dates (str ''9223372036854776'') = Some i64_max"
    by (simp add: parse_retry_after_ms_def sat_i64_def i64_max_def i64_min_def)
  let ?ctx = "\<lparr>cc_provider = provider, retry_after_ms = Some i64_max\<rparr>"
  let ?reset = "Some (wrap_i64 (now + i64_max))"
  have reset: "reset_at_ms (classify (json_read d) (Status code body) ?ctx) = Some i64_max" by simp
  have now: "now \<le> i64_max" using assms(2) by (simp add: in_i64_def MAX_COOLDOWN_MS_def)
  have "wrap_i64 (now + i64_max) = now + i64_max - 2 ^ 64"
  proof -
    have "(18446744073709551616 + (now - 1)) mod 18446744073709551616 = now - 1"
      using assms(1) now by (subst mod_add_self1) (simp add: i64_max_def mod_pos_pos_trivial)
    then show ?thesis by (simp add: wrap_i64_def i64_max_def algebra_simps)
  qed
  then have neg: "wrap_i64 (now + i64_max) < now" by (simp add: i64_max_def)
  let ?q = "mark_exhausted code ?reset (Some h) now pool"
  let ?c = "c\<lparr>status := Exhausted (cooldown_until code ?reset now), last_error_code := Some code\<rparr>"
  have c: "find_hint ?q h = Some ?c" using assms(3) by (simp add: find_mark_exhausted)
  have "cooldown_until code ?reset now \<le> now" using neg by (simp add: cooldown_until_def)
  then have el: "eligible ?q ?c now"
    using assms(4) by (simp add: eligible_def status_ok_def lease_ok_def mark_exhausted_frame)
  obtain pool' nxt where sel: "select ?q now = (pool', nxt)" by fastforce
  have "nxt \<noteq> None" using select_complete [of ?q now] find_hint_in [OF c] el sel by auto
  moreover have "entries pool' = entries ?q" "leases pool' = leases ?q"
    "max_concurrent_per_credential pool' = max_concurrent_per_credential ?q"
    using select_entries [of ?q now] select_frame [of ?q now] sel by simp_all
  then have "find_hint pool' h = Some ?c" "eligible pool' ?c now"
    using c el by (simp_all add: find_hint_def eligible_def lease_ok_def)
  ultimately show ?thesis
    using assms(5) sel reset
    by (intro exI [of _ pool'] exI [of _ ?c]) (simp add: handle_error_def Let_def hdr mark_exhausted_and_rotate_def)
qed

theorem retry_after_overflow_witness:
  "\<exists>pool' c'. handle_error (demo_dispatch SendCancelled) demo_request (str ''openai'') (demo_pool FillFirst) 1000 (str ''k1'')
       demo_state 401 [] (parse_retry_after_ms (\<lambda>_. None) (str ''9223372036854776'')) =
      ([Persisted (str ''openai'') pool'], Inr (persisted (demo_dispatch SendCancelled) demo_request (str ''openai'') pool'
         (demo_state\<lparr>ds_last_err := Status 401 []\<rparr>)))
    \<and> find_hint pool' (str ''k1'') = Some c' \<and> cred_id c' = 1 \<and> eligible pool' c' 1000"
proof -
  have "find_hint (demo_pool FillFirst) (str ''k1'') = Some (demo_cred 1 ''k1'' 5 CredOk)" by code_simp
  moreover have "classify_reason (Status 401 []) (Some 401) (extract_message (\<lambda>_. None) (Status 401 [])) = Auth" by code_simp
  moreover have "lease_ok (demo_pool FillFirst) (demo_cred 1 ''k1'' 5 CredOk)" by code_simp
  moreover have "in_i64 (1000 + MAX_COOLDOWN_MS)" by code_simp
  ultimately show ?thesis
    using retry_after_overflow [of 1000 "demo_pool FillFirst" "str ''k1''" "demo_cred 1 ''k1'' 5 CredOk" "demo_dispatch SendCancelled"
      401 "[]" "str ''openai''" "\<lambda>_. None" demo_request demo_state]
    by (simp add: demo_cred_def decide_classify demo_dispatch_def)
qed

text \<open>Further: The endpoints of the seven registered profiles. Every profile reaches a \<open>/v1/\<close> path; Gemini's
  compatibility base URL, which is already versioned, gets a second version segment, so it differs from the URL
  the speech-to-text client derives from the same base URL.\<close>

theorem profile_endpoints:
  "map (\<lambda>p. versioned_base_url (base_url p) (endpoint_for (pf_api_mode p)))
     [openai_profile, anthropic_profile, gemini_profile, deepseek_profile, kimi_profile, qwen_profile, openrouter_profile]
   = map str [''https://api.openai.com/v1/chat/completions'', ''https://api.anthropic.com/v1/messages'',
       ''https://generativelanguage.googleapis.com/v1beta/openai/v1/chat/completions'',
       ''https://api.deepseek.com/v1/chat/completions'', ''https://api.moonshot.cn/v1/chat/completions'',
       ''https://dashscope.aliyuncs.com/compatible-mode/v1/chat/completions'', ''https://openrouter.ai/api/v1/chat/completions'']"
  by code_simp

end
