(* ===== verification/Harness.thy ===== *)
theory Harness
  imports Turn Dispatch
begin

text \<open>
  The composition in production: the turn loop of \<open>turn.rs\<close> (\<open>Harness::with_dispatch\<close>) over the
  provider dispatch of \<open>dispatch_http.rs\<close>. The world of the turn is the world of the dispatch, the
  fallback chain that the dispatch keeps across calls, and the trace of what it did; the cancellation token is
  shared. A panic inside the dispatch ends the turn, here as a transport error.
\<close>

record 'e harness_env =
  he_env :: 'e
  he_chain :: fallback_chain
  he_trace :: "dispatch_event list"

definition lift_guard :: "('e \<Rightarrow> 'e \<times> rstr option) \<Rightarrow> 'e harness_env \<Rightarrow> 'e harness_env \<times> rstr option" where
  "lift_guard guard h = (case guard (he_env h) of (e, r) \<Rightarrow> (h\<lparr>he_env := e\<rparr>, r))"

definition lift_tool :: "'e tool_exec \<Rightarrow> 'e harness_env tool_exec" where
  "lift_tool ex h name args = (case ex (he_env h) name args of (e, r) \<Rightarrow> (h\<lparr>he_env := e\<rparr>, r))"

definition harness_complete :: "'e http_dispatch \<Rightarrow> 'e harness_env \<Rightarrow> dispatch_request \<Rightarrow>
    'e harness_env \<times> (api_error + normalized_response)" where
  "harness_complete d h req =
     (case http_complete d (he_env h, he_chain h) req of (evs, st, out) \<Rightarrow>
        (\<lparr>he_env = ds_env st, he_chain = ds_chain st, he_trace = he_trace h @ evs\<rparr>,
         the_or (Inl (Transport (str ''panicked''))) out))"

definition harness_ctx :: "'e http_dispatch \<Rightarrow> 'e turn_ctx \<Rightarrow> 'e harness_env turn_ctx" where
  "harness_ctx d c = \<lparr>history = history c, ctx_budget = ctx_budget c, ctx_params = ctx_params c,
     ctx_tools = \<lparr>defs = defs (ctx_tools c), exec = map_option lift_tool (exec (ctx_tools c))\<rparr>,
     ctx_tenant = ctx_tenant c, has_sink = has_sink c,
     world = \<lparr>is_cancelled = (\<lambda>h. hw_cancelled (hd_world d) (he_env h)),
       check_before_call = lift_guard (check_before_call (world c)), complete = harness_complete d\<rparr>\<rparr>"

definition harness_start :: "'e \<Rightarrow> fallback_chain \<Rightarrow> 'e harness_env" where
  "harness_start env chain = \<lparr>he_env = env, he_chain = chain, he_trace = []\<rparr>"

definition sends :: "'e harness_env \<Rightarrow> nat" where
  "sends h = length (filter is_sent (he_trace h))"

text \<open>A meter that reads zero exactly while the trace is clean: the chain keeps the links it had and everything
  sent so far was justified.\<close>

definition dirt :: "'e http_dispatch \<Rightarrow> link list \<Rightarrow> 'e harness_env \<Rightarrow> nat" where
  "dirt d ls h = (if links (he_chain h) = ls \<and> list_all (sent_ok d ls) (he_trace h) then 0 else 1)"

lemma guard_lifted: "he_trace (fst (lift_guard g h)) = he_trace h" "he_chain (fst (lift_guard g h)) = he_chain h"
  by (simp_all add: lift_guard_def split: prod.split)

lemma tool_lifted: "he_trace (fst (lift_tool ex h n a)) = he_trace h" "he_chain (fst (lift_tool ex h n a)) = he_chain h"
  by (simp_all add: lift_tool_def split: prod.split)

lemma harness_complete_trace:
  "\<exists>evs. he_trace (fst (harness_complete d h req)) = he_trace h @ evs
    \<and> length (filter is_sent evs) \<le> 16 \<and> list_all (sent_ok d (links (he_chain h))) evs
    \<and> links (he_chain (fst (harness_complete d h req))) = links (he_chain h)"
  using http_complete_events [of d "(he_env h, he_chain h)" req]
  by (auto simp: harness_complete_def chain_le_def split: prod.splits)

interpretation send_count: turn_meter "harness_ctx d c" sends 16 for d :: "'e http_dispatch" and c
proof
  fix h :: "'e harness_env" and req ex n a
  show "sends (fst (check_before_call (world (harness_ctx d c)) h)) \<le> sends h"
    by (simp add: harness_ctx_def sends_def guard_lifted)
  show "sends (fst (complete (world (harness_ctx d c)) h req)) \<le> sends h + 16"
    using harness_complete_trace [of d h req] by (auto simp: harness_ctx_def sends_def)
  assume "exec (ctx_tools (harness_ctx d c)) = Some ex"
  then show "sends (fst (ex h n a)) \<le> sends h"
    by (auto simp: harness_ctx_def sends_def tool_lifted)
qed

interpretation clean: turn_meter "harness_ctx d c" "dirt d ls" 0 for d :: "'e http_dispatch" and c and ls
proof
  fix h :: "'e harness_env" and req ex n a
  show "dirt d ls (fst (check_before_call (world (harness_ctx d c)) h)) \<le> dirt d ls h"
    by (simp add: harness_ctx_def dirt_def guard_lifted)
  show "dirt d ls (fst (complete (world (harness_ctx d c)) h req)) \<le> dirt d ls h + 0"
    using harness_complete_trace [of d h req] by (auto simp: harness_ctx_def dirt_def)
  assume "exec (ctx_tools (harness_ctx d c)) = Some ex"
  then show "dirt d ls (fst (ex h n a)) \<le> dirt d ls h"
    by (auto simp: harness_ctx_def dirt_def tool_lifted)
qed

text \<open>C1: Spend of a production turn. Over the real dispatch, a turn sends at most \<open>16 * (max_rounds + 1)\<close>
  requests to providers, whatever they answer, and every one of them is justified: a provider of the chain, an
  eligible credential, a base URL that passed the egress check.\<close>

theorem production_turn_sends:
  "sends (fst (snd (run_turn (harness_ctx d c) (harness_start env chain)))) \<le> 16 * (unat (max_rounds (ctx_budget c)) + 1)
   \<and> list_all (sent_ok d (links chain)) (he_trace (fst (snd (run_turn (harness_ctx d c) (harness_start env chain)))))"
proof -
  have budget: "ctx_budget (harness_ctx d c) = ctx_budget c" by (simp add: harness_ctx_def)
  have "dirt d (links chain) (harness_start env chain) = 0" by (simp add: dirt_def harness_start_def)
  then have "dirt d (links chain) (fst (snd (run_turn (harness_ctx d c) (harness_start env chain)))) = 0"
    using clean.turn_meter [of d "links chain" c "harness_start env chain"] by simp
  then show ?thesis
    using send_count.turn_meter [of d c "harness_start env chain"]
    by (auto simp: budget sends_def harness_start_def dirt_def split: if_splits)
qed

end
