(* ===== verification/Sse.thy ===== *)
theory Sse
  imports Utf8
begin

text \<open>
  \<open>http/src/sse.rs\<close>: a stream of byte chunks is cut into server-sent-event frames at blank lines. A
  stream is the list of what it yields; a chunk is bytes or the reader's error. The cut does not depend on
  how the bytes are chunked as long as every chunk holds whole characters; the decoder runs chunk by chunk, so a character
  split over two chunks is lost.
\<close>

definition MAX_SSE_BUFFER :: nat where
  "MAX_SSE_BUFFER = 10 * 1024 * 1024"

record sse_frame =
  event :: "rstr option"
  data :: rstr

datatype sse_error = Overflow | Io rstr

fun sse_error_display :: "sse_error \<Rightarrow> rstr" where
  "sse_error_display Overflow = str ''sse buffer overflow''"
| "sse_error_display (Io e) = str ''sse io: '' @ e"

type_synonym chunk = "rstr + nat list"

section \<open>Frames\<close>

definition frame_line :: "rstr option \<times> rstr list \<Rightarrow> rstr \<Rightarrow> rstr option \<times> rstr list" where
  "frame_line acc line =
     (case strip_prefix_str line (str ''data:'') of
        Some v \<Rightarrow> (fst acc, snd acc @ [trim_start v])
      | None \<Rightarrow> (case strip_prefix_str line (str ''event:'') of
          Some v \<Rightarrow> (Some (trim v), snd acc)
        | None \<Rightarrow> acc))"

definition parse_frame :: "rstr \<Rightarrow> sse_frame option" where
  "parse_frame raw =
     (case foldl frame_line (None, []) (lines raw) of (ev, data_lines) \<Rightarrow>
        if data_lines = [] \<and> ev = None then None
        else Some \<lparr>event = ev, data = join nl data_lines\<rparr>)"

definition blank_line :: rstr where
  "blank_line = [10, 10]"

definition frame_out :: "rstr \<Rightarrow> (sse_error + sse_frame) list" where
  "frame_out raw = (case parse_frame raw of Some f \<Rightarrow> [Inr f] | None \<Rightarrow> [])"

text \<open>The inner loop: yield the frames that the buffer completes and keep the rest.\<close>

function drain_frames :: "rstr \<Rightarrow> (sse_error + sse_frame) list \<times> rstr" where
  "drain_frames buf =
     (case find_str blank_line buf of
        None \<Rightarrow> ([], buf)
      | Some i \<Rightarrow> (case drain_frames (drop (i + 2) buf) of (fs, rest) \<Rightarrow> (frame_out (take i buf) @ fs, rest)))"
  by pat_completeness auto
termination
  by (relation "measure length")
    (auto simp: blank_line_def dest!: find_str_Some_split)

declare drain_frames.simps [simp del]

fun sse_run :: "rstr \<Rightarrow> chunk list \<Rightarrow> (sse_error + sse_frame) list" where
  "sse_run buf [] = (if trim buf \<noteq> [] then frame_out (trim buf) else [])"
| "sse_run buf (Inl e # cs) = [Inl (Io e)]"
| "sse_run buf (Inr bytes # cs) =
     (let b = buf @ from_utf8_lossy bytes in
      if utf8_len b > MAX_SSE_BUFFER then [Inl Overflow]
      else (case drain_frames b of (fs, rest) \<Rightarrow> fs @ sse_run rest cs))"

definition sse_frames :: "chunk list \<Rightarrow> (sse_error + sse_frame) list" where
  "sse_frames chunks = sse_run [] chunks"

section \<open>Chunking\<close>

lemma find_str_extend: "find_str p s = Some i \<Longrightarrow> find_str p (s @ t) = Some i"
proof (induction s arbitrary: i)
  case Nil
  then show ?case by (cases t) (auto split: if_splits)
next
  case (Cons c s)
  show ?case
  proof (cases "prefix p (c # s)")
    case True
    then have "prefix p ((c # s) @ t)" by (rule prefix_prefix)
    with Cons(2) True show ?thesis by simp
  next
    case False
    with Cons(2) obtain j where j: "find_str p s = Some j" "i = Suc j" by auto
    then have "length p \<le> length (c # s)" using find_str_Some_split [OF j(1)] by simp
    then have "\<not> prefix p (c # s @ t)"
      using False prefix_length_prefix [of p "c # s @ t" "c # s"] by auto
    with Cons(1) [OF j(1)] j(2) show ?thesis by simp
  qed
qed

lemma drain_Some:
  "find_str blank_line buf = Some i \<Longrightarrow> drain_frames buf =
     (frame_out (take i buf) @ fst (drain_frames (drop (i + 2) buf)), snd (drain_frames (drop (i + 2) buf)))"
  by (subst drain_frames.simps) (simp split: prod.split)

lemma drain_None: "find_str blank_line buf = None \<Longrightarrow> drain_frames buf = ([], buf)"
  by (subst drain_frames.simps) simp

lemma drain_rest: "find_str blank_line (snd (drain_frames buf)) = None"
proof (induction buf rule: drain_frames.induct)
  case (1 buf)
  show ?case
  proof (cases "find_str blank_line buf")
    case None
    then show ?thesis by (simp add: drain_None)
  next
    case (Some i)
    then show ?thesis using 1 [OF Some] by (simp add: drain_Some [OF Some])
  qed
qed

lemma drain_append:
  "drain_frames (a @ b) =
     (fst (drain_frames a) @ fst (drain_frames (snd (drain_frames a) @ b)), snd (drain_frames (snd (drain_frames a) @ b)))"
proof (induction a rule: drain_frames.induct)
  case (1 a)
  show ?case
  proof (cases "find_str blank_line a")
    case None
    then show ?thesis by (simp add: drain_None)
  next
    case (Some i)
    have le: "i + 2 \<le> length a" using find_str_Some_split [OF Some] by (simp add: blank_line_def)
    have "drain_frames (a @ b) =
      (frame_out (take i a) @ fst (drain_frames (drop (i + 2) a @ b)), snd (drain_frames (drop (i + 2) a @ b)))"
      using drain_Some [OF find_str_extend [OF Some, of b]] le by simp
    moreover have "drain_frames a =
      (frame_out (take i a) @ fst (drain_frames (drop (i + 2) a)), snd (drain_frames (drop (i + 2) a)))"
      by (rule drain_Some [OF Some])
    ultimately show ?thesis using 1 [OF Some] by simp
  qed
qed

lemma drain_length: "utf8_len (snd (drain_frames buf)) \<le> utf8_len buf"
proof (induction buf rule: drain_frames.induct)
  case (1 buf)
  have drop: "utf8_len (drop n s) \<le> utf8_len s" for n s
  proof -
    have "utf8_len s = utf8_len (take n s) + utf8_len (drop n s)"
      by (metis append_take_drop_id map_append sum_list_append utf8_len_def)
    then show ?thesis by simp
  qed
  show ?case
  proof (cases "find_str blank_line buf")
    case None
    then show ?thesis by (simp add: drain_None)
  next
    case (Some i)
    have "snd (drain_frames buf) = snd (drain_frames (drop (i + 2) buf))"
      by (simp add: drain_Some [OF Some])
    with 1 [OF Some] drop [of "i + 2" buf] show ?thesis by simp
  qed
qed

definition whole_chunks :: "rstr list \<Rightarrow> chunk list" where
  "whole_chunks ss = map (\<lambda>s. Inr (as_bytes s)) ss"

lemma utf8_len_append: "utf8_len (a @ b) = utf8_len a + utf8_len b"
  by (simp add: utf8_len_def)

lemma sse_run_whole:
  "list_all (list_all is_scalar) ss \<Longrightarrow> utf8_len (buf @ concat ss) \<le> MAX_SSE_BUFFER \<Longrightarrow> find_str blank_line buf = None \<Longrightarrow>
   sse_run buf (whole_chunks ss) = fst (drain_frames (buf @ concat ss)) @ sse_run (snd (drain_frames (buf @ concat ss))) []"
proof (induction ss arbitrary: buf)
  case Nil
  then show ?case by (simp add: whole_chunks_def drain_None)
next
  case (Cons s ss)
  let ?d = "drain_frames (buf @ s)"
  have dec: "from_utf8_lossy (as_bytes s) = s" using lossy_as_bytes [of s "[]"] Cons(2) by simp
  have len: "utf8_len (buf @ s) \<le> MAX_SSE_BUFFER" using Cons(3) by (simp add: utf8_len_append)
  have "utf8_len (snd ?d @ concat ss) \<le> MAX_SSE_BUFFER"
    using Cons(3) drain_length [of "buf @ s"] by (simp add: utf8_len_append)
  with Cons(1) [of "snd ?d"] Cons(2) drain_rest
  have "sse_run (snd ?d) (whole_chunks ss) =
    fst (drain_frames (snd ?d @ concat ss)) @ sse_run (snd (drain_frames (snd ?d @ concat ss))) []" by simp
  moreover have "sse_run buf (whole_chunks (s # ss)) = fst ?d @ sse_run (snd ?d) (whole_chunks ss)"
    using len by (simp add: whole_chunks_def dec not_less split: prod.split)
  moreover have "drain_frames (buf @ concat (s # ss)) =
    (fst ?d @ fst (drain_frames (snd ?d @ concat ss)), snd (drain_frames (snd ?d @ concat ss)))"
    using drain_append [of "buf @ s" "concat ss"] by simp
  ultimately show ?case by simp
qed

section \<open>Properties\<close>

text \<open>Further: Framing does not depend on the chunking. For a text of whole characters within the buffer cap, any
  way of cutting it into chunks at character boundaries yields the frames of the text in one chunk.\<close>

theorem sse_chunking:
  assumes "list_all (list_all is_scalar) ss" "utf8_len (concat ss) \<le> MAX_SSE_BUFFER"
  shows "sse_frames (whole_chunks ss) = sse_frames (whole_chunks [concat ss])"
proof -
  have nil: "find_str blank_line [] = None" by (simp add: blank_line_def)
  have "list_all (list_all is_scalar) [concat ss]" using assms(1) by (auto simp: list_all_iff)
  with assms nil show ?thesis
    unfolding sse_frames_def by (simp add: sse_run_whole)
qed

theorem sse_chunking_witness:
  "sse_frames (whole_chunks [str ''data: a'', [10], [10, 100], str ''ata: b''])
     = sse_frames (whole_chunks [str ''data: a'' @ [10, 10] @ str ''data: b''])"
  using sse_chunking [of "[str ''data: a'', [10], [10, 100], str ''ata: b'']"]
  by (simp add: str_eval is_scalar_def utf8_len_def utf8_width_def MAX_SSE_BUFFER_def)

text \<open>Further: A character split over two chunks is lost: each chunk is decoded on its own, so both halves become
  replacement characters, although the same bytes in one chunk decode.\<close>

theorem sse_split_character:
  "sse_frames [Inr [100, 97, 116, 97, 58, 195], Inr [169, 10, 10]] = [Inr \<lparr>event = None, data = [65533, 65533]\<rparr>]
   \<and> sse_frames [Inr [100, 97, 116, 97, 58, 195, 169, 10, 10]] = [Inr \<lparr>event = None, data = [233]\<rparr>]"
  by code_simp

end
