(* ===== verification/Streams.thy ===== *)
theory Streams
  imports Sse Transport
begin

text \<open>
  The streaming half of \<open>llm-api\<close>: the forged-wrapper scrub, the three parsers that turn SSE frames
  into the canonical \<open>StreamEvent\<close>s (Chat Completions, Anthropic, Responses) and the watchdog. A parser
  is a step function over its local state; a stream is the list of what it yields. The parsers share the
  contract that content blocks are bracketed, stated as the locale \<open>block_parser\<close>: a step that moves
  between open and closed as its events say, lifted to whole streams.
\<close>

section \<open>Scrubbing forged tool-call wrappers\<close>

definition FORGED :: "rstr list" where
  "FORGED = map str [''[TOOL_CALL]'', ''<tool_call>'', ''</tool_call>'', ''<invoke '', ''<function_calls>'', ''</function_calls>'']"

text \<open>The loop that removes paired bodies.\<close>

function scrub_pairs :: "rstr \<Rightarrow> rstr" where
  "scrub_pairs s =
     (case (find_str (str ''<tool_call>'') s, find_str (str ''</tool_call>'') s) of
        (Some a, Some b) \<Rightarrow> if b > a then scrub_pairs (take a s @ drop (b + 12) s) else s
      | _ \<Rightarrow> s)"
  by pat_completeness auto
termination
  by (relation "measure length") (auto dest!: find_str_Some_split [OF sym])

declare scrub_pairs.simps [simp del]

definition scrub_forged_wrappers :: "rstr \<Rightarrow> rstr" where
  "scrub_forged_wrappers s = foldl (\<lambda>out m. replace out m []) (scrub_pairs s) FORGED"

section \<open>Chat Completions\<close>

type_synonym event_out = "api_error + stream_event"
type_synonym frame_in = "sse_error + sse_frame"

datatype open_block = Closed | OpenText | OpenThinking | OpenTool

text \<open>A \<open>BTreeMap<u64, _>\<close>: an association list in key order.\<close>

fun bt_get :: "(u64 \<times> 'v) list \<Rightarrow> u64 \<Rightarrow> 'v option" where
  "bt_get [] k = None"
| "bt_get ((k', v) # m) k = (if k = k' then Some v else bt_get m k)"

fun bt_insert :: "u64 \<Rightarrow> 'v \<Rightarrow> (u64 \<times> 'v) list \<Rightarrow> (u64 \<times> 'v) list" where
  "bt_insert k v [] = [(k, v)]"
| "bt_insert k v ((k', v') # m) =
     (if k < k' then (k, v) # (k', v') # m else if k = k' then (k, v) # m else (k', v') # bt_insert k v m)"

record tool_entry =
  te_id :: "rstr option"
  te_name :: "rstr option"
  te_args :: rstr

record chat_state =
  cs_open :: open_block
  cs_tools :: "(u64 \<times> tool_entry) list"
  cs_started :: "(u64 \<times> bool) list"
  cs_finish :: "finish_reason option"
  cs_usage :: "canonical_usage option"

definition chat_init :: chat_state where
  "chat_init = \<lparr>cs_open = Closed, cs_tools = [], cs_started = [], cs_finish = None, cs_usage = None\<rparr>"

definition nonempty_str :: "jvalue option \<Rightarrow> rstr option" where
  "nonempty_str v = (case Option.bind v as_str of Some s \<Rightarrow> if s = [] then None else Some s | None \<Rightarrow> None)"

definition chat_thinking :: "jvalue \<Rightarrow> chat_state \<Rightarrow> stream_event list \<times> chat_state" where
  "chat_thinking delta st =
     (case nonempty_str (or_else (jget delta (str ''reasoning_content'')) (jget delta (str ''reasoning''))) of
        Some r \<Rightarrow>
          ((if cs_open st = OpenText then [ContentBlockStop] else [])
             @ (if cs_open st \<noteq> OpenThinking then [ContentBlockStart ThinkingBlock] else [])
             @ [ContentBlockDelta (ThinkingDelta r)],
           st\<lparr>cs_open := OpenThinking\<rparr>)
      | None \<Rightarrow> ([], st))"

definition chat_text :: "jvalue \<Rightarrow> chat_state \<Rightarrow> stream_event list \<times> chat_state" where
  "chat_text delta st =
     (case nonempty_str (jget delta (str ''content'')) of
        Some c \<Rightarrow>
          (let scrubbed = scrub_forged_wrappers c in
           if scrubbed = [] then ([], st)
           else ((if cs_open st = OpenThinking then [ContentBlockStop] else [])
                   @ (if cs_open st \<noteq> OpenText then [ContentBlockStart TextBlock] else [])
                   @ [ContentBlockDelta (TextDelta scrubbed)],
                 st\<lparr>cs_open := OpenText\<rparr>))
      | None \<Rightarrow> ([], st))"

definition tool_fragment :: "tool_entry \<Rightarrow> jvalue \<Rightarrow> tool_entry" where
  "tool_fragment e tc =
     (let fn = jget tc (str ''function'') in
      \<lparr>te_id = or_else (get_str tc ''id'') (te_id e),
       te_name = or_else (Option.bind fn (\<lambda>f. get_str f ''name'')) (te_name e),
       te_args = te_args e @ the_or [] (Option.bind fn (\<lambda>f. get_str f ''arguments''))\<rparr>)"

definition chat_tool :: "stream_event list \<times> chat_state \<Rightarrow> jvalue \<Rightarrow> stream_event list \<times> chat_state" where
  "chat_tool acc tc =
     (case acc of (evs, st) \<Rightarrow>
       (let idx = the_or 0 (Option.bind (jget tc (str ''index'')) as_u64);
            e = tool_fragment (the_or \<lparr>te_id = None, te_name = None, te_args = []\<rparr> (bt_get (cs_tools st) idx)) tc;
            st1 = st\<lparr>cs_tools := bt_insert idx e (cs_tools st)\<rparr>
        in case (the_or False (bt_get (cs_started st) idx), te_name e) of
             (False, Some name) \<Rightarrow>
               (let i = the_or (str ''call_'' @ show_nat (unat idx)) (te_id e) in
                (evs @ (if cs_open st \<noteq> Closed then [ContentBlockStop] else []) @ [ContentBlockStart (ToolUse i name)],
                 st1\<lparr>cs_open := Closed, cs_tools := bt_insert idx (e\<lparr>te_id := Some i\<rparr>) (cs_tools st1),
                    cs_started := bt_insert idx True (cs_started st)\<rparr>))
           | _ \<Rightarrow> (evs, st1)))"

text \<open>One JSON frame.\<close>

definition chat_frame :: "jvalue \<Rightarrow> chat_state \<Rightarrow> stream_event list \<times> chat_state" where
  "chat_frame v st0 =
     (let st1 = (case jget v (str ''usage'') of Some u \<Rightarrow> st0\<lparr>cs_usage := usage_from_chat u\<rparr> | None \<Rightarrow> st0) in
      case Option.bind (jget v (str ''choices'')) (\<lambda>c. jget_idx c 0) of
        None \<Rightarrow> ([], st1)
      | Some choice \<Rightarrow>
          (let delta = the_or JNull (jget choice (str ''delta'')) in
           case chat_thinking delta st1 of (e1, st2) \<Rightarrow>
           case chat_text delta st2 of (e2, st3) \<Rightarrow>
           case foldl chat_tool ([], st3) (the_or [] (Option.bind (jget delta (str ''tool_calls'')) as_array)) of (e3, st4) \<Rightarrow>
             (e1 @ e2 @ e3,
              (case get_str choice ''finish_reason'' of Some fr \<Rightarrow> st4\<lparr>cs_finish := Some (chat_finish fr)\<rparr> | None \<Rightarrow> st4))))"

definition chat_end :: "chat_state \<Rightarrow> stream_event list" where
  "chat_end st =
     map (\<lambda>(_, e). ContentBlockDelta (InputJsonDelta (te_args e))) (filter (\<lambda>(_, e). te_args e \<noteq> []) (cs_tools st))
     @ (if cs_open st \<noteq> Closed \<or> cs_finish st \<noteq> None then [ContentBlockStop] else [])
     @ [MessageDelta (cs_finish st) (cs_usage st), MessageStop]"

fun chat_run :: "from_str \<Rightarrow> chat_state \<Rightarrow> frame_in list \<Rightarrow> event_out list" where
  "chat_run rd st [] = map Inr (chat_end st)"
| "chat_run rd st (Inl e # fs) = [Inl (Transport (sse_error_display e))]"
| "chat_run rd st (Inr f # fs) =
     (if trim (data f) = str ''[DONE]'' then map Inr (chat_end st)
      else (case rd (data f) of
          None \<Rightarrow> chat_run rd st fs
        | Some v \<Rightarrow> (case chat_frame v st of (evs, st') \<Rightarrow> map Inr evs @ chat_run rd st' fs)))"

definition parse_chat_sse :: "from_str \<Rightarrow> frame_in list \<Rightarrow> event_out list" where
  "parse_chat_sse rd frames = Inr MessageStart # chat_run rd chat_init frames"

section \<open>Anthropic\<close>

definition anthropic_block_of :: "jvalue option \<Rightarrow> block" where
  "anthropic_block_of cb =
     (let field = (\<lambda>k. Option.bind cb (\<lambda>c. get_str c k)); ty = the_or (str ''text'') (field ''type'') in
      if ty = str ''thinking'' then ThinkingBlock
      else if ty = str ''tool_use'' then ToolUse (the_or (str ''toolu_0'') (field ''id'')) (the_or [] (field ''name''))
      else TextBlock)"

definition anthropic_delta_of :: "jvalue option \<Rightarrow> delta option" where
  "anthropic_delta_of d =
     (let field = (\<lambda>k. Option.bind d (\<lambda>x. get_str x k)); ty = the_or [] (field ''type'') in
      if ty = str ''text_delta'' then map_option TextDelta (field ''text'')
      else if ty = str ''thinking_delta'' then map_option ThinkingDelta (field ''thinking'')
      else if ty = str ''input_json_delta'' then map_option InputJsonDelta (field ''partial_json'')
      else None)"

definition start_once :: "bool \<Rightarrow> stream_event list" where
  "start_once started = (if started then [] else [MessageStart])"

definition anthropic_frame :: "rstr \<Rightarrow> jvalue \<Rightarrow> bool \<Rightarrow> stream_event list \<times> bool" where
  "anthropic_frame kind v started =
     (if kind = str ''message_start'' then (start_once started, True)
      else if kind = str ''content_block_start''
        then (start_once started @ [ContentBlockStart (anthropic_block_of (jget v (str ''content_block'')))], True)
      else if kind = str ''content_block_delta''
        then ((case anthropic_delta_of (jget v (str ''delta'')) of Some d \<Rightarrow> [ContentBlockDelta d] | None \<Rightarrow> []), started)
      else if kind = str ''content_block_stop'' then ([ContentBlockStop], started)
      else if kind = str ''message_delta''
        then ([MessageDelta (map_option anthropic_finish (Option.bind (jget v (str ''delta'')) (\<lambda>d. get_str d ''stop_reason'')))
                 (Option.bind (jget v (str ''usage'')) usage_from_anthropic)], started)
      else if kind = str ''message_stop'' then ([MessageStop], started)
      else ([], started))"

fun anthropic_run :: "from_str \<Rightarrow> bool \<Rightarrow> frame_in list \<Rightarrow> event_out list" where
  "anthropic_run rd started [] = []"
| "anthropic_run rd started (Inl e # fs) = [Inl (Transport (sse_error_display e))]"
| "anthropic_run rd started (Inr f # fs) =
     (case anthropic_frame (the_or [] (event f)) (the_or JNull (rd (data f))) started of
        (evs, started') \<Rightarrow> map Inr evs @ anthropic_run rd started' fs)"

definition parse_anthropic_sse :: "from_str \<Rightarrow> frame_in list \<Rightarrow> event_out list" where
  "parse_anthropic_sse rd frames = anthropic_run rd False frames"

section \<open>Responses\<close>

record resp_state =
  rs_started :: bool
  rs_open :: open_block
  rs_saw_call :: bool

definition map_incomplete :: "rstr \<Rightarrow> finish_reason" where
  "map_incomplete why = (if why = str ''max_output_tokens'' then Length
     else if why = str ''content_filter'' then ContentFilter else Stop)"

definition output_has_function_call :: "jvalue \<Rightarrow> bool" where
  "output_has_function_call resp = list_ex (\<lambda>i. get_str i ''type'' = Some (str ''function_call''))
     (the_or [] (Option.bind (jget resp (str ''output'')) as_array))"

definition close_open :: "resp_state \<Rightarrow> stream_event list" where
  "close_open st = (if rs_open st \<noteq> Closed then [ContentBlockStop] else [])"

text \<open>Open a block of the given kind unless it is the one that is open.\<close>

definition ensure_open :: "open_block \<Rightarrow> block \<Rightarrow> resp_state \<Rightarrow> stream_event list \<times> resp_state" where
  "ensure_open kind b st =
     (if rs_open st \<noteq> kind then (close_open st @ [ContentBlockStart b], st\<lparr>rs_open := kind\<rparr>) else ([], st))"

definition delta_of :: "(rstr \<Rightarrow> delta) \<Rightarrow> jvalue \<Rightarrow> stream_event list" where
  "delta_of mk v = (case get_str v ''delta'' of Some d \<Rightarrow> [ContentBlockDelta (mk d)] | None \<Rightarrow> [])"

definition responses_item_added :: "jvalue option \<Rightarrow> resp_state \<Rightarrow> stream_event list \<times> resp_state" where
  "responses_item_added item st =
     (let field = (\<lambda>k. the_or [] (Option.bind item (\<lambda>i. get_str i k))) in
      if field ''type'' = str ''function_call''
        then (close_open st @ [ContentBlockStart (ToolUse (field ''call_id'') (field ''name''))],
              st\<lparr>rs_saw_call := True, rs_open := OpenTool\<rparr>)
      else if field ''type'' = str ''reasoning''
        then (close_open st @ [ContentBlockStart ThinkingBlock], st\<lparr>rs_open := OpenThinking\<rparr>)
      else ([], st))"

definition responses_done :: "rstr \<Rightarrow> jvalue \<Rightarrow> resp_state \<Rightarrow> stream_event list \<times> resp_state" where
  "responses_done kind v st =
     (let resp = the_or JNull (jget v (str ''response''));
          stop = (if kind = str ''response.incomplete''
            then map_incomplete (the_or [] (Option.bind (jget resp (str ''incomplete_details'')) (\<lambda>d. get_str d ''reason'')))
            else if rs_saw_call st \<or> output_has_function_call resp then ToolCalls else Stop)
      in (close_open st @ [MessageDelta (Some stop) (Option.bind (jget resp (str ''usage'')) usage_from_chat), MessageStop],
          st\<lparr>rs_open := Closed\<rparr>))"

definition close_if :: "open_block list \<Rightarrow> resp_state \<Rightarrow> stream_event list \<times> resp_state" where
  "close_if kinds st = (if rs_open st \<in> set kinds then ([ContentBlockStop], st\<lparr>rs_open := Closed\<rparr>) else ([], st))"

text \<open>One frame: its events and the next state, or the message of a terminal error.\<close>

definition responses_frame :: "rstr \<Rightarrow> jvalue \<Rightarrow> resp_state \<Rightarrow> rstr + stream_event list \<times> resp_state" where
  "responses_frame kind v st =
     (if kind = str ''response.created'' then Inr (start_once (rs_started st), st\<lparr>rs_started := True\<rparr>)
      else if kind = str ''response.output_item.added'' then Inr (responses_item_added (jget v (str ''item'')) st)
      else if kind = str ''response.content_part.added''
        then Inr (if Option.bind (jget v (str ''part'')) (\<lambda>p. get_str p ''type'') = Some (str ''output_text'')
                  then ensure_open OpenText TextBlock st else ([], st))
      else if kind = str ''response.output_text.delta''
        then Inr (case ensure_open OpenText TextBlock st of (evs, st') \<Rightarrow> (evs @ delta_of TextDelta v, st'))
      else if kind = str ''response.output_text.done'' then Inr (close_if [OpenText] st)
      else if kind = str ''response.function_call_arguments.delta'' then Inr (delta_of InputJsonDelta v, st)
      else if kind = str ''response.output_item.done'' then Inr (close_if [OpenTool, OpenThinking] st)
      else if kind = str ''response.reasoning_summary_text.delta'' \<or> kind = str ''response.reasoning_text.delta''
        then Inr (case ensure_open OpenThinking ThinkingBlock st of (evs, st') \<Rightarrow> (evs @ delta_of ThinkingDelta v, st'))
      else if kind = str ''response.reasoning_summary_text.done'' then Inr (close_if [OpenThinking] st)
      else if kind = str ''response.completed'' \<or> kind = str ''response.incomplete'' then Inr (responses_done kind v st)
      else if kind = str ''response.failed''
        then Inl (the_or (str ''response failed'') (Option.bind (Option.bind (jget v (str ''response''))
               (\<lambda>r. jget r (str ''error''))) (\<lambda>e. get_str e ''message'')))
      else if kind = str ''error'' then Inl (the_or (str ''stream error'') (get_str v ''message''))
      else Inr ([], st))"

definition responses_kind :: "sse_frame \<Rightarrow> jvalue \<Rightarrow> rstr" where
  "responses_kind f v = (case event f of
       Some s \<Rightarrow> if s \<noteq> [] then s else the_or [] (get_str v ''type'')
     | None \<Rightarrow> the_or [] (get_str v ''type''))"

fun responses_run :: "from_str \<Rightarrow> resp_state \<Rightarrow> frame_in list \<Rightarrow> event_out list" where
  "responses_run rd st [] = []"
| "responses_run rd st (Inl e # fs) = [Inl (Transport (sse_error_display e))]"
| "responses_run rd st (Inr f # fs) =
     (let v = the_or JNull (rd (data f)) in
      case responses_frame (responses_kind f v) v st of
        Inl msg \<Rightarrow> [Inl (Transport msg)]
      | Inr (evs, st') \<Rightarrow> map Inr evs @ responses_run rd st' fs)"

definition parse_responses_sse :: "from_str \<Rightarrow> frame_in list \<Rightarrow> event_out list" where
  "parse_responses_sse rd frames = responses_run rd \<lparr>rs_started = False, rs_open = Closed, rs_saw_call = False\<rparr> frames"

section \<open>The watchdog\<close>

record watchdog_cfg =
  idle_ms :: u64
  ttfb_ms :: u64

datatype poll = Item event_out | Ended | Elapsed

text \<open>Each await is a function of the window it is given.\<close>

fun watchdog_run :: "watchdog_cfg \<Rightarrow> bool \<Rightarrow> (u64 \<Rightarrow> poll) list \<Rightarrow> event_out list" where
  "watchdog_run cfg got_first [] = []"
| "watchdog_run cfg got_first (p # ps) =
     (case p (if got_first then idle_ms cfg else ttfb_ms cfg) of
        Item i \<Rightarrow> i # watchdog_run cfg True ps
      | Ended \<Rightarrow> []
      | Elapsed \<Rightarrow> [Inl (if got_first then StreamIdle (idle_ms cfg) else StreamTtfb (ttfb_ms cfg))])"

definition with_watchdog :: "watchdog_cfg \<Rightarrow> (u64 \<Rightarrow> poll) list \<Rightarrow> event_out list" where
  "with_watchdog cfg polls = watchdog_run cfg False polls"

section \<open>Bracketed streams\<close>

text \<open>The consumer's reading of a stream: a block starts only when none is open, stops only when one is open,
  and none is open when the message stops. \<open>None\<close> is a violation.\<close>

fun bracket :: "bool \<Rightarrow> stream_event \<Rightarrow> bool option" where
  "bracket o' (ContentBlockStart b) = (if o' then None else Some True)"
| "bracket o' ContentBlockStop = (if o' then Some False else None)"
| "bracket o' MessageStop = (if o' then None else Some False)"
| "bracket o' e = Some o'"

fun bracket_run :: "bool \<Rightarrow> stream_event list \<Rightarrow> bool option" where
  "bracket_run o' [] = Some o'"
| "bracket_run o' (e # es) = Option.bind (bracket o' e) (\<lambda>o''. bracket_run o'' es)"

lemma bracket_run_append: "bracket_run o' (xs @ ys) = Option.bind (bracket_run o' xs) (\<lambda>o''. bracket_run o'' ys)"
  by (induction xs arbitrary: o') (auto split: Option.bind_splits)

fun run_steps :: "('s \<Rightarrow> 'i \<Rightarrow> stream_event list \<times> 's) \<Rightarrow> 's \<Rightarrow> 'i list \<Rightarrow> stream_event list \<times> 's" where
  "run_steps step s [] = ([], s)"
| "run_steps step s (i # is) = (case step s i of (evs, s') \<Rightarrow>
     (case run_steps step s' is of (evs', s'') \<Rightarrow> (evs @ evs', s'')))"

lemma run_steps_Cons:
  "run_steps step s (i # is) = (fst (step s i) @ fst (run_steps step (snd (step s i)) is),
     snd (run_steps step (snd (step s i)) is))"
  by (simp split: prod.split)

text \<open>The contract of a parser: each step changes the open state as its events say.\<close>

locale block_parser =
  fixes step :: "'s \<Rightarrow> 'i \<Rightarrow> stream_event list \<times> 's" and is_open :: "'s \<Rightarrow> bool"
  assumes step_brackets: "bracket_run (is_open s) (fst (step s i)) = Some (is_open (snd (step s i)))"
begin

lemma run_brackets: "bracket_run (is_open s) (fst (run_steps step s is)) = Some (is_open (snd (run_steps step s is)))"
proof (induction "is" arbitrary: s)
  case (Cons i "is")
  with step_brackets [of s i] Cons [of "snd (step s i)"] show ?case
    by (simp add: run_steps_Cons bracket_run_append del: run_steps.simps)
qed simp

lemma run_total: "bracket_run (is_open s) (fst (run_steps step s is)) \<noteq> None"
  by (simp add: run_brackets)

end

text \<open>The Responses parser.\<close>

definition responses_step :: "resp_state \<Rightarrow> rstr \<times> jvalue \<Rightarrow> stream_event list \<times> resp_state" where
  "responses_step st i = (case responses_frame (fst i) (snd i) st of Inl _ \<Rightarrow> ([], st) | Inr r \<Rightarrow> r)"

lemma delta_of_brackets [simp]: "bracket_run o' (delta_of mk v) = Some o'"
  by (simp add: delta_of_def split: option.split)

lemma start_once_brackets [simp]: "bracket_run o' (start_once b) = Some o'"
  by (simp add: start_once_def)

lemma ensure_open_brackets:
  "k \<noteq> Closed \<Longrightarrow> bracket_run (rs_open st \<noteq> Closed) (fst (ensure_open k b st)) = Some True \<and> rs_open (snd (ensure_open k b st)) = k"
  by (auto simp: ensure_open_def close_open_def)

interpretation responses_parser: block_parser responses_step "\<lambda>st. rs_open st \<noteq> Closed"
proof
  fix st i
  have eo: "bracket_run (rs_open st \<noteq> Closed) (fst (ensure_open k b st)) = Some True" "rs_open (snd (ensure_open k b st)) = k"
    if "k \<noteq> Closed" for k b using ensure_open_brackets [OF that] by simp_all
  show "bracket_run (rs_open st \<noteq> Closed) (fst (responses_step st i)) = Some (rs_open (snd (responses_step st i)) \<noteq> Closed)"
    using eo [of OpenText TextBlock] eo [of OpenThinking ThinkingBlock]
    by (auto simp: responses_step_def responses_frame_def responses_item_added_def responses_done_def close_if_def close_open_def
        bracket_run_append Let_def split: prod.splits)
qed

definition events_of :: "event_out list \<Rightarrow> stream_event list" where
  "events_of es = List.map_filter (\<lambda>e. case e of Inr x \<Rightarrow> Some x | Inl _ \<Rightarrow> None) es"

lemma events_of_simps [simp]:
  "events_of [] = []" "events_of (Inr x # es) = x # events_of es" "events_of (Inl e # es) = events_of es"
  "events_of (xs @ ys) = events_of xs @ events_of ys" "events_of (map Inr evs) = evs"
  by (auto simp: events_of_def List.map_filter_def comp_def)

lemma responses_run_steps: "\<exists>is. events_of (responses_run rd st frames) = fst (run_steps responses_step st is)"
proof (induction rd st frames rule: responses_run.induct)
  case (1 rd st)
  then show ?case by (intro exI [of _ "[]"]) simp
next
  case (2 rd st e fs)
  then show ?case by (intro exI [of _ "[]"]) simp
next
  case (3 rd st f fs)
  let ?v = "the_or JNull (rd (data f))"
  show ?case
  proof (cases "responses_frame (responses_kind f ?v) ?v st")
    case (Inl msg)
    then show ?thesis by (intro exI [of _ "[]"]) simp
  next
    case (Inr r)
    obtain evs st' where r: "r = (evs, st')" by fastforce
    from 3 [OF refl Inr r [symmetric]] obtain "is" where "events_of (responses_run rd st' fs) = fst (run_steps responses_step st' is)"
      by blast
    moreover have "responses_step st (responses_kind f ?v, ?v) = (evs, st')" using Inr r by (simp add: responses_step_def)
    ultimately show ?thesis using Inr r
      by (intro exI [of _ "(responses_kind f ?v, ?v) # is"]) (simp add: run_steps_Cons del: run_steps.simps)
  qed
qed

section \<open>Properties of the streams\<close>

text \<open>Further: The Responses stream is bracketed. Whatever frames the provider sends, in whatever order and however
  broken, blocks are opened one at a time, closed only when open, and none is open at the end of the
  message.\<close>

theorem responses_bracketed:
  "bracket_run False (events_of (parse_responses_sse rd frames)) \<noteq> None"
proof -
  let ?st = "\<lparr>rs_started = False, rs_open = Closed, rs_saw_call = False\<rparr>"
  obtain "is" where "events_of (responses_run rd ?st frames) = fst (run_steps responses_step ?st is)"
    using responses_run_steps by blast
  then show ?thesis
    using responses_parser.run_total [of ?st "is"] by (simp add: parse_responses_sse_def)
qed

text \<open>A frame with two tool calls.\<close>

definition two_calls :: jvalue where
  "two_calls = jobj [(''choices'', JArray [jobj [(''delta'', jobj [(''tool_calls'', JArray
     [jobj [(''index'', JNumber (PosInt 0)), (''id'', jstr ''a''), (''function'', jobj [(''name'', jstr ''f''), (''arguments'', jstr ''1'')])],
      jobj [(''index'', JNumber (PosInt 1)), (''id'', jstr ''b''), (''function'', jobj [(''name'', jstr ''g''), (''arguments'', jstr ''2'')])]])]),
     (''finish_reason'', jstr ''tool_calls'')]])]"

text \<open>Further: The Chat Completions stream is not. Two tool calls in one response open two blocks, the arguments of
  both follow the second start, and only one block is closed, so a consumer cannot tell which call the arguments belong to; the comment at the open-block tracking says
  the right block is closed before the next is opened.\<close>

theorem chat_tools_unbracketed:
  "events_of (parse_chat_sse (\<lambda>s. Some two_calls) [Inr \<lparr>event = None, data = str ''f''\<rparr>]) =
     [MessageStart, ContentBlockStart (ToolUse (str ''a'') (str ''f'')), ContentBlockStart (ToolUse (str ''b'') (str ''g'')),
      ContentBlockDelta (InputJsonDelta (str ''1'')), ContentBlockDelta (InputJsonDelta (str ''2'')), ContentBlockStop,
      MessageDelta (Some ToolCalls) None, MessageStop]
   \<and> bracket_run False (events_of (parse_chat_sse (\<lambda>s. Some two_calls) [Inr \<lparr>event = None, data = str ''f''\<rparr>])) = None"
  by code_simp

text \<open>Further: The scrub lets a forged wrapper through. Markers are deleted in a single pass, and deleting one can
  put together another, so a nested marker survives although the function is there to remove it.\<close>

theorem scrub_bypass:
  "scrub_forged_wrappers (str ''<tool_<tool_call>call>x'') = str ''<tool_call>x''"
  by code_simp

text \<open>The items of a stream that arrived within their windows.\<close>

fun in_time :: "watchdog_cfg \<Rightarrow> bool \<Rightarrow> event_out list \<Rightarrow> (u64 \<Rightarrow> poll) list \<Rightarrow> bool" where
  "in_time cfg got [] ps = True"
| "in_time cfg got (x # xs) [] = False"
| "in_time cfg got (x # xs) (p # ps) = (p (if got then idle_ms cfg else ttfb_ms cfg) = Item x \<and> in_time cfg True xs ps)"

text \<open>The watchdog forwards what arrives in time; a stall ends the stream with one timeout error, of the
  first-byte kind exactly when nothing had arrived.\<close>

lemma watchdog_run_prefix:
  "\<exists>items rest. watchdog_run cfg got polls = items @ rest \<and> in_time cfg got items polls
     \<and> (rest = [] \<or> rest = [Inl (if got \<or> items \<noteq> [] then StreamIdle (idle_ms cfg) else StreamTtfb (ttfb_ms cfg))])"
proof (induction cfg got polls rule: watchdog_run.induct)
  case (1 cfg got)
  then show ?case by (intro exI [of _ "[]"]) simp
next
  case (2 cfg got p ps)
  show ?case
  proof (cases "p (if got then idle_ms cfg else ttfb_ms cfg)")
    case (Item x)
    from 2 [OF Item] obtain items rest where "watchdog_run cfg True ps = items @ rest" "in_time cfg True items ps"
      "rest = [] \<or> rest = [Inl (StreamIdle (idle_ms cfg))]" by auto
    with Item show ?thesis by (intro exI [of _ "x # items"] exI [of _ rest]) auto
  next
    case Ended
    then show ?thesis by (intro exI [of _ "[]"]) simp
  next
    case Elapsed
    then show ?thesis by (intro exI [of _ "[]"] exI [of _ "watchdog_run cfg got (p # ps)"]) simp
  qed
qed

end
