(* ===== verification/Stream_Hub.thy ===== *)
theory Stream_Hub
  imports Json "HOL-Library.AList" "HOL-Library.Sublist"
begin

text \<open>
  The per-stream event registry of the server: the bounded replay ring (\<open>wire/replay.rs\<close>),
  the \<open>StreamHub\<close> (\<open>wire/hub.rs\<close>) and the reconnect path that joins the replayed
  tail to the live broadcast (\<open>wire/sse.rs\<close>, \<open>wire/routes.rs\<close>). The broadcast channel
  belongs to tokio: its operations are the fields of \<open>broadcast\<close>, a parameter of every hub
  operation. The registry's hash map is an association list with distinct keys; each operation
  takes the lock for its whole body, so an operation is one step.
\<close>

section \<open>Envelopes and the replay ring\<close>

record envelope =
  schema_version :: u32
  thread_id :: uuid
  turn_id :: "uuid option"
  env_seq :: u64
  event :: rstr
  payload :: jvalue

record replay_ring =
  rr_cap :: nat
  rr_buf :: "envelope list"

definition ring_new :: "nat \<Rightarrow> replay_ring" where
  "ring_new cap = \<lparr>rr_cap = cap, rr_buf = []\<rparr>"

definition ring_push :: "envelope \<Rightarrow> replay_ring \<Rightarrow> replay_ring" where
  "ring_push e r = (let kept = if length (rr_buf r) = rr_cap r then tl (rr_buf r) else rr_buf r
     in r\<lparr>rr_buf := kept @ [e]\<rparr>)"

definition ring_since :: "u64 \<Rightarrow> replay_ring \<Rightarrow> envelope list option" where
  "ring_since since r = (let oldest = (case rr_buf r of [] \<Rightarrow> 0 | e # _ \<Rightarrow> env_seq e)
     in if since < oldest then None else Some (filter (\<lambda>e. since \<le> env_seq e) (rr_buf r)))"

section \<open>The registry\<close>

definition REPLAY_RING_CAP :: nat where "REPLAY_RING_CAP = 20"
definition MAX_STREAMS :: nat where "MAX_STREAMS = 10000"

text \<open>\<open>tokio::sync::broadcast\<close>: a fresh channel, \<open>subscribe\<close>, \<open>send\<close> and
  \<open>receiver_count\<close> of a sender, and the sender after one of its receivers was dropped.\<close>

record ('tx, 'rx) broadcast =
  bc_channel :: 'tx
  bc_subscribe :: "'tx \<Rightarrow> 'tx \<times> 'rx"
  bc_send :: "envelope \<Rightarrow> 'tx \<Rightarrow> 'tx"
  bc_receivers :: "'tx \<Rightarrow> nat"
  bc_leave :: "'tx \<Rightarrow> 'tx"

record 'tx stream_entry =
  owner :: uuid
  tx :: 'tx
  ring :: replay_ring
  se_seq :: u64

type_synonym 'tx hub = "(uuid \<times> 'tx stream_entry) list"

definition nil_uuid :: uuid where "nil_uuid = 0"

definition fresh_entry :: "('tx, 'rx) broadcast \<Rightarrow> uuid \<Rightarrow> u64 \<Rightarrow> 'tx stream_entry" where
  "fresh_entry bc own s = \<lparr>owner = own, tx = bc_channel bc, ring = ring_new REPLAY_RING_CAP, se_seq = s\<rparr>"

text \<open>A subscription that is refused gets a receiver whose sender is gone: \<open>None\<close>.\<close>

definition hub_subscribe :: "('tx, 'rx) broadcast \<Rightarrow> uuid \<Rightarrow> uuid \<Rightarrow> 'tx hub \<Rightarrow> 'rx option \<times> 'tx hub" where
  "hub_subscribe bc tenant stream h = (case map_of h stream of
     Some e \<Rightarrow>
       (if owner e = tenant \<or> owner e = nil_uuid
        then (let (t, rx) = bc_subscribe bc (tx e)
              in (Some rx, AList.update stream (e\<lparr>owner := tenant, tx := t\<rparr>) h))
        else (None, h))
   | None \<Rightarrow>
       (let h' = if MAX_STREAMS \<le> length h then filter (\<lambda>(_, e). 0 < bc_receivers bc (tx e)) h else h
        in if MAX_STREAMS \<le> length h' then (None, h')
           else (let e = fresh_entry bc tenant 0; (t, rx) = bc_subscribe bc (tx e)
                 in (Some rx, AList.update stream (e\<lparr>tx := t\<rparr>) h'))))"

definition or_insert :: "uuid \<Rightarrow> 'tx stream_entry \<Rightarrow> 'tx hub \<Rightarrow> 'tx stream_entry" where
  "or_insert k d h = (case map_of h k of Some e \<Rightarrow> e | None \<Rightarrow> d)"

definition hub_next_seq :: "('tx, 'rx) broadcast \<Rightarrow> uuid \<Rightarrow> 'tx hub \<Rightarrow> u64 \<times> 'tx hub" where
  "hub_next_seq bc stream h = (let e = or_insert stream (fresh_entry bc nil_uuid 0) h; s = se_seq e + 1
     in (s, AList.update stream (e\<lparr>se_seq := s\<rparr>) h))"

definition hub_publish :: "('tx, 'rx) broadcast \<Rightarrow> envelope \<Rightarrow> 'tx hub \<Rightarrow> 'tx hub" where
  "hub_publish bc env h = (let e = or_insert (thread_id env) (fresh_entry bc nil_uuid (env_seq env)) h
     in AList.update (thread_id env) (e\<lparr>ring := ring_push env (ring e), tx := bc_send bc env (tx e)\<rparr>) h)"

definition hub_replay_since :: "uuid \<Rightarrow> uuid \<Rightarrow> u64 \<Rightarrow> 'tx hub \<Rightarrow> envelope list option" where
  "hub_replay_since tenant stream since h = (case map_of h stream of
     None \<Rightarrow> None
   | Some e \<Rightarrow> if owner e = tenant \<or> owner e = nil_uuid then ring_since since (ring e) else None)"

definition hub_close :: "uuid \<Rightarrow> 'tx hub \<Rightarrow> 'tx hub" where
  "hub_close stream h = AList.delete stream h"

text \<open>The calls a hub receives, in the order it serves them, and the one change that is not a
  call: a client of a stream disconnects (\<open>HLeave\<close>).\<close>

datatype hub_op =
    HSubscribe (op_tenant: uuid) (op_stream: uuid)
  | HNextSeq uuid
  | HPublish envelope
  | HReplay uuid uuid u64
  | HClose uuid
  | HLeave uuid

definition hub_leave :: "('tx, 'rx) broadcast \<Rightarrow> uuid \<Rightarrow> 'tx hub \<Rightarrow> 'tx hub" where
  "hub_leave bc stream h = (case map_of h stream of
     None \<Rightarrow> h
   | Some e \<Rightarrow> AList.update stream (e\<lparr>tx := bc_leave bc (tx e)\<rparr>) h)"

fun hub_step :: "('tx, 'rx) broadcast \<Rightarrow> hub_op \<Rightarrow> 'tx hub \<Rightarrow> 'tx hub" where
  "hub_step bc (HSubscribe t s) h = snd (hub_subscribe bc t s h)"
| "hub_step bc (HNextSeq s) h = snd (hub_next_seq bc s h)"
| "hub_step bc (HPublish env) h = hub_publish bc env h"
| "hub_step bc (HReplay t s n) h = h"
| "hub_step bc (HClose s) h = hub_close s h"
| "hub_step bc (HLeave s) h = hub_leave bc s h"

definition hub_run :: "('tx, 'rx) broadcast \<Rightarrow> hub_op list \<Rightarrow> 'tx hub \<Rightarrow> 'tx hub" where
  "hub_run bc ops h = fold (hub_step bc) ops h"

section \<open>The reconnect path\<close>

text \<open>What a receiver yields: an event, or that it lagged behind the channel's buffer.\<close>

datatype live_item = Event envelope | Lagged u64

definition sse_with_backfill :: "envelope list \<Rightarrow> live_item list \<Rightarrow> envelope list" where
  "sse_with_backfill backfill live = backfill @ List.map_filter (\<lambda>item. case item of
     Event env \<Rightarrow>
       (if backfill \<noteq> [] \<and> env_seq env \<le> Max (set (map env_seq backfill)) then None else Some env)
   | Lagged _ \<Rightarrow> None) live"

text \<open>\<open>?since_seq=\<close> first, then \<open>Last-Event-ID\<close> plus one; both arrive parsed.\<close>

definition resume_seq :: "u64 option \<Rightarrow> u64 option \<Rightarrow> u64 option" where
  "resume_seq since_param last_event_id = (case since_param of
     Some n \<Rightarrow> Some n
   | None \<Rightarrow> map_option (\<lambda>l. sat_add l 1) last_event_id)"

text \<open>The route takes the hub's lock twice: \<open>between\<close> are the calls of other tasks that
  the hub serves in between. Result: the receiver, the replayed tail, the hub.\<close>

definition subscribe_with_resume ::
  "('tx, 'rx) broadcast \<Rightarrow> hub_op list \<Rightarrow> uuid \<Rightarrow> uuid \<Rightarrow> u64 option \<Rightarrow> 'tx hub
    \<Rightarrow> 'rx option \<times> envelope list \<times> 'tx hub" where
  "subscribe_with_resume bc between tenant stream resume h =
     (let (rx, h1) = hub_subscribe bc tenant stream h; h2 = hub_run bc between h1
      in (rx, (case resume of
           Some since \<Rightarrow> the_or [] (hub_replay_since tenant stream since h2)
         | None \<Rightarrow> []), h2))"

section \<open>The contract of a bounded replay log\<close>

lemma window_snoc:
  assumes "0 < b"
  shows "drop (Suc (length (drop (length xs - b) xs)) - b) (drop (length xs - b) xs @ [e])
    = drop (Suc (length xs) - b) (xs @ [e])"
proof (cases "length xs < b")
  case False
  then have "Suc (length xs) - b = Suc (length xs - b)" "Suc (length xs) - b \<le> length xs"
    using assms by auto
  then show ?thesis
    using False by simp
qed simp

locale bounded_log =
  fixes fresh :: "nat \<Rightarrow> 's" and push :: "'e \<Rightarrow> 's \<Rightarrow> 's" and items :: "'s \<Rightarrow> 'e list"
    and bound :: "'s \<Rightarrow> nat"
  assumes items_fresh: "items (fresh c) = []"
    and bound_fresh: "bound (fresh c) = c"
    and bound_push: "bound (push e s) = bound s"
    and items_push: "0 < bound s \<Longrightarrow> length (items s) \<le> bound s
      \<Longrightarrow> items (push e s) = drop (Suc (length (items s)) - bound s) (items s @ [e])"
begin

lemma bound_pushes [simp]: "bound (fold push es s) = bound s"
  by (induction es arbitrary: s) (simp_all add: bound_push)

lemma items_pushes:
  assumes "0 < bound s" "length (items s) \<le> bound s"
  shows "items (fold push es s) = drop (length (items s @ es) - bound s) (items s @ es)"
  using assms(2)
proof (induction es rule: rev_induct)
  case (snoc e es)
  then have len: "length (items (fold push es s)) \<le> bound s"
    by simp
  have "items (fold push (es @ [e]) s)
      = drop (Suc (length (items (fold push es s))) - bound s) (items (fold push es s) @ [e])"
    using assms(1) len by (simp add: items_push)
  then show ?case
    using window_snoc [OF assms(1), of "items s @ es" e] snoc by (simp only: append_assoc) simp
qed simp

lemma length_pushes: "0 < c \<Longrightarrow> length (items (fold push es (fresh c))) \<le> c"
  using items_pushes [of "fresh c" es] by (simp add: items_fresh bound_fresh)

lemma last_items: "0 < c \<Longrightarrow> items (fold push es (fresh c)) = drop (length es - c) es"
  using items_pushes [of "fresh c" es] by (simp add: items_fresh bound_fresh)

end

locale replay_log = bounded_log fresh push items bound
  for fresh :: "nat \<Rightarrow> 's" and push :: "'e \<Rightarrow> 's \<Rightarrow> 's" and items :: "'s \<Rightarrow> 'e list"
    and bound :: "'s \<Rightarrow> nat" +
  fixes key :: "'e \<Rightarrow> 'k::linorder" and since :: "'k \<Rightarrow> 's \<Rightarrow> 'e list option"
  assumes since_items: "since n s = (if items s \<noteq> [] \<and> n < key (hd (items s)) then None
      else Some (filter (\<lambda>e. n \<le> key e) (items s)))"
begin

lemma since_complete:
  assumes "0 < c" "sorted_wrt (<) (map key es)" "since n (fold push es (fresh c)) = Some l"
  shows "l = filter (\<lambda>e. n \<le> key e) es"
proof (cases "es = []")
  case True
  with assms show ?thesis
    by (simp add: since_items items_fresh)
next
  case False
  let ?k = "length es - c"
  let ?xs = "take ?k es" and ?ys = "drop ?k es"
  have ne: "?ys \<noteq> []"
    using False assms(1) by (simp add: not_le)
  with assms have n: "\<not> n < key (hd ?ys)" and l: "l = filter (\<lambda>e. n \<le> key e) ?ys"
    by (simp_all add: since_items last_items split: if_splits)
  have "sorted_wrt (<) (map key (?xs @ ?ys))"
    using assms(2) by simp
  then have "\<forall>x\<in>set ?xs. key x < key (hd ?ys)"
    using ne by (simp add: sorted_wrt_append del: append_take_drop_id)
  with n have "filter (\<lambda>e. n \<le> key e) ?xs = []"
    by (force simp: filter_empty_conv)
  then have "filter (\<lambda>e. n \<le> key e) (?xs @ ?ys) = l"
    by (simp add: l del: append_take_drop_id)
  then show ?thesis
    by simp
qed

end

lemma ring_bounded_log: "bounded_log ring_new ring_push rr_buf rr_cap"
  by unfold_locales
    (auto simp: ring_new_def ring_push_def Let_def Suc_diff_le drop_Suc neq_Nil_conv)

interpretation rlog: replay_log ring_new ring_push rr_buf rr_cap env_seq ring_since
  by (intro replay_log.intro ring_bounded_log replay_log_axioms.intro)
    (auto simp: ring_since_def Let_def split: list.splits)

section \<open>Facts about the registry\<close>

lemma map_of_update [simp]: "map_of (AList.update k v h) = (map_of h)(k \<mapsto> v)"
  by (rule update_conv')

lemma length_update: "length (AList.update k v h) \<le> Suc (length h)"
  by (induction h) auto

lemma map_of_close [simp]: "map_of (hub_close s h) = (map_of h)(s := None)"
  by (simp add: hub_close_def delete_conv')

lemma map_of_reap:
  "distinct (map fst h) \<Longrightarrow> map_of (filter (\<lambda>(_, e). P e) h) s = (case map_of h s of
     None \<Rightarrow> None | Some e \<Rightarrow> if P e then Some e else None)"
  by (induction h) (auto split: option.splits dest: map_of_SomeD simp: image_iff)

text \<open>Every entry's ring is within its capacity and no stream has two entries.\<close>

definition ring_ok :: "replay_ring \<Rightarrow> bool" where
  "ring_ok r \<longleftrightarrow> rr_cap r = REPLAY_RING_CAP \<and> length (rr_buf r) \<le> REPLAY_RING_CAP"

definition hub_ok :: "'tx hub \<Rightarrow> bool" where
  "hub_ok h \<longleftrightarrow> distinct (map fst h) \<and> list_all (\<lambda>(_, e). ring_ok (ring e)) h"

lemma hub_ok_Nil [simp]: "hub_ok []"
  by (simp add: hub_ok_def)

lemma ring_ok_push: "ring_ok r \<Longrightarrow> ring_ok (ring_push e r)"
  by (auto simp: ring_ok_def ring_push_def Let_def REPLAY_RING_CAP_def)

lemma ring_ok_fresh [simp]: "ring_ok (ring (fresh_entry bc o' s))"
  by (simp add: ring_ok_def fresh_entry_def ring_new_def)

lemma hub_ok_entry: "hub_ok h \<Longrightarrow> map_of h s = Some e \<Longrightarrow> ring_ok (ring e)"
  by (auto simp: hub_ok_def list_all_iff dest: map_of_SomeD)

lemma list_all_update: "list_all P h \<Longrightarrow> P (k, v) \<Longrightarrow> list_all P (AList.update k v h)"
  by (induction h) auto

lemma hub_ok_update: "hub_ok h \<Longrightarrow> ring_ok (ring e) \<Longrightarrow> hub_ok (AList.update k e h)"
  unfolding hub_ok_def by (auto intro: AList.distinct_update list_all_update)

lemma hub_ok_filter: "hub_ok h \<Longrightarrow> hub_ok (filter P h)"
  unfolding hub_ok_def by (auto simp: list_all_iff distinct_map_filter)

lemma or_insert_ok: "hub_ok h \<Longrightarrow> ring_ok (ring (or_insert k (fresh_entry bc o' s) h))"
  by (auto simp: or_insert_def dest: hub_ok_entry split: option.splits)

lemma hub_ok_step: "hub_ok h \<Longrightarrow> hub_ok (hub_step bc op h)"
  by (cases op)
    (auto simp: hub_subscribe_def hub_next_seq_def hub_publish_def hub_leave_def hub_close_def
      AList.delete_eq Let_def intro!: hub_ok_update hub_ok_filter ring_ok_push or_insert_ok
      dest: hub_ok_entry split: option.splits prod.splits)

lemma hub_run_simps [simp]: "hub_run bc [] h = h" "hub_run bc (op # ops) h = hub_run bc ops (hub_step bc op h)"
  by (simp_all add: hub_run_def)

lemma hub_ok_run: "hub_ok h \<Longrightarrow> hub_ok (hub_run bc ops h)"
  by (induction ops arbitrary: h) (auto intro: hub_ok_step)

lemma hub_run_append: "hub_run bc (xs @ ys) h = hub_run bc ys (hub_run bc xs h)"
  by (simp add: hub_run_def)

lemma hub_ok_reachable: "hub_ok (hub_run bc ops [])"
  by (rule hub_ok_run) simp

lemma length_step: "length (hub_step bc op h) \<le> Suc (length h)"
proof (cases op)
  case (HSubscribe t s)
  have "length (AList.update s e (filter P h)) \<le> Suc (length h)" for e P
    using length_update [of s e "filter P h"] length_filter_le [of P h] by linarith
  then show ?thesis
    using HSubscribe by (auto simp: hub_subscribe_def Let_def length_update le_SucI length_filter_le
        split: option.splits prod.splits)
next
  case (HClose s)
  then show ?thesis
    by (simp add: hub_close_def AList.delete_eq le_SucI)
qed (auto simp: hub_next_seq_def hub_publish_def hub_leave_def Let_def length_update split: option.splits)

lemma length_run: "length (hub_run bc ops h) \<le> length h + length ops"
proof (induction ops arbitrary: h)
  case (Cons op ops)
  show ?case
    using Cons.IH [of "hub_step bc op h"] length_step [of bc op h] by simp
qed simp

text \<open>The events published on a stream by a sequence of calls.\<close>

fun published :: "uuid \<Rightarrow> hub_op list \<Rightarrow> envelope list" where
  "published s [] = []"
| "published s (HPublish env # ops) = (if thread_id env = s then env # published s ops else published s ops)"
| "published s (_ # ops) = published s ops"

lemma published_append: "published s (xs @ ys) = published s xs @ published s ys"
  by (induction s xs rule: published.induct) auto

lemma published_HPublish: "published s (map HPublish es) = filter (\<lambda>e. thread_id e = s) es"
  by (induction es) auto

text \<open>Below the registry cap an entry leaves the registry only when its stream is closed, its owner
  changes only when nobody owned it, and its ring takes what is published on the stream.\<close>

definition entry_step :: "uuid \<Rightarrow> hub_op \<Rightarrow> 'tx stream_entry option \<Rightarrow> 'tx stream_entry option \<Rightarrow> bool" where
  "entry_step s op before after \<longleftrightarrow> (case after of
     None \<Rightarrow> before = None \<and> published s [op] = []
   | Some e' \<Rightarrow> ring e' = fold ring_push (published s [op])
         (case before of None \<Rightarrow> ring_new REPLAY_RING_CAP | Some e \<Rightarrow> ring e)
       \<and> (case before of None \<Rightarrow> True
          | Some e \<Rightarrow> owner e = nil_uuid \<or> owner e' = owner e))"

lemma entry_step_hub:
  "op \<noteq> HClose s \<Longrightarrow> length h < MAX_STREAMS \<Longrightarrow> entry_step s op (map_of h s) (map_of (hub_step bc op h) s)"
  by (cases op)
    (auto simp: entry_step_def hub_subscribe_def hub_next_seq_def hub_publish_def hub_leave_def
      or_insert_def fresh_entry_def Let_def split: option.splits prod.splits)

lemma owner_run:
  assumes "map_of h s = Some e" "owner e = a" "a \<noteq> nil_uuid" "HClose s \<notin> set ops"
    and "length h + length ops \<le> MAX_STREAMS"
  shows "\<exists>e'. map_of (hub_run bc ops h) s = Some e' \<and> owner e' = a"
  using assms
proof (induction ops arbitrary: h e)
  case (Cons op ops)
  then have step: "entry_step s op (map_of h s) (map_of (hub_step bc op h) s)"
    by (intro entry_step_hub) auto
  then obtain e' where "map_of (hub_step bc op h) s = Some e'" "owner e' = a"
    using Cons.prems by (auto simp: entry_step_def split: option.splits)
  with Cons show ?case
    using length_step [of bc op h] by simp
qed simp

lemma ring_run:
  assumes "HClose s \<notin> set ops" "length h + length ops \<le> MAX_STREAMS"
  shows "(case map_of (hub_run bc ops h) s of None \<Rightarrow> map_of h s = None \<and> published s ops = []
    | Some e' \<Rightarrow> ring e' = fold ring_push (published s ops)
        (case map_of h s of None \<Rightarrow> ring_new REPLAY_RING_CAP | Some e \<Rightarrow> ring e))"
  using assms
proof (induction ops arbitrary: h)
  case (Cons op ops)
  then have "entry_step s op (map_of h s) (map_of (hub_step bc op h) s)"
    by (intro entry_step_hub) auto
  moreover have "length (hub_step bc op h) + length ops \<le> MAX_STREAMS"
    using Cons.prems length_step [of bc op h] by simp
  ultimately show ?case
    using Cons.IH [of "hub_step bc op h"] Cons.prems published_append [of s "[op]" ops]
    by (auto simp: entry_step_def split: option.splits)
qed (auto split: option.splits)

lemma hub_ring:
  assumes "HClose s \<notin> set ops" "length ops \<le> MAX_STREAMS" "map_of (hub_run bc ops []) s = Some e"
  shows "ring e = fold ring_push (published s ops) (ring_new REPLAY_RING_CAP)"
  using ring_run [of s ops "[]" bc] assms by simp

lemma hub_replay_complete:
  assumes "HClose s \<notin> set ops" "length ops \<le> MAX_STREAMS" "sorted_wrt (<) (map env_seq (published s ops))"
    and "hub_replay_since t s n (hub_run bc ops []) = Some l"
  shows "l = filter (\<lambda>e. n \<le> env_seq e) (published s ops)"
proof -
  obtain e where e: "map_of (hub_run bc ops []) s = Some e" "ring_since n (ring e) = Some l"
    using assms(4) by (auto simp: hub_replay_since_def split: option.splits if_splits)
  then show ?thesis
    using rlog.since_complete [of REPLAY_RING_CAP, OF _ assms(3)] hub_ring [OF assms(1,2) e(1)]
    by (simp add: REPLAY_RING_CAP_def)
qed

lemma sse_events:
  "sse_with_backfill b (map Event es) = b @ (if b = [] then es
     else filter (\<lambda>e. Max (set (map env_seq b)) < env_seq e) es)"
proof (cases "b = []")
  case True
  then show ?thesis
    unfolding sse_with_backfill_def by (induction es) (simp_all add: List.map_filter_simps)
next
  case False
  then show ?thesis
    unfolding sse_with_backfill_def
    by (induction es) (simp_all add: List.map_filter_simps not_le [symmetric] del: Max_less_iff)
qed

lemma sse_join:
  assumes sorted: "sorted_wrt (<) (map env_seq (xs @ mid @ later))"
    and n: "list_all (\<lambda>e. n \<le> env_seq e) (mid @ later)"
  shows "sse_with_backfill (filter (\<lambda>e. n \<le> env_seq e) (xs @ mid)) (map Event (mid @ later))
    = filter (\<lambda>e. n \<le> env_seq e) (xs @ mid @ later)"
proof -
  let ?b = "filter (\<lambda>e. n \<le> env_seq e) (xs @ mid)"
  let ?m = "Max (set (map env_seq ?b))"
  have id: "filter (\<lambda>e. n \<le> env_seq e) mid = mid" "filter (\<lambda>e. n \<le> env_seq e) later = later"
    using n by (simp_all add: filter_id_conv list_all_iff)
  show ?thesis
  proof (cases "?b = []")
    case True
    with id show ?thesis
      by (simp add: sse_events)
  next
    case False
    have "env_seq e \<le> ?m" if "e \<in> set mid" for e
      using that id(1) by (intro Max_ge) (auto simp: filter_id_conv)
    moreover have "?m < env_seq e" if "e \<in> set later" for e
      using that sorted False by (subst Max_less_iff) (auto simp: sorted_wrt_append)
    ultimately have "filter (\<lambda>e. ?m < env_seq e) (mid @ later) = later"
      by (simp add: filter_empty_conv filter_id_conv not_less)
    then show ?thesis
      using sse_events [of ?b "mid @ later"] False id by simp
  qed
qed

section \<open>Properties\<close>

text \<open>A channel that only counts its receivers, for the witnesses.\<close>

definition count_channel :: "(nat, nat) broadcast" where
  "count_channel = \<lparr>bc_channel = 0, bc_subscribe = \<lambda>n. (Suc n, n), bc_send = \<lambda>_ n. n,
     bc_receivers = id, bc_leave = \<lambda>n. n - 1\<rparr>"

definition sample_event :: "uuid \<Rightarrow> u64 \<Rightarrow> envelope" where
  "sample_event s n = \<lparr>schema_version = 1, thread_id = s, turn_id = None, env_seq = n,
     event = str ''itemDelta'', payload = JNull\<rparr>"

lemma sample_event_simps [simp]: "thread_id (sample_event s n) = s" "env_seq (sample_event s n) = n"
  by (simp_all add: sample_event_def)





text \<open>
  Further: a gap is not reported. When the replay ring no longer covers the requested sequence number
  (\<open>since\<close> answers that the client must resync) the route treats the answer as an empty tail: the
  client receives the live events only, as if it had missed nothing.
\<close>

theorem resume_gap_silent:
  assumes conn: "subscribe_with_resume bc between t s (Some n) h = (Some rx, backfill, h')"
    and gap: "hub_replay_since t s n h' = None"
  shows "backfill = [] \<and> sse_with_backfill backfill (map Event live) = live"
  using assms by (auto simp: subscribe_with_resume_def sse_events Let_def split: prod.splits)

text \<open>Here the ring holds the events 5 to 24 when the client asks for the events from 2 on.\<close>

theorem resume_gap_silent_witness:
  "([] :: envelope list) = [] \<and> sse_with_backfill [] (map Event [sample_event 5 25]) = [sample_event 5 25]"
proof (rule resume_gap_silent)
  let ?e = "\<lparr>owner = 7, tx = 0, ring = \<lparr>rr_cap = 20,
    rr_buf = map (\<lambda>i. sample_event 5 (word_of_nat i)) [5..<25]\<rparr>, se_seq = 24\<rparr>"
  show "subscribe_with_resume count_channel [] 7 5 (Some 2) [(5, ?e)] = (Some 0, [], [(5, ?e\<lparr>tx := 1\<rparr>)])"
    by (simp add: subscribe_with_resume_def hub_subscribe_def hub_replay_since_def ring_since_def
        count_channel_def upt_conv_Cons)
  show "hub_replay_since 7 5 2 [(5, ?e\<lparr>tx := 1\<rparr>)] = None"
    by (simp add: hub_replay_since_def ring_since_def upt_conv_Cons)
qed

end
