(* ===== verification/Wire_Session.thy ===== *)
theory Wire_Session
  imports Stream_Hub
begin

text \<open>
  The live turn channel of the server: the per-connection JSON-RPC dispatcher with its init gate
  and in-flight bound (\<open>wire/dispatch.rs\<close>), the session loop (\<open>wire/ws.rs\<close>, \<open>run_session\<close>) and
  the events a live turn sends (\<open>wire/engine.rs\<close>). The frame parser (derived by serde) is a
  parameter. The session's \<open>select!\<close> serves one event at a time: an inbound frame or the end of
  a turn task; a sequence of such events is a schedule. Cancellation tokens are numbered in the
  order they are made, and a turn task is named by its token.
\<close>

section \<open>The dispatcher\<close>

datatype rpc_message =
    RpcResponse jvalue jvalue
  | RpcError jvalue int rstr
  | RpcRequest jvalue rstr jvalue
  | RpcNotification rstr jvalue

type_synonym rpc_parser = "rstr \<Rightarrow> rstr + rpc_message"

datatype dispatch_result = DOk jvalue | DErr int rstr | DNotify

definition OVERLOADED :: int where "OVERLOADED = -32001"
definition NOT_INITIALIZED :: int where "NOT_INITIALIZED = -32010"
definition ALREADY_INITIALIZED :: int where "ALREADY_INITIALIZED = -32011"

record dispatcher =
  initialized :: bool
  suppressed :: "rstr set"
  d_capacity :: nat
  inflight :: nat

definition dispatcher_new :: "nat \<Rightarrow> dispatcher" where
  "dispatcher_new cap = \<lparr>initialized = False, suppressed = {}, d_capacity = cap, inflight = 0\<rparr>"

fun message_method :: "rpc_message \<Rightarrow> rstr option" where
  "message_method (RpcRequest _ m _) = Some m"
| "message_method (RpcNotification m _) = Some m"
| "message_method _ = None"

definition opt_out :: "rpc_message \<Rightarrow> rstr list" where
  "opt_out msg = (case msg of
     RpcRequest _ _ params \<Rightarrow>
       (case Option.bind (jget params (str ''opt_out_notification_methods'')) as_array of
          Some arr \<Rightarrow> List.map_filter as_str arr
        | None \<Rightarrow> [])
   | _ \<Rightarrow> [])"

definition d_handle :: "rpc_parser \<Rightarrow> rstr \<Rightarrow> dispatcher \<Rightarrow> dispatch_result \<times> dispatcher" where
  "d_handle parse raw d = (case parse raw of
     Inl e \<Rightarrow> (DErr (-32700) e, d)
   | Inr msg \<Rightarrow> (case message_method msg of
       None \<Rightarrow> (DNotify, d)
     | Some method \<Rightarrow>
         if method = str ''initialize'' then
           (if initialized d then (DErr ALREADY_INITIALIZED (str ''Already initialized''), d)
            else (DOk (JObject [(str ''ok'', JBool True)]),
                  d\<lparr>initialized := True, suppressed := suppressed d \<union> set (opt_out msg)\<rparr>))
         else if \<not> initialized d then (DErr NOT_INITIALIZED (str ''Not initialized''), d)
         else if d_capacity d \<le> inflight d then (DErr OVERLOADED (str ''Server overloaded; retry later.''), d)
         else (DOk (JObject [(str ''accepted'', JString method)]), d\<lparr>inflight := inflight d + 1\<rparr>)))"

definition complete_one :: "dispatcher \<Rightarrow> dispatcher" where
  "complete_one d = d\<lparr>inflight := inflight d - 1\<rparr>"

definition is_suppressed :: "dispatcher \<Rightarrow> rstr \<Rightarrow> bool" where
  "is_suppressed d m \<longleftrightarrow> m \<in> suppressed d"

section \<open>The session loop\<close>

definition WS_INFLIGHT_CAP :: nat where "WS_INFLIGHT_CAP = 8"

record session =
  disp :: dispatcher
  current_cancel :: "nat option"
  cancelled :: "nat set"
  tasks :: "(nat \<times> rstr) list"
  next_token :: nat
  outbound :: "rpc_message list"

datatype session_event = Frame rstr | Done nat

definition session_new :: session where
  "session_new = \<lparr>disp = dispatcher_new WS_INFLIGHT_CAP, current_cancel = None, cancelled = {}, tasks = [],
     next_token = 0, outbound = []\<rparr>"

definition parse_id_method :: "rpc_parser \<Rightarrow> rstr \<Rightarrow> jvalue option \<times> rstr option" where
  "parse_id_method parse frame = (case parse frame of
     Inr (RpcRequest i m _) \<Rightarrow> (Some i, Some m)
   | Inr (RpcNotification m _) \<Rightarrow> (None, Some m)
   | _ \<Rightarrow> (None, None))"

text \<open>\<open>from_str\<close> is the JSON reader; \<open>v["params"]\<close> of a value without that key is null.\<close>

definition parse_input :: "from_str \<Rightarrow> rstr \<Rightarrow> rstr" where
  "parse_input from_str frame = (let v = the_or JNull (from_str frame);
       params = the_or JNull (jget v (str ''params''));
       found = List.map_filter (\<lambda>k. Option.bind (jget params (str k)) as_str)
         [''input'', ''text'', ''message'', ''prompt'', ''q'']
     in case found of [] \<Rightarrow> [] | s # _ \<Rightarrow> s)"

definition respond :: "jvalue option \<Rightarrow> (jvalue \<Rightarrow> rpc_message) \<Rightarrow> session \<Rightarrow> session" where
  "respond i mk s = (case i of None \<Rightarrow> s | Some v \<Rightarrow> s\<lparr>outbound := outbound s @ [mk v]\<rparr>)"

definition cancel_current :: "session \<Rightarrow> session" where
  "cancel_current s = (case current_cancel s of
     None \<Rightarrow> s
   | Some c \<Rightarrow> s\<lparr>current_cancel := None, cancelled := insert c (cancelled s)\<rparr>)"

definition start_turn :: "rstr \<Rightarrow> session \<Rightarrow> session" where
  "start_turn input s = (let c = next_token s
     in s\<lparr>current_cancel := Some c, tasks := tasks s @ [(c, input)], next_token := c + 1\<rparr>)"

definition free_slot :: "session \<Rightarrow> session" where
  "free_slot s = s\<lparr>disp := complete_one (disp s)\<rparr>"

definition on_accepted :: "rstr option \<Rightarrow> rstr \<Rightarrow> session \<Rightarrow> session" where
  "on_accepted method input s = (
     if method = Some (str ''turn/start'') \<or> method = Some (str ''turn/steer'') then start_turn input s
     else if method = Some (str ''turn/interrupt'') then free_slot (cancel_current s)
     else if method = Some (str ''initialize'') then s
     else free_slot s)"

definition session_frame :: "rpc_parser \<Rightarrow> from_str \<Rightarrow> rstr \<Rightarrow> session \<Rightarrow> session" where
  "session_frame parse from_str frame s = (let (i, method) = parse_id_method parse frame;
       (res, d) = d_handle parse frame (disp s); s' = s\<lparr>disp := d\<rparr>
     in case res of
          DOk v \<Rightarrow> on_accepted method (parse_input from_str frame) (respond i (\<lambda>j. RpcResponse j v) s')
        | DErr code m \<Rightarrow> respond i (\<lambda>j. RpcError j code m) s'
        | DNotify \<Rightarrow> s')"

text \<open>A task signals \<open>done\<close> once, when its turn has ended; other signals cannot occur.\<close>

fun session_step :: "rpc_parser \<Rightarrow> from_str \<Rightarrow> session_event \<Rightarrow> session \<Rightarrow> session" where
  "session_step parse from_str (Frame f) s = session_frame parse from_str f s"
| "session_step parse from_str (Done c) s = (if c \<in> fst ` set (tasks s)
     then free_slot (s\<lparr>tasks := filter (\<lambda>(c', _). c' \<noteq> c) (tasks s)\<rparr>) else s)"

definition run_session :: "rpc_parser \<Rightarrow> from_str \<Rightarrow> session_event list \<Rightarrow> session" where
  "run_session parse from_str evs = fold (session_step parse from_str) evs session_new"

text \<open>When the inbound side closes, the current turn is cancelled.\<close>

definition session_end :: "session \<Rightarrow> session" where
  "session_end s = cancel_current s"

section \<open>The events of a live turn\<close>

datatype runtime_event =
    ThreadStarted | TurnStarted | ItemStarted | ItemDelta | ItemCompleted | TurnCompleted | UsageEvent | ErrorEvent

text \<open>What the turn loop reports to the sink while it runs, and how the awaited call ends.\<close>

datatype sink_call = OnToolCall rstr rstr | OnToolResult rstr rstr | OnAssistantDelta rstr

datatype ws_gate = CeilingOk | CeilingHit rstr | CeilingError

datatype ws_outcome = WsAnswer rstr | WsFailed rstr | WsCancelled

fun runtime_events :: "sink_call \<Rightarrow> runtime_event list" where
  "runtime_events (OnToolCall _ _) = [ItemStarted, ItemCompleted]"
| "runtime_events (OnToolResult _ _) = [ItemStarted, ItemDelta, ItemCompleted]"
| "runtime_events (OnAssistantDelta _) = [ItemStarted, ItemDelta, ItemCompleted]"

definition error_item :: "runtime_event list" where
  "error_item = [ItemStarted, ItemDelta, ItemCompleted]"

text \<open>The kinds of the events the task sends, in order, with the payload's status for the last.
  A push of the sink is a \<open>try_send\<close>: \<open>fits\<close> says, by its position, whether the channel took it;
  the events the task sends itself wait for room.\<close>

definition sink_sent :: "(nat \<Rightarrow> bool) \<Rightarrow> sink_call list \<Rightarrow> runtime_event list" where
  "sink_sent fits calls = map snd (filter (\<lambda>(i, _). fits i) (enumerate 0 (concat (map runtime_events calls))))"

definition live_turn :: "ws_gate \<Rightarrow> bool \<Rightarrow> (nat \<Rightarrow> bool) \<Rightarrow> sink_call list \<Rightarrow> ws_outcome
    \<Rightarrow> runtime_event list \<times> string" where
  "live_turn gate permit fits calls outcome = (
     if gate \<noteq> CeilingOk then (TurnStarted # error_item @ [TurnCompleted], ''failed'')
     else if \<not> permit then (TurnStarted # error_item @ [TurnCompleted], ''failed'')
     else (case outcome of
       WsAnswer _ \<Rightarrow> (TurnStarted # sink_sent fits calls @ [TurnCompleted], ''completed'')
     | WsFailed _ \<Rightarrow> (TurnStarted # sink_sent fits calls @ error_item @ [TurnCompleted], ''failed'')
     | WsCancelled \<Rightarrow> (TurnStarted # sink_sent fits calls @ [TurnCompleted], ''interrupted'')))"

section \<open>The contract of a session\<close>

text \<open>
  What a session promises, without frames and responses: which turns run, which one an interrupt
  would cancel and which were cancelled. A slot is needed to start a turn and to interrupt one.
\<close>

record slots =
  ready :: bool
  running :: "nat list"
  newest :: "nat option"
  dead :: "nat set"

inductive slot_step :: "slots \<Rightarrow> slots \<Rightarrow> bool" where
  refuse: "slot_step a a"
| initialize: "\<not> ready a \<Longrightarrow> slot_step a (a\<lparr>ready := True\<rparr>)"
| begin_turn: "ready a \<Longrightarrow> length (running a) < WS_INFLIGHT_CAP \<Longrightarrow> c \<notin> set (running a) \<Longrightarrow> c \<notin> dead a
    \<Longrightarrow> slot_step a (a\<lparr>running := running a @ [c], newest := Some c\<rparr>)"
| interrupt: "ready a \<Longrightarrow> length (running a) < WS_INFLIGHT_CAP \<Longrightarrow> newest a = Some c
    \<Longrightarrow> slot_step a (a\<lparr>newest := None, dead := insert c (dead a)\<rparr>)"
| end_turn: "c \<in> set (running a) \<Longrightarrow> slot_step a (a\<lparr>running := removeAll c (running a)\<rparr>)"

inductive_cases slot_stepE: "slot_step a b"
inductive_simps slot_step_full: "slot_step \<lparr>ready = r, running = ts, newest = n, dead = d\<rparr> b"

definition slots_of :: "session \<Rightarrow> slots" where
  "slots_of s = \<lparr>ready = initialized (disp s), running = map fst (tasks s), newest = current_cancel s,
     dead = cancelled s\<rparr>"

text \<open>The representation invariant: every running turn holds one slot, nothing else does, and
  tokens are fresh.\<close>

definition session_ok :: "session \<Rightarrow> bool" where
  "session_ok s \<longleftrightarrow> d_capacity (disp s) = WS_INFLIGHT_CAP \<and> inflight (disp s) = length (tasks s)
     \<and> length (tasks s) \<le> WS_INFLIGHT_CAP \<and> distinct (map fst (tasks s))
     \<and> (\<not> initialized (disp s) \<longrightarrow> tasks s = [])
     \<and> list_all (\<lambda>c. c < next_token s) (map fst (tasks s))
     \<and> (\<forall>c\<in>cancelled s. c < next_token s) \<and> (\<forall>c. current_cancel s = Some c \<longrightarrow> c < next_token s)"

lemma session_new_ok: "session_ok session_new"
  by (simp add: session_ok_def session_new_def dispatcher_new_def)

lemma d_handle_cases:
  "(\<exists>e. fst (d_handle parse f d) = e \<and> (\<forall>v. e \<noteq> DOk v)) \<and> snd (d_handle parse f d) = d
   \<or> (\<exists>v. fst (d_handle parse f d) = DOk v) \<and> \<not> initialized d
      \<and> (\<exists>sup. snd (d_handle parse f d) = d\<lparr>initialized := True, suppressed := sup\<rparr>)
      \<and> snd (parse_id_method parse f) = Some (str ''initialize'')
   \<or> (\<exists>v. fst (d_handle parse f d) = DOk v) \<and> initialized d \<and> inflight d < d_capacity d
      \<and> snd (d_handle parse f d) = d\<lparr>inflight := inflight d + 1\<rparr>
      \<and> snd (parse_id_method parse f) \<noteq> Some (str ''initialize'')"
  by (auto simp: d_handle_def parse_id_method_def not_le split: sum.splits rpc_message.splits option.splits)

lemma slots_respond [simp]:
  "slots_of (respond i mk s) = slots_of s" "session_ok (respond i mk s) = session_ok s"
  "disp (respond i mk s) = disp s" "tasks (respond i mk s) = tasks s" "next_token (respond i mk s) = next_token s"
  "current_cancel (respond i mk s) = current_cancel s" "cancelled (respond i mk s) = cancelled s"
  by (simp_all add: respond_def slots_of_def session_ok_def split: option.splits)

lemma session_frame_unfold:
  "session_frame parse from_str f s = (case fst (d_handle parse f (disp s)) of
     DOk v \<Rightarrow> on_accepted (snd (parse_id_method parse f)) (parse_input from_str f)
       (respond (fst (parse_id_method parse f)) (\<lambda>j. RpcResponse j v) (s\<lparr>disp := snd (d_handle parse f (disp s))\<rparr>))
   | DErr code m \<Rightarrow> respond (fst (parse_id_method parse f)) (\<lambda>j. RpcError j code m)
       (s\<lparr>disp := snd (d_handle parse f (disp s))\<rparr>)
   | DNotify \<Rightarrow> s\<lparr>disp := snd (d_handle parse f (disp s))\<rparr>)"
  by (simp add: session_frame_def Let_def split_beta)

text \<open>An accepted method, from the state in which it holds a slot (\<open>t\<close>): the slot goes to a turn
  or is given back.\<close>

lemma on_accepted_refines:
  assumes s: "session_ok s" "initialized (disp s)" "inflight (disp s) < d_capacity (disp s)"
    and t: "slots_of t = slots_of s" "disp t = disp s\<lparr>inflight := inflight (disp s) + 1\<rparr>"
      "next_token t = next_token s" "tasks t = tasks s"
    and m: "m \<noteq> Some (str ''initialize'')"
  shows "session_ok (on_accepted m input t) \<and> slot_step (slots_of s) (slots_of (on_accepted m input t))"
proof -
  have cap: "length (tasks s) < WS_INFLIGHT_CAP"
    using s by (simp add: session_ok_def)
  have eqs: "current_cancel t = current_cancel s" "cancelled t = cancelled s"
    using t(1) by (simp_all add: slots_of_def)
  have ready: "ready (slots_of s)" "length (running (slots_of s)) < WS_INFLIGHT_CAP"
    using s cap by (simp_all add: slots_of_def)
  consider (turn) "m = Some (str ''turn/start'') \<or> m = Some (str ''turn/steer'')"
    | (intr) "m = Some (str ''turn/interrupt'')"
    | (other) "m \<noteq> Some (str ''turn/start'')" "m \<noteq> Some (str ''turn/steer'')" "m \<noteq> Some (str ''turn/interrupt'')"
    by blast
  then show ?thesis
  proof cases
    case turn
    then have on: "on_accepted m input t = start_turn input t"
      by (auto simp: on_accepted_def)
    have "session_ok (start_turn input t)"
      using s cap eqs t by (auto simp: session_ok_def start_turn_def Let_def list_all_iff less_Suc_eq)
    moreover have "slots_of (start_turn input t)
        = (slots_of s)\<lparr>running := running (slots_of s) @ [next_token s], newest := Some (next_token s)\<rparr>"
      using s eqs t by (simp add: slots_of_def start_turn_def Let_def)
    moreover have "next_token s \<notin> set (running (slots_of s))" "next_token s \<notin> dead (slots_of s)"
      using s by (auto simp: session_ok_def slots_of_def list_all_iff)
    ultimately show ?thesis
      using slot_step.begin_turn [OF ready] on by simp
  next
    case intr
    then have on: "on_accepted m input t = free_slot (cancel_current t)"
      by (simp add: on_accepted_def)
    have "session_ok (free_slot (cancel_current t))"
      using s eqs t by (auto simp: session_ok_def free_slot_def cancel_current_def complete_one_def
          split: option.splits)
    moreover have "slot_step (slots_of s) (slots_of (free_slot (cancel_current t)))"
    proof (cases "current_cancel s")
      case None
      then have "slots_of (free_slot (cancel_current t)) = slots_of s"
        using eqs t by (simp add: slots_of_def free_slot_def cancel_current_def complete_one_def)
      then show ?thesis
        by (simp add: slot_step.refuse)
    next
      case (Some c)
      then have "slots_of (free_slot (cancel_current t))
          = (slots_of s)\<lparr>newest := None, dead := insert c (dead (slots_of s))\<rparr>"
        using eqs t by (simp add: slots_of_def free_slot_def cancel_current_def complete_one_def)
      then show ?thesis
        using slot_step.interrupt [OF ready, of c] Some by (simp add: slots_of_def)
    qed
    ultimately show ?thesis
      using on by simp
  next
    case other
    then have on: "on_accepted m input t = free_slot t"
      using m by (simp add: on_accepted_def)
    have "session_ok (free_slot t)" "slots_of (free_slot t) = slots_of s"
      using s eqs t by (auto simp: session_ok_def slots_of_def free_slot_def complete_one_def)
    then show ?thesis
      using on by (simp add: slot_step.refuse)
  qed
qed

lemma session_frame_refines:
  assumes "session_ok s"
  shows "session_ok (session_frame parse from_str f s)
    \<and> slot_step (slots_of s) (slots_of (session_frame parse from_str f s))"
proof -
  let ?r = "fst (d_handle parse f (disp s))" and ?d = "snd (d_handle parse f (disp s))"
  consider (refused) "\<forall>v. ?r \<noteq> DOk v" "?d = disp s"
    | (init) v sup where "?r = DOk v" "\<not> initialized (disp s)"
        "?d = (disp s)\<lparr>initialized := True, suppressed := sup\<rparr>"
        "snd (parse_id_method parse f) = Some (str ''initialize'')"
    | (accepted) v where "?r = DOk v" "initialized (disp s)" "inflight (disp s) < d_capacity (disp s)"
        "?d = (disp s)\<lparr>inflight := inflight (disp s) + 1\<rparr>"
        "snd (parse_id_method parse f) \<noteq> Some (str ''initialize'')"
    using d_handle_cases [of parse f "disp s"] by metis
  then show ?thesis
  proof cases
    case refused
    then have "session_ok (session_frame parse from_str f s)
        \<and> slots_of (session_frame parse from_str f s) = slots_of s"
      using assms by (cases ?r) (simp_all add: session_frame_unfold)
    then show ?thesis
      by (simp add: slot_step.refuse)
  next
    case init
    let ?t = "respond (fst (parse_id_method parse f)) (\<lambda>j. RpcResponse j v) (s\<lparr>disp := ?d\<rparr>)"
    have "session_frame parse from_str f s = ?t"
      using init by (simp add: session_frame_unfold on_accepted_def)
    moreover have "session_ok ?t" "slots_of ?t = (slots_of s)\<lparr>ready := True\<rparr>"
      using assms init by (auto simp: session_ok_def slots_of_def)
    ultimately show ?thesis
      using init slot_step.initialize [of "slots_of s"] by (simp add: slots_of_def)
  next
    case accepted
    let ?t = "respond (fst (parse_id_method parse f)) (\<lambda>j. RpcResponse j v) (s\<lparr>disp := ?d\<rparr>)"
    have "slots_of ?t = slots_of s" "next_token ?t = next_token s"
      using accepted by (simp_all add: slots_of_def respond_def split: option.splits)
    then show ?thesis
      using on_accepted_refines [OF assms accepted(2,3), of ?t] accepted
      by (simp add: session_frame_unfold)
  qed
qed

lemma session_step_refines:
  assumes "session_ok s"
  shows "session_ok (session_step parse from_str ev s) \<and> slot_step (slots_of s) (slots_of (session_step parse from_str ev s))"
proof (cases ev)
  case (Done c)
  show ?thesis
  proof (cases "c \<in> fst ` set (tasks s)")
    case True
    let ?t = "free_slot (s\<lparr>tasks := filter (\<lambda>(c', _). c' \<noteq> c) (tasks s)\<rparr>)"
    have fst_filter: "map fst (filter (\<lambda>(c', _). c' \<noteq> c) ts) = removeAll c (map fst ts)" for ts :: "(nat \<times> rstr) list"
      by (induction ts) auto
    have "length (removeAll c (map fst (tasks s))) = length (tasks s) - 1"
      using assms True by (simp add: session_ok_def distinct_remove1_removeAll [symmetric] length_remove1)
    then have "length (filter (\<lambda>(c', _). c' \<noteq> c) (tasks s)) = length (tasks s) - 1"
      by (metis fst_filter length_map)
    then have "session_ok ?t"
      using assms by (auto simp: session_ok_def free_slot_def complete_one_def fst_filter list_all_iff distinct_removeAll)
    moreover have "slots_of ?t = (slots_of s)\<lparr>running := removeAll c (running (slots_of s))\<rparr>"
      by (simp add: slots_of_def free_slot_def complete_one_def fst_filter)
    ultimately show ?thesis
      using Done True slot_step.end_turn [of c "slots_of s"] by (simp add: slots_of_def)
  qed (use assms Done in \<open>simp add: slot_step.refuse\<close>)
qed (use assms session_frame_refines in simp)

lemma session_reachable_ok: "session_ok (run_session parse from_str evs)"
  unfolding run_session_def
  by (induction evs rule: rev_induct) (simp_all add: session_new_ok session_step_refines)

text \<open>What a step does to the tokens: a superseded one is out of reach.\<close>

definition tokens_after :: "session \<Rightarrow> session \<Rightarrow> bool" where
  "tokens_after s t \<longleftrightarrow> next_token s \<le> next_token t
   \<and> current_cancel t \<in> {current_cancel s, None, Some (next_token s)}
   \<and> cancelled t \<subseteq> cancelled s \<union> set_option (current_cancel s)
   \<and> (current_cancel t \<noteq> None \<longrightarrow> cancelled t = cancelled s)"

lemma tokens_after_frame [simp]:
  "tokens_after (respond i mk s) t = tokens_after s t" "tokens_after (s\<lparr>disp := d\<rparr>) t = tokens_after s t"
  by (simp_all add: tokens_after_def)

lemma on_accepted_tokens: "tokens_after s (on_accepted m input s)"
  by (auto simp: tokens_after_def on_accepted_def start_turn_def free_slot_def cancel_current_def Let_def
      split: option.splits)

lemma session_step_tokens: "tokens_after s (session_step parse from_str ev s)"
proof (cases ev)
  case (Frame f)
  let ?r = "fst (d_handle parse f (disp s))"
  show ?thesis
  proof (cases ?r)
    case (DOk v)
    then show ?thesis
      using Frame on_accepted_tokens [of "respond (fst (parse_id_method parse f)) (\<lambda>j. RpcResponse j v)
        (s\<lparr>disp := snd (d_handle parse f (disp s))\<rparr>)"] by (simp add: session_frame_unfold)
  qed (use Frame in \<open>simp_all add: session_frame_unfold tokens_after_def\<close>)
qed (simp add: free_slot_def tokens_after_def)

lemma superseded_run:
  assumes "c < next_token s" "c \<notin> cancelled s" "current_cancel s \<noteq> Some c"
  shows "c \<notin> cancelled (fold (session_step parse from_str) evs s)
    \<and> current_cancel (fold (session_step parse from_str) evs s) \<noteq> Some c"
  using assms
proof (induction evs arbitrary: s)
  case (Cons ev evs)
  let ?s = "session_step parse from_str ev s"
  have "c < next_token ?s" "c \<notin> cancelled ?s" "current_cancel ?s \<noteq> Some c"
    using session_step_tokens [of s parse from_str ev] Cons.prems by (auto simp: tokens_after_def)
  then show ?case
    using Cons.IH by simp
qed simp

text \<open>The items of a live turn: each opens, has at most one delta and closes.\<close>

fun items_ok :: "runtime_event list \<Rightarrow> bool" where
  "items_ok [] \<longleftrightarrow> True"
| "items_ok (ItemStarted # ItemCompleted # es) \<longleftrightarrow> items_ok es"
| "items_ok (ItemStarted # ItemDelta # ItemCompleted # es) \<longleftrightarrow> items_ok es"
| "items_ok _ \<longleftrightarrow> False"

lemma items_ok_append: "items_ok xs \<Longrightarrow> items_ok (xs @ ys) = items_ok ys"
  by (induction xs rule: items_ok.induct) auto

lemma items_ok_sink: "items_ok (concat (map runtime_events calls))"
proof (induction calls)
  case (Cons c calls)
  then show ?case
    by (cases c) auto
qed simp

lemma sink_sent_all: "sink_sent (\<lambda>_. True) calls = concat (map runtime_events calls)"
  by (simp add: sink_sent_def)

section \<open>Properties\<close>

text \<open>
  C11: refinement. Whatever frames arrive and whenever turns end, the session keeps its invariant
  (in-flight count, running turns and tokens agree) and each of its steps is a step of the slot
  contract: the init gate, one slot for each running turn and at most eight of them.
\<close>

theorem session_refines:
  "let s = run_session parse from_str evs
   in session_ok s \<and> slot_step (slots_of s) (slots_of (session_step parse from_str ev s))"
  using session_step_refines [OF session_reachable_ok] by (simp add: session_reachable_ok Let_def)

text \<open>
  Further: a full session cannot be interrupted. When eight turns are running, a well-formed
  \<open>turn/interrupt\<close> request is answered with the overload error and cancels nothing.
\<close>

theorem interrupt_refused_when_full:
  assumes full: "length (tasks (run_session parse from_str evs)) = 8"
    and frame: "parse f = Inr (RpcRequest i (str ''turn/interrupt'') params)"
  shows "run_session parse from_str (evs @ [Frame f])
    = (run_session parse from_str evs)\<lparr>outbound := outbound (run_session parse from_str evs)
        @ [RpcError i OVERLOADED (str ''Server overloaded; retry later.'')]\<rparr>"
proof -
  let ?s = "run_session parse from_str evs"
  have "session_ok ?s"
    by (rule session_reachable_ok)
  with full have "initialized (disp ?s)" "d_capacity (disp ?s) \<le> inflight (disp ?s)"
    by (auto simp: session_ok_def WS_INFLIGHT_CAP_def)
  then have "session_frame parse from_str f ?s
      = ?s\<lparr>outbound := outbound ?s @ [RpcError i OVERLOADED (str ''Server overloaded; retry later.'')]\<rparr>"
    using frame by (simp add: session_frame_def d_handle_def parse_id_method_def respond_def Let_def)
  then show ?thesis
    by (simp add: run_session_def)
qed

text \<open>
  Further: a superseded turn cannot be cancelled. Once a second turn starts while one is the current
  turn, no later frame and not even the end of the session cancels the first.
\<close>

theorem superseded_turn_runs_on:
  assumes cur: "current_cancel (run_session parse from_str evs) = Some c"
    and live: "c \<notin> cancelled (run_session parse from_str evs)"
    and started: "current_cancel (run_session parse from_str (evs @ [Frame f])) = Some c'" "c' \<noteq> c"
  shows "c \<notin> cancelled (session_end (run_session parse from_str (evs @ Frame f # later)))"
proof -
  let ?s = "run_session parse from_str evs" and ?s' = "run_session parse from_str (evs @ [Frame f])"
  have "tokens_after ?s ?s'"
    using session_step_tokens [of ?s parse from_str "Frame f"] by (simp add: run_session_def)
  moreover have "c < next_token ?s"
    using session_reachable_ok [of parse from_str evs] cur by (simp add: session_ok_def)
  ultimately have "c < next_token ?s'" "c \<notin> cancelled ?s'" "current_cancel ?s' \<noteq> Some c"
    using live started by (auto simp: tokens_after_def)
  then show ?thesis
    using superseded_run [of c ?s' parse from_str later]
    by (auto simp: run_session_def session_end_def cancel_current_def split: option.splits)
qed

text \<open>Frames are named by their first character in the witnesses.\<close>

definition sample_parse :: rpc_parser where
  "sample_parse f = (if f = str ''i'' then Inr (RpcRequest JNull (str ''initialize'') JNull)
     else if f = str ''s'' then Inr (RpcRequest JNull (str ''turn/start'') JNull)
     else Inr (RpcRequest JNull (str ''turn/interrupt'') JNull))"

lemmas run_eval = run_session_def session_new_def dispatcher_new_def session_frame_def d_handle_def
  parse_id_method_def sample_parse_def opt_out_def respond_def on_accepted_def start_turn_def
  free_slot_def cancel_current_def session_end_def complete_one_def WS_INFLIGHT_CAP_def parse_input_def Let_def

theorem interrupt_refused_when_full_witness:
  "let s = run_session sample_parse (\<lambda>_. None) (Frame (str ''i'') # replicate 8 (Frame (str ''s'')))
   in run_session sample_parse (\<lambda>_. None) ((Frame (str ''i'') # replicate 8 (Frame (str ''s''))) @ [Frame (str ''x'')])
     = s\<lparr>outbound := outbound s @ [RpcError JNull OVERLOADED (str ''Server overloaded; retry later.'')]\<rparr>"
  unfolding Let_def
  by (rule interrupt_refused_when_full) (simp_all add: run_eval eval_nat_numeral)

theorem superseded_turn_runs_on_witness:
  "0 \<notin> cancelled (session_end (run_session sample_parse (\<lambda>_. None)
     ([Frame (str ''i''), Frame (str ''s'')] @ Frame (str ''s'') # [Frame (str ''x'')])))"
  by (rule superseded_turn_runs_on [where c' = 1]) (simp_all add: run_eval)

text \<open>
  Further: bracketing of a live turn. When the channel has room, the events of a live turn are the
  turn's start, well-formed items (each opened, with at most one delta, closed) and the turn's end,
  on every path: the cost gate, the concurrency cap, an answer, a failure, an interrupt.
\<close>

theorem live_turn_bracketed:
  "\<exists>items. fst (live_turn gate permit (\<lambda>_. True) calls outcome) = TurnStarted # items @ [TurnCompleted]
     \<and> items_ok items"
  by (auto simp: live_turn_def sink_sent_all error_item_def items_ok_sink items_ok_append split: ws_outcome.splits)

text \<open>
  Further: under back pressure the bracketing fails. The sink's pushes are dropped one by one when the
  channel is full, so a client can receive the delta and the end of an item that never started.
\<close>

theorem full_channel_breaks_items:
  "fst (live_turn CeilingOk True (\<lambda>i. i \<noteq> 0) [OnAssistantDelta a] (WsAnswer a))
    = [TurnStarted, ItemDelta, ItemCompleted, TurnCompleted] \<and> \<not> items_ok [ItemDelta, ItemCompleted]"
  by (simp add: live_turn_def sink_sent_def)

end
