(* ===== verification/Jobs.thy ===== *)
theory Jobs
  imports Json
begin

text \<open>
  The durable job queue (\<open>jobs/queue.rs\<close>), its workers (\<open>jobs/worker.rs\<close>) and the tick of the ingest
  pool (\<open>jobs/spawn.rs\<close>). The \<open>jobs\<close> table is a list of rows in the order a scan meets them; SQL
  does not fix that order, so a statement for all lists covers every tie-break of the claim query.
  Times are integers in microseconds; \<open>now()\<close> is constant in a transaction and is an argument.
  Operations are the committed effect of their transaction. What concurrent transactions hold
  locked is the argument \<open>locked\<close>.
\<close>

section \<open>The table\<close>

datatype job_kind = Ingest | Lint | Dream | Transcribe | SyncMaterialize | Export

datatype job_state = Pending | Leased | DoneState | FailedState | Canceled

record job =
  j_id :: uuid
  j_tenant :: uuid
  j_user :: "uuid option"
  j_kind :: job_kind
  j_state :: job_state
  j_payload :: jvalue
  j_result :: "jvalue option"
  lease_holder :: "rstr option"
  lease_expires :: "int option"
  attempt_count :: int
  max_attempts :: int
  last_error :: "rstr option"
  priority :: int
  available_at :: int

fun job_as_db :: "job_kind \<Rightarrow> string" where
  "job_as_db Ingest = ''ingest''"
| "job_as_db Lint = ''lint''"
| "job_as_db Dream = ''dream''"
| "job_as_db Transcribe = ''transcribe''"
| "job_as_db SyncMaterialize = ''sync_materialize''"
| "job_as_db Export = ''export''"

definition update_job :: "uuid \<Rightarrow> (job \<Rightarrow> job) \<Rightarrow> job list \<Rightarrow> job list" where
  "update_job i f jobs = map (\<lambda>j. if j_id j = i then f j else j) jobs"

section \<open>Enqueueing and claiming\<close>

text \<open>\<open>Db\<close>: the insert violates the primary key.\<close>

datatype enqueue_error = Overloaded | Db

definition MAX_PENDING_PER_TENANT :: nat where "MAX_PENDING_PER_TENANT = 500"

definition in_flight :: "uuid \<Rightarrow> job \<Rightarrow> bool" where
  "in_flight t j \<longleftrightarrow> j_tenant j = t \<and> (j_state j = Pending \<or> j_state j = Leased)"

text \<open>\<open>payload->>'debounce_ref'\<close>; \<open>pr\<close> prints the JSON text of a value that is not a string.\<close>

definition payload_ref :: "(jvalue \<Rightarrow> rstr) \<Rightarrow> jvalue \<Rightarrow> rstr option" where
  "payload_ref pr p = (case jget p (str ''debounce_ref'') of
     Some (JString s) \<Rightarrow> Some s
   | Some JNull \<Rightarrow> None
   | Some v \<Rightarrow> Some (pr v)
   | None \<Rightarrow> None)"

fun with_ref :: "rstr option \<Rightarrow> jvalue \<Rightarrow> jvalue" where
  "with_ref (Some r) (JObject m) = JObject (obj_insert (str ''debounce_ref'') (JString r) m)"
| "with_ref _ p = p"

definition new_job :: "uuid \<Rightarrow> uuid \<Rightarrow> uuid option \<Rightarrow> job_kind \<Rightarrow> jvalue \<Rightarrow> int \<Rightarrow> job" where
  "new_job i t u k p now = \<lparr>j_id = i, j_tenant = t, j_user = u, j_kind = k, j_state = Pending, j_payload = p,
     j_result = None, lease_holder = None, lease_expires = None, attempt_count = 0, max_attempts = 5,
     last_error = None, priority = 0, available_at = now\<rparr>"

definition duplicate_of :: "(jvalue \<Rightarrow> rstr) \<Rightarrow> uuid \<Rightarrow> job_kind \<Rightarrow> rstr \<Rightarrow> job \<Rightarrow> bool" where
  "duplicate_of pr t k r j \<longleftrightarrow> j_tenant j = t \<and> j_kind j = k \<and> j_state j = Pending \<and> payload_ref pr (j_payload j) = Some r"

text \<open>\<open>new_id\<close> is the fresh version-7 UUID.\<close>

definition enqueue :: "(jvalue \<Rightarrow> rstr) \<Rightarrow> int \<Rightarrow> uuid \<Rightarrow> uuid \<Rightarrow> uuid option \<Rightarrow> job_kind \<Rightarrow> jvalue \<Rightarrow> rstr option
    \<Rightarrow> job list \<Rightarrow> (enqueue_error + uuid) \<times> job list" where
  "enqueue pr now new_id t u k p ref jobs =
     (if MAX_PENDING_PER_TENANT \<le> length (filter (in_flight t) jobs) then (Inl Overloaded, jobs)
      else case Option.bind ref (\<lambda>r. find (duplicate_of pr t k r) jobs) of
        Some j \<Rightarrow> (Inr (j_id j), jobs)
      | None \<Rightarrow> if new_id \<in> j_id ` set jobs then (Inl Db, jobs)
          else (Inr new_id, jobs @ [new_job new_id t u k (with_ref ref p) now]))"

definition claimable :: "int \<Rightarrow> uuid set \<Rightarrow> uuid \<Rightarrow> job \<Rightarrow> bool" where
  "claimable now locked t j \<longleftrightarrow> j_tenant j = t \<and> j_state j = Pending \<and> available_at j \<le> now \<and> j_id j \<notin> locked"

text \<open>\<open>ORDER BY priority DESC, available_at LIMIT 1\<close>.\<close>

definition ahead :: "job \<Rightarrow> job \<Rightarrow> bool" where
  "ahead a b \<longleftrightarrow> priority b < priority a \<or> priority a = priority b \<and> available_at a < available_at b"

fun first_by :: "('a \<Rightarrow> 'a \<Rightarrow> bool) \<Rightarrow> 'a list \<Rightarrow> 'a option" where
  "first_by lt [] = None"
| "first_by lt (x # xs) = (case first_by lt xs of None \<Rightarrow> Some x | Some y \<Rightarrow> Some (if lt y x then y else x))"

definition lease :: "int \<Rightarrow> rstr \<Rightarrow> job \<Rightarrow> job" where
  "lease now worker j = j\<lparr>j_state := Leased, lease_holder := Some worker, lease_expires := Some (now + 300000000),
     attempt_count := attempt_count j + 1\<rparr>"

definition claim_one :: "int \<Rightarrow> uuid set \<Rightarrow> uuid \<Rightarrow> rstr \<Rightarrow> job list \<Rightarrow> uuid option \<times> job list" where
  "claim_one now locked t worker jobs = (case first_by ahead (filter (claimable now locked t) jobs) of
     None \<Rightarrow> (None, jobs)
   | Some j \<Rightarrow> (Some (j_id j), update_job (j_id j) (lease now worker) jobs))"

section \<open>Workers\<close>

record worker_gates =
  g_ingest :: bool
  g_lint :: bool
  g_dream :: bool
  g_sync :: bool

fun gate_enabled :: "worker_gates \<Rightarrow> job_kind \<Rightarrow> bool" where
  "gate_enabled g Ingest = g_ingest g"
| "gate_enabled g Transcribe = g_ingest g"
| "gate_enabled g Lint = g_lint g"
| "gate_enabled g Dream = g_dream g"
| "gate_enabled g SyncMaterialize = g_sync g"
| "gate_enabled g Export = g_sync g"

record job_context =
  c_id :: uuid
  c_tenant :: uuid
  c_kind :: job_kind
  c_payload :: jvalue
  c_attempt :: int

text \<open>A handler may do anything outside this table; here it is what it answers.\<close>

type_synonym job_handler = "job_context \<Rightarrow> rstr + jvalue"

definition echo_handler :: job_handler where
  "echo_handler c = Inr (JObject (obj_insert (str ''kind'') (JString (str (job_as_db (c_kind c))))
     [(str ''echo'', c_payload c)]))"

definition retry_state :: "job \<Rightarrow> job_state" where
  "retry_state j = (if max_attempts j \<le> attempt_count j then FailedState else Pending)"

definition reclaim_stale :: "int \<Rightarrow> uuid \<Rightarrow> job list \<Rightarrow> nat \<times> job list" where
  "reclaim_stale now t jobs = (let stale = (\<lambda>j. j_tenant j = t \<and> j_state j = Leased
        \<and> (case lease_expires j of None \<Rightarrow> False | Some e \<Rightarrow> e < now))
     in (length (filter stale jobs), map (\<lambda>j. if stale j
          then j\<lparr>j_state := retry_state j, lease_holder := None, lease_expires := None,
                 last_error := Some (the_or (str ''stale lease reclaimed'') (last_error j))\<rparr>
          else j) jobs))"

definition complete :: "uuid \<Rightarrow> jvalue \<Rightarrow> job list \<Rightarrow> job list" where
  "complete i r = update_job i (\<lambda>j. j\<lparr>j_state := DoneState, j_result := Some r\<rparr>)"

definition fail_or_retry :: "int \<Rightarrow> uuid \<Rightarrow> rstr \<Rightarrow> int \<Rightarrow> job list \<Rightarrow> job list" where
  "fail_or_retry now i err backoff = update_job i (\<lambda>j. j\<lparr>j_state := retry_state j, last_error := Some err,
     available_at := now + backoff * 1000000, lease_holder := None, lease_expires := None\<rparr>)"

definition cancel_job :: "uuid \<Rightarrow> job list \<Rightarrow> job list" where
  "cancel_job i = update_job i (\<lambda>j. if j_state j = Pending \<or> j_state j = Leased
     then j\<lparr>j_state := Canceled, lease_holder := None, lease_expires := None\<rparr> else j)"

record handlers =
  h_ingest :: "job_handler option"
  h_dream :: "job_handler option"

fun handler_for :: "handlers \<Rightarrow> job_kind \<Rightarrow> job_handler" where
  "handler_for r Ingest = the_or echo_handler (h_ingest r)"
| "handler_for r Dream = the_or echo_handler (h_dream r)"
| "handler_for r _ = echo_handler"

text \<open>One transaction: claim, run the handler, record its answer. \<open>None\<close>: nothing to claim. The
  context handed to the handler is returned with the new table.\<close>

definition work_one :: "int \<Rightarrow> uuid set \<Rightarrow> uuid \<Rightarrow> job_kind \<Rightarrow> rstr \<Rightarrow> job_handler \<Rightarrow> job list
    \<Rightarrow> (job_context \<times> job list) option" where
  "work_one now locked t kind worker handler jobs = (case claim_one now locked t worker jobs of
     (None, _) \<Rightarrow> None
   | (Some i, jobs') \<Rightarrow> (case find (\<lambda>j. j_id j = i) jobs' of
       None \<Rightarrow> None
     | Some j \<Rightarrow> (let c = \<lparr>c_id = i, c_tenant = t, c_kind = kind, c_payload = j_payload j, c_attempt = attempt_count j\<rparr>
         in Some (c, (case handler c of
              Inr r \<Rightarrow> complete i r jobs'
            | Inl e \<Rightarrow> fail_or_retry now i e 30 jobs')))))"

text \<open>The claim loop of \<open>run_once\<close>. \<open>clock\<close> gives the time of the n-th transaction and \<open>locked\<close>
  what others hold during it; the result lists the contexts the handler saw. Fuel bounds the
  iterations; \<open>run_loop_enough\<close> shows how much is enough.\<close>

fun run_loop :: "nat \<Rightarrow> (nat \<Rightarrow> int) \<Rightarrow> (nat \<Rightarrow> uuid set) \<Rightarrow> uuid \<Rightarrow> job_kind \<Rightarrow> rstr \<Rightarrow> job_handler \<Rightarrow> nat
    \<Rightarrow> job list \<Rightarrow> (job_context list \<times> job list) option" where
  "run_loop 0 clock locked t kind worker handler n jobs = None"
| "run_loop (Suc fuel) clock locked t kind worker handler n jobs =
     (case work_one (clock n) (locked n) t kind worker handler jobs of
        None \<Rightarrow> Some ([], jobs)
      | Some (c, jobs') \<Rightarrow> map_option (\<lambda>(cs, js). (c # cs, js))
          (run_loop fuel clock locked t kind worker handler (Suc n) jobs'))"

definition run_once :: "nat \<Rightarrow> (nat \<Rightarrow> int) \<Rightarrow> (nat \<Rightarrow> uuid set) \<Rightarrow> worker_gates \<Rightarrow> uuid \<Rightarrow> job_kind \<Rightarrow> rstr
    \<Rightarrow> job_handler \<Rightarrow> job list \<Rightarrow> (job_context list \<times> job list) option" where
  "run_once fuel clock locked gates t kind worker handler jobs =
     (if \<not> gate_enabled gates kind then Some ([], jobs)
      else run_loop fuel clock locked t kind worker handler 0 jobs)"

definition run_once_registry :: "nat \<Rightarrow> (nat \<Rightarrow> int) \<Rightarrow> (nat \<Rightarrow> uuid set) \<Rightarrow> worker_gates \<Rightarrow> uuid \<Rightarrow> job_kind
    \<Rightarrow> rstr \<Rightarrow> handlers \<Rightarrow> job list \<Rightarrow> (job_context list \<times> job list) option" where
  "run_once_registry fuel clock locked gates t kind worker r jobs =
     run_once fuel clock locked gates t kind worker (handler_for r kind) jobs"

text \<open>\<open>ingest_tick\<close>: for each tenant, reclaim (at the time of index 0), then work.\<close>

fun ingest_tick :: "nat \<Rightarrow> (uuid \<Rightarrow> nat \<Rightarrow> int) \<Rightarrow> (uuid \<Rightarrow> nat \<Rightarrow> uuid set) \<Rightarrow> worker_gates \<Rightarrow> rstr \<Rightarrow> handlers
    \<Rightarrow> uuid list \<Rightarrow> job list \<Rightarrow> (job_context list \<times> job list) option" where
  "ingest_tick fuel clock locked gates worker r [] jobs = Some ([], jobs)"
| "ingest_tick fuel clock locked gates worker r (t # ts) jobs =
     (case run_once_registry fuel (\<lambda>n. clock t (Suc n)) (locked t) gates t Ingest worker r
        (snd (reclaim_stale (clock t 0) t jobs)) of
        None \<Rightarrow> None
      | Some (cs, jobs') \<Rightarrow> map_option (\<lambda>(cs', js). (cs @ cs', js))
          (ingest_tick fuel clock locked gates worker r ts jobs'))"

section \<open>Facts about the table\<close>

definition table_ok :: "job list \<Rightarrow> bool" where
  "table_ok jobs \<longleftrightarrow> distinct (map j_id jobs)"

lemma update_job_ids: "(\<And>j. j_id (f j) = j_id j) \<Longrightarrow> map j_id (update_job i f jobs) = map j_id jobs"
  by (simp add: update_job_def)

lemma update_job_update:
  "(\<And>j. j_id (f j) = j_id j) \<Longrightarrow> update_job i g (update_job i f jobs) = update_job i (\<lambda>j. g (f j)) jobs"
  by (simp add: update_job_def)

lemma find_update:
  assumes "table_ok jobs" "j \<in> set jobs" "\<And>j. j_id (f j) = j_id j"
  shows "find (\<lambda>x. j_id x = j_id j) (update_job (j_id j) f jobs) = Some (f j)"
  using assms by (induction jobs) (auto simp: update_job_def table_ok_def)

lemma first_by_best:
  assumes asym: "\<And>a b. lt a b \<Longrightarrow> \<not> lt b a" and negtrans: "\<And>a b c. \<not> lt a b \<Longrightarrow> \<not> lt b c \<Longrightarrow> \<not> lt a c"
    and "first_by lt xs = Some m"
  shows "m \<in> set xs \<and> list_all (\<lambda>x. \<not> lt x m) xs"
  using assms(3)
proof (induction xs arbitrary: m)
  case (Cons x xs)
  have irrefl: "\<not> lt a a" for a
    using asym by blast
  show ?case
  proof (cases "first_by lt xs")
    case None
    then have "xs = []"
      by (cases xs) (auto split: option.splits)
    then show ?thesis
      using Cons.prems None irrefl by auto
  next
    case (Some y)
    then have y: "y \<in> set xs" "list_all (\<lambda>z. \<not> lt z y) xs"
      using Cons.IH by blast+
    show ?thesis
    proof (cases "lt y x")
      case True
      then show ?thesis
        using Cons.prems Some y asym by auto
    next
      case False
      then have "list_all (\<lambda>z. \<not> lt z x) xs"
        using y(2) negtrans by (auto simp: list_all_iff)
      then show ?thesis
        using Cons.prems Some False irrefl by simp
    qed
  qed
qed simp

lemma first_by_None: "first_by lt xs = None \<longleftrightarrow> xs = []"
  by (cases xs) (auto split: option.splits)

lemma claim_one_cases:
  assumes "claim_one now locked t worker jobs = (i, jobs')"
  shows "i = None \<and> jobs' = jobs \<and> list_all (\<lambda>j. \<not> claimable now locked t j) jobs
    \<or> (\<exists>j\<in>set jobs. claimable now locked t j \<and> list_all (\<lambda>k. claimable now locked t k \<longrightarrow> \<not> ahead k j) jobs
        \<and> i = Some (j_id j) \<and> jobs' = update_job (j_id j) (lease now worker) jobs)"
proof (cases "first_by ahead (filter (claimable now locked t) jobs)")
  case None
  then show ?thesis
    using assms by (auto simp: claim_one_def first_by_None filter_empty_conv list_all_iff)
next
  case (Some j)
  have "j \<in> set (filter (claimable now locked t) jobs)
      \<and> list_all (\<lambda>x. \<not> ahead x j) (filter (claimable now locked t) jobs)"
    by (rule first_by_best [OF _ _ Some]) (auto simp: ahead_def)
  then show ?thesis
    using assms Some by (auto simp: claim_one_def list_all_iff)
qed

text \<open>What the transaction of one worker iteration does to the row it claimed.\<close>

definition context_of :: "uuid \<Rightarrow> job_kind \<Rightarrow> job \<Rightarrow> job_context" where
  "context_of t k j = \<lparr>c_id = j_id j, c_tenant = t, c_kind = k, c_payload = j_payload j, c_attempt = attempt_count j + 1\<rparr>"

definition settle :: "int \<Rightarrow> rstr \<Rightarrow> rstr + jvalue \<Rightarrow> job \<Rightarrow> job" where
  "settle now worker answer j = (let l = lease now worker j in case answer of
     Inr r \<Rightarrow> l\<lparr>j_state := DoneState, j_result := Some r\<rparr>
   | Inl e \<Rightarrow> l\<lparr>j_state := retry_state l, last_error := Some e, available_at := now + 30 * 1000000,
       lease_holder := None, lease_expires := None\<rparr>)"

lemma lease_id [simp]: "j_id (lease now worker j) = j_id j" "j_tenant (lease now worker j) = j_tenant j"
    "j_payload (lease now worker j) = j_payload j" "attempt_count (lease now worker j) = attempt_count j + 1"
    "max_attempts (lease now worker j) = max_attempts j"
  by (simp_all add: lease_def)

lemma settle_id [simp]: "j_id (settle now worker a j) = j_id j" "j_tenant (settle now worker a j) = j_tenant j"
  by (simp_all add: settle_def Let_def split: sum.splits)

lemma settle_state:
  "j_state (settle now worker a j) = (case a of Inr _ \<Rightarrow> DoneState
     | Inl _ \<Rightarrow> if max_attempts j \<le> attempt_count j + 1 then FailedState else Pending)"
  by (simp add: settle_def retry_state_def Let_def lease_def split: sum.splits)

lemma settle_attempts: "attempt_count (settle now worker a j) = attempt_count j + 1"
    "max_attempts (settle now worker a j) = max_attempts j"
  by (simp_all add: settle_def lease_def Let_def split: sum.splits)

lemma work_one_cases:
  assumes "table_ok jobs"
  obtains (idle) "work_one now locked t kind worker handler jobs = None"
      "list_all (\<lambda>j. \<not> claimable now locked t j) jobs"
    | (work) j where "j \<in> set jobs" "claimable now locked t j"
      "work_one now locked t kind worker handler jobs = Some (context_of t kind j,
         update_job (j_id j) (settle now worker (handler (context_of t kind j))) jobs)"
proof -
  obtain i jobs' where c: "claim_one now locked t worker jobs = (i, jobs')"
    by fastforce
  from claim_one_cases [OF c] show thesis
  proof (elim disjE conjE bexE)
    assume "i = None" "list_all (\<lambda>j. \<not> claimable now locked t j) jobs"
    then show thesis
      using idle c by (simp add: work_one_def)
  next
    fix j
    assume j: "j \<in> set jobs" "claimable now locked t j" "i = Some (j_id j)"
      "jobs' = update_job (j_id j) (lease now worker) jobs"
    have "find (\<lambda>x. j_id x = j_id j) jobs' = Some (lease now worker j)"
      unfolding j(4) by (rule find_update) (use assms j in simp_all)
    then have "work_one now locked t kind worker handler jobs = Some (context_of t kind j,
        update_job (j_id j) (settle now worker (handler (context_of t kind j))) jobs)"
      using c j by (simp add: work_one_def context_of_def complete_def fail_or_retry_def update_job_update
          settle_def [abs_def] Let_def split: sum.splits)
    then show thesis
      using work j by blast
  qed
qed

lemma table_ok_update: "table_ok jobs \<Longrightarrow> (\<And>j. j_id (f j) = j_id j) \<Longrightarrow> table_ok (update_job i f jobs)"
  by (simp add: table_ok_def update_job_ids)

lemma mem_update:
  assumes "table_ok jobs" "j \<in> set jobs" "j' \<in> set jobs"
  shows "(if j' = j then f j' else j') \<in> set (update_job (j_id j) f jobs)"
  using assms by (auto simp: update_job_def table_ok_def distinct_map inj_on_def image_iff)

section \<open>The claim loop\<close>

text \<open>How often a row can still be claimed, and a tenant's rows together.\<close>

definition remaining :: "job \<Rightarrow> nat" where
  "remaining j = (if j_state j = Pending then max 1 (nat (max_attempts j - attempt_count j)) else 0)"

definition work_left :: "uuid \<Rightarrow> job list \<Rightarrow> nat" where
  "work_left t jobs = sum_list (map remaining (filter (\<lambda>j. j_tenant j = t) jobs))"

lemma remaining_settle: "j_state j = Pending \<Longrightarrow> remaining (settle now worker a j) < remaining j"
  by (auto simp: remaining_def settle_state settle_attempts split: sum.splits)

lemma budget_update:
  assumes "table_ok jobs" "j \<in> set jobs" "j_tenant j = t" "\<And>k. j_tenant (f k) = j_tenant k"
  shows "work_left t (update_job (j_id j) f jobs) + remaining j = work_left t jobs + remaining (f j)"
  using assms
proof (induction jobs)
  case (Cons k ks)
  show ?case
  proof (cases "k = j")
    case True
    have "j_id x \<noteq> j_id j" if "x \<in> set ks" for x
      using True Cons.prems that by (auto simp: table_ok_def image_iff)
    then have "update_job (j_id j) f ks = ks"
      by (auto simp: update_job_def intro: map_idI)
    then show ?thesis
      using True Cons.prems by (simp add: update_job_def work_left_def)
  next
    case False
    with Cons.prems have "j_id k \<noteq> j_id j" "j \<in> set ks"
      by (auto simp: table_ok_def)
    then show ?thesis
      using Cons by (auto simp: update_job_def work_left_def table_ok_def)
  qed
qed simp

lemma claimable_Pending: "claimable now locked t j \<Longrightarrow> j_state j = Pending \<and> j_tenant j = t"
  by (simp add: claimable_def)

lemma run_loop_enough:
  "table_ok jobs \<Longrightarrow> work_left t jobs < fuel
     \<Longrightarrow> \<exists>cs js. run_loop fuel clock locked t kind worker handler n jobs = Some (cs, js) \<and> length cs \<le> work_left t jobs"
proof (induction fuel arbitrary: n jobs)
  case (Suc fuel)
  from Suc.prems(1) show ?case
  proof (cases rule: work_one_cases [of jobs "clock n" "locked n" t kind worker handler])
    case (work j)
    let ?jobs = "update_job (j_id j) (settle (clock n) worker (handler (context_of t kind j))) jobs"
    have "work_left t ?jobs < work_left t jobs"
      using budget_update [OF Suc.prems(1) work(1), of t "settle (clock n) worker (handler (context_of t kind j))"]
        remaining_settle [of j "clock n" worker "handler (context_of t kind j)"] claimable_Pending [OF work(2)]
      by simp
    moreover have "table_ok ?jobs"
      using Suc.prems by (simp add: table_ok_update)
    ultimately show ?thesis
      using Suc.IH [of ?jobs "Suc n"] Suc.prems work by fastforce
  qed simp
qed simp

lemma run_loop_induct [consumes 2, case_names idle work]:
  assumes "run_loop fuel clock locked t kind worker handler n jobs = Some (cs, js)" "table_ok jobs"
    and "\<And>n jobs. table_ok jobs \<Longrightarrow> list_all (\<lambda>j. \<not> claimable (clock n) (locked n) t j) jobs \<Longrightarrow> P n jobs [] jobs"
    and "\<And>n jobs j cs js. table_ok jobs \<Longrightarrow> j \<in> set jobs \<Longrightarrow> claimable (clock n) (locked n) t j
      \<Longrightarrow> P (Suc n) (update_job (j_id j) (settle (clock n) worker (handler (context_of t kind j))) jobs) cs js
      \<Longrightarrow> P n jobs (context_of t kind j # cs) js"
  shows "P n jobs cs js"
  using assms(1,2)
proof (induction fuel arbitrary: n jobs cs js)
  case (Suc fuel)
  from Suc.prems(2) show ?case
  proof (cases rule: work_one_cases [of jobs "clock n" "locked n" t kind worker handler])
    case idle
    then show ?thesis
      using Suc.prems assms(3) by simp
  next
    case (work j)
    then obtain cs' where cs: "cs = context_of t kind j # cs'"
      and loop: "run_loop fuel clock locked t kind worker handler (Suc n)
        (update_job (j_id j) (settle (clock n) worker (handler (context_of t kind j))) jobs) = Some (cs', js)"
      using Suc.prems(1) by auto
    show ?thesis
      unfolding cs using Suc.prems(2) work(1,2) Suc.IH [OF loop] table_ok_update [OF Suc.prems(2)]
      by (intro assms(4)) simp_all
  qed
qed simp

lemma run_loop_table_ok:
  "run_loop fuel clock locked t kind worker handler n jobs = Some (cs, js) \<Longrightarrow> table_ok jobs \<Longrightarrow> table_ok js"
  by (induction rule: run_loop_induct) simp_all

lemma run_loop_counts:
  "run_loop fuel clock locked t kind worker handler n jobs = Some (cs, js) \<Longrightarrow> table_ok jobs
     \<Longrightarrow> list_all (\<lambda>j. length (filter (\<lambda>c. c_id c = j_id j) cs) \<le> remaining j) jobs"
proof (induction rule: run_loop_induct)
  case (work n jobs j cs js)
  let ?f = "settle (clock n) worker (handler (context_of t kind j))"
  have "length (filter (\<lambda>c. c_id c = j_id k) (context_of t kind j # cs)) \<le> remaining k" if "k \<in> set jobs" for k
  proof -
    have "(if k = j then ?f k else k) \<in> set (update_job (j_id j) ?f jobs)"
      using mem_update work(1,2) that by blast
    then have "length (filter (\<lambda>c. c_id c = j_id k) cs) \<le> remaining (if k = j then ?f k else k)"
      using work(4) by (auto simp: list_all_iff)
    moreover have "k \<noteq> j \<Longrightarrow> j_id j \<noteq> j_id k"
      using work(1,2) that by (auto simp: table_ok_def distinct_map inj_on_def)
    ultimately show ?thesis
      using remaining_settle [of j "clock n" worker "handler (context_of t kind j)"] claimable_Pending [OF work(3)]
      by (auto simp: context_of_def split: if_splits)
  qed
  then show ?case
    by (simp add: list_all_iff)
qed (simp add: list_all_iff)

lemma run_loop_contexts:
  "run_loop fuel clock locked t kind worker handler n jobs = Some (cs, js) \<Longrightarrow> table_ok jobs
     \<Longrightarrow> list_all (\<lambda>c. c_tenant c = t \<and> c_kind c = kind) cs"
  by (induction rule: run_loop_induct) (simp_all add: context_of_def)

lemma run_loop_handles:
  assumes "run_loop fuel clock (\<lambda>_. {}) t kind worker handler n jobs = Some (cs, js)" "table_ok jobs"
    and "mono clock" "j \<in> set jobs" "claimable (clock n) {} t j"
  shows "context_of t kind j \<in> set cs"
  using assms(1,2,4,5)
proof (induction rule: run_loop_induct)
  case (idle n jobs)
  then show ?case
    by (simp add: list_all_iff)
next
  case (work n jobs k cs js)
  let ?f = "settle (clock n) worker (handler (context_of t kind k))"
  show ?case
  proof (cases "j = k")
    case False
    then have "j \<in> set (update_job (j_id k) ?f jobs)"
      using mem_update [OF work(1,2,5), of ?f] by simp
    moreover have "claimable (clock (Suc n)) {} t j"
      using work(6) monoD [OF assms(3), of n "Suc n"] by (simp add: claimable_def)
    ultimately show ?thesis
      using work(4) by simp
  qed simp
qed

lemma filter_update_job:
  "list_all (\<lambda>j. j_id j = i \<longrightarrow> j_tenant j = t \<and> j_tenant (f j) = t) jobs
     \<Longrightarrow> filter (\<lambda>j. j_tenant j \<noteq> t) (update_job i f jobs) = filter (\<lambda>j. j_tenant j \<noteq> t) jobs"
  by (induction jobs) (auto simp: update_job_def)

lemma run_loop_frame:
  "run_loop fuel clock locked t kind worker handler n jobs = Some (cs, js) \<Longrightarrow> table_ok jobs
     \<Longrightarrow> filter (\<lambda>j. j_tenant j \<noteq> t) js = filter (\<lambda>j. j_tenant j \<noteq> t) jobs"
proof (induction rule: run_loop_induct)
  case (work n jobs k cs js)
  have "j = k" if "j \<in> set jobs" "j_id j = j_id k" for j
    using work(1,2) that by (auto simp: table_ok_def distinct_map inj_on_def)
  then show ?case
    using work(4) claimable_Pending [OF work(3)] by (subst (asm) filter_update_job) (auto simp: list_all_iff)
qed simp

lemma run_loop_no_lease:
  "run_loop fuel clock locked t kind worker handler n jobs = Some (cs, js) \<Longrightarrow> table_ok jobs
     \<Longrightarrow> list_all (\<lambda>j. j_state j \<noteq> Leased) jobs \<Longrightarrow> list_all (\<lambda>j. j_state j \<noteq> Leased) js"
proof (induction rule: run_loop_induct)
  case (work n jobs k cs js)
  then have "list_all (\<lambda>j. j_state j \<noteq> Leased)
      (update_job (j_id k) (settle (clock n) worker (handler (context_of t kind k))) jobs)"
    by (auto simp: list_all_iff update_job_def settle_state split: sum.splits if_splits)
  then show ?case
    by (rule work(4))
qed simp

section \<open>Sequences of transactions\<close>

datatype queue_op =
    QEnqueue int uuid uuid "uuid option" job_kind jvalue "rstr option"
  | QWork int "uuid set" uuid job_kind rstr job_handler
  | QReclaim int uuid
  | QCancel uuid

fun queue_step :: "(jvalue \<Rightarrow> rstr) \<Rightarrow> queue_op \<Rightarrow> job list \<Rightarrow> job list" where
  "queue_step pr (QEnqueue now i t u k p ref) jobs = snd (enqueue pr now i t u k p ref jobs)"
| "queue_step pr (QWork now locked t kind worker h) jobs = (case work_one now locked t kind worker h jobs of
     None \<Rightarrow> jobs | Some (_, jobs') \<Rightarrow> jobs')"
| "queue_step pr (QReclaim now t) jobs = snd (reclaim_stale now t jobs)"
| "queue_step pr (QCancel i) jobs = cancel_job i jobs"

definition queue_run :: "(jvalue \<Rightarrow> rstr) \<Rightarrow> queue_op list \<Rightarrow> job list" where
  "queue_run pr ops = fold (queue_step pr) ops []"

definition queue_ok :: "job list \<Rightarrow> bool" where
  "queue_ok jobs \<longleftrightarrow> table_ok jobs
     \<and> (\<forall>t. length (filter (in_flight t) jobs) \<le> MAX_PENDING_PER_TENANT)"

lemma filter_map_le: "(\<And>x. x \<in> set xs \<Longrightarrow> P (f x) \<Longrightarrow> P x) \<Longrightarrow> length (filter P (map f xs)) \<le> length (filter P xs)"
  by (induction xs) (auto simp: le_SucI)

lemma queue_ok_map:
  assumes "queue_ok jobs" "\<And>j. j_id (f j) = j_id j" "\<And>j t. j \<in> set jobs \<Longrightarrow> in_flight t (f j) \<Longrightarrow> in_flight t j"
  shows "queue_ok (map f jobs)"
proof -
  have "map j_id (map f jobs) = map j_id jobs"
    using assms(2) by simp
  moreover have "length (filter (in_flight t) (map f jobs)) \<le> MAX_PENDING_PER_TENANT" for t
    using filter_map_le [of jobs "in_flight t" f] assms(1,3) by (auto simp: queue_ok_def intro: order_trans)
  ultimately show ?thesis
    using assms(1) by (simp add: queue_ok_def table_ok_def del: map_map)
qed

lemma find_append_None: "find P xs = None \<Longrightarrow> find P (xs @ ys) = find P ys"
  by (induction xs) auto

lemma enqueue_ok: "queue_ok jobs \<Longrightarrow> queue_ok (snd (enqueue pr now i t u k p ref jobs))"
  by (auto simp: enqueue_def queue_ok_def table_ok_def new_job_def in_flight_def split: option.splits)

lemma queue_step_ok:
  assumes "queue_ok jobs"
  shows "queue_ok (queue_step pr op jobs)"
proof (cases op)
  case (QWork now locked t kind worker h)
  have "table_ok jobs"
    using assms by (simp add: queue_ok_def)
  then show ?thesis
  proof (cases rule: work_one_cases [of jobs now locked t kind worker h])
    case (work j)
    have "in_flight s k" if "k \<in> set jobs" "j_id k = j_id j" "in_flight s (settle now worker a k)" for k s a
    proof -
      have "k = j"
        using \<open>table_ok jobs\<close> work(1) that by (auto simp: table_ok_def distinct_map inj_on_def)
      then show ?thesis
        using that claimable_Pending [OF work(2)] by (simp add: in_flight_def)
    qed
    then have "queue_ok (update_job (j_id j) (settle now worker (h (context_of t kind j))) jobs)"
      unfolding update_job_def by (intro queue_ok_map assms) (auto split: if_splits)
    then show ?thesis
      using QWork work by simp
  qed (use assms QWork in simp)
next
  case (QReclaim now t)
  then show ?thesis
    unfolding QReclaim queue_step.simps reclaim_stale_def Let_def snd_conv
    by (intro queue_ok_map assms) (auto simp: in_flight_def split: if_splits)
next
  case (QCancel i)
  then show ?thesis
    unfolding QCancel queue_step.simps cancel_job_def update_job_def
    by (intro queue_ok_map assms) (auto simp: in_flight_def split: if_splits)
qed (use assms enqueue_ok in simp)

section \<open>Properties\<close>

text \<open>
  C14: the queue is bounded. After any sequence of enqueues, worker transactions, reclaims and
  cancellations, job ids are unique and no tenant has more than 500 jobs pending or leased.
\<close>

theorem queue_bounded:
  "distinct (map j_id (queue_run pr ops)) \<and> length (filter (in_flight t) (queue_run pr ops)) \<le> 500"
proof -
  have "queue_ok (queue_run pr ops)"
    unfolding queue_run_def
    by (induction ops rule: rev_induct)
      (simp_all add: queue_step_ok, simp add: queue_ok_def table_ok_def)
  then show ?thesis
    by (simp add: queue_ok_def table_ok_def MAX_PENDING_PER_TENANT_def)
qed

text \<open>
  Further: debouncing. A second enqueue with the reference of a job that is still pending creates no
  row: it returns that job's id, except when the tenant is at its bound, where it is refused as
  overloaded although nothing would be added.
\<close>

theorem enqueue_debounced:
  assumes "enqueue pr now i t u k (JObject m) (Some r) jobs = (Inr i', jobs')"
  shows "enqueue pr now2 i2 t u2 k p2 (Some r) jobs'
    = (if MAX_PENDING_PER_TENANT \<le> length (filter (in_flight t) jobs') then Inl Overloaded else Inr i', jobs')"
proof -
  have "find (duplicate_of pr t k r) jobs' = Some j \<and> j_id j = i'"
    if "find (duplicate_of pr t k r) jobs = Some j" for j
    using assms that by (auto simp: enqueue_def split: if_splits)
  moreover have "\<exists>j. find (duplicate_of pr t k r) jobs' = Some j \<and> j_id j = i'"
    if none: "find (duplicate_of pr t k r) jobs = None"
  proof -
    have "jobs' = jobs @ [new_job i t u k (with_ref (Some r) (JObject m)) now]" "i' = i"
      using assms none by (auto simp: enqueue_def split: if_splits)
    moreover have "duplicate_of pr t k r (new_job i t u k (with_ref (Some r) (JObject m)) now)"
      by (simp add: duplicate_of_def new_job_def payload_ref_def obj_get_insert)
    ultimately show ?thesis
      using none by (simp add: find_append_None new_job_def)
  qed
  ultimately obtain j where "find (duplicate_of pr t k r) jobs' = Some j" "j_id j = i'"
    by (cases "find (duplicate_of pr t k r) jobs") auto
  then show ?thesis
    by (simp add: enqueue_def)
qed

text \<open>A pending job of the given kind, and a table with one of each, for the witnesses.\<close>

definition sample_job :: "uuid \<Rightarrow> job_kind \<Rightarrow> job" where
  "sample_job i k = new_job i 1 None k (JObject []) 0"

lemma sample_job_simps [simp]:
  "j_id (sample_job i k) = i" "j_tenant (sample_job i k) = 1" "j_state (sample_job i k) = Pending"
  "j_kind (sample_job i k) = k" "available_at (sample_job i k) = 0" "priority (sample_job i k) = 0"
  "attempt_count (sample_job i k) = 0" "max_attempts (sample_job i k) = 5" "j_payload (sample_job i k) = JObject []"
  by (simp_all add: sample_job_def new_job_def)

theorem enqueue_debounced_witness:
  "enqueue (\<lambda>_. []) 9 8 1 None Dream JNull (Some (str ''dream:1''))
      [new_job 7 1 None Dream (with_ref (Some (str ''dream:1'')) (JObject [])) 0]
    = (if MAX_PENDING_PER_TENANT \<le> length (filter (in_flight 1)
         [new_job 7 1 None Dream (with_ref (Some (str ''dream:1'')) (JObject [])) 0]) then Inl Overloaded else Inr 7,
       [new_job 7 1 None Dream (with_ref (Some (str ''dream:1'')) (JObject [])) 0])"
  by (rule enqueue_debounced [where now = 0 and i = 7 and u = None and m = "[]" and jobs = "[]"])
    (simp add: enqueue_def MAX_PENDING_PER_TENANT_def)

text \<open>
  Further: the claim. It leases a row of the tenant that is pending, due and not locked, one that no
  other such row precedes in priority and age; it changes nothing else, and it claims nothing only
  if there is no such row.
\<close>

theorem claim_one_best:
  "case claim_one now locked t worker jobs of
     (None, jobs') \<Rightarrow> jobs' = jobs \<and> list_all (\<lambda>j. \<not> claimable now locked t j) jobs
   | (Some i, jobs') \<Rightarrow> jobs' = update_job i (lease now worker) jobs
       \<and> list_ex (\<lambda>j. j_id j = i \<and> claimable now locked t j
           \<and> list_all (\<lambda>k. \<not> (claimable now locked t k \<and> ahead k j)) jobs) jobs"
  using claim_one_cases [of now locked t worker jobs]
  by (auto simp: list_ex_iff list_all_iff split: prod.splits option.splits)

text \<open>
  C15: the worker loop ends. With fuel for the attempts the tenant's rows have left, the claim loop
  returns; it hands no job to the handler more often than the job has attempts left, keeps job ids
  unique and leaves the rows of all other tenants as they were.
\<close>

theorem run_once_terminates:
  assumes "table_ok jobs" "work_left t jobs < fuel"
  shows "\<exists>cs js. run_once fuel clock locked gates t kind worker handler jobs = Some (cs, js)
    \<and> list_all (\<lambda>j. length (filter (\<lambda>c. c_id c = j_id j) cs) \<le> remaining j) jobs
    \<and> table_ok js \<and> filter (\<lambda>j. j_tenant j \<noteq> t) js = filter (\<lambda>j. j_tenant j \<noteq> t) jobs"
proof (cases "gate_enabled gates kind")
  case True
  obtain cs js where run: "run_loop fuel clock locked t kind worker handler 0 jobs = Some (cs, js)"
    using run_loop_enough [OF assms] by blast
  then show ?thesis
    using True assms(1) run_loop_counts [OF run] run_loop_table_ok [OF run] run_loop_frame [OF run]
    by (simp add: run_once_def)
qed (use assms in \<open>simp add: run_once_def list_all_iff\<close>)

theorem run_once_terminates_witness:
  "\<exists>cs js. run_once 11 (\<lambda>_. 0) (\<lambda>_. {}) \<lparr>g_ingest = True, g_lint = True, g_dream = True, g_sync = True\<rparr> 1 Ingest
      (str ''w'') echo_handler [sample_job 1 Ingest, sample_job 2 Dream] = Some (cs, js)
    \<and> list_all (\<lambda>j. length (filter (\<lambda>c. c_id c = j_id j) cs) \<le> remaining j) [sample_job 1 Ingest, sample_job 2 Dream]
    \<and> table_ok js \<and> filter (\<lambda>j. j_tenant j \<noteq> 1) js = filter (\<lambda>j. j_tenant j \<noteq> 1) [sample_job 1 Ingest, sample_job 2 Dream]"
  by (rule run_once_terminates) (simp_all add: table_ok_def work_left_def remaining_def)

text \<open>
  Further: the worker ignores the kind. A run of the ingest family hands every due job of the tenant,
  whatever its kind, to the ingest handler and presents it as an ingest job: a dream job is consumed
  by the ingest worker, with the dream family gated off or not.
\<close>

theorem ingest_worker_takes_dreams:
  assumes "run_once_registry fuel clock (\<lambda>_. {}) gates t Ingest worker reg jobs = Some (cs, js)"
    and "table_ok jobs" "mono clock" "g_ingest gates"
    and "j \<in> set jobs" "j_kind j = Dream" "claimable (clock 0) {} t j"
  shows "context_of t Ingest j \<in> set cs \<and> list_all (\<lambda>c. c_kind c = Ingest) cs"
proof -
  have run: "run_loop fuel clock (\<lambda>_. {}) t Ingest worker (handler_for reg Ingest) 0 jobs = Some (cs, js)"
    using assms(1,4) by (simp add: run_once_registry_def run_once_def)
  then show ?thesis
    using run_loop_handles [OF run assms(2,3,5,7)] run_loop_contexts [OF run assms(2)]
    by (simp add: list_all_iff)
qed

theorem ingest_worker_takes_dreams_witness:
  "context_of 1 Ingest (sample_job 2 Dream) \<in> set [context_of 1 Ingest (sample_job 2 Dream)]
    \<and> list_all (\<lambda>c. c_kind c = Ingest) [context_of 1 Ingest (sample_job 2 Dream)]"
  by (rule ingest_worker_takes_dreams [where fuel = 2 and clock = "\<lambda>_. 0" and worker = "[]"
        and gates = "\<lparr>g_ingest = True, g_lint = False, g_dream = False, g_sync = False\<rparr>"
        and reg = "\<lparr>h_ingest = None, h_dream = None\<rparr>" and jobs = "[sample_job 2 Dream]"
        and js = "[settle 0 [] (echo_handler (context_of 1 Ingest (sample_job 2 Dream))) (sample_job 2 Dream)]"])
    (simp_all add: table_ok_def mono_def claimable_def run_once_registry_def run_once_def numeral_2_eq_2
      work_one_def claim_one_def update_job_def settle_def echo_handler_def context_of_def complete_def lease_def
      sample_job_def new_job_def Let_def)

text \<open>
  Further: leases are never committed. A worker transaction claims, runs and settles a job in one
  commit, so a table without leased rows stays so, and reclaiming stale leases finds nothing: the
  attempt of a worker that dies with its transaction is neither recorded nor counted.
\<close>

theorem no_lease_to_reclaim:
  assumes "run_once fuel clock locked gates t kind worker handler jobs = Some (cs, js)"
    and "table_ok jobs" "list_all (\<lambda>j. j_state j \<noteq> Leased) jobs"
  shows "reclaim_stale now t js = (0, js)"
proof -
  have "list_all (\<lambda>j. j_state j \<noteq> Leased) js"
    using assms run_loop_no_lease by (auto simp: run_once_def split: if_splits)
  then show ?thesis
    by (auto simp: reclaim_stale_def Let_def list_all_iff filter_empty_conv intro!: map_idI)
qed

theorem no_lease_to_reclaim_witness:
  "reclaim_stale 5 1 [settle 0 [] (echo_handler (context_of 1 Ingest (sample_job 2 Dream))) (sample_job 2 Dream)]
    = (0, [settle 0 [] (echo_handler (context_of 1 Ingest (sample_job 2 Dream))) (sample_job 2 Dream)])"
  by (rule no_lease_to_reclaim [where fuel = 2 and clock = "\<lambda>_. 0" and locked = "\<lambda>_. {}" and kind = Ingest
        and worker = "[]" and handler = echo_handler and jobs = "[sample_job 2 Dream]"
        and gates = "\<lparr>g_ingest = True, g_lint = False, g_dream = False, g_sync = False\<rparr>"
        and cs = "[context_of 1 Ingest (sample_job 2 Dream)]"])
    (simp_all add: table_ok_def claimable_def run_once_def numeral_2_eq_2 work_one_def claim_one_def
      update_job_def settle_def echo_handler_def context_of_def complete_def lease_def sample_job_def new_job_def Let_def)

end
