(* ===== verification/Dream.thy ===== *)
theory Dream
  imports Rust_Strings Complex_Main
begin

text \<open>
  The nightly consolidation (``dream''): the lock that is also its clock (\<open>wiki/dream/lock.rs\<close>),
  the gate ladder and scheduler (\<open>wiki/dream/scheduler.rs\<close>) and the collection of the files a
  dream touched (\<open>ideas/dream/agent.rs\<close>). The \<open>ConsolidationLock\<close> trait is the locale
  \<open>consolidation_lock\<close>; it is interpreted on the rows of the \<open>wiki_consolidation\<close> table. Times are
  integers in microseconds, the clock is an argument; hours are rational numbers where the source
  divides seconds by 3600 in floating point. The agent's run, which awaits the model, is a
  function on the state that may contain what other workers do meanwhile.
\<close>

section \<open>The lock row\<close>

type_synonym time = int

definition epoch :: time where "epoch = 0"

record lock_row =
  holder :: "rstr option"
  lease_expires :: "time option"
  last_consolidated_at :: "time option"
  last_scan_at :: "time option"
  sessions_since_last :: nat
  rollback_count :: nat

text \<open>A tenant's row of \<open>wiki_consolidation\<close>, if it has one.\<close>

type_synonym lock_state = "lock_row option"

definition read_clock :: "lock_state \<Rightarrow> time" where
  "read_clock s = (case s of None \<Rightarrow> epoch | Some r \<Rightarrow> the_or epoch (last_consolidated_at r))"

definition lease_free :: "time \<Rightarrow> lock_row \<Rightarrow> bool" where
  "lease_free now r \<longleftrightarrow> holder r = None \<or> (case lease_expires r of None \<Rightarrow> True | Some e \<Rightarrow> e < now)"

definition one_hour :: time where "one_hour = 3600000000"

definition try_acquire :: "time \<Rightarrow> rstr \<Rightarrow> lock_state \<Rightarrow> time option \<times> lock_state" where
  "try_acquire now h s = (case s of
     None \<Rightarrow> (None, None)
   | Some r \<Rightarrow> if lease_free now r
       then (Some (read_clock s), Some (r\<lparr>holder := Some h, lease_expires := Some (now + one_hour),
              last_scan_at := Some now, last_consolidated_at := Some now\<rparr>))
       else (None, s))"

definition release :: "lock_state \<Rightarrow> lock_state" where
  "release s = map_option (\<lambda>r. r\<lparr>holder := None, lease_expires := None, sessions_since_last := 0\<rparr>) s"

definition rollback :: "time \<Rightarrow> lock_state \<Rightarrow> lock_state" where
  "rollback prior s = map_option (\<lambda>r. r\<lparr>last_consolidated_at := Some prior, holder := None, lease_expires := None,
     rollback_count := rollback_count r + 1\<rparr>) s"

section \<open>The gate ladder\<close>

record dream_config =
  min_hours :: rat
  min_sessions :: int
  scan_throttle :: time

definition dream_config_default :: dream_config where
  "dream_config_default = \<lparr>min_hours = 24, min_sessions = 5, scan_throttle = 600000000\<rparr>"

datatype gate_reason = Disabled | TooSoon | Throttled | TooFewSessions | Locked

datatype gate = Pass | StopGate gate_reason

record gate_inputs =
  gi_enabled :: bool
  hours_since :: rat
  throttle_ok :: bool
  captures_since :: int

definition eval_gate :: "gate_inputs \<Rightarrow> dream_config \<Rightarrow> gate" where
  "eval_gate g cfg = (
     if \<not> gi_enabled g then StopGate Disabled
     else if hours_since g < min_hours cfg then StopGate TooSoon
     else if \<not> throttle_ok g then StopGate Throttled
     else if captures_since g < min_sessions cfg then StopGate TooFewSessions
     else Pass)"

text \<open>\<open>num_seconds\<close> truncates toward zero; then \<open>/ 3600.0\<close>.\<close>

definition elapsed_hours :: "time \<Rightarrow> time \<Rightarrow> rat" where
  "elapsed_hours now since = (let d = now - since; secs = if 0 \<le> d then d div 1000000 else - (- d div 1000000)
     in of_int secs / 3600)"

definition dream_enabled :: "rstr option \<Rightarrow> bool" where
  "dream_enabled env = (case env of None \<Rightarrow> True | Some v \<Rightarrow> v \<noteq> str ''false'')"

text \<open>The scheduler keeps, in memory, when it last scanned the tenant.\<close>

definition scan_throttle_ok :: "dream_config \<Rightarrow> time \<Rightarrow> time option \<Rightarrow> bool" where
  "scan_throttle_ok cfg now last_scan = (case last_scan of None \<Rightarrow> True | Some t \<Rightarrow> scan_throttle cfg \<le> now - t)"

section \<open>The scheduler\<close>

record dream_outcome =
  files_touched :: "rstr list"
  turns :: nat

datatype run_result = RunOk dream_outcome | RunErr rstr

datatype dream_result = NoDream | Dreamed dream_outcome | DreamFailed rstr

text \<open>The four operations of the lock trait.\<close>

record 's lock_ops =
  l_read :: "'s \<Rightarrow> time"
  l_acquire :: "time \<Rightarrow> rstr \<Rightarrow> 's \<Rightarrow> time option \<times> 's"
  l_release :: "'s \<Rightarrow> 's"
  l_rollback :: "time \<Rightarrow> 's \<Rightarrow> 's"

definition pg_lock :: "lock_state lock_ops" where
  "pg_lock = \<lparr>l_read = read_clock, l_acquire = try_acquire, l_release = release, l_rollback = rollback\<rparr>"

text \<open>
  What the scheduler is given: configuration, environment variable, the times of the clock reading
  and of the acquisition, the live capture count, the agent (result and state when it returns) and
  whether the run had been cancelled by then.
\<close>

record 's dream_env =
  de_cfg :: dream_config
  de_var :: "rstr option"
  de_now :: time
  de_acquired :: time
  de_captures :: "time \<Rightarrow> int"
  de_runner :: "time \<Rightarrow> 's \<Rightarrow> run_result \<times> 's"
  de_cancelled :: bool

definition dream_due :: "'s lock_ops \<Rightarrow> dream_config \<Rightarrow> rstr option \<Rightarrow> time \<Rightarrow> time option \<Rightarrow> 's \<Rightarrow> bool" where
  "dream_due ops cfg env now last_scan s \<longleftrightarrow> dream_enabled env
     \<and> min_hours cfg \<le> elapsed_hours now (l_read ops s) \<and> scan_throttle_ok cfg now last_scan"

definition cheap_gates :: "'s lock_ops \<Rightarrow> 's dream_env \<Rightarrow> time option \<Rightarrow> 's \<Rightarrow> gate_inputs" where
  "cheap_gates ops de last_scan s = \<lparr>gi_enabled = dream_enabled (de_var de),
     hours_since = elapsed_hours (de_now de) (l_read ops s),
     throttle_ok = scan_throttle_ok (de_cfg de) (de_now de) last_scan, captures_since = i64_max\<rparr>"

text \<open>The result, the stamp of the last scan, the lock.\<close>

definition try_dream :: "'s lock_ops \<Rightarrow> 's dream_env \<Rightarrow> time option \<Rightarrow> 's \<Rightarrow> dream_result \<times> time option \<times> 's" where
  "try_dream ops de last_scan s = (
     let clk = l_read ops s; g = cheap_gates ops de last_scan s
     in if eval_gate g (de_cfg de) \<noteq> Pass then (NoDream, last_scan, s)
        else (let scan = Some (de_now de) in
          if eval_gate (g\<lparr>throttle_ok := True, captures_since := de_captures de clk\<rparr>) (de_cfg de) \<noteq> Pass
          then (NoDream, scan, s)
          else (case l_acquire ops (de_acquired de) (str ''dream-worker'') s of
             (None, s') \<Rightarrow> (NoDream, scan, s')
           | (Some prior, s') \<Rightarrow> (case de_runner de clk s' of
               (RunOk out, s'') \<Rightarrow> (Dreamed out, scan, l_release ops s'')
             | (RunErr e, s'') \<Rightarrow>
                 if de_cancelled de then (NoDream, scan, s'')
                 else (DreamFailed e, scan, l_rollback ops prior s'')))))"

section \<open>The files a dream touched\<close>

text \<open>\<open>guard\<close> is the path guard on the tenant's vault: does it accept this relative path?\<close>

definition md :: rstr where "md = str ''.md''"

definition push_target :: "(rstr \<Rightarrow> bool) \<Rightarrow> rstr \<Rightarrow> rstr list \<Rightarrow> rstr list" where
  "push_target guard raw out = (let cand = trim raw in
     if cand = [] then out
     else (let rel = if ends_with cand md then cand else cand @ md
           in if guard rel \<and> rel \<notin> set out then out @ [rel] else out))"

lemma find_str_bound: "find_str p s = Some i \<Longrightarrow> i + length p \<le> length s"
  using find_str_Some_split by fastforce

function json_args :: "(rstr \<Rightarrow> bool) \<Rightarrow> rstr \<Rightarrow> rstr \<Rightarrow> rstr list \<Rightarrow> rstr list" where
  "json_args guard key rest out = (case find_str key rest of
     None \<Rightarrow> out
   | Some i \<Rightarrow> (let rest1 = drop (i + length key) rest in case find_str (str [CHR 0x22]) rest1 of
       None \<Rightarrow> out
     | Some opn \<Rightarrow> (let aft = drop (opn + 1) rest1 in case find_str (str [CHR 0x22]) aft of
         None \<Rightarrow> out
       | Some close \<Rightarrow> json_args guard key (drop (close + 1) aft) (push_target guard (take close aft) out))))"
  by pat_completeness auto
termination
  by (relation "measure (\<lambda>(_, _, rest, _). length rest)") (auto dest!: find_str_bound)

function wiki_targets :: "(rstr \<Rightarrow> bool) \<Rightarrow> rstr \<Rightarrow> rstr list \<Rightarrow> rstr list" where
  "wiki_targets guard rest out = (case find_str (str ''[['') rest of
     None \<Rightarrow> out
   | Some i \<Rightarrow> (let rest1 = drop (i + 2) rest in case find_str (str '']]'') rest1 of
       None \<Rightarrow> out
     | Some j \<Rightarrow> wiki_targets guard (drop (j + 2) rest1) (push_target guard (take j rest1) out)))"
  by pat_completeness auto
termination
  by (relation "measure (\<lambda>(_, rest, _). length rest)") (auto dest!: find_str_bound)

declare json_args.simps [simp del] wiki_targets.simps [simp del]

definition collect_files_touched :: "(rstr \<Rightarrow> bool) \<Rightarrow> rstr \<Rightarrow> rstr list" where
  "collect_files_touched guard content_text =
     (let quoted = (\<lambda>k. str ([CHR 0x22] @ k @ [CHR 0x22]));
          args = fold (\<lambda>k. json_args guard (quoted k) content_text) [''rel'', ''path'', ''slug''] []
      in wiki_targets guard content_text args)"

section \<open>The contract of the lock\<close>

text \<open>
  What the trait's comments promise. \<open>held now s\<close>: an unexpired lease exists. Acquiring
  succeeds only when none is held, advances the clock to the acquisition and returns the clock from
  before; a refused acquisition changes nothing; releasing keeps the clock and rolling back rewinds
  it, and both free the lease.
\<close>

locale consolidation_lock =
  fixes ops :: "'s lock_ops" and held :: "time \<Rightarrow> 's \<Rightarrow> bool"
  assumes acquire_some: "l_acquire ops now h s = (Some prior, s')
      \<Longrightarrow> prior = l_read ops s \<and> \<not> held now s \<and> l_read ops s' = now \<and> held now s'"
    and acquire_none: "l_acquire ops now h s = (None, s') \<Longrightarrow> s' = s"
    and release_clock: "l_read ops (l_release ops s) = l_read ops s" and release_free: "\<not> held now (l_release ops s)"
    and rollback_clock: "held n s \<Longrightarrow> l_read ops (l_rollback ops prior s) = prior"
    and rollback_free: "\<not> held now (l_rollback ops prior s)"
begin

text \<open>A dream that returns from the agent while its lease is still its own.\<close>

lemma dream_clock:
  assumes "try_dream ops de scan s = (r, scan', s')"
    and runner: "\<And>clk t. snd (de_runner de clk t) = t"
  shows "(case r of
      NoDream \<Rightarrow> s' = s \<or> de_cancelled de \<and> l_read ops s' = de_acquired de \<and> held (de_acquired de) s'
    | Dreamed _ \<Rightarrow> l_read ops s' = de_acquired de \<and> \<not> held n s'
    | DreamFailed _ \<Rightarrow> l_read ops s' = l_read ops s \<and> \<not> held n s')"
proof (cases "l_acquire ops (de_acquired de) (str ''dream-worker'') s")
  case (Pair p t)
  obtain res where run: "de_runner de (l_read ops s) t = (res, t)"
    using runner [of "l_read ops s" t] by (metis prod.collapse)
  show ?thesis
  proof (cases p)
    case None
    then show ?thesis
      using assms(1) Pair acquire_none [of "de_acquired de" _ s t] by (auto simp: try_dream_def Let_def split: if_splits)
  next
    case (Some prior)
    then have t: "prior = l_read ops s" "l_read ops t = de_acquired de" "held (de_acquired de) t"
      using acquire_some Pair by blast+
    have "l_read ops (l_release ops t) = de_acquired de" "l_read ops (l_rollback ops prior t) = l_read ops s"
      using release_clock rollback_clock t by simp_all
    then show ?thesis
      using assms(1) Pair Some t release_free rollback_free run
      by (cases res) (auto simp: try_dream_def Let_def split: if_splits)
  qed
qed

lemma failed_dream_due:
  assumes "try_dream ops de None s = (DreamFailed e, scan', s')" and runner: "\<And>clk t. snd (de_runner de clk t) = t"
  shows "dream_due ops (de_cfg de) (de_var de) (de_now de) None s'"
proof -
  have "l_read ops s' = l_read ops s"
    using dream_clock [OF assms] by simp
  moreover have "eval_gate (cheap_gates ops de None s) (de_cfg de) = Pass"
    using assms(1) by (auto simp: try_dream_def Let_def split: if_splits)
  ultimately show ?thesis
    by (simp add: dream_due_def eval_gate_def cheap_gates_def scan_throttle_ok_def split: if_splits)
qed

end

definition pg_held :: "time \<Rightarrow> lock_state \<Rightarrow> bool" where
  "pg_held now s \<longleftrightarrow> (case s of None \<Rightarrow> False | Some r \<Rightarrow> \<not> lease_free now r)"

lemmas pg_defs = pg_lock_def pg_held_def read_clock_def try_acquire_def release_def rollback_def lease_free_def
  one_hour_def

interpretation pg: consolidation_lock pg_lock pg_held
  by unfold_locales (auto simp: pg_defs split: option.splits if_splits)

section \<open>Facts about the lease and the collected files\<close>

text \<open>Acquisitions one after the other, at the given times, by the given holders.\<close>

fun acquire_all :: "(time \<times> rstr) list \<Rightarrow> lock_state \<Rightarrow> time option list \<times> lock_state" where
  "acquire_all [] s = ([], s)"
| "acquire_all ((now, h) # as) s = (let (p, s') = try_acquire now h s; (ps, s'') = acquire_all as s' in (p # ps, s''))"

lemma lease_blocks:
  "s = Some r \<Longrightarrow> holder r \<noteq> None \<Longrightarrow> lease_expires r = Some e \<Longrightarrow> list_all (\<lambda>(now, _). now \<le> e) as
     \<Longrightarrow> acquire_all as s = (map (\<lambda>_. None) as, s)"
  by (induction as) (auto simp: try_acquire_def lease_free_def)

definition confined :: "(rstr \<Rightarrow> bool) \<Rightarrow> rstr list \<Rightarrow> bool" where
  "confined guard out \<longleftrightarrow> distinct out \<and> list_all (\<lambda>rel. guard rel \<and> ends_with rel md) out"

lemma confined_push: "confined guard out \<Longrightarrow> confined guard (push_target guard raw out)"
  by (auto simp: confined_def push_target_def Let_def ends_with_def suffix_def)

lemma confined_json_args: "confined guard out \<Longrightarrow> confined guard (json_args guard key rest out)"
proof (induction guard key rest out rule: json_args.induct)
  case (1 guard key rest out)
  then show ?case
    by (subst json_args.simps) (auto simp: Let_def confined_push split: option.splits)
qed

lemma confined_wiki_targets: "confined guard out \<Longrightarrow> confined guard (wiki_targets guard rest out)"
proof (induction guard rest out rule: wiki_targets.induct)
  case (1 guard rest out)
  then show ?case
    by (subst wiki_targets.simps) (auto simp: Let_def confined_push split: option.splits)
qed

section \<open>Properties\<close>


text \<open>A free row with the clock at the epoch, and an agent that fails on day 20000.\<close>

definition free_row :: lock_row where
  "free_row = \<lparr>holder = None, lease_expires = None, last_consolidated_at = None, last_scan_at = None,
     sessions_since_last = 0, rollback_count = 0\<rparr>"

definition failing_env :: "lock_state dream_env" where
  "failing_env = \<lparr>de_cfg = dream_config_default, de_var = None, de_now = 1728000000000000, de_acquired = 1728000000000001,
     de_captures = \<lambda>_. 9, de_runner = \<lambda>_ s. (RunErr (str ''ceiling''), s), de_cancelled = False\<rparr>"

lemmas dream_eval = try_dream_def cheap_gates_def eval_gate_def elapsed_hours_def failing_env_def free_row_def
  dream_config_default_def dream_enabled_def scan_throttle_ok_def i64_max_def epoch_def pg_defs

lemma failing_dream:
  "try_dream pg_lock failing_env None (Some free_row) = (DreamFailed (str ''ceiling''), Some 1728000000000000,
     Some (free_row\<lparr>last_scan_at := Some 1728000000000001, last_consolidated_at := Some 0, rollback_count := 1\<rparr>))"
  by (simp add: dream_eval)


text \<open>
  Further: one dreamer for an hour. After an acquisition, whoever tries to acquire, in whatever order,
  until an hour has passed is refused and changes nothing, unless the lease was given up.
\<close>

theorem lease_excludes:
  assumes "try_acquire now h s = (Some prior, s')" "list_all (\<lambda>(t, _). t \<le> now + 3600000000) as"
  shows "acquire_all as s' = (map (\<lambda>_. None) as, s')"
proof -
  obtain r where "s' = Some r" "holder r \<noteq> None" "lease_expires r = Some (now + 3600000000)"
    using assms(1) by (auto simp: try_acquire_def one_hour_def split: option.splits if_splits)
  then show ?thesis
    using assms(2) by (rule lease_blocks)
qed

theorem lease_excludes_witness:
  "acquire_all [(5, str ''b'')] (snd (try_acquire 0 (str ''a'') (Some free_row)))
    = ([None], snd (try_acquire 0 (str ''a'') (Some free_row)))"
  using lease_excludes [of 0 "str ''a''" "Some free_row" 0 "snd (try_acquire 0 (str ''a'') (Some free_row))" "[(5, str ''b'')]"]
  by (simp add: try_acquire_def free_row_def lease_free_def read_clock_def epoch_def)

text \<open>
  Further: a stale holder gives up a lease that is not its own. Releasing checks no holder: when a worker
  has outlived its lease and another acquired after it, the first one's release frees the second
  one's lease, and a third acquires although the second's lease has not expired.
\<close>

theorem stale_release_frees_other:
  assumes "try_acquire ta ha (Some r) = (Some pa, sa)" "try_acquire tb hb sa = (Some pb, sb)"
    and "tc \<le> tb + 3600000000"
  shows "fst (try_acquire tc hc sb) = None \<and> fst (try_acquire tc hc (release sb)) \<noteq> None"
  using assms by (auto simp: try_acquire_def release_def lease_free_def one_hour_def split: if_splits)

theorem stale_release_frees_other_witness:
  "let sb = snd (try_acquire 3600000001 (str ''b'') (snd (try_acquire 0 (str ''a'') (Some free_row))))
   in fst (try_acquire 3600000002 (str ''c'') sb) = None \<and> fst (try_acquire 3600000002 (str ''c'') (release sb)) \<noteq> None"
  unfolding Let_def
  by (rule stale_release_frees_other [where ta = 0 and ha = "str ''a''" and r = free_row and pa = 0
        and sa = "snd (try_acquire 0 (str ''a'') (Some free_row))" and tb = 3600000001 and hb = "str ''b''" and pb = 0])
    (simp_all add: try_acquire_def free_row_def lease_free_def read_clock_def epoch_def one_hour_def)

text \<open>
  Further: without a row nothing is ever dreamed. For a tenant that has no row in the table (no code
  inserts one) the dream is due at every time a day past the epoch, and every attempt ends without a
  dream and leaves the table as it is.
\<close>

theorem no_row_no_dream:
  "fst (try_dream pg_lock de scan None) = NoDream \<and> snd (snd (try_dream pg_lock de scan None)) = None
   \<and> dream_due pg_lock dream_config_default None 1728000000000000 None None"
  by (simp add: try_dream_def dream_due_def elapsed_hours_def dream_enabled_def dream_config_default_def
      scan_throttle_ok_def epoch_def pg_defs Let_def)

text \<open>
  Further: a failed dream is due again at once. Each job makes its own scheduler, whose throttle map is
  empty, and the rollback rewinds the clock: right after a failure the next scheduler finds the
  dream due at the very same time, so nothing backs off.
\<close>

theorem failed_dream_not_throttled:
  assumes "try_dream pg_lock de None s = (DreamFailed e, scan', s')" and "\<And>clk t. snd (de_runner de clk t) = t"
  shows "dream_due pg_lock (de_cfg de) (de_var de) (de_now de) None s'"
  by (rule pg.failed_dream_due [OF assms])

theorem failed_dream_not_throttled_witness:
  "dream_due pg_lock dream_config_default None 1728000000000000 None
     (Some (free_row\<lparr>last_scan_at := Some 1728000000000001, last_consolidated_at := Some 0, rollback_count := 1\<rparr>))"
  using failed_dream_not_throttled [OF failing_dream] by (simp add: failing_env_def)

text \<open>
  Further: touched files are confined. Whatever the model answers, the reported files are distinct
  Markdown paths that the path guard accepts.
\<close>

theorem files_touched_confined:
  "distinct (collect_files_touched guard content_text)
   \<and> list_all (\<lambda>rel. guard rel \<and> ends_with rel md) (collect_files_touched guard content_text)"
proof -
  let ?args = "fold (\<lambda>k. json_args guard (str ([CHR 0x22] @ k @ [CHR 0x22])) content_text) [''rel'', ''path'', ''slug''] []"
  have "confined guard (fold (\<lambda>k. json_args guard (f k) content_text) ks out)"
    if "confined guard out" for f :: "string \<Rightarrow> rstr" and ks out
    using that by (induction ks arbitrary: out) (simp_all add: confined_json_args)
  moreover have "confined guard []"
    by (simp add: confined_def)
  ultimately have "confined guard ?args" .
  then have "confined guard (wiki_targets guard content_text ?args)"
    by (rule confined_wiki_targets)
  then show ?thesis
    unfolding collect_files_touched_def Let_def confined_def .
qed

end
