(* ===== verification/Wiki_Text.thy ===== *)
theory Wiki_Text
  imports Rust_Strings
begin

text \<open>
  The text transformations of the wiki: slugs (\<open>utils/slugify\<close>), the link sanitizer and the link
  parser (\<open>utils/linksan\<close>), and the repair of polluted basenames (\<open>wiki/lint/scanners.rs\<close>). Unicode's
  character tables (\<open>char::is_alphanumeric\<close>, \<open>char::to_lowercase\<close>) are a parameter. Each regular
  expression is a matcher that reads a match at the start of a text: in every one of them a
  character class ends at a character it excludes, so the greedy match is the only one.
\<close>

section \<open>Slugs\<close>

record unicode =
  alnum :: "rchar \<Rightarrow> bool"
  lower :: "rchar \<Rightarrow> rstr"

definition hyphen :: rchar where "hyphen = 45"

definition slug_step :: "unicode \<Rightarrow> rchar \<Rightarrow> rstr \<times> bool \<Rightarrow> rstr \<times> bool" where
  "slug_step u c st = (case st of (out, prev_hyphen) \<Rightarrow>
     if alnum u c then (out @ lower u c, False)
     else if \<not> prev_hyphen \<and> out \<noteq> [] then (out @ [hyphen], True)
     else (out, prev_hyphen))"

definition slugify :: "unicode \<Rightarrow> rstr \<Rightarrow> rstr" where
  "slugify u title = (let out = rev (dropWhile (\<lambda>c. c = hyphen) (rev (fst (fold (slug_step u) (trim title) ([], False)))))
     in if out = [] then str ''untitled'' else out)"

section \<open>Links\<close>

definition folders :: "rstr list" where
  "folders = map str [''entities/'', ''concepts/'', ''sources/'']"

text \<open>A matcher returns what it captured and how many characters it matched.\<close>

type_synonym matcher = "rstr \<Rightarrow> (rstr \<times> nat) option"

definition lit :: "rstr \<Rightarrow> rstr \<Rightarrow> rstr option" where
  "lit p s = strip_prefix_str s p"

definition folder :: "rstr \<Rightarrow> rstr option" where
  "folder s = (case List.map_filter (\<lambda>f. lit f s) folders of [] \<Rightarrow> None | r # _ \<Rightarrow> Some r)"

text \<open>One or more characters outside the class, and the rest.\<close>

definition many :: "(rchar \<Rightarrow> bool) \<Rightarrow> rstr \<Rightarrow> (rstr \<times> rstr) option" where
  "many ok s = (if takeWhile ok s = [] then None else Some (takeWhile ok s, dropWhile ok s))"

definition not_bar :: "rchar \<Rightarrow> bool" where "not_bar c \<longleftrightarrow> c \<noteq> 124 \<and> c \<noteq> 93"
definition not_close :: "rchar \<Rightarrow> bool" where "not_close c \<longleftrightarrow> c \<noteq> 93"

definition matched :: "rstr \<Rightarrow> rstr \<Rightarrow> rstr option \<Rightarrow> (rstr \<times> nat) option" where
  "matched s cap rest = map_option (\<lambda>r. (cap, length s - length r)) rest"

definition SELF_DUP :: matcher where
  "SELF_DUP s = Option.bind (lit (str ''[['') s) (\<lambda>s1. Option.bind (folder s1) (\<lambda>s2.
     Option.bind (many not_bar s2) (\<lambda>(cap, s3). Option.bind (lit [124] s3) (\<lambda>s4.
     Option.bind (folder s4) (\<lambda>s5. Option.bind (many not_close s5) (\<lambda>(_, s6).
     matched s cap (lit (str '']]'') s6)))))))"

definition DOUBLE_NEST :: matcher where
  "DOUBLE_NEST s = Option.bind (lit (str ''[['') s) (\<lambda>s1. Option.bind (folder s1) (\<lambda>s2.
     Option.bind (folder s2) (\<lambda>s3. Option.bind (many not_bar s3) (\<lambda>(cap, s4).
     matched s cap (lit (str '']]'') s4)))))"

definition FOLDER_DISP :: matcher where
  "FOLDER_DISP s = Option.bind (lit (str ''[['') s) (\<lambda>s1. Option.bind (folder s1) (\<lambda>s2.
     Option.bind (many not_bar s2) (\<lambda>(_, s3). Option.bind (lit [124] s3) (\<lambda>s4.
     Option.bind (many not_close s4) (\<lambda>(cap, s5). matched s cap (lit (str '']]'') s5))))))"

definition ANY_LINK :: matcher where
  "ANY_LINK s = Option.bind (lit (str ''[['') s) (\<lambda>s1. Option.bind (many not_close s1) (\<lambda>(cap, s2).
     matched s cap (lit (str '']]'') s2)))"

text \<open>\<open>replace_all(body, "[[$1]]")\<close> and \<open>captures_iter\<close>: leftmost matches, one after the other.\<close>

function replace_links_text :: "matcher \<Rightarrow> rstr \<Rightarrow> rstr" where
  "replace_links_text m [] = []"
| "replace_links_text m (c # s) = (case m (c # s) of
     Some (cap, n) \<Rightarrow> str ''[['' @ cap @ str '']]'' @ replace_links_text m (drop (n - 1) s)
   | None \<Rightarrow> c # replace_links_text m s)"
  by pat_completeness auto
termination
  by (relation "measure (\<lambda>(m, s). length s)") auto

function captures :: "matcher \<Rightarrow> rstr \<Rightarrow> rstr list" where
  "captures m [] = []"
| "captures m (c # s) = (case m (c # s) of
     Some (cap, n) \<Rightarrow> cap # captures m (drop (n - 1) s)
   | None \<Rightarrow> captures m s)"
  by pat_completeness auto
termination
  by (relation "measure (\<lambda>(m, s). length s)") auto

definition sanitize_links :: "rstr \<Rightarrow> rstr" where
  "sanitize_links body = replace_links_text FOLDER_DISP (replace_links_text DOUBLE_NEST (replace_links_text SELF_DUP body))"

record parsed_link =
  target_slug :: rstr
  target_type :: "rstr option"
  display :: "rstr option"

definition folder_to_type :: "rstr \<Rightarrow> rstr option" where
  "folder_to_type f = map_of [(str ''entities'', str ''entity''), (str ''concepts'', str ''concept''),
     (str ''sources'', str ''source'')] f"

definition parse_link :: "rstr \<Rightarrow> parsed_link" where
  "parse_link inner = (let (target, disp) = (case split_once 124 inner of
         Some (t, d) \<Rightarrow> (trim t, Some (trim d)) | None \<Rightarrow> (trim inner, None));
       (ty, slug) = (case split_once 47 target of
         Some (f, rest) \<Rightarrow> (folder_to_type f, rest) | None \<Rightarrow> (None, target))
     in \<lparr>target_slug = slug, target_type = ty, display = disp\<rparr>)"

definition parse_wikilinks :: "rstr \<Rightarrow> parsed_link list" where
  "parse_wikilinks body = map parse_link (captures ANY_LINK body)"

definition fix_polluted_basename :: "rstr \<Rightarrow> rstr" where
  "fix_polluted_basename p = (case List.map_filter (\<lambda>f. map_option ((@) f) (lit (f @ f) p)) folders of
     [] \<Rightarrow> p | q # _ \<Rightarrow> q)"

section \<open>Facts about slugs\<close>

text \<open>What the code relies on of Unicode: hyphen, dot, slash and NUL are not alphanumeric and no
  alphanumeric character has them in its lower case, which is never empty.\<close>

definition unicode_ok :: "unicode \<Rightarrow> bool" where
  "unicode_ok u \<longleftrightarrow> list_all (\<lambda>p. \<not> alnum u p) [45, 46, 47, 0]
     \<and> (\<forall>c. alnum u c \<longrightarrow> lower u c \<noteq> [] \<and> set (lower u c) \<inter> {45, 46, 47, 0} = {})"

definition slug_chars :: "rstr \<Rightarrow> bool" where
  "slug_chars s \<longleftrightarrow> set s \<inter> {46, 47, 0} = {} \<and> successively (\<lambda>a b. a = 45 \<longrightarrow> b \<noteq> 45) s \<and> (s = [] \<or> hd s \<noteq> 45)"

definition slug_state_ok :: "rstr \<times> bool \<Rightarrow> bool" where
  "slug_state_ok st \<longleftrightarrow> slug_chars (fst st) \<and> (snd st \<longleftrightarrow> fst st \<noteq> [] \<and> last (fst st) = 45)"

lemma successively_no_hyphen: "45 \<notin> set xs \<Longrightarrow> successively (\<lambda>a b. a = 45 \<longrightarrow> b \<noteq> 45) (xs :: rstr)"
  by (induction xs rule: induct_list012) auto

lemma slug_chars_append:
  "slug_chars (out @ xs) \<longleftrightarrow> slug_chars out \<and> set xs \<inter> {46, 47, 0} = {}
     \<and> successively (\<lambda>a b. a = 45 \<longrightarrow> b \<noteq> 45) xs \<and> (xs = [] \<or> hd xs \<noteq> 45 \<or> out \<noteq> [] \<and> last out \<noteq> 45)"
  by (cases "out = []") (auto simp: slug_chars_def successively_append_iff)

lemma slug_step_ok:
  assumes "unicode_ok u" "slug_state_ok st"
  shows "slug_state_ok (slug_step u c st)"
proof (cases st)
  case (Pair out prev)
  show ?thesis
  proof (cases "alnum u c")
    case True
    then have low: "lower u c \<noteq> []" "set (lower u c) \<inter> {45, 46, 47, 0} = {}"
      using assms(1) by (auto simp: unicode_ok_def)
    then have "hd (lower u c) \<noteq> 45" "last (lower u c) \<noteq> 45" "45 \<notin> set (lower u c)"
      using hd_in_set [of "lower u c"] last_in_set [of "lower u c"] by (metis disjoint_insert(1))+
    then show ?thesis
      using assms(2) Pair True low
      by (auto simp: slug_state_ok_def slug_step_def slug_chars_append successively_no_hyphen)
  next
    case False
    then show ?thesis
      using assms(2) Pair by (auto simp: slug_state_ok_def slug_step_def slug_chars_append hyphen_def)
  qed
qed

lemma slug_fold_ok: "unicode_ok u \<Longrightarrow> slug_state_ok st \<Longrightarrow> slug_state_ok (fold (slug_step u) cs st)"
  by (induction cs arbitrary: st) (simp_all add: slug_step_ok)

lemma slug_chars_trim: "slug_chars out \<Longrightarrow> slug_chars (rev (dropWhile P (rev out)))"
proof -
  have "out = rev (dropWhile P (rev out)) @ rev (takeWhile P (rev out))"
    by (metis rev_append rev_rev_ident takeWhile_dropWhile_id)
  then show "slug_chars out \<Longrightarrow> ?thesis"
    by (metis slug_chars_append)
qed

section \<open>Facts about links\<close>

text \<open>A text without a link into a folder.\<close>

definition clean_links :: "rstr \<Rightarrow> bool" where
  "clean_links s \<longleftrightarrow> list_all (\<lambda>f. \<not> contains s (str ''[['' @ f)) folders"

lemma lit_Some: "lit p s = Some r \<Longrightarrow> s = p @ r"
  by (auto simp: lit_def strip_prefix_str_def prefix_def split: if_splits)

lemma folder_Some: "folder s = Some r \<Longrightarrow> \<exists>f\<in>set folders. s = f @ r"
  by (auto simp: folder_def folders_def List.map_filter_simps dest!: lit_Some split: option.splits)

lemma folder_match_not_clean:
  assumes "lit (str ''[['') s = Some s1" "folder s1 = Some s2"
  shows "\<not> clean_links s"
proof -
  obtain f where "f \<in> set folders" "s = (str ''[['' @ f) @ s2"
    using lit_Some [OF assms(1)] folder_Some [OF assms(2)] by auto
  then have "contains s (str ''[['' @ f)"
    by (simp only: contains_iff_sublist) (simp add: prefix_imp_sublist)
  then show ?thesis
    using \<open>f \<in> set folders\<close> by (auto simp: clean_links_def list_all_iff)
qed

lemma clean_no_match:
  assumes "clean_links s"
  shows "SELF_DUP s = None" "DOUBLE_NEST s = None" "FOLDER_DISP s = None"
proof -
  have "Option.bind (lit (str ''[['') s) (\<lambda>s1. Option.bind (folder s1) k) = None" for k :: "rstr \<Rightarrow> (rstr \<times> nat) option"
    using folder_match_not_clean [of s] assms
    by (cases "lit (str ''[['') s"; cases "folder (the (lit (str ''[['') s))") auto
  then show "SELF_DUP s = None" "DOUBLE_NEST s = None" "FOLDER_DISP s = None"
    by (simp_all only: SELF_DUP_def DOUBLE_NEST_def FOLDER_DISP_def)
qed

lemma clean_Cons: "clean_links (c # s) \<Longrightarrow> clean_links s"
  by (auto simp: clean_links_def list_all_iff dest: not_contains_Cons)

lemma replace_links_id: "(\<And>t. clean_links t \<Longrightarrow> m t = None) \<Longrightarrow> clean_links s \<Longrightarrow> replace_links_text m s = s"
  by (induction s) (auto dest: clean_Cons)

text \<open>A match starts with brackets and a folder, so it cannot start before a line break and end after it.\<close>

lemma match_prefix:
  assumes "SELF_DUP s \<noteq> None \<or> DOUBLE_NEST s \<noteq> None \<or> FOLDER_DISP s \<noteq> None"
  shows "\<exists>f\<in>set folders. prefix (str ''[['' @ f) s"
proof -
  have "\<exists>f\<in>set folders. prefix (str ''[['' @ f) s"
    if hit: "Option.bind (lit (str ''[['') s) (\<lambda>s1. Option.bind (folder s1) k) \<noteq> None" for k :: "rstr \<Rightarrow> (rstr \<times> nat) option"
  proof -
    obtain s1 s2 where parts: "lit (str ''[['') s = Some s1" "folder s1 = Some s2"
      using hit by (cases "lit (str ''[['') s"; cases "folder (the (lit (str ''[['') s))") auto
    obtain f where "f \<in> set folders" "s = (str ''[['' @ f) @ s2"
      using lit_Some [OF parts(1)] folder_Some [OF parts(2)] by auto
    then show ?thesis
      by (intro bexI [of _ f]) (simp_all only: prefixI)
  qed
  then show ?thesis
    using assms by (simp only: SELF_DUP_def DOUBLE_NEST_def FOLDER_DISP_def) blast
qed

lemma prefix_before: "prefix p (b @ c # r) \<Longrightarrow> c \<notin> set p \<Longrightarrow> prefix p b"
proof (induction b arbitrary: p)
  case Nil
  then show ?case
    by (cases p) auto
next
  case (Cons x b)
  then show ?case
    by (cases p) auto
qed

lemma clean_before_break:
  assumes "clean_links b"
  shows "SELF_DUP (b @ 10 # t) = None" "DOUBLE_NEST (b @ 10 # t) = None" "FOLDER_DISP (b @ 10 # t) = None"
proof -
  have False if "prefix (str ''[['' @ f) (b @ 10 # t)" "f \<in> set folders" for f
  proof -
    have "10 \<notin> set (str ''[['' @ f)"
      using that(2) by (auto simp: folders_def str_def)
    then have "contains b (str ''[['' @ f)"
      using prefix_before [OF that(1)] by (simp only: contains_iff_sublist) (simp add: prefix_imp_sublist)
    then show False
      using assms that(2) by (auto simp: clean_links_def list_all_iff)
  qed
  then show "SELF_DUP (b @ 10 # t) = None" "DOUBLE_NEST (b @ 10 # t) = None" "FOLDER_DISP (b @ 10 # t) = None"
    using match_prefix by blast+
qed

lemma replace_links_append:
  assumes "\<And>c. clean_links c \<Longrightarrow> m (c @ 10 # t) = None"
  shows "clean_links b \<Longrightarrow> replace_links_text m (b @ 10 # t) = b @ 10 # replace_links_text m t"
proof (induction b)
  case Nil
  then show ?case
    using assms [of "[]"] by simp
next
  case (Cons c b)
  then show ?case
    using assms [of "c # b"] clean_Cons by simp
qed

lemma sanitize_append: "clean_links b \<Longrightarrow> \<exists>u. sanitize_links (b @ 10 # t) = b @ 10 # u"
  by (simp add: sanitize_links_def replace_links_append clean_before_break)

section \<open>Properties\<close>

text \<open>
  Further: slugs are safe file names. Whatever the title, its slug is not empty, contains no dot, no
  slash and no NUL (so no path made of it climbs out of its folder), starts and ends with no hyphen
  and has no two hyphens in a row.
\<close>

theorem slug_path_safe:
  assumes "unicode_ok u"
  shows "slugify u title \<noteq> [] \<and> set (slugify u title) \<inter> {46, 47, 0} = {}
    \<and> hd (slugify u title) \<noteq> 45 \<and> last (slugify u title) \<noteq> 45
    \<and> successively (\<lambda>a b. \<not> (a = 45 \<and> b = 45)) (slugify u title)"
proof -
  let ?out = "rev (dropWhile (\<lambda>c. c = hyphen) (rev (fst (fold (slug_step u) (trim title) ([], False)))))"
  have "slug_state_ok ([], False)"
    by (simp add: slug_state_ok_def slug_chars_def)
  then have "slug_chars ?out"
    using slug_fold_ok [OF assms, of "([], False)" "trim title"] by (simp add: slug_state_ok_def slug_chars_trim)
  moreover have "?out = [] \<or> last ?out \<noteq> 45"
    using hd_dropWhile [of "\<lambda>c. c = hyphen" "rev (fst (fold (slug_step u) (trim title) ([], False)))"]
    by (auto simp: last_rev hyphen_def dropWhile_eq_Nil_conv simp del: set_rev)
  moreover have "slug_chars (str ''untitled'')"
    by (simp add: slug_chars_def str_eval)
  ultimately show ?thesis
    by (auto simp: slugify_def Let_def slug_chars_def str_eval)
qed

definition ascii_unicode :: unicode where
  "ascii_unicode = \<lparr>alnum = (\<lambda>c. 48 \<le> c \<and> c \<le> 57 \<or> 65 \<le> c \<and> c \<le> 90 \<or> 97 \<le> c \<and> c \<le> 122),
     lower = (\<lambda>c. [to_ascii_lower c])\<rparr>"

lemma ascii_unicode_ok: "unicode_ok ascii_unicode"
  by (auto simp: unicode_ok_def ascii_unicode_def to_ascii_lower_def)

theorem slug_path_safe_witness:
  "slugify ascii_unicode (str ''../C++ / Rust'') \<noteq> [] \<and> set (slugify ascii_unicode (str ''../C++ / Rust'')) \<inter> {46, 47, 0} = {}
    \<and> hd (slugify ascii_unicode (str ''../C++ / Rust'')) \<noteq> 45 \<and> last (slugify ascii_unicode (str ''../C++ / Rust'')) \<noteq> 45
    \<and> successively (\<lambda>a b. \<not> (a = 45 \<and> b = 45)) (slugify ascii_unicode (str ''../C++ / Rust''))"
  by (rule slug_path_safe [OF ascii_unicode_ok])

text \<open>
  Further: the sanitizer leaves clean links alone: a body without a link into one of the three folders
  is returned as it is.
\<close>

theorem sanitize_clean:
  assumes "clean_links body"
  shows "sanitize_links body = body"
  unfolding sanitize_links_def
  using assms clean_no_match by (simp add: replace_links_id)

theorem sanitize_clean_witness: "sanitize_links (str ''see [[rust|Rust]] [x'') = str ''see [[rust|Rust]] [x''"
  by (rule sanitize_clean) code_simp

text \<open>
  Further: one pass does not remove all pollution, and it forgets targets: a link nested four folders
  deep is still doubly nested afterwards, and a well-formed link into a folder with a display text
  loses the page it points to.
\<close>

theorem sanitize_residue:
  "sanitize_links (str ''[[entities/entities/entities/entities/x]]'') = str ''[[entities/entities/x]]''
   \<and> parse_wikilinks (str ''[[entities/rust|The language]]'')
       = [\<lparr>target_slug = str ''rust'', target_type = Some (str ''entity''), display = Some (str ''The language'')\<rparr>]
   \<and> parse_wikilinks (sanitize_links (str ''[[entities/rust|The language]]''))
       = [\<lparr>target_slug = str ''The language'', target_type = None, display = None\<rparr>]"
  by code_simp

end
