(* ===== verification/Wiki_Pages.thy ===== *)
theory Wiki_Pages
  imports Wiki_Text
begin

text \<open>
  The wiki's write path: page types (\<open>wiki/page.rs\<close>), the path guard (\<open>wiki/path_guard.rs\<close>), the
  page and link tables (\<open>store/wiki_repo.rs\<close>), the single write gate (\<open>wiki/write_gate.rs\<close>), the
  conflict ladder (\<open>wiki/conflict.rs\<close>) and the page factory (\<open>wiki/page_factory.rs\<close>). The state is
  the two tables and the files. A table is a list of rows in scan order; the queries' row-level
  security is the tenant test. Parameters (\<open>gate_env\<close>): the tenant and its vault root, the quota,
  the SHA-256 function, Unicode's tables, and whether the file system resolves a path outside the
  root. Fresh ids are arguments; an id that exists violates the primary key.
\<close>

section \<open>Page types\<close>

datatype page_type = Entity | Concept | Source | Index | Log | Contradiction | Schema | Comparison | Overview

fun page_as_str :: "page_type \<Rightarrow> string" where
  "page_as_str Entity = ''entity''"
| "page_as_str Concept = ''concept''"
| "page_as_str Source = ''source''"
| "page_as_str Index = ''index''"
| "page_as_str Log = ''log''"
| "page_as_str Contradiction = ''contradiction''"
| "page_as_str Schema = ''schema''"
| "page_as_str Comparison = ''comparison''"
| "page_as_str Overview = ''overview''"

definition page_types :: "page_type list" where
  "page_types = [Entity, Concept, Source, Index, Log, Contradiction, Schema, Comparison, Overview]"

definition page_parse :: "rstr \<Rightarrow> page_type option" where
  "page_parse s = find (\<lambda>t. str (page_as_str t) = s) page_types"

fun page_folder :: "page_type \<Rightarrow> string option" where
  "page_folder Entity = Some ''entities''"
| "page_folder Concept = Some ''concepts''"
| "page_folder Source = Some ''sources''"
| "page_folder _ = None"

section \<open>The state\<close>

record page =
  p_id :: uuid
  p_tenant :: uuid
  p_type :: page_type
  p_slug :: rstr
  p_title :: rstr
  p_aliases :: "rstr list"
  p_tags :: "rstr list"
  p_summary :: rstr
  p_char_len :: nat
  p_body_ref :: rstr
  p_source_ids :: "uuid list"
  p_content_hash :: rstr
  p_sync_version :: nat
  p_reviewed :: bool
  p_deleted :: bool

record wiki_link =
  l_tenant :: uuid
  l_src :: uuid
  l_slug :: rstr
  l_type :: "rstr option"
  l_target :: "uuid option"
  l_display :: "rstr option"

record wiki =
  pages :: "page list"
  wlinks :: "wiki_link list"
  files :: "rstr \<rightharpoonup> rstr"

record gate_env =
  ge_tenant :: uuid
  ge_root :: rstr
  ge_max_pages :: nat
  ge_max_bytes :: nat
  ge_escapes :: "rstr \<Rightarrow> bool"
  ge_hash :: "rstr \<Rightarrow> rstr"
  ge_unicode :: unicode
  ge_lowercase :: "rstr \<Rightarrow> rstr"

definition live :: "gate_env \<Rightarrow> page \<Rightarrow> bool" where
  "live env p \<longleftrightarrow> p_tenant p = ge_tenant env \<and> \<not> p_deleted p"

section \<open>The repository\<close>

definition existing_pages :: "gate_env \<Rightarrow> wiki \<Rightarrow> page list" where
  "existing_pages env s = filter (live env) (pages s)"

definition page_by_id :: "gate_env \<Rightarrow> uuid \<Rightarrow> wiki \<Rightarrow> page option" where
  "page_by_id env i s = find (\<lambda>p. p_tenant p = ge_tenant env \<and> p_id p = i) (pages s)"

definition named :: "rstr \<Rightarrow> page \<Rightarrow> bool" where
  "named k p \<longleftrightarrow> p_slug p = k \<or> k \<in> set (p_aliases p)"

definition body_ref_by_slug :: "gate_env \<Rightarrow> rstr \<Rightarrow> wiki \<Rightarrow> rstr option" where
  "body_ref_by_slug env k s = map_option p_body_ref (find (named k) (existing_pages env s))"

definition vault_usage :: "gate_env \<Rightarrow> wiki \<Rightarrow> nat \<times> nat" where
  "vault_usage env s = (length (existing_pages env s), sum_list (map p_char_len (existing_pages env s)))"

record page_upsert =
  u_type :: rstr
  u_slug :: rstr
  u_title :: rstr
  u_aliases :: "rstr list"
  u_tags :: "rstr list"
  u_summary :: rstr
  u_char_len :: nat
  u_body_ref :: rstr
  u_source_ids :: "uuid list"
  u_content_hash :: rstr

definition conflicting :: "gate_env \<Rightarrow> page_type \<Rightarrow> rstr \<Rightarrow> page \<Rightarrow> bool" where
  "conflicting env ty slug p \<longleftrightarrow> live env p \<and> p_type p = ty \<and> p_slug p = slug"

definition insert_row :: "gate_env \<Rightarrow> uuid \<Rightarrow> page_type \<Rightarrow> page_upsert \<Rightarrow> page" where
  "insert_row env i ty u = \<lparr>p_id = i, p_tenant = ge_tenant env, p_type = ty, p_slug = u_slug u, p_title = u_title u,
     p_aliases = u_aliases u, p_tags = u_tags u, p_summary = u_summary u, p_char_len = u_char_len u,
     p_body_ref = u_body_ref u, p_source_ids = u_source_ids u, p_content_hash = u_content_hash u,
     p_sync_version = 1, p_reviewed = False, p_deleted = False\<rparr>"

definition update_row :: "page_upsert \<Rightarrow> page \<Rightarrow> page" where
  "update_row u p = p\<lparr>p_title := u_title u, p_aliases := u_aliases u, p_tags := u_tags u, p_summary := u_summary u,
     p_char_len := u_char_len u, p_content_hash := u_content_hash u,
     p_source_ids := remdups (p_source_ids p @ u_source_ids u), p_sync_version := p_sync_version p + 1\<rparr>"

text \<open>\<open>INSERT .. ON CONFLICT (tenant_id, type, slug) WHERE deleted_at IS NULL DO UPDATE\<close>; the cast of
  the type fails on a text that is no page type.\<close>

definition upsert_page :: "gate_env \<Rightarrow> uuid \<Rightarrow> page_upsert \<Rightarrow> wiki \<Rightarrow> (uuid \<times> wiki) option" where
  "upsert_page env new_id u s = (case page_parse (u_type u) of
     None \<Rightarrow> None
   | Some ty \<Rightarrow> (case find (conflicting env ty (u_slug u)) (pages s) of
       Some p \<Rightarrow> Some (p_id p, s\<lparr>pages := map (\<lambda>q. if conflicting env ty (u_slug u) q then update_row u q else q) (pages s)\<rparr>)
     | None \<Rightarrow> if new_id \<in> p_id ` set (pages s) then None
         else Some (new_id, s\<lparr>pages := pages s @ [insert_row env new_id ty u]\<rparr>)))"

definition link_row :: "gate_env \<Rightarrow> uuid \<Rightarrow> wiki \<Rightarrow> parsed_link \<Rightarrow> wiki_link" where
  "link_row env src s l = \<lparr>l_tenant = ge_tenant env, l_src = src, l_slug = target_slug l, l_type = target_type l,
     l_target = map_option p_id (find (named (target_slug l)) (existing_pages env s)), l_display = display l\<rparr>"

definition replace_links :: "gate_env \<Rightarrow> uuid \<Rightarrow> parsed_link list \<Rightarrow> wiki \<Rightarrow> wiki" where
  "replace_links env src ls s = (let mine = (\<lambda>l. l_tenant l = ge_tenant env \<and> l_src l = src);
       kept = filter (\<lambda>l. \<not> mine l) (wlinks s);
       add = (\<lambda>l acc. if \<exists>k\<in>set acc. mine k \<and> l_slug k = target_slug l then acc else acc @ [link_row env src s l])
     in s\<lparr>wlinks := fold add ls kept\<rparr>)"

definition soft_delete :: "gate_env \<Rightarrow> uuid \<Rightarrow> wiki \<Rightarrow> wiki" where
  "soft_delete env i s = s\<lparr>pages := map (\<lambda>p. if live env p \<and> p_id p = i then p\<lparr>p_deleted := True\<rparr> else p) (pages s)\<rparr>"

section \<open>The write gate\<close>

datatype path_error = Escapes | Illegal | NotMarkdown | TooBig

definition BODY_SIZE_CAP :: nat where "BODY_SIZE_CAP = 1000000"

text \<open>The path under the root, \<open>root/rel\<close>. The size test looks at the file that is there.\<close>

definition resolve_in_root :: "gate_env \<Rightarrow> (rstr \<rightharpoonup> rstr) \<Rightarrow> rstr \<Rightarrow> nat \<Rightarrow> path_error + rstr" where
  "resolve_in_root env fs rel size_cap = (let path = ge_root env @ str ''/'' @ rel in
     if 0 \<in> set rel \<or> contains rel (str ''..'') then Inl Illegal
     else if \<not> ends_with rel (str ''.md'') then Inl NotMarkdown
     else if ge_escapes env rel then Inl Escapes
     else (case fs path of
       Some body \<Rightarrow> if size_cap < utf8_len body then Inl TooBig else Inr path
     | None \<Rightarrow> Inr path))"

record page_write =
  w_type :: rstr
  w_slug :: rstr
  w_title :: rstr
  w_aliases :: "rstr list"
  w_tags :: "rstr list"
  w_summary :: rstr
  w_source_ids :: "uuid list"
  w_body :: rstr
  w_created :: "rstr option"
  w_reviewed :: "bool option"

datatype gate_error = QuotaExceeded | PathError path_error | DbError | NoPage | NoBody | LlmError rstr

definition rel_path :: "rstr \<Rightarrow> rstr \<Rightarrow> rstr" where
  "rel_path ty slug = (case Option.bind (page_parse ty) page_folder of
     None \<Rightarrow> slug @ str ''.md''
   | Some f \<Rightarrow> str f @ str ''/'' @ slug @ str ''.md'')"

definition page_char_len :: "rstr \<Rightarrow> nat" where
  "page_char_len body = min (length body) 2147483647"

definition over_quota :: "gate_env \<Rightarrow> nat \<Rightarrow> wiki \<Rightarrow> bool" where
  "over_quota env len s \<longleftrightarrow> ge_max_pages env \<le> fst (vault_usage env s)
     \<or> ge_max_bytes env < min (snd (vault_usage env s) + len) (2 ^ 64 - 1)"

definition upsert_of :: "gate_env \<Rightarrow> page_write \<Rightarrow> rstr \<Rightarrow> page_upsert" where
  "upsert_of env w path = (let body = sanitize_links (w_body w) in
     \<lparr>u_type = w_type w, u_slug = w_slug w, u_title = w_title w, u_aliases = w_aliases w, u_tags = w_tags w,
      u_summary = w_summary w, u_char_len = page_char_len body, u_body_ref = path, u_source_ids = w_source_ids w,
      u_content_hash = ge_hash env body\<rparr>)"

definition write_page :: "gate_env \<Rightarrow> uuid \<Rightarrow> page_write \<Rightarrow> wiki \<Rightarrow> (gate_error + uuid) \<times> wiki" where
  "write_page env new_id w s = (let sanitized = sanitize_links (w_body w) in
     if over_quota env (page_char_len sanitized) s then (Inl QuotaExceeded, s)
     else (case resolve_in_root env (files s) (rel_path (w_type w) (w_slug w)) BODY_SIZE_CAP of
       Inl e \<Rightarrow> (Inl (PathError e), s)
     | Inr path \<Rightarrow> (let s1 = s\<lparr>files := (files s)(path \<mapsto> sanitized)\<rparr> in
         case upsert_page env new_id (upsert_of env w path) s1 of
           None \<Rightarrow> (Inl DbError, s1)
         | Some (i, s2) \<Rightarrow> (Inr i, replace_links env i (parse_wikilinks sanitized) s2))))"

definition read_body :: "gate_env \<Rightarrow> uuid \<Rightarrow> wiki \<Rightarrow> gate_error + rstr" where
  "read_body env i s = (case page_by_id env i s of
     None \<Rightarrow> Inl NoPage
   | Some p \<Rightarrow> (case files s (p_body_ref p) of None \<Rightarrow> Inl NoBody | Some b \<Rightarrow> Inr b))"

section \<open>The conflict ladder\<close>

datatype resolve_action = Create | Merge | Flag

record resolution =
  r_action :: resolve_action
  r_target :: "uuid option"
  r_existing_type :: "page_type option"

definition same_slug :: "gate_env \<Rightarrow> rstr \<Rightarrow> rstr \<Rightarrow> page \<Rightarrow> bool" where
  "same_slug env name want p \<longleftrightarrow> str (page_as_str (p_type p)) = want \<and> p_slug p = slugify (ge_unicode env) name"

definition same_alias :: "gate_env \<Rightarrow> rstr \<Rightarrow> rstr \<Rightarrow> page \<Rightarrow> bool" where
  "same_alias env name want p \<longleftrightarrow> (let slug = slugify (ge_unicode env) name in
     str (page_as_str (p_type p)) = want
     \<and> (p_slug p = slug \<or> (\<exists>a\<in>set (p_aliases p). ge_lowercase env a = ge_lowercase env name \<or> slugify (ge_unicode env) a = slug)))"

definition cross_type :: "gate_env \<Rightarrow> rstr \<Rightarrow> page \<Rightarrow> bool" where
  "cross_type env name p \<longleftrightarrow> (let slug = slugify (ge_unicode env) name in
     p_slug p = slug \<or> (\<exists>a\<in>set (p_aliases p). slugify (ge_unicode env) a = slug))"

definition hit :: "resolve_action \<Rightarrow> page \<Rightarrow> resolution" where
  "hit a p = \<lparr>r_action = a, r_target = Some (p_id p), r_existing_type = Some (p_type p)\<rparr>"

definition resolve :: "gate_env \<Rightarrow> rstr \<Rightarrow> rstr \<Rightarrow> page list \<Rightarrow> resolution" where
  "resolve env name want existing = (case find (same_slug env name want) existing of
     Some p \<Rightarrow> hit Merge p
   | None \<Rightarrow> (case find (same_alias env name want) existing of
       Some p \<Rightarrow> hit Merge p
     | None \<Rightarrow> (case find (cross_type env name) existing of
         Some p \<Rightarrow> hit Flag p
       | None \<Rightarrow> \<lparr>r_action = Create, r_target = None, r_existing_type = None\<rparr>)))"

section \<open>The page factory\<close>

record create_or_update_req =
  c_name :: rstr
  c_type :: rstr
  c_body :: rstr
  c_aliases :: "rstr list"
  c_tags :: "rstr list"
  c_summary :: rstr
  c_source :: "uuid option"

record page_outcome =
  o_page :: uuid
  o_created :: bool
  o_merged :: bool
  o_skipped :: bool
  o_collision :: bool

definition NO_NEW_CONTENT :: rstr where "NO_NEW_CONTENT = str ''NO_NEW_CONTENT''"

definition write_at :: "gate_env \<Rightarrow> uuid \<Rightarrow> rstr \<Rightarrow> rstr \<Rightarrow> rstr \<Rightarrow> rstr \<Rightarrow> create_or_update_req \<Rightarrow> wiki \<Rightarrow> (gate_error + uuid) \<times> wiki" where
  "write_at env new_id ty slug title body c = write_page env new_id
     \<lparr>w_type = ty, w_slug = slug, w_title = title, w_aliases = c_aliases c, w_tags = c_tags c, w_summary = c_summary c,
      w_source_ids = (case c_source c of None \<Rightarrow> [] | Some i \<Rightarrow> [i]), w_body = body, w_created = None, w_reviewed = None\<rparr>"

definition new_information :: "rstr \<Rightarrow> rstr \<Rightarrow> rstr" where
  "new_information body proposed = body @ nl @ nl @ str ''## New Information'' @ nl @ proposed"

text \<open>\<open>llm_merge\<close> is the model's merge of the existing and the proposed body.\<close>

definition create_or_update :: "gate_env \<Rightarrow> (rstr \<Rightarrow> rstr \<Rightarrow> rstr + rstr) \<Rightarrow> uuid \<Rightarrow> create_or_update_req \<Rightarrow> wiki
    \<Rightarrow> (gate_error + page_outcome) \<times> wiki" where
  "create_or_update env llm_merge new_id c s = (let res = resolve env (c_name c) (c_type c) (existing_pages env s) in
     case r_target res of
       None \<Rightarrow> (case write_at env new_id (c_type c) (slugify (ge_unicode env) (c_name c)) (c_name c) (c_body c) c s of
           (Inl e, s') \<Rightarrow> (Inl e, s')
         | (Inr i, s') \<Rightarrow> (Inr \<lparr>o_page = i, o_created = True, o_merged = False, o_skipped = False, o_collision = False\<rparr>, s'))
     | Some target \<Rightarrow> (case page_by_id env target s of
         None \<Rightarrow> (Inl NoPage, s)
       | Some p \<Rightarrow> (case read_body env target s of
           Inl e \<Rightarrow> (Inl e, s)
         | Inr existing \<Rightarrow> (let cross = (r_action res = Flag);
             merged = \<lparr>o_page = target, o_created = False, o_merged = True, o_skipped = False, o_collision = cross\<rparr>;
             store = (\<lambda>body. case write_at env new_id (str (page_as_str (p_type p))) (p_slug p) (p_title p) body c s of
               (Inl e, s') \<Rightarrow> (Inl e, s')
             | (Inr _, s') \<Rightarrow> (Inr merged, s'))
           in if p_reviewed p then store (new_information existing (c_body c))
              else (case llm_merge existing (c_body c) of
                Inl e \<Rightarrow> (Inl (LlmError e), s)
              | Inr body \<Rightarrow> if trim body = NO_NEW_CONTENT then (Inr (merged\<lparr>o_merged := False, o_skipped := True\<rparr>), s)
                  else store body)))))"

section \<open>The invariant of the tables\<close>

text \<open>Ids are unique, live pages of the tenant have distinct (type, slug) keys, and a page's body is
  where its type and slug say.\<close>

definition page_key :: "page \<Rightarrow> page_type \<times> rstr" where
  "page_key p = (p_type p, p_slug p)"

definition body_path :: "gate_env \<Rightarrow> page_type \<Rightarrow> rstr \<Rightarrow> rstr" where
  "body_path env ty slug = ge_root env @ str ''/'' @ rel_path (str (page_as_str ty)) slug"

definition wiki_ok :: "gate_env \<Rightarrow> wiki \<Rightarrow> bool" where
  "wiki_ok env s \<longleftrightarrow> distinct (map p_id (pages s)) \<and> distinct (map page_key (existing_pages env s))
     \<and> list_all (\<lambda>p. p_body_ref p = body_path env (p_type p) (p_slug p)) (existing_pages env s)"

lemma page_parse_as_str [simp]: "page_parse (str (page_as_str ty)) = Some ty"
  by (cases ty) (simp_all add: page_parse_def page_types_def)

lemma page_parse_Some: "page_parse s = Some ty \<Longrightarrow> s = str (page_as_str ty)"
  by (auto simp: page_parse_def dest: find_Some_iff [THEN iffD1])

lemma find_conflicting:
  "find (conflicting env ty slug) (pages s) = find (\<lambda>p. page_key p = (ty, slug)) (existing_pages env s)"
proof -
  have "find (conflicting env ty slug) ps = find (\<lambda>p. page_key p = (ty, slug)) (filter (live env) ps)" for ps
    by (induction ps) (auto simp: conflicting_def page_key_def)
  then show ?thesis
    by (simp add: existing_pages_def)
qed

lemma update_row_simps [simp]:
  "p_id (update_row u p) = p_id p" "p_tenant (update_row u p) = p_tenant p" "p_type (update_row u p) = p_type p"
  "p_slug (update_row u p) = p_slug p" "p_deleted (update_row u p) = p_deleted p"
  "p_reviewed (update_row u p) = p_reviewed p" "p_body_ref (update_row u p) = p_body_ref p"
  "p_aliases (update_row u p) = u_aliases u" "p_char_len (update_row u p) = u_char_len u"
  "page_key (update_row u p) = page_key p" "live env (update_row u p) = live env p"
  by (simp_all add: update_row_def page_key_def live_def)

text \<open>What an upsert does to the tenant's live rows: it rewrites the one row with the key, or adds one.\<close>

lemma existing_update:
  "existing_pages env (s\<lparr>pages := map (\<lambda>q. if conflicting env ty slug q then update_row u q else q) (pages s)\<rparr>)
    = map (\<lambda>q. if page_key q = (ty, slug) then update_row u q else q) (existing_pages env s)"
proof -
  have "filter (live env) (map (\<lambda>q. if conflicting env ty slug q then update_row u q else q) ps)
      = map (\<lambda>q. if page_key q = (ty, slug) then update_row u q else q) (filter (live env) ps)" for ps
    by (induction ps) (auto simp: conflicting_def page_key_def)
  then show ?thesis
    by (simp add: existing_pages_def)
qed

lemma upsert_cases:
  assumes "upsert_page env new_id u s = Some (i, s')"
  obtains (update) ty p where "u_type u = str (page_as_str ty)" "p \<in> set (existing_pages env s)"
      "page_key p = (ty, u_slug u)" "i = p_id p"
      "s' = s\<lparr>pages := map (\<lambda>q. if conflicting env ty (u_slug u) q then update_row u q else q) (pages s)\<rparr>"
    | (insert) ty where "u_type u = str (page_as_str ty)" "i = new_id" "new_id \<notin> p_id ` set (pages s)"
      "(ty, u_slug u) \<notin> page_key ` set (existing_pages env s)"
      "s' = s\<lparr>pages := pages s @ [insert_row env new_id ty u]\<rparr>"
proof -
  obtain ty where ty: "page_parse (u_type u) = Some ty"
    using assms by (auto simp: upsert_page_def split: option.splits)
  show thesis
  proof (cases "find (conflicting env ty (u_slug u)) (pages s)")
    case None
    then have "(ty, u_slug u) \<notin> page_key ` set (existing_pages env s)"
      unfolding find_conflicting by (auto simp: find_None_iff)
    then show thesis
      using insert [of ty] assms ty None page_parse_Some [OF ty] by (auto simp: upsert_page_def split: if_splits)
  next
    case (Some p)
    then have "p \<in> set (existing_pages env s)" "page_key p = (ty, u_slug u)"
      unfolding find_conflicting by (auto simp: find_Some_iff)
    then show thesis
      using update [of ty p] assms ty Some page_parse_Some [OF ty] by (auto simp: upsert_page_def)
  qed
qed

lemma existing_insert:
  "existing_pages env (s\<lparr>pages := pages s @ [insert_row env i ty u]\<rparr>) = existing_pages env s @ [insert_row env i ty u]"
  by (simp add: existing_pages_def live_def insert_row_def)

lemma existing_frame [simp]:
  "existing_pages env (s\<lparr>files := f\<rparr>) = existing_pages env s" "existing_pages env (s\<lparr>wlinks := l\<rparr>) = existing_pages env s"
  "wiki_ok env (s\<lparr>files := f\<rparr>) = wiki_ok env s" "wiki_ok env (s\<lparr>wlinks := l\<rparr>) = wiki_ok env s"
  by (simp_all add: existing_pages_def wiki_ok_def)

lemma replace_links_frame [simp]:
  "pages (replace_links env i ls s) = pages s" "files (replace_links env i ls s) = files s"
  "existing_pages env' (replace_links env i ls s) = existing_pages env' s" "wiki_ok env' (replace_links env i ls s) = wiki_ok env' s"
  by (simp_all add: replace_links_def Let_def)

lemma upsert_frame: "upsert_page env new_id u s = Some (i, s') \<Longrightarrow> files s' = files s \<and> wlinks s' = wlinks s"
  by (erule upsert_cases) simp_all

lemma upsert_ok:
  assumes ok: "wiki_ok env s" and up: "upsert_page env new_id u s = Some (i, s')"
    and ref: "\<And>ty. u_type u = str (page_as_str ty) \<Longrightarrow> u_body_ref u = body_path env ty (u_slug u)"
  shows "wiki_ok env s'"
  using up
proof (cases rule: upsert_cases)
  case (update ty' p)
  let ?f = "\<lambda>q. if page_key q = (ty', u_slug u) then update_row u q else q"
  have "map p_id (map (\<lambda>q. if conflicting env ty' (u_slug u) q then update_row u q else q) (pages s)) = map p_id (pages s)"
    by simp
  moreover have "map page_key (map ?f (existing_pages env s)) = map page_key (existing_pages env s)"
    by simp
  moreover have "list_all (\<lambda>p. p_body_ref p = body_path env (p_type p) (p_slug p)) (map ?f (existing_pages env s))"
    using ok by (auto simp: wiki_ok_def list_all_iff)
  ultimately show ?thesis
    using ok unfolding update(5) wiki_ok_def existing_update by (simp del: map_map)
next
  case (insert ty')
  then have "u_body_ref u = body_path env ty' (u_slug u)"
    by (intro ref)
  then show ?thesis
    using ok insert unfolding insert(5) wiki_ok_def existing_insert
    by (auto simp: insert_row_def page_key_def)
qed

text \<open>What the gate does: it refuses, or writes one file, upserts one row and replaces its links.\<close>

definition gate_path :: "gate_env \<Rightarrow> page_write \<Rightarrow> rstr" where
  "gate_path env w = ge_root env @ str ''/'' @ rel_path (w_type w) (w_slug w)"

lemma resolve_in_root_path: "resolve_in_root env fs rel cap = Inr path \<Longrightarrow> path = ge_root env @ str ''/'' @ rel"
  by (auto simp: resolve_in_root_def Let_def split: if_splits option.splits)

lemma upsert_of_simps [simp]:
  "u_type (upsert_of env w p) = w_type w" "u_slug (upsert_of env w p) = w_slug w" "u_body_ref (upsert_of env w p) = p"
  "u_aliases (upsert_of env w p) = w_aliases w" "u_char_len (upsert_of env w p) = page_char_len (sanitize_links (w_body w))"
  by (simp_all add: upsert_of_def Let_def)

lemma write_page_cases:
  assumes "write_page env new_id w s = (r, s')"
  obtains (refused) e where "r = Inl e" "s' = s"
    | (db_error) "r = Inl DbError" "s' = s\<lparr>files := (files s)(gate_path env w \<mapsto> sanitize_links (w_body w))\<rparr>"
    | (written) i s2 where "r = Inr i" "\<not> over_quota env (page_char_len (sanitize_links (w_body w))) s"
        "upsert_page env new_id (upsert_of env w (gate_path env w))
           (s\<lparr>files := (files s)(gate_path env w \<mapsto> sanitize_links (w_body w))\<rparr>) = Some (i, s2)"
        "s' = replace_links env i (parse_wikilinks (sanitize_links (w_body w))) s2"
proof (cases "over_quota env (page_char_len (sanitize_links (w_body w))) s")
  case True
  then show thesis
    using assms by (intro refused [of QuotaExceeded]) (simp_all add: write_page_def)
next
  case quota: False
  show thesis
  proof (cases "resolve_in_root env (files s) (rel_path (w_type w) (w_slug w)) BODY_SIZE_CAP")
    case (Inl e)
    then show thesis
      using assms quota by (intro refused [of "PathError e"]) (simp_all add: write_page_def)
  next
    case (Inr path)
    then have path: "path = gate_path env w"
      using resolve_in_root_path by (simp add: gate_path_def)
    show thesis
    proof (cases "upsert_page env new_id (upsert_of env w path)
        (s\<lparr>files := (files s)(gate_path env w \<mapsto> sanitize_links (w_body w))\<rparr>)")
      case None
      then show thesis
        using assms quota Inr path by (intro db_error) (simp_all add: write_page_def)
    next
      case (Some v)
      then show thesis
        using assms quota Inr path by (intro written [of "fst v" "snd v"]) (cases v; simp add: write_page_def)+
    qed
  qed
qed

lemma gate_path_body: "w_type w = str (page_as_str ty) \<Longrightarrow> gate_path env w = body_path env ty (w_slug w)"
  by (simp add: gate_path_def body_path_def)

lemma write_page_ok: "wiki_ok env s \<Longrightarrow> wiki_ok env (snd (write_page env new_id w s))"
proof (cases "write_page env new_id w s")
  case (Pair r s')
  assume ok: "wiki_ok env s"
  from Pair show ?thesis
  proof (cases rule: write_page_cases)
    case (written i s2)
    then have "wiki_ok env s2"
      using upsert_ok [OF _ written(3)] ok by (simp add: gate_path_body)
    then show ?thesis
      using Pair written by simp
  qed (use ok Pair in simp_all)
qed

definition w_at :: "rstr \<Rightarrow> rstr \<Rightarrow> rstr \<Rightarrow> rstr \<Rightarrow> create_or_update_req \<Rightarrow> page_write" where
  "w_at ty slug title body c =
     \<lparr>w_type = ty, w_slug = slug, w_title = title, w_aliases = c_aliases c, w_tags = c_tags c, w_summary = c_summary c,
      w_source_ids = (case c_source c of None \<Rightarrow> [] | Some i \<Rightarrow> [i]), w_body = body, w_created = None, w_reviewed = None\<rparr>"

lemma write_at_w: "write_at env i ty slug title body c = write_page env i (w_at ty slug title body c)"
  by (simp add: write_at_def w_at_def)

lemma create_or_update_create:
  assumes "r_target (resolve env (c_name c) (c_type c) (existing_pages env s)) = None"
  shows "create_or_update env m new_id c s = map_prod (map_sum id (\<lambda>i. \<lparr>o_page = i, o_created = True, o_merged = False,
      o_skipped = False, o_collision = False\<rparr>)) id
    (write_page env new_id (w_at (c_type c) (slugify (ge_unicode env) (c_name c)) (c_name c) (c_body c) c) s)"
  using assms by (simp add: create_or_update_def write_at_w Let_def split: prod.splits sum.splits)

text \<open>What a merge stores: the new information appended, or the answer of the model.\<close>

definition merged_body :: "(rstr \<Rightarrow> rstr \<Rightarrow> rstr + rstr) \<Rightarrow> page \<Rightarrow> rstr \<Rightarrow> rstr \<Rightarrow> rstr option" where
  "merged_body m p existing proposed = (if p_reviewed p then Some (new_information existing proposed)
     else (case m existing proposed of Inl _ \<Rightarrow> None
       | Inr b \<Rightarrow> if trim b = NO_NEW_CONTENT then None else Some b))"

lemma create_or_update_merge:
  assumes target: "r_target (resolve env (c_name c) (c_type c) (existing_pages env s)) = Some target"
    and page: "page_by_id env target s = Some p" and body: "read_body env target s = Inr b"
  shows "snd (create_or_update env m new_id c s) = (case merged_body m p b (c_body c) of None \<Rightarrow> s
    | Some b' \<Rightarrow> snd (write_page env new_id (w_at (str (page_as_str (p_type p))) (p_slug p) (p_title p) b' c) s))"
proof -
  have eq: "create_or_update env m new_id c s = (let cross = (r_action (resolve env (c_name c) (c_type c) (existing_pages env s)) = Flag);
             merged = \<lparr>o_page = target, o_created = False, o_merged = True, o_skipped = False, o_collision = cross\<rparr>;
             store = (\<lambda>body. case write_at env new_id (str (page_as_str (p_type p))) (p_slug p) (p_title p) body c s of
               (Inl e, s') \<Rightarrow> (Inl e, s')
             | (Inr _, s') \<Rightarrow> (Inr merged, s'))
           in if p_reviewed p then store (new_information b (c_body c))
              else (case m b (c_body c) of
                Inl e \<Rightarrow> (Inl (LlmError e), s)
              | Inr body \<Rightarrow> if trim body = NO_NEW_CONTENT then (Inr (merged\<lparr>o_merged := False, o_skipped := True\<rparr>), s)
                  else store body))"
    using assms by (simp add: create_or_update_def Let_def)
  have store: "snd (case x of (Inl e, s') \<Rightarrow> (Inl e, s') | (Inr _, s') \<Rightarrow> (Inr o', s')) = snd x"
    for x :: "(gate_error + uuid) \<times> wiki" and o' :: page_outcome
    by (cases x; cases "fst x") simp_all
  show ?thesis
  proof (cases "p_reviewed p")
    case True
    then show ?thesis
      by (simp add: eq merged_body_def Let_def store write_at_w)
  next
    case False
    then show ?thesis
      by (cases "m b (c_body c)") (simp_all add: eq merged_body_def Let_def store write_at_w)
  qed
qed

lemma create_or_update_stuck:
  assumes "r_target (resolve env (c_name c) (c_type c) (existing_pages env s)) = Some target"
    and "page_by_id env target s = None \<or> (\<exists>e. read_body env target s = Inl e)"
  shows "snd (create_or_update env m new_id c s) = s"
  using assms by (cases "page_by_id env target s") (auto simp: create_or_update_def Let_def)

lemma create_or_update_state:
  "snd (create_or_update env m new_id c s) = s
   \<or> (\<exists>w. snd (create_or_update env m new_id c s) = snd (write_page env new_id w s))"
proof (cases "r_target (resolve env (c_name c) (c_type c) (existing_pages env s))")
  case None
  then show ?thesis
    by (auto simp: create_or_update_create)
next
  case (Some target)
  show ?thesis
  proof (cases "\<exists>p b. page_by_id env target s = Some p \<and> read_body env target s = Inr b")
    case True
    then obtain p b where "page_by_id env target s = Some p" "read_body env target s = Inr b"
      by blast
    from create_or_update_merge [OF Some this] show ?thesis
      by (cases "merged_body m p b (c_body c)") auto
  next
    case False
    then have "page_by_id env target s = None \<or> (\<exists>e. read_body env target s = Inl e)"
      by (metis not_None_eq sum.exhaust)
    then show ?thesis
      using create_or_update_stuck [OF Some] by blast
  qed
qed

lemma soft_delete_existing:
  "existing_pages env (soft_delete env i s) = filter (\<lambda>p. p_id p \<noteq> i) (existing_pages env s)"
proof -
  have "filter (live env) (map (\<lambda>p. if live env p \<and> p_id p = i then p\<lparr>p_deleted := True\<rparr> else p) ps)
      = filter (\<lambda>p. p_id p \<noteq> i) (filter (live env) ps)" for ps
    by (induction ps) (auto simp: live_def)
  then show ?thesis
    by (simp add: existing_pages_def soft_delete_def)
qed

lemma soft_delete_ok: "wiki_ok env s \<Longrightarrow> wiki_ok env (soft_delete env i s)"
proof -
  assume ok: "wiki_ok env s"
  have "map p_id (pages (soft_delete env i s)) = map p_id (pages s)"
    by (simp add: soft_delete_def)
  then show ?thesis
    using ok unfolding wiki_ok_def soft_delete_existing by (auto simp: distinct_map_filter list_all_iff)
qed

section \<open>Runs of the write path\<close>

text \<open>A write, a call of the factory with the answer of the model's merge, a deletion.\<close>

datatype wiki_op = OpWrite uuid page_write | OpFactory uuid create_or_update_req "rstr + rstr" | OpDelete uuid

fun wiki_step :: "gate_env \<Rightarrow> wiki_op \<Rightarrow> wiki \<Rightarrow> wiki" where
  "wiki_step env (OpWrite i w) s = snd (write_page env i w s)"
| "wiki_step env (OpFactory i c merged) s = snd (create_or_update env (\<lambda>_ _. merged) i c s)"
| "wiki_step env (OpDelete i) s = soft_delete env i s"

definition wiki_run :: "gate_env \<Rightarrow> wiki_op list \<Rightarrow> wiki \<Rightarrow> wiki" where
  "wiki_run env ops s = fold (wiki_step env) ops s"

definition empty_wiki :: wiki where
  "empty_wiki = \<lparr>pages = [], wlinks = [], files = Map.empty\<rparr>"

lemma factory_invariant:
  assumes "P s" "\<And>w. P (snd (write_page env i w s))"
  shows "P (snd (create_or_update env m i c s))"
  using create_or_update_state [of env m i c s] assms by metis

lemma wiki_step_ok: "wiki_ok env s \<Longrightarrow> wiki_ok env (wiki_step env op s)"
  by (cases op) (simp_all add: write_page_ok soft_delete_ok factory_invariant)

lemma wiki_run_ok: "wiki_ok env s \<Longrightarrow> wiki_ok env (wiki_run env ops s)"
  unfolding wiki_run_def by (induction ops arbitrary: s) (simp_all add: wiki_step_ok)

lemma empty_wiki_ok: "wiki_ok env empty_wiki"
  by (simp add: wiki_ok_def empty_wiki_def existing_pages_def)

definition within_quota :: "gate_env \<Rightarrow> wiki \<Rightarrow> bool" where
  "within_quota env s \<longleftrightarrow> fst (vault_usage env s) \<le> ge_max_pages env \<and> snd (vault_usage env s) \<le> ge_max_bytes env"

lemma update_usage:
  "distinct (map page_key ps) \<Longrightarrow>
    sum_list (map p_char_len (map (\<lambda>q. if page_key q = k then update_row u q else q) ps))
      \<le> sum_list (map p_char_len ps) + u_char_len u"
proof (induction ps)
  case (Cons p ps)
  show ?case
  proof (cases "page_key p = k")
    case True
    have "page_key q \<noteq> k" if "q \<in> set ps" for q
      using Cons.prems True that by (metis distinct.simps(2) image_eqI list.simps(9) set_map)
    then have "map (\<lambda>q. if page_key q = k then update_row u q else q) ps = ps"
      by (intro map_idI) simp
    then show ?thesis
      using True by simp
  next
    case False
    then show ?thesis
      using Cons by (simp del: map_map)
  qed
qed simp

lemma upsert_usage:
  assumes ok: "wiki_ok env s" and up: "upsert_page env new_id u s = Some (i, s')"
  shows "fst (vault_usage env s') \<le> fst (vault_usage env s) + 1
    \<and> snd (vault_usage env s') \<le> snd (vault_usage env s) + u_char_len u"
  using up
proof (cases rule: upsert_cases)
  case (update ty p)
  then show ?thesis
    using ok update_usage [of "existing_pages env s" "(ty, u_slug u)" u]
    unfolding update(5) vault_usage_def existing_update wiki_ok_def by (simp del: map_map)
next
  case (insert ty)
  then show ?thesis
    unfolding insert(5) vault_usage_def existing_insert by (simp add: insert_row_def)
qed

lemma vault_usage_frame [simp]:
  "vault_usage env (s\<lparr>files := f\<rparr>) = vault_usage env s" "vault_usage env' (replace_links env i ls s) = vault_usage env' s"
  by (simp_all add: vault_usage_def)

lemma write_page_quota:
  assumes "wiki_ok env s" "within_quota env s" "ge_max_bytes env < 2 ^ 64 - 1"
  shows "within_quota env (snd (write_page env new_id w s))"
proof (cases "write_page env new_id w s")
  case (Pair r s')
  then show ?thesis
  proof (cases rule: write_page_cases)
    case (written i s2)
    have "fst (vault_usage env s) < ge_max_pages env"
        "snd (vault_usage env s) + page_char_len (sanitize_links (w_body w)) \<le> ge_max_bytes env"
      using written(2) assms(3) by (auto simp: over_quota_def)
    moreover have "fst (vault_usage env s2) \<le> fst (vault_usage env s) + 1
        \<and> snd (vault_usage env s2) \<le> snd (vault_usage env s) + page_char_len (sanitize_links (w_body w))"
      using upsert_usage [OF _ written(3)] assms(1) by simp
    ultimately show ?thesis
      using Pair written by (simp add: within_quota_def)
  qed (use assms Pair in \<open>simp_all add: within_quota_def\<close>)
qed

lemma soft_delete_quota: "within_quota env s \<Longrightarrow> within_quota env (soft_delete env i s)"
proof -
  have "sum_list (map p_char_len (filter Q ps)) \<le> sum_list (map p_char_len ps)" for Q ps
    by (induction ps) auto
  then show "within_quota env s \<Longrightarrow> within_quota env (soft_delete env i s)"
    unfolding within_quota_def vault_usage_def soft_delete_existing by (auto intro: order_trans [OF length_filter_le] order_trans)
qed

section \<open>The page a write leaves\<close>

lemma page_by_id_existing:
  assumes "wiki_ok env s" "p \<in> set (existing_pages env s)"
  shows "page_by_id env (p_id p) s = Some p"
proof -
  have p: "p \<in> set (pages s)" "p_tenant p = ge_tenant env"
    using assms(2) by (auto simp: existing_pages_def live_def)
  then obtain q where q: "page_by_id env (p_id p) s = Some q"
    by (cases "page_by_id env (p_id p) s") (auto simp: page_by_id_def find_None_iff)
  then have "q \<in> set (pages s)" "p_id q = p_id p"
    by (auto simp: page_by_id_def find_Some_iff)
  then have "q = p"
    using assms(1) p(1) by (simp add: wiki_ok_def distinct_map inj_on_def)
  then show ?thesis
    using q by simp
qed

lemma upsert_row:
  assumes ok: "wiki_ok env s" and up: "upsert_page env new_id u s = Some (i, s')"
    and ref: "\<And>ty. u_type u = str (page_as_str ty) \<Longrightarrow> u_body_ref u = body_path env ty (u_slug u)"
  shows "\<exists>p\<in>set (existing_pages env s'). p_id p = i \<and> p_slug p = u_slug u \<and> u_type u = str (page_as_str (p_type p))
    \<and> p_body_ref p = u_body_ref u \<and> p_char_len p = u_char_len u \<and> p_aliases p = u_aliases u"
  using up
proof (cases rule: upsert_cases)
  case (update ty p)
  then have "update_row u p \<in> set (existing_pages env s')"
    unfolding update(5) existing_update by (auto intro!: image_eqI [of _ _ p])
  moreover have "p_body_ref p = u_body_ref u" "p_type p = ty" "p_slug p = u_slug u"
    using ok update ref [of ty] by (auto simp: wiki_ok_def list_all_iff page_key_def)
  ultimately show ?thesis
    using update by (intro bexI [of _ "update_row u p"]) simp_all
next
  case (insert ty)
  then have "insert_row env new_id ty u \<in> set (existing_pages env s')"
    unfolding insert(5) existing_insert by simp
  then show ?thesis
    using insert by (intro bexI) (simp_all add: insert_row_def)
qed

definition links_of :: "gate_env \<Rightarrow> uuid \<Rightarrow> wiki \<Rightarrow> wiki_link list" where
  "links_of env src s = filter (\<lambda>l. l_tenant l = ge_tenant env \<and> l_src l = src) (wlinks s)"

lemma link_row_simps [simp]:
  "l_tenant (link_row env src s l) = ge_tenant env" "l_src (link_row env src s l) = src"
  "l_slug (link_row env src s l) = target_slug l"
  by (simp_all add: link_row_def)

text \<open>After replacing, the page has one link for each distinct target; the links of others stay.\<close>

lemma links_of_replace:
  "distinct (map l_slug (links_of env src (replace_links env src ls s)))
   \<and> set (map l_slug (links_of env src (replace_links env src ls s))) = set (map target_slug ls)
   \<and> (other \<noteq> src \<longrightarrow> links_of env other (replace_links env src ls s) = links_of env other s)"
proof -
  let ?mine = "\<lambda>l. l_tenant l = ge_tenant env \<and> l_src l = src"
  let ?add = "\<lambda>l acc. if \<exists>k\<in>set acc. ?mine k \<and> l_slug k = target_slug l then acc else acc @ [link_row env src s l]"
  have "distinct (map l_slug (filter ?mine acc)) \<Longrightarrow> distinct (map l_slug (filter ?mine (fold ?add ls acc)))
      \<and> set (map l_slug (filter ?mine (fold ?add ls acc))) = set (map l_slug (filter ?mine acc)) \<union> set (map target_slug ls)
      \<and> (other \<noteq> src \<longrightarrow> filter (\<lambda>l. l_tenant l = ge_tenant env \<and> l_src l = other) (fold ?add ls acc)
           = filter (\<lambda>l. l_tenant l = ge_tenant env \<and> l_src l = other) acc)" for acc
  proof (induction ls arbitrary: acc)
    case (Cons l ls)
    show ?case
    proof (cases "\<exists>k\<in>set acc. ?mine k \<and> l_slug k = target_slug l")
      case True
      then have "target_slug l \<in> set (map l_slug (filter ?mine acc))"
        by force
      then show ?thesis
        using True Cons by (simp add: insert_absorb)
    next
      case False
      then have fresh: "target_slug l \<notin> set (map l_slug (filter ?mine acc))"
        by auto
      have step: "fold ?add (l # ls) acc = fold ?add ls (acc @ [link_row env src s l])"
        using False by (simp only: fold_simps if_False)
      have "distinct (map l_slug (filter ?mine (acc @ [link_row env src s l])))"
        using fresh Cons.prems by simp
      from Cons.IH [OF this] show ?thesis
        unfolding step by simp
    qed
  qed simp
  from this [of "filter (\<lambda>l. \<not> ?mine l) (wlinks s)"] show ?thesis
    by (auto simp: links_of_def replace_links_def Let_def filter_empty_conv intro: filter_cong)
qed

section \<open>The factory\<close>

lemma write_page_existing:
  assumes ok: "wiki_ok env s" and w: "write_page env new_id w s = (r, s')"
  obtains "existing_pages env s' = existing_pages env s" "wiki_ok env s'" "\<And>i. r \<noteq> Inr i"
    | (update) p where "p \<in> set (existing_pages env s)" "w_type w = str (page_as_str (p_type p))" "p_slug p = w_slug w"
        "existing_pages env s' = map (\<lambda>q. if q = p then update_row (upsert_of env w (gate_path env w)) q else q) (existing_pages env s)"
        "r = Inr (p_id p)"
    | (insert) ty where "w_type w = str (page_as_str ty)" "(ty, w_slug w) \<notin> page_key ` set (existing_pages env s)"
        "existing_pages env s' = existing_pages env s @ [insert_row env new_id ty (upsert_of env w (gate_path env w))]"
        "r = Inr new_id"
  using w
proof (cases rule: write_page_cases)
  case (written i s2)
  let ?u = "upsert_of env w (gate_path env w)"
  from written(3) show ?thesis
  proof (cases rule: upsert_cases)
    case (update ty p)
    have p: "p \<in> set (existing_pages env s)" "page_key p = (ty, w_slug w)" "r = Inr (p_id p)"
      using update written(1) by simp_all
    have "(page_key q = (ty, w_slug w)) = (q = p)" if "q \<in> set (existing_pages env s)" for q
      using ok p(1,2) that by (auto simp: wiki_ok_def distinct_map inj_on_def)
    then have "existing_pages env s2 = map (\<lambda>q. if q = p then update_row ?u q else q) (existing_pages env s)"
      unfolding update(5) existing_update by simp
    then show ?thesis
      using that(2) [of p] p update(1) written(4) by (simp add: page_key_def)
  next
    case (insert ty)
    have "existing_pages env s2 = existing_pages env s @ [insert_row env new_id ty ?u]"
      unfolding insert(5) existing_insert by simp
    then show ?thesis
      using that(3) [of ty] insert written(1,4) by simp
  qed
qed (use that(1) ok in simp_all)

lemma resolve_sound:
  "(case r_target (resolve env name want ps) of
     None \<Rightarrow> r_action (resolve env name want ps) = Create \<and> list_all (\<lambda>p. \<not> same_alias env name want p \<and> \<not> cross_type env name p) ps
   | Some i \<Rightarrow> \<exists>p\<in>set ps. p_id p = i
       \<and> (r_action (resolve env name want ps) = Merge \<and> same_alias env name want p
          \<or> r_action (resolve env name want ps) = Flag \<and> cross_type env name p
              \<and> list_all (\<lambda>q. \<not> same_alias env name want q) ps))"
proof (cases "find (same_slug env name want) ps")
  case (Some p)
  then have "p \<in> set ps" "same_slug env name want p"
    by (auto simp: find_Some_iff)
  then show ?thesis
    using Some by (auto simp: resolve_def hit_def same_slug_def same_alias_def Let_def)
next
  case slug: None
  show ?thesis
  proof (cases "find (same_alias env name want) ps")
    case (Some p)
    then have "p \<in> set ps" "same_alias env name want p"
      by (auto simp: find_Some_iff)
    then show ?thesis
      using Some slug by (auto simp: resolve_def hit_def)
  next
    case noalias: None
    then have none: "list_all (\<lambda>q. \<not> same_alias env name want q) ps"
      by (simp add: find_None_iff list_all_iff)
    show ?thesis
    proof (cases "find (cross_type env name) ps")
      case (Some p)
      then have "p \<in> set ps" "cross_type env name p"
        by (auto simp: find_Some_iff)
      then show ?thesis
        using Some slug noalias none by (auto simp: resolve_def hit_def)
    next
      case None
      then have "list_all (\<lambda>q. \<not> cross_type env name q) ps"
        by (simp add: find_None_iff list_all_iff)
      then show ?thesis
        using slug noalias none None by (simp add: resolve_def list_all_iff)
    qed
  qed
qed

lemma resolve_none_slug:
  "r_target (resolve env name want ps) = None \<Longrightarrow> p \<in> set ps \<Longrightarrow> p_slug p \<noteq> slugify (ge_unicode env) name"
  using resolve_sound [of env name want ps] by (auto simp: list_all_iff cross_type_def Let_def)

lemma resolve_target:
  assumes "r_target (resolve env name want (existing_pages env s)) = Some target"
  obtains p where "p \<in> set (existing_pages env s)" "p_id p = target"
  using resolve_sound [of env name want "existing_pages env s"] assms by auto

lemma page_as_str_inj [simp]: "page_as_str a = page_as_str b \<longleftrightarrow> a = b"
  by (metis option.inject page_parse_as_str)

lemma w_at_simps [simp]:
  "w_type (w_at ty slug title body c) = ty" "w_slug (w_at ty slug title body c) = slug"
  "w_body (w_at ty slug title body c) = body" "w_aliases (w_at ty slug title body c) = c_aliases c"
  by (simp_all add: w_at_def)

lemma factory_create:
  assumes ok: "wiki_ok env s" and none: "r_target (resolve env (c_name c) (c_type c) (existing_pages env s)) = None"
  shows "existing_pages env (snd (create_or_update env m i c s)) = existing_pages env s
    \<or> (\<exists>row. existing_pages env (snd (create_or_update env m i c s)) = existing_pages env s @ [row] \<and> p_id row = i
          \<and> p_slug row = slugify (ge_unicode env) (c_name c) \<and> \<not> p_reviewed row)"
proof -
  let ?w = "w_at (c_type c) (slugify (ge_unicode env) (c_name c)) (c_name c) (c_body c) c"
  obtain r s' where w: "write_page env i ?w s = (r, s')"
    by fastforce
  then have s': "snd (create_or_update env m i c s) = s'"
    by (simp add: create_or_update_create [OF none])
  from ok w show ?thesis
  proof (cases rule: write_page_existing)
    case (update p)
    then show ?thesis
      using resolve_none_slug [OF none] by simp
  next
    case (insert ty)
    then show ?thesis
      unfolding s' by (simp add: insert_row_def)
  qed (simp add: s')
qed

text \<open>A write to the key of a live page rewrites the row of that page, or fails.\<close>

lemma write_page_row:
  assumes ok: "wiki_ok env s" and p: "p \<in> set (existing_pages env s)"
    and w: "w_type w = str (page_as_str (p_type p))" "w_slug w = p_slug p"
  shows "existing_pages env (snd (write_page env i w s)) = existing_pages env s \<and> (\<forall>k. fst (write_page env i w s) \<noteq> Inr k)
    \<or> existing_pages env (snd (write_page env i w s))
        = map (\<lambda>q. if q = p then update_row (upsert_of env w (gate_path env w)) q else q) (existing_pages env s)"
proof (cases "write_page env i w s")
  case (Pair r s')
  with ok show ?thesis
  proof (cases rule: write_page_existing)
    case (update q)
    then have "page_key q = page_key p"
      using w by (simp add: page_key_def)
    then have "q = p"
      using ok p update(1) by (auto simp: wiki_ok_def distinct_map inj_on_def)
    then show ?thesis
      using update Pair by simp
  next
    case (insert ty)
    then have "(ty, w_slug w) = page_key p"
      using w by (simp add: page_key_def)
    then show ?thesis
      using insert(2) p by simp
  qed (simp add: Pair)
qed

lemma factory_merge_row:
  assumes ok: "wiki_ok env s" and p: "p \<in> set (existing_pages env s)"
    and target: "r_target (resolve env (c_name c) (c_type c) (existing_pages env s)) = Some (p_id p)"
  shows "existing_pages env (snd (create_or_update env m i c s)) = existing_pages env s
    \<or> (\<exists>u. existing_pages env (snd (create_or_update env m i c s)) = map (\<lambda>q. if q = p then update_row u q else q) (existing_pages env s)
        \<and> u_aliases u = c_aliases c)"
proof (cases "read_body env (p_id p) s")
  case (Inl e)
  then show ?thesis
    using create_or_update_stuck [OF target] by simp
next
  case (Inr b)
  have eq: "snd (create_or_update env m i c s) = (case merged_body m p b (c_body c) of None \<Rightarrow> s
    | Some b' \<Rightarrow> snd (write_page env i (w_at (str (page_as_str (p_type p))) (p_slug p) (p_title p) b' c) s))"
    by (rule create_or_update_merge [OF target page_by_id_existing [OF ok p] Inr])
  show ?thesis
  proof (cases "merged_body m p b (c_body c)")
    case (Some b')
    then show ?thesis
      using write_page_row [OF ok p, of "w_at (str (page_as_str (p_type p))) (p_slug p) (p_title p) b' c" i]
      unfolding eq by (auto intro!: exI [of _ "upsert_of env _ _"])
  qed (simp add: eq)
qed

lemma write_page_files:
  "files (snd (write_page env i w s)) = files s
   \<or> files (snd (write_page env i w s)) = (files s)(gate_path env w \<mapsto> sanitize_links (w_body w))"
proof (cases "write_page env i w s")
  case (Pair r s')
  then have "files s' = files s \<or> files s' = (files s)(gate_path env w \<mapsto> sanitize_links (w_body w))"
    by (cases rule: write_page_cases) (auto dest: upsert_frame)
  then show ?thesis
    by (simp add: Pair)
qed

lemma update_kept:
  "p \<in> set ps \<Longrightarrow> qs = ps \<or> (\<exists>p0 u. qs = map (\<lambda>q. if q = p0 then update_row u q else q) ps)
    \<Longrightarrow> \<exists>p'\<in>set qs. p_id p' = p_id p \<and> p_reviewed p' = p_reviewed p"
proof (elim disjE exE)
  fix p0 u
  assume "p \<in> set ps" "qs = map (\<lambda>q. if q = p0 then update_row u q else q) ps"
  then show ?thesis
    by (intro bexI [of _ "if p = p0 then update_row u p else p"]) auto
qed blast

section \<open>Properties\<close>


text \<open>
  C19: the vault is bounded. After any such sequence the tenant has at most the quota's pages and the
  recorded sizes of their bodies add up to at most the quota's bytes.
\<close>

theorem vault_bounded:
  assumes "ge_max_bytes env < 2 ^ 64 - 1"
  shows "within_quota env (wiki_run env ops empty_wiki)"
proof (induction ops rule: rev_induct)
  case Nil
  show ?case
    by (simp add: wiki_run_def within_quota_def vault_usage_def existing_pages_def empty_wiki_def)
next
  case (snoc op ops)
  have "wiki_ok env (wiki_run env ops empty_wiki)"
    by (rule wiki_run_ok [OF empty_wiki_ok])
  then have "within_quota env (wiki_step env op (wiki_run env ops empty_wiki))"
    using snoc assms by (cases op) (simp_all add: write_page_quota soft_delete_quota factory_invariant)
  then show ?case
    by (simp add: wiki_run_def)
qed

text \<open>
  Further: a write can be read back and the link graph mirrors it. After a successful write the page's body
  reads back as the sanitized text, the page has exactly one link for each distinct target of that
  text, and the links of other pages are as before.
\<close>

theorem page_written:
  assumes "write_page env new_id w (wiki_run env ops empty_wiki) = (Inr i, s')"
  shows "read_body env i s' = Inr (sanitize_links (w_body w))
    \<and> distinct (map l_slug (links_of env i s'))
    \<and> set (map l_slug (links_of env i s')) = set (map target_slug (parse_wikilinks (sanitize_links (w_body w))))
    \<and> (j \<noteq> i \<longrightarrow> links_of env j s' = links_of env j (wiki_run env ops empty_wiki))"
  using assms
proof (cases rule: write_page_cases)
  case (written k s2)
  let ?s = "(wiki_run env ops empty_wiki)\<lparr>files := (files (wiki_run env ops empty_wiki))
      (gate_path env w \<mapsto> sanitize_links (w_body w))\<rparr>"
  have ok: "wiki_ok env ?s"
    by (simp add: wiki_run_ok empty_wiki_ok)
  have "wiki_ok env s2"
    using upsert_ok [OF ok written(3)] by (simp add: gate_path_body)
  moreover obtain p where "p \<in> set (existing_pages env s2)" "p_id p = k" "p_body_ref p = gate_path env w"
    using upsert_row [OF ok written(3)] by (auto simp: gate_path_body)
  ultimately have "page_by_id env k s' = Some p"
    using page_by_id_existing [of env s2 p] written(4) by (simp add: page_by_id_def)
  moreover have "files s' = files ?s" "wlinks s2 = wlinks ?s"
    using upsert_frame [OF written(3)] written(4) by simp_all
  ultimately show ?thesis
    using links_of_replace [of env k "parse_wikilinks (sanitize_links (w_body w))" s2 j] written(1,4)
      \<open>p_body_ref p = gate_path env w\<close>
    by (simp add: read_body_def links_of_def)
qed simp_all

text \<open>
  Further: the ladder is complete and ranked. A name is resolved to a page exactly when some page has it as
  slug or alias: a page of the wanted type is merged into; a page of another type is flagged only
  when no page of the wanted type has the name.
\<close>

theorem resolve_ladder:
  "(case r_target (resolve env name want ps) of
     None \<Rightarrow> r_action (resolve env name want ps) = Create \<and> list_all (\<lambda>p. \<not> same_alias env name want p \<and> \<not> cross_type env name p) ps
   | Some i \<Rightarrow> \<exists>p\<in>set ps. p_id p = i
       \<and> (r_action (resolve env name want ps) = Merge \<and> same_alias env name want p
          \<or> r_action (resolve env name want ps) = Flag \<and> cross_type env name p
              \<and> list_all (\<lambda>q. \<not> same_alias env name want q) ps))"
  by (rule resolve_sound)

text \<open>
  Further: the factory touches one page. From every reachable state, whatever the model answers, it leaves
  the live rows as they are, or adds one unreviewed row at the end under the slug of the name when no
  page has that name, or rewrites exactly the row the ladder resolved to (whose id, type, slug and
  review mark a rewrite keeps).
\<close>

theorem factory_one_page:
  "let s = wiki_run env ops empty_wiki; s' = snd (create_or_update env m i c s);
       target = r_target (resolve env (c_name c) (c_type c) (existing_pages env s))
   in existing_pages env s' = existing_pages env s
      \<or> target = None \<and> (\<exists>row. existing_pages env s' = existing_pages env s @ [row] \<and> p_id row = i
          \<and> p_slug row = slugify (ge_unicode env) (c_name c) \<and> \<not> p_reviewed row)
      \<or> (\<exists>p\<in>set (existing_pages env s). target = Some (p_id p)
          \<and> (\<exists>u. existing_pages env s' = map (\<lambda>q. if q = p then update_row u q else q) (existing_pages env s)))"
proof -
  have ok: "wiki_ok env (wiki_run env ops empty_wiki)"
    by (rule wiki_run_ok [OF empty_wiki_ok])
  show ?thesis
  proof (cases "r_target (resolve env (c_name c) (c_type c) (existing_pages env (wiki_run env ops empty_wiki)))")
    case None
    then show ?thesis
      using factory_create [OF ok None, of m i] by (simp add: Let_def)
  next
    case (Some target)
    then obtain p where p: "p \<in> set (existing_pages env (wiki_run env ops empty_wiki))" "p_id p = target"
      by (rule resolve_target)
    then show ?thesis
      using factory_merge_row [OF ok p(1), of c m i] Some by (auto simp: Let_def)
  qed
qed


text \<open>
  Further: a merge by alias forgets the alias. When a name leads to a page by one of its aliases and the
  caller passes no aliases (as the ingest pipeline does), the merge erases the aliases of the page,
  so the same name does not lead to that page again.
\<close>

theorem alias_merge_forgets:
  assumes ok: "wiki_ok env s" and p: "p \<in> set (existing_pages env s)" "p_slug p \<noteq> slugify (ge_unicode env) (c_name c)"
    and merged: "existing_pages env s' \<noteq> existing_pages env s"
    and target: "r_target (resolve env (c_name c) (c_type c) (existing_pages env s)) = Some (p_id p)"
    and run: "s' = snd (create_or_update env m i c s)" and none: "c_aliases c = []"
  shows "r_target (resolve env (c_name c) (c_type c) (existing_pages env s')) \<noteq> Some (p_id p)"
proof
  assume again: "r_target (resolve env (c_name c) (c_type c) (existing_pages env s')) = Some (p_id p)"
  obtain u where u: "existing_pages env s' = map (\<lambda>q. if q = p then update_row u q else q) (existing_pages env s)" "u_aliases u = []"
    using factory_merge_row [OF ok p(1) target, of m i] merged none by (auto simp: run)
  obtain q where q: "q \<in> set (existing_pages env s')" "p_id q = p_id p"
    "same_alias env (c_name c) (c_type c) q \<or> cross_type env (c_name c) q"
    using resolve_sound [of env "c_name c" "c_type c" "existing_pages env s'"] again by auto
  have "inj_on p_id (set (existing_pages env s))"
    using ok by (auto simp: wiki_ok_def distinct_map existing_pages_def intro: inj_on_subset)
  then have "q = update_row u p"
    using q(1,2) p(1) by (auto simp: u(1) inj_on_def split: if_splits)
  then show False
    using q(3) p(2) u(2) by (auto simp: same_alias_def cross_type_def Let_def)
qed

text \<open>
  Further: nothing is ever reviewed. No operation of the write path sets the review mark, so a vault
  that only this code has written has no reviewed page and the append-only rule protects nothing.
\<close>

theorem never_reviewed: "list_all (\<lambda>p. \<not> p_reviewed p) (existing_pages env (wiki_run env ops empty_wiki))"
proof (induction ops rule: rev_induct)
  case Nil
  show ?case
    by (simp add: wiki_run_def existing_pages_def empty_wiki_def)
next
  case (snoc op ops)
  let ?s = "wiki_run env ops empty_wiki" and ?P = "\<lambda>s. list_all (\<lambda>p. \<not> p_reviewed p) (existing_pages env s)"
  have "?P (snd (write_page env i w ?s))" for i w
  proof (cases "write_page env i w ?s")
    case (Pair r s')
    with wiki_run_ok [OF empty_wiki_ok] show ?thesis
      by (cases rule: write_page_existing) (use snoc in \<open>auto simp: list_all_iff insert_row_def Pair\<close>)
  qed
  then have "?P (wiki_step env op ?s)"
    using snoc factory_invariant [of ?P ?s env]
    by (cases op) (simp_all add: soft_delete_existing, simp add: list_all_iff)
  then show ?case
    by (simp add: wiki_run_def)
qed

text \<open>
  Further: a full vault is read-only. Once the tenant has as many pages as the quota allows, no write and no
  factory call changes anything: not even existing pages can be edited until one is deleted.
\<close>

theorem full_vault_frozen:
  assumes "ge_max_pages env \<le> length (existing_pages env s)" "list_all (\<lambda>op. \<forall>i. op \<noteq> OpDelete i) ops"
  shows "wiki_run env ops s = s"
proof -
  have "snd (write_page env i w s) = s" for i w
    using assms(1) by (simp add: write_page_def over_quota_def vault_usage_def Let_def)
  then have "wiki_step env op s = s" if "\<forall>i. op \<noteq> OpDelete i" for op
    using that factory_invariant [of "\<lambda>s'. s' = s" s env] by (cases op) simp_all
  then show ?thesis
    using assms(2) unfolding wiki_run_def by (induction ops) simp_all
qed

section \<open>Witnesses\<close>

definition sample_env :: gate_env where
  "sample_env = \<lparr>ge_tenant = 1, ge_root = str ''/v'', ge_max_pages = 10, ge_max_bytes = 1000, ge_escapes = (\<lambda>_. False),
     ge_hash = (\<lambda>_. []), ge_unicode = ascii_unicode, ge_lowercase = map to_ascii_lower\<rparr>"

definition sample_write :: page_write where
  "sample_write = \<lparr>w_type = str ''entity'', w_slug = str ''rust'', w_title = str ''Rust'', w_aliases = [str ''rust lang''],
     w_tags = [], w_summary = [], w_source_ids = [], w_body = str ''see [[go]]'', w_created = None, w_reviewed = None\<rparr>"

definition sample_page :: page where
  "sample_page = (insert_row sample_env 7 Entity (upsert_of sample_env sample_write (gate_path sample_env sample_write)))\<lparr>p_reviewed := True\<rparr>"

definition sample_wiki :: wiki where
  "sample_wiki = \<lparr>pages = [sample_page], wlinks = [], files = [gate_path sample_env sample_write \<mapsto> str ''see [[go]]'']\<rparr>"

definition sample_req :: create_or_update_req where
  "sample_req = \<lparr>c_name = str ''Rust lang'', c_type = str ''entity'', c_body = str ''more'', c_aliases = [], c_tags = [],
     c_summary = [], c_source = None\<rparr>"

lemma sample_existing: "existing_pages sample_env sample_wiki = [sample_page]"
  by (simp add: existing_pages_def sample_wiki_def sample_page_def insert_row_def live_def)

lemma sample_page_simps: "p_id sample_page = 7" "p_reviewed sample_page" "files sample_wiki (p_body_ref sample_page) = Some (str ''see [[go]]'')"
  by (simp_all add: sample_page_def insert_row_def sample_wiki_def)

lemma sample_wiki_ok: "wiki_ok sample_env sample_wiki"
  unfolding wiki_ok_def sample_existing
  by (simp add: sample_wiki_def sample_page_def insert_row_def sample_write_def body_path_def gate_path_def upsert_of_def Let_def)

theorem vault_bounded_witness: "within_quota sample_env (wiki_run sample_env [OpWrite 7 sample_write, OpDelete 7] empty_wiki)"
  by (rule vault_bounded) (simp add: sample_env_def)

lemma sample_written: "fst (write_page sample_env 7 sample_write empty_wiki) = Inr 7"
  by code_simp

theorem page_written_witness:
  "read_body sample_env 7 (snd (write_page sample_env 7 sample_write empty_wiki)) = Inr (sanitize_links (w_body sample_write))
   \<and> distinct (map l_slug (links_of sample_env 7 (snd (write_page sample_env 7 sample_write empty_wiki))))
   \<and> set (map l_slug (links_of sample_env 7 (snd (write_page sample_env 7 sample_write empty_wiki))))
       = set (map target_slug (parse_wikilinks (sanitize_links (w_body sample_write))))
   \<and> links_of sample_env 8 (snd (write_page sample_env 7 sample_write empty_wiki)) = links_of sample_env 8 (wiki_run sample_env [] empty_wiki)"
proof -
  have "write_page sample_env 7 sample_write (wiki_run sample_env [] empty_wiki) = (Inr 7, snd (write_page sample_env 7 sample_write empty_wiki))"
    by (simp add: wiki_run_def prod_eq_iff sample_written)
  from page_written [OF this, of 8] show ?thesis
    by simp
qed

lemma sample_target: "r_target (resolve sample_env (c_name sample_req) (c_type sample_req) (existing_pages sample_env sample_wiki)) = Some 7"
  by code_simp


theorem alias_merge_forgets_witness:
  "r_target (resolve sample_env (c_name sample_req) (c_type sample_req) (existing_pages sample_env
     (snd (create_or_update sample_env (\<lambda>_ _. Inl []) 8 sample_req sample_wiki)))) \<noteq> Some (p_id sample_page)"
proof (rule alias_merge_forgets [OF sample_wiki_ok])
  show "p_slug sample_page \<noteq> slugify (ge_unicode sample_env) (c_name sample_req)"
    by code_simp
  have "map p_aliases (existing_pages sample_env (snd (create_or_update sample_env (\<lambda>_ _. Inl []) 8 sample_req sample_wiki))) = [[]]"
    by code_simp
  moreover have "map p_aliases (existing_pages sample_env sample_wiki) = [[str ''rust lang'']]"
    by code_simp
  ultimately show "existing_pages sample_env (snd (create_or_update sample_env (\<lambda>_ _. Inl []) 8 sample_req sample_wiki))
      \<noteq> existing_pages sample_env sample_wiki"
    by force
  show "r_target (resolve sample_env (c_name sample_req) (c_type sample_req) (existing_pages sample_env sample_wiki)) = Some (p_id sample_page)"
    by (simp add: sample_target sample_page_simps)
qed (simp_all add: sample_existing sample_req_def)

theorem full_vault_frozen_witness:
  "wiki_run (sample_env\<lparr>ge_max_pages := 1\<rparr>) [OpWrite 8 sample_write, OpFactory 9 sample_req (Inl [])] sample_wiki = sample_wiki"
  by (rule full_vault_frozen)
    (simp_all add: existing_pages_def live_def sample_wiki_def sample_page_def insert_row_def sample_env_def)

end
