(* ===== verification/Sync_Log.thy ===== *)
theory Sync_Log
  imports Redact "HOL-Library.Multiset"
begin

text \<open>
  The operation log of multi-device sync: the operation with its hybrid logical clock
  (\<open>protocol/src/sync.rs\<close>), device registration and push (\<open>sync/routes.rs\<close>), server-origin
  operations (\<open>sync/emit.rs\<close>), the pull cursor and the change feed (\<open>sync/materialize.rs\<close>), and
  the order in which unapplied operations are materialised. The state is the two tables with the
  identity column's counter; a function is one statement sequence of a transaction, \<open>None\<close> a
  database error (the transaction rolls back). Fresh device ids and the clock are arguments.
\<close>

section \<open>The clock and the operation\<close>

datatype hlc = HLC (hlc_wall_ms: int) (hlc_lamport: int) (site_id: int)

instantiation hlc :: linorder
begin

definition less_eq_hlc :: "hlc \<Rightarrow> hlc \<Rightarrow> bool" where
  "less_eq_hlc a b \<longleftrightarrow> hlc_wall_ms a < hlc_wall_ms b \<or> hlc_wall_ms a = hlc_wall_ms b \<and>
     (hlc_lamport a < hlc_lamport b \<or> hlc_lamport a = hlc_lamport b \<and> site_id a \<le> site_id b)"

definition less_hlc :: "hlc \<Rightarrow> hlc \<Rightarrow> bool" where
  "less_hlc a b \<longleftrightarrow> a \<le> b \<and> \<not> b \<le> (a :: hlc)"

instance
proof
  fix x y z :: hlc
  show "x < y \<longleftrightarrow> x \<le> y \<and> \<not> y \<le> x" by (rule less_hlc_def)
  show "x \<le> x" by (simp add: less_eq_hlc_def)
  show "x \<le> y \<Longrightarrow> y \<le> z \<Longrightarrow> x \<le> z" by (auto simp: less_eq_hlc_def)
  show "x \<le> y \<Longrightarrow> y \<le> x \<Longrightarrow> x = y" by (cases x; cases y) (auto simp: less_eq_hlc_def)
  show "x \<le> y \<or> y \<le> x" by (auto simp: less_eq_hlc_def)
qed

end

record sync_op =
  so_hlc :: hlc
  entity_kind :: rstr
  entity_ref :: rstr
  so_op :: jvalue

section \<open>The tables\<close>

record device =
  d_id :: uuid
  d_tenant :: uuid
  d_user :: uuid
  d_platform :: rstr
  d_name :: rstr
  d_site :: int

text \<open>A row is identified by its \<open>seq\<close>.\<close>

record sync_row =
  sr_tenant :: uuid
  sr_user :: uuid
  sr_device :: uuid
  sr_op :: sync_op
  sr_seq :: nat
  sr_applied :: bool

record op_log =
  devices :: "device list"
  op_rows :: "sync_row list"
  next_seq :: nat

definition max_or_zero :: "int list \<Rightarrow> int" where
  "max_or_zero xs = (if xs = [] then 0 else Max (set xs))"

section \<open>Devices\<close>

definition same_device :: "uuid \<Rightarrow> uuid \<Rightarrow> rstr \<Rightarrow> rstr \<Rightarrow> device \<Rightarrow> bool" where
  "same_device t u platform name d \<longleftrightarrow> d_tenant d = t \<and> d_user d = u \<and> d_platform d = platform \<and> d_name d = name"

definition register_device :: "uuid \<Rightarrow> uuid \<Rightarrow> uuid \<Rightarrow> rstr \<Rightarrow> rstr \<Rightarrow> op_log \<Rightarrow> (uuid \<times> int) \<times> op_log" where
  "register_device new_id t u platform name l = (case find (same_device t u platform name) (devices l) of
     Some d \<Rightarrow> ((d_id d, d_site d), l)
   | None \<Rightarrow> (let next = max_or_zero (map d_site (filter (\<lambda>d. d_tenant d = t) (devices l))) + 1
       in ((new_id, next), l\<lparr>devices := devices l @ [\<lparr>d_id = new_id, d_tenant = t, d_user = u, d_platform = platform,
            d_name = name, d_site = next\<rparr>]\<rparr>)))"

definition server_device :: "uuid \<Rightarrow> uuid \<Rightarrow> uuid \<Rightarrow> op_log \<Rightarrow> uuid \<times> op_log" where
  "server_device new_id t u l = (case find (\<lambda>d. d_tenant d = t \<and> d_site d = 0) (devices l) of
     Some d \<Rightarrow> (d_id d, l)
   | None \<Rightarrow> (new_id, l\<lparr>devices := devices l @ [\<lparr>d_id = new_id, d_tenant = t, d_user = u, d_platform = str ''server'',
        d_name = str ''server'', d_site = 0\<rparr>]\<rparr>))"

section \<open>Push and emit\<close>

definition op_key :: "sync_row \<Rightarrow> uuid \<times> uuid \<times> int \<times> int" where
  "op_key r = (sr_tenant r, sr_device r, site_id (so_hlc (sr_op r)), hlc_lamport (so_hlc (sr_op r)))"

text \<open>\<open>INSERT .. ON CONFLICT (tenant_id, device_id, site_id, hlc_lamport) DO NOTHING\<close>; the identity
  column advances also when the row conflicts.\<close>

definition insert_op :: "uuid \<Rightarrow> uuid \<Rightarrow> uuid \<Rightarrow> bool \<Rightarrow> sync_op \<Rightarrow> op_log \<Rightarrow> nat \<times> op_log" where
  "insert_op t u dev applied oper l = (let r = \<lparr>sr_tenant = t, sr_user = u, sr_device = dev,
         sr_op = oper\<lparr>so_op := redact_json (so_op oper)\<rparr>, sr_seq = next_seq l, sr_applied = applied\<rparr>;
       l' = l\<lparr>next_seq := next_seq l + 1\<rparr>
     in if op_key r \<in> op_key ` set (op_rows l) then (0, l') else (1, l'\<lparr>op_rows := op_rows l @ [r]\<rparr>))"

fun push_ops :: "uuid \<Rightarrow> uuid \<Rightarrow> uuid \<Rightarrow> sync_op list \<Rightarrow> op_log \<Rightarrow> nat \<times> op_log" where
  "push_ops t u dev [] l = (0, l)"
| "push_ops t u dev (oper # rest) l = (let (n, l1) = insert_op t u dev False oper l; (m, l2) = push_ops t u dev rest l1
     in (n + m, l2))"

definition MAX_OPS_PER_PUSH :: nat where "MAX_OPS_PER_PUSH = 1000"

text \<open>The next Lamport time of the tenant must fit the column.\<close>

definition emit_op :: "uuid \<Rightarrow> int \<Rightarrow> uuid \<Rightarrow> uuid \<Rightarrow> rstr \<Rightarrow> rstr \<Rightarrow> jvalue \<Rightarrow> op_log \<Rightarrow> op_log option" where
  "emit_op new_dev now_ms t u kind ref oper l = (let (dev, l1) = server_device new_dev t u l;
       lamport = max_or_zero (map (\<lambda>r. hlc_lamport (so_hlc (sr_op r))) (filter (\<lambda>r. sr_tenant r = t) (op_rows l1))) + 1
     in if i64_max < lamport then None
        else Some (snd (insert_op t u dev True
          \<lparr>so_hlc = HLC now_ms lamport 0, entity_kind = kind, entity_ref = ref, so_op = oper\<rparr> l1)))"

section \<open>The change feed\<close>

definition tenant_cursor :: "uuid \<Rightarrow> sync_row list \<Rightarrow> nat" where
  "tenant_cursor t rows = (let seqs = map sr_seq (filter (\<lambda>r. sr_tenant r = t) rows) in if seqs = [] then 0 else Max (set seqs))"

text \<open>\<open>rows\<close> are the rows the reading transaction sees.\<close>

definition ops_since_seq :: "uuid \<Rightarrow> nat \<Rightarrow> sync_row list \<Rightarrow> sync_op list" where
  "ops_since_seq t since rows = map sr_op (sort_key sr_seq (filter (\<lambda>r. sr_tenant r = t \<and> since < sr_seq r) rows))"

text \<open>The older feed by wall-clock time.\<close>

definition ops_since :: "uuid \<Rightarrow> int \<Rightarrow> sync_row list \<Rightarrow> jvalue list" where
  "ops_since t since rows = map (\<lambda>r. so_op (sr_op r)) (sort_key (\<lambda>r. so_hlc (sr_op r))
     (filter (\<lambda>r. sr_tenant r = t \<and> since < hlc_wall_ms (so_hlc (sr_op r))) rows))"

text \<open>The unapplied rows in the order they are materialised.\<close>

definition unapplied :: "uuid \<Rightarrow> op_log \<Rightarrow> sync_row list" where
  "unapplied t l = sort_key (\<lambda>r. so_hlc (sr_op r)) (filter (\<lambda>r. sr_tenant r = t \<and> \<not> sr_applied r) (op_rows l))"

definition mark_applied :: "nat \<Rightarrow> op_log \<Rightarrow> op_log" where
  "mark_applied n l = l\<lparr>op_rows := map (\<lambda>r. if sr_seq r = n then r\<lparr>sr_applied := True\<rparr> else r) (op_rows l)\<rparr>"

section \<open>The invariant of the log\<close>

datatype log_op = LRegister uuid uuid uuid rstr rstr | LPush uuid uuid uuid "sync_op list"
  | LEmit uuid int uuid uuid rstr rstr jvalue | LApplied nat

fun log_step :: "log_op \<Rightarrow> op_log \<Rightarrow> op_log" where
  "log_step (LRegister i t u p n) l = snd (register_device i t u p n l)"
| "log_step (LPush t u d os) l = snd (push_ops t u d os l)"
| "log_step (LEmit i now t u k r oper) l = (case emit_op i now t u k r oper l of None \<Rightarrow> l | Some l' \<Rightarrow> l')"
| "log_step (LApplied n) l = mark_applied n l"

definition log_run :: "log_op list \<Rightarrow> op_log" where
  "log_run os = fold log_step os \<lparr>devices = [], op_rows = [], next_seq = 1\<rparr>"

definition reserved :: "device \<Rightarrow> bool" where
  "reserved d \<longleftrightarrow> d_site d = 0 \<longrightarrow> d_platform d = str ''server'' \<and> d_name d = str ''server''"

definition log_ok :: "op_log \<Rightarrow> bool" where
  "log_ok l \<longleftrightarrow> distinct (map op_key (op_rows l)) \<and> sorted_wrt (<) (map sr_seq (op_rows l))
     \<and> list_all (\<lambda>n. n < next_seq l) (map sr_seq (op_rows l))
     \<and> distinct (map (\<lambda>d. (d_tenant d, d_site d)) (devices l))
     \<and> list_all (\<lambda>d. 0 \<le> d_site d \<and> reserved d) (devices l)"

lemma max_or_zero_ge: "x \<in> set xs \<Longrightarrow> x \<le> max_or_zero xs"
  by (auto simp: max_or_zero_def)

lemma max_or_zero_nonneg: "list_all (\<lambda>x. 0 \<le> x) xs \<Longrightarrow> 0 \<le> max_or_zero xs"
  by (cases xs) (auto simp: max_or_zero_def list_all_iff Max_ge_iff)

lemma next_site:
  assumes "log_ok l" "s = max_or_zero (map d_site (filter (\<lambda>d. d_tenant d = t) (devices l))) + 1"
  shows "1 \<le> s \<and> (t, s) \<notin> (\<lambda>d. (d_tenant d, d_site d)) ` set (devices l)"
proof -
  have "list_all (\<lambda>x. 0 \<le> x) (map d_site (filter (\<lambda>d. d_tenant d = t) (devices l)))"
    using assms(1) by (auto simp: log_ok_def list_all_iff)
  moreover have "d_site d < s" if "d \<in> set (devices l)" "d_tenant d = t" for d
    using max_or_zero_ge [of "d_site d" "map d_site (filter (\<lambda>d. d_tenant d = t) (devices l))"] that assms(2) by auto
  ultimately show ?thesis
    using max_or_zero_nonneg assms(2) by force
qed

lemma insert_op_ok: "log_ok l \<Longrightarrow> log_ok (snd (insert_op t u d a oper l))"
  by (auto simp: log_ok_def insert_op_def Let_def sorted_wrt_append list_all_iff less_Suc_eq)

lemma push_ops_Cons [simp]: "snd (push_ops t u d (oper # os) l) = snd (push_ops t u d os (snd (insert_op t u d False oper l)))"
  by (simp add: Let_def split: prod.splits)

lemma push_ops_ok: "log_ok l \<Longrightarrow> log_ok (snd (push_ops t u d os l))"
  by (induction os arbitrary: l) (simp_all del: push_ops.simps(2) add: insert_op_ok)

lemma register_device_ok: "log_ok l \<Longrightarrow> log_ok (snd (register_device i t u p n l))"
proof -
  assume ok: "log_ok l"
  let ?s = "max_or_zero (map d_site (filter (\<lambda>d. d_tenant d = t) (devices l))) + 1"
  have "1 \<le> ?s" "(t, ?s) \<notin> (\<lambda>d. (d_tenant d, d_site d)) ` set (devices l)"
    using next_site [OF ok, of ?s t] by simp_all
  then show ?thesis
    using ok by (cases "find (same_device t u p n) (devices l)") (auto simp: register_device_def Let_def log_ok_def reserved_def)
qed

lemma server_device_ok: "log_ok l \<Longrightarrow> log_ok (snd (server_device i t u l)) \<and> op_rows (snd (server_device i t u l)) = op_rows l"
  by (auto simp: server_device_def log_ok_def reserved_def find_None_iff split: option.splits)

lemma emit_op_ok: "log_ok l \<Longrightarrow> emit_op i now t u k r oper l = Some l' \<Longrightarrow> log_ok l'"
  using server_device_ok [of l i t u] insert_op_ok
  by (auto simp: emit_op_def Let_def split: prod.splits if_splits)

lemma mark_applied_ok: "log_ok l \<Longrightarrow> log_ok (mark_applied n l)"
proof -
  have "map op_key (op_rows (mark_applied n l)) = map op_key (op_rows l)" "map sr_seq (op_rows (mark_applied n l)) = map sr_seq (op_rows l)"
    by (simp_all add: mark_applied_def op_key_def)
  moreover have "devices (mark_applied n l) = devices l" "next_seq (mark_applied n l) = next_seq l"
    by (simp_all add: mark_applied_def)
  ultimately show "log_ok l \<Longrightarrow> log_ok (mark_applied n l)"
    unfolding log_ok_def by (simp only:)
qed

lemma log_step_ok: "log_ok l \<Longrightarrow> log_ok (log_step oper l)"
  by (cases oper) (auto simp: register_device_ok push_ops_ok mark_applied_ok emit_op_ok split: option.splits)

lemma log_run_ok: "log_ok (log_run os)"
proof -
  have "log_ok l \<Longrightarrow> log_ok (fold log_step os l)" for l
    by (induction os arbitrary: l) (simp_all add: log_step_ok)
  then show ?thesis
    by (simp add: log_run_def log_ok_def)
qed

section \<open>Facts about pushing\<close>

lemma insert_op_known:
  "(t, d, site_id (so_hlc oper), hlc_lamport (so_hlc oper)) \<in> op_key ` set (op_rows l)
    \<Longrightarrow> insert_op t u d a oper l = (0, l\<lparr>next_seq := next_seq l + 1\<rparr>)"
  by (simp add: insert_op_def op_key_def Let_def image_def)

lemma insert_op_keys: "op_key ` set (op_rows (snd (insert_op t u d a oper l)))
    = insert (t, d, site_id (so_hlc oper), hlc_lamport (so_hlc oper)) (op_key ` set (op_rows l))"
  by (auto simp: insert_op_def op_key_def Let_def image_def)

lemma push_ops_keys: "op_key ` set (op_rows (snd (push_ops t u d os l)))
    = (\<lambda>oper. (t, d, site_id (so_hlc oper), hlc_lamport (so_hlc oper))) ` set os \<union> op_key ` set (op_rows l)"
proof (induction os arbitrary: l)
  case (Cons oper os)
  show ?case
    using Cons [of "snd (insert_op t u d False oper l)"] insert_op_keys [of t u d False oper l]
    by (auto simp del: push_ops.simps(2))
qed simp

lemma push_ops_known:
  "(\<lambda>oper. (t, d, site_id (so_hlc oper), hlc_lamport (so_hlc oper))) ` set os \<subseteq> op_key ` set (op_rows l)
    \<Longrightarrow> push_ops t u d os l = (0, l\<lparr>next_seq := next_seq l + length os\<rparr>)"
  by (induction os arbitrary: l) (simp_all add: insert_op_known)

section \<open>Facts about the feed\<close>

text \<open>
  A device that follows the feed from cursor \<open>c\<close>. Each pull reads the cursor in one snapshot of the
  table and the operations in a later one; the cursor is kept for the next pull.
\<close>

fun follow :: "uuid \<Rightarrow> nat \<Rightarrow> (sync_row list \<times> sync_row list) list \<Rightarrow> sync_op list" where
  "follow t c [] = []"
| "follow t c ((at_cursor, at_read) # pulls) = ops_since_seq t c at_read @ follow t (tenant_cursor t at_cursor) pulls"

text \<open>Each snapshot contains the ones before it, and rows are added at the end: transactions commit in
  the order in which they drew their sequence numbers.\<close>

fun growing :: "sync_row list \<Rightarrow> (sync_row list \<times> sync_row list) list \<Rightarrow> bool" where
  "growing rows [] = True"
| "growing rows ((a, b) # pulls) = (prefix rows a \<and> prefix a b \<and> growing b pulls)"

lemma tenant_cursor_ge: "r \<in> set rows \<Longrightarrow> sr_tenant r = t \<Longrightarrow> sr_seq r \<le> tenant_cursor t rows"
  by (auto simp: tenant_cursor_def Let_def filter_empty_conv intro!: Max_ge)

lemma tenant_cursor_in: "tenant_cursor t rows = 0 \<or> tenant_cursor t rows \<in> sr_seq ` set rows"
proof (cases "filter (\<lambda>r. sr_tenant r = t) rows = []")
  case False
  then have "tenant_cursor t rows \<in> set (map sr_seq (filter (\<lambda>r. sr_tenant r = t) rows))"
    unfolding tenant_cursor_def Let_def
    using Max_in [of "set (map sr_seq (filter (\<lambda>r. sr_tenant r = t) rows))"] by (simp del: set_map set_filter)
  then show ?thesis
    by auto
qed (simp add: tenant_cursor_def)

lemma set_ops_since: "set (ops_since_seq t c rows) = sr_op ` {r \<in> set rows. sr_tenant r = t \<and> c < sr_seq r}"
  by (auto simp: ops_since_seq_def)

lemma tenant_cursor_le: "sorted_wrt (<) (map sr_seq (xs @ ys)) \<Longrightarrow> r \<in> set ys \<Longrightarrow> 0 < sr_seq r \<Longrightarrow> tenant_cursor t xs < sr_seq r"
  using tenant_cursor_in [of t xs] by (auto simp: sorted_wrt_append)

lemma last_snapshot_sorted:
  "growing rows pulls \<Longrightarrow> final = last (rows # map snd pulls) \<Longrightarrow> prefix rows final"
  by (induction rows pulls rule: growing.induct) (auto intro: prefix_order.order_trans)

lemma follow_complete:
  assumes "growing rows pulls" "pulls \<noteq> []" "final = snd (last pulls)" "sorted_wrt (<) (0 # map sr_seq final)"
    and "c \<le> tenant_cursor t rows"
  shows "set (ops_since_seq t c final) \<subseteq> set (follow t c pulls)"
  using assms
proof (induction rows pulls arbitrary: c rule: growing.induct)
  case (2 rows a b pulls)
  show ?case
  proof (cases "pulls = []")
    case True
    then show ?thesis
      using 2 by simp
  next
    case False
    have final: "final = snd (last pulls)"
      using 2 False by simp
    have ab: "prefix a b" and grow: "growing b pulls"
      using 2 by simp_all
    have "prefix b final"
      using last_snapshot_sorted [OF grow, of final] final False by (simp add: last_map)
    then obtain ys zs where b: "b = a @ ys" "final = (a @ ys) @ zs"
      using ab by (auto elim!: prefixE)
    have "tenant_cursor t a \<le> tenant_cursor t b"
      by (cases "filter (\<lambda>r. sr_tenant r = t) a = []") (auto simp: b tenant_cursor_def Let_def intro: Max_mono)
    then have IH: "set (ops_since_seq t (tenant_cursor t a) final) \<subseteq> set (follow t (tenant_cursor t a) pulls)"
      using 2 False final by simp
    have "r \<in> set b \<and> c < sr_seq r \<or> tenant_cursor t a < sr_seq r" if "r \<in> set final" "c < sr_seq r" for r
    proof (cases "r \<in> set b")
      case False
      then have "r \<in> set zs" "0 < sr_seq r"
        using that b 2 by auto
      then show ?thesis
        using tenant_cursor_le [of a "ys @ zs" r t] 2(5) b by simp
    qed (use that in simp)
    then have "set (ops_since_seq t c final) \<subseteq> set (ops_since_seq t c b) \<union> set (ops_since_seq t (tenant_cursor t a) final)"
      by (auto simp: set_ops_since)
    then show ?thesis
      using IH by auto
  qed
qed simp

section \<open>Properties\<close>

text \<open>
  Further: the log stays well-formed. After any sequence of registrations, pushes, emissions and
  applications no two rows share an idempotency key, sequence numbers increase, and within a tenant
  no two devices share a site; only the server's own device has the reserved site 0.
\<close>

theorem sync_log_ok: "log_ok (log_run os)"
  by (rule log_run_ok)

text \<open>
  Further: pushing is idempotent. After a batch was pushed, pushing any part of it again, in any order,
  inserts nothing and leaves the rows as they are.
\<close>

theorem push_idempotent:
  assumes "set again \<subseteq> set os"
  shows "fst (push_ops t u d again (snd (push_ops t u d os l))) = 0
    \<and> op_rows (snd (push_ops t u d again (snd (push_ops t u d os l)))) = op_rows (snd (push_ops t u d os l))"
proof -
  have "(\<lambda>oper. (t, d, site_id (so_hlc oper), hlc_lamport (so_hlc oper))) ` set again
      \<subseteq> op_key ` set (op_rows (snd (push_ops t u d os l)))"
    unfolding push_ops_keys using assms by blast
  from push_ops_known [OF this] show ?thesis
    by simp
qed

text \<open>
  Further: the materialisation order does not depend on arrival. Two logs holding the same unapplied
  operations with distinct clocks, in whatever order they arrived and in whatever rows, are
  materialised in the same order.
\<close>

theorem arrival_order_irrelevant:
  assumes "mset (map sr_op (filter (\<lambda>r. sr_tenant r = t \<and> \<not> sr_applied r) (op_rows l)))
      = mset (map sr_op (filter (\<lambda>r. sr_tenant r = t \<and> \<not> sr_applied r) (op_rows l')))"
    and "inj_on so_hlc (sr_op ` {r \<in> set (op_rows l). sr_tenant r = t \<and> \<not> sr_applied r})"
  shows "map sr_op (unapplied t l) = map sr_op (unapplied t l')"
proof -
  have map_sort: "map sr_op (sort_key (\<lambda>r. so_hlc (sr_op r)) rs) = sort_key so_hlc (map sr_op rs)" for rs
  proof -
    have insort: "map sr_op (insort_key (\<lambda>r. so_hlc (sr_op r)) r rs) = insort_key so_hlc (sr_op r) (map sr_op rs)" for r rs
      by (induction rs) simp_all
    show ?thesis
      unfolding sort_key_def by (induction rs) (simp_all add: insort)
  qed
  show ?thesis
    unfolding unapplied_def map_sort
    by (rule sort_key_inj_key_eq) (use assms in \<open>simp_all add: image_def\<close>)
qed


text \<open>
  Further: a late commit is lost. The sequence number is drawn at the insert, not at the commit: an
  operation that commits after a larger number has been read is never delivered, although the feed is
  documented as gap-free.
\<close>

theorem late_commit_lost:
  assumes "sr_seq late < tenant_cursor t rows" "rows' = late # rows"
  shows "tenant_cursor t rows \<le> tenant_cursor t rows' \<and> ops_since_seq t (tenant_cursor t rows) rows' = []"
proof -
  have "tenant_cursor t rows \<le> tenant_cursor t rows'"
    unfolding tenant_cursor_def assms(2) by (auto simp: Let_def intro: Max_mono)
  then show ?thesis
    using assms tenant_cursor_ge by (auto simp: ops_since_seq_def filter_empty_conv not_less)
qed

text \<open>
  Further: a pushed cursor skips others' operations. The cursor a push answers is past every row of the
  tenant, so a device that keeps it, as documented, never receives what other devices pushed since its
  own last pull.
\<close>

theorem push_cursor_skips:
  "ops_since_seq t (tenant_cursor t (op_rows (snd (push_ops t u d os l)))) (op_rows (snd (push_ops t u d os l))) = []"
  using tenant_cursor_ge by (auto simp: ops_since_seq_def filter_empty_conv not_less)

text \<open>
  Further: emissions are never dropped. In every reachable log an emission adds exactly one row, later than
  every row of the tenant in Lamport time, or fails because the Lamport column is exhausted; the
  latter happens, and for good, as soon as some device has pushed the largest Lamport time.
\<close>

theorem emit_adds_one:
  "case emit_op i now t u kind ref oper (log_run os) of
     None \<Rightarrow> list_ex (\<lambda>r. sr_tenant r = t \<and> i64_max \<le> hlc_lamport (so_hlc (sr_op r))) (op_rows (log_run os))
   | Some l' \<Rightarrow> \<exists>r. op_rows l' = op_rows (log_run os) @ [r] \<and> sr_applied r
       \<and> list_all (\<lambda>q. sr_tenant q = t \<longrightarrow> hlc_lamport (so_hlc (sr_op q)) < hlc_lamport (so_hlc (sr_op r))) (op_rows (log_run os))"
proof -
  let ?l = "log_run os" and ?tl = "map (\<lambda>r. hlc_lamport (so_hlc (sr_op r))) (filter (\<lambda>r. sr_tenant r = t) (op_rows (log_run os)))"
  obtain dev l1 where dev: "server_device i t u ?l = (dev, l1)"
    by fastforce
  then have rows: "op_rows l1 = op_rows ?l"
    using server_device_ok [OF log_run_ok, of i t u os] by simp
  show ?thesis
  proof (cases "i64_max < max_or_zero ?tl + 1")
    case True
    then have "?tl \<noteq> []"
      by (auto simp: max_or_zero_def i64_max_def split: if_splits)
    then have "max_or_zero ?tl \<in> set ?tl"
      unfolding max_or_zero_def by (simp del: set_map set_filter)
    then have "list_ex (\<lambda>r. sr_tenant r = t \<and> i64_max \<le> hlc_lamport (so_hlc (sr_op r))) (op_rows ?l)"
      using True by (auto simp: list_ex_iff)
    then show ?thesis
      using True dev rows by (simp add: emit_op_def)
  next
    case False
    have lt: "hlc_lamport (so_hlc (sr_op q)) < max_or_zero ?tl + 1" if "q \<in> set (op_rows ?l)" "sr_tenant q = t" for q
      using max_or_zero_ge [of "hlc_lamport (so_hlc (sr_op q))" ?tl] that by auto
    then have "(t, dev, 0, max_or_zero ?tl + 1) \<notin> op_key ` set (op_rows ?l)"
      by (force simp: op_key_def)
    then show ?thesis
      using False dev rows lt by (auto simp: emit_op_def insert_op_def op_key_def Let_def list_all_iff)
  qed
qed

text \<open>
  Further: the reserved site can be had. A client that registers under the server's platform and name is
  given the server's own device and site 0, so the server's operations and its own share one
  idempotency space.
\<close>

theorem server_site_taken:
  "fst (register_device j t u (str ''server'') (str ''server'')
     (snd (server_device i t u \<lparr>devices = [], op_rows = rows, next_seq = n\<rparr>))) = (i, 0)"
  by (simp add: server_device_def register_device_def same_device_def)

section \<open>Witnesses\<close>

definition sample_op :: "int \<Rightarrow> sync_op" where
  "sample_op n = \<lparr>so_hlc = HLC n n 1, entity_kind = str ''idea'', entity_ref = [], so_op = JNull\<rparr>"

definition sample_row :: "nat \<Rightarrow> sync_row" where
  "sample_row n = \<lparr>sr_tenant = 1, sr_user = 1, sr_device = 1, sr_op = sample_op (int n), sr_seq = n, sr_applied = False\<rparr>"

theorem push_idempotent_witness:
  "fst (push_ops 1 1 1 [sample_op 2, sample_op 1] (snd (push_ops 1 1 1 [sample_op 1, sample_op 2] (log_run [])))) = 0
   \<and> op_rows (snd (push_ops 1 1 1 [sample_op 2, sample_op 1] (snd (push_ops 1 1 1 [sample_op 1, sample_op 2] (log_run [])))))
     = op_rows (snd (push_ops 1 1 1 [sample_op 1, sample_op 2] (log_run [])))"
  by (rule push_idempotent) auto

theorem arrival_order_irrelevant_witness:
  "map sr_op (unapplied 1 \<lparr>devices = [], op_rows = [sample_row 1, sample_row 2], next_seq = 3\<rparr>)
   = map sr_op (unapplied 1 \<lparr>devices = [], op_rows = [sample_row 2, sample_row 1], next_seq = 3\<rparr>)"
  by (rule arrival_order_irrelevant) (auto simp: sample_row_def sample_op_def inj_on_def)


theorem late_commit_lost_witness:
  "tenant_cursor 1 [sample_row 2] \<le> tenant_cursor 1 [sample_row 1, sample_row 2]
   \<and> ops_since_seq 1 (tenant_cursor 1 [sample_row 2]) [sample_row 1, sample_row 2] = []"
  by (rule late_commit_lost [where late = "sample_row 1"]) (simp_all add: tenant_cursor_def sample_row_def)

end
