(* ===== verification/Http_Error.thy ===== *)
theory Http_Error
  imports Json
begin

text \<open>
  The error type of the routes and its response (\<open>app-server/src/error.rs\<close>): HTTP status, JSON-RPC
  code, message. The internal variants carry the text of the database or library error.
\<close>

datatype http_error =
    Unauthorized
  | Forbidden
  | Not_Found
  | Bad_Request rstr
  | Unprocessable rstr
  | Too_Large
  | Server_Overloaded
  | Cost_Cap
  | Db_Error rstr
  | Other_Error rstr

fun rpc_code :: "http_error \<Rightarrow> int" where
  "rpc_code Server_Overloaded = -32001"
| "rpc_code Cost_Cap = -32001"
| "rpc_code Unauthorized = -32002"
| "rpc_code (Bad_Request _) = -32602"
| "rpc_code (Unprocessable _) = -32602"
| "rpc_code _ = -32603"

fun status_code :: "http_error \<Rightarrow> nat" where
  "status_code Unauthorized = 401"
| "status_code Forbidden = 403"
| "status_code Not_Found = 404"
| "status_code (Bad_Request _) = 400"
| "status_code (Unprocessable _) = 422"
| "status_code Too_Large = 413"
| "status_code Server_Overloaded = 503"
| "status_code Cost_Cap = 503"
| "status_code _ = 500"

fun http_display :: "http_error \<Rightarrow> rstr" where
  "http_display Unauthorized = str ''unauthorized''"
| "http_display Forbidden = str ''forbidden''"
| "http_display Not_Found = str ''not found''"
| "http_display (Bad_Request m) = str ''bad request: '' @ m"
| "http_display (Unprocessable m) = str ''unprocessable: '' @ m"
| "http_display Too_Large = str ''payload too large''"
| "http_display Server_Overloaded = str ''server overloaded; retry later''"
| "http_display Cost_Cap = str ''daily cost cap reached''"
| "http_display (Db_Error m) = m"
| "http_display (Other_Error m) = m"

definition client_message :: "http_error \<Rightarrow> rstr" where
  "client_message e = (case e of Db_Error _ \<Rightarrow> str ''internal server error''
     | Other_Error _ \<Rightarrow> str ''internal server error'' | _ \<Rightarrow> http_display e)"

definition json_int :: "int \<Rightarrow> jvalue" where
  "json_int n = JNumber (if 0 \<le> n then PosInt (word_of_int n) else NegInt n)"

definition error_response :: "http_error \<Rightarrow> nat \<times> jvalue" where
  "error_response e = (status_code e, json_obj [(''error'', json_obj
     [(''code'', json_int (rpc_code e)), (''message'', JString (client_message e))])])"

text \<open>
  Further: an error response leaks nothing. Two internal errors get the same response, whatever their texts,
  and only internal errors get status 500.
\<close>

theorem internal_errors_opaque:
  "error_response (Db_Error m) = error_response (Other_Error m')
    \<and> (status_code e = 500 \<longleftrightarrow> (\<exists>m. e = Db_Error m \<or> e = Other_Error m))
    \<and> (status_code e = 503 \<longleftrightarrow> rpc_code e = -32001)"
  by (cases e) (simp_all add: error_response_def client_message_def)

end
