(* ===== verification/Captures.thy ===== *)
theory Captures
  imports Wiki_Pages Sync_Log Jobs Http_Error
begin

text \<open>
  Captures: the capture, edit and delete routes (\<open>capture/routes.rs\<close>), the idea's ingest bookkeeping
  (\<open>store/ideas_repo.rs\<close>), the digest route (\<open>ingest/routes.rs\<close>) and the loading of an idea by the
  ingest handler (\<open>ingest/mod.rs\<close>). The state puts together the ideas table, the job queue, the
  sync log, the wiki and the object store; a route is one transaction on it, which an error rolls back
  except for the line already appended to the object store. Every update of an idea fires the
  trigger that sets \<open>updated_at\<close>. Parameters (\<open>request\<close>): tenant, user, the transaction's time,
  the texts of ids and times, the date parser and JSON printer; fresh ids are arguments. The text of a
  database error is not modelled (\<open>Db_Error []\<close>).
\<close>

section \<open>The state\<close>

datatype ingest_state = IngestPending | Ingesting | Ingested | SkippedRedundant | IngestFailed

record idea =
  i_id :: uuid
  i_tenant :: uuid
  i_user :: uuid
  i_kind :: rstr
  i_body :: rstr
  i_source_url :: "rstr option"
  i_origin :: rstr
  i_key :: "rstr option"
  i_captured_at :: int
  i_lat :: "number option"
  i_lng :: "number option"
  i_acc :: "number option"
  i_state :: ingest_state
  i_job :: "uuid option"
  i_last_ingested :: "int option"
  i_updated :: int
  i_active :: bool

record approval_row =
  ar_user :: uuid
  ar_action :: rstr
  ar_subject :: jvalue

record store =
  ideas :: "idea list"
  jobs :: "job list"
  sync :: op_log
  vault :: wiki
  approvals :: "approval_row list"
  objects :: "(uuid \<times> jvalue) list"

record request =
  rq_tenant :: uuid
  rq_user :: uuid
  rq_now :: int
  rq_show_uuid :: "uuid \<Rightarrow> rstr"
  rq_show_time :: "int \<Rightarrow> rstr"
  rq_parse_time :: "rstr \<Rightarrow> int option"
  rq_print :: "jvalue \<Rightarrow> rstr"

text \<open>An update fires the trigger.\<close>

definition touch :: "int \<Rightarrow> (idea \<Rightarrow> idea) \<Rightarrow> idea \<Rightarrow> idea" where
  "touch now f i = (f i)\<lparr>i_updated := now\<rparr>"

definition update_ideas :: "request \<Rightarrow> (idea \<Rightarrow> bool) \<Rightarrow> (idea \<Rightarrow> idea) \<Rightarrow> idea list \<Rightarrow> idea list" where
  "update_ideas rq P f is = map (\<lambda>i. if i_tenant i = rq_tenant rq \<and> P i then touch (rq_now rq) f i else i) is"

section \<open>Capturing\<close>

definition escape_tags :: "rstr \<Rightarrow> rstr" where
  "escape_tags s = replace (replace (replace (replace s
     (str ''<system-reminder>'') (str ''&lt;system-reminder&gt;''))
     (str ''</system-reminder>'') (str ''&lt;/system-reminder&gt;''))
     (str ''<untrusted_source'') (str ''&lt;untrusted_source''))
     (str ''</untrusted_source>'') (str ''&lt;/untrusted_source&gt;'')"

record capture_params =
  cp_kind :: rstr
  cp_body :: "rstr option"
  cp_source_url :: "rstr option"
  cp_origin :: rstr
  cp_captured_at :: "rstr option"
  cp_lat :: "number option"
  cp_lng :: "number option"
  cp_acc :: "number option"

definition json_num :: "number option \<Rightarrow> jvalue" where
  "json_num x = (case x of None \<Rightarrow> JNull | Some n \<Rightarrow> JNumber n)"

definition by_key :: "request \<Rightarrow> rstr \<Rightarrow> idea \<Rightarrow> bool" where
  "by_key rq key i \<longleftrightarrow> i_tenant i = rq_tenant rq \<and> i_key i = Some key"

definition found_ids :: "idea \<Rightarrow> uuid \<times> uuid" where
  "found_ids i = (i_id i, the_or (i_id i) (i_job i))"

definition new_idea :: "request \<Rightarrow> uuid \<Rightarrow> rstr option \<Rightarrow> capture_params \<Rightarrow> idea" where
  "new_idea rq i key p = \<lparr>i_id = i, i_tenant = rq_tenant rq, i_user = rq_user rq, i_kind = cp_kind p,
     i_body = escape_tags (the_or [] (cp_body p)), i_source_url = cp_source_url p, i_origin = cp_origin p, i_key = key,
     i_captured_at = the_or (rq_now rq) (Option.bind (cp_captured_at p) (rq_parse_time rq)),
     i_lat = cp_lat p, i_lng = cp_lng p, i_acc = cp_acc p, i_state = IngestPending, i_job = None,
     i_last_ingested = None, i_updated = rq_now rq, i_active = True\<rparr>"

definition ingest_ref :: "request \<Rightarrow> uuid \<Rightarrow> rstr" where
  "ingest_ref rq i = str ''ingest:'' @ rq_show_uuid rq i"

definition enqueue_ingest :: "request \<Rightarrow> uuid \<Rightarrow> uuid \<Rightarrow> job list \<Rightarrow> (enqueue_error + uuid) \<times> job list" where
  "enqueue_ingest rq job_id i js = enqueue (rq_print rq) (rq_now rq) job_id (rq_tenant rq) (Some (rq_user rq)) Ingest
     (json_obj [(''idea_id'', JString (rq_show_uuid rq i))]) (Some (ingest_ref rq i)) js"

definition create_op :: "request \<Rightarrow> idea \<Rightarrow> jvalue" where
  "create_op rq i = json_obj [(''create'', json_obj [(''body'', JString (i_body i)), (''origin'', JString (i_origin i)),
     (''captured_at'', JString (rq_show_time rq (i_captured_at i))), (''lat'', json_num (i_lat i)),
     (''lng'', json_num (i_lng i)), (''loc_accuracy_m'', json_num (i_acc i))])]"

definition emit_idea :: "request \<Rightarrow> uuid \<Rightarrow> uuid \<Rightarrow> jvalue \<Rightarrow> op_log \<Rightarrow> op_log option" where
  "emit_idea rq new_dev i oper l =
     emit_op new_dev (rq_now rq div 1000) (rq_tenant rq) (rq_user rq) (str ''idea'') (rq_show_uuid rq i) oper l"

text \<open>
  \<open>raced\<close> are the ideas other transactions committed between the look-up of the key and the insert.
  The kinds the enumeration of the column knows are checked by the insert.
\<close>

definition idea_kinds :: "rstr list" where
  "idea_kinds = map str [''text'', ''voice'', ''clip'']"

definition capture :: "request \<Rightarrow> uuid \<Rightarrow> uuid \<Rightarrow> uuid \<Rightarrow> idea list \<Rightarrow> rstr option \<Rightarrow> capture_params \<Rightarrow> store
    \<Rightarrow> (http_error + uuid \<times> uuid) \<times> store" where
  "capture rq idea_id job_id dev_id raced header p s = (
     let key = (case header of None \<Rightarrow> None | Some k \<Rightarrow> if k = [] then None else Some k)
     in case Option.bind key (\<lambda>k. find (by_key rq k) (ideas s)) of
       Some i \<Rightarrow> (Inr (found_ids i), s)
     | None \<Rightarrow> (
         let i = new_idea rq idea_id key p;
             line = redact_json (json_obj [(''kind'', JString (cp_kind p)), (''body'', JString (i_body i)), (''origin'', JString (cp_origin p))]);
             s1 = s\<lparr>objects := objects s @ [(idea_id, line)], ideas := ideas s @ raced\<rparr>
         in if cp_kind p \<notin> set idea_kinds \<or> idea_id \<in> i_id ` set (ideas s1) then (Inl (Db_Error []), s1)
         else case Option.bind key (\<lambda>k. find (by_key rq k) (ideas s1)) of
           Some w \<Rightarrow> (Inr (found_ids w), s1)
         | None \<Rightarrow> (case enqueue_ingest rq job_id idea_id (jobs s1) of
             (Inl _, _) \<Rightarrow> (Inl Server_Overloaded, s1)
           | (Inr job, js) \<Rightarrow> (case emit_idea rq dev_id idea_id (create_op rq i) (sync s1) of
               None \<Rightarrow> (Inl (Db_Error []), s1)
             | Some l \<Rightarrow> (Inr (idea_id, job),
                 s1\<lparr>ideas := ideas s1 @ [touch (rq_now rq) (\<lambda>i. i\<lparr>i_job := Some job\<rparr>) i], jobs := js, sync := l\<rparr>)))))"

section \<open>Editing and deleting\<close>

record capture_patch =
  pt_body :: "rstr option"
  pt_lat :: "number option"
  pt_lng :: "number option"
  pt_acc :: "number option"

definition or_keep :: "'a option \<Rightarrow> 'a option \<Rightarrow> 'a option" where
  "or_keep new old = (case new of None \<Rightarrow> old | Some v \<Rightarrow> Some v)"

definition move :: "capture_patch \<Rightarrow> idea \<Rightarrow> idea" where
  "move p i = i\<lparr>i_lat := or_keep (pt_lat p) (i_lat i), i_lng := or_keep (pt_lng p) (i_lng i), i_acc := or_keep (pt_acc p) (i_acc i)\<rparr>"

text \<open>\<open>GREATEST(last_ingested_at, now())\<close>, which ignores a null.\<close>

definition stamp_ingested :: "int \<Rightarrow> idea \<Rightarrow> idea" where
  "stamp_ingested now i = i\<lparr>i_last_ingested := Some (case i_last_ingested i of None \<Rightarrow> now | Some t \<Rightarrow> max t now)\<rparr>"

definition visible :: "request \<Rightarrow> uuid \<Rightarrow> idea \<Rightarrow> bool" where
  "visible rq i x \<longleftrightarrow> i_tenant x = rq_tenant rq \<and> i_id x = i \<and> i_active x"

definition update_op :: "rstr option \<Rightarrow> capture_patch \<Rightarrow> jvalue" where
  "update_op body p = json_obj [(''update'', json_obj [(''body'', (case body of None \<Rightarrow> JNull | Some b \<Rightarrow> JString b)),
     (''lat'', json_num (pt_lat p)), (''lng'', json_num (pt_lng p)), (''loc_accuracy_m'', json_num (pt_acc p))])]"

text \<open>The answer is whether a new ingest is due.\<close>

definition edit :: "request \<Rightarrow> uuid \<Rightarrow> uuid \<Rightarrow> capture_patch \<Rightarrow> store \<Rightarrow> (http_error + bool) \<times> store" where
  "edit rq dev_id i p s = (case find (visible rq i) (ideas s) of
     None \<Rightarrow> (Inl Not_Found, s)
   | Some x \<Rightarrow> (
       let new_body = map_option escape_tags (pt_body p);
           changed = (case new_body of None \<Rightarrow> None | Some b \<Rightarrow> if b = i_body x then None else Some b);
           is = update_ideas rq (\<lambda>x. i_id x = i) (case changed of
               Some b \<Rightarrow> (\<lambda>x. (move p x)\<lparr>i_body := b\<rparr>)
             | None \<Rightarrow> (\<lambda>x. stamp_ingested (rq_now rq) (move p x))) (ideas s)
       in case emit_idea rq dev_id i (update_op changed p) (sync s) of
         None \<Rightarrow> (Inl (Db_Error []), s)
       | Some l \<Rightarrow> (Inr (changed \<noteq> None), s\<lparr>ideas := is, sync := l\<rparr>)))"

definition contributed :: "request \<Rightarrow> uuid \<Rightarrow> page \<Rightarrow> bool" where
  "contributed rq i p \<longleftrightarrow> p_tenant p = rq_tenant rq \<and> \<not> p_deleted p \<and> i \<in> set (p_source_ids p)"

definition orphaned :: "uuid \<Rightarrow> page \<Rightarrow> bool" where
  "orphaned i p \<longleftrightarrow> p_type p = Source \<or> filter (\<lambda>x. x \<noteq> i) (p_source_ids p) = []"

definition drop_source :: "uuid \<Rightarrow> page \<Rightarrow> page" where
  "drop_source i p = p\<lparr>p_source_ids := filter (\<lambda>x. x \<noteq> i) (p_source_ids p), p_sync_version := p_sync_version p + 1\<rparr>"

definition retract_pages :: "request \<Rightarrow> uuid \<Rightarrow> page list \<Rightarrow> page list" where
  "retract_pages rq i ps = map (\<lambda>p. if contributed rq i p
     then (if orphaned i p then p\<lparr>p_deleted := True\<rparr> else drop_source i p) else p) ps"

definition delete_capture :: "request \<Rightarrow> uuid \<Rightarrow> uuid \<Rightarrow> store \<Rightarrow> (http_error + bool) \<times> store" where
  "delete_capture rq dev_id i s = (
     if find (visible rq i) (ideas s) = None then (Inl Not_Found, s)
     else (let is = update_ideas rq (\<lambda>x. i_id x = i \<and> i_active x) (\<lambda>x. x\<lparr>i_active := False\<rparr>) (ideas s);
           gone = filter (\<lambda>p. contributed rq i p \<and> orphaned i p) (pages (vault s));
           rows = map (\<lambda>p. \<lparr>ar_user = rq_user rq, ar_action = str ''wiki_delete'',
               ar_subject = json_obj [(''page'', JString (rq_show_uuid rq (p_id p)))]\<rparr>) gone
         in case emit_idea rq dev_id i (json_obj [(''delete'', JObject [])]) (sync s) of
           None \<Rightarrow> (Inl (Db_Error []), s)
         | Some l \<Rightarrow> (Inr True, s\<lparr>ideas := is, vault := (vault s)\<lparr>pages := retract_pages rq i (pages (vault s))\<rparr>,
             approvals := approvals s @ rows, sync := l\<rparr>)))"

section \<open>Ingest bookkeeping\<close>

definition set_ingest_state :: "request \<Rightarrow> uuid \<Rightarrow> ingest_state \<Rightarrow> store \<Rightarrow> store" where
  "set_ingest_state rq i st s = s\<lparr>ideas := update_ideas rq (\<lambda>x. i_id x = i) (\<lambda>x. x\<lparr>i_state := st\<rparr>) (ideas s)\<rparr>"

definition set_last_ingested :: "request \<Rightarrow> uuid \<Rightarrow> store \<Rightarrow> store" where
  "set_last_ingested rq i s =
     s\<lparr>ideas := update_ideas rq (\<lambda>x. i_id x = i) (\<lambda>x. x\<lparr>i_last_ingested := Some (rq_now rq)\<rparr>) (ideas s)\<rparr>"

definition dirty :: "request \<Rightarrow> idea \<Rightarrow> bool" where
  "dirty rq i \<longleftrightarrow> i_tenant i = rq_tenant rq \<and> i_active i
     \<and> (i_state i = IngestPending \<or> (case i_last_ingested i of None \<Rightarrow> False | Some t \<Rightarrow> t < i_updated i))"

definition select_dirty :: "request \<Rightarrow> store \<Rightarrow> uuid list" where
  "select_dirty rq s = map i_id (sort_key i_captured_at (filter (dirty rq) (ideas s)))"

text \<open>\<open>captures_since\<close>, the count behind the session gate of the dream.\<close>

definition captures_since :: "request \<Rightarrow> int \<Rightarrow> uuid \<Rightarrow> store \<Rightarrow> int" where
  "captures_since rq since current s = int (length (filter (\<lambda>i. i_tenant i = rq_tenant rq \<and> since < i_captured_at i
     \<and> i_job i \<noteq> Some current \<and> i_active i) (ideas s)))"

definition load_idea :: "uuid \<Rightarrow> uuid \<Rightarrow> store \<Rightarrow> (uuid \<times> rstr \<times> rstr) option" where
  "load_idea t i s = map_option (\<lambda>x. (i_user x, i_body x, i_origin x)) (find (\<lambda>x. i_tenant x = t \<and> i_id x = i) (ideas s))"

text \<open>\<open>POST /v1/ingest/run\<close>: one debounced job for each dirty capture, or none at all.\<close>

fun enqueue_all :: "request \<Rightarrow> (uuid \<times> uuid) list \<Rightarrow> job list \<Rightarrow> (uuid list \<times> job list) option" where
  "enqueue_all rq [] js = Some ([], js)"
| "enqueue_all rq ((i, job_id) # rest) js = (case enqueue_ingest rq job_id i js of
     (Inl _, _) \<Rightarrow> None
   | (Inr j, js') \<Rightarrow> map_option (\<lambda>(ids, js''). (j # ids, js'')) (enqueue_all rq rest js'))"

definition ingest_run :: "request \<Rightarrow> (nat \<Rightarrow> uuid) \<Rightarrow> store \<Rightarrow> (http_error + uuid list) \<times> store" where
  "ingest_run rq fresh s = (let ids = select_dirty rq s in
     case enqueue_all rq (map (\<lambda>(n, i). (i, fresh n)) (enumerate 0 ids)) (jobs s) of
       None \<Rightarrow> (Inl Server_Overloaded, s)
     | Some (js_ids, js) \<Rightarrow> (Inr js_ids, s\<lparr>jobs := js\<rparr>))"

section \<open>Facts\<close>

lemma found_by_key: "find (by_key rq k) xs = Some i \<Longrightarrow> find (by_key rq k) (xs @ ys) = Some i"
  by (induction xs) auto

lemma find_by_key_append: "find (by_key rq k) xs = None \<Longrightarrow> by_key rq k i \<Longrightarrow> find (by_key rq k) (xs @ [i]) = Some i"
  by (induction xs) (auto split: if_splits)

lemma by_key_tenant: "rq_tenant rq' = rq_tenant rq \<Longrightarrow> by_key rq' = by_key rq"
  by (simp add: by_key_def fun_eq_iff)

text \<open>A successful capture answers an idea that was there, or adds one.\<close>

definition header_key :: "rstr option \<Rightarrow> rstr option" where
  "header_key header = (case header of None \<Rightarrow> None | Some k \<Rightarrow> if k = [] then None else Some k)"

definition captured :: "request \<Rightarrow> uuid \<Rightarrow> uuid \<Rightarrow> rstr option \<Rightarrow> capture_params \<Rightarrow> idea" where
  "captured rq i job header p = touch (rq_now rq) (\<lambda>i. i\<lparr>i_job := Some job\<rparr>) (new_idea rq i (header_key header) p)"

lemma capture_cases:
  assumes "capture rq i j d raced header p s = (Inr r, s')"
  obtains (found) k x where "header_key header = Some k" "r = found_ids x" "find (by_key rq k) (ideas s') = Some x"
      "x \<in> set (ideas s @ raced)"
    | (fresh) job js l where "r = (i, job)" "enqueue_ingest rq j i (jobs s) = (Inr job, js)"
      "emit_idea rq d i (create_op rq (new_idea rq i (header_key header) p)) (sync s) = Some l"
      "\<And>k. header_key header = Some k \<Longrightarrow> find (by_key rq k) (ideas s @ raced) = None"
      "ideas s' = (ideas s @ raced) @ [captured rq i job header p]" "jobs s' = js" "sync s' = l" "i \<in> fst ` set (objects s')"
proof (cases "Option.bind (header_key header) (\<lambda>k. find (by_key rq k) (ideas s))")
  case (Some x)
  then obtain k where k: "header_key header = Some k" "find (by_key rq k) (ideas s) = Some x"
    by (cases "header_key header") auto
  moreover have "r = found_ids x" "s' = s"
    using assms Some by (simp_all add: capture_def header_key_def)
  moreover have "x \<in> set (ideas s @ raced)"
    using k by (auto simp: find_Some_iff)
  ultimately show thesis
    using found by simp
next
  case none: None
  show thesis
  proof (cases "Option.bind (header_key header) (\<lambda>k. find (by_key rq k) (ideas s @ raced))")
    case (Some x)
    then obtain k where k: "header_key header = Some k" "find (by_key rq k) (ideas s @ raced) = Some x"
      by (cases "header_key header") auto
    moreover have "r = found_ids x" "ideas s' = ideas s @ raced"
      using assms none Some by (auto simp: capture_def header_key_def Let_def split: if_splits)
    moreover have "x \<in> set (ideas s @ raced)"
      using k(2) by (auto simp: find_Some_iff simp del: set_append)
    ultimately show thesis
      using found by simp
  next
    case None
    show thesis
    proof (cases "enqueue_ingest rq j i (jobs s)")
      case (Pair e js)
      show thesis
        by (cases e; cases "emit_idea rq d i (create_op rq (new_idea rq i (header_key header) p)) (sync s)")
          (use assms none None Pair in \<open>auto simp: capture_def header_key_def captured_def Let_def split: if_splits intro!: fresh\<close>)
    qed
  qed
qed

text \<open>After a successful keyed capture the key leads to the answered ids.\<close>

lemma capture_found:
  assumes "capture rq i j d raced (Some k) p s = (Inr r, s')" "k \<noteq> []"
  shows "\<exists>x. find (by_key rq k) (ideas s') = Some x \<and> found_ids x = r"
  using assms(1)
proof (cases rule: capture_cases)
  case (found k' x)
  then show ?thesis
    using assms(2) by (auto simp: header_key_def)
next
  case (fresh job js l)
  have key: "header_key (Some k) = Some k"
    using assms(2) by (simp add: header_key_def)
  have "find (by_key rq k) ((ideas s @ raced) @ [captured rq i job (Some k) p]) = Some (captured rq i job (Some k) p)"
    using fresh(4) [OF key] by (rule find_by_key_append) (simp add: by_key_def captured_def touch_def new_idea_def key)
  then show ?thesis
    using fresh(1,5) by (simp add: found_ids_def captured_def touch_def new_idea_def)
qed

definition ideas_ok :: "store \<Rightarrow> bool" where
  "ideas_ok s \<longleftrightarrow> distinct (map i_id (ideas s))"

lemma find_unique:
  assumes "ideas_ok s" "x \<in> set (ideas s)" "P x" "\<And>y. P y \<Longrightarrow> i_id y = i_id x"
  shows "find P (ideas s) = Some x"
proof -
  obtain y where y: "find P (ideas s) = Some y"
    using assms(2,3) by (cases "find P (ideas s)") (auto simp: find_None_iff)
  then have "y \<in> set (ideas s)" "P y"
    by (auto simp: find_Some_iff)
  moreover from this have "i_id y = i_id x"
    using assms(4) by blast
  ultimately have "y = x"
    using assms(1,2) unfolding ideas_ok_def distinct_map by (meson inj_onD)
  then show ?thesis
    using y by simp
qed

lemma update_ideas_find:
  assumes "\<And>x. i_id (f x) = i_id x" "\<And>x. i_tenant (f x) = i_tenant x"
  shows "find (\<lambda>x. i_tenant x = rq_tenant rq \<and> i_id x = i) (update_ideas rq (\<lambda>x. i_id x = i) f xs)
    = map_option (touch (rq_now rq) f) (find (\<lambda>x. i_tenant x = rq_tenant rq \<and> i_id x = i) xs)"
  using assms by (induction xs) (auto simp: update_ideas_def touch_def)

text \<open>The idea a tenant has under an id.\<close>

definition idea_of :: "request \<Rightarrow> uuid \<Rightarrow> store \<Rightarrow> idea option" where
  "idea_of rq i s = find (\<lambda>x. i_tenant x = rq_tenant rq \<and> i_id x = i) (ideas s)"

lemma idea_of_visible:
  "ideas_ok s \<Longrightarrow> find (visible rq i) (ideas s) = Some x \<longleftrightarrow> idea_of rq i s = Some x \<and> i_active x"
proof
  assume ok: "ideas_ok s"
  {
    assume "find (visible rq i) (ideas s) = Some x"
    then have "x \<in> set (ideas s)" "visible rq i x"
      by (auto simp: find_Some_iff)
    then show "idea_of rq i s = Some x \<and> i_active x"
      unfolding idea_of_def using find_unique [OF ok, of x "\<lambda>x. i_tenant x = rq_tenant rq \<and> i_id x = i"]
      by (auto simp: visible_def)
  next
    assume "idea_of rq i s = Some x \<and> i_active x"
    then have "x \<in> set (ideas s)" "visible rq i x"
      by (auto simp: idea_of_def find_Some_iff visible_def)
    then show "find (visible rq i) (ideas s) = Some x"
      using find_unique [OF ok, of x "visible rq i"] by (auto simp: visible_def)
  }
qed

text \<open>What an edit does to the row.\<close>

definition body_edit :: "capture_patch \<Rightarrow> idea \<Rightarrow> rstr option" where
  "body_edit p x = (case map_option escape_tags (pt_body p) of None \<Rightarrow> None | Some b \<Rightarrow> if b = i_body x then None else Some b)"

definition edited :: "request \<Rightarrow> capture_patch \<Rightarrow> idea \<Rightarrow> idea" where
  "edited rq p x = touch (rq_now rq) (case body_edit p x of
     Some b \<Rightarrow> (\<lambda>x. (move p x)\<lparr>i_body := b\<rparr>) | None \<Rightarrow> (\<lambda>x. stamp_ingested (rq_now rq) (move p x))) x"

lemma edit_result:
  assumes ok: "ideas_ok s" and "edit rq d i p s = (Inr b, s')"
  obtains x where "idea_of rq i s = Some x" "i_active x" "b \<longleftrightarrow> body_edit p x \<noteq> None"
    "idea_of rq i s' = Some (edited rq p x)" "ideas_ok s'"
proof -
  obtain x where x: "find (visible rq i) (ideas s) = Some x"
    using assms(2) by (cases "find (visible rq i) (ideas s)") (auto simp: edit_def)
  then have idea: "idea_of rq i s = Some x" "i_active x"
    using idea_of_visible [OF ok] by blast+
  let ?f = "case body_edit p x of Some b \<Rightarrow> (\<lambda>x. (move p x)\<lparr>i_body := b\<rparr>) | None \<Rightarrow> (\<lambda>x. stamp_ingested (rq_now rq) (move p x))"
  have "b \<longleftrightarrow> body_edit p x \<noteq> None" "ideas s' = update_ideas rq (\<lambda>x. i_id x = i) ?f (ideas s)"
    using assms(2) x by (auto simp: edit_def body_edit_def Let_def split: option.splits)
  moreover have "i_id (?f y) = i_id y" "i_tenant (?f y) = i_tenant y" for y
    by (simp_all add: move_def stamp_ingested_def split: option.splits)
  moreover from this have "map i_id (update_ideas rq Q ?f xs) = map i_id xs" for Q xs
    by (simp add: update_ideas_def touch_def)
  ultimately show thesis
    using that idea ok update_ideas_find [of ?f rq i "ideas s"] by (simp add: idea_of_def edited_def ideas_ok_def)
qed

lemma payload_with_ref: "payload_ref pr (with_ref (Some r) (json_obj kvs)) = Some r"
  by (simp add: payload_ref_def json_obj_def obj_get_insert)

lemma enqueue_ingest_job:
  assumes "enqueue_ingest rq j i js = (Inr job, js')"
  shows "list_ex (\<lambda>q. j_id q = job \<and> j_tenant q = rq_tenant rq \<and> j_kind q = Ingest \<and> j_state q = Pending
    \<and> payload_ref (rq_print rq) (j_payload q) = Some (ingest_ref rq i)) js'"
proof (cases "find (duplicate_of (rq_print rq) (rq_tenant rq) Ingest (ingest_ref rq i)) js")
  case None
  then show ?thesis
    using assms by (auto simp: enqueue_ingest_def enqueue_def new_job_def payload_with_ref split: if_splits)
next
  case (Some q)
  then have "q \<in> set js" "duplicate_of (rq_print rq) (rq_tenant rq) Ingest (ingest_ref rq i) q"
    by (auto simp: find_Some_iff)
  then show ?thesis
    using assms Some by (auto simp: enqueue_ingest_def enqueue_def duplicate_of_def list_ex_iff split: if_splits)
qed

lemma dirty_edited:
  assumes "i_active x" "i_tenant x = rq_tenant rq" "case i_last_ingested x of None \<Rightarrow> True | Some t \<Rightarrow> t < rq_now rq"
  shows "dirty rq (edited rq p x) \<longleftrightarrow> i_state x = IngestPending \<or> body_edit p x \<noteq> None \<and> i_last_ingested x \<noteq> None"
  using assms by (auto simp: dirty_def edited_def touch_def move_def stamp_ingested_def split: option.splits)

lemma idea_of_edited:
  assumes "ideas_ok s" "edit rq d i p s = (Inr b, s')" "idea_of rq i s = Some x"
  shows "idea_of rq i s' = Some (edited rq p x)" "b \<longleftrightarrow> body_edit p x \<noteq> None" "i_active x" "ideas_ok s'"
  using edit_result [OF assms(1,2)] assms(3) by force+

lemma idea_of_tenant: "idea_of rq i s = Some x \<Longrightarrow> i_tenant x = rq_tenant rq \<and> i_id x = i"
  by (auto simp: idea_of_def find_Some_iff)

definition retract :: "request \<Rightarrow> uuid \<Rightarrow> page \<Rightarrow> page" where
  "retract rq i p = (if contributed rq i p then (if orphaned i p then p\<lparr>p_deleted := True\<rparr> else drop_source i p) else p)"

lemma retract_pages_map: "retract_pages rq i ps = map (retract rq i) ps"
  by (simp add: retract_pages_def retract_def)

lemma retract_one:
  "\<not> contributed rq i (retract rq i p) \<and> p_id (retract rq i p) = p_id p \<and> (p_tenant p \<noteq> rq_tenant rq \<longrightarrow> retract rq i p = p)
   \<and> (\<not> orphaned i p \<longrightarrow> p_deleted (retract rq i p) = p_deleted p \<and> set (p_source_ids p) - {i} \<subseteq> set (p_source_ids (retract rq i p)))"
proof (cases "contributed rq i p")
  case True
  then show ?thesis
    by (cases "orphaned i p") (auto simp: retract_def contributed_def drop_source_def)
next
  case False
  then show ?thesis
    by (auto simp: retract_def)
qed

definition queued :: "request \<Rightarrow> uuid \<Rightarrow> job list \<Rightarrow> bool" where
  "queued rq i js \<longleftrightarrow> list_ex (\<lambda>q. j_tenant q = rq_tenant rq \<and> j_kind q = Ingest \<and> j_state q = Pending
     \<and> payload_ref (rq_print rq) (j_payload q) = Some (ingest_ref rq i)) js"

lemma queued_mono: "queued rq i js \<Longrightarrow> set js \<subseteq> set js' \<Longrightarrow> queued rq i js'"
  by (auto simp: queued_def list_ex_iff)

lemma enqueue_ingest_grows: "enqueue_ingest rq j i js = (r, js') \<Longrightarrow> set js \<subseteq> set js'"
  by (auto simp: enqueue_ingest_def enqueue_def split: if_splits option.splits)

lemma enqueue_all_covers:
  "enqueue_all rq xs js = Some (ids, js') \<Longrightarrow> set js \<subseteq> set js' \<and> length ids = length xs \<and> list_all (\<lambda>i. queued rq i js') (map fst xs)"
proof (induction rq xs js arbitrary: ids js' rule: enqueue_all.induct)
  case (2 rq i job rest js)
  obtain r js1 where step: "enqueue_ingest rq job i js = (r, js1)"
    by fastforce
  then obtain j ids1 where ok: "r = Inr j" "enqueue_all rq rest js1 = Some (ids1, js')" "ids = j # ids1"
    using 2(2) by (auto split: sum.splits)
  have IH: "set js1 \<subseteq> set js'" "length ids1 = length rest" "list_all (\<lambda>i. queued rq i js') (map fst rest)"
    using 2(1) [OF _ _ ok(2)] step ok(1) by auto
  have "queued rq i js1"
    using enqueue_ingest_job [of rq job i js j js1] step ok(1) by (auto simp: queued_def list_ex_iff)
  then show ?case
    using IH ok(3) queued_mono enqueue_ingest_grows [OF step] by auto
qed simp

section \<open>Properties\<close>

text \<open>
  Further: a retried capture is one capture. Once a capture with an idempotency key succeeded, every later
  capture of the tenant with that key answers the same ids and changes nothing, whatever it carries
  and even if the first lost a race against a concurrent one.
\<close>

theorem capture_idempotent:
  assumes "capture rq i j d raced (Some k) p s = (Inr r, s')" "k \<noteq> []" "rq_tenant rq' = rq_tenant rq"
  shows "capture rq' i' j' d' raced' (Some k) p' s' = (Inr r, s')"
  using capture_found [OF assms(1,2)] assms(2) by (auto simp: capture_def by_key_tenant [OF assms(3)])

text \<open>
  C22: what is captured is recorded and queued. A capture that is new leaves an active pending idea with
  the escaped text, a pending ingest job that refers to it, its line in the object store, and one
  more row, already applied, in the sync log.
\<close>

theorem capture_recorded:
  assumes "capture rq i j d raced header p s = (Inr (i, job), s')" "i \<notin> i_id ` set (ideas s @ raced)"
  shows "list_ex (\<lambda>x. i_id x = i \<and> i_tenant x = rq_tenant rq \<and> i_body x = escape_tags (the_or [] (cp_body p)) \<and> i_job x = Some job
       \<and> dirty rq x) (ideas s')
    \<and> list_ex (\<lambda>q. j_id q = job \<and> j_tenant q = rq_tenant rq \<and> j_kind q = Ingest \<and> j_state q = Pending
       \<and> payload_ref (rq_print rq) (j_payload q) = Some (ingest_ref rq i)) (jobs s')
    \<and> i \<in> fst ` set (objects s') \<and> ideas s' \<noteq> ideas s"
  using assms(1)
proof (cases rule: capture_cases)
  case (found k x)
  then show ?thesis
    using assms(2) by (auto simp: found_ids_def)
next
  case (fresh job' js l)
  have "list_ex (\<lambda>q. j_id q = job \<and> j_tenant q = rq_tenant rq \<and> j_kind q = Ingest \<and> j_state q = Pending
       \<and> payload_ref (rq_print rq) (j_payload q) = Some (ingest_ref rq i)) js"
    using enqueue_ingest_job [OF fresh(2)] fresh(1) by simp
  then show ?thesis
    using fresh by (auto simp: captured_def touch_def new_idea_def dirty_def)
qed

text \<open>
  Further: when an edit makes a capture due. After an edit (at a time later than the capture's last ingest)
  the capture is due for ingest exactly if it was never ingested nor skipped, or if its body changed
  and it was ingested before; the edit answers exactly whether the body changed.
\<close>

theorem edit_makes_dirty:
  assumes "ideas_ok s" "edit rq d i p s = (Inr b, s')" "idea_of rq i s = Some x"
    and "case i_last_ingested x of None \<Rightarrow> True | Some t \<Rightarrow> t < rq_now rq"
  shows "\<exists>x'. idea_of rq i s' = Some x' \<and> (b \<longleftrightarrow> i_body x' \<noteq> i_body x)
    \<and> (dirty rq x' \<longleftrightarrow> i_state x = IngestPending \<or> b \<and> i_last_ingested x \<noteq> None)"
proof -
  note e = idea_of_edited [OF assms(1-3)]
  have "i_body (edited rq p x) \<noteq> i_body x \<longleftrightarrow> body_edit p x \<noteq> None"
    by (auto simp: edited_def touch_def move_def stamp_ingested_def body_edit_def split: option.splits)
  then show ?thesis
    using e dirty_edited [OF e(3) _ assms(4), of p] idea_of_tenant [OF assms(3)] by simp
qed

text \<open>
  Further: a location edit hides a body edit. When an ingested capture's body is edited and then only its
  location is edited, the capture is no longer due: the new body is never ingested, although the first
  edit answered that it would be.
\<close>

theorem location_edit_hides_body_edit:
  assumes "ideas_ok s" "idea_of rq i s = Some x" "i_state x = Ingested" "i_last_ingested x = Some t" "t < rq_now rq"
    and "edit rq d i p s = (Inr True, s1)" "edit rq2 d2 i p2 s1 = (Inr b, s2)"
    and "pt_body p2 = None" "rq_tenant rq2 = rq_tenant rq" "rq_now rq < rq_now rq2"
  shows "(\<exists>x1. idea_of rq i s1 = Some x1 \<and> dirty rq x1) \<and> (\<exists>x2. idea_of rq i s2 = Some x2 \<and> \<not> dirty rq x2)"
proof -
  note e1 = idea_of_edited [OF assms(1,6,2)]
  let ?x1 = "edited rq p x"
  have x1: "idea_of rq2 i s1 = Some ?x1" "i_state ?x1 = Ingested"
    using e1 assms(3,9) by (auto simp: idea_of_def edited_def touch_def move_def body_edit_def split: option.splits)
  have last: "i_last_ingested ?x1 = Some t"
    using e1(2) assms(4) by (auto simp: edited_def touch_def move_def body_edit_def split: option.splits)
  note e2 = idea_of_edited [OF e1(4) assms(7) x1(1)]
  have "body_edit p2 ?x1 = None"
    by (simp add: body_edit_def assms(8))
  then have "\<not> dirty rq2 (edited rq2 p2 ?x1)"
    using dirty_edited [OF e2(3), of rq2 p2] idea_of_tenant [OF x1(1)] x1(2) last assms(5,10) by simp
  moreover have "dirty rq ?x1"
    using dirty_edited [OF e1(3), of rq p] idea_of_tenant [OF assms(2)] e1(2) assms(4,5) by simp
  moreover have "dirty rq2 = dirty rq" "idea_of rq2 i s2 = idea_of rq i s2"
    by (simp_all add: dirty_def idea_of_def assms(9) fun_eq_iff)
  ultimately show ?thesis
    using e1(1) e2(1) by metis
qed

text \<open>
  Further: a skipped capture cannot be revived. A capture that was skipped as redundant has no ingest time,
  so editing its body answers that it will be ingested again, but it is not due.
\<close>

theorem skipped_edit_not_due:
  assumes "ideas_ok s" "idea_of rq i s = Some x" "i_state x = SkippedRedundant" "i_last_ingested x = None"
    and "edit rq d i p s = (Inr True, s')"
  shows "\<exists>x'. idea_of rq i s' = Some x' \<and> \<not> dirty rq x'"
  using edit_makes_dirty [OF assms(1,5,2)] assms(3,4) by auto


text \<open>
  Further: a deleted capture is still ingested. Deleting leaves the pending ingest job in the queue, and the
  handler loads the idea without looking at whether it is active, so the job writes pages from a
  capture the user deleted.
\<close>

theorem deleted_still_ingested:
  assumes "ideas_ok s" "delete_capture rq d i s = (Inr b, s')" "idea_of rq i s = Some x"
  shows "jobs s' = jobs s \<and> load_idea (rq_tenant rq) i s' = Some (i_user x, i_body x, i_origin x)"
proof -
  have s': "ideas s' = update_ideas rq (\<lambda>x. i_id x = i \<and> i_active x) (\<lambda>x. x\<lparr>i_active := False\<rparr>) (ideas s)" "jobs s' = jobs s"
    using assms(2) by (auto simp: delete_capture_def Let_def split: if_splits option.splits)
  have "map_option (\<lambda>x. (i_user x, i_body x, i_origin x)) (find (\<lambda>x. i_tenant x = rq_tenant rq \<and> i_id x = i) (ideas s'))
      = map_option (\<lambda>x. (i_user x, i_body x, i_origin x)) (find (\<lambda>x. i_tenant x = rq_tenant rq \<and> i_id x = i) (ideas s))"
  proof -
    have "map_option (\<lambda>x. (i_user x, i_body x, i_origin x)) (find (\<lambda>x. i_tenant x = rq_tenant rq \<and> i_id x = i)
        (update_ideas rq (\<lambda>x. i_id x = i \<and> i_active x) (\<lambda>x. x\<lparr>i_active := False\<rparr>) xs))
      = map_option (\<lambda>x. (i_user x, i_body x, i_origin x)) (find (\<lambda>x. i_tenant x = rq_tenant rq \<and> i_id x = i) xs)" for xs
      by (induction xs) (auto simp: update_ideas_def touch_def)
    then show ?thesis
      by (simp add: s'(1))
  qed
  then show ?thesis
    using s'(2) assms(3) by (simp add: load_idea_def idea_of_def)
qed

text \<open>
  Further: the digest covers what is due, or does nothing. When the digest route succeeds, every capture that
  was due has a pending ingest job; when it is refused (one job too many) nothing was queued.
\<close>

theorem digest_covers:
  "case ingest_run rq fresh s of
     (Inl _, s') \<Rightarrow> s' = s
   | (Inr ids, s') \<Rightarrow> length ids = length (select_dirty rq s) \<and> list_all (\<lambda>i. queued rq i (jobs s')) (select_dirty rq s)"
proof (cases "enqueue_all rq (map (\<lambda>(n, i). (i, fresh n)) (enumerate 0 (select_dirty rq s))) (jobs s)")
  case None
  then show ?thesis
    by (simp add: ingest_run_def)
next
  case (Some v)
  then obtain ids js where ids: "enqueue_all rq (map (\<lambda>(n, i). (i, fresh n)) (enumerate 0 (select_dirty rq s))) (jobs s) = Some (ids, js)"
    by (cases v) simp
  have "map fst (map (\<lambda>(n, i). (i, fresh n)) (enumerate 0 (select_dirty rq s))) = select_dirty rq s"
    by (simp add: comp_def case_prod_unfold map_snd_enumerate [unfolded comp_def])
  then show ?thesis
    using enqueue_all_covers [OF ids] ids by (simp add: ingest_run_def Let_def del: map_map)
qed

section \<open>Witnesses\<close>

definition sample_rq :: "int \<Rightarrow> request" where
  "sample_rq now = \<lparr>rq_tenant = 1, rq_user = 2, rq_now = now, rq_show_uuid = (\<lambda>_. []), rq_show_time = (\<lambda>_. []),
     rq_parse_time = (\<lambda>_. None), rq_print = (\<lambda>_. [])\<rparr>"

definition sample_params :: capture_params where
  "sample_params = \<lparr>cp_kind = str ''text'', cp_body = Some (str ''hi''), cp_source_url = None, cp_origin = str ''capture'',
     cp_captured_at = None, cp_lat = None, cp_lng = None, cp_acc = None\<rparr>"

definition store_of :: "idea list \<Rightarrow> store" where
  "store_of xs = \<lparr>ideas = xs, jobs = [], sync = \<lparr>devices = [], op_rows = [], next_seq = 1\<rparr>, vault = empty_wiki,
     approvals = [], objects = []\<rparr>"

definition sample_idea :: "ingest_state \<Rightarrow> int option \<Rightarrow> idea" where
  "sample_idea st at = (new_idea (sample_rq 0) 7 None sample_params)\<lparr>i_state := st, i_last_ingested := at\<rparr>"

definition body_patch :: capture_patch where
  "body_patch = \<lparr>pt_body = Some (str ''ho''), pt_lat = None, pt_lng = None, pt_acc = None\<rparr>"

definition place_patch :: capture_patch where
  "place_patch = \<lparr>pt_body = None, pt_lat = Some (PosInt 3), pt_lng = None, pt_acc = None\<rparr>"

lemma sample_captured:
  "fst (capture (sample_rq 9) 7 8 3 [] (Some (str ''k'')) sample_params (store_of [])) = Inr (7, 8)"
  by code_simp

theorem capture_idempotent_witness:
  "capture (sample_rq 10) 17 18 13 [] (Some (str ''k'')) sample_params
     (snd (capture (sample_rq 9) 7 8 3 [] (Some (str ''k'')) sample_params (store_of [])))
   = (Inr (7, 8), snd (capture (sample_rq 9) 7 8 3 [] (Some (str ''k'')) sample_params (store_of [])))"
  by (rule capture_idempotent [of "sample_rq 9" 7 8 3 "[]" "str ''k''" sample_params "store_of []"])
    (simp_all add: prod_eq_iff sample_captured, simp add: sample_rq_def)

theorem capture_recorded_witness:
  "let s' = snd (capture (sample_rq 9) 7 8 3 [] (Some (str ''k'')) sample_params (store_of []))
   in list_ex (\<lambda>x. i_id x = 7 \<and> i_tenant x = rq_tenant (sample_rq 9) \<and> i_body x = escape_tags (the_or [] (cp_body sample_params))
       \<and> i_job x = Some 8 \<and> dirty (sample_rq 9) x) (ideas s') \<and> 7 \<in> fst ` set (objects s')"
proof -
  have cap: "capture (sample_rq 9) 7 8 3 [] (Some (str ''k'')) sample_params (store_of [])
      = (Inr (7, 8), snd (capture (sample_rq 9) 7 8 3 [] (Some (str ''k'')) sample_params (store_of [])))"
    by (simp add: prod_eq_iff sample_captured)
  have fresh: "7 \<notin> i_id ` set (ideas (store_of []) @ [])"
    by (simp add: store_of_def)
  from capture_recorded [OF cap fresh] show ?thesis
    unfolding Let_def by blast
qed

lemma surjective_pairing_to: "fst x = y \<Longrightarrow> x = (y, snd x)"
  by auto

lemma sample_store_ok: "ideas_ok (store_of [sample_idea st l])"
  by (simp add: ideas_ok_def store_of_def)

lemma sample_of: "idea_of (sample_rq n) 7 (store_of [sample_idea st l]) = Some (sample_idea st l)"
  by (simp add: idea_of_def store_of_def sample_idea_def new_idea_def sample_rq_def)

lemma sample_edited:
  "fst (edit (sample_rq 20) 3 7 body_patch (store_of [sample_idea Ingested (Some 10)])) = Inr True"
  "fst (edit (sample_rq 20) 3 7 body_patch (store_of [sample_idea SkippedRedundant None])) = Inr True"
  "fst (edit (sample_rq 30) 3 7 place_patch
     (snd (edit (sample_rq 20) 3 7 body_patch (store_of [sample_idea Ingested (Some 10)])))) = Inr False"
  by code_simp+

theorem edit_makes_dirty_witness:
  "\<exists>x'. idea_of (sample_rq 20) 7 (snd (edit (sample_rq 20) 3 7 body_patch (store_of [sample_idea Ingested (Some 10)]))) = Some x'
     \<and> dirty (sample_rq 20) x'"
proof -
  let ?s = "store_of [sample_idea Ingested (Some 10)]"
  have "edit (sample_rq 20) 3 7 body_patch ?s = (Inr True, snd (edit (sample_rq 20) 3 7 body_patch ?s))"
    by (simp add: prod_eq_iff sample_edited)
  from edit_makes_dirty [OF sample_store_ok this sample_of] show ?thesis
    by (auto simp: sample_idea_def sample_rq_def)
qed

theorem location_edit_hides_body_edit_witness:
  "\<exists>x2. idea_of (sample_rq 20) 7 (snd (edit (sample_rq 30) 3 7 place_patch
     (snd (edit (sample_rq 20) 3 7 body_patch (store_of [sample_idea Ingested (Some 10)]))))) = Some x2 \<and> \<not> dirty (sample_rq 20) x2"
proof -
  let ?s1 = "snd (edit (sample_rq 20) 3 7 body_patch (store_of [sample_idea Ingested (Some 10)]))"
  have "edit (sample_rq 20) 3 7 body_patch (store_of [sample_idea Ingested (Some 10)]) = (Inr True, ?s1)"
    "edit (sample_rq 30) 3 7 place_patch ?s1 = (Inr False, snd (edit (sample_rq 30) 3 7 place_patch ?s1))"
    by (simp_all add: prod_eq_iff sample_edited)
  from location_edit_hides_body_edit [OF sample_store_ok sample_of _ _ _ this] show ?thesis
    by (simp add: sample_idea_def sample_rq_def place_patch_def)
qed

theorem skipped_edit_not_due_witness:
  "\<exists>x'. idea_of (sample_rq 20) 7 (snd (edit (sample_rq 20) 3 7 body_patch (store_of [sample_idea SkippedRedundant None]))) = Some x'
     \<and> \<not> dirty (sample_rq 20) x'"
  by (rule skipped_edit_not_due [OF sample_store_ok sample_of _ _ surjective_pairing_to [OF sample_edited(2)]])
    (simp_all add: sample_idea_def)

lemma sample_deleted: "fst (delete_capture (sample_rq 20) 3 7 (store_of [sample_idea Ingested (Some 10)])) = Inr True"
  by code_simp


theorem deleted_still_ingested_witness:
  "load_idea (rq_tenant (sample_rq 20)) 7 (snd (delete_capture (sample_rq 20) 3 7 (store_of [sample_idea Ingested (Some 10)])))
    = Some (i_user (sample_idea Ingested (Some 10)), i_body (sample_idea Ingested (Some 10)), i_origin (sample_idea Ingested (Some 10)))"
  using deleted_still_ingested [OF sample_store_ok surjective_pairing_to [OF sample_deleted] sample_of] by blast

end
