(* ===== verification/Sync.thy ===== *)
theory Sync
  imports Captures
begin

text \<open>
  Materialising the sync log (\<open>sync/materialize.rs\<close>) and the push and pull routes
  (\<open>sync/routes.rs\<close>). Operations on ideas run in the request's transaction; operations on wiki
  pages go through the write gate, which has transactions of its own: the gate does not see the
  deletions of the request's transaction (\<open>pending\<close>), keeps what it wrote when the request is rolled
  back, and waits for ever for a row the request itself is deleting (\<open>SyncBlocked\<close>).
\<close>

section \<open>Operations on ideas\<close>

definition json_field :: "jvalue \<Rightarrow> string \<Rightarrow> rstr option" where
  "json_field v k = Option.bind (jget v (str k)) as_str"

text \<open>Coordinates are kept as the JSON numbers they come as.\<close>

definition num_field :: "jvalue \<Rightarrow> string \<Rightarrow> number option" where
  "num_field v k = (case jget v (str k) of Some (JNumber n) \<Rightarrow> Some n | _ \<Rightarrow> None)"

definition apply_idea_create :: "request \<Rightarrow> uuid \<Rightarrow> rstr \<Rightarrow> jvalue \<Rightarrow> store \<Rightarrow> store" where
  "apply_idea_create rq i ref create s = (
     let body = the_or [] (json_field create ''body''); origin = the_or (str ''capture'') (json_field create ''origin'');
         line = redact_json (json_obj [(''kind'', JString (str ''text'')), (''body'', JString body), (''origin'', JString origin)]);
         s1 = s\<lparr>objects := objects s @ [(i, line)]\<rparr>;
         x = \<lparr>i_id = i, i_tenant = rq_tenant rq, i_user = rq_user rq, i_kind = str ''text'', i_body = body,
              i_source_url = None, i_origin = origin, i_key = Some ref,
              i_captured_at = the_or (rq_now rq) (Option.bind (json_field create ''captured_at'') (rq_parse_time rq)),
              i_lat = None, i_lng = None, i_acc = None, i_state = IngestPending, i_job = None, i_last_ingested = None,
              i_updated = rq_now rq, i_active = True\<rparr>
     in if list_ex (by_key rq ref) (ideas s1) then s1 else s1\<lparr>ideas := ideas s1 @ [x]\<rparr>)"

definition patch_of :: "jvalue \<Rightarrow> capture_patch" where
  "patch_of update = \<lparr>pt_body = json_field update ''body'', pt_lat = num_field update ''lat'', pt_lng = num_field update ''lng'',
     pt_acc = num_field update ''loc_accuracy_m''\<rparr>"

definition apply_idea_update :: "request \<Rightarrow> rstr \<Rightarrow> jvalue \<Rightarrow> store \<Rightarrow> store" where
  "apply_idea_update rq ref update s = (let p = patch_of update in s\<lparr>ideas := (case pt_body p of
     Some b \<Rightarrow> update_ideas rq (\<lambda>x. i_key x = Some ref \<and> i_body x \<noteq> b) (\<lambda>x. (move p x)\<lparr>i_body := b\<rparr>) (ideas s)
   | None \<Rightarrow> update_ideas rq (\<lambda>x. i_key x = Some ref) (\<lambda>x. stamp_ingested (rq_now rq) (move p x)) (ideas s))\<rparr>)"

definition apply_idea_delete :: "request \<Rightarrow> rstr \<Rightarrow> store \<Rightarrow> store" where
  "apply_idea_delete rq ref s = s\<lparr>ideas := update_ideas rq (\<lambda>x. i_key x = Some ref) (\<lambda>x. x\<lparr>i_active := False\<rparr>) (ideas s)\<rparr>"

section \<open>Operations on wiki pages\<close>

datatype sync_error = SyncGate gate_error | SyncBlocked

text \<open>The live page of a slug as the request's transaction sees it; with several types, the first row.\<close>

definition live_page :: "uuid \<Rightarrow> uuid set \<Rightarrow> rstr \<Rightarrow> wiki \<Rightarrow> page option" where
  "live_page t pending slug w = find (\<lambda>p. p_tenant p = t \<and> \<not> p_deleted p \<and> p_id p \<notin> pending \<and> p_slug p = slug) (pages w)"

definition op_type :: "jvalue \<Rightarrow> page option \<Rightarrow> rstr" where
  "op_type oper current = (case Option.bind (jget oper (str ''create'')) (\<lambda>c. json_field c ''type'') of
     Some ty \<Rightarrow> ty
   | None \<Rightarrow> (case current of Some p \<Rightarrow> str (page_as_str (p_type p)) | None \<Rightarrow> str ''concept''))"

definition op_title :: "jvalue \<Rightarrow> rstr \<Rightarrow> page option \<Rightarrow> rstr" where
  "op_title oper slug current = (case json_field oper ''set_title'' of
     Some t \<Rightarrow> t
   | None \<Rightarrow> (case current of Some p \<Rightarrow> p_title p | None \<Rightarrow> slug))"

definition op_body :: "gate_env \<Rightarrow> jvalue \<Rightarrow> page option \<Rightarrow> wiki \<Rightarrow> rstr" where
  "op_body env oper current w = (case json_field oper ''set_body'' of
     Some b \<Rightarrow> b
   | None \<Rightarrow> (case current of None \<Rightarrow> []
       | Some p \<Rightarrow> (case read_body env (p_id p) w of Inl _ \<Rightarrow> [] | Inr b \<Rightarrow> b)))"

definition touches_page :: "jvalue \<Rightarrow> bool" where
  "touches_page oper \<longleftrightarrow> jget oper (str ''create'') \<noteq> None \<or> jget oper (str ''set_title'') \<noteq> None \<or> jget oper (str ''set_body'') \<noteq> None"

definition op_write :: "gate_env \<Rightarrow> rstr \<Rightarrow> jvalue \<Rightarrow> page option \<Rightarrow> wiki \<Rightarrow> page_write" where
  "op_write env slug oper current w = \<lparr>w_type = op_type oper current, w_slug = slug, w_title = op_title oper slug current,
     w_aliases = [], w_tags = [], w_summary = [], w_source_ids = [], w_body = op_body env oper current w,
     w_created = None, w_reviewed = None\<rparr>"

definition apply_wiki_op :: "gate_env \<Rightarrow> uuid \<Rightarrow> rstr \<Rightarrow> jvalue \<Rightarrow> uuid set \<Rightarrow> wiki
    \<Rightarrow> sync_error option \<times> uuid set \<times> wiki" where
  "apply_wiki_op env new_id slug oper pending w = (let current = live_page (ge_tenant env) pending slug w in
     if Option.bind (jget oper (str ''delete'')) as_bool = Some True
     then (None, (case current of None \<Rightarrow> pending | Some p \<Rightarrow> insert (p_id p) pending), w)
     else if \<not> touches_page oper then (None, pending, w)
     else (case write_page env new_id (op_write env slug oper current w) w of
       (Inl e, w') \<Rightarrow> (Some (SyncGate e), pending, w')
     | (Inr i, w') \<Rightarrow> (if i \<in> pending then Some SyncBlocked else None, pending, w')))"

section \<open>Materialising\<close>

definition apply_op :: "request \<Rightarrow> gate_env \<Rightarrow> uuid \<Rightarrow> sync_op \<Rightarrow> uuid set \<Rightarrow> store \<Rightarrow> sync_error option \<times> uuid set \<times> store" where
  "apply_op rq env new_id oper pending s = (
     if entity_kind oper = str ''idea'' then
       (None, pending, (case jget (so_op oper) (str ''create'') of
          Some c \<Rightarrow> apply_idea_create rq new_id (entity_ref oper) c s
        | None \<Rightarrow> (case jget (so_op oper) (str ''update'') of
            Some u \<Rightarrow> apply_idea_update rq (entity_ref oper) u s
          | None \<Rightarrow> if jget (so_op oper) (str ''delete'') \<noteq> None then apply_idea_delete rq (entity_ref oper) s else s)))
     else if entity_kind oper = str ''wiki_page'' then
       (let (e, pending', w) = apply_wiki_op env new_id (entity_ref oper) (so_op oper) pending (vault s)
        in (e, pending', s\<lparr>vault := w\<rparr>))
     else (None, pending, s))"

fun apply_rows :: "request \<Rightarrow> gate_env \<Rightarrow> (nat \<Rightarrow> uuid) \<Rightarrow> sync_row list \<Rightarrow> uuid set \<Rightarrow> store
    \<Rightarrow> sync_error option \<times> uuid set \<times> store" where
  "apply_rows rq env fresh [] pending s = (None, pending, s)"
| "apply_rows rq env fresh (r # rs) pending s = (case apply_op rq env (fresh (sr_seq r)) (sr_op r) pending s of
     (Some e, pending', s') \<Rightarrow> (Some e, pending', s')
   | (None, pending', s') \<Rightarrow> apply_rows rq env fresh rs pending' (s'\<lparr>sync := mark_applied (sr_seq r) (sync s')\<rparr>))"

definition apply_unapplied :: "request \<Rightarrow> gate_env \<Rightarrow> (nat \<Rightarrow> uuid) \<Rightarrow> store \<Rightarrow> sync_error option \<times> uuid set \<times> store" where
  "apply_unapplied rq env fresh s = apply_rows rq env fresh (unapplied (rq_tenant rq) (sync s)) {} s"

section \<open>The routes\<close>

definition commit_deletes :: "uuid set \<Rightarrow> wiki \<Rightarrow> wiki" where
  "commit_deletes pending w = w\<lparr>pages := map (\<lambda>p. if p_id p \<in> pending then p\<lparr>p_deleted := True\<rparr> else p) (pages w)\<rparr>"

datatype push_error = TooManyOps | PushDb | PushMaterialize sync_error

text \<open>\<open>ge_tenant env\<close> is the request's tenant. A failed push rolls the request's transaction back; what
  the gate wrote and the lines of the object store stay.\<close>

definition push_route :: "request \<Rightarrow> gate_env \<Rightarrow> (nat \<Rightarrow> uuid) \<Rightarrow> uuid \<Rightarrow> sync_op list \<Rightarrow> store
    \<Rightarrow> (push_error + nat \<times> nat) \<times> store" where
  "push_route rq env fresh dev os s = (
     if MAX_OPS_PER_PUSH < length os then (Inl TooManyOps, s)
     else if os \<noteq> [] \<and> dev \<notin> d_id ` set (devices (sync s)) then (Inl PushDb, s)
     else (let (n, l) = push_ops (rq_tenant rq) (rq_user rq) dev os (sync s)
       in case apply_unapplied rq env fresh (s\<lparr>sync := l\<rparr>) of
         (Some e, _, s') \<Rightarrow> (Inl (PushMaterialize e), s\<lparr>vault := vault s', objects := objects s'\<rparr>)
       | (None, pending, s') \<Rightarrow> (Inr (n, tenant_cursor (rq_tenant rq) (op_rows (sync s'))),
           s'\<lparr>vault := commit_deletes pending (vault s')\<rparr>)))"

record idea_snap =
  is_id :: uuid
  is_body :: rstr
  is_origin :: rstr
  is_captured_at :: int

record page_snap =
  ps_slug :: rstr
  ps_title :: rstr
  ps_hash :: rstr
  ps_version :: nat

definition snapshot :: "uuid \<Rightarrow> store \<Rightarrow> idea_snap list \<times> page_snap list" where
  "snapshot t s =
     (map (\<lambda>i. \<lparr>is_id = i_id i, is_body = i_body i, is_origin = i_origin i, is_captured_at = i_captured_at i\<rparr>)
        (sort_key i_captured_at (filter (\<lambda>i. i_tenant i = t \<and> i_active i) (ideas s))),
      map (\<lambda>p. \<lparr>ps_slug = p_slug p, ps_title = p_title p, ps_hash = p_content_hash p, ps_version = p_sync_version p\<rparr>)
        (sort_key p_slug (filter (\<lambda>p. p_tenant p = t \<and> \<not> p_deleted p) (pages (vault s)))))"

datatype sync_delta = Snapshot nat "idea_snap list" "page_snap list" | Incremental nat "sync_op list"

text \<open>\<open>since\<close> is the parsed query parameter, 0 when it is missing or not a number.\<close>

definition pull_route :: "uuid \<Rightarrow> int \<Rightarrow> store \<Rightarrow> sync_delta" where
  "pull_route t since s = (let cursor = tenant_cursor t (op_rows (sync s)) in
     if since \<le> 0 then (let (is, ps) = snapshot t s in Snapshot cursor is ps)
     else Incremental cursor (ops_since_seq t (nat since) (op_rows (sync s))))"

definition wiki_page_state :: "uuid \<Rightarrow> rstr \<Rightarrow> store \<Rightarrow> (rstr \<times> rstr \<times> nat) option" where
  "wiki_page_state t slug s = map_option (\<lambda>p. (p_title p, p_content_hash p, p_sync_version p)) (live_page t {} slug (vault s))"

section \<open>Facts about materialising\<close>

lemma apply_op_sync: "sync (snd (snd (apply_op rq env i oper pending s))) = sync s"
  by (auto simp: apply_op_def apply_idea_create_def apply_idea_update_def apply_idea_delete_def Let_def
      split: option.splits prod.splits)

definition mark_rows :: "nat set \<Rightarrow> sync_row list \<Rightarrow> sync_row list" where
  "mark_rows N rows = map (\<lambda>r. if sr_seq r \<in> N then r\<lparr>sr_applied := True\<rparr> else r) rows"

lemma mark_rows_mark: "mark_rows N (mark_rows M rows) = mark_rows (N \<union> M) rows"
  by (auto simp: mark_rows_def)

lemma mark_applied_rows: "mark_applied n l = l\<lparr>op_rows := mark_rows {n} (op_rows l)\<rparr>"
  by (simp add: mark_applied_def mark_rows_def)

lemma apply_rows_sync:
  "apply_rows rq env fresh rs pending s = (None, pending', s')
    \<Longrightarrow> sync s' = (sync s)\<lparr>op_rows := mark_rows (sr_seq ` set rs) (op_rows (sync s))\<rparr>"
proof (induction rs arbitrary: pending s)
  case Nil
  then show ?case
    by (simp add: mark_rows_def)
next
  case (Cons r rs)
  obtain e p1 s1 where step: "apply_op rq env (fresh (sr_seq r)) (sr_op r) pending s = (e, p1, s1)"
    by (metis prod.collapse)
  then have "e = None" "apply_rows rq env fresh rs p1 (s1\<lparr>sync := mark_applied (sr_seq r) (sync s1)\<rparr>) = (None, pending', s')"
    using Cons.prems by (simp_all split: option.splits)
  moreover have "sync s1 = sync s"
    using apply_op_sync [of rq env "fresh (sr_seq r)" "sr_op r" pending s] step by simp
  ultimately show ?case
    using Cons.IH by (fastforce simp: mark_applied_rows mark_rows_mark)
qed

lemma unapplied_empty: "unapplied t l = [] \<longleftrightarrow> list_all (\<lambda>r. sr_tenant r = t \<longrightarrow> sr_applied r) (op_rows l)"
proof -
  have "sort_key f xs = [] \<longleftrightarrow> xs = []" for f :: "sync_row \<Rightarrow> hlc" and xs
    by (metis length_0_conv length_sort)
  then show ?thesis
    by (auto simp: unapplied_def filter_empty_conv list_all_iff)
qed

lemma unapplied_marked: "unapplied t (l\<lparr>op_rows := mark_rows (sr_seq ` set (unapplied t l)) (op_rows l)\<rparr>) = []"
proof -
  have "sr_seq r \<in> sr_seq ` set (unapplied t l)" if "r \<in> set (op_rows l)" "sr_tenant r = t" "\<not> sr_applied r" for r
    using that by (simp add: unapplied_def)
  then show ?thesis
    unfolding unapplied_empty by (auto simp: mark_rows_def list_all_iff)
qed

lemma mark_rows_keys: "op_key ` set (mark_rows N rows) = op_key ` set rows"
proof -
  have "map op_key (mark_rows N rows) = map op_key rows"
    by (simp add: mark_rows_def op_key_def)
  then show ?thesis
    by (metis list.set_map)
qed

lemma insert_op_devices: "devices (snd (insert_op t u d a oper l)) = devices l"
  by (simp add: insert_op_def Let_def)

lemma push_ops_devices: "devices (snd (push_ops t u d os l)) = devices l"
  by (induction os arbitrary: l) (simp_all del: push_ops.simps(2) add: insert_op_devices)

text \<open>A successful push, and one that has nothing to insert.\<close>

lemma push_route_ok:
  assumes "push_route rq env fresh dev os s = (Inr r, s')"
  obtains l where "snd (push_ops (rq_tenant rq) (rq_user rq) dev os (sync s)) = l"
    "sync s' = l\<lparr>op_rows := mark_rows (sr_seq ` set (unapplied (rq_tenant rq) l)) (op_rows l)\<rparr>"
    "os = [] \<or> dev \<in> d_id ` set (devices (sync s'))"
proof -
  obtain n l where l: "push_ops (rq_tenant rq) (rq_user rq) dev os (sync s) = (n, l)"
    by fastforce
  obtain e pending s1 where run: "apply_unapplied rq env fresh (s\<lparr>sync := l\<rparr>) = (e, pending, s1)"
    by (metis prod.collapse)
  then have e: "e = None" and s': "s' = s1\<lparr>vault := commit_deletes pending (vault s1)\<rparr>"
    and dev: "os = [] \<or> dev \<in> d_id ` set (devices (sync s))"
    using assms l by (auto simp: push_route_def split: if_splits option.splits)
  have "sync s1 = l\<lparr>op_rows := mark_rows (sr_seq ` set (unapplied (rq_tenant rq) l)) (op_rows l)\<rparr>"
    using apply_rows_sync run e by (fastforce simp: apply_unapplied_def)
  moreover have "devices l = devices (sync s)"
    using push_ops_devices [of "rq_tenant rq" "rq_user rq" dev os "sync s"] l by simp
  ultimately show thesis
    using that [of l] dev l by (simp add: s')
qed

lemma push_route_known:
  assumes "push_ops (rq_tenant rq) (rq_user rq) dev os (sync s) = (0, (sync s)\<lparr>next_seq := k\<rparr>)"
    and "unapplied (rq_tenant rq) (sync s) = []" "length os \<le> MAX_OPS_PER_PUSH" "os = [] \<or> dev \<in> d_id ` set (devices (sync s))"
  shows "push_route rq env fresh dev os s = (Inr (0, tenant_cursor (rq_tenant rq) (op_rows (sync s))), s\<lparr>sync := (sync s)\<lparr>next_seq := k\<rparr>\<rparr>)"
proof -
  have "unapplied (rq_tenant rq) ((sync s)\<lparr>next_seq := k\<rparr>) = []"
    using assms(2) by (simp add: unapplied_empty)
  then show ?thesis
    using assms by (auto simp: push_route_def apply_unapplied_def commit_deletes_def)
qed

section \<open>Properties\<close>

text \<open>
  C21: a push is materialised at once and only once. A successful push leaves no unapplied operation of
  the tenant; pushing any part of the same batch again inserts nothing and changes neither ideas nor
  pages.
\<close>

theorem push_materialises:
  assumes "push_route rq env fresh dev os s = (Inr r, s')" "set again \<subseteq> set os" "length again \<le> MAX_OPS_PER_PUSH"
  shows "unapplied (rq_tenant rq) (sync s') = []
    \<and> (\<exists>c k. push_route rq env fresh' dev again s' = (Inr (0, c), s'\<lparr>sync := (sync s')\<lparr>next_seq := k\<rparr>\<rparr>))"
  using assms(1)
proof (rule push_route_ok)
  fix l
  assume l: "snd (push_ops (rq_tenant rq) (rq_user rq) dev os (sync s)) = l"
    and s': "sync s' = l\<lparr>op_rows := mark_rows (sr_seq ` set (unapplied (rq_tenant rq) l)) (op_rows l)\<rparr>"
    and dev: "os = [] \<or> dev \<in> d_id ` set (devices (sync s'))"
  have drained: "unapplied (rq_tenant rq) (sync s') = []"
    unfolding s' by (rule unapplied_marked)
  have "(\<lambda>oper. (rq_tenant rq, dev, site_id (so_hlc oper), hlc_lamport (so_hlc oper))) ` set again \<subseteq> op_key ` set (op_rows (sync s'))"
    using push_ops_keys [of "rq_tenant rq" "rq_user rq" dev os "sync s"] assms(2) by (auto simp: s' l mark_rows_keys)
  from push_ops_known [OF this] show ?thesis
    using push_route_known [OF _ drained assms(3), of dev] drained dev assms(2) by fastforce
qed

text \<open>
  Further: a failed push stores no operation. When materialising fails the log, the ideas and the queue are as
  before, so the device keeps the whole batch; but the wiki pages the batch wrote before the failure
  stay.
\<close>

theorem failed_push_rolls_back:
  assumes "push_route rq env fresh dev os s = (Inl e, s')"
  shows "sync s' = sync s \<and> ideas s' = ideas s \<and> jobs s' = jobs s \<and> approvals s' = approvals s"
  using assms by (auto simp: push_route_def split: if_splits option.splits prod.splits)

section \<open>Concrete batches\<close>

text \<open>A device of tenant 1 that pushes titles and deletions of the page ''go''.\<close>

definition page_op :: "int \<Rightarrow> (string \<times> jvalue) list \<Rightarrow> sync_op" where
  "page_op n kvs = \<lparr>so_hlc = HLC n n 1, entity_kind = str ''wiki_page'', entity_ref = str ''go'', so_op = json_obj kvs\<rparr>"

definition idea_op :: "int \<Rightarrow> string \<Rightarrow> (string \<times> jvalue) list \<Rightarrow> sync_op" where
  "idea_op n ref kvs = \<lparr>so_hlc = HLC n n 1, entity_kind = str ''idea'', entity_ref = str ref, so_op = json_obj kvs\<rparr>"

definition title_op :: "int \<Rightarrow> string \<Rightarrow> sync_op" where
  "title_op n t = page_op n [(''create'', JObject []), (''set_title'', JString (str t))]"

definition delete_op :: "int \<Rightarrow> sync_op" where
  "delete_op n = page_op n [(''delete'', JBool True)]"

definition synced_store :: store where
  "synced_store = (store_of [])\<lparr>sync := \<lparr>devices = [\<lparr>d_id = 3, d_tenant = 1, d_user = 2, d_platform = str ''ios'',
     d_name = str ''a'', d_site = 1\<rparr>], op_rows = [], next_seq = 1\<rparr>\<rparr>"

text \<open>Pushing batches one after the other; each write of a page gets a fresh id.\<close>

fun pushes :: "sync_op list list \<Rightarrow> store \<Rightarrow> store" where
  "pushes [] s = s"
| "pushes (b # bs) s = pushes bs (snd (push_route (sample_rq 9) sample_env (\<lambda>n. word_of_nat (100 + n)) 3 b s))"

definition title_of :: "store \<Rightarrow> rstr option" where
  "title_of s = map_option fst (wiki_page_state 1 (str ''go'') s)"

text \<open>
  Further: the newest title wins only within one push. Two operations on one page pushed together end with
  the title of the later clock in either order, but pushed one after the other the last arrival wins,
  so an old offline edit overwrites a newer one.
\<close>

theorem late_op_overwrites:
  "title_of (pushes [[title_op 10 ''new'', title_op 5 ''old'']] synced_store) = Some (str ''new'')
   \<and> title_of (pushes [[title_op 5 ''old'', title_op 10 ''new'']] synced_store) = Some (str ''new'')
   \<and> title_of (pushes [[title_op 5 ''old''], [title_op 10 ''new'']] synced_store) = Some (str ''new'')
   \<and> title_of (pushes [[title_op 10 ''new''], [title_op 5 ''old'']] synced_store) = Some (str ''old'')"
  by code_simp

text \<open>
  Further: delete and rewrite in one push. A batch that deletes an existing page and writes it again waits for
  its own lock and fails; in two pushes it succeeds.
\<close>

theorem delete_then_write_blocks:
  "fst (push_route (sample_rq 9) sample_env (\<lambda>n. word_of_nat (200 + n)) 3 [delete_op 2, title_op 3 ''again''] (pushes [[title_op 1 ''go'']] synced_store))
     = Inl (PushMaterialize SyncBlocked)
   \<and> title_of (pushes [[title_op 1 ''go''], [delete_op 2], [title_op 3 ''again'']] synced_store) = Some (str ''again'')"
  by code_simp

definition rich_page :: page_write where
  "rich_page = \<lparr>w_type = str ''concept'', w_slug = str ''go'', w_title = str ''Go'', w_aliases = [str ''golang''], w_tags = [str ''lang''],
     w_summary = str ''a language'', w_source_ids = [], w_body = str ''text'', w_created = None, w_reviewed = None\<rparr>"

definition rich_store :: store where
  "rich_store = synced_store\<lparr>vault := snd (write_page sample_env 50 rich_page empty_wiki)\<rparr>"

definition metadata_of :: "store \<Rightarrow> (rstr list \<times> rstr) list" where
  "metadata_of s = map (\<lambda>p. (p_aliases p, p_summary p)) (pages (vault s))"

text \<open>
  Further: a title operation erases metadata. The rewritten page keeps its body, but its aliases, tags and
  summary are gone.
\<close>

theorem title_op_erases_metadata:
  "metadata_of rich_store = [([str ''golang''], str ''a language'')]
   \<and> read_body sample_env 50 (vault (pushes [[page_op 1 [(''set_title'', JString (str ''Go 1''))]]] rich_store)) = Inr (str ''text'')
   \<and> metadata_of (pushes [[page_op 1 [(''set_title'', JString (str ''Go 1''))]]] rich_store) = [([], [])]"
  by code_simp

text \<open>
  Further: a pushed capture loses its place. A create operation that carries coordinates (as the server's own
  create operations do) makes an idea without them; only a later update operation sets them.
\<close>

theorem pushed_capture_loses_place:
  "let new = idea_op 1 ''k'' [(''create'', json_obj [(''body'', JString (str ''hi'')), (''lat'', JNumber (PosInt 3))])];
       moved = idea_op 2 ''k'' [(''update'', json_obj [(''lat'', JNumber (PosInt 3))])]
   in map (\<lambda>i. (i_body i, i_lat i)) (ideas (pushes [[new]] synced_store)) = [(str ''hi'', None)]
      \<and> map i_lat (ideas (pushes [[moved, new]] synced_store)) = [Some (PosInt 3)]"
  by code_simp

text \<open>
  Further: a pushed body is not escaped. The push route accepts idea operations of any client, so a body with a
  reserved tag reaches the ideas table as it is; the capture route escapes it.
\<close>

theorem pushed_body_unescaped:
  "let tag = ''<system-reminder>''
   in map i_body (ideas (pushes [[idea_op 1 ''k'' [(''create'', json_obj [(''body'', JString (str tag))])]]] synced_store)) = [str tag]
      \<and> escape_tags (str tag) \<noteq> str tag"
  by code_simp

definition id_rq :: request where
  "id_rq = (sample_rq 9)\<lparr>rq_show_uuid := (\<lambda>i. if i = 7 then str ''seven'' else [])\<rparr>"

definition captured_store :: store where
  "captured_store = snd (capture id_rq 7 8 3 [] (Some (str ''key'')) sample_params synced_store)"

text \<open>
  Further: the reference of a captured idea is not its key. The capture route emits its operations under the
  idea's id, while a push looks ideas up by their idempotency key: another device that sends back an
  edit of a captured idea changes nothing, and one that sends back the creation makes a second idea.
\<close>

theorem emitted_reference_unknown:
  "map (\<lambda>x. (i_id x, i_body x)) (ideas captured_store) = [(7, str ''hi'')]
   \<and> map entity_ref (ops_since_seq 1 0 (op_rows (sync captured_store))) = [str ''seven'']
   \<and> ideas (pushes [[idea_op 5 ''seven'' [(''update'', json_obj [(''body'', JString (str ''new''))])]]] captured_store) = ideas captured_store
   \<and> map i_body (ideas (pushes [[idea_op 5 ''seven'' [(''create'', json_obj [(''body'', JString (str ''hi''))])]]] captured_store)) = [str ''hi'', str ''hi'']"
  by code_simp

section \<open>Witnesses\<close>

lemma sample_pushed: "fst (push_route (sample_rq 9) sample_env (\<lambda>n. word_of_nat (100 + n)) 3 [title_op 1 ''go''] synced_store) = Inr (1, 1)"
  by code_simp

theorem push_materialises_witness:
  "unapplied (rq_tenant (sample_rq 9)) (sync (snd (push_route (sample_rq 9) sample_env (\<lambda>n. word_of_nat (100 + n)) 3 [title_op 1 ''go''] synced_store))) = []"
  using push_materialises [OF surjective_pairing_to [OF sample_pushed], of "[]"] by simp

lemma sample_blocked: "fst (push_route (sample_rq 9) sample_env (\<lambda>n. word_of_nat (200 + n)) 3 [delete_op 2, title_op 3 ''again'']
    (pushes [[title_op 1 ''go'']] synced_store)) = Inl (PushMaterialize SyncBlocked)"
  by code_simp

theorem failed_push_rolls_back_witness:
  "let s = pushes [[title_op 1 ''go'']] synced_store
   in sync (snd (push_route (sample_rq 9) sample_env (\<lambda>n. word_of_nat (200 + n)) 3 [delete_op 2, title_op 3 ''again''] s)) = sync s"
  using failed_push_rolls_back [OF surjective_pairing_to [OF sample_blocked]] by (simp add: Let_def)

end
