(* ===== verification/Tokens.thy ===== *)
theory Tokens
  imports Utf8 Http_Error
begin

text \<open>
  Session tokens and where a request carries them: the claims and their check (\<open>auth/jwt.rs\<close>), the
  header-or-query choice (\<open>resolve_token\<close>), the routes that accept a token in the query and the query
  decoder (\<open>tenancy/mod.rs\<close>). The signature check of the JWT library is a parameter that yields the
  claims of a well-signed token; the library's documented checks of issuer, audience and expiry (with its
  default leeway of 60 seconds) are written out.
\<close>

section \<open>Claims\<close>

record jwt_cfg =
  jc_secret :: "nat list"
  jc_iss :: rstr
  jc_aud :: rstr
  jc_ttl :: int

record session_claims =
  sc_sub :: uuid
  sc_tenant :: uuid
  sc_role :: rstr
  sc_jti :: uuid
  sc_iss :: rstr
  sc_aud :: rstr
  sc_iat :: int
  sc_exp :: int

text \<open>Times are in microseconds, the claims count in seconds.\<close>

definition timestamp :: "int \<Rightarrow> int" where
  "timestamp now = now div 1000000"

definition claims_new :: "int \<Rightarrow> uuid \<Rightarrow> uuid \<Rightarrow> rstr \<Rightarrow> uuid \<Rightarrow> jwt_cfg \<Rightarrow> session_claims" where
  "claims_new now sub tenant role jti c = \<lparr>sc_sub = sub, sc_tenant = tenant, sc_role = role, sc_jti = jti,
     sc_iss = jc_iss c, sc_aud = jc_aud c, sc_iat = timestamp now, sc_exp = timestamp now + jc_ttl c\<rparr>"

definition LEEWAY :: int where "LEEWAY = 60"

definition verify_session :: "(nat list \<Rightarrow> rstr \<Rightarrow> session_claims option) \<Rightarrow> int \<Rightarrow> rstr \<Rightarrow> jwt_cfg \<Rightarrow> session_claims option" where
  "verify_session decode now token c = (case decode (jc_secret c) token of
     None \<Rightarrow> None
   | Some cl \<Rightarrow> if sc_iss cl = jc_iss c \<and> sc_aud cl = jc_aud c \<and> timestamp now - LEEWAY \<le> sc_exp cl then Some cl else None)"

section \<open>Where the token is\<close>

datatype token_source = Header | Query

definition resolve_token :: "rstr option \<Rightarrow> rstr option \<Rightarrow> bool \<Rightarrow> (token_source \<times> rstr) option" where
  "resolve_token authz query_token is_sse =
     (case Option.bind authz (\<lambda>h. strip_prefix_str h (str ''Bearer '')) of
       Some t \<Rightarrow> Some (Header, t)
     | None \<Rightarrow> if is_sse then map_option (Pair Query) query_token else None)"

definition SSE_ROUTES :: "rstr list" where
  "SSE_ROUTES = map str [''/v1/ingest/'', ''/v1/recall/'', ''/v1/wiki/query/'', ''/v1/dream/'', ''/v1/sync/pull'', ''/v1/thread/'']"

definition is_sse_route :: "rstr \<Rightarrow> bool \<Rightarrow> bool" where
  "is_sse_route path is_get \<longleftrightarrow> is_get \<and> list_ex (starts_with path) SSE_ROUTES"

section \<open>The query string\<close>

fun percent_bytes :: "nat list \<Rightarrow> nat list" where
  "percent_bytes (b # h # l # bs) =
     (if b = 37 then (case (hex_val h, hex_val l) of
         (Some x, Some y) \<Rightarrow> (x * 16 + y) # percent_bytes bs
       | _ \<Rightarrow> b # percent_bytes (h # l # bs))
      else b # percent_bytes (h # l # bs))"
| "percent_bytes bs = bs"

definition percent_decode :: "rstr \<Rightarrow> rstr" where
  "percent_decode s = from_utf8_lossy (percent_bytes (as_bytes s))"

definition url_query_value :: "rstr \<Rightarrow> rstr \<Rightarrow> rstr option" where
  "url_query_value q key =
     map_option (\<lambda>(k, v). percent_decode v)
       (find (\<lambda>(k, v). k = key) (List.map_filter (split_once 61) (split_char 38 q)))"

definition query_param :: "rstr option \<Rightarrow> rstr \<Rightarrow> rstr option" where
  "query_param query key = Option.bind query (\<lambda>q. url_query_value q key)"

section \<open>Facts\<close>

text \<open>A reference encoder: every byte but letters, digits and \<open>-._~\<close> becomes \<open>%XY\<close>.\<close>

definition unreserved :: "nat \<Rightarrow> bool" where
  "unreserved b \<longleftrightarrow> 65 \<le> b \<and> b \<le> 90 \<or> 97 \<le> b \<and> b \<le> 122 \<or> 48 \<le> b \<and> b \<le> 57 \<or> b \<in> {45, 46, 95, 126}"

definition hex_digit :: "nat \<Rightarrow> rchar" where
  "hex_digit n = (if n < 10 then 48 + n else 55 + n)"

definition percent_byte :: "nat \<Rightarrow> nat list" where
  "percent_byte b = (if unreserved b then [b] else [37, hex_digit (b div 16), hex_digit (b mod 16)])"

definition percent_encode :: "rstr \<Rightarrow> rstr" where
  "percent_encode s = concat (map percent_byte (as_bytes s))"

lemma hex_val_digit: "n < 16 \<Longrightarrow> hex_val (hex_digit n) = Some n"
  by (auto simp: hex_val_def hex_digit_def)

lemma percent_bytes_plain: "b \<noteq> 37 \<Longrightarrow> percent_bytes (b # bs) = b # percent_bytes bs"
  by (cases "(b # bs)" rule: percent_bytes.cases) auto

lemma percent_bytes_byte: "b < 256 \<Longrightarrow> percent_bytes (percent_byte b @ bs) = b # percent_bytes bs"
  by (simp add: percent_byte_def percent_bytes_plain unreserved_def hex_val_digit less_mult_imp_div_less)

lemma percent_bytes_encoded: "list_all (\<lambda>b. b < 256) bs \<Longrightarrow> percent_bytes (concat (map percent_byte bs)) = bs"
  by (induction bs) (simp_all add: percent_bytes_byte)

lemma as_bytes_small: "list_all is_scalar s \<Longrightarrow> list_all (\<lambda>b. b < 256) (as_bytes s)"
  by (induction s) (auto simp: utf8_bytes_def is_scalar_def less_mult_imp_div_less)

lemma as_bytes_ascii: "list_all (\<lambda>c. c < 128) s \<Longrightarrow> as_bytes s = s"
  by (induction s) (simp_all add: utf8_bytes_def)

lemma percent_byte_ascii: "b < 256 \<Longrightarrow> list_all (\<lambda>c. c < 128) (percent_byte b)"
  by (auto simp: percent_byte_def unreserved_def hex_digit_def)

lemma percent_encode_ascii: "list_all (\<lambda>b. b < 256) bs \<Longrightarrow> list_all (\<lambda>c. c < 128) (concat (map percent_byte bs))"
  by (induction bs) (simp_all add: percent_byte_ascii)

lemma strip_prefix_Some: "strip_prefix_str h p = Some t \<longleftrightarrow> h = p @ t"
  by (auto simp: strip_prefix_str_def prefix_def)

section \<open>Properties\<close>

text \<open>
  Further: query values round-trip. Decoding what a standard percent-encoder made of a text gives the text
  back, whatever its characters.
\<close>

theorem percent_roundtrip:
  assumes "list_all is_scalar s"
  shows "percent_decode (percent_encode s) = s"
proof -
  have "as_bytes (percent_encode s) = concat (map percent_byte (as_bytes s))"
    using percent_encode_ascii [OF as_bytes_small [OF assms]] by (simp add: percent_encode_def as_bytes_ascii)
  then have "percent_decode (percent_encode s) = from_utf8_lossy (as_bytes s)"
    by (simp add: percent_decode_def percent_bytes_encoded [OF as_bytes_small [OF assms]])
  then show ?thesis
    using lossy_as_bytes [OF assms, of "[]"] by simp
qed

theorem percent_roundtrip_witness: "percent_decode (percent_encode [20320, 37, 32]) = [20320, 37, 32]"
  by (rule percent_roundtrip) (simp add: is_scalar_def)

text \<open>
  Further: a token in the query counts only on the stream routes. It is used exactly if the request is a GET
  under one of the listed prefixes and has no bearer header; a bearer header always wins.
\<close>

theorem query_token_confined:
  "resolve_token authz q (is_sse_route path is_get) = Some (Query, t)
     \<longleftrightarrow> q = Some t \<and> is_get \<and> list_ex (starts_with path) SSE_ROUTES \<and> (\<forall>h. authz \<noteq> Some (str ''Bearer '' @ h))"
proof (cases authz)
  case (Some h)
  show ?thesis
  proof (cases "strip_prefix_str h (str ''Bearer '')")
    case None
    then have "h \<noteq> str ''Bearer '' @ t" for t
      by (metis strip_prefix_Some option.distinct(1))
    then show ?thesis
      using None Some by (auto simp: resolve_token_def is_sse_route_def)
  next
    case (Some t')
    then show ?thesis
      using \<open>authz = Some h\<close> strip_prefix_Some [of h "str ''Bearer ''" t'] by (simp add: resolve_token_def)
  qed
qed (auto simp: resolve_token_def is_sse_route_def)

end
