(* ===== verification/Social.thy ===== *)
theory Social
  imports Tokens
begin

text \<open>
  Sign-in with Google or Apple (\<open>auth/social.rs\<close>): the check of an identity token and the cache of
  the providers' signing keys. Parameters: the JWT header reader, the RS256 check (which yields the JSON
  claims of a well-signed token), the construction of an RSA key, and the HTTP fetch. Shown: what an
  accepted token was checked for, and that a provider's cache only ever holds keys that provider served.
\<close>

section \<open>The claims of an identity token\<close>

record id_claims =
  ic_sub :: rstr
  ic_email :: "rstr option"
  ic_iss :: rstr
  ic_aud :: rstr
  ic_exp :: int
  ic_email_verified :: "bool option"
  ic_nonce :: "rstr option"

text \<open>Fields as the deserialiser reads them: \<open>None\<close> is a type error, \<open>Some None\<close> an absent value.\<close>

definition de_bool_lenient :: "jvalue option \<Rightarrow> bool option option" where
  "de_bool_lenient v = (case v of None \<Rightarrow> Some None | Some JNull \<Rightarrow> Some None | Some (JBool b) \<Rightarrow> Some (Some b)
     | Some (JString s) \<Rightarrow> Some (Some (s = str ''true'')) | _ \<Rightarrow> None)"

definition de_opt_str :: "jvalue option \<Rightarrow> rstr option option" where
  "de_opt_str v = (case v of None \<Rightarrow> Some None | Some JNull \<Rightarrow> Some None | Some (JString s) \<Rightarrow> Some (Some s) | _ \<Rightarrow> None)"

definition as_i64 :: "jvalue \<Rightarrow> int option" where
  "as_i64 v = (case v of JNumber (PosInt n) \<Rightarrow> if uint n \<le> i64_max then Some (uint n) else None
     | JNumber (NegInt n) \<Rightarrow> Some n | _ \<Rightarrow> None)"

definition id_claims_of :: "jvalue \<Rightarrow> id_claims option" where
  "id_claims_of v = (case (get_str v ''sub'', de_opt_str (jget v (str ''email'')), get_str v ''iss'', get_str v ''aud'',
       Option.bind (jget v (str ''exp'')) as_i64, de_bool_lenient (jget v (str ''email_verified'')),
       de_opt_str (jget v (str ''nonce''))) of
     (Some sub, Some email, Some iss, Some aud, Some e, Some ver, Some nonce) \<Rightarrow>
       Some \<lparr>ic_sub = sub, ic_email = email, ic_iss = iss, ic_aud = aud, ic_exp = e, ic_email_verified = ver, ic_nonce = nonce\<rparr>
   | _ \<Rightarrow> None)"

section \<open>The key cache\<close>

definition GOOGLE_CERTS_URL :: rstr where "GOOGLE_CERTS_URL = str ''https://www.googleapis.com/oauth2/v3/certs''"
definition APPLE_CERTS_URL :: rstr where "APPLE_CERTS_URL = str ''https://appleid.apple.com/auth/keys''"
definition JWKS_FALLBACK_TTL :: nat where "JWKS_FALLBACK_TTL = 3600"

definition certs_url :: "rstr \<Rightarrow> rstr option" where
  "certs_url provider = (if provider = str ''google'' then Some GOOGLE_CERTS_URL
     else if provider = str ''apple'' then Some APPLE_CERTS_URL else None)"

definition jwk_entry :: "(rstr \<Rightarrow> rstr \<Rightarrow> 'k option) \<Rightarrow> jvalue \<Rightarrow> (rstr \<times> 'k) option" where
  "jwk_entry rsa k = (case (get_str k ''kid'', get_str k ''n'', get_str k ''e'') of
     (Some kid, Some n, Some e) \<Rightarrow> map_option (Pair kid) (rsa n e) | _ \<Rightarrow> None)"

definition parse_google_jwks :: "(rstr \<Rightarrow> rstr \<Rightarrow> 'k option) \<Rightarrow> jvalue \<Rightarrow> rstr \<rightharpoonup> 'k" where
  "parse_google_jwks rsa v = (case Option.bind (jget v (str ''keys'')) as_array of
     None \<Rightarrow> Map.empty
   | Some ks \<Rightarrow> fold (\<lambda>(kid, k) m. m(kid \<mapsto> k)) (List.map_filter (jwk_entry rsa) ks) Map.empty)"

definition parse_u64 :: "rstr \<Rightarrow> nat option" where
  "parse_u64 s = (case parse_digits (if s \<noteq> [] \<and> hd s = 43 then tl s else s) of
     Some n \<Rightarrow> if n < 2 ^ 64 then Some n else None | None \<Rightarrow> None)"

definition max_age_part :: "rstr \<Rightarrow> nat option" where
  "max_age_part part = Option.bind (strip_prefix_str (trim part) (str ''max-age='')) parse_u64"

definition parse_max_age :: "rstr \<Rightarrow> nat option" where
  "parse_max_age h = (case List.map_filter max_age_part (split_char 44 h) of [] \<Rightarrow> None | n # _ \<Rightarrow> Some n)"

record 'k jwks_cache =
  jk_keys :: "rstr \<rightharpoonup> 'k"
  jk_expires :: int

type_synonym 'k jwks = "rstr \<rightharpoonup> 'k jwks_cache"

text \<open>What a fetch of a URL answers: the \<open>Cache-Control\<close> header and the JSON body, or a failure.\<close>

type_synonym fetch = "rstr \<Rightarrow> (rstr option \<times> jvalue) option"

definition cached_fresh :: "int \<Rightarrow> rstr \<Rightarrow> rstr \<Rightarrow> 'k jwks \<Rightarrow> 'k option" where
  "cached_fresh now provider kid caches = Option.bind (caches provider)
     (\<lambda>c. if now < jk_expires c then jk_keys c kid else None)"

text \<open>Instants are in seconds. \<open>waited\<close> are the caches once the refresh lock is held.\<close>

definition key_for :: "(rstr \<Rightarrow> rstr \<Rightarrow> 'k option) \<Rightarrow> fetch \<Rightarrow> int \<Rightarrow> rstr \<Rightarrow> rstr \<Rightarrow> 'k jwks \<Rightarrow> 'k jwks
    \<Rightarrow> 'k option \<times> 'k jwks" where
  "key_for rsa fetch now provider kid caches waited = (case cached_fresh now provider kid caches of
     Some k \<Rightarrow> (Some k, caches)
   | None \<Rightarrow> (case cached_fresh now provider kid waited of
       Some k \<Rightarrow> (Some k, waited)
     | None \<Rightarrow> (case Option.bind (certs_url provider) fetch of
         None \<Rightarrow> (None, waited)
       | Some (cache_control, body) \<Rightarrow>
           let keys = parse_google_jwks rsa body; ttl = the_or JWKS_FALLBACK_TTL (Option.bind cache_control parse_max_age)
           in (keys kid, waited(provider \<mapsto> \<lparr>jk_keys = keys, jk_expires = now + int ttl\<rparr>)))))"

section \<open>The check\<close>

record social_cfg =
  google_auds :: "rstr list"
  apple_auds :: "rstr list"

definition issuers_auds :: "rstr \<Rightarrow> social_cfg \<Rightarrow> (rstr list \<times> rstr list) option" where
  "issuers_auds provider cfg =
     (if provider = str ''google'' then Some ([str ''https://accounts.google.com'', str ''accounts.google.com''], google_auds cfg)
      else if provider = str ''apple'' then Some ([str ''https://appleid.apple.com''], apple_auds cfg) else None)"

definition id_token_ok :: "rstr list \<Rightarrow> rstr list \<Rightarrow> int \<Rightarrow> id_claims \<Rightarrow> bool" where
  "id_token_ok issuers auds now c \<longleftrightarrow> ic_iss c \<in> set issuers \<and> ic_aud c \<in> set auds \<and> now - LEEWAY \<le> ic_exp c"

text \<open>\<open>key\<close> is the answer of the key cache. \<open>decode\<close> checks the signature.\<close>

definition verify_id_token :: "(rstr \<Rightarrow> rstr option option) \<Rightarrow> ('k \<Rightarrow> rstr \<Rightarrow> jvalue option) \<Rightarrow> (rstr \<Rightarrow> rstr \<Rightarrow> 'k option)
    \<Rightarrow> int \<Rightarrow> rstr \<Rightarrow> rstr \<Rightarrow> social_cfg \<Rightarrow> id_claims option" where
  "verify_id_token header decode key now provider id_token cfg = (case Option.bind (header id_token) id of
     None \<Rightarrow> None
   | Some kid \<Rightarrow> (case issuers_auds provider cfg of
       None \<Rightarrow> None
     | Some (issuers, auds) \<Rightarrow> if auds = [] then None
         else (case Option.bind (key provider kid) (\<lambda>k. Option.bind (decode k id_token) id_claims_of) of
           None \<Rightarrow> None
         | Some c \<Rightarrow> if \<not> id_token_ok issuers auds now c then None
             else if ic_email c \<noteq> None \<and> ic_email_verified c \<noteq> Some True then None else Some c)))"

section \<open>Properties\<close>

text \<open>
  Further: what an accepted identity token was checked for. Its provider is Google or Apple, its signature
  verifies under the key this provider's set has under the token's key id, issuer and audience are those
  of this provider, it has not expired, and an e-mail address it carries is verified.
\<close>

theorem id_token_checked:
  assumes "verify_id_token header decode key now provider id_token cfg = Some c"
  shows "\<exists>kid k v issuers auds. header id_token = Some (Some kid) \<and> key provider kid = Some k \<and> decode k id_token = Some v
    \<and> id_claims_of v = Some c \<and> issuers_auds provider cfg = Some (issuers, auds) \<and> auds \<noteq> []
    \<and> ic_iss c \<in> set issuers \<and> ic_aud c \<in> set auds \<and> now - 60 \<le> ic_exp c
    \<and> (ic_email c \<noteq> None \<longrightarrow> ic_email_verified c = Some True)"
proof -
  obtain kid where kid: "header id_token = Some (Some kid)"
    using assms by (cases "header id_token") (auto simp: verify_id_token_def id_def split: option.splits)
  obtain issuers auds where ia: "issuers_auds provider cfg = Some (issuers, auds)"
    using assms kid by (auto simp: verify_id_token_def split: option.splits)
  obtain k v where kv: "key provider kid = Some k" "decode k id_token = Some v" "id_claims_of v = Some c"
    using assms kid ia by (auto simp: verify_id_token_def bind_eq_Some_conv split: option.splits if_splits)
  then show ?thesis
    using assms kid ia by (auto simp: verify_id_token_def id_token_ok_def LEEWAY_def split: if_splits)
qed

text \<open>What the look-ups keep of the caches.\<close>

definition served_by :: "(rstr \<Rightarrow> rstr \<Rightarrow> 'k option) \<Rightarrow> (rstr \<Rightarrow> jvalue \<Rightarrow> bool) \<Rightarrow> rstr \<Rightarrow> rstr \<Rightarrow> 'k \<Rightarrow> bool" where
  "served_by rsa serves provider kid k \<longleftrightarrow>
     (\<exists>url body. certs_url provider = Some url \<and> serves url body \<and> parse_google_jwks rsa body kid = Some k)"

definition jwks_ok :: "(rstr \<Rightarrow> rstr \<Rightarrow> 'k option) \<Rightarrow> (rstr \<Rightarrow> jvalue \<Rightarrow> bool) \<Rightarrow> 'k jwks \<Rightarrow> bool" where
  "jwks_ok rsa serves caches \<longleftrightarrow>
     (\<forall>provider c kid k. caches provider = Some c \<longrightarrow> jk_keys c kid = Some k \<longrightarrow> served_by rsa serves provider kid k)"

lemma cached_fresh_served: "jwks_ok rsa serves caches \<Longrightarrow> cached_fresh now provider kid caches = Some k
    \<Longrightarrow> served_by rsa serves provider kid k"
  by (auto simp: jwks_ok_def cached_fresh_def bind_eq_Some_conv split: if_splits)

lemma key_for_ok:
  assumes "jwks_ok rsa serves caches" "jwks_ok rsa serves waited"
    and fetch: "\<And>url cc body. fetch url = Some (cc, body) \<Longrightarrow> serves url body"
    and run: "key_for rsa fetch now provider kid caches waited = (r, caches')"
  shows "jwks_ok rsa serves caches' \<and> (case r of None \<Rightarrow> True | Some k \<Rightarrow> served_by rsa serves provider kid k)"
proof (cases "Option.bind (certs_url provider) fetch")
  case None
  then show ?thesis
    using assms(1,2) run cached_fresh_served
    by (fastforce simp: key_for_def split: option.splits)
next
  case (Some a)
  obtain url cc body where url: "certs_url provider = Some url" "fetch url = Some (cc, body)" "a = (cc, body)"
    using Some by (cases a) (auto simp: bind_eq_Some_conv)
  then have served: "served_by rsa serves provider j k" if "parse_google_jwks rsa body j = Some k" for j k
    using that fetch unfolding served_by_def by blast
  then have "jwks_ok rsa serves (waited(provider \<mapsto> \<lparr>jk_keys = parse_google_jwks rsa body, jk_expires = t\<rparr>))" for t
    using assms(2) by (auto simp: jwks_ok_def)
  then show ?thesis
    using assms(1,2) run cached_fresh_served served Some url(3)
    by (auto simp: key_for_def Let_def split: option.splits)
qed

inductive jwks_reach :: "(rstr \<Rightarrow> rstr \<Rightarrow> 'k option) \<Rightarrow> (rstr \<Rightarrow> jvalue \<Rightarrow> bool) \<Rightarrow> 'k jwks \<Rightarrow> bool"
  for rsa :: "rstr \<Rightarrow> rstr \<Rightarrow> 'k option" and serves :: "rstr \<Rightarrow> jvalue \<Rightarrow> bool" where
  jwks_empty: "jwks_reach rsa serves Map.empty"
| jwks_look_up: "jwks_reach rsa serves caches \<Longrightarrow> jwks_reach rsa serves waited
    \<Longrightarrow> (\<And>url cc body. fetch url = Some (cc, body) \<Longrightarrow> serves url body)
    \<Longrightarrow> key_for rsa fetch now provider kid caches waited = (r, caches') \<Longrightarrow> jwks_reach rsa serves caches'"

lemma jwks_reach_ok: "jwks_reach rsa serves caches \<Longrightarrow> jwks_ok rsa serves caches"
proof (induction rule: jwks_reach.induct)
  case jwks_empty
  then show ?case
    by (simp add: jwks_ok_def)
next
  case jwks_look_up
  then show ?case
    using key_for_ok by blast
qed

text \<open>
  Further: keys of one provider are never used for another. If every fetch answers what the URL serves, then
  after any sequence of look-ups, interleaved in any way, the key found under a provider is one that the
  certificate URL of this provider served under that id.
\<close>

theorem provider_keys_separate:
  assumes "jwks_reach rsa serves caches" "jwks_reach rsa serves waited"
    and "\<And>url cc body. fetch url = Some (cc, body) \<Longrightarrow> serves url body"
    and "key_for rsa fetch now provider kid caches waited = (Some k, caches')"
  shows "\<exists>url body. certs_url provider = Some url \<and> serves url body \<and> parse_google_jwks rsa body kid = Some k"
  using key_for_ok [OF assms(1,2) [THEN jwks_reach_ok] assms(3,4)] by (simp add: served_by_def)

section \<open>Witnesses\<close>

definition sample_rsa :: "rstr \<Rightarrow> rstr \<Rightarrow> rstr option" where
  "sample_rsa n e = Some (n @ e)"

definition sample_jwks :: jvalue where
  "sample_jwks = json_obj [(''keys'', JArray [json_obj [(''kid'', JString (str ''k1'')), (''n'', JString (str ''n'')), (''e'', JString (str ''e''))]])]"

definition sample_fetch :: fetch where
  "sample_fetch url = (if url = GOOGLE_CERTS_URL then Some (Some (str ''public, max-age=60''), sample_jwks) else None)"

theorem provider_keys_separate_witness:
  "\<exists>url body. certs_url (str ''google'') = Some url \<and> (url = GOOGLE_CERTS_URL \<and> body = sample_jwks)
     \<and> parse_google_jwks sample_rsa body (str ''k1'') = Some (str ''ne'')"
proof (rule provider_keys_separate [where fetch = sample_fetch and now = 0 and caches = Map.empty and waited = Map.empty])
  show "sample_fetch url = Some (cc, body) \<Longrightarrow> url = GOOGLE_CERTS_URL \<and> body = sample_jwks" for url cc body
    by (auto simp: sample_fetch_def split: if_splits)
  show "key_for sample_rsa sample_fetch 0 (str ''google'') (str ''k1'') Map.empty Map.empty
      = (Some (str ''ne''), snd (key_for sample_rsa sample_fetch 0 (str ''google'') (str ''k1'') Map.empty Map.empty))"
    by (simp add: prod_eq_iff, code_simp)
qed (rule jwks_empty)+

definition sample_id :: jvalue where
  "sample_id = json_obj [(''sub'', JString (str ''s'')), (''email'', JString (str ''a@b'')), (''iss'', JString (str ''accounts.google.com'')),
     (''aud'', JString (str ''app'')), (''exp'', JNumber (PosInt 100)), (''email_verified'', JBool True)]"

definition sample_id_claims :: id_claims where
  "sample_id_claims = \<lparr>ic_sub = str ''s'', ic_email = Some (str ''a@b''), ic_iss = str ''accounts.google.com'', ic_aud = str ''app'',
     ic_exp = 100, ic_email_verified = Some True, ic_nonce = None\<rparr>"

definition sample_social_cfg :: social_cfg where
  "sample_social_cfg = \<lparr>google_auds = [str ''app''], apple_auds = []\<rparr>"

lemma sample_id_accepted:
  "verify_id_token (\<lambda>_. Some (Some (str ''k1''))) (\<lambda>_ _. Some sample_id) (\<lambda>_ _. Some ()) 50 (str ''google'') [] sample_social_cfg
   = Some sample_id_claims"
  by code_simp

theorem id_token_checked_witness:
  "ic_iss sample_id_claims \<in> set [str ''https://accounts.google.com'', str ''accounts.google.com'']
   \<and> ic_email_verified sample_id_claims = Some True"
  using id_token_checked [OF sample_id_accepted] by (auto simp: issuers_auds_def sample_id_claims_def)

end
