(* ===== verification/Auth.thy ===== *)
theory Auth
  imports Social Redact
begin

text \<open>
  Accounts and sessions: the auth routes (\<open>auth/routes.rs\<close>), the password check (\<open>auth/password.rs\<close>),
  the magic-link store of one process (\<open>auth/magic.rs\<close>), the audit writer (\<open>auth/audit.rs\<close>), the
  request gate (\<open>tenancy/mod.rs\<close>) and account deletion (\<open>account/routes.rs\<close>). The state holds the tables
  the routes read and write and the magic-link map. A route is several transactions; a failure leaves
  those before it. Parameters (\<open>auth_env\<close>): the clock, JWT signing, Argon2, the identity provider's
  answers, and the two comparisons of e-mail addresses Postgres makes (in a look-up and in the unique
  index). Fresh ids and tokens are arguments.
\<close>

section \<open>The state\<close>

record user_row =
  u_id :: uuid
  u_tenant :: uuid
  u_email :: rstr
  u_hash :: "rstr option"
  u_role :: rstr
  u_active :: bool

record session_row =
  s_tenant :: uuid
  s_user :: uuid
  s_jti :: uuid
  s_expires :: int
  s_revoked :: "int option"

record identity_row =
  o_tenant :: uuid
  o_user :: uuid
  o_provider :: rstr
  o_subject :: rstr
  o_email :: rstr

record audit_row =
  ad_tenant :: uuid
  ad_user :: "uuid option"
  ad_action :: rstr
  ad_detail :: jvalue

type_synonym magic_store = "rstr \<rightharpoonup> uuid \<times> uuid \<times> int"

record auth_db =
  tenants :: "uuid list"
  users :: "user_row list"
  sessions :: "session_row list"
  identities :: "identity_row list"
  audits :: "audit_row list"
  magic :: magic_store

record auth_env =
  ae_now :: int
  ae_secret :: "nat list"
  ae_access_ttl :: int
  ae_encode :: "nat list \<Rightarrow> session_claims \<Rightarrow> rstr option"
  ae_decode :: "nat list \<Rightarrow> rstr \<Rightarrow> session_claims option"
  ae_argon :: "rstr \<Rightarrow> rstr \<Rightarrow> bool"
  ae_hash :: "rstr \<Rightarrow> rstr option"
  ae_phc :: "rstr \<Rightarrow> (nat \<times> nat \<times> nat) option"
  ae_email_eq :: "rstr \<Rightarrow> rstr \<Rightarrow> bool"
  ae_email_unique :: "rstr \<Rightarrow> rstr \<Rightarrow> bool"
  ae_id_token :: "rstr \<Rightarrow> rstr \<Rightarrow> id_claims option"
  ae_userinfo :: "rstr \<Rightarrow> jvalue option"

record fresh_ids =
  f_tenant :: uuid
  f_user :: uuid
  f_access :: uuid
  f_refresh :: uuid

section \<open>Passwords\<close>

definition DUMMY_HASH :: rstr where
  "DUMMY_HASH = str ''$argon2id$v=19$m=19456,t=2,p=1$ALf/FWaOcGnBQa5DHH/hzA$hFKcfzBUOZyT3Zlfu6WtMD7uRnPC3M7t0PQA64J7Zpk''"

datatype verify_outcome = Match | Mismatch

text \<open>\<open>ae_argon\<close> is false for a text that is no hash.\<close>

definition verify_password :: "auth_env \<Rightarrow> rstr option \<Rightarrow> rstr \<Rightarrow> verify_outcome" where
  "verify_password env stored candidate =
     (if ae_argon env (the_or DUMMY_HASH stored) candidate \<and> stored \<noteq> None then Match else Mismatch)"

definition needs_rehash :: "auth_env \<Rightarrow> rstr \<Rightarrow> bool" where
  "needs_rehash env stored = (case ae_phc env stored of
     Some (m, t, p) \<Rightarrow> \<not> (m = 19456 \<and> t = 2 \<and> p = 1) | None \<Rightarrow> True)"

section \<open>Sessions\<close>

definition access_cfg :: "auth_env \<Rightarrow> jwt_cfg" where
  "access_cfg env = \<lparr>jc_secret = ae_secret env, jc_iss = str ''qcue'', jc_aud = str ''qcue-app'', jc_ttl = ae_access_ttl env\<rparr>"

definition refresh_cfg :: "auth_env \<Rightarrow> jwt_cfg" where
  "refresh_cfg env = \<lparr>jc_secret = ae_secret env, jc_iss = str ''qcue'', jc_aud = str ''qcue-refresh'', jc_ttl = 60 * 60 * 24 * 30\<rparr>"

definition has_user :: "uuid \<Rightarrow> auth_db \<Rightarrow> bool" where
  "has_user u db \<longleftrightarrow> list_ex (\<lambda>r. u_id r = u) (users db)"

text \<open>The row needs its tenant and user, and a new \<open>(tenant, jti)\<close>.\<close>

definition insert_session :: "uuid \<Rightarrow> uuid \<Rightarrow> uuid \<Rightarrow> int \<Rightarrow> auth_db \<Rightarrow> (http_error + auth_db)" where
  "insert_session t u jti expires db = (
     if t \<notin> set (tenants db) \<or> \<not> has_user u db \<or> list_ex (\<lambda>r. s_tenant r = t \<and> s_jti r = jti) (sessions db) then Inl (Db_Error [])
     else Inr (db\<lparr>sessions := sessions db @ [\<lparr>s_tenant = t, s_user = u, s_jti = jti, s_expires = expires, s_revoked = None\<rparr>]\<rparr>))"

definition revoke_where :: "(session_row \<Rightarrow> bool) \<Rightarrow> int \<Rightarrow> auth_db \<Rightarrow> auth_db" where
  "revoke_where P now db = db\<lparr>sessions :=
     map (\<lambda>r. if P r \<and> s_revoked r = None then r\<lparr>s_revoked := Some now\<rparr> else r) (sessions db)\<rparr>"

definition revoke_user_sessions :: "int \<Rightarrow> uuid \<Rightarrow> uuid \<Rightarrow> auth_db \<Rightarrow> auth_db" where
  "revoke_user_sessions now t u = revoke_where (\<lambda>r. s_tenant r = t \<and> s_user r = u) now"

definition revoke_session :: "int \<Rightarrow> uuid \<Rightarrow> uuid \<Rightarrow> auth_db \<Rightarrow> auth_db" where
  "revoke_session now t jti = revoke_where (\<lambda>r. s_tenant r = t \<and> s_jti r = jti) now"

definition live_row :: "int \<Rightarrow> session_row \<Rightarrow> bool" where
  "live_row now r \<longleftrightarrow> s_revoked r = None \<and> now < s_expires r"

definition session_is_live :: "int \<Rightarrow> uuid \<Rightarrow> uuid \<Rightarrow> auth_db \<Rightarrow> bool" where
  "session_is_live now t jti db \<longleftrightarrow> list_ex (\<lambda>r. s_tenant r = t \<and> s_jti r = jti \<and> live_row now r) (sessions db)"

record token_pair =
  access_jwt :: rstr
  refresh_jwt :: rstr
  expires_at :: int

definition issue_pair :: "auth_env \<Rightarrow> fresh_ids \<Rightarrow> uuid \<Rightarrow> uuid \<Rightarrow> rstr \<Rightarrow> auth_db \<Rightarrow> (http_error + token_pair) \<times> auth_db" where
  "issue_pair env fr t u role db = (
     let now = ae_now env; access_exp = now + ae_access_ttl env * 1000000; refresh_exp = now + 30 * 86400 * 1000000
     in case ae_encode env (ae_secret env) (claims_new now u t role (f_access fr) (access_cfg env)) of
       None \<Rightarrow> (Inl Unauthorized, db)
     | Some access \<Rightarrow> (case insert_session t u (f_access fr) access_exp db of
         Inl e \<Rightarrow> (Inl e, db)
       | Inr db1 \<Rightarrow> (case ae_encode env (ae_secret env) (claims_new now u t role (f_refresh fr) (refresh_cfg env)) of
           None \<Rightarrow> (Inl Unauthorized, db1)
         | Some refresh \<Rightarrow> (case insert_session t u (f_refresh fr) refresh_exp db1 of
             Inl e \<Rightarrow> (Inl e, db1)
           | Inr db2 \<Rightarrow> (Inr \<lparr>access_jwt = access, refresh_jwt = refresh, expires_at = access_exp\<rparr>, db2)))))"

section \<open>Audit\<close>

text \<open>A row without a tenant, or whose tenant or user is gone, is refused; the failure is swallowed.\<close>

definition audit :: "uuid option \<Rightarrow> uuid option \<Rightarrow> string \<Rightarrow> jvalue \<Rightarrow> auth_db \<Rightarrow> auth_db" where
  "audit tenant user action detail db = (case tenant of
     None \<Rightarrow> db
   | Some t \<Rightarrow> if t \<notin> set (tenants db) \<or> (case user of None \<Rightarrow> False | Some u \<Rightarrow> \<not> has_user u db) then db
       else db\<lparr>audits := audits db @ [\<lparr>ad_tenant = t, ad_user = user, ad_action = str action, ad_detail = redact_json detail\<rparr>]\<rparr>)"

section \<open>The routes\<close>

definition user_by_email :: "auth_env \<Rightarrow> rstr \<Rightarrow> auth_db \<Rightarrow> user_row option" where
  "user_by_email env email db = find (\<lambda>r. ae_email_eq env (u_email r) email) (users db)"

text \<open>A new tenant with its owner, in one transaction.\<close>

definition create_owner :: "auth_env \<Rightarrow> fresh_ids \<Rightarrow> rstr \<Rightarrow> rstr option \<Rightarrow> auth_db \<Rightarrow> http_error + auth_db" where
  "create_owner env fr email hash db = (
     if f_tenant fr \<in> set (tenants db) \<or> has_user (f_user fr) db
       \<or> list_ex (\<lambda>r. ae_email_unique env (u_email r) email) (users db) then Inl (Db_Error [])
     else Inr (db\<lparr>tenants := tenants db @ [f_tenant fr], users := users db @
       [\<lparr>u_id = f_user fr, u_tenant = f_tenant fr, u_email = email, u_hash = hash, u_role = str ''owner'', u_active = True\<rparr>]\<rparr>))"

text \<open>What every route that ends with a session does: issue the pair, then audit.\<close>

definition open_session :: "auth_env \<Rightarrow> fresh_ids \<Rightarrow> uuid \<Rightarrow> uuid \<Rightarrow> rstr \<Rightarrow> string \<Rightarrow> jvalue \<Rightarrow> auth_db
    \<Rightarrow> (http_error + token_pair) \<times> auth_db" where
  "open_session env fr t u role action detail db = (case issue_pair env fr t u role db of
     (Inl e, db') \<Rightarrow> (Inl e, db')
   | (Inr p, db') \<Rightarrow> (Inr p, audit (Some t) (Some u) action detail db'))"

definition signup :: "auth_env \<Rightarrow> fresh_ids \<Rightarrow> rstr \<Rightarrow> rstr \<Rightarrow> auth_db \<Rightarrow> (http_error + token_pair) \<times> auth_db" where
  "signup env fr email password db = (
     if trim email = [] \<or> password = [] then (Inl Unauthorized, db)
     else if user_by_email env email db \<noteq> None then (Inl (Bad_Request (str ''email already registered'')), db)
     else (case ae_hash env password of
       None \<Rightarrow> (Inl Unauthorized, db)
     | Some h \<Rightarrow> (case create_owner env fr email (Some h) db of
         Inl e \<Rightarrow> (Inl e, db)
       | Inr db1 \<Rightarrow> open_session env fr (f_tenant fr) (f_user fr) (str ''owner'') ''auth.signup.ok'' (JObject []) db1)))"

definition set_hash :: "uuid \<Rightarrow> uuid \<Rightarrow> rstr option \<Rightarrow> auth_db \<Rightarrow> auth_db" where
  "set_hash t u h db = db\<lparr>users := map (\<lambda>r. if u_tenant r = t \<and> u_id r = u then r\<lparr>u_hash := h\<rparr> else r) (users db)\<rparr>"

definition rehash :: "auth_env \<Rightarrow> user_row \<Rightarrow> rstr \<Rightarrow> auth_db \<Rightarrow> auth_db" where
  "rehash env r password db = (case u_hash r of
     Some h \<Rightarrow> if needs_rehash env h then (case ae_hash env password of
         Some nh \<Rightarrow> set_hash (u_tenant r) (u_id r) (Some nh) db | None \<Rightarrow> db) else db
   | None \<Rightarrow> db)"

definition login :: "auth_env \<Rightarrow> fresh_ids \<Rightarrow> rstr \<Rightarrow> rstr \<Rightarrow> auth_db \<Rightarrow> (http_error + token_pair) \<times> auth_db" where
  "login env fr email password db = (
     let found = user_by_email env email db;
         hash = Option.bind found u_hash; active = (case found of None \<Rightarrow> False | Some r \<Rightarrow> u_active r)
     in if verify_password env hash password \<noteq> Match \<or> \<not> active
        then (Inl Unauthorized, audit (map_option u_tenant found) (map_option u_id found) ''auth.login.failed''
                (json_obj [(''email'', JString email)]) db)
        else (case found of
          None \<Rightarrow> (Inl Unauthorized, db)
        | Some r \<Rightarrow> open_session env fr (u_tenant r) (u_id r) (u_role r) ''auth.login.ok'' (JObject []) (rehash env r password db)))"

text \<open>The refresh in its two halves, between which other requests can run.\<close>

definition refresh_check :: "auth_env \<Rightarrow> rstr \<Rightarrow> auth_db \<Rightarrow> session_claims option" where
  "refresh_check env token db = (case verify_session (ae_decode env) (ae_now env) token (refresh_cfg env) of
     None \<Rightarrow> None
   | Some c \<Rightarrow> if session_is_live (ae_now env) (sc_tenant c) (sc_jti c) db then Some c else None)"

definition refresh_rotate :: "auth_env \<Rightarrow> fresh_ids \<Rightarrow> session_claims \<Rightarrow> auth_db \<Rightarrow> (http_error + token_pair) \<times> auth_db" where
  "refresh_rotate env fr c db = open_session env fr (sc_tenant c) (sc_sub c) (sc_role c) ''auth.refresh.ok'' (JObject [])
     (revoke_session (ae_now env) (sc_tenant c) (sc_jti c) db)"

definition refresh :: "auth_env \<Rightarrow> fresh_ids \<Rightarrow> rstr \<Rightarrow> auth_db \<Rightarrow> (http_error + token_pair) \<times> auth_db" where
  "refresh env fr token db = (case refresh_check env token db of
     None \<Rightarrow> (Inl Unauthorized, db) | Some c \<Rightarrow> refresh_rotate env fr c db)"

definition logout :: "auth_env \<Rightarrow> rstr \<Rightarrow> auth_db \<Rightarrow> auth_db" where
  "logout env token db = (case verify_session (ae_decode env) (ae_now env) token (refresh_cfg env) of
     None \<Rightarrow> db
   | Some c \<Rightarrow> audit (Some (sc_tenant c)) (Some (sc_sub c)) ''auth.logout.ok'' (JObject [])
       (revoke_user_sessions (ae_now env) (sc_tenant c) (sc_sub c) db))"

section \<open>Magic links\<close>

definition magic_put :: "int \<Rightarrow> rstr \<Rightarrow> uuid \<Rightarrow> uuid \<Rightarrow> int \<Rightarrow> magic_store \<Rightarrow> magic_store" where
  "magic_put now token t u ttl m = m(token \<mapsto> (t, u, now + ttl))"

definition magic_consume :: "int \<Rightarrow> rstr \<Rightarrow> magic_store \<Rightarrow> (uuid \<times> uuid) option \<times> magic_store" where
  "magic_consume now token m = (case m token of
     None \<Rightarrow> (None, m)
   | Some (t, u, expires) \<Rightarrow> (if expires < now then None else Some (t, u), m(token := None)))"

text \<open>\<open>token\<close> is the fresh token.\<close>

definition issue_magic :: "auth_env \<Rightarrow> rstr \<Rightarrow> rstr \<Rightarrow> auth_db \<Rightarrow> rstr option \<times> auth_db" where
  "issue_magic env email token db = (case user_by_email env email db of
     None \<Rightarrow> (None, db)
   | Some r \<Rightarrow> (Some token, db\<lparr>magic := magic_put (ae_now env) token (u_tenant r) (u_id r) (15 * 60 * 1000000) (magic db)\<rparr>))"

definition magic_request :: "auth_env \<Rightarrow> rstr \<Rightarrow> rstr \<Rightarrow> auth_db \<Rightarrow> auth_db" where
  "magic_request env email token db =
     audit None None ''auth.magic.request'' (json_obj [(''email'', JString email)]) (snd (issue_magic env email token db))"

definition magic_verify :: "auth_env \<Rightarrow> fresh_ids \<Rightarrow> rstr \<Rightarrow> auth_db \<Rightarrow> (http_error + token_pair) \<times> auth_db" where
  "magic_verify env fr token db = (case magic_consume (ae_now env) token (magic db) of
     (None, m) \<Rightarrow> (Inl Unauthorized, db\<lparr>magic := m\<rparr>)
   | (Some (t, u), m) \<Rightarrow> open_session env fr t u (str ''owner'') ''auth.magic.verify.ok'' (JObject []) (db\<lparr>magic := m\<rparr>))"

section \<open>Federated sign-in\<close>

definition who :: "rstr \<Rightarrow> rstr \<Rightarrow> jvalue" where
  "who email provider = json_obj [(''email'', JString email), (''provider'', JString provider)]"

definition known_identity :: "rstr \<Rightarrow> rstr \<Rightarrow> auth_db \<Rightarrow> user_row option" where
  "known_identity provider subject db = Option.bind
     (find (\<lambda>x. o_provider x = provider \<and> o_subject x = subject) (identities db))
     (\<lambda>x. find (\<lambda>r. u_id r = o_user x) (users db))"

definition add_identity :: "uuid \<Rightarrow> uuid \<Rightarrow> rstr \<Rightarrow> rstr \<Rightarrow> rstr \<Rightarrow> auth_db \<Rightarrow> auth_db" where
  "add_identity t u provider subject email db = (
     if list_ex (\<lambda>x. o_provider x = provider \<and> o_subject x = subject) (identities db) then db
     else db\<lparr>identities := identities db @ [\<lparr>o_tenant = t, o_user = u, o_provider = provider, o_subject = subject, o_email = email\<rparr>]\<rparr>)"

text \<open>The password of a matched account is dropped with its sessions.\<close>

definition drop_password :: "auth_env \<Rightarrow> user_row \<Rightarrow> string \<Rightarrow> jvalue \<Rightarrow> auth_db \<Rightarrow> auth_db" where
  "drop_password env r action detail db = (if u_hash r = None then db
     else audit (Some (u_tenant r)) (Some (u_id r)) action detail
       (revoke_user_sessions (ae_now env) (u_tenant r) (u_id r) (set_hash (u_tenant r) (u_id r) None db)))"

definition link_or_create_user :: "auth_env \<Rightarrow> fresh_ids \<Rightarrow> rstr \<Rightarrow> rstr \<Rightarrow> rstr \<Rightarrow> auth_db
    \<Rightarrow> (http_error + uuid \<times> uuid \<times> rstr) \<times> auth_db" where
  "link_or_create_user env fr provider subject email db = (case known_identity provider subject db of
     Some r \<Rightarrow> (if u_active r then Inr (u_id r, u_tenant r, u_role r) else Inl Unauthorized, db)
   | None \<Rightarrow> (case user_by_email env email db of
       Some r \<Rightarrow> if \<not> u_active r then (Inl Unauthorized, db)
         else (Inr (u_id r, u_tenant r, u_role r),
           audit (Some (u_tenant r)) (Some (u_id r)) ''auth.social.link'' (who email provider)
             (drop_password env r ''auth.social.password_revoked_on_link'' (who email provider)
               (add_identity (u_tenant r) (u_id r) provider subject email db)))
     | None \<Rightarrow> (case create_owner env fr email None db of
         Inl e \<Rightarrow> (Inl e, db)
       | Inr db1 \<Rightarrow>
           if list_ex (\<lambda>x. o_provider x = provider \<and> o_subject x = subject) (identities db) then (Inl (Db_Error []), db)
           else (Inr (f_user fr, f_tenant fr, str ''owner''),
             audit (Some (f_tenant fr)) (Some (f_user fr)) ''auth.social.signup'' (who email provider)
               (add_identity (f_tenant fr) (f_user fr) provider subject email db1)))))"

definition no_email :: http_error where
  "no_email = Bad_Request (str ''the signed-in identity has no email; cannot link a qcue account'')"

definition social :: "auth_env \<Rightarrow> fresh_ids \<Rightarrow> rstr \<Rightarrow> rstr \<Rightarrow> auth_db \<Rightarrow> (http_error + token_pair) \<times> auth_db" where
  "social env fr provider id_token db = (case ae_id_token env provider id_token of
     None \<Rightarrow> (Inl Unauthorized, db)
   | Some c \<Rightarrow> (case ic_email c of
       None \<Rightarrow> (Inl no_email, db)
     | Some email \<Rightarrow> if email = [] then (Inl no_email, db)
         else (case link_or_create_user env fr provider (ic_sub c) email db of
           (Inl e, db1) \<Rightarrow> (Inl e, db1)
         | (Inr (u, t, role), db1) \<Rightarrow> open_session env fr t u role ''auth.social.ok'' (who email provider) db1)))"

definition oidc :: "auth_env \<Rightarrow> fresh_ids \<Rightarrow> rstr \<Rightarrow> auth_db \<Rightarrow> (http_error + token_pair) \<times> auth_db" where
  "oidc env fr access_token db = (case ae_userinfo env access_token of
     None \<Rightarrow> (Inl Unauthorized, db)
   | Some info \<Rightarrow> (case get_str info ''email'' of
       None \<Rightarrow> (Inl no_email, db)
     | Some email \<Rightarrow> if email = [] then (Inl no_email, db)
         else (let detail = json_obj [(''email'', JString email)] in case user_by_email env email db of
           Some r \<Rightarrow> if \<not> u_active r then (Inl Unauthorized, db)
             else open_session env fr (u_tenant r) (u_id r) (u_role r) ''auth.oidc.ok'' detail
                 (drop_password env r ''auth.oidc.password_revoked_on_link'' detail db)
         | None \<Rightarrow> (case create_owner env fr email None db of
             Inl e \<Rightarrow> (Inl e, db)
           | Inr db1 \<Rightarrow> open_session env fr (f_tenant fr) (f_user fr) (str ''owner'') ''auth.oidc.ok'' detail
               (audit (Some (f_tenant fr)) (Some (f_user fr)) ''auth.oidc.signup'' detail db1)))))"

section \<open>The request gate and account deletion\<close>

record request_head =
  rh_authorization :: "rstr option"
  rh_query :: "rstr option"
  rh_path :: rstr
  rh_get :: bool

record tenant_ctx =
  cx_tenant :: uuid
  cx_user :: uuid
  cx_jti :: uuid

definition from_request :: "auth_env \<Rightarrow> request_head \<Rightarrow> auth_db \<Rightarrow> http_error + tenant_ctx" where
  "from_request env rh db = (case resolve_token (rh_authorization rh) (query_param (rh_query rh) (str ''token''))
       (is_sse_route (rh_path rh) (rh_get rh)) of
     None \<Rightarrow> Inl Unauthorized
   | Some (_, token) \<Rightarrow> (case verify_session (ae_decode env) (ae_now env) token (access_cfg env) of
       None \<Rightarrow> Inl Unauthorized
     | Some c \<Rightarrow> if session_is_live (ae_now env) (sc_tenant c) (sc_jti c) db
         then Inr \<lparr>cx_tenant = sc_tenant c, cx_user = sc_sub c, cx_jti = sc_jti c\<rparr> else Inl Unauthorized))"

text \<open>Every table cascades on its tenant and user; an audit row only forgets its user.\<close>

definition purge_tenant :: "uuid \<Rightarrow> auth_db \<Rightarrow> auth_db" where
  "purge_tenant t db = (let gone = u_id ` set (filter (\<lambda>r. u_tenant r = t) (users db)) in
     db\<lparr>tenants := filter (\<lambda>x. x \<noteq> t) (tenants db), users := filter (\<lambda>r. u_tenant r \<noteq> t) (users db),
       sessions := filter (\<lambda>r. s_tenant r \<noteq> t \<and> s_user r \<notin> gone) (sessions db),
       identities := filter (\<lambda>r. o_tenant r \<noteq> t \<and> o_user r \<notin> gone) (identities db),
       audits := map (\<lambda>r. if ad_user r \<in> Some ` gone then r\<lparr>ad_user := None\<rparr> else r) (filter (\<lambda>r. ad_tenant r \<noteq> t) (audits db))\<rparr>)"

definition delete_account :: "auth_env \<Rightarrow> tenant_ctx \<Rightarrow> auth_db \<Rightarrow> auth_db" where
  "delete_account env cx db = purge_tenant (cx_tenant cx)
     (audit (Some (cx_tenant cx)) (Some (cx_user cx)) ''account.delete'' (JObject [])
       (revoke_user_sessions (ae_now env) (cx_tenant cx) (cx_user cx) db))"

end
