(* ===== verification/Auth_Safety.thy ===== *)
theory Auth_Safety
  imports Auth
begin

text \<open>
  What the account routes guarantee, over every sequence of calls: the tables stay well formed, a revoked
  session never comes back, a magic link works once, linking a verified identity locks the old password
  out, what is audited is redacted; and where they do not: two refreshes can both rotate one token, a
  refresh in flight outlives a revocation, a magic link opens a deactivated account.
\<close>

section \<open>Calls and runs\<close>

datatype auth_op =
    Signup rstr rstr
  | Login rstr rstr
  | Refresh rstr
  | Logout rstr
  | Magic_Request rstr rstr
  | Magic_Verify rstr
  | Social_Login rstr rstr
  | Oidc_Login rstr
  | Delete_Account request_head

record auth_call =
  ca_env :: auth_env
  ca_fresh :: fresh_ids
  ca_op :: auth_op

definition auth_step :: "auth_call \<Rightarrow> auth_db \<Rightarrow> auth_db" where
  "auth_step c db = (let env = ca_env c; fr = ca_fresh c in case ca_op c of
     Signup e p \<Rightarrow> snd (signup env fr e p db)
   | Login e p \<Rightarrow> snd (login env fr e p db)
   | Refresh t \<Rightarrow> snd (refresh env fr t db)
   | Logout t \<Rightarrow> logout env t db
   | Magic_Request e t \<Rightarrow> magic_request env e t db
   | Magic_Verify t \<Rightarrow> snd (magic_verify env fr t db)
   | Social_Login p t \<Rightarrow> snd (social env fr p t db)
   | Oidc_Login t \<Rightarrow> snd (oidc env fr t db)
   | Delete_Account rh \<Rightarrow> (case from_request env rh db of Inl _ \<Rightarrow> db | Inr cx \<Rightarrow> delete_account env cx db))"

definition auth_run :: "auth_call list \<Rightarrow> auth_db \<Rightarrow> auth_db" where
  "auth_run cs db = fold auth_step cs db"

text \<open>
  What every route preserves: a property kept by the statements the routes are made of. \<open>ok\<close> restricts
  the environments and fresh ids of the calls, \<open>ok_token\<close> the fresh magic tokens.
\<close>

definition call_ok :: "(auth_env \<Rightarrow> fresh_ids \<Rightarrow> bool) \<Rightarrow> (rstr \<Rightarrow> bool) \<Rightarrow> auth_call \<Rightarrow> bool" where
  "call_ok ok ok_token c \<longleftrightarrow> ok (ca_env c) (ca_fresh c) \<and> (case ca_op c of Magic_Request _ token \<Rightarrow> ok_token token | _ \<Rightarrow> True)"

locale auth_preserved =
  fixes P :: "auth_db \<Rightarrow> bool" and ok :: "auth_env \<Rightarrow> fresh_ids \<Rightarrow> bool" and ok_token :: "rstr \<Rightarrow> bool"
  assumes keep_session: "P db \<Longrightarrow> ok env fr \<Longrightarrow> j \<in> {f_access fr, f_refresh fr} \<Longrightarrow> insert_session t u j e db = Inr db' \<Longrightarrow> P db'"
    and keep_owner: "P db \<Longrightarrow> ok env fr \<Longrightarrow> create_owner env fr email h db = Inr db' \<Longrightarrow> P db'"
    and keep_revoke: "P db \<Longrightarrow> P (revoke_where Q now db)"
    and keep_hash: "P db \<Longrightarrow> P (set_hash t u h db)"
    and keep_identity: "P db \<Longrightarrow> P (add_identity t u provider subject email db)"
    and keep_audit: "P db \<Longrightarrow> P (audit ot ou action detail db)"
    and keep_put: "P db \<Longrightarrow> ok_token token \<Longrightarrow> P (db\<lparr>magic := magic_put now token t u ttl (magic db)\<rparr>)"
    and keep_take: "P db \<Longrightarrow> P (db\<lparr>magic := snd (magic_consume now token (magic db))\<rparr>)"
    and keep_purge: "P db \<Longrightarrow> P (purge_tenant t db)"
begin

lemma keep_issue: "P db \<Longrightarrow> ok env fr \<Longrightarrow> P (snd (issue_pair env fr t u role db))"
  unfolding issue_pair_def Let_def by (auto split: option.splits sum.splits intro: keep_session)

lemma keep_open: "P db \<Longrightarrow> ok env fr \<Longrightarrow> P (snd (open_session env fr t u role action detail db))"
  using keep_issue [of db env fr t u role] by (auto simp: open_session_def intro: keep_audit split: prod.splits sum.splits)

lemma keep_drop: "P db \<Longrightarrow> P (drop_password env r action detail db)"
  by (simp add: drop_password_def keep_audit revoke_user_sessions_def keep_revoke keep_hash)

lemma keep_rehash: "P db \<Longrightarrow> P (rehash env r pw db)"
  by (auto simp: rehash_def keep_hash split: option.splits)

lemma keep_link: "P db \<Longrightarrow> ok env fr \<Longrightarrow> P (snd (link_or_create_user env fr provider subject email db))"
  by (auto simp: link_or_create_user_def keep_audit keep_drop keep_identity keep_owner split: option.splits sum.splits)

lemma keep_signup: "P db \<Longrightarrow> ok env fr \<Longrightarrow> P (snd (signup env fr e p db))"
  by (auto simp: signup_def split: option.splits sum.splits intro!: keep_open intro: keep_owner)

lemma keep_login: "P db \<Longrightarrow> ok env fr \<Longrightarrow> P (snd (login env fr e p db))"
  by (auto simp: login_def Let_def keep_audit keep_rehash split: option.splits intro!: keep_open)

lemma keep_refresh: "P db \<Longrightarrow> ok env fr \<Longrightarrow> P (snd (refresh env fr t db))"
  by (auto simp: refresh_def refresh_rotate_def revoke_session_def keep_revoke split: option.splits intro!: keep_open)

lemma keep_verify:
  assumes "P db" "ok env fr"
  shows "P (snd (magic_verify env fr token db))"
proof -
  obtain r m where "magic_consume (ae_now env) token (magic db) = (r, m)"
    by fastforce
  then show ?thesis
    using keep_take [OF assms(1), of "ae_now env" token] keep_open [OF _ assms(2)] by (auto simp: magic_verify_def split: option.splits)
qed

lemma keep_then_open:
  assumes "P (snd l)" "ok env fr"
  shows "P (snd (case l of (Inl e, db1) \<Rightarrow> (Inl e, db1)
    | (Inr (u, t, role), db1) \<Rightarrow> open_session env fr t u role action detail db1))"
  using assms by (auto split: prod.splits sum.splits intro: keep_open)

lemma keep_social: "P db \<Longrightarrow> ok env fr \<Longrightarrow> P (snd (social env fr p t db))"
  by (auto simp: social_def split: option.split intro!: keep_then_open keep_link)

lemma keep_oidc: "P db \<Longrightarrow> ok env fr \<Longrightarrow> P (snd (oidc env fr t db))"
  by (auto simp: oidc_def Let_def keep_drop split: option.splits sum.splits intro!: keep_open keep_audit intro: keep_owner)

lemma keep_step: "P db \<Longrightarrow> call_ok ok ok_token c \<Longrightarrow> P (auth_step c db)"
  unfolding call_ok_def
  by (auto simp: auth_step_def Let_def keep_signup keep_login keep_refresh keep_verify keep_social keep_oidc logout_def
      magic_request_def issue_magic_def delete_account_def revoke_user_sessions_def keep_audit keep_revoke keep_put keep_purge
      split: auth_op.splits option.splits sum.splits)

lemma keep_run: "P db \<Longrightarrow> list_all (call_ok ok ok_token) cs \<Longrightarrow> P (auth_run cs db)"
  unfolding auth_run_def by (induction cs arbitrary: db) (simp_all add: keep_step)

end

section \<open>Frame rules\<close>

lemma insert_session_row:
  "insert_session t u j e db = Inr db' \<longleftrightarrow> t \<in> set (tenants db) \<and> has_user u db
     \<and> \<not> list_ex (\<lambda>r. s_tenant r = t \<and> s_jti r = j) (sessions db)
     \<and> db' = db\<lparr>sessions := sessions db @ [\<lparr>s_tenant = t, s_user = u, s_jti = j, s_expires = e, s_revoked = None\<rparr>]\<rparr>"
  by (auto simp: insert_session_def)

lemma create_owner_row:
  "create_owner env fr email h db = Inr db' \<longleftrightarrow> f_tenant fr \<notin> set (tenants db) \<and> \<not> has_user (f_user fr) db
     \<and> \<not> list_ex (\<lambda>r. ae_email_unique env (u_email r) email) (users db)
     \<and> db' = db\<lparr>tenants := tenants db @ [f_tenant fr], users := users db @
       [\<lparr>u_id = f_user fr, u_tenant = f_tenant fr, u_email = email, u_hash = h, u_role = str ''owner'', u_active = True\<rparr>]\<rparr>"
  by (auto simp: create_owner_def)

lemma audit_frame [simp]:
  "tenants (audit ot ou a d db) = tenants db" "users (audit ot ou a d db) = users db" "sessions (audit ot ou a d db) = sessions db"
  "identities (audit ot ou a d db) = identities db" "magic (audit ot ou a d db) = magic db"
  by (simp_all add: audit_def split: option.splits)

lemma set_hash_frame [simp]:
  "tenants (set_hash t u h db) = tenants db" "sessions (set_hash t u h db) = sessions db"
  "magic (set_hash t u h db) = magic db" "audits (set_hash t u h db) = audits db"
  by (simp_all add: set_hash_def)

lemma add_identity_frame [simp]:
  "tenants (add_identity t u p s e db) = tenants db" "users (add_identity t u p s e db) = users db"
  "sessions (add_identity t u p s e db) = sessions db" "magic (add_identity t u p s e db) = magic db"
  "audits (add_identity t u p s e db) = audits db"
  by (simp_all add: add_identity_def)

lemma revoke_where_frame [simp]:
  "tenants (revoke_where Q now db) = tenants db" "users (revoke_where Q now db) = users db"
  "magic (revoke_where Q now db) = magic db" "audits (revoke_where Q now db) = audits db"
  by (simp_all add: revoke_where_def)

lemma revoke_keys:
  "list_all (\<lambda>r. P (s_tenant r) (s_jti r)) (sessions (revoke_where Q now db)) \<longleftrightarrow> list_all (\<lambda>r. P (s_tenant r) (s_jti r)) (sessions db)"
proof -
  have "list_all (\<lambda>r. P (s_tenant r) (s_jti r)) (map (\<lambda>r. if Q r \<and> s_revoked r = None then r\<lparr>s_revoked := Some now\<rparr> else r) rs)
      \<longleftrightarrow> list_all (\<lambda>r. P (s_tenant r) (s_jti r)) rs" for rs
    by (induction rs) simp_all
  then show ?thesis
    by (simp add: revoke_where_def)
qed

lemma has_user_cong: "users db' = users db \<Longrightarrow> has_user u db' = has_user u db"
  by (simp add: has_user_def)

section \<open>What runs preserve\<close>

definition dead_session :: "uuid \<Rightarrow> uuid \<Rightarrow> auth_db \<Rightarrow> bool" where
  "dead_session t jti db \<longleftrightarrow> list_all (\<lambda>r. s_tenant r = t \<and> s_jti r = jti \<longrightarrow> s_revoked r \<noteq> None) (sessions db)"

interpretation dead: auth_preserved "dead_session t jti" "\<lambda>env fr. jti \<notin> {f_access fr, f_refresh fr}" "\<lambda>_. True" for t jti
  by unfold_locales
    (auto simp: dead_session_def list_all_iff insert_session_row create_owner_row revoke_where_def purge_tenant_def Let_def)

definition spent :: "rstr \<Rightarrow> auth_db \<Rightarrow> bool" where
  "spent token db \<longleftrightarrow> magic db token = None"

interpretation spent: auth_preserved "spent token" "\<lambda>_ _. True" "\<lambda>t. t \<noteq> token" for token
  by unfold_locales
    (auto simp: spent_def insert_session_row create_owner_row purge_tenant_def Let_def magic_put_def magic_consume_def
      split: option.splits)

definition audits_clean :: "auth_db \<Rightarrow> bool" where
  "audits_clean db \<longleftrightarrow> list_all (\<lambda>r. secret_free (ad_detail r)) (audits db)"

interpretation clean_audits: auth_preserved audits_clean "\<lambda>_ _. True" "\<lambda>_. True"
proof
  show "audits_clean db \<Longrightarrow> audits_clean (audit ot ou action detail db)" for ot ou action detail db
    by (auto simp: audits_clean_def audit_def redact_secret_free split: option.splits)
qed (auto simp: audits_clean_def insert_session_row create_owner_row purge_tenant_def Let_def list_all_iff)

text \<open>The tables: keys are unique, every row's tenant and user exist, no two users have the same address.\<close>

definition auth_ok :: "(rstr \<Rightarrow> rstr \<Rightarrow> bool) \<Rightarrow> auth_db \<Rightarrow> bool" where
  "auth_ok uq db \<longleftrightarrow> distinct (tenants db) \<and> distinct (map u_id (users db)) \<and> u_tenant ` set (users db) \<subseteq> set (tenants db)
     \<and> sorted_wrt (\<lambda>r r'. \<not> uq (u_email r) (u_email r')) (users db)
     \<and> distinct (map (\<lambda>r. (s_tenant r, s_jti r)) (sessions db))
     \<and> s_tenant ` set (sessions db) \<subseteq> set (tenants db) \<and> s_user ` set (sessions db) \<subseteq> u_id ` set (users db)"

lemma auth_ok_update:
  assumes "auth_ok uq db" "map (\<lambda>r. (u_id r, u_tenant r, u_email r)) (users db') = map (\<lambda>r. (u_id r, u_tenant r, u_email r)) (users db)"
    and "map (\<lambda>r. (s_tenant r, s_jti r, s_user r)) (sessions db') = map (\<lambda>r. (s_tenant r, s_jti r, s_user r)) (sessions db)"
    and "tenants db' = tenants db"
  shows "auth_ok uq db'"
proof -
  have u: "map u_id (users db') = map u_id (users db)" "map u_tenant (users db') = map u_tenant (users db)"
    "map u_email (users db') = map u_email (users db)"
    using arg_cong [OF assms(2), of "map fst"] arg_cong [OF assms(2), of "map (fst \<circ> snd)"]
      arg_cong [OF assms(2), of "map (snd \<circ> snd)"] by (simp_all add: comp_def)
  have s: "map (\<lambda>r. (s_tenant r, s_jti r)) (sessions db') = map (\<lambda>r. (s_tenant r, s_jti r)) (sessions db)"
    "map s_user (sessions db') = map s_user (sessions db)" "map s_tenant (sessions db') = map s_tenant (sessions db)"
    using arg_cong [OF assms(3), of "map (\<lambda>(a, b, c). (a, b))"] arg_cong [OF assms(3), of "map (snd \<circ> snd)"]
      arg_cong [OF assms(3), of "map fst"] by (simp_all add: comp_def)
  have emails: "sorted_wrt (\<lambda>r r'. \<not> uq (u_email r) (u_email r')) us \<longleftrightarrow> sorted_wrt (\<lambda>e e'. \<not> uq e e') (map u_email us)" for us
    by (simp add: sorted_wrt_map)
  show ?thesis
    using assms(1) unfolding auth_ok_def set_map [symmetric] u s assms(4) emails .
qed

lemma auth_ok_purge:
  assumes "auth_ok uq db"
  shows "auth_ok uq (purge_tenant t db)"
proof -
  have "s_user ` set (sessions (purge_tenant t db)) \<subseteq> u_id ` set (users (purge_tenant t db))"
  proof
    fix u
    assume "u \<in> s_user ` set (sessions (purge_tenant t db))"
    then have "u \<in> u_id ` set (users db)" "u \<notin> u_id ` {r \<in> set (users db). u_tenant r = t}"
      using assms by (auto simp: auth_ok_def purge_tenant_def Let_def)
    then show "u \<in> u_id ` set (users (purge_tenant t db))"
      by (auto simp: purge_tenant_def Let_def)
  qed
  then show ?thesis
    using assms by (auto simp: auth_ok_def purge_tenant_def Let_def distinct_map inj_on_def sorted_wrt_filter)
qed

lemma auth_ok_session: "auth_ok uq db \<Longrightarrow> insert_session t u j e db = Inr db' \<Longrightarrow> auth_ok uq db'"
  by (auto simp: auth_ok_def insert_session_row has_user_def list_ex_iff)

lemma auth_ok_owner: "auth_ok uq db \<Longrightarrow> ae_email_unique env = uq \<Longrightarrow> create_owner env fr email h db = Inr db' \<Longrightarrow> auth_ok uq db'"
  by (auto simp: auth_ok_def create_owner_row has_user_def list_ex_iff sorted_wrt_append)

interpretation tables: auth_preserved "auth_ok uq" "\<lambda>env _. ae_email_unique env = uq" "\<lambda>_. True" for uq
proof
  show "auth_ok uq db \<Longrightarrow> auth_ok uq (revoke_where Q now db)" for Q now db
    by (erule auth_ok_update) (auto simp: revoke_where_def)
  show "auth_ok uq db \<Longrightarrow> auth_ok uq (set_hash t u h db)" for t u h db
    by (erule auth_ok_update) (auto simp: set_hash_def)
qed (auto intro: auth_ok_purge auth_ok_session auth_ok_owner elim: auth_ok_update)

section \<open>Properties\<close>

definition no_accounts :: auth_db where
  "no_accounts = \<lparr>tenants = [], users = [], sessions = [], identities = [], audits = [], magic = Map.empty\<rparr>"


lemma dead_not_live: "dead_session t jti db \<Longrightarrow> \<not> session_is_live now t jti db"
  by (auto simp: dead_session_def session_is_live_def live_row_def list_all_iff list_ex_iff)

lemma dead_run:
  assumes "dead_session t jti db" "list_all (\<lambda>c. jti \<notin> {f_access (ca_fresh c), f_refresh (ca_fresh c)}) cs"
  shows "dead_session t jti (auth_run cs db)"
proof -
  have "call_ok (\<lambda>env fr. jti \<notin> {f_access fr, f_refresh fr}) (\<lambda>_. True) c" if "jti \<notin> {f_access (ca_fresh c), f_refresh (ca_fresh c)}" for c
    using that by (cases "ca_op c") (simp_all add: call_ok_def)
  then show ?thesis
    using assms by (intro dead.keep_run) (auto simp: list_all_iff)
qed

lemma from_request_live: "from_request env rh db = Inr cx \<Longrightarrow> session_is_live (ae_now env) (cx_tenant cx) (cx_jti cx) db"
  by (auto simp: from_request_def split: option.splits prod.splits if_splits)

lemma refresh_check_Some:
  "refresh_check env token db = Some c \<longleftrightarrow> verify_session (ae_decode env) (ae_now env) token (refresh_cfg env) = Some c
     \<and> session_is_live (ae_now env) (sc_tenant c) (sc_jti c) db"
  by (auto simp: refresh_check_def split: option.splits)

text \<open>
  C25: a revoked session never comes back. Whatever calls follow, unless the very same id is drawn again, no
  request is accepted with the session's access token and its refresh token opens nothing.
\<close>

theorem revoked_for_good:
  assumes "dead_session t jti db" "list_all (\<lambda>c. jti \<notin> {f_access (ca_fresh c), f_refresh (ca_fresh c)}) cs"
    and "from_request env rh (auth_run cs db) = Inr cx" "refresh_check env' token (auth_run cs db) = Some c"
  shows "\<not> (cx_tenant cx = t \<and> cx_jti cx = jti) \<and> \<not> (sc_tenant c = t \<and> sc_jti c = jti)"
  using dead_not_live [OF dead_run [OF assms(1,2)]] from_request_live [OF assms(3)] assms(4)
  by (auto simp: refresh_check_Some)

lemma issue_pair_Inr:
  "issue_pair env fr t u role db = (Inr p, db') \<Longrightarrow> \<exists>e1 e2. db' = db\<lparr>sessions := sessions db @
     [\<lparr>s_tenant = t, s_user = u, s_jti = f_access fr, s_expires = e1, s_revoked = None\<rparr>,
      \<lparr>s_tenant = t, s_user = u, s_jti = f_refresh fr, s_expires = e2, s_revoked = None\<rparr>]\<rparr>
   \<and> f_access fr \<noteq> f_refresh fr \<and> list_all (\<lambda>r. s_tenant r = t \<longrightarrow> s_jti r \<notin> {f_access fr, f_refresh fr}) (sessions db)"
  by (auto simp: issue_pair_def Let_def insert_session_row list_ex_iff list_all_iff split: option.splits sum.splits)

lemma open_session_Inr:
  assumes "open_session env fr t u role action detail db = (Inr p, db')"
  shows "\<exists>e1 e2. sessions db' = sessions db @
     [\<lparr>s_tenant = t, s_user = u, s_jti = f_access fr, s_expires = e1, s_revoked = None\<rparr>,
      \<lparr>s_tenant = t, s_user = u, s_jti = f_refresh fr, s_expires = e2, s_revoked = None\<rparr>]
   \<and> list_all (\<lambda>r. s_tenant r = t \<longrightarrow> s_jti r \<notin> {f_access fr, f_refresh fr}) (sessions db) \<and> users db' = users db \<and> magic db' = magic db"
  using assms issue_pair_Inr [of env fr t u role db]
  by (fastforce simp: open_session_def split: prod.splits sum.splits)

text \<open>
  C26: a refresh rotates exactly its own session. The presented session is revoked and two new ones are
  opened for the same user; every other session is as it was, and presenting the token again is refused.
\<close>

theorem refresh_rotates:
  assumes "refresh env fr token db = (Inr p, db')"
  shows "\<exists>c e1 e2. verify_session (ae_decode env) (ae_now env) token (refresh_cfg env) = Some c
    \<and> sessions db' = map (\<lambda>r. if s_tenant r = sc_tenant c \<and> s_jti r = sc_jti c \<and> s_revoked r = None
          then r\<lparr>s_revoked := Some (ae_now env)\<rparr> else r) (sessions db)
        @ [\<lparr>s_tenant = sc_tenant c, s_user = sc_sub c, s_jti = f_access fr, s_expires = e1, s_revoked = None\<rparr>,
           \<lparr>s_tenant = sc_tenant c, s_user = sc_sub c, s_jti = f_refresh fr, s_expires = e2, s_revoked = None\<rparr>]
    \<and> refresh env fr' token db' = (Inl Unauthorized, db')"
proof -
  obtain c where c: "refresh_check env token db = Some c" and rot: "refresh_rotate env fr c db = (Inr p, db')"
    using assms by (auto simp: refresh_def split: option.splits)
  let ?old = "revoke_session (ae_now env) (sc_tenant c) (sc_jti c) db"
  have tok: "verify_session (ae_decode env) (ae_now env) token (refresh_cfg env) = Some c"
    and live: "list_ex (\<lambda>r. s_tenant r = sc_tenant c \<and> s_jti r = sc_jti c \<and> live_row (ae_now env) r) (sessions db)"
    using c by (auto simp: refresh_check_Some session_is_live_def)
  obtain e1 e2 where new: "sessions db' = sessions ?old @
      [\<lparr>s_tenant = sc_tenant c, s_user = sc_sub c, s_jti = f_access fr, s_expires = e1, s_revoked = None\<rparr>,
       \<lparr>s_tenant = sc_tenant c, s_user = sc_sub c, s_jti = f_refresh fr, s_expires = e2, s_revoked = None\<rparr>]"
    and fresh: "list_all (\<lambda>r. s_tenant r = sc_tenant c \<longrightarrow> s_jti r \<notin> {f_access fr, f_refresh fr}) (sessions ?old)"
    using open_session_Inr [OF rot [unfolded refresh_rotate_def]] by blast
  have "sc_jti c \<notin> {f_access fr, f_refresh fr}"
    using fresh live unfolding revoke_session_def revoke_keys [where P = "\<lambda>t j. t = sc_tenant c \<longrightarrow> j \<notin> {f_access fr, f_refresh fr}"]
    by (auto simp: list_all_iff list_ex_iff)
  moreover have "dead_session (sc_tenant c) (sc_jti c) ?old"
    by (auto simp: dead_session_def revoke_session_def revoke_where_def list_all_iff)
  ultimately have "dead_session (sc_tenant c) (sc_jti c) db'"
    by (auto simp: dead_session_def new)
  then have "refresh_check env token db' = None"
    using dead_not_live tok by (auto simp: refresh_check_def)
  then show ?thesis
    using tok new by (auto simp: refresh_def revoke_session_def revoke_where_def)
qed

text \<open>
  C0: two refreshes can rotate one token. The check and the rotation are separate transactions and the
  rotation does not look at how many rows it revoked, so two requests that both pass the check both
  get a new pair; the token is not one-time.
\<close>

definition ids_free :: "uuid \<Rightarrow> fresh_ids \<Rightarrow> auth_db \<Rightarrow> bool" where
  "ids_free t fr db \<longleftrightarrow> f_access fr \<noteq> f_refresh fr
     \<and> list_all (\<lambda>r. s_tenant r = t \<longrightarrow> s_jti r \<notin> {f_access fr, f_refresh fr}) (sessions db)"

definition signs :: "auth_env \<Rightarrow> bool" where
  "signs env \<longleftrightarrow> (\<forall>secret c. ae_encode env secret c \<noteq> None)"

lemma ids_free_revoke: "ids_free t fr (revoke_where Q now db) \<longleftrightarrow> ids_free t fr db"
  using revoke_keys [where P = "\<lambda>t' j. t' = t \<longrightarrow> j \<notin> {f_access fr, f_refresh fr}"] by (simp add: ids_free_def)

lemma open_session_ok:
  assumes "ids_free t fr db" "signs env" "t \<in> set (tenants db)" "has_user u db"
  shows "\<exists>p db'. open_session env fr t u role action detail db = (Inr p, db')"
proof -
  obtain a r where "ae_encode env (ae_secret env) (claims_new (ae_now env) u t role (f_access fr) (access_cfg env)) = Some a"
    "ae_encode env (ae_secret env) (claims_new (ae_now env) u t role (f_refresh fr) (refresh_cfg env)) = Some r"
    using assms(2) by (fastforce simp: signs_def)
  then show ?thesis
    using assms by (auto simp: open_session_def issue_pair_def Let_def insert_session_def has_user_def ids_free_def
        list_ex_iff list_all_iff)
qed

lemma has_user_sessions [simp]: "has_user u (db\<lparr>sessions := x\<rparr>) = has_user u db" "has_user u (revoke_where Q now db) = has_user u db"
  by (simp_all add: has_user_def)

lemma refresh_rotate_ok:
  assumes "ids_free (sc_tenant c) fr db" "signs env" "sc_tenant c \<in> set (tenants db)" "has_user (sc_sub c) db"
  shows "\<exists>p db'. refresh_rotate env fr c db = (Inr p, db')"
  unfolding refresh_rotate_def revoke_session_def by (rule open_session_ok) (simp_all add: ids_free_revoke assms)

lemma refresh_rotate_Inr:
  assumes "refresh_rotate env fr c db = (Inr p, db')"
  shows "tenants db' = tenants db \<and> has_user u db' = has_user u db
    \<and> (\<exists>e1 e2. sessions db' = sessions (revoke_session (ae_now env) (sc_tenant c) (sc_jti c) db) @
     [\<lparr>s_tenant = sc_tenant c, s_user = sc_sub c, s_jti = f_access fr, s_expires = e1, s_revoked = None\<rparr>,
      \<lparr>s_tenant = sc_tenant c, s_user = sc_sub c, s_jti = f_refresh fr, s_expires = e2, s_revoked = None\<rparr>])"
proof -
  have "tenants (snd (open_session env fr t u role a d db)) = tenants db" for t u role a d db
    by (auto simp: open_session_def issue_pair_def Let_def insert_session_row split: option.splits sum.splits prod.splits)
  from this [of "sc_tenant c" "sc_sub c" "sc_role c" "''auth.refresh.ok''" "JObject []" "revoke_session (ae_now env) (sc_tenant c) (sc_jti c) db"]
  have "tenants db' = tenants db"
    using assms by (simp add: refresh_rotate_def revoke_session_def)
  then show ?thesis
    using open_session_Inr [OF assms [unfolded refresh_rotate_def]] by (auto simp: has_user_def revoke_session_def)
qed

theorem refresh_race:
  assumes "refresh_check env token db = Some c" "refresh_check env2 token db = Some c"
    and "signs env" "signs env2" "sc_tenant c \<in> set (tenants db)" "has_user (sc_sub c) db"
    and "ids_free (sc_tenant c) fr db" "ids_free (sc_tenant c) fr2 db"
    and "{f_access fr, f_refresh fr} \<inter> {f_access fr2, f_refresh fr2} = {}"
  shows "\<exists>p db1 p2 db2. refresh_rotate env fr c db = (Inr p, db1) \<and> refresh_rotate env2 fr2 c db1 = (Inr p2, db2)"
proof -
  obtain p db1 where first: "refresh_rotate env fr c db = (Inr p, db1)"
    using refresh_rotate_ok assms(3,5,6,7) by blast
  note after = refresh_rotate_Inr [OF first]
  have "ids_free (sc_tenant c) fr2 (revoke_session (ae_now env) (sc_tenant c) (sc_jti c) db)"
    using assms(8) by (simp add: revoke_session_def ids_free_revoke)
  moreover obtain e1 e2 where "sessions db1 = sessions (revoke_session (ae_now env) (sc_tenant c) (sc_jti c) db) @
     [\<lparr>s_tenant = sc_tenant c, s_user = sc_sub c, s_jti = f_access fr, s_expires = e1, s_revoked = None\<rparr>,
      \<lparr>s_tenant = sc_tenant c, s_user = sc_sub c, s_jti = f_refresh fr, s_expires = e2, s_revoked = None\<rparr>]"
    using after by blast
  ultimately have "ids_free (sc_tenant c) fr2 db1"
    using assms(9) by (auto simp: ids_free_def)
  then show ?thesis
    using refresh_rotate_ok [of c fr2 db1 env2] assms(4,5,6) after first by fastforce
qed

text \<open>
  Further: a refresh in flight outlives a revocation. A refresh that passed its check before all sessions of
  the user were revoked (a logout, or the password drop of a federated sign-in) still opens two sessions
  afterwards, which are live.
\<close>

theorem refresh_outlives_revocation:
  assumes "refresh_check env token db = Some c" "signs env" "sc_tenant c \<in> set (tenants db)" "has_user (sc_sub c) db"
    and "ids_free (sc_tenant c) fr db" "0 < ae_access_ttl env"
  shows "\<exists>p db'. refresh_rotate env fr c (revoke_user_sessions now (sc_tenant c) (sc_sub c) db) = (Inr p, db')
    \<and> session_is_live (ae_now env) (sc_tenant c) (f_access fr) db'"
proof -
  let ?db = "revoke_user_sessions now (sc_tenant c) (sc_sub c) db"
  obtain p db' where run: "refresh_rotate env fr c ?db = (Inr p, db')"
    using refresh_rotate_ok [of c fr ?db env] assms(2-5) by (auto simp: revoke_user_sessions_def ids_free_revoke)
  have "session_is_live (ae_now env) t (f_access fr) (snd (open_session env fr t u role a d db))"
    if "open_session env fr t u role a d db = (Inr p, db')" for t u role a d db
    using that assms(6) by (auto simp: open_session_def issue_pair_def Let_def insert_session_row session_is_live_def live_row_def
        split: option.splits sum.splits prod.splits)
  then show ?thesis
    using run unfolding refresh_rotate_def by (metis snd_conv)
qed

text \<open>
  Further: logging out closes every session of the user and touches no one else's; the token only has to be
  well signed and unexpired, so a refresh token that was rotated away long ago still does it.
\<close>

theorem logout_everywhere:
  assumes "verify_session (ae_decode env) (ae_now env) token (refresh_cfg env) = Some c"
  shows "list_all (\<lambda>r. s_tenant r = sc_tenant c \<and> s_user r = sc_sub c \<longrightarrow> s_revoked r \<noteq> None) (sessions (logout env token db))
    \<and> list_all2 (\<lambda>r r'. s_tenant r = sc_tenant c \<and> s_user r = sc_sub c \<or> r' = r) (sessions db) (sessions (logout env token db))"
  using assms by (auto simp: logout_def revoke_user_sessions_def revoke_where_def list_all_iff list_all2_map2
      intro!: list_all2_refl)

text \<open>
  Further: a magic link works once. After a verification succeeds, or fails on an expired token, no further
  verification of the same token succeeds, whatever calls happen in between, unless the same random
  token is drawn again.
\<close>

theorem magic_single_use:
  assumes "list_all (\<lambda>c. \<forall>e. ca_op c \<noteq> Magic_Request e token) cs"
  shows "fst (magic_verify env2 fr2 token (auth_run cs (snd (magic_verify env fr token db)))) = Inl Unauthorized"
proof -
  have consumed: "spent token (db\<lparr>magic := snd (magic_consume (ae_now env) token (magic db))\<rparr>)"
    by (auto simp: spent_def magic_consume_def split: option.splits)
  have open_magic: "magic (snd (open_session env fr t u role a d db)) = magic db" for t u role a d db
    by (auto simp: open_session_def issue_pair_def Let_def insert_session_row split: option.splits sum.splits prod.splits)
  have "spent token (snd (magic_verify env fr token db))"
    using consumed by (auto simp: magic_verify_def spent_def open_magic split: prod.splits option.splits)
  moreover have "call_ok (\<lambda>_ _. True) (\<lambda>t. t \<noteq> token) c" if "\<forall>e. ca_op c \<noteq> Magic_Request e token" for c
    using that by (cases "ca_op c") (auto simp: call_ok_def)
  ultimately have "spent token (auth_run cs (snd (magic_verify env fr token db)))"
    using assms by (intro spent.keep_run) (auto simp: list_all_iff)
  then show ?thesis
    by (simp add: magic_verify_def magic_consume_def spent_def)
qed

text \<open>
  Further: what a login needs. A password login succeeds only for an active account with that address whose
  stored hash the password matches; every other combination gets the same answer, so the answer does not
  tell which addresses exist.
\<close>

theorem login_exact:
  "fst (login env fr email pw db) = (case user_by_email env email db of
     None \<Rightarrow> Inl Unauthorized
   | Some r \<Rightarrow> if u_active r \<and> (case u_hash r of None \<Rightarrow> False | Some h \<Rightarrow> ae_argon env h pw)
       then fst (issue_pair env fr (u_tenant r) (u_id r) (u_role r) (rehash env r pw db)) else Inl Unauthorized)"
  by (auto simp: login_def Let_def verify_password_def open_session_def split: option.split prod.split sum.split)

text \<open>
  Further: a deactivated account can be opened by a magic link. Password login refuses it, but requesting and
  verifying a magic link does not look at the flag.
\<close>

theorem magic_ignores_deactivation:
  assumes "user_by_email env email db = Some r" "\<not> u_active r" "u_tenant r \<in> set (tenants db)" "signs env"
    and "ids_free (u_tenant r) fr db"
  shows "fst (login env fr email pw db) = Inl Unauthorized
    \<and> (\<exists>p. fst (magic_verify env fr token (magic_request env email token db)) = Inr p)"
proof -
  have refused: "fst (login env fr email pw db) = Inl Unauthorized"
    using assms(1,2) by (simp add: login_def Let_def)
  have u: "has_user (u_id r) db"
    using assms(1) by (auto simp: user_by_email_def find_Some_iff has_user_def list_ex_iff)
  obtain m where m: "magic_verify env fr token (magic_request env email token db)
      = open_session env fr (u_tenant r) (u_id r) (str ''owner'') ''auth.magic.verify.ok'' (JObject []) (db\<lparr>magic := m\<rparr>)"
    using assms(1) by (simp add: magic_verify_def magic_request_def issue_magic_def magic_put_def magic_consume_def audit_def)
  have "\<exists>p db'. open_session env fr (u_tenant r) (u_id r) role a d (db\<lparr>magic := m\<rparr>) = (Inr p, db')" for role a d
    using assms(3-5) u by (intro open_session_ok) (simp_all add: ids_free_def has_user_def)
  then show ?thesis
    using refused unfolding m by (metis fst_conv)
qed

text \<open>
  Further: a verified identity locks the old password out. When a federated sign-in succeeds on an account that
  had a password, afterwards no password opens that address and every session the account had is revoked.
\<close>

lemma find_map_row:
  assumes "\<And>r. Q (f r) = Q r"
  shows "find Q (map f rs) = map_option f (find Q rs)"
  using assms by (induction rs) simp_all

lemma set_hash_by_email:
  assumes "user_by_email env email db = Some r"
  shows "user_by_email env email (set_hash (u_tenant r) (u_id r) h db) = Some (r\<lparr>u_hash := h\<rparr>)"
  using assms find_map_row [of "\<lambda>x. ae_email_eq env (u_email x) email" "\<lambda>x. if u_tenant x = u_tenant r \<and> u_id x = u_id r then x\<lparr>u_hash := h\<rparr> else x" "users db"]
  by (simp add: user_by_email_def set_hash_def)

theorem link_drops_password:
  assumes "social env fr provider id_token db = (Inr p, db')" "ae_id_token env provider id_token = Some c" "ic_email c = Some email"
    and "known_identity provider (ic_sub c) db = None" "user_by_email env email db = Some r" "u_hash r \<noteq> None"
    and "ae_email_eq env2 = ae_email_eq env"
  shows "fst (login env2 fr2 email pw db') = Inl Unauthorized
    \<and> list_all (\<lambda>x. s_tenant x = u_tenant r \<and> s_user x = u_id r \<longrightarrow> s_revoked x \<noteq> None) (take (length (sessions db)) (sessions db'))"
proof -
  let ?linked = "drop_password env r ''auth.social.password_revoked_on_link'' (who email provider)
      (add_identity (u_tenant r) (u_id r) provider (ic_sub c) email db)"
  obtain a d db1 where db1: "open_session env fr (u_tenant r) (u_id r) (u_role r) a d db1 = (Inr p, db')"
    "users db1 = users ?linked" "sessions db1 = sessions ?linked"
    using assms(1-5) by (auto simp: social_def link_or_create_user_def split: if_splits)
  obtain e1 e2 where new: "sessions db' = sessions ?linked @
     [\<lparr>s_tenant = u_tenant r, s_user = u_id r, s_jti = f_access fr, s_expires = e1, s_revoked = None\<rparr>,
      \<lparr>s_tenant = u_tenant r, s_user = u_id r, s_jti = f_refresh fr, s_expires = e2, s_revoked = None\<rparr>]" "users db' = users ?linked"
    using open_session_Inr [OF db1(1)] db1(2,3) by auto
  have linked: "?linked = audit (Some (u_tenant r)) (Some (u_id r)) ''auth.social.password_revoked_on_link'' (who email provider)
      (revoke_user_sessions (ae_now env) (u_tenant r) (u_id r)
        (set_hash (u_tenant r) (u_id r) None (add_identity (u_tenant r) (u_id r) provider (ic_sub c) email db)))"
    by (simp only: drop_password_def assms(6) if_False)
  have "user_by_email env email db' = Some (r\<lparr>u_hash := None\<rparr>)"
    using set_hash_by_email [of env email "add_identity (u_tenant r) (u_id r) provider (ic_sub c) email db" r None] assms(5) new(2)
    by (simp add: user_by_email_def linked revoke_user_sessions_def)
  then have "user_by_email env2 email db' = Some (r\<lparr>u_hash := None\<rparr>)"
    using assms(7) by (simp add: user_by_email_def)
  then have "fst (login env2 fr2 email pw db') = Inl Unauthorized"
    by (simp add: login_def Let_def verify_password_def)
  moreover have "length (sessions ?linked) = length (sessions db)"
    "list_all (\<lambda>x. s_tenant x = u_tenant r \<and> s_user x = u_id r \<longrightarrow> s_revoked x \<noteq> None) (sessions ?linked)"
    unfolding linked by (auto simp: revoke_user_sessions_def revoke_where_def list_all_iff)
  ultimately show ?thesis
    by (simp add: new(1))
qed

text \<open>
  Further: a deleted account is gone. Nothing of the tenant is left in any table, no token of the tenant is
  accepted, and the users and sessions of other tenants are as before.
\<close>

theorem delete_account_complete:
  assumes "auth_ok uq db" "from_request env rh db = Inr cx"
  shows "let db' = delete_account env cx db; t = cx_tenant cx in
    t \<notin> set (tenants db') \<and> list_all (\<lambda>r. u_tenant r \<noteq> t) (users db') \<and> list_all (\<lambda>r. s_tenant r \<noteq> t) (sessions db')
    \<and> list_all (\<lambda>r. o_tenant r \<noteq> t) (identities db') \<and> list_all (\<lambda>r. ad_tenant r \<noteq> t) (audits db')
    \<and> users db' = filter (\<lambda>r. u_tenant r \<noteq> t) (users db)
    \<and> (\<forall>cx2. from_request env2 rh2 db' = Inr cx2 \<longrightarrow> cx_tenant cx2 \<noteq> t)"
proof -
  let ?db' = "delete_account env cx db"
  have gone: "list_all (\<lambda>r. s_tenant r \<noteq> cx_tenant cx) (sessions ?db')"
    by (auto simp: delete_account_def purge_tenant_def Let_def list_all_iff)
  then have "\<not> session_is_live now (cx_tenant cx) jti ?db'" for now jti
    by (auto simp: session_is_live_def list_all_iff list_ex_iff)
  then have "from_request env2 rh2 ?db' = Inr cx2 \<longrightarrow> cx_tenant cx2 \<noteq> cx_tenant cx" for cx2
    using from_request_live by fastforce
  then show ?thesis
    using gone by (auto simp: Let_def delete_account_def purge_tenant_def list_all_iff revoke_user_sessions_def)
qed

text \<open>
  Further: what is audited is redacted, after every sequence of calls: no stored detail contains a word that
  looks like a secret or a value under a secret key.
\<close>

theorem audit_log_redacted: "list_all (\<lambda>r. secret_free (ad_detail r)) (audits (auth_run cs no_accounts))"
proof -
  have "call_ok (\<lambda>_ _. True) (\<lambda>_. True) c" for c
    by (cases "ca_op c") (simp_all add: call_ok_def)
  then have "audits_clean (auth_run cs no_accounts)"
    by (intro clean_audits.keep_run) (simp_all add: audits_clean_def no_accounts_def list_all_iff)
  then show ?thesis
    by (simp add: audits_clean_def)
qed

section \<open>Concrete accounts\<close>

text \<open>Tokens written out as numbers; passwords stored as they are; the identity provider believes the token.\<close>

fun plain_decode :: "nat list \<Rightarrow> rstr \<Rightarrow> session_claims option" where
  "plain_decode _ (sub # t # jti # aud) = Some \<lparr>sc_sub = word_of_nat sub, sc_tenant = word_of_nat t, sc_role = str ''owner'',
     sc_jti = word_of_nat jti, sc_iss = str ''qcue'', sc_aud = aud, sc_iat = 0, sc_exp = 2592000\<rparr>"
| "plain_decode _ _ = None"

definition plain_env :: "int \<Rightarrow> auth_env" where
  "plain_env now = \<lparr>ae_now = now, ae_secret = [], ae_access_ttl = 3600,
     ae_encode = (\<lambda>_ c. Some (unat (sc_sub c) # unat (sc_tenant c) # unat (sc_jti c) # sc_aud c)),
     ae_decode = plain_decode, ae_argon = (=), ae_hash = Some, ae_phc = (\<lambda>_. Some (19456, 2, 1)),
     ae_email_eq = (=), ae_email_unique = (=),
     ae_id_token = (\<lambda>_ token. Some \<lparr>ic_sub = str ''s'', ic_email = Some token, ic_iss = [], ic_aud = [], ic_exp = 0,
       ic_email_verified = Some True, ic_nonce = None\<rparr>),
     ae_userinfo = (\<lambda>token. Some (json_obj [(''email'', JString token), (''email_verified'', JBool False)]))\<rparr>"

definition fresh_of :: "nat \<Rightarrow> fresh_ids" where
  "fresh_of n = \<lparr>f_tenant = word_of_nat n, f_user = word_of_nat (n + 1), f_access = word_of_nat (n + 2), f_refresh = word_of_nat (n + 3)\<rparr>"

definition plain_db :: auth_db where
  "plain_db = snd (signup (plain_env 0) (fresh_of 10) (str ''a@b'') (str ''pw'') no_accounts)"

definition refresh_token :: rstr where
  "refresh_token = [11, 10, 13] @ str ''qcue-refresh''"

definition access_request :: request_head where
  "access_request = \<lparr>rh_authorization = Some (str ''Bearer '' @ [11, 10, 12] @ str ''qcue-app''), rh_query = None,
     rh_path = str ''/v1/captures'', rh_get = True\<rparr>"

lemmas auth_eval = plain_db_def signup_def login_def oidc_def refresh_check_def verify_session_def user_by_email_def create_owner_def
  open_session_def issue_pair_def insert_session_def has_user_def claims_new_def access_cfg_def refresh_cfg_def timestamp_def
  drop_password_def set_hash_def revoke_user_sessions_def revoke_where_def audit_def session_is_live_def live_row_def
  plain_env_def fresh_of_def no_accounts_def LEEWAY_def Let_def json_obj_def get_str_def trim_def trim_start_def trim_end_def is_ws_def str_def

text \<open>
  Further: the OIDC bridge does not look at \<open>email_verified\<close>. An answer that says the address is not verified
  still signs in to the account with that address and drops its password.
\<close>

theorem oidc_takes_unverified_email:
  "fst (oidc (plain_env 5) (fresh_of 20) (str ''a@b'') plain_db) =
     Inr \<lparr>access_jwt = [11, 10, 22] @ str ''qcue-app'', refresh_jwt = [11, 10, 23] @ str ''qcue-refresh'', expires_at = 3600000005\<rparr>
   \<and> map u_hash (users (snd (oidc (plain_env 5) (fresh_of 20) (str ''a@b'') plain_db))) = [None]"
  by (simp add: auth_eval)

section \<open>Witnesses\<close>

lemma plain_tables: "auth_ok (=) plain_db"
  using tables.keep_step [of "(=)" no_accounts "\<lparr>ca_env = plain_env 0, ca_fresh = fresh_of 10, ca_op = Signup (str ''a@b'') (str ''pw'')\<rparr>"]
  by (simp add: auth_step_def plain_db_def call_ok_def plain_env_def auth_ok_def no_accounts_def Let_def)


definition plain_claims :: session_claims where
  "plain_claims = \<lparr>sc_sub = 11, sc_tenant = 10, sc_role = str ''owner'', sc_jti = 13, sc_iss = str ''qcue'', sc_aud = str ''qcue-refresh'',
     sc_iat = 0, sc_exp = 2592000\<rparr>"

lemma plain_verify: "verify_session (ae_decode (plain_env 5)) (ae_now (plain_env 5)) refresh_token (refresh_cfg (plain_env 5)) = Some plain_claims"
  by (simp add: auth_eval refresh_token_def plain_claims_def)

lemma plain_check: "refresh_check (plain_env 5) refresh_token plain_db = Some plain_claims"
  by (simp add: auth_eval refresh_token_def plain_claims_def)

lemma plain_request: "from_request (plain_env 5) access_request plain_db = Inr \<lparr>cx_tenant = 10, cx_user = 11, cx_jti = 12\<rparr>"
  by (simp add: auth_eval from_request_def access_request_def resolve_token_def strip_prefix_str_def query_param_def)

lemma plain_facts:
  "signs (plain_env 5)" "10 \<in> set (tenants plain_db)" "has_user 11 plain_db" "ids_free 10 (fresh_of 20) plain_db" "ids_free 10 (fresh_of 30) plain_db"
  "dead_session 10 99 plain_db"
  by (simp_all add: signs_def ids_free_def dead_session_def auth_eval)

theorem revoked_for_good_witness: "\<not> (12 = (99 :: uuid) \<and> 10 = (10 :: uuid)) \<and> \<not> (sc_tenant plain_claims = 10 \<and> sc_jti plain_claims = 99)"
  using revoked_for_good [OF plain_facts(6), of "[]" "plain_env 5" access_request _ "plain_env 5" refresh_token plain_claims]
    plain_request plain_check by (simp add: auth_run_def)

lemma plain_refreshed: "\<exists>p. fst (refresh (plain_env 5) (fresh_of 20) refresh_token plain_db) = Inr p"
  using refresh_rotate_ok [of plain_claims "fresh_of 20" plain_db "plain_env 5"] plain_facts
  by (auto simp: refresh_def plain_check plain_claims_def)

theorem refresh_rotates_witness:
  "fst (refresh (plain_env 5) (fresh_of 30) refresh_token (snd (refresh (plain_env 5) (fresh_of 20) refresh_token plain_db))) = Inl Unauthorized"
proof -
  obtain p where "refresh (plain_env 5) (fresh_of 20) refresh_token plain_db = (Inr p, snd (refresh (plain_env 5) (fresh_of 20) refresh_token plain_db))"
    using plain_refreshed by (auto simp: prod_eq_iff)
  from refresh_rotates [OF this, of "fresh_of 30"] show ?thesis
    by auto
qed

theorem refresh_race_witness:
  "\<exists>p db1 p2 db2. refresh_rotate (plain_env 5) (fresh_of 20) plain_claims plain_db = (Inr p, db1)
     \<and> refresh_rotate (plain_env 5) (fresh_of 30) plain_claims db1 = (Inr p2, db2)"
  by (rule refresh_race [OF plain_check plain_check]) (use plain_facts in \<open>simp_all add: plain_claims_def\<close>, simp add: fresh_of_def)

theorem refresh_outlives_revocation_witness:
  "\<exists>p db'. refresh_rotate (plain_env 5) (fresh_of 20) plain_claims (revoke_user_sessions 4 (sc_tenant plain_claims) (sc_sub plain_claims) plain_db) = (Inr p, db')
    \<and> session_is_live (ae_now (plain_env 5)) (sc_tenant plain_claims) (f_access (fresh_of 20)) db'"
  by (rule refresh_outlives_revocation [OF plain_check]) (use plain_facts in \<open>simp_all add: plain_claims_def\<close>, simp add: plain_env_def)

theorem logout_everywhere_witness:
  "list_all2 (\<lambda>r r'. s_tenant r = sc_tenant plain_claims \<and> s_user r = sc_sub plain_claims \<or> r' = r)
     (sessions plain_db) (sessions (logout (plain_env 5) refresh_token plain_db))"
  using logout_everywhere [OF plain_verify] by blast

theorem magic_single_use_witness:
  "fst (magic_verify (plain_env 6) (fresh_of 30) (str ''mgc_1'')
     (snd (magic_verify (plain_env 5) (fresh_of 20) (str ''mgc_1'') (magic_request (plain_env 5) (str ''a@b'') (str ''mgc_1'') plain_db)))) = Inl Unauthorized"
  using magic_single_use [of "str ''mgc_1''" "[]"] by (simp add: auth_run_def)

definition inactive_db :: auth_db where
  "inactive_db = plain_db\<lparr>users := map (u_active_update (\<lambda>_. False)) (users plain_db)\<rparr>"

lemma plain_users: "users plain_db = [\<lparr>u_id = 11, u_tenant = 10, u_email = str ''a@b'', u_hash = Some (str ''pw''), u_role = str ''owner'', u_active = True\<rparr>]"
  by (simp add: auth_eval)

theorem magic_ignores_deactivation_witness:
  "\<exists>p. fst (magic_verify (plain_env 5) (fresh_of 20) (str ''mgc_1'') (magic_request (plain_env 5) (str ''a@b'') (str ''mgc_1'') inactive_db)) = Inr p"
proof -
  have "user_by_email (plain_env 5) (str ''a@b'') inactive_db =
      Some \<lparr>u_id = 11, u_tenant = 10, u_email = str ''a@b'', u_hash = Some (str ''pw''), u_role = str ''owner'', u_active = False\<rparr>"
    by (simp add: user_by_email_def inactive_db_def plain_users, simp add: plain_env_def)
  from magic_ignores_deactivation [OF this, where fr = "fresh_of 20"] show ?thesis
    using plain_facts by (simp add: inactive_db_def ids_free_def)
qed

theorem link_drops_password_witness:
  "fst (login (plain_env 6) (fresh_of 30) (str ''a@b'') (str ''pw'') (snd (social (plain_env 5) (fresh_of 20) (str ''google'') (str ''a@b'') plain_db))) = Inl Unauthorized"
proof -
  have known: "known_identity (str ''google'') (str ''s'') plain_db = None"
    by (simp add: known_identity_def auth_eval)
  have user: "user_by_email (plain_env 5) (str ''a@b'') plain_db =
      Some \<lparr>u_id = 11, u_tenant = 10, u_email = str ''a@b'', u_hash = Some (str ''pw''), u_role = str ''owner'', u_active = True\<rparr>"
    by (simp add: user_by_email_def plain_users, simp add: plain_env_def)
  have "\<exists>p. fst (social (plain_env 5) (fresh_of 20) (str ''google'') (str ''a@b'') plain_db) = Inr p"
    by (simp add: social_def link_or_create_user_def add_identity_def known_identity_def who_def auth_eval)
  then obtain p where "social (plain_env 5) (fresh_of 20) (str ''google'') (str ''a@b'') plain_db
      = (Inr p, snd (social (plain_env 5) (fresh_of 20) (str ''google'') (str ''a@b'') plain_db))"
    by (auto simp: prod_eq_iff)
  from link_drops_password [OF this _ _ _ user] known show ?thesis
    by (simp add: plain_env_def)
qed

theorem delete_account_complete_witness:
  "users (delete_account (plain_env 5) \<lparr>cx_tenant = 10, cx_user = 11, cx_jti = 12\<rparr> plain_db) = filter (\<lambda>r. u_tenant r \<noteq> 10) (users plain_db)"
  using delete_account_complete [OF plain_tables plain_request] by (simp add: Let_def)

end
