(* ===== verification/Rate_Limit.thy ===== *)
theory Rate_Limit
  imports Http_Error Utf8 "HOL-Library.AList" "HOL-Library.Word"
begin

unbundle bit_operations_syntax

text \<open>
  The middleware in front of every route (\<open>app-server/src/middleware.rs\<close>): the rate limiter keyed by
  client address, the origin check, the charset tag, the security headers and the address hash. Times are
  milliseconds of the monotonic clock; a difference of instants is 0 when the second is later, as in
  Rust. The request counter is a natural number: its 32 bits cannot overflow within a window of 60
  seconds. Shown: sweeping old buckets is never noticed, how many requests a client can send in any 60
  seconds, and how a client gets around the limit.
\<close>

section \<open>The limiter\<close>

definition BODY_LIMIT_BYTES :: nat where "BODY_LIMIT_BYTES = 256 * 1024"
definition WINDOW :: nat where "WINDOW = 60000"
definition GLOBAL_LIMIT :: nat where "GLOBAL_LIMIT = 120"
definition AUTH_LIMIT :: nat where "AUTH_LIMIT = 20"
definition MAX_TRACKED_KEYS :: nat where "MAX_TRACKED_KEYS = 100000"

record bucket =
  bk_count :: nat
  window_start :: nat

type_synonym limiter = "(rstr \<times> bucket) list"

definition bump :: "nat \<Rightarrow> bucket \<Rightarrow> bucket" where
  "bump now b = (let b' = (if WINDOW \<le> now - window_start b then \<lparr>bk_count = 0, window_start = now\<rparr> else b)
     in b'\<lparr>bk_count := bk_count b' + 1\<rparr>)"

definition fresh_bucket :: "nat \<Rightarrow> bucket" where
  "fresh_bucket now = \<lparr>bk_count = 0, window_start = now\<rparr>"

definition sweep :: "nat \<Rightarrow> limiter \<Rightarrow> limiter" where
  "sweep now m = (if MAX_TRACKED_KEYS \<le> length m then filter (\<lambda>(k, b). now - window_start b < WINDOW) m else m)"

definition bump_and_check :: "rstr \<Rightarrow> nat \<Rightarrow> nat \<Rightarrow> limiter \<Rightarrow> bool \<times> limiter" where
  "bump_and_check key limit now m = (let m' = sweep now m; b = bump now (the_or (fresh_bucket now) (map_of m' key))
     in (limit < bk_count b, AList.update key b m'))"

section \<open>The middleware\<close>

record request_info =
  ri_path :: rstr
  ri_peer :: "rstr option"
  ri_forwarded :: "rstr option"
  ri_origin :: "rstr option"

definition client_ip :: "rstr \<Rightarrow> request_info \<Rightarrow> rstr" where
  "client_ip trusted_proxy r = (let peer = the_or (str ''0.0.0.0'') (ri_peer r) in
     case ri_forwarded r of
       Some xff \<Rightarrow> if trusted_proxy \<noteq> [] \<and> peer = trusted_proxy then trim (hd (split_char 44 xff)) else peer
     | None \<Rightarrow> peer)"

definition rate_limit :: "rstr \<Rightarrow> nat \<Rightarrow> request_info \<Rightarrow> limiter \<Rightarrow> bool \<times> limiter" where
  "rate_limit trusted_proxy now r m = (
     if ri_path r = str ''/healthz'' \<or> ri_path r = str ''/readyz'' then (False, m)
     else (let is_auth = starts_with (ri_path r) (str ''/v1/auth/''); ip = client_ip trusted_proxy r in
       bump_and_check ((if is_auth then str ''auth:'' else str ''glob:'') @ ip) (if is_auth then AUTH_LIMIT else GLOBAL_LIMIT) now m))"

definition limited_response :: "nat \<times> (rstr \<times> rstr) list \<times> rstr" where
  "limited_response = (429, [(str ''retry-after'', str ''60''), (str ''content-type'', str ''application/json'')],
     str ''{\"error\":{\"code\":-32001,\"message\":\"rate limited\"}}'')"

text \<open>Whether a request passes the origin check.\<close>

definition origin_allowed :: "rstr list \<Rightarrow> request_info \<Rightarrow> bool" where
  "origin_allowed app_origins r \<longleftrightarrow> (case ri_origin r of None \<Rightarrow> True | Some o' \<Rightarrow> o' \<in> set app_origins)"

definition json_charset :: "rstr option \<Rightarrow> rstr option" where
  "json_charset content_type = (if content_type = Some (str ''application/json'')
     then Some (str ''application/json; charset=utf-8'') else content_type)"

definition security_headers :: "(rstr \<times> rstr) list" where
  "security_headers = map (\<lambda>(k, v). (str k, str v))
     [(''x-content-type-options'', ''nosniff''), (''x-frame-options'', ''DENY''),
      (''strict-transport-security'', ''max-age=31536000; includeSubDomains''), (''referrer-policy'', ''no-referrer''),
      (''content-security-policy'', ''default-src ''@[CHR 0x27]@''none''@[CHR 0x27]@''; frame-ancestors ''@[CHR 0x27]@''none''@[CHR 0x27])]"

text \<open>The 64-bit FNV-1a constants in a 128-bit word, printed as 32 hexadecimal digits.\<close>

definition fnv_step :: "128 word \<Rightarrow> nat \<Rightarrow> 128 word" where
  "fnv_step h b = (h XOR word_of_nat b) * 0x100000001b3"

definition hex_lower :: "nat \<Rightarrow> rchar" where
  "hex_lower n = (if n < 10 then 48 + n else 87 + n)"

definition ip_hash :: "rstr \<Rightarrow> rstr" where
  "ip_hash ip = (let h = foldl fnv_step 0xcbf29ce484222325 (as_bytes ip)
     in map (\<lambda>i. hex_lower (unat (drop_bit (4 * i) h AND 15))) (rev [0..<32]))"

section \<open>A run of the limiter\<close>

type_synonym limited_hit = "rstr \<times> nat \<times> nat"

fun limiter_run :: "limited_hit list \<Rightarrow> limiter \<Rightarrow> bool list" where
  "limiter_run [] m = []"
| "limiter_run ((key, limit, now) # hits) m = (let (over, m') = bump_and_check key limit now m in over # limiter_run hits m')"

text \<open>The reference: a bucket for every key, none ever dropped.\<close>

fun reference_run :: "limited_hit list \<Rightarrow> (rstr \<rightharpoonup> bucket) \<Rightarrow> bool list" where
  "reference_run [] f = []"
| "reference_run ((key, limit, now) # hits) f = (let b = bump now (the_or (fresh_bucket now) (f key))
     in (limit < bk_count b) # reference_run hits (f(key \<mapsto> b)))"

definition times_ok :: "nat \<Rightarrow> limited_hit list \<Rightarrow> bool" where
  "times_ok t hits \<longleftrightarrow> sorted (t # map (snd \<circ> snd) hits)"

text \<open>A bucket that is missing on one side has run out on the other.\<close>

definition same_bucket :: "nat \<Rightarrow> bucket option \<Rightarrow> bucket option \<Rightarrow> bool" where
  "same_bucket now x y \<longleftrightarrow> x = y \<or> x = None \<and> (case y of None \<Rightarrow> True | Some b \<Rightarrow> WINDOW \<le> now - window_start b)"

definition same_limits :: "nat \<Rightarrow> limiter \<Rightarrow> (rstr \<rightharpoonup> bucket) \<Rightarrow> bool" where
  "same_limits now m f \<longleftrightarrow> distinct (map fst m) \<and> (\<forall>k. same_bucket now (map_of m k) (f k))"

lemma same_bucket_later: "same_bucket now x y \<Longrightarrow> now \<le> now' \<Longrightarrow> same_bucket now' x y"
  by (auto simp: same_bucket_def split: option.splits)

lemma same_bucket_bump: "same_bucket now x y \<Longrightarrow> bump now (the_or (fresh_bucket now) x) = bump now (the_or (fresh_bucket now) y)"
  by (cases y) (auto simp: same_bucket_def bump_def fresh_bucket_def Let_def)

lemma map_of_filter_distinct:
  "distinct (map fst m) \<Longrightarrow> map_of (filter (\<lambda>(k, b). P b) m) k = (case map_of m k of Some b \<Rightarrow> if P b then Some b else None | None \<Rightarrow> None)"
proof (induction m)
  case (Cons a m)
  obtain k' b where a: "a = (k', b)"
    by fastforce
  have m: "distinct (map fst m)" "k' = k \<Longrightarrow> map_of m k = None"
    using Cons.prems a by (auto simp: map_of_eq_None_iff)
  show ?case
    using Cons.IH [OF m(1)] m(2) by (cases "k' = k") (simp_all add: a)
qed simp

lemma same_limits_sweep:
  assumes "same_limits now m f"
  shows "same_limits now (sweep now m) f"
proof (cases "MAX_TRACKED_KEYS \<le> length m")
  case True
  let ?m = "filter (\<lambda>(k, b). now - window_start b < WINDOW) m"
  have d: "distinct (map fst m)" and same: "same_bucket now (map_of m k) (f k)" for k
    using assms by (simp_all add: same_limits_def)
  have "same_bucket now (map_of ?m k) (f k)" for k
    using same [of k] unfolding map_of_filter_distinct [OF d]
    by (cases "map_of m k"; cases "f k") (auto simp: same_bucket_def not_less)
  moreover have "distinct (map fst ?m)"
    using d by (rule distinct_map_filter)
  ultimately show ?thesis
    using True by (simp add: same_limits_def sweep_def)
qed (use assms in \<open>simp add: sweep_def\<close>)

lemma same_limits_update:
  assumes "same_limits now m f"
  shows "same_limits now (AList.update k b m) (f(k \<mapsto> b))"
  using assms by (auto simp: same_limits_def same_bucket_def update_conv' distinct_update)

lemma run_reference:
  assumes "same_limits now m f" "times_ok now hits"
  shows "limiter_run hits m = reference_run hits f"
  using assms
proof (induction hits arbitrary: now m f)
  case (Cons h hits)
  obtain key limit t where h: "h = (key, limit, t)"
    by (cases h) auto
  have t: "now \<le> t" "times_ok t hits"
    using Cons.prems(2) by (auto simp: times_ok_def h)
  let ?m = "sweep t m"
  let ?b = "bump t (the_or (fresh_bucket t) (map_of ?m key))"
  have "same_limits t m f"
    using Cons.prems(1) t(1) same_bucket_later by (fastforce simp: same_limits_def)
  then have swept: "same_limits t ?m f"
    by (rule same_limits_sweep)
  then have b: "bump t (the_or (fresh_bucket t) (f key)) = ?b"
    using same_bucket_bump [of t "map_of ?m key" "f key"] by (simp add: same_limits_def)
  have "same_limits t (AList.update key ?b ?m) (f(key \<mapsto> ?b))"
    using swept by (rule same_limits_update)
  then show ?case
    using Cons.IH [OF _ t(2)] by (simp add: h bump_and_check_def Let_def b fun_upd_def)
qed simp

text \<open>
  The requests of one key that are let through in the window that starts at \<open>first\<close>; at most one reset
  falls into it, and each phase lets at most the limit through.
\<close>

definition admitted :: "rstr \<Rightarrow> nat \<Rightarrow> limited_hit list \<Rightarrow> bool list \<Rightarrow> nat" where
  "admitted k first hits answers = length (filter (\<lambda>((key, _, now), over). key = k \<and> first \<le> now \<and> \<not> over) (zip hits answers))"

lemma admitted_simps [simp]:
  "admitted k first [] as = 0"
  "admitted k first ((key, l, now) # hits) (over # as) = (if key = k \<and> first \<le> now \<and> \<not> over then 1 else 0) + admitted k first hits as"
  by (simp_all add: admitted_def)

definition limit_of :: "rstr \<Rightarrow> nat \<Rightarrow> limited_hit list \<Rightarrow> bool" where
  "limit_of k limit hits \<longleftrightarrow> list_all (\<lambda>(key, l, now). key = k \<longrightarrow> l = limit) hits"

lemma limit_of_Cons [simp]: "limit_of k limit ((key, l, now) # hits) \<longleftrightarrow> (key = k \<longrightarrow> l = limit) \<and> limit_of k limit hits"
  by (simp add: limit_of_def)

lemma admitted_no_reset:
  assumes "f k = Some b" "limit_of k limit hits" "\<forall>(key, l, t)\<in>set hits. key = k \<longrightarrow> t - window_start b < WINDOW"
  shows "admitted k first hits (reference_run hits f) \<le> limit - bk_count b"
  using assms
proof (induction hits arbitrary: f b)
  case (Cons h hits)
  obtain key l t where h: "h = (key, l, t)"
    by (cases h) auto
  show ?case
  proof (cases "key = k")
    case True
    then have b': "bump t b = b\<lparr>bk_count := bk_count b + 1\<rparr>"
      using Cons.prems(3) by (simp add: bump_def h)
    then show ?thesis
      using Cons.IH [of "f(key \<mapsto> bump t b)" "bump t b"] Cons.prems by (auto simp: h Let_def True fun_upd_def)
  next
    case False
    then show ?thesis
      using Cons.IH [of "f(key \<mapsto> bump t (the_or (fresh_bucket t) (f key)))" b] Cons.prems by (simp add: h Let_def fun_upd_def)
  qed
qed simp

lemma admitted_one_reset:
  assumes "times_ok now hits" "limit_of k limit hits" "\<forall>(key, l, t)\<in>set hits. key = k \<longrightarrow> first \<le> t \<and> t < first + WINDOW"
  shows "admitted k first hits (reference_run hits f) \<le> (limit - (case f k of None \<Rightarrow> 0 | Some b \<Rightarrow> bk_count b)) + limit"
  using assms
proof (induction hits arbitrary: f now)
  case (Cons h hits)
  obtain key l t where h: "h = (key, l, t)"
    by (cases h) auto
  have t: "times_ok t hits"
    using Cons.prems(1) by (auto simp: times_ok_def h)
  let ?b = "bump t (the_or (fresh_bucket t) (f key))"
  note IH = Cons.IH [OF t, of "f(key \<mapsto> ?b)"]
  show ?case
  proof (cases "key = k \<and> bk_count ?b = 1 \<and> window_start ?b = t")
    case True
    have "\<forall>(key, l, s)\<in>set hits. key = k \<longrightarrow> s - window_start ?b < WINDOW"
      using Cons.prems(3) True by (auto simp: h less_diff_conv2)
    then have "admitted k first hits (reference_run hits (f(key \<mapsto> ?b))) \<le> limit - 1"
      using admitted_no_reset [of "f(key \<mapsto> ?b)" k ?b limit hits first] Cons.prems(2) True [THEN conjunct1]
        True [THEN conjunct2, THEN conjunct1] by (simp add: h fun_upd_def)
    then show ?thesis
      using True Cons.prems(2) by (auto simp: h Let_def fun_upd_def)
  next
    case False
    then have b: "key = k \<Longrightarrow> (case f k of None \<Rightarrow> False | Some b \<Rightarrow> bk_count ?b = bk_count b + 1)"
      by (cases "f k") (auto simp: bump_def fresh_bucket_def Let_def split: if_splits)
    have rest: "admitted k first hits (reference_run hits (f(key \<mapsto> ?b))) \<le> (limit - (case (f(key \<mapsto> ?b)) k of None \<Rightarrow> 0 | Some b \<Rightarrow> bk_count b)) + limit"
      using IH Cons.prems by (simp add: h fun_upd_def)
    show ?thesis
    proof (cases "key = k")
      case True
      then obtain b0 where "f k = Some b0" "bk_count ?b = bk_count b0 + 1"
        using b by (auto split: option.splits)
      then show ?thesis
        using rest Cons.prems(2) True by (auto simp: h Let_def fun_upd_def)
    qed (use rest in \<open>simp add: h Let_def fun_upd_def\<close>)
  qed
qed simp

lemma admitted_window:
  assumes "times_ok now hits" "limit_of k limit hits" "\<forall>(key, l, t)\<in>set hits. t < first + WINDOW"
  shows "admitted k first hits (reference_run hits f) \<le> 2 * limit"
  using assms
proof (induction hits arbitrary: f now)
  case (Cons h hits)
  obtain key l t where h: "h = (key, l, t)"
    by (cases h) auto
  show ?case
  proof (cases "first \<le> t")
    case True
    then have "\<forall>(key, l, s)\<in>set (h # hits). key = k \<longrightarrow> first \<le> s \<and> s < first + WINDOW"
      using Cons.prems(1,3) by (fastforce simp: times_ok_def h)
    then show ?thesis
      using admitted_one_reset [OF Cons.prems(1,2), of first f] by simp
  next
    case False
    have "times_ok t hits"
      using Cons.prems(1) by (auto simp: times_ok_def h)
    then show ?thesis
      using Cons.IH [of t] Cons.prems(2,3) False by (simp add: h Let_def)
  qed
qed simp

section \<open>Properties\<close>

lemma same_limits_empty: "same_limits now [] Map.empty"
  by (simp add: same_limits_def same_bucket_def)

text \<open>
  C27: sweeping is never noticed. However many addresses come and however often the table is swept, the
  limiter answers every request as one that keeps a bucket for every address for ever.
\<close>

theorem limiter_refines_reference:
  assumes "times_ok 0 hits"
  shows "limiter_run hits [] = reference_run hits Map.empty"
  using same_limits_empty assms by (rule run_reference)

text \<open>
  C28: at any moment, at most twice the limit of a key's requests of the last 60 seconds were let through,
  whatever other requests came in between.
\<close>

theorem limiter_bounds_rate:
  assumes "times_ok 0 hits" "limit_of k limit hits" "\<forall>(key, l, t)\<in>set hits. t < first + WINDOW"
  shows "admitted k first hits (limiter_run hits []) \<le> 2 * limit"
  using admitted_window [OF assms, of Map.empty] run_reference [OF same_limits_empty assms(1)] by simp

definition burst :: "nat \<Rightarrow> nat \<Rightarrow> nat \<Rightarrow> limited_hit list" where
  "burst limit n t = replicate n (str ''auth:a'', limit, t)"

lemma admitted_burst:
  assumes "f (str ''auth:a'') = Some b" "t - window_start b < WINDOW" "bk_count b + n \<le> limit" "first \<le> t"
  shows "admitted (str ''auth:a'') first (burst limit n t @ hits) (reference_run (burst limit n t @ hits) f)
    = n + admitted (str ''auth:a'') first hits (reference_run hits (f(str ''auth:a'' \<mapsto> b\<lparr>bk_count := bk_count b + n\<rparr>)))"
  using assms
proof (induction n arbitrary: f b)
  case 0
  then show ?case
    by (simp add: burst_def fun_upd_idem)
next
  case (Suc n)
  have b': "bump t b = b\<lparr>bk_count := bk_count b + 1\<rparr>"
    using Suc.prems(2) by (simp add: bump_def)
  show ?case
    using Suc.IH [of "f(str ''auth:a'' \<mapsto> bump t b)" "bump t b"] Suc.prems by (simp add: burst_def b' Let_def fun_upd_def cong: if_cong)
qed

text \<open>
  Further: the bound is reached. After one request at the start of a window, a client that sends the rest of the
  limit just before the window ends and the limit again right after is let through every time: almost
  twice the limit in two milliseconds, where the comment says the limit per 60 seconds.
\<close>

theorem limit_doubled:
  assumes "0 < limit"
  shows "admitted (str ''auth:a'') 59999 (burst limit 1 0 @ burst limit (limit - 1) 59999 @ burst limit limit 60000)
     (limiter_run (burst limit 1 0 @ burst limit (limit - 1) 59999 @ burst limit limit 60000) []) = 2 * limit - 1"
proof -
  let ?k = "str ''auth:a''"
  have "times_ok 0 (burst limit 1 0 @ burst limit (limit - 1) 59999 @ burst limit limit 60000)"
    by (auto simp: times_ok_def burst_def sorted_append)
  then have run: "limiter_run (burst limit 1 0 @ burst limit (limit - 1) 59999 @ burst limit limit 60000) []
      = reference_run (burst limit 1 0 @ burst limit (limit - 1) 59999 @ burst limit limit 60000) Map.empty"
    by (rule run_reference [OF same_limits_empty])
  have first: "admitted ?k 59999 (burst limit 1 0 @ hits) (reference_run (burst limit 1 0 @ hits) Map.empty)
      = admitted ?k 59999 hits (reference_run hits [?k \<mapsto> \<lparr>bk_count = 1, window_start = 0\<rparr>])" for hits
    by (simp add: burst_def bump_def fresh_bucket_def Let_def WINDOW_def)
  have before: "admitted ?k 59999 (burst limit (limit - 1) 59999 @ hits) (reference_run (burst limit (limit - 1) 59999 @ hits)
        [?k \<mapsto> \<lparr>bk_count = 1, window_start = 0\<rparr>])
      = limit - 1 + admitted ?k 59999 hits (reference_run hits [?k \<mapsto> \<lparr>bk_count = limit, window_start = 0\<rparr>])" for hits
    using admitted_burst [of "[?k \<mapsto> \<lparr>bk_count = 1, window_start = 0\<rparr>]" "\<lparr>bk_count = 1, window_start = 0\<rparr>" 59999 "limit - 1" limit 59999 hits] assms
    by (simp add: WINDOW_def)
  obtain n where n: "limit = Suc n"
    using assms by (cases limit) simp_all
  have "admitted ?k 59999 (burst limit limit 60000) (reference_run (burst limit limit 60000) [?k \<mapsto> \<lparr>bk_count = limit, window_start = 0\<rparr>])
      = 1 + admitted ?k 59999 (burst limit n 60000 @ []) (reference_run (burst limit n 60000 @ []) [?k \<mapsto> \<lparr>bk_count = 1, window_start = 60000\<rparr>])"
    by (simp add: n burst_def bump_def Let_def WINDOW_def)
  also have "\<dots> = limit"
    by (subst admitted_burst [of _ "\<lparr>bk_count = 1, window_start = 60000\<rparr>"]) (simp_all add: n WINDOW_def)
  finally show ?thesis
    unfolding run first before using assms by simp
qed

definition limiter_after :: "limited_hit list \<Rightarrow> limiter \<Rightarrow> limiter" where
  "limiter_after hits m = fold (\<lambda>(key, limit, now) m. snd (bump_and_check key limit now m)) hits m"

text \<open>
  Further: the table can outgrow its cap. Requests from different addresses within one window are never swept:
  after one request of each of any number of addresses at one moment, every address has a bucket.
\<close>

theorem limiter_outgrows_cap:
  assumes "distinct keys"
  shows "length (limiter_after (map (\<lambda>k. (k, limit, now)) keys) []) = length keys"
proof -
  have "length (limiter_after (map (\<lambda>k. (k, limit, now)) keys) m) = length m + length keys
      \<and> list_all (\<lambda>(k, b). now - window_start b < WINDOW) (limiter_after (map (\<lambda>k. (k, limit, now)) keys) m)"
    if "distinct keys" "set keys \<inter> fst ` set m = {}" "list_all (\<lambda>(k, b). now - window_start b < WINDOW) m" for m
    using that
  proof (induction keys arbitrary: m)
    case (Cons k keys)
    have all: "sweep now m = m"
      using Cons.prems(3) by (simp add: sweep_def list_all_iff filter_id_conv case_prod_unfold)
    have absent: "map_of m k = None"
      using Cons.prems(2) by (simp add: map_of_eq_None_iff)
    then have "AList.update k b m = m @ [(k, b)]" for b
      by (induction m) (auto split: if_splits)
    then have "snd (bump_and_check k limit now m) = m @ [(k, \<lparr>bk_count = 1, window_start = now\<rparr>)]"
      using all absent by (simp add: bump_and_check_def bump_def fresh_bucket_def WINDOW_def)
    then show ?case
      using Cons.IH [of "m @ [(k, \<lparr>bk_count = 1, window_start = now\<rparr>)]"] Cons.prems
      by (auto simp: limiter_after_def WINDOW_def)
  qed (simp add: limiter_after_def)
  from this [of "[]"] show ?thesis
    using assms by simp
qed

lemma split_char_ne: "split_char c s \<noteq> []"
  by (induction s) (auto split: list.splits)

text \<open>
  Further: behind the trusted proxy a client chooses its own bucket. The first entry of the forwarded header
  counts, and a proxy that appends to the header leaves that entry to the client.
\<close>

theorem forwarded_first_entry:
  assumes "trusted_proxy \<noteq> []" "ri_peer r = Some trusted_proxy" "ri_forwarded r = Some (chosen @ [44] @ appended)" "44 \<notin> set chosen"
  shows "client_ip trusted_proxy r = trim chosen"
proof -
  have "hd (split_char 44 (c @ [44] @ s)) = c" if "44 \<notin> set c" for c s :: rstr
    using that by (induction c) (auto simp: split_char_ne split: list.splits)
  then show ?thesis
    using assms by (simp add: client_ip_def)
qed

text \<open>Further: an address hash is 32 lower-case hexadecimal digits, and health checks are never limited.\<close>

theorem ip_hash_shape:
  "length (ip_hash ip) = 32 \<and> list_all (\<lambda>c. 48 \<le> c \<and> c \<le> 57 \<or> 97 \<le> c \<and> c \<le> 102) (ip_hash ip)"
proof -
  have "unat (w AND 15) < 16" for w :: "128 word"
    using unat_mono [of "w AND 15" 16] word_and_le1 [of w 15] by (simp add: order_le_less_trans)
  moreover have "48 \<le> hex_lower n \<and> hex_lower n \<le> 57 \<or> 97 \<le> hex_lower n \<and> hex_lower n \<le> 102" if "n < 16" for n
    using that by (auto simp: hex_lower_def)
  ultimately show ?thesis
    by (simp add: ip_hash_def Let_def list_all_iff)
qed

section \<open>Witnesses\<close>

theorem limiter_refines_reference_witness: "limiter_run (burst 20 3 5) [] = reference_run (burst 20 3 5) Map.empty"
  by (rule limiter_refines_reference) (simp add: times_ok_def burst_def)

theorem limiter_bounds_rate_witness: "admitted (str ''auth:a'') 0 (burst AUTH_LIMIT 30 5) (limiter_run (burst AUTH_LIMIT 30 5) []) \<le> 2 * AUTH_LIMIT"
  by (rule limiter_bounds_rate) (simp_all add: times_ok_def burst_def limit_of_def list_all_iff WINDOW_def map_replicate_const)

theorem limit_doubled_witness:
  "admitted (str ''auth:a'') 59999 (burst AUTH_LIMIT 1 0 @ burst AUTH_LIMIT (AUTH_LIMIT - 1) 59999 @ burst AUTH_LIMIT AUTH_LIMIT 60000)
     (limiter_run (burst AUTH_LIMIT 1 0 @ burst AUTH_LIMIT (AUTH_LIMIT - 1) 59999 @ burst AUTH_LIMIT AUTH_LIMIT 60000) []) = 2 * AUTH_LIMIT - 1"
  by (rule limit_doubled) (simp add: AUTH_LIMIT_def)

theorem limiter_outgrows_cap_witness: "length (limiter_after (map (\<lambda>k. (k, 20, 7)) [str ''a'', str ''b'']) []) = length [str ''a'', str ''b'']"
  by (rule limiter_outgrows_cap) simp

theorem forwarded_first_entry_witness:
  "client_ip (str ''10.0.0.1'') \<lparr>ri_path = [], ri_peer = Some (str ''10.0.0.1''), ri_forwarded = Some (str ''1.2.3.4'' @ [44] @ str ''5.6.7.8''),
     ri_origin = None\<rparr> = trim (str ''1.2.3.4'')"
  by (rule forwarded_first_entry) (simp_all add: str_def)

end
