(* ===== verification/Price.thy ===== *)
theory Price
  imports Complex_Main Protocol
begin

text \<open>
  The price of one model call (\<open>app-server/src/dispatch/price.rs\<close>): the rate table, keyed by the
  prefix of the model id, and \<open>cost_micros\<close>. The source computes in \<open>f64\<close>; \<open>f64\<close> below is the IEEE
  rounding of a non-negative number to the nearest double, ties to even, applied after every
  operation, so that the model makes the rounding errors of the source. (No value here is subnormal
  or overflows: the smallest positive one is above \<open>1/100\<close>, the largest below \<open>2 ^ 72\<close>.)
\<close>

section \<open>Double-precision rounding of non-negative numbers\<close>

function ilog2 :: "int \<Rightarrow> int" where
  "ilog2 n = (if n \<le> 1 then 0 else 1 + ilog2 (n div 2))"
  by auto
termination by (relation "measure nat") auto

declare ilog2.simps [simp del]

definition pow2 :: "int \<Rightarrow> rat" where
  "pow2 e = (if 0 \<le> e then 2 ^ nat e else 1 / 2 ^ nat (- e))"

text \<open>The exponent of a positive number: the \<open>e\<close> with \<open>2^e \<le> x < 2^(e+1)\<close>.\<close>

definition exponent :: "rat \<Rightarrow> int" where
  "exponent x = (if 1 \<le> x then ilog2 \<lfloor>x\<rfloor>
     else (let n = \<lceil>1 / x\<rceil> in if n \<le> 1 then 0 else - (1 + ilog2 (n - 1))))"

definition round_even :: "rat \<Rightarrow> int" where
  "round_even y = (let n = \<lfloor>y\<rfloor>; r = y - of_int n in
     if r < 1 / 2 \<or> r = 1 / 2 \<and> even n then n else n + 1)"

definition f64 :: "rat \<Rightarrow> rat" where
  "f64 x = (if x \<le> 0 then 0 else let ulp = pow2 (exponent x - 52) in of_int (round_even (x / ulp)) * ulp)"

definition fadd :: "rat \<Rightarrow> rat \<Rightarrow> rat" where "fadd a b = f64 (a + b)"
definition fmul :: "rat \<Rightarrow> rat \<Rightarrow> rat" where "fmul a b = f64 (a * b)"

lemma ilog2_bounds:
  assumes "1 \<le> n"
  shows "0 \<le> ilog2 n \<and> 2 ^ nat (ilog2 n) \<le> n \<and> n < 2 ^ nat (ilog2 n + 1)"
  using assms
proof (induction n rule: ilog2.induct)
  case (1 n)
  show ?case
  proof (cases "n \<le> 1")
    case True
    then show ?thesis using 1(2) by (simp add: ilog2.simps)
  next
    case False
    let ?m = "n div 2" and ?l = "ilog2 (n div 2)"
    have IH: "0 \<le> ?l" "2 ^ nat ?l \<le> ?m" "?m < 2 ^ nat (?l + 1)"
      using 1(1) False by auto
    have l: "ilog2 n = 1 + ?l" using False by (subst ilog2.simps) simp
    have e: "nat (1 + ?l) = Suc (nat ?l)" "nat (1 + ?l + 1) = Suc (Suc (nat ?l))" "nat (?l + 1) = Suc (nat ?l)"
      using IH(1) by auto
    show ?thesis using IH unfolding l e by (auto simp: e)
  qed
qed

lemma pow2_pos [simp]: "0 < pow2 e"
  by (simp add: pow2_def)

lemma pow2_Suc: "pow2 (e + 1) = 2 * pow2 e"
proof (cases "0 \<le> e")
  case True
  then show ?thesis by (simp add: pow2_def nat_add_distrib)
next
  case False
  then have "nat (- e) = Suc (nat (- (e + 1)))" by auto
  then show ?thesis using False by (cases "e = -1") (auto simp: pow2_def)
qed

lemma pow2_minus: "pow2 (e - int k) = pow2 e / 2 ^ k"
proof (induction k)
  case (Suc k)
  have "pow2 (e - int k) = 2 * pow2 (e - int (Suc k))"
    using pow2_Suc [of "e - int (Suc k)"] by simp
  then show ?case using Suc by simp
qed simp

lemma exponent_bounds:
  assumes "0 < x"
  shows "pow2 (exponent x) \<le> x \<and> x < pow2 (exponent x + 1)"
proof (cases "1 \<le> x")
  case True
  then have f: "1 \<le> \<lfloor>x\<rfloor>" by simp
  note b = ilog2_bounds [OF f]
  have "2 ^ nat (ilog2 \<lfloor>x\<rfloor>) \<le> x" using b le_floor_iff [of "2 ^ nat (ilog2 \<lfloor>x\<rfloor>)" x] by simp
  moreover have "x < 2 ^ nat (ilog2 \<lfloor>x\<rfloor> + 1)"
    using b floor_less_iff [of x "2 ^ nat (ilog2 \<lfloor>x\<rfloor> + 1)"] by simp
  ultimately show ?thesis using True b by (simp add: exponent_def pow2_def)
next
  case False
  let ?n = "\<lceil>1 / x\<rceil>"
  have "1 < 1 / x" using False assms by (simp add: field_simps)
  then have n: "2 \<le> ?n" by linarith
  then have e: "exponent x = - (1 + ilog2 (?n - 1))" using False by (simp add: exponent_def)
  note b = ilog2_bounds [of "?n - 1"]
  define k where "k = nat (ilog2 (?n - 1))"
  have k: "ilog2 (?n - 1) = int k" using b n by (simp add: k_def)
  have lo: "2 ^ k \<le> ?n - 1" and hi: "?n - 1 < 2 ^ Suc k"
    using b n by (auto simp: k nat_add_distrib)
  have "(of_int (2 ^ k) :: rat) \<le> of_int (?n - 1)" using lo by (simp only: of_int_le_iff)
  moreover have "of_int (?n - 1) < 1 / x" using ceiling_correct [of "1 / x"] by simp
  ultimately have A: "2 ^ k < 1 / x" by simp
  have "?n \<le> 2 ^ Suc k" using hi by linarith
  then have "(of_int ?n :: rat) \<le> of_int (2 ^ Suc k)" by (simp only: of_int_le_iff)
  then have B: "1 / x \<le> 2 ^ Suc k" using le_of_int_ceiling [of "1 / x"] by (simp only: of_int_power of_int_numeral)
  have p1: "pow2 (- (1 + int k)) = 1 / 2 ^ Suc k" by (simp add: pow2_def nat_add_distrib)
  have p2: "pow2 (- (1 + int k) + 1) = 1 / 2 ^ k" by (cases k) (simp_all add: pow2_def nat_add_distrib)
  have "1 / 2 ^ Suc k \<le> x" using B assms by (simp add: field_simps)
  moreover have "x < 1 / 2 ^ k" using A assms by (simp add: field_simps)
  ultimately show ?thesis unfolding e k using p1 p2 by simp
qed

lemma round_even_error: "\<bar>of_int (round_even y) - y\<bar> \<le> 1 / 2"
  unfolding round_even_def Let_def using floor_correct [of y]
  by (auto split: if_splits simp: abs_le_iff)

lemma round_even_of_int [simp]: "round_even (of_int n) = n"
  by (simp add: round_even_def)

lemma f64_nonneg [simp]: "0 \<le> f64 x"
proof (cases "x \<le> 0")
  case False
  let ?y = "x / pow2 (exponent x - 52)"
  have "0 \<le> ?y" using False by (intro divide_nonneg_pos) auto
  then have "- 1 < (of_int (round_even ?y) :: rat)"
    using round_even_error [of ?y] unfolding abs_le_iff by linarith
  then have "0 \<le> round_even (x / pow2 (exponent x - 52))" by linarith
  then show ?thesis using False by (simp add: f64_def Let_def less_imp_le)
qed (simp add: f64_def)

text \<open>The relative error of one rounding is at most \<open>2^-53\<close>.\<close>

lemma f64_error:
  assumes "0 \<le> x"
  shows "\<bar>f64 x - x\<bar> \<le> x / 2 ^ 53"
proof (cases "x = 0")
  case False
  then have x: "0 < x" using assms by simp
  define ulp where "ulp = pow2 (exponent x - 52)"
  have u: "0 < ulp" by (simp add: ulp_def)
  have "ulp = pow2 (exponent x) / 2 ^ 52" unfolding ulp_def using pow2_minus [of _ 52] by simp
  then have ux: "ulp \<le> x / 2 ^ 52" using exponent_bounds [OF x] by (simp add: field_simps)
  have "\<bar>f64 x - x\<bar> = \<bar>of_int (round_even (x / ulp)) - x / ulp\<bar> * ulp"
    using u x by (simp add: f64_def ulp_def [symmetric] Let_def abs_mult_pos left_diff_distrib)
  also have "\<dots> \<le> 1 / 2 * ulp" using u round_even_error by (intro mult_right_mono) auto
  also have "\<dots> \<le> x / 2 ^ 53" using ux by simp
  finally show ?thesis .
qed (simp add: f64_def)

text \<open>Integers up to \<open>2^53\<close> are exact.\<close>

lemma f64_of_int:
  assumes "0 \<le> n" "n < 2 ^ 53"
  shows "f64 (of_int n) = of_int n"
proof (cases "n = 0")
  case False
  let ?x = "of_int n :: rat"
  have x: "0 < ?x" "1 \<le> n" using False assms by simp_all
  have e0: "exponent ?x = ilog2 n" using x by (simp add: exponent_def)
  note b = ilog2_bounds [OF x(2)]
  have "ilog2 n < 53"
  proof (rule ccontr)
    assume "\<not> ilog2 n < 53"
    then have "(2 :: int) ^ 53 \<le> 2 ^ nat (ilog2 n)" by (intro power_increasing) auto
    then show False using b assms by linarith
  qed
  then have k: "ilog2 n = 52 - int (nat (52 - ilog2 n))" by simp
  define k where "k = nat (52 - ilog2 n)"
  note k = k [folded k_def]
  have "pow2 (exponent ?x - 52) = 1 / 2 ^ k"
    unfolding e0 k using pow2_minus [of 0 k] by (simp add: pow2_def)
  moreover have "?x * 2 ^ k = of_int (n * 2 ^ k)" by simp
  ultimately have "f64 ?x = of_int (n * 2 ^ k) / 2 ^ k" using x by (simp add: f64_def Let_def del: of_int_mult)
  then show ?thesis by simp
qed (simp add: f64_def)

lemma f64_0 [simp]: "f64 0 = 0"
  by (simp add: f64_def)

lemma f64_1 [simp]: "f64 1 = 1"
  using f64_of_int [of 1] by simp

lemma f64_numeral [simp]: "(numeral n :: int) < 2 ^ 53 \<Longrightarrow> f64 (numeral n) = numeral n"
  using f64_of_int [of "numeral n"] by simp

section \<open>The rate table\<close>

text \<open>Dollars per million tokens, which is micros per token: (input, output). The first prefix wins.\<close>

definition rates :: "rstr \<Rightarrow> rat \<times> rat" where
  "rates m =
     (if starts_with m (str ''deepseek-reasoner'') then (0.55, 2.19)
      else if starts_with m (str ''deepseek'') then (0.28, 1.10)
      else if starts_with m (str ''gpt-5'') then (1.25, 10)
      else if starts_with m (str ''gpt-4o-mini'') then (0.15, 0.60)
      else if starts_with m (str ''gpt-4o'') then (2.50, 10)
      else if starts_with m (str ''o4'') \<or> starts_with m (str ''o3'') \<or> starts_with m (str ''o1'') then (1.10, 4.40)
      else if starts_with m (str ''claude-opus'') then (5, 25)
      else if starts_with m (str ''claude-fable'') \<or> starts_with m (str ''claude-mythos'') then (10, 50)
      else if starts_with m (str ''claude-sonnet'') then (3, 15)
      else if starts_with m (str ''claude-haiku'') then (1, 5)
      else if starts_with m (str ''gemini-3-flash'') then (0.30, 2.50)
      else if starts_with m (str ''gemini'') then (1.25, 10)
      else (1, 3))"

definition tokens_f64 :: "u64 \<Rightarrow> rat" where
  "tokens_f64 n = f64 (of_int (uint n))"

definition micros_f64 :: "rat \<Rightarrow> rat \<Rightarrow> canonical_usage \<Rightarrow> rat" where
  "micros_f64 i out u =
     fadd (fadd (fadd (fadd (fmul (tokens_f64 (u_input u)) (f64 i)) (fmul (tokens_f64 (u_output u)) (f64 out)))
       (fmul (fmul (tokens_f64 (u_cache_read u)) (f64 i)) (f64 0.1)))
       (fmul (fmul (tokens_f64 (u_cache_write u)) (f64 i)) (f64 1.25)))
       (fmul (tokens_f64 (u_reasoning u)) (f64 out))"

text \<open>\<open>f64::round\<close> rounds halves away from zero, which is \<open>round\<close> on what is not negative; the cast to
  \<open>i64\<close> saturates.\<close>

definition cost_micros :: "rstr \<Rightarrow> canonical_usage \<Rightarrow> i64" where
  "cost_micros model u = (let (i, out) = rates model in sat_i64 (round (micros_f64 i out u)))"

text \<open>The list price, computed exactly.\<close>

definition exact_price :: "rat \<Rightarrow> rat \<Rightarrow> canonical_usage \<Rightarrow> rat" where
  "exact_price i out u = of_int (uint (u_input u)) * i + of_int (uint (u_output u)) * out
     + of_int (uint (u_cache_read u)) * i * 0.1 + of_int (uint (u_cache_write u)) * i * 1.25
     + of_int (uint (u_reasoning u)) * out"

section \<open>Error analysis\<close>

text \<open>\<open>y\<close> approximates \<open>x\<close> after \<open>n\<close> roundings.\<close>

definition approx :: "nat \<Rightarrow> rat \<Rightarrow> rat \<Rightarrow> bool" where
  "approx n x y \<longleftrightarrow> 0 \<le> x \<and> x * (1 - 1 / 2 ^ 53) ^ n \<le> y \<and> y \<le> x * (1 + 1 / 2 ^ 53) ^ n"

lemma approx_exact: "0 \<le> x \<Longrightarrow> approx 0 x x"
  by (simp add: approx_def)

lemma approx_nonneg: "approx n x y \<Longrightarrow> 0 \<le> y"
  by (auto simp: approx_def intro: order_trans [rotated])

lemma approx_f64:
  assumes "approx n x y"
  shows "approx (Suc n) x (f64 y)"
proof -
  have y: "0 \<le> y" using assms by (rule approx_nonneg)
  have "y * (1 - 1 / 2 ^ 53) \<le> f64 y" "f64 y \<le> y * (1 + 1 / 2 ^ 53)"
    using f64_error [OF y] unfolding abs_le_iff by (simp_all add: algebra_simps)
  moreover have "x * (1 - 1 / 2 ^ 53) ^ n * (1 - 1 / 2 ^ 53) \<le> y * (1 - 1 / 2 ^ 53)"
    and "y * (1 + 1 / 2 ^ 53) \<le> x * (1 + 1 / 2 ^ 53) ^ n * (1 + 1 / 2 ^ 53)"
    using assms by (auto simp: approx_def intro!: mult_right_mono)
  moreover have "0 \<le> x" using assms by (simp add: approx_def)
  ultimately show ?thesis unfolding approx_def power_Suc2 mult.assoc [symmetric]
    by (blast intro: order_trans)
qed

lemma approx_mono:
  assumes "approx n x y" "n \<le> m"
  shows "approx m x y"
proof -
  have "(1 - 1 / 2 ^ 53 :: rat) ^ m \<le> (1 - 1 / 2 ^ 53) ^ n" using assms(2) by (intro power_decreasing) auto
  moreover have "(1 + 1 / 2 ^ 53 :: rat) ^ n \<le> (1 + 1 / 2 ^ 53) ^ m" using assms(2) by (intro power_increasing) auto
  ultimately show ?thesis using assms(1) unfolding approx_def
    by (meson mult_left_mono order_trans)
qed

lemma approx_mult:
  assumes "approx n x y" "approx m x' y'"
  shows "approx (n + m) (x * x') (y * y')"
proof -
  let ?l = "1 - 1 / 2 ^ 53 :: rat" and ?h = "1 + 1 / 2 ^ 53 :: rat"
  have "0 \<le> x" "0 \<le> x'" "0 \<le> y" "0 \<le> y'" using assms approx_nonneg by (auto simp: approx_def)
  then have "x * ?l ^ n * (x' * ?l ^ m) \<le> y * y'" "y * y' \<le> x * ?h ^ n * (x' * ?h ^ m)" "0 \<le> x * x'"
    using assms unfolding approx_def by (auto intro!: mult_mono)
  then show ?thesis by (simp add: approx_def power_add ac_simps)
qed

lemma approx_add:
  assumes "approx n x y" "approx n x' y'"
  shows "approx n (x + x') (y + y')"
  using assms by (simp add: approx_def distrib_right add_mono)

lemmas approx_fmul = approx_f64 [OF approx_mult, folded fmul_def]
lemmas approx_fadd = approx_f64 [OF approx_add, folded fadd_def]
lemmas approx_const = approx_f64 [OF approx_exact]

lemma approx_tokens: "approx 1 (of_int (uint n)) (tokens_f64 n)"
  unfolding tokens_f64_def One_nat_def by (rule approx_const) (simp only: of_int_0_le_iff unsigned_greater_eq)

lemma micros_approx:
  assumes "0 \<le> i" "0 \<le> out"
  shows "approx 9 (exact_price i out u) (micros_f64 i out u)"
proof -
  have I: "approx 3 (of_int (uint n) * i) (fmul (tokens_f64 n) (f64 i))" for n :: u64
    using approx_fmul [OF approx_tokens approx_const [OF assms(1)]] by (simp add: numeral_3_eq_3)
  have P: "approx 3 (of_int (uint n) * out) (fmul (tokens_f64 n) (f64 out))" for n :: u64
    using approx_fmul [OF approx_tokens approx_const [OF assms(2)]] by (simp add: numeral_3_eq_3)
  have C: "approx 5 (of_int (uint n) * i * c) (fmul (fmul (tokens_f64 n) (f64 i)) (f64 c))" if "0 \<le> c" for n :: u64 and c
    using approx_fmul [OF I approx_const [OF that]] by (simp add: eval_nat_numeral)
  have 1: "approx 4 (of_int (uint (u_input u)) * i + of_int (uint (u_output u)) * out)
      (fadd (fmul (tokens_f64 (u_input u)) (f64 i)) (fmul (tokens_f64 (u_output u)) (f64 out)))"
    using approx_fadd [OF I P] by (simp add: eval_nat_numeral)
  note 2 = approx_fadd [OF approx_mono [OF 1, of 5] C [of "0.1"]]
  note 3 = approx_fadd [OF 2 approx_mono [OF C [of "1.25"], of "Suc 5"]]
  note 4 = approx_fadd [OF 3 approx_mono [OF P, of "Suc (Suc 5)"]]
  show ?thesis
    using 4 [of "u_cache_read u" "u_cache_write u" "u_reasoning u"] unfolding exact_price_def micros_f64_def
    by (auto intro: approx_mono)
qed

lemma rates_nonneg: "rates m = (i, out) \<Longrightarrow> 0 \<le> i \<and> 0 \<le> out"
  by (auto simp: rates_def split: if_splits)

text \<open>Further: the billed cost of a call that fits the ledger column is the exact list price up to the
  rounding to a whole micro and a relative error of \<open>2^-49\<close> from double-precision arithmetic.\<close>

theorem price_accurate:
  assumes "rates model = (i, out)"
    and "exact_price i out u \<le> 2 ^ 62"
  shows "\<bar>of_int (cost_micros model u) - exact_price i out u\<bar> \<le> 1 / 2 + exact_price i out u / 2 ^ 49"
proof -
  let ?x = "exact_price i out u" and ?y = "micros_f64 i out u"
  have A: "approx 9 ?x ?y" using micros_approx rates_nonneg [OF assms(1)] by simp
  have x: "0 \<le> ?x" using A by (simp add: approx_def)
  have "(1 - 1 / 2 ^ 49 :: rat) \<le> (1 - 1 / 2 ^ 53) ^ 9" "(1 + 1 / 2 ^ 53 :: rat) ^ 9 \<le> 1 + 1 / 2 ^ 49"
    by (simp_all add: power_numeral_reduce field_simps)
  then have "?x * (1 - 1 / 2 ^ 49) \<le> ?y" "?y \<le> ?x * (1 + 1 / 2 ^ 49)"
    using A x unfolding approx_def by (meson mult_left_mono order_trans)+
  then have e: "\<bar>?y - ?x\<bar> \<le> ?x / 2 ^ 49" unfolding abs_le_iff by (simp add: algebra_simps)
  have y: "0 \<le> ?y" "?y \<le> 2 ^ 63 - 2" using approx_nonneg [OF A] e assms(2) unfolding abs_le_iff by simp_all
  have r: "\<bar>of_int (round ?y) - ?y\<bar> \<le> 1 / 2" by (rule of_int_round_abs_le)
  have "of_int (round ?y) \<le> (2 ^ 63 - 1 :: rat)" "(- 1 :: rat) < of_int (round ?y)"
    using r y unfolding abs_le_iff by linarith+
  then have "(of_int (round ?y) :: rat) \<le> of_int (2 ^ 63 - 1)" "(of_int (- 1) :: rat) < of_int (round ?y)" by simp_all
  then have "round ?y \<le> 2 ^ 63 - 1" "- 1 < round ?y" unfolding of_int_le_iff of_int_less_iff by blast+
  then have "in_i64 (round ?y)" by (simp add: in_i64_def i64_max_def i64_min_def)
  then have "cost_micros model u = round ?y" using assms(1) by (simp add: cost_micros_def)
  then show ?thesis using r e unfolding abs_le_iff by simp
qed

theorem price_accurate_witness:
  "\<bar>of_int (cost_micros (str ''gpt-4o-mini'') \<lparr>u_input = 1000000, u_output = 0, u_cache_read = 0, u_cache_write = 0, u_reasoning = 0\<rparr>)
    - exact_price 0.15 0.60 \<lparr>u_input = 1000000, u_output = 0, u_cache_read = 0, u_cache_write = 0, u_reasoning = 0\<rparr>\<bar>
    \<le> 1 / 2 + exact_price 0.15 0.60 \<lparr>u_input = 1000000, u_output = 0, u_cache_read = 0, u_cache_write = 0, u_reasoning = 0\<rparr> / 2 ^ 49"
proof (rule price_accurate)
  show "rates (str ''gpt-4o-mini'') = (0.15, 0.60)" by code_simp
  show "exact_price 0.15 0.60 \<lparr>u_input = 1000000, u_output = 0, u_cache_read = 0, u_cache_write = 0, u_reasoning = 0\<rparr> \<le> 2 ^ 62"
    by (simp add: exact_price_def)
qed

end
