(* ===== verification/Cost.thy ===== *)
theory Cost
  imports Price Transport Http_Error
begin

text \<open>
  The cost ledger: the repository (\<open>store/src/cost_repo.rs\<close>), the per-request guard of the wiki
  engine (\<open>wiki/src/cost.rs\<close>), the accrual of a provider turn (\<open>accrue_turn_cost\<close> in
  \<open>app-server/src/dispatch/mod.rs\<close>) and the two routes that read the ledger
  (\<open>app-server/src/activity/routes.rs\<close>).

  The state holds the columns of \<open>tenants\<close>, \<open>users\<close> and \<open>cost_ledger\<close> these statements read and
  write, each table a list of rows in scan order. Row-level security is the test of the row's tenant.
  A \<open>BIGINT\<close> sum out of range is an error of the statement, and an error rolls the transaction back.
  Parameters (\<open>cost_env\<close>): the current date, the text of a uuid, and the \<open>CITEXT\<close> comparison. The
  unique \<open>slug\<close> of a tenant is the text of its id wherever a row is inserted, so it adds nothing to the
  primary key.
\<close>

section \<open>Tables\<close>

record cost_usage =
  cs_input :: i64
  cs_output :: i64
  cs_cache_read :: i64
  cs_cache_write :: i64
  cs_reasoning :: i64

datatype ledger_scope = Tenant_Scope | User_Scope

record ledger_row =
  lg_tenant :: uuid
  lg_scope :: ledger_scope
  lg_user :: "uuid option"
  lg_day :: int
  lg_usage :: cost_usage
  lg_micros :: i64
  lg_breakdown :: "(rstr \<times> i64) list"

record cost_user =
  cu_id :: uuid
  cu_tenant :: uuid
  cu_email :: rstr
  cu_cap :: i64

record cost_db =
  cd_tenants :: "(uuid \<times> i64) list"
  cd_users :: "cost_user list"
  cd_ledger :: "ledger_row list"

record cost_env =
  ce_today :: int
  ce_uuid_text :: "uuid \<Rightarrow> rstr"
  ce_citext_eq :: "rstr \<Rightarrow> rstr \<Rightarrow> bool"

datatype db_error = Out_Of_Range | Unique_Violation | Rls_Violation

type_synonym 'a db_result = "db_error + 'a"

definition and_then :: "'a db_result \<Rightarrow> ('a \<Rightarrow> 'b db_result) \<Rightarrow> 'b db_result" where
  "and_then r f = (case r of Inl e \<Rightarrow> Inl e | Inr x \<Rightarrow> f x)"

lemma and_then_simps [simp]: "and_then (Inl e) f = Inl e" "and_then (Inr x) f = f x"
  by (simp_all add: and_then_def)

lemma and_then_Inr_iff [simp]: "and_then r f = Inr y \<longleftrightarrow> (\<exists>x. r = Inr x \<and> f x = Inr y)"
  by (cases r) auto

section \<open>Statements\<close>

definition daily_cap_default :: i64 where "daily_cap_default = 5000000"

definition seed_email :: "cost_env \<Rightarrow> uuid \<Rightarrow> rstr" where
  "seed_email env u = ce_uuid_text env u @ str ''@seed.qcue''"

definition ensure_tenant :: "uuid \<Rightarrow> cost_db \<Rightarrow> cost_db" where
  "ensure_tenant t db =
     (if t \<in> fst ` set (cd_tenants db) then db
      else db\<lparr>cd_tenants := cd_tenants db @ [(t, daily_cap_default)]\<rparr>)"

definition email_taken :: "cost_env \<Rightarrow> rstr \<Rightarrow> cost_db \<Rightarrow> bool" where
  "email_taken env e db \<longleftrightarrow> list_ex (\<lambda>u. ce_citext_eq env (cu_email u) e) (cd_users db)"

definition insert_user :: "cost_env \<Rightarrow> uuid \<Rightarrow> uuid \<Rightarrow> i64 \<Rightarrow> cost_db \<Rightarrow> cost_db db_result" where
  "insert_user env t u cap db =
     (if email_taken env (seed_email env u) db then Inl Unique_Violation
      else Inr (db\<lparr>cd_users := cd_users db @ [\<lparr>cu_id = u, cu_tenant = t, cu_email = seed_email env u, cu_cap = cap\<rparr>]\<rparr>))"

definition ensure_parents :: "cost_env \<Rightarrow> uuid \<Rightarrow> uuid \<Rightarrow> cost_db \<Rightarrow> cost_db db_result" where
  "ensure_parents env t u db =
     (let db1 = ensure_tenant t db in
      if u \<in> cu_id ` set (cd_users db1) then Inr db1 else insert_user env t u daily_cap_default db1)"

definition add_i64 :: "i64 \<Rightarrow> i64 \<Rightarrow> i64 db_result" where
  "add_i64 a b = (if in_i64 (a + b) then Inr (a + b) else Inl Out_Of_Range)"

definition usage_plus :: "cost_usage \<Rightarrow> cost_usage \<Rightarrow> cost_usage" where
  "usage_plus a b = \<lparr>cs_input = cs_input a + cs_input b, cs_output = cs_output a + cs_output b,
     cs_cache_read = cs_cache_read a + cs_cache_read b, cs_cache_write = cs_cache_write a + cs_cache_write b,
     cs_reasoning = cs_reasoning a + cs_reasoning b\<rparr>"

definition usage_in_i64 :: "cost_usage \<Rightarrow> bool" where
  "usage_in_i64 a \<longleftrightarrow> in_i64 (cs_input a) \<and> in_i64 (cs_output a) \<and> in_i64 (cs_cache_read a)
     \<and> in_i64 (cs_cache_write a) \<and> in_i64 (cs_reasoning a)"

text \<open>The \<open>SET\<close> list of both updates: the six counters grow, the breakdown is not touched.\<close>

definition bump_row :: "cost_usage \<Rightarrow> i64 \<Rightarrow> ledger_row \<Rightarrow> ledger_row db_result" where
  "bump_row u c r =
     (let u' = usage_plus (lg_usage r) u in
      if usage_in_i64 u' then and_then (add_i64 (lg_micros r) c) (\<lambda>c'. Inr (r\<lparr>lg_usage := u', lg_micros := c'\<rparr>))
      else Inl Out_Of_Range)"

fun update_where :: "(ledger_row \<Rightarrow> bool) \<Rightarrow> (ledger_row \<Rightarrow> ledger_row db_result) \<Rightarrow> ledger_row list
    \<Rightarrow> ledger_row list db_result" where
  "update_where P f [] = Inr []"
| "update_where P f (r # rs) =
     and_then (if P r then f r else Inr r) (\<lambda>r'. and_then (update_where P f rs) (\<lambda>rs'. Inr (r' # rs')))"

definition tenant_day :: "uuid \<Rightarrow> int \<Rightarrow> ledger_row \<Rightarrow> bool" where
  "tenant_day t d r \<longleftrightarrow> lg_tenant r = t \<and> lg_scope r = Tenant_Scope \<and> lg_user r = None \<and> lg_day r = d"

definition user_day :: "uuid \<Rightarrow> uuid \<Rightarrow> int \<Rightarrow> ledger_row \<Rightarrow> bool" where
  "user_day t u d r \<longleftrightarrow> lg_tenant r = t \<and> lg_scope r = User_Scope \<and> lg_user r = Some u \<and> lg_day r = d"

definition new_row :: "uuid \<Rightarrow> ledger_scope \<Rightarrow> uuid option \<Rightarrow> int \<Rightarrow> cost_usage \<Rightarrow> i64 \<Rightarrow> rstr \<Rightarrow> ledger_row" where
  "new_row t sc u d usage c provider = \<lparr>lg_tenant = t, lg_scope = sc, lg_user = u, lg_day = d,
     lg_usage = usage, lg_micros = c, lg_breakdown = [(provider, c)]\<rparr>"

text \<open>The tenant row: the update, which reports the rows it changed, and the insert.\<close>

definition update_tenant_row :: "uuid \<Rightarrow> int \<Rightarrow> cost_usage \<Rightarrow> i64 \<Rightarrow> ledger_row list
    \<Rightarrow> (ledger_row list \<times> nat) db_result" where
  "update_tenant_row t d usage c rows =
     and_then (update_where (tenant_day t d) (bump_row usage c) rows)
       (\<lambda>rows'. Inr (rows', length (filter (tenant_day t d) rows)))"

definition insert_tenant_row :: "uuid \<Rightarrow> int \<Rightarrow> cost_usage \<Rightarrow> i64 \<Rightarrow> rstr \<Rightarrow> ledger_row list \<Rightarrow> ledger_row list" where
  "insert_tenant_row t d usage c provider rows = rows @ [new_row t Tenant_Scope None d usage c provider]"

definition upsert_tenant_row :: "uuid \<Rightarrow> int \<Rightarrow> cost_usage \<Rightarrow> i64 \<Rightarrow> rstr \<Rightarrow> ledger_row list
    \<Rightarrow> ledger_row list db_result" where
  "upsert_tenant_row t d usage c provider rows =
     and_then (update_tenant_row t d usage c rows)
       (\<lambda>(rows', n). Inr (if n = 0 then insert_tenant_row t d usage c provider rows' else rows'))"

text \<open>The user row: \<open>INSERT .. ON CONFLICT (tenant_id, scope, user_id, day) DO UPDATE\<close>.\<close>

definition upsert_user_row :: "uuid \<Rightarrow> uuid \<Rightarrow> int \<Rightarrow> cost_usage \<Rightarrow> i64 \<Rightarrow> rstr \<Rightarrow> ledger_row list
    \<Rightarrow> ledger_row list db_result" where
  "upsert_user_row t u d usage c provider rows =
     (if list_ex (user_day t u d) rows then update_where (user_day t u d) (bump_row usage c) rows
      else Inr (rows @ [new_row t User_Scope (Some u) d usage c provider]))"

section \<open>The repository\<close>

definition accrue_tenant :: "cost_env \<Rightarrow> uuid \<Rightarrow> cost_usage \<Rightarrow> i64 \<Rightarrow> rstr \<Rightarrow> cost_db \<Rightarrow> cost_db db_result" where
  "accrue_tenant env t usage c provider db =
     (let db1 = ensure_tenant t db in
      and_then (upsert_tenant_row t (ce_today env) usage c provider (cd_ledger db1))
        (\<lambda>rows. Inr (db1\<lparr>cd_ledger := rows\<rparr>)))"

definition accrue :: "cost_env \<Rightarrow> uuid \<Rightarrow> uuid \<Rightarrow> cost_usage \<Rightarrow> i64 \<Rightarrow> rstr \<Rightarrow> cost_db \<Rightarrow> cost_db db_result" where
  "accrue env t u usage c provider db =
     and_then (ensure_parents env t u db) (\<lambda>db1.
     and_then (upsert_tenant_row t (ce_today env) usage c provider (cd_ledger db1)) (\<lambda>rows1.
     and_then (upsert_user_row t u (ce_today env) usage c provider rows1) (\<lambda>rows2.
     Inr (db1\<lparr>cd_ledger := rows2\<rparr>))))"

text \<open>An existing user row of another tenant is hidden from the update by row-level security.\<close>

definition set_user_cap :: "uuid \<Rightarrow> i64 \<Rightarrow> cost_user list \<Rightarrow> cost_user list" where
  "set_user_cap u cap us = map (\<lambda>r. if cu_id r = u then r\<lparr>cu_cap := cap\<rparr> else r) us"

definition seed_caps :: "cost_env \<Rightarrow> uuid \<Rightarrow> uuid \<Rightarrow> i64 \<Rightarrow> i64 \<Rightarrow> cost_db \<Rightarrow> cost_db db_result" where
  "seed_caps env t u tenant_cap user_cap db =
     (let db1 = db\<lparr>cd_tenants := (if t \<in> fst ` set (cd_tenants db)
                    then map (\<lambda>(i, c). if i = t then (i, tenant_cap) else (i, c)) (cd_tenants db)
                    else cd_tenants db @ [(t, tenant_cap)])\<rparr> in
      if u \<in> cu_id ` set (cd_users db1) then
        (if list_ex (\<lambda>r. cu_id r = u \<and> cu_tenant r = t) (cd_users db1)
         then Inr (db1\<lparr>cd_users := set_user_cap u user_cap (cd_users db1)\<rparr>) else Inl Rls_Violation)
      else insert_user env t u user_cap db1)"

definition first_micros :: "(ledger_row \<Rightarrow> bool) \<Rightarrow> cost_db \<Rightarrow> i64" where
  "first_micros P db = (case find P (cd_ledger db) of Some r \<Rightarrow> lg_micros r | None \<Rightarrow> 0)"

definition read_today :: "cost_env \<Rightarrow> uuid \<Rightarrow> uuid \<Rightarrow> cost_db \<Rightarrow> i64 \<times> i64" where
  "read_today env t u db =
     (first_micros (tenant_day t (ce_today env)) db, first_micros (user_day t u (ce_today env)) db)"

definition day_total :: "(ledger_row \<Rightarrow> bool) \<Rightarrow> cost_db \<Rightarrow> int" where
  "day_total P db = sum_list (map lg_micros (filter P (cd_ledger db)))"

definition sum_micros :: "(ledger_row \<Rightarrow> bool) \<Rightarrow> cost_db \<Rightarrow> i64 db_result" where
  "sum_micros P db = add_i64 0 (day_total P db)"

definition show_int :: "int \<Rightarrow> rstr" where
  "show_int n = (if n < 0 then 45 # show_nat (nat (- n)) else show_nat (nat n))"

definition over_cap :: "string \<Rightarrow> i64 option \<Rightarrow> i64 \<Rightarrow> rstr option" where
  "over_cap who cap n = (case cap of
       Some c \<Rightarrow> if c \<le> n then Some (str who @ str '' daily cost ceiling reached: '' @ show_int n @ str '' >= ''
                                       @ show_int c @ str '' micros'') else None
     | None \<Rightarrow> None)"

definition tenant_cap :: "uuid \<Rightarrow> cost_db \<Rightarrow> i64 option" where
  "tenant_cap t db = map_of (cd_tenants db) t"

definition user_cap :: "uuid \<Rightarrow> uuid \<Rightarrow> cost_db \<Rightarrow> i64 option" where
  "user_cap t u db = map_option cu_cap (find (\<lambda>r. cu_tenant r = t \<and> cu_id r = u) (cd_users db))"

text \<open>\<open>Inr None\<close> allows the call, \<open>Inr (Some why)\<close> refuses it.\<close>

definition check_ceiling :: "cost_env \<Rightarrow> uuid \<Rightarrow> uuid \<Rightarrow> cost_db \<Rightarrow> rstr option db_result" where
  "check_ceiling env t u db =
     and_then (sum_micros (tenant_day t (ce_today env)) db) (\<lambda>ts.
     and_then (sum_micros (user_day t u (ce_today env)) db) (\<lambda>us.
     Inr (case over_cap ''tenant'' (tenant_cap t db) ts of
            Some why \<Rightarrow> Some why
          | None \<Rightarrow> over_cap ''user'' (user_cap t u db) us)))"

section \<open>The guard of the wiki engine and the accrual of a provider turn\<close>

record cost_guard =
  cg_db :: cost_db
  cg_seen :: "rstr set"

definition as_i64_cast :: "u64 \<Rightarrow> i64" where "as_i64_cast n = wrap_i64 (uint n)"

definition ledger_usage :: "canonical_usage \<Rightarrow> cost_usage" where
  "ledger_usage u = \<lparr>cs_input = as_i64_cast (u_input u), cs_output = as_i64_cast (u_output u),
     cs_cache_read = as_i64_cast (u_cache_read u), cs_cache_write = as_i64_cast (u_cache_write u),
     cs_reasoning = as_i64_cast (u_reasoning u)\<rparr>"

text \<open>The two errors are the ceiling and the database.\<close>

datatype guard_error = Ceiling_Reached rstr | Guard_Db db_error

definition check_before_call :: "cost_env \<Rightarrow> uuid \<Rightarrow> uuid \<Rightarrow> cost_guard \<Rightarrow> guard_error option" where
  "check_before_call env t u g = (case check_ceiling env t u (cg_db g) of
       Inl e \<Rightarrow> Some (Guard_Db e) | Inr None \<Rightarrow> None | Inr (Some why) \<Rightarrow> Some (Ceiling_Reached why))"

definition guard_accrue :: "cost_env \<Rightarrow> uuid \<Rightarrow> uuid \<Rightarrow> rstr \<Rightarrow> canonical_usage \<Rightarrow> i64 \<Rightarrow> cost_guard
    \<Rightarrow> cost_guard \<times> guard_error option" where
  "guard_accrue env t u request usage c g =
     (if request \<in> cg_seen g then (g, None)
      else let g1 = g\<lparr>cg_seen := insert request (cg_seen g)\<rparr> in
        (case accrue env t u (ledger_usage usage) c (str ''wiki'') (cg_db g1) of
           Inl e \<Rightarrow> (g1, Some (Guard_Db e))
         | Inr db \<Rightarrow> (g1\<lparr>cg_db := db\<rparr>, None)))"

definition accrue_turn_cost :: "cost_env \<Rightarrow> uuid \<Rightarrow> rstr \<Rightarrow> rstr \<Rightarrow> canonical_usage \<Rightarrow> cost_db \<Rightarrow> cost_db" where
  "accrue_turn_cost env t provider model usage db =
     (if usage = usage_default then db
      else (case accrue_tenant env t (ledger_usage usage) (cost_micros model usage) provider db of
              Inl e \<Rightarrow> db | Inr db' \<Rightarrow> db'))"

section \<open>The routes that read the ledger\<close>

text \<open>\<open>GET /v1/cost/today\<close>.\<close>

definition cost_today :: "cost_env \<Rightarrow> uuid \<Rightarrow> cost_db \<Rightarrow> i64 db_result" where
  "cost_today env t db = sum_micros (tenant_day t (ce_today env)) db"

text \<open>\<open>GET /v1/cost/ledger\<close>: the latest 90 tenant rows; rows of one day keep their scan order.
  \<open>date_text\<close> prints a date.\<close>

definition ledger_rows :: "uuid \<Rightarrow> cost_db \<Rightarrow> ledger_row list" where
  "ledger_rows t db =
     take 90 (sort_key (\<lambda>r. - lg_day r)
       (filter (\<lambda>r. lg_tenant r = t \<and> lg_scope r = Tenant_Scope \<and> lg_user r = None) (cd_ledger db)))"

definition ledger_row_json :: "(int \<Rightarrow> rstr) \<Rightarrow> ledger_row \<Rightarrow> jvalue" where
  "ledger_row_json date_text r =
     json_obj [(''day'', JString (date_text (lg_day r) @ str ''T00:00:00Z'')),
       (''input_tokens'', json_int (cs_input (lg_usage r))), (''output_tokens'', json_int (cs_output (lg_usage r))),
       (''cache_read_tokens'', json_int (cs_cache_read (lg_usage r))),
       (''cache_write_tokens'', json_int (cs_cache_write (lg_usage r))),
       (''reasoning_tokens'', json_int (cs_reasoning (lg_usage r))), (''cost_micros'', json_int (lg_micros r))]"

definition cost_ledger :: "(int \<Rightarrow> rstr) \<Rightarrow> uuid \<Rightarrow> cost_db \<Rightarrow> jvalue" where
  "cost_ledger date_text t db = json_obj [(''rows'', JArray (map (ledger_row_json date_text) (ledger_rows t db)))]"

end
