(* ===== verification/Cost_Safety.thy ===== *)
theory Cost_Safety
  imports Cost
begin

text \<open>
  What the cost ledger guarantees: one row per (tenant, scope, user, day) under every sequence of
  transactions, exact accrual, the exact ceiling test, the overspend bound of a gated sequence of
  calls; and where it falls short: two concurrent first accruals of a day, the per-user cap of the live
  path, the provider breakdown, tokens billed twice.
\<close>

section \<open>Keys and sums\<close>

type_synonym ledger_key = "uuid \<times> ledger_scope \<times> uuid option \<times> int"

definition row_key :: "ledger_row \<Rightarrow> ledger_key" where
  "row_key r = (lg_tenant r, lg_scope r, lg_user r, lg_day r)"

definition has_key :: "ledger_key \<Rightarrow> ledger_row \<Rightarrow> bool" where
  "has_key k r \<longleftrightarrow> row_key r = k"

lemma tenant_day_key: "tenant_day t d = has_key (t, Tenant_Scope, None, d)"
  by (auto simp: tenant_day_def has_key_def row_key_def)

lemma user_day_key: "user_day t u d = has_key (t, User_Scope, Some u, d)"
  by (auto simp: user_day_def has_key_def row_key_def)

lemmas day_keys = tenant_day_key user_day_key

lemma row_key_new [simp]: "row_key (new_row t sc u d usage c p) = (t, sc, u, d)"
  by (simp add: row_key_def new_row_def)

lemma micros_new [simp]: "lg_micros (new_row t sc u d usage c p) = c"
  by (simp add: new_row_def)

definition total_of :: "ledger_key \<Rightarrow> ledger_row list \<Rightarrow> int" where
  "total_of k rows = sum_list (map lg_micros (filter (has_key k) rows))"

definition multiplicity :: "ledger_key \<Rightarrow> ledger_row list \<Rightarrow> nat" where
  "multiplicity k rows = length (filter (has_key k) rows)"

lemma total_of_simps [simp]:
  "total_of k [] = 0"
  "total_of k (r # rows) = (if row_key r = k then lg_micros r else 0) + total_of k rows"
  "total_of k (xs @ ys) = total_of k xs + total_of k ys"
  by (simp_all add: total_of_def has_key_def)

lemma multiplicity_simps [simp]:
  "multiplicity k [] = 0"
  "multiplicity k (r # rows) = (if row_key r = k then 1 else 0) + multiplicity k rows"
  "multiplicity k (xs @ ys) = multiplicity k xs + multiplicity k ys"
  by (simp_all add: multiplicity_def has_key_def)

lemma total_of_notin: "k \<notin> set (map row_key rows) \<Longrightarrow> total_of k rows = 0"
  by (induction rows) auto

lemma day_total_total: "day_total (has_key k) db = total_of k (cd_ledger db)"
  by (simp add: day_total_def total_of_def)

lemma multiplicity_0: "multiplicity k rows = 0 \<longleftrightarrow> k \<notin> set (map row_key rows)"
  by (induction rows) auto

lemma multiplicity_distinct:
  "distinct (map row_key rows) \<Longrightarrow> k \<in> set (map row_key rows) \<Longrightarrow> multiplicity k rows = 1"
  by (induction rows) (auto simp: multiplicity_0)

lemma first_micros_total:
  "distinct (map row_key (cd_ledger db)) \<Longrightarrow> first_micros (has_key k) db = total_of k (cd_ledger db)"
proof -
  have "distinct (map row_key rows) \<Longrightarrow>
      (case find (has_key k) rows of Some r \<Rightarrow> lg_micros r | None \<Rightarrow> 0) = total_of k rows" for rows
  proof (induction rows)
    case (Cons r rows)
    have "total_of k rows = 0" if "row_key r = k"
      using Cons.prems that by (intro total_of_notin) auto
    then show ?case using Cons by (auto simp: has_key_def)
  qed simp
  then show "distinct (map row_key (cd_ledger db)) \<Longrightarrow> ?thesis" by (simp add: first_micros_def)
qed

section \<open>Updates\<close>

lemma bump_row_facts:
  "bump_row usage c r = Inr r' \<Longrightarrow> row_key r' = row_key r \<and> lg_micros r' = lg_micros r + c
     \<and> lg_breakdown r' = lg_breakdown r"
  by (auto simp: bump_row_def Let_def add_i64_def row_key_def split: if_splits)

lemma update_where_bump:
  assumes "update_where (has_key k) (bump_row usage c) rows = Inr rows'"
  shows "map row_key rows' = map row_key rows
    \<and> total_of k' rows' = total_of k' rows + (if k' = k then c * int (multiplicity k rows) else 0)
    \<and> map lg_breakdown rows' = map lg_breakdown rows"
  using assms
proof (induction rows arbitrary: rows')
  case (Cons r rows)
  then obtain r' rs' where R: "(if has_key k r then bump_row usage c r else Inr r) = Inr r'"
    "update_where (has_key k) (bump_row usage c) rows = Inr rs'" "rows' = r' # rs'" by auto
  note IH = Cons.IH [OF R(2)]
  show ?case
  proof (cases "row_key r = k")
    case True
    then have "bump_row usage c r = Inr r'" using R(1) by (simp add: has_key_def)
    from bump_row_facts [OF this] show ?thesis using IH R(3) True by (auto simp: algebra_simps)
  next
    case False
    then show ?thesis using IH R by (auto simp: has_key_def)
  qed
qed simp

definition room :: "cost_usage \<Rightarrow> i64 \<Rightarrow> ledger_key \<Rightarrow> ledger_row list \<Rightarrow> bool" where
  "room usage c k rows \<longleftrightarrow>
     list_all (\<lambda>r. row_key r = k \<longrightarrow> usage_in_i64 (usage_plus (lg_usage r) usage) \<and> in_i64 (lg_micros r + c)) rows"

lemma update_where_room:
  "room usage c k rows \<Longrightarrow> \<exists>rows'. update_where (has_key k) (bump_row usage c) rows = Inr rows'"
  by (induction rows) (auto simp: room_def bump_row_def has_key_def add_i64_def Let_def)

text \<open>What both upserts do to keys and totals.\<close>

definition upserted :: "ledger_key \<Rightarrow> i64 \<Rightarrow> ledger_row list \<Rightarrow> ledger_row list \<Rightarrow> bool" where
  "upserted k c rows rows' \<longleftrightarrow>
     map row_key rows' = map row_key rows @ (if multiplicity k rows = 0 then [k] else [])
     \<and> (\<forall>k'. total_of k' rows' = total_of k' rows + (if k' = k then c * int (max 1 (multiplicity k rows)) else 0))"

lemma upsert_tenant_row_upserted:
  assumes "upsert_tenant_row t d usage c p rows = Inr rows'"
  shows "upserted (t, Tenant_Scope, None, d) c rows rows'"
proof -
  let ?k = "(t, Tenant_Scope, None :: uuid option, d)"
  obtain rs where U: "update_where (has_key ?k) (bump_row usage c) rows = Inr rs"
    and r: "rows' = (if multiplicity ?k rows = 0 then insert_tenant_row t d usage c p rs else rs)"
    using assms by (auto simp: upsert_tenant_row_def update_tenant_row_def tenant_day_key multiplicity_def)
  show ?thesis using update_where_bump [OF U] unfolding upserted_def r
    by (auto simp: insert_tenant_row_def)
qed

lemma upsert_user_row_upserted:
  assumes "upsert_user_row t u d usage c p rows = Inr rows'"
  shows "upserted (t, User_Scope, Some u, d) c rows rows'"
proof -
  let ?k = "(t, User_Scope, Some u, d)"
  have ex: "list_ex (has_key ?k) rows \<longleftrightarrow> multiplicity ?k rows \<noteq> 0"
    unfolding multiplicity_0 list_ex_iff has_key_def set_map image_iff by metis
  show ?thesis
  proof (cases "multiplicity ?k rows = 0")
    case True
    then show ?thesis using assms ex by (auto simp: upsert_user_row_def user_day_key upserted_def)
  next
    case False
    then have U: "update_where (has_key ?k) (bump_row usage c) rows = Inr rows'"
      using assms ex by (simp add: upsert_user_row_def user_day_key)
    show ?thesis using update_where_bump [OF U] False unfolding upserted_def by auto
  qed
qed

lemma upserted_totals:
  "upserted k c rows rows' \<Longrightarrow>
     total_of k' rows' = total_of k' rows + (if k' = k then c * int (max 1 (multiplicity k rows)) else 0)"
  unfolding upserted_def by blast

lemma upserted_distinct: "upserted k c rows rows' \<Longrightarrow> distinct (map row_key rows) \<Longrightarrow> distinct (map row_key rows')"
  by (auto simp: upserted_def multiplicity_0)

lemma upserted_total:
  "upserted k c rows rows' \<Longrightarrow> distinct (map row_key rows)
   \<Longrightarrow> total_of k' rows' = total_of k' rows + (if k' = k then c else 0)"
  using multiplicity_0 [of k rows] multiplicity_distinct [of rows k] by (auto simp: upserted_totals simp del: set_map)

lemma upserted_other: "upserted k c rows rows' \<Longrightarrow> k' \<noteq> k \<Longrightarrow> total_of k' rows' = total_of k' rows"
  by (simp add: upserted_totals)

lemma upsert_tenant_room:
  "room usage c (t, Tenant_Scope, None, d) rows \<Longrightarrow> \<exists>rows'. upsert_tenant_row t d usage c p rows = Inr rows'"
  using update_where_room by (fastforce simp: upsert_tenant_row_def update_tenant_row_def tenant_day_key)

lemma upsert_user_room:
  "room usage c (t, User_Scope, Some u, d) rows \<Longrightarrow> \<exists>rows'. upsert_user_row t u d usage c p rows = Inr rows'"
  using update_where_room by (fastforce simp: upsert_user_row_def user_day_key)

text \<open>An upsert leaves the rows of other keys alone.\<close>

lemma update_where_others:
  "update_where (has_key k) (bump_row usage c) rows = Inr rows' \<Longrightarrow> k' \<noteq> k
   \<Longrightarrow> filter (has_key k') rows' = filter (has_key k') rows"
proof (induction rows arbitrary: rows')
  case (Cons r rows)
  then obtain r' rs' where R: "(if has_key k r then bump_row usage c r else Inr r) = Inr r'"
    "update_where (has_key k) (bump_row usage c) rows = Inr rs'" "rows' = r' # rs'" by auto
  then show ?case using Cons.IH [OF R(2)] Cons.prems(2)
    by (auto simp: has_key_def split: if_splits dest!: bump_row_facts)
qed simp

lemma upsert_tenant_row_others:
  assumes "upsert_tenant_row t d usage c p rows = Inr rows'" "k' \<noteq> (t, Tenant_Scope, None, d)"
  shows "filter (has_key k') rows' = filter (has_key k') rows"
proof -
  obtain rs where U: "update_where (has_key (t, Tenant_Scope, None, d)) (bump_row usage c) rows = Inr rs"
    and r: "rows' = (if multiplicity (t, Tenant_Scope, None, d) rows = 0 then insert_tenant_row t d usage c p rs else rs)"
    using assms(1) by (auto simp: upsert_tenant_row_def update_tenant_row_def tenant_day_key multiplicity_def)
  show ?thesis using update_where_others [OF U assms(2)] assms(2)
    by (auto simp: r insert_tenant_row_def has_key_def)
qed

lemma room_filter: "room usage c k rows \<longleftrightarrow> room usage c k (filter (has_key k) rows)"
  by (auto simp: room_def list_all_iff has_key_def)

section \<open>The repository\<close>

lemma ensure_tenant_ledger [simp]: "cd_ledger (ensure_tenant t db) = cd_ledger db" "cd_users (ensure_tenant t db) = cd_users db"
  by (simp_all add: ensure_tenant_def)

lemma ensure_parents_ledger: "ensure_parents env t u db = Inr db' \<Longrightarrow> cd_ledger db' = cd_ledger db"
  by (auto simp: ensure_parents_def insert_user_def Let_def split: if_splits)

lemma accrue_tenant_upserted:
  "accrue_tenant env t usage c p db = Inr db'
   \<Longrightarrow> upserted (t, Tenant_Scope, None, ce_today env) c (cd_ledger db) (cd_ledger db')"
  by (auto simp: accrue_tenant_def Let_def dest: upsert_tenant_row_upserted)

lemma accrue_upserted:
  "accrue env t u usage c p db = Inr db' \<Longrightarrow>
     \<exists>rows. upserted (t, Tenant_Scope, None, ce_today env) c (cd_ledger db) rows
       \<and> upserted (t, User_Scope, Some u, ce_today env) c rows (cd_ledger db')"
  by (auto simp: accrue_def Let_def dest!: upsert_tenant_row_upserted upsert_user_row_upserted ensure_parents_ledger)

lemma seed_caps_ledger: "seed_caps env t u tc uc db = Inr db' \<Longrightarrow> cd_ledger db' = cd_ledger db"
  by (auto simp: seed_caps_def insert_user_def Let_def split: if_splits)

text \<open>The transactions that write the three tables, on any day.\<close>

datatype cost_op =
    Op_Accrue_Tenant uuid cost_usage i64 rstr
  | Op_Accrue uuid uuid cost_usage i64 rstr
  | Op_Seed_Caps uuid uuid i64 i64

fun cost_tx :: "cost_env \<Rightarrow> cost_op \<Rightarrow> cost_db \<Rightarrow> cost_db db_result" where
  "cost_tx env (Op_Accrue_Tenant t usage c p) db = accrue_tenant env t usage c p db"
| "cost_tx env (Op_Accrue t u usage c p) db = accrue env t u usage c p db"
| "cost_tx env (Op_Seed_Caps t u tc uc) db = seed_caps env t u tc uc db"

definition cost_step :: "cost_env \<times> cost_op \<Rightarrow> cost_db \<Rightarrow> cost_db" where
  "cost_step x db = (case cost_tx (fst x) (snd x) db of Inl e \<Rightarrow> db | Inr db' \<Rightarrow> db')"

lemma accrue_ledger_refs:
  assumes "list_all P rows" "\<And>r r'. row_key r' = row_key r \<Longrightarrow> P r \<Longrightarrow> P r'"
    and "upserted k c rows rows'" "\<And>r. row_key r = k \<Longrightarrow> P r"
  shows "list_all P rows'"
proof -
  have P: "P r" if "row_key r \<in> insert k (row_key ` set rows)" for r
    using that assms by (auto simp: list_all_iff)
  have "row_key ` set rows' \<subseteq> insert k (row_key ` set rows)"
    using arg_cong [OF conjunct1 [OF assms(3) [unfolded upserted_def]], of set] by (auto split: if_splits)
  then show ?thesis using P by (auto simp: list_all_iff)
qed

text \<open>Row keys are distinct, ids are primary keys, every row's tenant and user exist.\<close>

definition row_ref :: "cost_db \<Rightarrow> ledger_row \<Rightarrow> bool" where
  "row_ref db r \<longleftrightarrow> lg_tenant r \<in> fst ` set (cd_tenants db)
     \<and> pred_option (\<lambda>u. u \<in> cu_id ` set (cd_users db)) (lg_user r)"

definition parents_ok :: "cost_db \<Rightarrow> bool" where
  "parents_ok db \<longleftrightarrow> distinct (map fst (cd_tenants db)) \<and> distinct (map cu_id (cd_users db))
     \<and> list_all (\<lambda>r. cu_tenant r \<in> fst ` set (cd_tenants db)) (cd_users db)"

definition ledger_ok :: "cost_db \<Rightarrow> bool" where
  "ledger_ok db \<longleftrightarrow> distinct (map row_key (cd_ledger db)) \<and> parents_ok db \<and> list_all (row_ref db) (cd_ledger db)"

lemma parents_ok_alt: "parents_ok db \<longleftrightarrow> distinct (map fst (cd_tenants db)) \<and> distinct (map cu_id (cd_users db))
     \<and> cu_tenant ` set (cd_users db) \<subseteq> fst ` set (cd_tenants db)"
  by (auto simp: parents_ok_def list_all_iff)

lemma row_ref_key: "row_key r' = row_key r \<Longrightarrow> row_ref db r \<Longrightarrow> row_ref db r'"
  by (simp add: row_ref_def row_key_def)

text \<open>\<open>grown db db'\<close>: parents are only added, consistently.\<close>

definition grown :: "cost_db \<Rightarrow> cost_db \<Rightarrow> bool" where
  "grown db db' \<longleftrightarrow> (parents_ok db \<longrightarrow> parents_ok db') \<and> fst ` set (cd_tenants db) \<subseteq> fst ` set (cd_tenants db')
     \<and> cu_id ` set (cd_users db) \<subseteq> cu_id ` set (cd_users db')"

lemma grown_refs: "grown db db' \<Longrightarrow> row_ref db r \<Longrightarrow> row_ref db' r"
  by (cases "lg_user r") (auto simp: grown_def row_ref_def)

lemma ensure_tenant_grown: "grown db (ensure_tenant t db) \<and> t \<in> fst ` set (cd_tenants (ensure_tenant t db))"
  by (auto simp: grown_def ensure_tenant_def parents_ok_def list_all_iff image_iff)

lemma insert_user_grown:
  "insert_user env t u cap db = Inr db' \<Longrightarrow> t \<in> fst ` set (cd_tenants db) \<Longrightarrow> u \<notin> cu_id ` set (cd_users db)
   \<Longrightarrow> grown db db' \<and> u \<in> cu_id ` set (cd_users db') \<and> cd_tenants db' = cd_tenants db"
  unfolding insert_user_def grown_def parents_ok_alt by (simp split: if_splits) (drule sym, simp add: subset_insertI)

lemma grown_trans: "grown a b \<Longrightarrow> grown b c \<Longrightarrow> grown a c"
  by (meson grown_def subset_trans)

lemma ensure_parents_grown:
  assumes "ensure_parents env t u db = Inr db'"
  shows "grown db db' \<and> t \<in> fst ` set (cd_tenants db') \<and> u \<in> cu_id ` set (cd_users db')"
proof (cases "u \<in> cu_id ` set (cd_users (ensure_tenant t db))")
  case True
  then have "db' = ensure_tenant t db" using assms by (simp add: ensure_parents_def Let_def)
  then show ?thesis using ensure_tenant_grown [of db t] True by (intro conjI) simp_all
next
  case False
  then have "insert_user env t u daily_cap_default (ensure_tenant t db) = Inr db'"
    using assms by (simp add: ensure_parents_def Let_def)
  then have i: "grown (ensure_tenant t db) db' \<and> u \<in> cu_id ` set (cd_users db')
      \<and> cd_tenants db' = cd_tenants (ensure_tenant t db)"
    by (rule insert_user_grown [OF _ _ False]) (simp add: ensure_tenant_grown)
  then have "t \<in> fst ` set (cd_tenants db')" by (simp add: ensure_tenant_grown)
  then show ?thesis using i ensure_tenant_grown [of db t] by (meson grown_trans)
qed

lemma set_user_cap_keys [simp]:
  "map cu_id (set_user_cap u cap us) = map cu_id us" "map cu_tenant (set_user_cap u cap us) = map cu_tenant us"
  by (induction us) (auto simp: set_user_cap_def)

lemma set_user_cap_images [simp]:
  "cu_id ` set (set_user_cap u cap us) = cu_id ` set us" "cu_tenant ` set (set_user_cap u cap us) = cu_tenant ` set us"
  by (simp_all flip: set_map)

lemma set_tenant_cap_keys [simp]: "map (fst \<circ> (\<lambda>(i, c). if i = t then (i, cap) else (i, c))) ts = map fst ts"
  by (induction ts) auto

lemma seed_caps_grown:
  assumes "seed_caps env t u tc uc db = Inr db'"
  shows "grown db db'"
proof -
  define db1 where "db1 = db\<lparr>cd_tenants := (if t \<in> fst ` set (cd_tenants db)
     then map (\<lambda>(i, c). if i = t then (i, tc) else (i, c)) (cd_tenants db) else cd_tenants db @ [(t, tc)])\<rparr>"
  have I: "fst ` set (map (\<lambda>(i, c). if i = t then (i, tc) else (i, c)) ts) = fst ` set ts" for ts :: "(uuid \<times> i64) list"
    by (induction ts) auto
  have g: "grown db db1" and t: "t \<in> fst ` set (cd_tenants db1)"
    using I [of "cd_tenants db"] by (auto simp: grown_def parents_ok_alt db1_def)
  show ?thesis
  proof (cases "u \<in> cu_id ` set (cd_users db1)")
    case True
    then have "db' = db1\<lparr>cd_users := set_user_cap u uc (cd_users db1)\<rparr>"
      using assms by (auto simp: seed_caps_def db1_def [symmetric] Let_def split: if_splits)
    then have "grown db1 db'" by (simp add: grown_def parents_ok_alt)
    then show ?thesis using g grown_trans by blast
  next
    case False
    then have "insert_user env t u uc db1 = Inr db'" using assms by (simp add: seed_caps_def db1_def [symmetric] Let_def)
    then show ?thesis using insert_user_grown [OF _ t False] g grown_trans by blast
  qed
qed

lemma ledger_ok_upserted:
  assumes "ledger_ok db" "grown db db1" "upserted (t, sc, u, d) c (cd_ledger db) rows"
    and "t \<in> fst ` set (cd_tenants db1)" "pred_option (\<lambda>x. x \<in> cu_id ` set (cd_users db1)) u"
  shows "ledger_ok (db1\<lparr>cd_ledger := rows\<rparr>)"
proof -
  let ?db = "db1\<lparr>cd_ledger := rows\<rparr>"
  have R: "row_ref ?db = row_ref db1" by (auto simp: row_ref_def)
  have "list_all (row_ref db1) (cd_ledger db)"
    using assms(1,2) grown_refs by (auto simp: ledger_ok_def list_all_iff)
  then have "list_all (row_ref db1) rows"
    by (rule accrue_ledger_refs [OF _ row_ref_key assms(3)])
      (use assms(4,5) in \<open>auto simp: row_key_def row_ref_def\<close>)
  moreover have "parents_ok ?db" using assms(1,2) by (simp add: ledger_ok_def grown_def parents_ok_def)
  ultimately show ?thesis using assms(1) upserted_distinct [OF assms(3)] R by (simp add: ledger_ok_def)
qed

lemma cost_tx_ok: "ledger_ok db \<Longrightarrow> cost_tx env x db = Inr db' \<Longrightarrow> ledger_ok db'"
proof (cases x)
  case (Op_Accrue_Tenant t usage c p)
  assume ok: "ledger_ok db" and tx: "cost_tx env x db = Inr db'"
  then have "accrue_tenant env t usage c p db = Inr db'" using Op_Accrue_Tenant by simp
  then obtain rows where R: "upsert_tenant_row t (ce_today env) usage c p (cd_ledger db) = Inr rows"
    and D: "db' = (ensure_tenant t db)\<lparr>cd_ledger := rows\<rparr>" by (auto simp: accrue_tenant_def Let_def)
  show ?thesis unfolding D
    by (rule ledger_ok_upserted [OF ok _ upsert_tenant_row_upserted [OF R]]) (simp_all add: ensure_tenant_grown)
next
  case (Op_Accrue t u usage c p)
  assume ok: "ledger_ok db" and tx: "cost_tx env x db = Inr db'"
  then obtain db1 rows1 rows2 where A: "ensure_parents env t u db = Inr db1"
    and B: "upsert_tenant_row t (ce_today env) usage c p (cd_ledger db1) = Inr rows1"
    and C: "upsert_user_row t u (ce_today env) usage c p rows1 = Inr rows2" and D: "db' = db1\<lparr>cd_ledger := rows2\<rparr>"
    using Op_Accrue by (auto simp: accrue_def)
  note G = ensure_parents_grown [OF A] and L = ensure_parents_ledger [OF A]
  have 1: "ledger_ok (db1\<lparr>cd_ledger := rows1\<rparr>)"
    using ledger_ok_upserted [OF ok conjunct1 [OF G]] upsert_tenant_row_upserted [OF B] G by (simp add: L)
  show ?thesis
    using ledger_ok_upserted [OF 1, of "db1\<lparr>cd_ledger := rows1\<rparr>"] upsert_user_row_upserted [OF C] G D
    by (simp add: grown_def)
next
  case (Op_Seed_Caps t u tc uc)
  assume ok: "ledger_ok db" and tx: "cost_tx env x db = Inr db'"
  then have S: "seed_caps env t u tc uc db = Inr db'" using Op_Seed_Caps by simp
  have "list_all (row_ref db') (cd_ledger db)"
    using ok grown_refs [OF seed_caps_grown [OF S]] by (auto simp: ledger_ok_def list_all_iff)
  then show ?thesis using ok seed_caps_grown [OF S] seed_caps_ledger [OF S]
    by (simp add: ledger_ok_def grown_def)
qed

text \<open>
  Further: every sequence of ledger transactions, on any days and with any failures, keeps one row per
  (tenant, scope, user, day), unique ids, and every row's tenant and user in their tables.
\<close>

theorem ledger_invariant: "ledger_ok db \<Longrightarrow> ledger_ok (fold cost_step ops db)"
proof (induction ops arbitrary: db)
  case (Cons x ops)
  have "ledger_ok (cost_step x db)"
    using Cons.prems cost_tx_ok [of db "fst x" "snd x"] by (simp add: cost_step_def split: sum.split)
  then show ?case by (simp add: Cons.IH)
qed simp

definition cost_env0 :: cost_env where
  "cost_env0 = \<lparr>ce_today = 20000, ce_uuid_text = (\<lambda>u. show_nat (unat u)), ce_citext_eq = (=)\<rparr>"

definition usage0 :: cost_usage where
  "usage0 = \<lparr>cs_input = 10, cs_output = 5, cs_cache_read = 0, cs_cache_write = 0, cs_reasoning = 0\<rparr>"

definition cost_db0 :: cost_db where
  "cost_db0 = \<lparr>cd_tenants = [(1, 100)], cd_users = [\<lparr>cu_id = 7, cu_tenant = 1, cu_email = str ''a@b.c'', cu_cap = 40\<rparr>],
     cd_ledger = []\<rparr>"

theorem ledger_invariant_witness:
  "ledger_ok (fold cost_step [(cost_env0, Op_Accrue 1 7 usage0 30 (str ''wiki'')),
     (cost_env0, Op_Accrue_Tenant 1 usage0 30 (str ''openai''))] cost_db0)"
  by (rule ledger_invariant) (simp add: cost_db0_def ledger_ok_def parents_ok_def)

text \<open>
  C29: an accrual whose sums fit the columns commits, adds the cost to both of today's rows, and leaves
  every other total (other users, other tenants, other days) as it was.
\<close>

theorem accrual_exact:
  assumes "ledger_ok db" "u \<in> cu_id ` set (cd_users db)"
    and "room usage c (t, Tenant_Scope, None, ce_today env) (cd_ledger db)"
    and "room usage c (t, User_Scope, Some u, ce_today env) (cd_ledger db)"
  shows "\<exists>db'. accrue env t u usage c provider db = Inr db'
    \<and> read_today env t u db' = (fst (read_today env t u db) + c, snd (read_today env t u db) + c)
    \<and> (\<forall>k. k \<noteq> (t, Tenant_Scope, None, ce_today env) \<and> k \<noteq> (t, User_Scope, Some u, ce_today env)
           \<longrightarrow> day_total (has_key k) db' = day_total (has_key k) db)"
proof -
  let ?kt = "(t, Tenant_Scope, None :: uuid option, ce_today env)" and ?ku = "(t, User_Scope, Some u, ce_today env)"
  obtain db1 where P: "ensure_parents env t u db = Inr db1" using assms(2) by (simp add: ensure_parents_def Let_def)
  note L = ensure_parents_ledger [OF P]
  obtain rows1 where R: "upsert_tenant_row t (ce_today env) usage c provider (cd_ledger db) = Inr rows1"
    using upsert_tenant_room [OF assms(3)] by blast
  note U1 = upsert_tenant_row_upserted [OF R]
  have "room usage c ?ku rows1"
  proof -
    have "filter (has_key ?ku) rows1 = filter (has_key ?ku) (cd_ledger db)"
      by (rule upsert_tenant_row_others [OF R]) simp
    then show ?thesis using assms(4) room_filter by metis
  qed
  then obtain rows2 where R2: "upsert_user_row t u (ce_today env) usage c provider rows1 = Inr rows2"
    using upsert_user_room by blast
  note U2 = upsert_user_row_upserted [OF R2]
  define db' where "db' = db1\<lparr>cd_ledger := rows2\<rparr>"
  have A: "accrue env t u usage c provider db = Inr db'" using P R R2 L by (simp add: accrue_def db'_def)
  have d0: "distinct (map row_key (cd_ledger db))" using assms(1) by (simp add: ledger_ok_def)
  note d1 = upserted_distinct [OF U1 d0] and d2 = upserted_distinct [OF U2 upserted_distinct [OF U1 d0]]
  have T: "total_of k (cd_ledger db') = total_of k (cd_ledger db) + (if k = ?kt then c else 0) + (if k = ?ku then c else 0)" for k
    using upserted_total [OF U1 d0, of k] upserted_total [OF U2 d1, of k] by (simp add: db'_def)
  have "read_today env t u db' = (fst (read_today env t u db) + c, snd (read_today env t u db) + c)"
    using T [of ?kt] T [of ?ku] d0 d2 by (simp add: read_today_def day_keys first_micros_total db'_def)
  then show ?thesis using A T by (auto simp: day_total_total)
qed

theorem accrual_exact_witness:
  "\<exists>db'. accrue cost_env0 1 7 usage0 30 (str ''wiki'') cost_db0 = Inr db'
    \<and> read_today cost_env0 1 7 db' = (fst (read_today cost_env0 1 7 cost_db0) + 30, snd (read_today cost_env0 1 7 cost_db0) + 30)"
  using accrual_exact [of cost_db0 7 usage0 30 1 cost_env0 "str ''wiki''"]
  by (auto simp: cost_db0_def ledger_ok_def parents_ok_def room_def)

text \<open>
  Further: the pre-call check allows a call exactly when both sums of the day fit their type and are below
  the caps that are set; a cap of zero or less refuses every call.
\<close>

theorem ceiling_exact:
  "check_ceiling env t u db = Inr None \<longleftrightarrow>
     (let ts = day_total (tenant_day t (ce_today env)) db; us = day_total (user_day t u (ce_today env)) db in
      in_i64 ts \<and> in_i64 us \<and> pred_option (\<lambda>cap. ts < cap) (tenant_cap t db) \<and> pred_option (\<lambda>cap. us < cap) (user_cap t u db))"
  by (auto simp: check_ceiling_def sum_micros_def add_i64_def over_cap_def Let_def not_le split: option.splits)

section \<open>The spending gate\<close>

text \<open>A sequence of calls, each made only when the gate allows it.\<close>

definition gated :: "('d \<Rightarrow> bool) \<Rightarrow> ('c \<Rightarrow> 'd \<Rightarrow> 'd) \<Rightarrow> 'c \<Rightarrow> 'd \<Rightarrow> 'd" where
  "gated allows charge x d = (if allows d then charge x d else d)"

text \<open>The contract of the gate: what it allows is below the cap, and a charge adds at most its cost.\<close>

locale spending_gate =
  fixes ok :: "'d \<Rightarrow> bool" and used :: "'d \<Rightarrow> int" and cap :: int
    and allows :: "'d \<Rightarrow> bool" and charge :: "'c \<Rightarrow> 'd \<Rightarrow> 'd" and cost :: "'c \<Rightarrow> int"
  assumes below_cap: "ok d \<Longrightarrow> allows d \<Longrightarrow> used d < cap"
    and charged: "ok d \<Longrightarrow> used (charge x d) \<le> used d + max 0 (cost x)"
    and keeps: "ok d \<Longrightarrow> ok (charge x d)"
begin

lemma gated_ok: "ok d \<Longrightarrow> ok (fold (gated allows charge) xs d)"
  by (induction xs arbitrary: d) (auto simp: gated_def keeps)

lemma overspend:
  assumes "ok d" "list_all (\<lambda>x. cost x \<le> m) xs" "0 \<le> m"
  shows "used (fold (gated allows charge) xs d) \<le> max (used d) (cap - 1 + m)"
  using assms(1,2)
proof (induction xs arbitrary: d)
  case (Cons x xs)
  let ?d = "gated allows charge x d"
  have "used ?d \<le> max (used d) (cap - 1 + m)"
    using below_cap [OF Cons.prems(1)] charged [OF Cons.prems(1), of x] Cons.prems(2) assms(3) by (auto simp: gated_def)
  moreover have "ok ?d" using Cons.prems(1) by (simp add: gated_def keeps)
  ultimately show ?case using Cons.IH [of ?d] Cons.prems(2) by auto
qed simp

end

text \<open>The live path: a turn is dispatched when the ceiling allows it and its cost is accrued.\<close>

definition turn_allowed :: "cost_env \<Rightarrow> uuid \<Rightarrow> uuid \<Rightarrow> cost_db \<Rightarrow> bool" where
  "turn_allowed env t u db \<longleftrightarrow> check_ceiling env t u db = Inr None"

definition charge_turn :: "cost_env \<Rightarrow> uuid \<Rightarrow> rstr \<times> rstr \<times> canonical_usage \<Rightarrow> cost_db \<Rightarrow> cost_db" where
  "charge_turn env t x db = accrue_turn_cost env t (fst x) (fst (snd x)) (snd (snd x)) db"

definition turn_cost :: "rstr \<times> rstr \<times> canonical_usage \<Rightarrow> i64" where
  "turn_cost x = cost_micros (fst (snd x)) (snd (snd x))"

lemma charge_turn_tx:
  "charge_turn env t x db = db \<or> (\<exists>usage. accrue_tenant env t usage (turn_cost x) (fst x) db = Inr (charge_turn env t x db))"
  by (auto simp: charge_turn_def accrue_turn_cost_def turn_cost_def split: sum.split)

lemma ensure_tenant_caps: "tenant_cap t db = Some cap \<Longrightarrow> ensure_tenant t db = db"
  by (auto simp: tenant_cap_def ensure_tenant_def image_iff dest!: map_of_SomeD)

definition gate_ok :: "uuid \<Rightarrow> int \<Rightarrow> cost_db \<Rightarrow> bool" where
  "gate_ok t cap db \<longleftrightarrow> ledger_ok db \<and> tenant_cap t db = Some cap"

interpretation gate: spending_gate "gate_ok t cap" "day_total (tenant_day t (ce_today env))" cap
  "turn_allowed env t u" "charge_turn env t" turn_cost
  for t cap env u
proof unfold_locales
  fix db assume "gate_ok t cap db" "turn_allowed env t u db"
  then show "day_total (tenant_day t (ce_today env)) db < cap"
    using ceiling_exact [of env t u db] by (simp add: gate_ok_def turn_allowed_def Let_def)
next
  fix db x assume ok: "gate_ok t cap db"
  have d: "distinct (map row_key (cd_ledger db))" using ok by (simp add: gate_ok_def ledger_ok_def)
  from charge_turn_tx [of env t x db]
  show "day_total (tenant_day t (ce_today env)) (charge_turn env t x db) \<le> day_total (tenant_day t (ce_today env)) db + max 0 (turn_cost x)"
  proof
    assume "\<exists>usage. accrue_tenant env t usage (turn_cost x) (fst x) db = Inr (charge_turn env t x db)"
    then show ?thesis using upserted_total [OF accrue_tenant_upserted d] by (fastforce simp: day_keys day_total_total)
  qed simp
  from charge_turn_tx [of env t x db] show "gate_ok t cap (charge_turn env t x db)"
  proof
    assume "\<exists>usage. accrue_tenant env t usage (turn_cost x) (fst x) db = Inr (charge_turn env t x db)"
    then obtain usage where A: "accrue_tenant env t usage (turn_cost x) (fst x) db = Inr (charge_turn env t x db)" by blast
    then have "ledger_ok (charge_turn env t x db)"
      using cost_tx_ok [of db env "Op_Accrue_Tenant t usage (turn_cost x) (fst x)"] ok by (simp add: gate_ok_def)
    moreover have "\<exists>rows. charge_turn env t x db = db\<lparr>cd_ledger := rows\<rparr>"
      using A ok ensure_tenant_caps [of t db cap] by (auto simp: gate_ok_def accrue_tenant_def) metis
    then have "tenant_cap t (charge_turn env t x db) = Some cap"
      using ok by (auto simp: gate_ok_def tenant_cap_def)
    ultimately show ?thesis by (simp add: gate_ok_def)
  qed (use ok in simp)
qed

text \<open>
  C30: a tenant's day never exceeds its cap by more than one turn: after any sequence of gated turns, each
  costing at most \<open>m\<close>, the spend is below the cap plus \<open>m\<close>, or what it was before.
\<close>

theorem overspend_bounded:
  assumes "ledger_ok db" "tenant_cap t db = Some cap" "list_all (\<lambda>x. turn_cost x \<le> m) turns" "0 \<le> m"
  shows "day_total (tenant_day t (ce_today env)) (fold (gated (turn_allowed env t u) (charge_turn env t)) turns db)
    \<le> max (day_total (tenant_day t (ce_today env)) db) (cap - 1 + m)"
  by (rule gate.overspend) (use assms in \<open>simp_all add: gate_ok_def\<close>)

definition turn0 :: "rstr \<times> rstr \<times> canonical_usage" where
  "turn0 = (str ''anthropic'', str ''claude-haiku-4-5'', \<lparr>u_input = 60, u_output = 0, u_cache_read = 0, u_cache_write = 0, u_reasoning = 0\<rparr>)"

lemma haiku_rates: "rates (str ''claude-haiku-4-5'') = (1, 5)"
  by code_simp

theorem overspend_bounded_witness:
  "day_total (tenant_day 1 20000) (fold (gated (turn_allowed cost_env0 1 7) (charge_turn cost_env0 1)) [turn0, turn0, turn0] cost_db0)
    \<le> max (day_total (tenant_day 1 20000) cost_db0) (100 - 1 + 60)"
proof -
  have c: "turn_cost turn0 = 60"
    by (simp add: turn_cost_def turn0_def cost_micros_def haiku_rates micros_f64_def tokens_f64_def fmul_def fadd_def
        in_i64_def i64_min_def i64_max_def)
  show ?thesis
    using overspend_bounded [of cost_db0 1 100 60 "[turn0, turn0, turn0]" cost_env0 7] c
    by (simp add: cost_env0_def cost_db0_def ledger_ok_def parents_ok_def tenant_cap_def)
qed

section \<open>The guard of the wiki engine\<close>

text \<open>
  Further: a request is billed at most once: once the guard has seen a request id, billing it again, whatever
  the tenant, usage or cost, succeeds and changes nothing.
\<close>

theorem redelivery_free:
  "let g1 = fst (guard_accrue env t u request usage c g)
   in guard_accrue env' t' u' request usage' c' g1 = (g1, None)"
  by (auto simp: guard_accrue_def Let_def split: sum.split)

text \<open>
  Further: a request whose billing failed is never billed: the id is recorded before the write, so the retry
  reports success and writes nothing.
\<close>

theorem failed_billing_lost:
  assumes "snd (guard_accrue env t u request usage c g) = Some e"
  shows "let g1 = fst (guard_accrue env t u request usage c g) in
     cg_db g1 = cg_db g \<and> guard_accrue env t u request usage c g1 = (g1, None)"
  using assms by (auto simp: guard_accrue_def Let_def split: sum.splits if_splits)

theorem failed_billing_lost_witness:
  "let g1 = fst (guard_accrue cost_env0 1 7 (str ''r1'') usage_default (i64_max + 1 - 1)
       \<lparr>cg_db = cost_db0\<lparr>cd_ledger := [new_row 1 Tenant_Scope None 20000 usage0 1 []]\<rparr>, cg_seen = {}\<rparr>) in
     cg_db g1 = cost_db0\<lparr>cd_ledger := [new_row 1 Tenant_Scope None 20000 usage0 1 []]\<rparr>
     \<and> guard_accrue cost_env0 1 7 (str ''r1'') usage_default (i64_max + 1 - 1) g1 = (g1, None)"
  using failed_billing_lost [of cost_env0 1 7 "str ''r1''" usage_default "i64_max + 1 - 1"
      "\<lparr>cg_db = cost_db0\<lparr>cd_ledger := [new_row 1 Tenant_Scope None 20000 usage0 1 []]\<rparr>, cg_seen = {}\<rparr>" "Guard_Db Out_Of_Range"]
  by (simp add: guard_accrue_def accrue_def ensure_parents_def ensure_tenant_def cost_db0_def cost_env0_def Let_def
      upsert_tenant_row_def update_tenant_row_def tenant_day_def bump_row_def new_row_def usage_in_i64_def usage_plus_def
      ledger_usage_def as_i64_cast_def usage_default_def usage0_def add_i64_def in_i64_def i64_max_def i64_min_def wrap_i64_def)

section \<open>Where the ledger falls short\<close>

text \<open>The days, tenants, providers, models and usages of live turns, in any order.\<close>

definition live_turns :: "(cost_env \<times> uuid \<times> rstr \<times> rstr \<times> canonical_usage) list \<Rightarrow> cost_db \<Rightarrow> cost_db" where
  "live_turns = fold (\<lambda>(env, t, p, m, usage). accrue_turn_cost env t p m usage)"

text \<open>
  Further: the per-user cap of the live path never trips: live turns leave every user's spend as it was, so a
  user who starts the day with nothing spent is below any positive cap for ever.
\<close>

theorem user_cap_never_trips:
  "day_total (user_day t u d) (live_turns turns db) = day_total (user_day t u d) db"
proof -
  have "day_total (user_day t u d) (accrue_turn_cost env t' p m usage db) = day_total (user_day t u d) db" for env t' p m usage db
    using upserted_other [OF accrue_tenant_upserted, of env t' "ledger_usage usage" "cost_micros m usage" p db]
    by (auto simp: accrue_turn_cost_def day_keys day_total_total split: sum.split)
  then show ?thesis unfolding live_turns_def by (induction turns arbitrary: db) auto
qed

text \<open>Two accruals whose updates both run before either insert commits.\<close>

definition racing_accruals :: "uuid \<Rightarrow> int \<Rightarrow> cost_usage \<times> i64 \<times> rstr \<Rightarrow> cost_usage \<times> i64 \<times> rstr \<Rightarrow> ledger_row list
    \<Rightarrow> ledger_row list db_result" where
  "racing_accruals t d a b rows =
     and_then (update_tenant_row t d (fst a) (fst (snd a)) rows) (\<lambda>(rows1, na).
     and_then (update_tenant_row t d (fst b) (fst (snd b)) rows1) (\<lambda>(rows2, nb).
     let rows3 = (if na = 0 then insert_tenant_row t d (fst a) (fst (snd a)) (snd (snd a)) rows2 else rows2) in
     Inr (if nb = 0 then insert_tenant_row t d (fst b) (fst (snd b)) (snd (snd b)) rows3 else rows3)))"

lemma update_where_none:
  "multiplicity k rows = 0 \<Longrightarrow> update_where (has_key k) f rows = Inr rows"
  by (induction rows) (auto simp: has_key_def split: if_splits)

lemma find_append_none: "find P xs = None \<Longrightarrow> find P (xs @ ys) = find P ys"
  by (induction xs) (auto split: if_splits)

text \<open>
  Further: two first accruals of a day that race leave two tenant rows (the unique constraint does not
  see null users). The ceiling check sums both, the daily read returns only the first, and every later
  accrual of that day is added to both rows, so it counts twice.
\<close>

theorem accrual_race:
  assumes "multiplicity (t, Tenant_Scope, None, d) rows = 0"
    and "racing_accruals t d a b rows = Inr rows2"
    and "upsert_tenant_row t d usage c p rows2 = Inr rows3"
  shows "multiplicity (t, Tenant_Scope, None, d) rows2 = 2
    \<and> total_of (t, Tenant_Scope, None, d) rows2 = fst (snd a) + fst (snd b)
    \<and> first_micros (tenant_day t d) (db\<lparr>cd_ledger := rows2\<rparr>) = fst (snd a)
    \<and> total_of (t, Tenant_Scope, None, d) rows3 = fst (snd a) + fst (snd b) + 2 * c"
proof -
  let ?k = "(t, Tenant_Scope, None :: uuid option, d)"
  have r2: "rows2 = rows @ [new_row t Tenant_Scope None d (fst a) (fst (snd a)) (snd (snd a)),
      new_row t Tenant_Scope None d (fst b) (fst (snd b)) (snd (snd b))]"
    using assms(1,2) update_where_none [OF assms(1)]
    by (auto simp: racing_accruals_def update_tenant_row_def tenant_day_key insert_tenant_row_def multiplicity_def)
  have z: "total_of ?k rows = 0" using assms(1) unfolding multiplicity_0 by (rule total_of_notin)
  have f: "find (has_key ?k) rows = None"
    using assms(1) by (simp add: multiplicity_def find_None_iff filter_empty_conv)
  have "find (has_key ?k) rows2 = Some (new_row t Tenant_Scope None d (fst a) (fst (snd a)) (snd (snd a)))"
    using f unfolding r2 by (simp add: find_append_none has_key_def)
  then show ?thesis using upserted_totals [OF upsert_tenant_row_upserted [OF assms(3)], of ?k] assms(1) z
    by (simp add: r2 first_micros_def tenant_day_key)
qed

theorem accrual_race_witness:
  "racing_accruals 1 0 (usage0, 3, str ''a'') (usage0, 4, str ''b'') [] =
     Inr [new_row 1 Tenant_Scope None 0 usage0 3 (str ''a''), new_row 1 Tenant_Scope None 0 usage0 4 (str ''b'')]
   \<and> total_of (1, Tenant_Scope, None, 0)
       [new_row 1 Tenant_Scope None 0 usage0 3 (str ''a''), new_row 1 Tenant_Scope None 0 usage0 4 (str ''b'')] = 3 + 4"
proof -
  let ?rows = "[new_row 1 Tenant_Scope None 0 usage0 3 (str ''a''), new_row 1 Tenant_Scope None 0 usage0 4 (str ''b'')]"
  have r: "racing_accruals 1 0 (usage0, 3, str ''a'') (usage0, 4, str ''b'') [] = Inr ?rows"
    by (simp add: racing_accruals_def update_tenant_row_def insert_tenant_row_def)
  have "room usage0 1 (1, Tenant_Scope, None, 0) ?rows"
    by (simp add: room_def new_row_def usage_in_i64_def usage_plus_def usage0_def in_i64_def i64_min_def i64_max_def)
  then obtain rows3 where u: "upsert_tenant_row 1 0 usage0 1 (str ''c'') ?rows = Inr rows3" using upsert_tenant_room by blast
  show ?thesis using accrual_race [OF _ r u] r by simp
qed

text \<open>
  Further: the breakdown by provider is the first provider's alone: an accrual on an existing row grows the
  total and leaves the breakdown as the first accrual of the day wrote it.
\<close>

theorem breakdown_frozen:
  assumes "upsert_tenant_row t d usage c provider rows = Inr rows'" "multiplicity (t, Tenant_Scope, None, d) rows \<noteq> 0"
  shows "map lg_breakdown rows' = map lg_breakdown rows
    \<and> total_of (t, Tenant_Scope, None, d) rows' = total_of (t, Tenant_Scope, None, d) rows
        + c * int (multiplicity (t, Tenant_Scope, None, d) rows)"
proof -
  let ?k = "(t, Tenant_Scope, None :: uuid option, d)"
  have U: "update_where (has_key ?k) (bump_row usage c) rows = Inr rows'"
    using assms by (auto simp: upsert_tenant_row_def update_tenant_row_def tenant_day_key multiplicity_def)
  show ?thesis using update_where_bump [OF U, of ?k] by simp
qed

theorem breakdown_frozen_witness:
  "\<exists>rows'. upsert_tenant_row 1 0 usage0 9 (str ''anthropic'') [new_row 1 Tenant_Scope None 0 usage0 3 (str ''openai'')] = Inr rows'
     \<and> map lg_breakdown rows' = [[(str ''openai'', 3)]]"
proof -
  let ?rows = "[new_row 1 Tenant_Scope None 0 usage0 3 (str ''openai'')]"
  have "room usage0 9 (1, Tenant_Scope, None, 0) ?rows"
    by (simp add: room_def new_row_def usage_in_i64_def usage_plus_def usage0_def in_i64_def i64_min_def i64_max_def)
  then obtain rows' where u: "upsert_tenant_row 1 0 usage0 9 (str ''anthropic'') ?rows = Inr rows'" using upsert_tenant_room by blast
  then show ?thesis using breakdown_frozen [OF u] by (simp add: new_row_def row_key_def)
qed

section \<open>Tokens billed twice\<close>

text \<open>The usage object of the chat-completions wire, and what its tokens cost when the cached ones are
  part of the prompt and the reasoning ones part of the completion, as that wire documents them.\<close>

definition chat_usage :: "u64 \<Rightarrow> u64 \<Rightarrow> u64 \<Rightarrow> u64 \<Rightarrow> jvalue" where
  "chat_usage p ca co re =
     json_obj [(''prompt_tokens'', JNumber (PosInt p)), (''completion_tokens'', JNumber (PosInt co)),
       (''prompt_tokens_details'', json_obj [(''cached_tokens'', JNumber (PosInt ca))]),
       (''completion_tokens_details'', json_obj [(''reasoning_tokens'', JNumber (PosInt re))])]"

definition wire_price :: "rat \<Rightarrow> rat \<Rightarrow> u64 \<Rightarrow> u64 \<Rightarrow> u64 \<Rightarrow> rat" where
  "wire_price i out p ca co =
     (of_int (uint p) - of_int (uint ca)) * i + of_int (uint ca) * i * 0.1 + of_int (uint co) * out"

text \<open>
  Further: a chat-completions turn is billed its reasoning tokens a second time at the output rate, and its cached
  tokens at the full input rate besides the cache rate.
\<close>

theorem tokens_billed_twice:
  "\<exists>u. usage_from_chat (chat_usage p ca co re) = Some u
     \<and> exact_price i out u = wire_price i out p ca co
         + of_int (uint ca) * i + of_int (uint re) * out"
proof -
  let ?u = "\<lparr>u_input = p, u_output = co, u_cache_read = ca, u_cache_write = 0, u_reasoning = re\<rparr>"
  have "usage_from_chat (chat_usage p ca co re) = Some ?u"
    by (simp add: usage_from_chat_def chat_usage_def json_obj_def str_def nested_u64_def or_else_def positive_def the_or_def word_gt_0)
  then show ?thesis by (auto simp: exact_price_def wire_price_def algebra_simps)
qed

end
