(* ===== verification/Vault.thy ===== *)
theory Vault
  imports Pool Auth Utf8
begin

text \<open>
  The key vault: the envelope of the \<open>secrets\<close> crate and of \<open>app-server/src/vault/secrets.rs\<close>, the
  vault routes (\<open>app-server/src/vault/routes.rs\<close>), the credentials repository
  (\<open>store/src/creds_repo.rs\<close>) and the resolver that loads the credential pool and writes its status back
  (\<open>app-server/src/dispatch/resolver.rs\<close>).

  AES-256-GCM is a parameter (\<open>aead\<close>), as are random bytes, the text of a uuid, new ids, the database clock
  and its collation. Bytes
  are natural numbers below 256. Times of the database are microseconds. A key of the wrong length is
  an error of the cipher's constructor and a nonce of the wrong length is a panic, the outcome \<open>None\<close>.
\<close>

section \<open>The envelope\<close>

type_synonym bytes = "nat list"

record aead =
  aead_encrypt :: "bytes \<Rightarrow> bytes \<Rightarrow> bytes \<Rightarrow> bytes \<Rightarrow> bytes option"  \<comment> \<open>key, nonce, associated data, message\<close>
  aead_decrypt :: "bytes \<Rightarrow> bytes \<Rightarrow> bytes \<Rightarrow> bytes \<Rightarrow> bytes option"

datatype secret_error = Kms_Unwrap | Aead_Decrypt | Aead_Encrypt

text \<open>The key encryption service: the stub with a public key, and the one with the server's master key.\<close>

datatype kms = Stub_Kms | Env_Kms bytes

definition LEGACY_STUB_KEK :: nat where "LEGACY_STUB_KEK = 0x5A"

definition ENV_WRAP_V1 :: nat where "ENV_WRAP_V1 = 1"

definition xor_stub :: "bytes \<Rightarrow> bytes" where
  "xor_stub = map (\<lambda>b. xor b LEGACY_STUB_KEK)"

definition env_kms_from_bytes :: "bytes \<Rightarrow> kms option" where
  "env_kms_from_bytes master = (if length master < 32 then None else Some (Env_Kms (take 32 master)))"

text \<open>\<open>nonce\<close> is the random nonce the wrapping draws.\<close>

definition wrap_dek :: "aead \<Rightarrow> bytes \<Rightarrow> kms \<Rightarrow> bytes \<Rightarrow> bytes \<Rightarrow> bytes" where
  "wrap_dek cr nonce k dek tenant = (case k of
       Stub_Kms \<Rightarrow> xor_stub dek
     | Env_Kms kek \<Rightarrow> ENV_WRAP_V1 # nonce @ the_or [] (aead_encrypt cr kek nonce tenant dek))"

definition unwrap_dek :: "aead \<Rightarrow> kms \<Rightarrow> bytes \<Rightarrow> bytes \<Rightarrow> secret_error + bytes" where
  "unwrap_dek cr k wrapped tenant = (case k of
       Stub_Kms \<Rightarrow> Inr (xor_stub wrapped)
     | Env_Kms kek \<Rightarrow> (case wrapped of
         [] \<Rightarrow> Inr (xor_stub wrapped)
       | v # rest \<Rightarrow> if v = ENV_WRAP_V1 \<and> 12 + 16 \<le> length rest
           then (case aead_decrypt cr kek (take 12 rest) tenant (drop 12 rest) of
                   Some dek \<Rightarrow> Inr dek | None \<Rightarrow> Inl Kms_Unwrap)
           else Inr (xor_stub wrapped)))"

record encrypted_credential =
  ec_ciphertext :: bytes
  ec_nonce :: bytes
  ec_dek :: bytes

text \<open>\<open>seal_random\<close>: the data key and the two nonces are random bytes of the right lengths.\<close>

record seal_random_bytes =
  rb_dek :: bytes
  rb_nonce :: bytes
  rb_wrap_nonce :: bytes

definition seal_random :: "aead \<Rightarrow> seal_random_bytes \<Rightarrow> kms \<Rightarrow> bytes \<Rightarrow> bytes \<Rightarrow> secret_error + encrypted_credential" where
  "seal_random cr rb k plaintext tenant =
     (case aead_encrypt cr (rb_dek rb) (rb_nonce rb) tenant plaintext of
        None \<Rightarrow> Inl Aead_Encrypt
      | Some ct \<Rightarrow> Inr \<lparr>ec_ciphertext = ct, ec_nonce = rb_nonce rb,
                        ec_dek = wrap_dek cr (rb_wrap_nonce rb) k (rb_dek rb) tenant\<rparr>)"

definition decrypt_with_tenant :: "aead \<Rightarrow> kms \<Rightarrow> encrypted_credential \<Rightarrow> bytes \<Rightarrow> (secret_error + bytes) option" where
  "decrypt_with_tenant cr k enc tenant =
     (case unwrap_dek cr k (ec_dek enc) tenant of
        Inl e \<Rightarrow> Some (Inl e)
      | Inr dek \<Rightarrow>
          if length dek \<noteq> 32 then Some (Inl Aead_Decrypt)
          else if length (ec_nonce enc) \<noteq> 12 then None
          else Some (case aead_decrypt cr dek (ec_nonce enc) tenant (ec_ciphertext enc) of
                       Some pt \<Rightarrow> Inr pt | None \<Rightarrow> Inl Aead_Decrypt))"

definition GCM_TAG_LEN :: nat where "GCM_TAG_LEN = 16"

record sealed_key =
  sk_ciphertext :: bytes
  sk_nonce :: bytes
  sk_tag :: bytes
  sk_dek :: bytes
  sk_kek :: rstr
  sk_hint :: rstr

text \<open>The last three characters behind an ellipsis.\<close>

definition hint_of_key :: "rstr \<Rightarrow> rstr" where
  "hint_of_key plaintext = 8230 # rev (take 3 (rev plaintext))"

record vault_env =
  ve_aead :: aead
  ve_kms :: kms
  ve_kek_id :: rstr
  ve_uuid_text :: "uuid \<Rightarrow> rstr"
  ve_collate :: "rstr \<Rightarrow> rstr \<Rightarrow> bool"

definition tenant_aad :: "vault_env \<Rightarrow> uuid \<Rightarrow> bytes" where
  "tenant_aad env t = as_bytes (ve_uuid_text env t)"

definition seal :: "vault_env \<Rightarrow> seal_random_bytes \<Rightarrow> uuid \<Rightarrow> rstr \<Rightarrow> secret_error + sealed_key" where
  "seal env rb t plaintext =
     (case seal_random (ve_aead env) rb (ve_kms env) (as_bytes plaintext) (tenant_aad env t) of
        Inl e \<Rightarrow> Inl e
      | Inr enc \<Rightarrow> (let ct = ec_ciphertext enc; n = length ct - GCM_TAG_LEN in
          Inr \<lparr>sk_ciphertext = (if GCM_TAG_LEN \<le> length ct then take n ct else ct), sk_nonce = ec_nonce enc,
               sk_tag = (if GCM_TAG_LEN \<le> length ct then drop n ct else []), sk_dek = ec_dek enc,
               sk_kek = ve_kek_id env, sk_hint = hint_of_key plaintext\<rparr>))"

definition open_sealed :: "vault_env \<Rightarrow> uuid \<Rightarrow> sealed_key \<Rightarrow> (secret_error + bytes) option" where
  "open_sealed env t s = decrypt_with_tenant (ve_aead env) (ve_kms env)
     \<lparr>ec_ciphertext = sk_ciphertext s @ sk_tag s, ec_nonce = sk_nonce s, ec_dek = sk_dek s\<rparr> (tenant_aad env t)"

section \<open>The credentials table\<close>

datatype db_status = Db_Ok | Db_Exhausted | Db_Dead

record cred_row =
  cr_id :: uuid
  cr_tenant :: uuid
  cr_provider :: rstr
  cr_label :: "rstr option"
  cr_priority :: int
  cr_sealed :: sealed_key
  cr_status :: db_status
  cr_cooldown :: "int option"
  cr_error_code :: "int option"
  cr_error_reason :: "rstr option"
  cr_requests :: i64
  cr_dead_at :: "int option"
  cr_created :: int

definition cr_hint :: "cred_row \<Rightarrow> rstr" where "cr_hint r = sk_hint (cr_sealed r)"

record vault_db =
  vd_creds :: "cred_row list"
  vd_auth :: auth_db

definition status_text :: "db_status \<Rightarrow> rstr" where
  "status_text s = (case s of Db_Ok \<Rightarrow> str ''ok'' | Db_Exhausted \<Rightarrow> str ''exhausted'' | Db_Dead \<Rightarrow> str ''dead'')"

section \<open>The routes\<close>

record put_key_req =
  pk_provider :: rstr
  pk_label :: "rstr option"
  pk_key :: rstr
  pk_priority :: int

definition opt_str :: "rstr option \<Rightarrow> jvalue" where
  "opt_str x = (case x of None \<Rightarrow> JNull | Some s \<Rightarrow> JString s)"

text \<open>The upsert: the row with this tenant, provider and hint is refreshed, or a new one is added.\<close>

definition same_slot :: "uuid \<Rightarrow> rstr \<Rightarrow> rstr \<Rightarrow> cred_row \<Rightarrow> bool" where
  "same_slot t p h r \<longleftrightarrow> cr_tenant r = t \<and> cr_provider r = p \<and> cr_hint r = h"

definition refresh_row :: "put_key_req \<Rightarrow> sealed_key \<Rightarrow> cred_row \<Rightarrow> cred_row" where
  "refresh_row rq s r = r\<lparr>cr_label := pk_label rq, cr_priority := pk_priority rq, cr_sealed := s,
     cr_status := Db_Ok, cr_cooldown := None, cr_dead_at := None\<rparr>"

definition fresh_row :: "uuid \<Rightarrow> int \<Rightarrow> uuid \<Rightarrow> put_key_req \<Rightarrow> sealed_key \<Rightarrow> cred_row" where
  "fresh_row new_id now t rq s = \<lparr>cr_id = new_id, cr_tenant = t, cr_provider = pk_provider rq, cr_label = pk_label rq,
     cr_priority = pk_priority rq, cr_sealed = s, cr_status = Db_Ok, cr_cooldown = None, cr_error_code = None,
     cr_error_reason = None, cr_requests = 0, cr_dead_at = None, cr_created = now\<rparr>"

definition upsert_cred :: "uuid \<Rightarrow> int \<Rightarrow> uuid \<Rightarrow> put_key_req \<Rightarrow> sealed_key \<Rightarrow> cred_row list \<Rightarrow> uuid \<times> cred_row list" where
  "upsert_cred new_id now t rq s rows =
     (case find (same_slot t (pk_provider rq) (sk_hint s)) rows of
        Some r \<Rightarrow> (cr_id r, map (\<lambda>r. if same_slot t (pk_provider rq) (sk_hint s) r then refresh_row rq s r else r) rows)
      | None \<Rightarrow> (new_id, rows @ [fresh_row new_id now t rq s]))"

definition put_key :: "vault_env \<Rightarrow> seal_random_bytes \<Rightarrow> uuid \<Rightarrow> int \<Rightarrow> tenant_ctx \<Rightarrow> put_key_req \<Rightarrow> vault_db
    \<Rightarrow> (http_error + jvalue) \<times> vault_db" where
  "put_key env rb new_id now cx rq db =
     (case seal env rb (cx_tenant cx) (pk_key rq) of
        Inl e \<Rightarrow> (Inl (Other_Error []), db)
      | Inr s \<Rightarrow> (let (i, rows) = upsert_cred new_id now (cx_tenant cx) rq s (vd_creds db) in
          (Inr (redact_json (json_obj [(''id'', JString (ve_uuid_text env i)), (''provider'', JString (pk_provider rq)),
              (''label'', opt_str (pk_label rq)), (''key_hint'', JString (sk_hint s)), (''status'', JString (str ''ok''))])),
           db\<lparr>vd_creds := rows,
              vd_auth := audit (Some (cx_tenant cx)) (Some (cx_user cx)) ''cred.add''
                (json_obj [(''provider'', JString (pk_provider rq)), (''key_hint'', JString (sk_hint s))]) (vd_auth db)\<rparr>)))"

text \<open>Listing first clears the tenant's cooldowns that have passed. \<open>ORDER BY provider, priority\<close> is a
  stable sort of the scan order; \<open>time_json\<close> prints a time.\<close>

definition heal_row :: "int \<Rightarrow> uuid \<Rightarrow> cred_row \<Rightarrow> cred_row" where
  "heal_row now t r =
     (if cr_tenant r = t \<and> cr_status r = Db_Exhausted \<and> (case cr_cooldown r of None \<Rightarrow> False | Some c \<Rightarrow> c \<le> now)
      then r\<lparr>cr_status := Db_Ok, cr_cooldown := None\<rparr> else r)"

definition row_before :: "vault_env \<Rightarrow> cred_row \<Rightarrow> cred_row \<Rightarrow> bool" where
  "row_before env a b \<longleftrightarrow> (if cr_provider a = cr_provider b then cr_priority a \<le> cr_priority b
     else ve_collate env (cr_provider a) (cr_provider b))"

fun insert_key_row :: "vault_env \<Rightarrow> cred_row \<Rightarrow> cred_row list \<Rightarrow> cred_row list" where
  "insert_key_row env r [] = [r]"
| "insert_key_row env r (x # xs) = (if row_before env r x then r # x # xs else x # insert_key_row env r xs)"

definition sort_rows :: "vault_env \<Rightarrow> cred_row list \<Rightarrow> cred_row list" where
  "sort_rows env rows = foldr (insert_key_row env) rows []"

definition key_item :: "vault_env \<Rightarrow> (int option \<Rightarrow> jvalue) \<Rightarrow> cred_row \<Rightarrow> jvalue" where
  "key_item env time_json r =
     json_obj [(''id'', JString (ve_uuid_text env (cr_id r))), (''provider'', JString (cr_provider r)),
       (''label'', opt_str (cr_label r)), (''key_hint'', JString (cr_hint r)),
       (''status'', JString (status_text (cr_status r))), (''cooldown_until'', time_json (cr_cooldown r))]"

definition list_keys :: "vault_env \<Rightarrow> (int option \<Rightarrow> jvalue) \<Rightarrow> int \<Rightarrow> tenant_ctx \<Rightarrow> vault_db \<Rightarrow> jvalue \<times> vault_db" where
  "list_keys env time_json now cx db =
     (let rows = map (heal_row now (cx_tenant cx)) (vd_creds db);
          items = map (key_item env time_json) (sort_rows env (filter (\<lambda>r. cr_tenant r = cx_tenant cx) rows)) in
      (redact_json (json_obj [(''keys'', JArray items)]), db\<lparr>vd_creds := rows\<rparr>))"

definition delete_key :: "vault_env \<Rightarrow> tenant_ctx \<Rightarrow> uuid \<Rightarrow> vault_db \<Rightarrow> jvalue \<times> vault_db" where
  "delete_key env cx i db =
     (redact_json (json_obj [(''deleted'', JString (ve_uuid_text env i))]),
      db\<lparr>vd_creds := filter (\<lambda>r. \<not> (cr_tenant r = cx_tenant cx \<and> cr_id r = i)) (vd_creds db),
         vd_auth := audit (Some (cx_tenant cx)) (Some (cx_user cx)) ''cred.delete''
           (json_obj [(''id'', JString (ve_uuid_text env i))]) (vd_auth db)\<rparr>)"

section \<open>The resolver\<close>

definition status_from_db :: "db_status \<Rightarrow> i64 option \<Rightarrow> cred_status" where
  "status_from_db s cooldown_ms = (case s of
       Db_Dead \<Rightarrow> Dead | Db_Exhausted \<Rightarrow> Exhausted (the_or 0 cooldown_ms) | Db_Ok \<Rightarrow> CredOk)"

text \<open>Microseconds to whole milliseconds as \<open>(EXTRACT(EPOCH ..) * 1000)::BIGINT\<close> rounds: to the nearest,
  halves away from zero.\<close>

definition us_to_ms :: "int \<Rightarrow> i64" where
  "us_to_ms x = (if 0 \<le> x then (x + 500) div 1000 else - ((500 - x) div 1000))"

definition load_cred :: "cred_row \<Rightarrow> pooled_credential" where
  "load_cred r = \<lparr>cred_id = cr_id r, label = cr_label r, priority = cr_priority r,
     status = status_from_db (cr_status r) (map_option us_to_ms (cr_cooldown r)), key_hint = cr_hint r,
     last_error_code = map_option word_of_int (cr_error_code r), last_error_reason = cr_error_reason r,
     request_count = word_of_int (max 0 (cr_requests r))\<rparr>"

definition provider_rows :: "uuid \<Rightarrow> rstr \<Rightarrow> cred_row list \<Rightarrow> cred_row list" where
  "provider_rows t p rows = filter (\<lambda>r. cr_tenant r = t \<and> cr_provider r = p) rows"

text \<open>\<open>None\<close> is the error \<open>NotFound\<close>.\<close>

definition pool_for :: "uuid \<Rightarrow> rstr \<Rightarrow> vault_db \<Rightarrow> credential_pool option" where
  "pool_for t p db =
     (let rows = provider_rows t p (vd_creds db) in
      if rows = [] then None else Some (pool_new (map load_cred rows) FillFirst))"

datatype resolver_error = Resolve_Not_Found | Resolve_Decrypt secret_error

definition resolver_decrypt :: "vault_env \<Rightarrow> uuid \<Rightarrow> uuid \<Rightarrow> vault_db \<Rightarrow> (resolver_error + bytes) option" where
  "resolver_decrypt env t i db =
     (case find (\<lambda>r. cr_tenant r = t \<and> cr_id r = i) (vd_creds db) of
        None \<Rightarrow> Some (Inl Resolve_Not_Found)
      | Some r \<Rightarrow> (let s = cr_sealed r;
            ct = (if sk_tag s \<noteq> [] \<or> length (sk_ciphertext s) < GCM_TAG_LEN then sk_ciphertext s @ sk_tag s else sk_ciphertext s) in
          map_option (\<lambda>res. case res of Inl e \<Rightarrow> Inl (Resolve_Decrypt e) | Inr pt \<Rightarrow> Inr pt)
            (decrypt_with_tenant (ve_aead env) (ve_kms env)
               \<lparr>ec_ciphertext = ct, ec_nonce = sk_nonce s, ec_dek = sk_dek s\<rparr> (tenant_aad env t))))"

text \<open>The write-back of one row. \<open>now\<close> is the transaction time of the database, \<open>now_ms\<close> the clock of the server.\<close>

definition persist_row :: "int \<Rightarrow> i64 \<Rightarrow> credential_pool \<Rightarrow> cred_row \<Rightarrow> cred_row" where
  "persist_row now now_ms pool r =
     (case find_hint pool (cr_hint r) of
        None \<Rightarrow> r
      | Some c \<Rightarrow> (case status c of
          Dead \<Rightarrow> if cr_status r \<noteq> Db_Dead then r\<lparr>cr_status := Db_Dead, cr_dead_at := Some now\<rparr> else r
        | Exhausted until \<Rightarrow> r\<lparr>cr_status := Db_Exhausted, cr_cooldown := Some (now + 1000 * max 0 (until - now_ms))\<rparr>
        | CredOk \<Rightarrow> if cr_status r = Db_Exhausted
                    then r\<lparr>cr_status := Db_Ok, cr_cooldown := None, cr_error_code := None\<rparr> else r))"

definition persist_transitions :: "int \<Rightarrow> i64 \<Rightarrow> uuid \<Rightarrow> rstr \<Rightarrow> credential_pool \<Rightarrow> vault_db \<Rightarrow> vault_db" where
  "persist_transitions now now_ms t p pool db =
     db\<lparr>vd_creds := map (\<lambda>r. if cr_tenant r = t \<and> cr_provider r = p then persist_row now now_ms pool r else r) (vd_creds db)\<rparr>"

section \<open>The credentials repository\<close>

text \<open>Its mutations act on the rows of the tenant it was last given; without one they fail (\<open>None\<close>).\<close>

record creds_repo =
  repo_tenant :: "uuid option"

definition set_tenant_guc :: "uuid \<Rightarrow> creds_repo \<Rightarrow> creds_repo" where
  "set_tenant_guc t repo = repo\<lparr>repo_tenant := Some t\<rparr>"

definition repo_update :: "creds_repo \<Rightarrow> uuid \<Rightarrow> (cred_row \<Rightarrow> cred_row) \<Rightarrow> vault_db \<Rightarrow> vault_db option" where
  "repo_update repo i f db = map_option (\<lambda>t. db\<lparr>vd_creds :=
     map (\<lambda>r. if cr_tenant r = t \<and> cr_id r = i then f r else r) (vd_creds db)\<rparr>) (repo_tenant repo)"

definition repo_mark_exhausted :: "creds_repo \<Rightarrow> int \<Rightarrow> uuid \<Rightarrow> vault_db \<Rightarrow> vault_db option" where
  "repo_mark_exhausted repo now i =
     repo_update repo i (\<lambda>r. r\<lparr>cr_status := Db_Exhausted, cr_cooldown := Some (now + 3600 * 1000000)\<rparr>)"

definition repo_mark_dead :: "creds_repo \<Rightarrow> int \<Rightarrow> uuid \<Rightarrow> vault_db \<Rightarrow> vault_db option" where
  "repo_mark_dead repo now i =
     repo_update repo i (\<lambda>r. if cr_status r \<noteq> Db_Dead then r\<lparr>cr_status := Db_Dead, cr_dead_at := Some now\<rparr> else r)"

record cred_listing =
  cl_id :: uuid
  cl_provider :: rstr
  cl_status :: rstr
  cl_hint :: rstr

definition repo_list :: "uuid \<Rightarrow> rstr \<Rightarrow> vault_db \<Rightarrow> cred_listing list" where
  "repo_list t p db = map (\<lambda>r. \<lparr>cl_id = cr_id r, cl_provider = cr_provider r, cl_status = status_text (cr_status r),
     cl_hint = cr_hint r\<rparr>) (provider_rows t p (vd_creds db))"

end
