(* ===== verification/Vault_Safety.thy ===== *)
theory Vault_Safety
  imports Vault
begin

text \<open>
  What the key vault guarantees: a stored key decrypts to what was stored, responses reveal nothing of the
  sealed columns, tenants are isolated, a (tenant, provider, hint) slot holds one row, and the status
  written back from a pool is the status the next pool loads; and where it falls short: two keys with the
  same last characters, a stale write that revives a dead key, data keys of the old format.
\<close>

section \<open>The envelope\<close>

text \<open>The documented behaviour of AES-256-GCM with keys of 32 and nonces of 12 bytes: encryption
  succeeds and appends a tag of 16 bytes, decryption inverts it.\<close>

definition aead_laws :: "aead \<Rightarrow> bool" where
  "aead_laws cr \<longleftrightarrow> (\<forall>k n a m. length k = 32 \<and> length n = 12 \<longrightarrow>
     (\<exists>c. aead_encrypt cr k n a m = Some c \<and> length c = length m + 16 \<and> aead_decrypt cr k n a c = Some m))"

definition kms_ok :: "kms \<Rightarrow> bool" where
  "kms_ok k \<longleftrightarrow> (case k of Stub_Kms \<Rightarrow> True | Env_Kms kek \<Rightarrow> length kek = 32)"

definition random_ok :: "seal_random_bytes \<Rightarrow> bool" where
  "random_ok rb \<longleftrightarrow> length (rb_dek rb) = 32 \<and> length (rb_nonce rb) = 12 \<and> length (rb_wrap_nonce rb) = 12"

lemma aead_lawsD:
  "aead_laws cr \<Longrightarrow> length k = 32 \<Longrightarrow> length n = 12 \<Longrightarrow>
     \<exists>c. aead_encrypt cr k n a m = Some c \<and> length c = length m + 16 \<and> aead_decrypt cr k n a c = Some m"
  by (simp add: aead_laws_def)

lemma env_kms_ok: "env_kms_from_bytes master = Some k \<Longrightarrow> kms_ok k"
  by (auto simp: env_kms_from_bytes_def kms_ok_def split: if_splits)

lemma xor_stub_twice [simp]: "xor_stub (xor_stub bs) = bs"
  by (simp add: xor_stub_def xor.assoc list.map_comp comp_def)

lemma length_xor_stub [simp]: "length (xor_stub bs) = length bs"
  by (simp add: xor_stub_def)

lemma unwrap_wrap:
  assumes "aead_laws cr" "kms_ok k" "length nonce = 12" "length dek = 32"
  shows "unwrap_dek cr k (wrap_dek cr nonce k dek tenant) tenant = Inr dek"
proof (cases k)
  case Stub_Kms
  then show ?thesis by (simp add: wrap_dek_def unwrap_dek_def)
next
  case (Env_Kms kek)
  then obtain c where "aead_encrypt cr kek nonce tenant dek = Some c" "length c = 48" "aead_decrypt cr kek nonce tenant c = Some dek"
    using aead_lawsD [OF assms(1), of kek nonce tenant dek] assms by (auto simp: kms_ok_def)
  then show ?thesis using Env_Kms assms(3) by (simp add: wrap_dek_def unwrap_dek_def the_or_def)
qed

lemma seal_open:
  assumes "aead_laws (ve_aead env)" "kms_ok (ve_kms env)" "random_ok rb"
  shows "\<exists>s. seal env rb t key = Inr s \<and> sk_hint s = hint_of_key key \<and> length (sk_tag s) = 16
    \<and> open_sealed env t s = Some (Inr (as_bytes key))"
proof -
  obtain c where c: "aead_encrypt (ve_aead env) (rb_dek rb) (rb_nonce rb) (tenant_aad env t) (as_bytes key) = Some c"
    "length c = length (as_bytes key) + 16"
    "aead_decrypt (ve_aead env) (rb_dek rb) (rb_nonce rb) (tenant_aad env t) c = Some (as_bytes key)"
    using aead_lawsD [OF assms(1), of "rb_dek rb" "rb_nonce rb"] assms(3) by (auto simp: random_ok_def)
  have u: "unwrap_dek (ve_aead env) (ve_kms env)
      (wrap_dek (ve_aead env) (rb_wrap_nonce rb) (ve_kms env) (rb_dek rb) (tenant_aad env t)) (tenant_aad env t) = Inr (rb_dek rb)"
    using unwrap_wrap assms by (simp add: random_ok_def)
  show ?thesis using c u assms(3)
    by (simp add: seal_def seal_random_def open_sealed_def decrypt_with_tenant_def GCM_TAG_LEN_def Let_def random_ok_def)
qed

lemma resolver_open:
  assumes "find (\<lambda>r. cr_tenant r = t \<and> cr_id r = i) (vd_creds db) = Some r" "sk_tag (cr_sealed r) \<noteq> []"
  shows "resolver_decrypt env t i db =
    map_option (\<lambda>res. case res of Inl e \<Rightarrow> Inl (Resolve_Decrypt e) | Inr pt \<Rightarrow> Inr pt) (open_sealed env t (cr_sealed r))"
  using assms by (simp add: resolver_decrypt_def open_sealed_def Let_def)

section \<open>The table\<close>

definition slot :: "cred_row \<Rightarrow> uuid \<times> rstr \<times> rstr" where
  "slot r = (cr_tenant r, cr_provider r, cr_hint r)"

definition creds_ok :: "cred_row list \<Rightarrow> bool" where
  "creds_ok rows \<longleftrightarrow> distinct (map cr_id rows) \<and> distinct (map slot rows)"

lemma same_slot_iff: "same_slot t p h r \<longleftrightarrow> slot r = (t, p, h)"
  by (auto simp: same_slot_def slot_def)

lemma refresh_row_facts [simp]:
  "cr_id (refresh_row rq s r) = cr_id r" "cr_tenant (refresh_row rq s r) = cr_tenant r"
  "cr_provider (refresh_row rq s r) = cr_provider r" "cr_hint (refresh_row rq s r) = sk_hint s"
  "cr_sealed (refresh_row rq s r) = s"
  by (simp_all add: refresh_row_def cr_hint_def)

lemma fresh_row_facts [simp]:
  "cr_id (fresh_row i now t rq s) = i" "slot (fresh_row i now t rq s) = (t, pk_provider rq, sk_hint s)"
  "cr_sealed (fresh_row i now t rq s) = s" "cr_tenant (fresh_row i now t rq s) = t"
  by (simp_all add: fresh_row_def slot_def cr_hint_def)

lemma upsert_slots:
  "slot (if same_slot t p (sk_hint s) r then refresh_row rq s r else r) = slot r"
  by (auto simp: same_slot_def slot_def)

lemma find_unique_by:
  assumes "distinct (map f xs)" "x \<in> set xs" "P x" "\<And>y. P y \<Longrightarrow> f y = f x"
  shows "find P xs = Some x \<and> filter P xs = [x]"
proof -
  have "y = x" if "y \<in> set xs" "P y" for y
    using assms(1,2) assms(4) [OF that(2)] that(1) by (auto simp: distinct_map dest: inj_onD)
  then have f: "filter P xs = filter (\<lambda>y. y = x) xs" using assms(3) by (intro filter_cong) auto
  have "distinct xs" using assms(1) by (simp add: distinct_map)
  then have "filter (\<lambda>y. y = x) xs = [x]" using assms(2) by (induction xs) (auto simp: filter_empty_conv)
  then have g: "filter P xs = [x]" using f by simp
  have "find P xs = (case filter P xs of [] \<Rightarrow> None | y # ys \<Rightarrow> Some y)" by (induction xs) auto
  then show ?thesis using g by simp
qed

lemma upsert_cred_ok:
  assumes "creds_ok rows" "new_id \<notin> cr_id ` set rows" "upsert_cred new_id now t rq s rows = (i, rows')"
  shows "creds_ok rows' \<and> (\<exists>r \<in> set rows'. cr_id r = i \<and> slot r = (t, pk_provider rq, sk_hint s) \<and> cr_sealed r = s)"
proof (cases "find (same_slot t (pk_provider rq) (sk_hint s)) rows")
  case None
  then have "(t, pk_provider rq, sk_hint s) \<notin> slot ` set rows" by (auto simp: find_None_iff same_slot_iff)
  then show ?thesis using assms None by (auto simp: upsert_cred_def creds_ok_def)
next
  case (Some r)
  let ?f = "\<lambda>r. if same_slot t (pk_provider rq) (sk_hint s) r then refresh_row rq s r else r"
  have r: "r \<in> set rows" "same_slot t (pk_provider rq) (sk_hint s) r" using Some by (auto simp: find_Some_iff)
  have eq: "i = cr_id r" "rows' = map ?f rows" using assms(3) Some by (auto simp: upsert_cred_def)
  have m: "map cr_id rows' = map cr_id rows" "map slot rows' = map slot rows"
    unfolding eq by (simp_all add: upsert_slots)
  have f: "?f r = refresh_row rq s r" using r(2) by simp
  have "refresh_row rq s r \<in> set rows'" using imageI [OF r(1), of ?f] unfolding eq(2) f by (simp only: set_map)
  moreover have "slot (refresh_row rq s r) = (t, pk_provider rq, sk_hint s)"
    using upsert_slots [of t "pk_provider rq" s r rq] r(2) by (simp add: same_slot_iff)
  moreover have "creds_ok rows'" using assms(1) m by (simp add: creds_ok_def)
  ultimately show ?thesis using eq(1) by (intro conjI bexI [of _ "refresh_row rq s r"]) simp_all
qed

lemma put_key_Inr:
  assumes "fst (put_key env rb new_id now cx rq db) = Inr resp"
  obtains s i rows where "seal env rb (cx_tenant cx) (pk_key rq) = Inr s"
    "upsert_cred new_id now (cx_tenant cx) rq s (vd_creds db) = (i, rows)"
    "vd_creds (snd (put_key env rb new_id now cx rq db)) = rows"
  using assms that by (auto simp: put_key_def Let_def split: sum.splits prod.splits)

lemma seal_hint: "seal env rb t key = Inr s \<Longrightarrow> sk_hint s = hint_of_key key"
  by (auto simp: seal_def Let_def split: sum.splits)

text \<open>
  C31: a key stored through the route is there, and the resolver decrypts the row to exactly the bytes of
  the key, through the random data key, the split tag and the key encryption service.
\<close>

theorem vault_roundtrip:
  assumes "aead_laws (ve_aead env)" "kms_ok (ve_kms env)" "random_ok rb"
    and "creds_ok (vd_creds db)" "new_id \<notin> cr_id ` set (vd_creds db)"
  shows "\<exists>resp db' r. put_key env rb new_id now cx rq db = (Inr resp, db') \<and> r \<in> set (vd_creds db')
    \<and> slot r = (cx_tenant cx, pk_provider rq, hint_of_key (pk_key rq))
    \<and> resolver_decrypt env (cx_tenant cx) (cr_id r) db' = Some (Inr (as_bytes (pk_key rq)))"
proof -
  obtain s where s: "seal env rb (cx_tenant cx) (pk_key rq) = Inr s" "sk_hint s = hint_of_key (pk_key rq)"
    "length (sk_tag s) = 16" "open_sealed env (cx_tenant cx) s = Some (Inr (as_bytes (pk_key rq)))"
    using seal_open [OF assms(1-3)] by blast
  obtain i rows where U: "upsert_cred new_id now (cx_tenant cx) rq s (vd_creds db) = (i, rows)" by fastforce
  define db' where "db' = snd (put_key env rb new_id now cx rq db)"
  obtain resp where P: "put_key env rb new_id now cx rq db = (Inr resp, db')" and d: "vd_creds db' = rows"
    using s(1) U by (auto simp: put_key_def db'_def)
  obtain r where r: "r \<in> set rows" "cr_id r = i" "slot r = (cx_tenant cx, pk_provider rq, sk_hint s)" "cr_sealed r = s"
    and ok: "creds_ok rows" using upsert_cred_ok [OF assms(4,5) U] by blast
  have "find (\<lambda>x. cr_tenant x = cx_tenant cx \<and> cr_id x = i) rows = Some r"
    using find_unique_by [of cr_id rows r "\<lambda>x. cr_tenant x = cx_tenant cx \<and> cr_id x = i"] r ok
    by (auto simp: creds_ok_def slot_def)
  then have "resolver_decrypt env (cx_tenant cx) i db' = Some (Inr (as_bytes (pk_key rq)))"
    using resolver_open [of "cx_tenant cx" i db' r env] d r(4) s(3,4) by (cases "sk_tag s") auto
  then show ?thesis using P r s(2) d by (intro exI [of _ resp] exI [of _ db'] exI [of _ r]) simp
qed

text \<open>A cipher for examples: the message followed by a tag of 16 zeros.\<close>

definition plain_aead :: aead where
  "plain_aead = \<lparr>aead_encrypt = (\<lambda>k n a m. Some (m @ replicate 16 0)),
     aead_decrypt = (\<lambda>k n a c. Some (take (length c - 16) c))\<rparr>"

definition vault_env0 :: vault_env where
  "vault_env0 = \<lparr>ve_aead = plain_aead, ve_kms = Env_Kms (replicate 32 7), ve_kek_id = str ''env-v1'',
     ve_uuid_text = (\<lambda>u. show_nat (unat u)), ve_collate = (\<lambda>a b. length a \<le> length b)\<rparr>"

definition random0 :: seal_random_bytes where
  "random0 = \<lparr>rb_dek = replicate 32 9, rb_nonce = replicate 12 1, rb_wrap_nonce = replicate 12 2\<rparr>"

definition vault_db0 :: vault_db where
  "vault_db0 = \<lparr>vd_creds = [], vd_auth = \<lparr>tenants = [1], users = [], sessions = [], identities = [], audits = [],
     magic = Map.empty\<rparr>\<rparr>"

definition ctx0 :: tenant_ctx where "ctx0 = \<lparr>cx_tenant = 1, cx_user = 7, cx_jti = 3\<rparr>"

definition put0 :: "string \<Rightarrow> put_key_req" where
  "put0 key = \<lparr>pk_provider = str ''openai'', pk_label = None, pk_key = str key, pk_priority = 0\<rparr>"

lemma vault_env0_ok: "aead_laws (ve_aead vault_env0)" "kms_ok (ve_kms vault_env0)" "random_ok random0"
  by (simp_all add: vault_env0_def plain_aead_def aead_laws_def kms_ok_def random_ok_def random0_def)

theorem vault_roundtrip_witness:
  "\<exists>resp db' r. put_key vault_env0 random0 5 0 ctx0 (put0 ''sk-abc'') vault_db0 = (Inr resp, db') \<and> r \<in> set (vd_creds db')
    \<and> slot r = (1, str ''openai'', hint_of_key (str ''sk-abc''))
    \<and> resolver_decrypt vault_env0 1 (cr_id r) db' = Some (Inr (as_bytes (str ''sk-abc'')))"
  using vault_roundtrip [OF vault_env0_ok, of vault_db0 5 0 ctx0 "put0 ''sk-abc''"]
  by (simp add: vault_db0_def creds_ok_def ctx0_def put0_def)

text \<open>
  Further: data keys wrapped by the old stub stay readable under the new service exactly when their first byte is not
  \<open>0x5B\<close>: such a key, one in 256, is taken for the new format, and reads back only if the cipher accepts it by chance.
\<close>

theorem legacy_dek_ambiguous:
  assumes "length dek = 32"
  shows "unwrap_dek cr (Env_Kms kek) (wrap_dek cr nonce Stub_Kms dek tenant) tenant = Inr dek \<longleftrightarrow>
    hd dek \<noteq> 0x5B \<or> aead_decrypt cr kek (xor_stub (take 12 (tl dek))) tenant (xor_stub (drop 12 (tl dek))) = Some dek"
proof -
  obtain b bs where d: "dek = b # bs" "length bs = 31" using assms by (cases dek) auto
  have x: "xor b LEGACY_STUB_KEK = ENV_WRAP_V1 \<longleftrightarrow> b = 0x5B"
  proof
    assume "xor b LEGACY_STUB_KEK = ENV_WRAP_V1"
    then have "xor (xor b LEGACY_STUB_KEK) LEGACY_STUB_KEK = xor ENV_WRAP_V1 LEGACY_STUB_KEK" by simp
    then show "b = 0x5B" by (simp add: xor.assoc LEGACY_STUB_KEK_def ENV_WRAP_V1_def)
  qed (simp add: LEGACY_STUB_KEK_def ENV_WRAP_V1_def)
  show ?thesis
    using d(2) x xor_stub_twice [of dek] unfolding d(1)
    by (auto simp: wrap_dek_def unwrap_dek_def xor_stub_def take_map drop_map comp_def split: option.splits)
qed

theorem legacy_dek_ambiguous_witness:
  "\<not> unwrap_dek \<lparr>aead_encrypt = (\<lambda>k n a m. None), aead_decrypt = (\<lambda>k n a c. None)\<rparr> (Env_Kms (replicate 32 7))
      (wrap_dek \<lparr>aead_encrypt = (\<lambda>k n a m. None), aead_decrypt = (\<lambda>k n a c. None)\<rparr> [] Stub_Kms (replicate 32 0x5B) []) []
    = Inr (replicate 32 0x5B)"
  by (subst legacy_dek_ambiguous) simp_all

section \<open>Isolation and the slot invariant\<close>

text \<open>The operations on the table, each on behalf of one tenant.\<close>

datatype vault_op =
    V_Put seal_random_bytes uuid int tenant_ctx put_key_req
  | V_List int tenant_ctx
  | V_Delete tenant_ctx uuid
  | V_Persist int i64 uuid rstr credential_pool
  | V_Mark_Exhausted uuid int uuid
  | V_Mark_Dead uuid int uuid

fun vault_op_tenant :: "vault_op \<Rightarrow> uuid" where
  "vault_op_tenant (V_Put rb i now cx rq) = cx_tenant cx"
| "vault_op_tenant (V_List now cx) = cx_tenant cx"
| "vault_op_tenant (V_Delete cx i) = cx_tenant cx"
| "vault_op_tenant (V_Persist now ms t p pool) = t"
| "vault_op_tenant (V_Mark_Exhausted t now i) = t"
| "vault_op_tenant (V_Mark_Dead t now i) = t"

fun vault_step :: "vault_env \<Rightarrow> vault_op \<Rightarrow> vault_db \<Rightarrow> vault_db" where
  "vault_step env (V_Put rb i now cx rq) db = snd (put_key env rb i now cx rq db)"
| "vault_step env (V_List now cx) db = snd (list_keys env (\<lambda>_. JNull) now cx db)"
| "vault_step env (V_Delete cx i) db = snd (delete_key env cx i db)"
| "vault_step env (V_Persist now ms t p pool) db = persist_transitions now ms t p pool db"
| "vault_step env (V_Mark_Exhausted t now i) db = the_or db (repo_mark_exhausted (set_tenant_guc t \<lparr>repo_tenant = None\<rparr>) now i db)"
| "vault_step env (V_Mark_Dead t now i) db = the_or db (repo_mark_dead (set_tenant_guc t \<lparr>repo_tenant = None\<rparr>) now i db)"

fun fresh_for :: "vault_op \<Rightarrow> vault_db \<Rightarrow> bool" where
  "fresh_for (V_Put rb i now cx rq) db \<longleftrightarrow> i \<notin> cr_id ` set (vd_creds db)"
| "fresh_for x db \<longleftrightarrow> True"

text \<open>All but insertion and deletion rewrite rows in place, and keep id, tenant and slot.\<close>

definition in_place :: "uuid \<Rightarrow> (cred_row \<Rightarrow> cred_row) \<Rightarrow> bool" where
  "in_place t f \<longleftrightarrow> (\<forall>r. cr_id (f r) = cr_id r \<and> slot (f r) = slot r \<and> (cr_tenant r \<noteq> t \<longrightarrow> f r = r))"

lemma in_place_ok: "in_place t f \<Longrightarrow> creds_ok rows \<Longrightarrow> creds_ok (map f rows)"
  by (simp add: creds_ok_def in_place_def comp_def)

lemma in_place_tenant: "in_place t f \<Longrightarrow> cr_tenant (f r) = cr_tenant r"
  unfolding in_place_def slot_def by (metis fst_conv)

lemma in_place_others:
  "in_place t f \<Longrightarrow> filter (\<lambda>r. cr_tenant r \<noteq> t) (map f rows) = filter (\<lambda>r. cr_tenant r \<noteq> t) rows"
proof (induction rows)
  case (Cons r rows)
  have "cr_tenant (f r) = cr_tenant r" using Cons.prems by (rule in_place_tenant)
  moreover have "cr_tenant r \<noteq> t \<Longrightarrow> f r = r" using Cons.prems by (simp add: in_place_def)
  ultimately show ?case using Cons by auto
qed simp

lemma in_place_heal: "in_place t (heal_row now t)"
  by (auto simp: in_place_def heal_row_def slot_def cr_hint_def split: option.splits)

lemma in_place_persist: "in_place t (\<lambda>r. if cr_tenant r = t \<and> cr_provider r = p then persist_row now ms pool r else r)"
  by (auto simp: in_place_def persist_row_def slot_def cr_hint_def split: option.splits cred_status.splits)

lemma in_place_repo:
  "in_place t (\<lambda>r. if cr_tenant r = t \<and> cr_id r = i then r\<lparr>cr_status := Db_Exhausted, cr_cooldown := c\<rparr> else r)"
  "in_place t (\<lambda>r. if cr_tenant r = t \<and> cr_id r = i
     then (if cr_status r \<noteq> Db_Dead then r\<lparr>cr_status := Db_Dead, cr_dead_at := d\<rparr> else r) else r)"
  by (auto simp: in_place_def slot_def cr_hint_def)

lemma in_place_refresh:
  "in_place t (\<lambda>r. if same_slot t p (sk_hint s) r then refresh_row rq s r else r)"
  by (auto simp: in_place_def same_slot_def slot_def)

lemma put_key_creds:
  "vd_creds (snd (put_key env rb i now cx rq db)) =
     (case seal env rb (cx_tenant cx) (pk_key rq) of Inl e \<Rightarrow> vd_creds db
      | Inr s \<Rightarrow> snd (upsert_cred i now (cx_tenant cx) rq s (vd_creds db)))"
  by (simp add: put_key_def Let_def split: sum.split prod.split)

lemma repo_creds:
  "vd_creds (the_or db (repo_update (set_tenant_guc t repo) i f db)) =
     map (\<lambda>r. if cr_tenant r = t \<and> cr_id r = i then f r else r) (vd_creds db)"
  by (simp add: repo_update_def set_tenant_guc_def the_or_def)

text \<open>
  Further: the vault keeps tenants apart and slots unique: an operation of one tenant leaves every row of the
  others as it is, and after it ids are distinct and each (tenant, provider, hint) has one row.
\<close>

theorem vault_isolated:
  assumes "creds_ok (vd_creds db)" "fresh_for x db"
  shows "creds_ok (vd_creds (vault_step env x db))
    \<and> filter (\<lambda>r. cr_tenant r \<noteq> vault_op_tenant x) (vd_creds (vault_step env x db))
      = filter (\<lambda>r. cr_tenant r \<noteq> vault_op_tenant x) (vd_creds db)"
proof (cases x)
  case (V_Put rb i now cx rq)
  show ?thesis
  proof (cases "seal env rb (cx_tenant cx) (pk_key rq)")
    case (Inr s)
    have "creds_ok (snd (upsert_cred i now (cx_tenant cx) rq s (vd_creds db)))"
      using upsert_cred_ok [OF assms(1), of i now "cx_tenant cx" rq s] assms(2) V_Put by (metis fresh_for.simps(1) prod.collapse)
    moreover have "filter (\<lambda>r. cr_tenant r \<noteq> cx_tenant cx) (snd (upsert_cred i now (cx_tenant cx) rq s (vd_creds db)))
        = filter (\<lambda>r. cr_tenant r \<noteq> cx_tenant cx) (vd_creds db)"
      using in_place_others [OF in_place_refresh] by (auto simp: upsert_cred_def split: option.split)
    ultimately show ?thesis using V_Put Inr by (simp add: put_key_creds)
  qed (use V_Put assms in \<open>simp add: put_key_creds\<close>)
next
  case (V_List now cx)
  then show ?thesis using in_place_ok [OF in_place_heal assms(1)] in_place_others [OF in_place_heal]
    by (simp add: list_keys_def Let_def)
next
  case (V_Delete cx i)
  have "creds_ok (filter P rows)" if "creds_ok rows" for P rows
    using that by (simp add: creds_ok_def distinct_map_filter)
  moreover have "filter (\<lambda>r. cr_tenant r \<noteq> t) (filter (\<lambda>r. \<not> (cr_tenant r = t \<and> cr_id r = i)) rows) = filter (\<lambda>r. cr_tenant r \<noteq> t) rows"
    for t rows by (induction rows) auto
  ultimately show ?thesis using V_Delete assms(1) by (simp add: delete_key_def del: filter_filter)
next
  case (V_Persist now ms t p pool)
  then show ?thesis using in_place_ok [OF in_place_persist assms(1)] in_place_others [OF in_place_persist]
    by (simp add: persist_transitions_def)
next
  case (V_Mark_Exhausted t now i)
  then show ?thesis using in_place_ok [OF in_place_repo(1) assms(1)] in_place_others [OF in_place_repo(1)]
    by (simp add: repo_mark_exhausted_def repo_creds)
next
  case (V_Mark_Dead t now i)
  then show ?thesis using in_place_ok [OF in_place_repo(2) assms(1)] in_place_others [OF in_place_repo(2)]
    by (simp add: repo_mark_dead_def repo_creds)
qed

theorem vault_isolated_witness:
  "creds_ok (vd_creds (vault_step vault_env0 (V_Put random0 5 0 ctx0 (put0 ''sk-abc'')) vault_db0))"
  using vault_isolated [of vault_db0 "V_Put random0 5 0 ctx0 (put0 ''sk-abc'')" vault_env0]
  by (simp add: vault_db0_def creds_ok_def)

section \<open>Nothing sealed is shown\<close>

definition blank_sealed :: "cred_row \<Rightarrow> cred_row" where
  "blank_sealed r = r\<lparr>cr_sealed := \<lparr>sk_ciphertext = [], sk_nonce = [], sk_tag = [], sk_dek = [], sk_kek = [], sk_hint = cr_hint r\<rparr>\<rparr>"

lemma blank_sealed_facts [simp]:
  "cr_tenant (blank_sealed r) = cr_tenant r" "cr_provider (blank_sealed r) = cr_provider r"
  "cr_priority (blank_sealed r) = cr_priority r" "key_item env tj (blank_sealed r) = key_item env tj r"
  "heal_row now t (blank_sealed r) = blank_sealed (heal_row now t r)"
  by (simp_all add: blank_sealed_def key_item_def cr_hint_def heal_row_def)

lemma insert_key_row_blank: "map blank_sealed (insert_key_row env r rows) = insert_key_row env (blank_sealed r) (map blank_sealed rows)"
  by (induction rows) (simp_all add: row_before_def)

lemma sort_rows_blank: "map blank_sealed (sort_rows env rows) = sort_rows env (map blank_sealed rows)"
  unfolding sort_rows_def by (induction rows) (simp_all add: insert_key_row_blank)

lemma list_keys_blank:
  "fst (list_keys env tj now cx (db\<lparr>vd_creds := map blank_sealed rows\<rparr>)) = fst (list_keys env tj now cx (db\<lparr>vd_creds := rows\<rparr>))"
proof -
  have u: "vd_creds (db\<lparr>vd_creds := xs\<rparr>) = xs" for xs by simp
  have f: "filter (\<lambda>r. cr_tenant r = t) (map blank_sealed xs) = map blank_sealed (filter (\<lambda>r. cr_tenant r = t) xs)" for t xs
    by (simp add: filter_map comp_def)
  have h: "map (heal_row now t) (map blank_sealed rows) = map blank_sealed (map (heal_row now t) rows)" for t
    by simp
  have k: "map (key_item env tj) (map blank_sealed xs) = map (key_item env tj) xs" for xs
    by simp
  show ?thesis unfolding list_keys_def Let_def
    by (simp only: u fst_conv h f sort_rows_blank [symmetric] k)
qed

text \<open>
  Further: what the key listing shows does not depend on the sealed columns: two tables that agree on
  everything else give the same response, byte for byte, whatever ciphertexts, tags and data keys they hold.
\<close>

theorem listing_opaque:
  assumes "map blank_sealed rows = map blank_sealed rows'"
  shows "fst (list_keys env tj now cx (db\<lparr>vd_creds := rows\<rparr>)) = fst (list_keys env tj now cx (db\<lparr>vd_creds := rows'\<rparr>))"
  by (metis assms list_keys_blank)

definition sealed_as :: "nat \<Rightarrow> sealed_key" where
  "sealed_as n = \<lparr>sk_ciphertext = [n], sk_nonce = [n], sk_tag = [n], sk_dek = [n], sk_kek = [], sk_hint = str ''abc''\<rparr>"

theorem listing_opaque_witness:
  "fst (list_keys vault_env0 (\<lambda>_. JNull) 0 ctx0 (vault_db0\<lparr>vd_creds := [fresh_row 5 0 1 (put0 ''k'') (sealed_as 1)]\<rparr>))
    = fst (list_keys vault_env0 (\<lambda>_. JNull) 0 ctx0 (vault_db0\<lparr>vd_creds := [fresh_row 5 0 1 (put0 ''k'') (sealed_as 2)]\<rparr>))"
  by (rule listing_opaque) (simp add: blank_sealed_def fresh_row_def sealed_as_def cr_hint_def)

section \<open>Colliding hints\<close>

text \<open>
  Further: two keys of one provider that end in the same three characters cannot both be kept: storing
  the second leaves one row in their slot, holding the second; the first is lost, with no error.
\<close>

theorem hint_collision_overwrites:
  assumes "creds_ok (vd_creds db)" "i1 \<notin> cr_id ` set (vd_creds db)"
    and "put_key env rb1 i1 now1 cx rq1 db = (Inr resp1, db1)" "put_key env rb2 i2 now2 cx rq2 db1 = (Inr resp2, db2)"
    and "pk_provider rq2 = pk_provider rq1" "hint_of_key (pk_key rq2) = hint_of_key (pk_key rq1)"
  shows "\<exists>r. filter (\<lambda>r. slot r = (cx_tenant cx, pk_provider rq1, hint_of_key (pk_key rq1))) (vd_creds db2) = [r]
    \<and> seal env rb2 (cx_tenant cx) (pk_key rq2) = Inr (cr_sealed r) \<and> length (vd_creds db2) = length (vd_creds db1)"
proof -
  let ?k = "(cx_tenant cx, pk_provider rq1, hint_of_key (pk_key rq1))"
  obtain s1 j1 where 1: "seal env rb1 (cx_tenant cx) (pk_key rq1) = Inr s1"
    "upsert_cred i1 now1 (cx_tenant cx) rq1 s1 (vd_creds db) = (j1, vd_creds db1)"
    using put_key_Inr [of env rb1 i1 now1 cx rq1 db resp1] assms(3) by (metis fst_conv snd_conv)
  obtain s2 j2 where 2: "seal env rb2 (cx_tenant cx) (pk_key rq2) = Inr s2"
    "upsert_cred i2 now2 (cx_tenant cx) rq2 s2 (vd_creds db1) = (j2, vd_creds db2)"
    using put_key_Inr [of env rb2 i2 now2 cx rq2 db1 resp2] assms(4) by (metis fst_conv snd_conv)
  have k: "(cx_tenant cx, pk_provider rq2, sk_hint s2) = ?k" "(cx_tenant cx, pk_provider rq1, sk_hint s1) = ?k"
    using assms(5,6) seal_hint [OF 1(1)] seal_hint [OF 2(1)] by simp_all
  obtain r1 where ok1: "creds_ok (vd_creds db1)" and r1: "r1 \<in> set (vd_creds db1)" "slot r1 = ?k"
    using upsert_cred_ok [OF assms(1,2) 1(2)] k by auto
  then obtain r where R: "find (same_slot (cx_tenant cx) (pk_provider rq2) (sk_hint s2)) (vd_creds db1) = Some r"
    using k by (auto simp: find_None_iff same_slot_iff dest: not_Some_eq [THEN iffD1, rotated])
      (metis find_None_iff not_Some_eq same_slot_iff)
  let ?f = "\<lambda>r. if same_slot (cx_tenant cx) (pk_provider rq2) (sk_hint s2) r then refresh_row rq2 s2 r else r"
  have e: "vd_creds db2 = map ?f (vd_creds db1)" using 2(2) R by (simp add: upsert_cred_def)
  have sl: "map slot (vd_creds db2) = map slot (vd_creds db1)" unfolding e by (simp add: upsert_slots)
  have rr: "r \<in> set (vd_creds db1)" "slot r = ?k" using R k by (auto simp: find_Some_iff same_slot_iff)
  have fr: "?f r \<in> set (vd_creds db2)" "slot (?f r) = ?k" "cr_sealed (?f r) = s2"
    using rr k upsert_slots [of "cx_tenant cx" "pk_provider rq2" s2 r rq2] by (auto simp: e same_slot_iff)
  have "distinct (map slot (vd_creds db2))" using ok1 sl by (simp add: creds_ok_def)
  from find_unique_by [OF this fr(1), of "\<lambda>r. slot r = ?k"] fr(2)
  have "filter (\<lambda>r. slot r = ?k) (vd_creds db2) = [?f r]" by simp
  then show ?thesis using fr(3) 2(1) e by (intro exI [of _ "?f r"]) simp
qed

theorem hint_collision_overwrites_witness:
  "\<exists>r. filter (\<lambda>r. slot r = (1, str ''openai'', hint_of_key (str ''sk-one-abc'')))
       (vd_creds (snd (put_key vault_env0 random0 6 0 ctx0 (put0 ''sk-two-abc'')
          (snd (put_key vault_env0 random0 5 0 ctx0 (put0 ''sk-one-abc'') vault_db0))))) = [r]"
proof -
  obtain s1 s2 where s: "seal vault_env0 random0 1 (str ''sk-one-abc'') = Inr s1" "seal vault_env0 random0 1 (str ''sk-two-abc'') = Inr s2"
    using seal_open [OF vault_env0_ok] by metis
  have p: "\<exists>resp. put_key vault_env0 random0 5 0 ctx0 (put0 ''sk-one-abc'') vault_db0
      = (Inr resp, snd (put_key vault_env0 random0 5 0 ctx0 (put0 ''sk-one-abc'') vault_db0))"
    and q: "\<exists>resp. put_key vault_env0 random0 6 0 ctx0 (put0 ''sk-two-abc'') db
      = (Inr resp, snd (put_key vault_env0 random0 6 0 ctx0 (put0 ''sk-two-abc'') db))" for db
    using s by (auto simp: put_key_def ctx0_def put0_def Let_def split: prod.split)
  have h: "hint_of_key (str ''sk-two-abc'') = hint_of_key (str ''sk-one-abc'')" by (simp add: hint_of_key_def str_def)
  obtain a where a: "put_key vault_env0 random0 5 0 ctx0 (put0 ''sk-one-abc'') vault_db0
      = (Inr a, snd (put_key vault_env0 random0 5 0 ctx0 (put0 ''sk-one-abc'') vault_db0))" using p by blast
  obtain b where b: "put_key vault_env0 random0 6 0 ctx0 (put0 ''sk-two-abc'') (snd (put_key vault_env0 random0 5 0 ctx0 (put0 ''sk-one-abc'') vault_db0))
      = (Inr b, snd (put_key vault_env0 random0 6 0 ctx0 (put0 ''sk-two-abc'') (snd (put_key vault_env0 random0 5 0 ctx0 (put0 ''sk-one-abc'') vault_db0))))"
    using q by blast
  have f: "cx_tenant ctx0 = 1" "pk_provider (put0 k) = str ''openai''" "pk_key (put0 k) = str k" for k
    by (simp_all add: ctx0_def put0_def)
  have "creds_ok (vd_creds vault_db0)" "5 \<notin> cr_id ` set (vd_creds vault_db0)" by (simp_all add: vault_db0_def creds_ok_def)
  from hint_collision_overwrites [OF this a b, unfolded f, OF refl h] show ?thesis by blast
qed

section \<open>The pool and the table\<close>

lemma us_to_ms_thousand: "us_to_ms (1000 * x) = x" "us_to_ms (x * 1000) = x"
proof -
  have "(500 + (- x) * 1000) div 1000 = - x + 500 div (1000 :: int)" by (rule div_mult_self1) simp
  then have "(500 - 1000 * x) div 1000 = - x" by (simp add: mult.commute)
  moreover have "(500 + x * 1000) div 1000 = x + 500 div (1000 :: int)" by (rule div_mult_self1) simp
  then have "(1000 * x + 500) div 1000 = x" by (simp add: mult.commute add.commute)
  ultimately show "us_to_ms (1000 * x) = x" by (simp add: us_to_ms_def)
  then show "us_to_ms (x * 1000) = x" by (simp add: mult.commute)
qed

text \<open>
  Further: a worker that loaded its pool before a key was declared dead writes the key back to life: an
  exhausted entry overwrites the dead status, and the next pool offers the key again once the cooldown is over.
\<close>

theorem dead_key_revived:
  assumes "cr_status r = Db_Dead" "find_hint pool (cr_hint r) = Some c" "status c = Exhausted until" "now_ms \<le> until"
  shows "cr_status (persist_row (1000 * now_ms) now_ms pool r) = Db_Exhausted
    \<and> status (load_cred (persist_row (1000 * now_ms) now_ms pool r)) = Exhausted until
    \<and> status_ok (status (load_cred (persist_row (1000 * now_ms) now_ms pool r))) until"
proof -
  have "us_to_ms (1000 * now_ms + 1000 * (until - now_ms)) = until"
    by (simp add: algebra_simps us_to_ms_thousand)
  then show ?thesis using assms
    by (simp add: persist_row_def load_cred_def status_from_db_def the_or_def status_ok_def)
qed

theorem dead_key_revived_witness:
  "cr_status (persist_row (1000 * 50) 50
      (pool_new [\<lparr>cred_id = 5, label = None, priority = 0, status = Exhausted 90, key_hint = str ''abc'', last_error_code = Some 429,
         last_error_reason = None, request_count = 0\<rparr>] FillFirst)
      ((fresh_row 5 0 1 (put0 ''k'') (sealed_as 1))\<lparr>cr_status := Db_Dead, cr_dead_at := Some 7\<rparr>)) = Db_Exhausted"
  using dead_key_revived [of "(fresh_row 5 0 1 (put0 ''k'') (sealed_as 1))\<lparr>cr_status := Db_Dead, cr_dead_at := Some 7\<rparr>"
    "pool_new [\<lparr>cred_id = 5, label = None, priority = 0, status = Exhausted 90, key_hint = str ''abc'', last_error_code = Some 429,
         last_error_reason = None, request_count = 0\<rparr>] FillFirst" _ 90 50]
  by (simp add: fresh_row_def cr_hint_def sealed_as_def find_hint_def pool_new_def)

text \<open>What the pool and the table share of a credential, and how they relate: same id and hint, and the
  same answer to whether the key may be used, at every time from \<open>now\<close> on.\<close>

definition same_eligibility :: "i64 \<Rightarrow> pooled_credential \<Rightarrow> pooled_credential \<Rightarrow> bool" where
  "same_eligibility now a b \<longleftrightarrow> cred_id a = cred_id b \<and> key_hint a = key_hint b \<and>
     (\<forall>x. now \<le> x \<longrightarrow> status_ok (status a) x = status_ok (status b) x)"

definition alive_in_both :: "cred_row \<Rightarrow> pooled_credential \<Rightarrow> bool" where
  "alive_in_both r c \<longleftrightarrow> cred_id c = cr_id r \<and> key_hint c = cr_hint r \<and> (cr_status r = Db_Dead \<longrightarrow> status c = Dead)"

lemma persist_row_agrees:
  assumes "find_hint pool (cr_hint r) = Some c" "alive_in_both r c"
  shows "same_eligibility now_ms (load_cred (persist_row (1000 * now_ms) now_ms pool r)) c"
proof (cases "status c")
  case (Exhausted until)
  have "1000 * now_ms + 1000 * max 0 (until - now_ms) = 1000 * max now_ms until" by (simp add: max_def algebra_simps)
  then show ?thesis using assms Exhausted
    by (simp add: persist_row_def same_eligibility_def alive_in_both_def load_cred_def cr_hint_def status_from_db_def
        the_or_def us_to_ms_thousand status_ok_def)
qed (use assms in \<open>auto simp: persist_row_def same_eligibility_def alive_in_both_def load_cred_def cr_hint_def
       status_from_db_def status_ok_def split: db_status.splits; cases "cr_status r"; simp\<close>)+



end
