(* ===== verification/Routing.thy ===== *)
theory Routing
  imports Vault Providers Classify Cost
begin

text \<open>
  Which model a turn runs on: the per-tenant settings store and its routes
  (\<open>app-server/src/settings/routes.rs\<close>), the model catalogue, the route resolution and the fallback chain
  (\<open>app-server/src/dispatch/mod.rs\<close>).

  The state is the vault's table of credentials and the rows of \<open>session_kv\<close> under the settings session
  (the nil uuid). Environment variables are \<open>rstr option\<close> arguments; the order of provider names in SQL
  is the database collation \<open>ve_collate\<close>.
\<close>

section \<open>The settings store\<close>

record kv_row =
  kv_tenant :: uuid
  kv_key :: rstr
  kv_value :: jvalue
  kv_version :: int

record settings_db =
  sd_vault :: vault_db
  sd_kv :: "kv_row list"

definition kv_get :: "uuid \<Rightarrow> rstr \<Rightarrow> settings_db \<Rightarrow> jvalue option" where
  "kv_get t k db = map_option kv_value (find (\<lambda>r. kv_tenant r = t \<and> kv_key r = k) (sd_kv db))"

definition kv_put :: "uuid \<Rightarrow> rstr \<Rightarrow> jvalue \<Rightarrow> settings_db \<Rightarrow> settings_db" where
  "kv_put t k v db =
     db\<lparr>sd_kv := (if list_ex (\<lambda>r. kv_tenant r = t \<and> kv_key r = k) (sd_kv db)
        then map (\<lambda>r. if kv_tenant r = t \<and> kv_key r = k then r\<lparr>kv_value := v, kv_version := kv_version r + 1\<rparr> else r) (sd_kv db)
        else sd_kv db @ [\<lparr>kv_tenant = t, kv_key = k, kv_value = v, kv_version = 1\<rparr>])\<rparr>"

definition model_key :: "rstr \<Rightarrow> rstr" where "model_key provider = str ''model:'' @ provider"

definition DREAM_KEY :: rstr where "DREAM_KEY = str ''settings:server_dream''"

definition STT_PROVIDER_KEY :: rstr where "STT_PROVIDER_KEY = str ''settings:stt_provider''"

section \<open>Models\<close>

definition provider_models :: "rstr \<Rightarrow> rstr list" where
  "provider_models p =
     (if p = str ''openai'' then [str ''gpt-5.5'', str ''gpt-5.4-mini'']
      else if p = str ''anthropic'' then [str ''claude-opus-4-8'', str ''claude-haiku-4-5'']
      else if p = str ''gemini'' then [str ''gemini-3-pro'', str ''gemini-3-flash'']
      else if p = str ''deepseek'' then [str ''deepseek-v4-pro'', str ''deepseek-v4-flash'']
      else [])"

definition is_routable_model :: "rstr \<Rightarrow> rstr \<Rightarrow> bool" where
  "is_routable_model p model =
     (if model \<in> set (provider_models p) then True
      else let m = to_ascii_lowercase model in
        if p = str ''openai'' then starts_with m (str ''gpt-5'') \<or> starts_with m (str ''gpt-4'')
          \<or> starts_with m (str ''o'') \<and> 1 < length m \<and> is_ascii_digit (m ! 1)
        else if p = str ''anthropic'' then starts_with m (str ''claude-'')
        else if p = str ''gemini'' then starts_with m (str ''gemini-'')
        else if p = str ''deepseek'' then starts_with m (str ''deepseek-'')
        else if p = str ''kimi'' then starts_with m (str ''kimi'') \<or> starts_with m (str ''moonshot'')
        else if p = str ''qwen'' then starts_with m (str ''qwen'')
        else False)"

definition provider_display_name :: "rstr \<Rightarrow> rstr" where
  "provider_display_name p =
     (if p = str ''openai'' then str ''OpenAI''
      else if p = str ''anthropic'' then str ''Anthropic''
      else if p = str ''deepseek'' then str ''DeepSeek''
      else if p = str ''gemini'' then str ''Google Gemini''
      else if p = str ''kimi'' then str ''Moonshot Kimi''
      else if p = str ''qwen'' then str ''Alibaba Qwen''
      else if p = str ''openrouter'' then str ''OpenRouter''
      else if p = str ''stub'' then str ''the QCue stub harness''
      else p)"

definition parse_effort :: "rstr \<Rightarrow> effort option" where
  "parse_effort s = (let x = to_ascii_lowercase (trim s) in
     if x = str ''minimal'' then Some Minimal else if x = str ''low'' then Some Low
     else if x = str ''medium'' then Some Medium else if x = str ''high'' then Some High
     else if x = str ''xhigh'' then Some XHigh else if x = str ''max'' then Some Max else None)"

section \<open>The settings routes\<close>

definition model_field :: "jvalue option \<Rightarrow> rstr option" where
  "model_field v = Option.bind v (\<lambda>v. get_str v ''model'')"

definition list_models :: "rstr \<Rightarrow> jvalue" where
  "list_models provider = json_obj [(''models'', JArray (map JString (provider_models provider)))]"

definition get_active :: "uuid \<Rightarrow> rstr \<Rightarrow> settings_db \<Rightarrow> http_error + jvalue" where
  "get_active t provider db = (case model_field (kv_get t (model_key provider) db) of
       Some m \<Rightarrow> Inr (json_obj [(''model'', JString m)]) | None \<Rightarrow> Inl Not_Found)"

definition unknown_model :: "rstr \<Rightarrow> rstr \<Rightarrow> http_error" where
  "unknown_model model provider =
     Bad_Request (str ''unknown model '' @ 39 # model @ 39 # str '' for provider '' @ 39 # provider @ [39])"

definition set_active :: "uuid \<Rightarrow> rstr \<Rightarrow> rstr \<Rightarrow> settings_db \<Rightarrow> (http_error + jvalue) \<times> settings_db" where
  "set_active t provider model db =
     (if \<not> is_routable_model provider model then (Inl (unknown_model model provider), db)
      else let v = json_obj [(''model'', JString model)] in (Inr v, kv_put t (model_key provider) v db))"

definition dream_posture :: "uuid \<Rightarrow> settings_db \<Rightarrow> bool" where
  "dream_posture t db = (case Option.bind (kv_get t DREAM_KEY db) (\<lambda>v. jget v (str ''enabled'')) of
       Some (JBool b) \<Rightarrow> b | _ \<Rightarrow> False)"

definition get_dream :: "uuid \<Rightarrow> settings_db \<Rightarrow> jvalue" where
  "get_dream t db = json_obj [(''enabled'', JBool (dream_posture t db))]"

definition set_dream :: "uuid \<Rightarrow> bool \<Rightarrow> settings_db \<Rightarrow> jvalue \<times> settings_db" where
  "set_dream t b db = (let v = json_obj [(''enabled'', JBool b)] in (v, kv_put t DREAM_KEY v db))"

section \<open>Routes and chains\<close>

text \<open>\<open>SELECT provider .. GROUP BY provider ORDER BY MAX(created_at) DESC, provider\<close>.\<close>

definition latest_key :: "cred_row list \<Rightarrow> rstr \<Rightarrow> int" where
  "latest_key rows p = foldr (\<lambda>r m. if cr_provider r = p then max m (cr_created r) else m) rows
     (case find (\<lambda>r. cr_provider r = p) rows of Some r \<Rightarrow> cr_created r | None \<Rightarrow> 0)"

fun insert_provider :: "(rstr \<Rightarrow> rstr \<Rightarrow> bool) \<Rightarrow> rstr \<Rightarrow> rstr list \<Rightarrow> rstr list" where
  "insert_provider before p [] = [p]"
| "insert_provider before p (q # qs) = (if before p q then p # q # qs else q # insert_provider before p qs)"

definition tenant_providers :: "vault_env \<Rightarrow> uuid \<Rightarrow> settings_db \<Rightarrow> rstr list" where
  "tenant_providers env t db =
     (let rows = filter (\<lambda>r. cr_tenant r = t) (vd_creds (sd_vault db));
          before = (\<lambda>p q. latest_key rows q < latest_key rows p
             \<or> latest_key rows p = latest_key rows q \<and> ve_collate env p q) in
      foldr (insert_provider before) (remdups (map cr_provider rows)) [])"

type_synonym route = "rstr \<times> rstr \<times> rstr list"

definition first_catalog_route :: "rstr list \<Rightarrow> route option" where
  "first_catalog_route providers =
     (case find (\<lambda>p. provider_models p \<noteq> []) providers of
        Some p \<Rightarrow> Some (p, hd (provider_models p), providers) | None \<Rightarrow> None)"

definition resolve_tenant_route :: "vault_env \<Rightarrow> uuid \<Rightarrow> settings_db \<Rightarrow> route option" where
  "resolve_tenant_route env t db =
     (let providers = tenant_providers env t db in
      case providers of
        [] \<Rightarrow> None
      | primary # _ \<Rightarrow>
          (case model_field (kv_get t (model_key primary) db) of
             Some m \<Rightarrow> if is_routable_model primary m then Some (primary, m, providers) else first_catalog_route providers
           | None \<Rightarrow> first_catalog_route providers))"

definition default_route :: "rstr option \<Rightarrow> rstr option \<Rightarrow> rstr \<times> rstr" where
  "default_route env_provider env_model = (the_or (str ''openai'') env_provider, the_or (str ''gpt-4o-mini'') env_model)"

text \<open>\<open>db_ok\<close> is whether the read succeeds; \<open>dr\<close> is the default route.\<close>

definition effective_route_with_providers :: "vault_env \<Rightarrow> bool \<Rightarrow> rstr \<times> rstr \<Rightarrow> uuid \<Rightarrow> settings_db \<Rightarrow> route" where
  "effective_route_with_providers env db_ok dr t db =
     (case (if db_ok then resolve_tenant_route env t db else None) of
        Some r \<Rightarrow> r | None \<Rightarrow> (fst dr, snd dr, []))"

definition effective_route :: "vault_env \<Rightarrow> bool \<Rightarrow> rstr \<times> rstr \<Rightarrow> uuid \<Rightarrow> settings_db \<Rightarrow> rstr \<times> rstr" where
  "effective_route env db_ok dr t db = (let (p, m, _) = effective_route_with_providers env db_ok dr t db in (p, m))"

definition api_mode_of :: "rstr option \<Rightarrow> registry \<Rightarrow> rstr \<Rightarrow> rstr \<Rightarrow> api_mode" where
  "api_mode_of var reg p m = (case reg p of Some pr \<Rightarrow> effective_api_mode var pr m | None \<Rightarrow> ChatCompletions)"

definition same_provider_links :: "rstr option \<Rightarrow> registry \<Rightarrow> rstr \<Rightarrow> rstr \<Rightarrow> link list" where
  "same_provider_links var reg p m = (case reg p of
       None \<Rightarrow> []
     | Some pr \<Rightarrow> map (\<lambda>fm. (p, fm, api_mode_of var reg p fm)) (filter (\<lambda>fm. fm \<noteq> m) (fallback_models pr)))"

definition add_cross_link :: "rstr option \<Rightarrow> registry \<Rightarrow> rstr \<Rightarrow> rstr \<Rightarrow> link list \<Rightarrow> link list" where
  "add_cross_link var reg primary p ls =
     (if p = primary then ls
      else case provider_models p of
        [] \<Rightarrow> ls
      | m # _ \<Rightarrow> if list_ex (\<lambda>l. fst l = p \<and> fst (snd l) = m) ls then ls
                 else ls @ [(p, m, api_mode_of var reg p m)])"

definition build_chain_links :: "rstr option \<Rightarrow> registry \<Rightarrow> rstr \<Rightarrow> rstr \<Rightarrow> rstr list \<Rightarrow> link list" where
  "build_chain_links var reg p m extra =
     fold (add_cross_link var reg p) extra ((p, m, api_mode_of var reg p m) # same_provider_links var reg p m)"

definition build_chain :: "rstr option \<Rightarrow> registry \<Rightarrow> rstr \<Rightarrow> rstr \<Rightarrow> rstr list \<Rightarrow> fallback_chain" where
  "build_chain var reg p m extra = chain_new (build_chain_links var reg p m extra)"

definition stub_llm_enabled :: "rstr option \<Rightarrow> bool" where
  "stub_llm_enabled var = (case var of Some v \<Rightarrow> v = str ''1'' \<or> to_ascii_lowercase v = str ''true'' | None \<Rightarrow> False)"

definition web_tools_enabled :: "rstr option \<Rightarrow> bool" where
  "web_tools_enabled var = (case var of
       Some v \<Rightarrow> to_ascii_lowercase (trim v) \<notin> set (map str [''0'', ''false'', ''off'', ''no'']) | None \<Rightarrow> True)"

text \<open>A harness is the scripted stub or the live dispatch over a chain.\<close>

datatype harness_kind = Stub_Harness rstr | Live_Harness fallback_chain

definition build_harness :: "rstr option \<Rightarrow> rstr option \<Rightarrow> rstr \<times> rstr \<Rightarrow> rstr \<Rightarrow> harness_kind" where
  "build_harness stub var dr reply =
     (if stub_llm_enabled stub then Stub_Harness reply
      else Live_Harness (build_chain var register_all (fst dr) (snd dr) []))"

definition build_harness_for :: "vault_env \<Rightarrow> bool \<Rightarrow> rstr option \<Rightarrow> rstr option \<Rightarrow> rstr \<times> rstr \<Rightarrow> uuid \<Rightarrow> rstr \<Rightarrow> settings_db
    \<Rightarrow> harness_kind \<times> rstr \<times> rstr" where
  "build_harness_for env db_ok stub var dr t reply db =
     (if stub_llm_enabled stub then (Stub_Harness reply, str ''stub'', str ''stub'')
      else let (p, m, others) = effective_route_with_providers env db_ok dr t db in
        (Live_Harness (build_chain var register_all p m others), p, m))"

definition build_harness_for_route :: "vault_env \<Rightarrow> bool \<Rightarrow> rstr option \<Rightarrow> rstr option \<Rightarrow> rstr \<times> rstr \<Rightarrow> uuid \<Rightarrow> rstr \<Rightarrow> rstr \<Rightarrow> rstr
    \<Rightarrow> settings_db \<Rightarrow> harness_kind \<times> rstr \<times> rstr" where
  "build_harness_for_route env db_ok stub var dr t p m reply db =
     (if stub_llm_enabled stub then (Stub_Harness reply, str ''stub'', str ''stub'')
      else let (_, _, others) = effective_route_with_providers env db_ok dr t db in
        (Live_Harness (build_chain var register_all p m others), p, m))"

section \<open>The settings store, proved\<close>

definition kv_ok :: "settings_db \<Rightarrow> bool" where
  "kv_ok db \<longleftrightarrow> distinct (map (\<lambda>r. (kv_tenant r, kv_key r)) (sd_kv db))"

lemma model_key_inj [simp]: "model_key p = model_key q \<longleftrightarrow> p = q"
  by (simp add: model_key_def)

lemma find_map_kv:
  "map_option kv_value (find (\<lambda>r. kv_tenant r = t' \<and> kv_key r = k')
     (map (\<lambda>r. if kv_tenant r = t \<and> kv_key r = k then r\<lparr>kv_value := v, kv_version := kv_version r + 1\<rparr> else r) rows))
   = (if t' = t \<and> k' = k then if list_ex (\<lambda>r. kv_tenant r = t \<and> kv_key r = k) rows then Some v else None
      else map_option kv_value (find (\<lambda>r. kv_tenant r = t' \<and> kv_key r = k') rows))"
  by (induction rows) auto

lemma find_no_kv: "\<not> list_ex P rows \<Longrightarrow> find P rows = None"
  by (induction rows) auto

lemma find_append_kv: "find P (xs @ ys) = (case find P xs of None \<Rightarrow> find P ys | Some x \<Rightarrow> Some x)"
  by (induction xs) auto

lemma kv_put_get: "kv_get t' k' (kv_put t k v db) = (if t' = t \<and> k' = k then Some v else kv_get t' k' db)"
proof (cases "list_ex (\<lambda>r. kv_tenant r = t \<and> kv_key r = k) (sd_kv db)")
  case True
  then show ?thesis by (simp add: kv_get_def kv_put_def find_map_kv)
next
  case False
  then show ?thesis using find_no_kv [OF False] by (auto simp: kv_get_def kv_put_def find_append_kv split: option.split)
qed

text \<open>
  Further: a setting written is the setting read, and writing one of a tenant changes no other key and no other
  tenant.
\<close>

theorem settings_store:
  "kv_get t' k' (kv_put t k v db) = (if t' = t \<and> k' = k then Some v else kv_get t' k' db)"
  by (rule kv_put_get)

lemma kv_put_vault [simp]: "sd_vault (kv_put t k v db) = sd_vault db"
  by (simp add: kv_put_def)

lemma tenant_providers_kv [simp]: "tenant_providers env t (kv_put t' k v db) = tenant_providers env t db"
  by (simp add: tenant_providers_def)

section \<open>Routes, proved\<close>

lemma set_insert_provider [simp]: "set (insert_provider before p qs) = insert p (set qs)"
  by (induction qs) auto

lemma set_tenant_providers:
  "set (tenant_providers env t db) = cr_provider ` {r \<in> set (vd_creds (sd_vault db)). cr_tenant r = t}"
proof -
  have "set (foldr (insert_provider b) ps []) = set ps" for b ps by (induction ps) auto
  then show ?thesis by (auto simp: tenant_providers_def Let_def)
qed

lemma hd_insert_provider:
  assumes "\<And>q. q \<in> set qs \<Longrightarrow> f q \<le> (f (hd qs) :: int)" "\<And>a b. f b < f a \<Longrightarrow> before a b" "\<And>a b. before a b \<Longrightarrow> f b \<le> f a"
    and "q \<in> set (insert_provider before p qs)"
  shows "f q \<le> f (hd (insert_provider before p qs))"
proof (cases qs)
  case Nil
  then show ?thesis using assms(4) by simp
next
  case (Cons x xs)
  show ?thesis
  proof (cases "before p x")
    case True
    then show ?thesis using Cons assms(1) [of q] assms(3) [of p x] assms(4) by auto
  next
    case False
    then have "f p \<le> f x" using assms(2) [of x p] by (meson not_le)
    then show ?thesis using Cons False assms(1) [of q] assms(4) by auto
  qed
qed

lemma hd_sorted_providers:
  assumes "\<And>a b. f b < f a \<Longrightarrow> before a b" "\<And>a b. before a b \<Longrightarrow> f b \<le> (f a :: int)"
  shows "q \<in> set (foldr (insert_provider before) ps []) \<Longrightarrow> f q \<le> f (hd (foldr (insert_provider before) ps []))"
proof (induction ps arbitrary: q)
  case (Cons p ps)
  show ?case
    using hd_insert_provider [of "foldr (insert_provider before) ps []" f before q p] Cons assms by auto
qed simp

text \<open>
  Further: the primary provider of a tenant is the one whose newest key is the latest of all its keys, whatever
  the alphabetical order of the names.
\<close>

theorem primary_is_latest:
  assumes "tenant_providers env t db = primary # ps" "r \<in> set (vd_creds (sd_vault db))" "cr_tenant r = t"
  shows "latest_key (filter (\<lambda>r. cr_tenant r = t) (vd_creds (sd_vault db))) (cr_provider r)
    \<le> latest_key (filter (\<lambda>r. cr_tenant r = t) (vd_creds (sd_vault db))) primary"
proof -
  let ?rows = "filter (\<lambda>r. cr_tenant r = t) (vd_creds (sd_vault db))"
  let ?b = "\<lambda>p q. latest_key ?rows q < latest_key ?rows p \<or> latest_key ?rows p = latest_key ?rows q \<and> ve_collate env p q"
  have e: "foldr (insert_provider ?b) (remdups (map cr_provider ?rows)) [] = primary # ps"
    using assms(1) by (simp only: tenant_providers_def Let_def)
  have "cr_provider r \<in> set (primary # ps)" using assms set_tenant_providers [of env t db] by auto
  then have "cr_provider r \<in> set (foldr (insert_provider ?b) (remdups (map cr_provider ?rows)) [])" unfolding e .
  from hd_sorted_providers [of "latest_key ?rows" ?b, OF _ _ this] show ?thesis unfolding e by fastforce
qed

text \<open>Two providers: the key of \<open>deepseek\<close> is newer than that of \<open>anthropic\<close>.\<close>

definition two_keys :: settings_db where
  "two_keys = \<lparr>sd_vault = \<lparr>vd_creds =
       [(fresh_row 5 10 1 \<lparr>pk_provider = str ''anthropic'', pk_label = None, pk_key = [], pk_priority = 0\<rparr>
           \<lparr>sk_ciphertext = [], sk_nonce = [], sk_tag = [], sk_dek = [], sk_kek = [], sk_hint = [1]\<rparr>),
        (fresh_row 6 20 1 \<lparr>pk_provider = str ''deepseek'', pk_label = None, pk_key = [], pk_priority = 0\<rparr>
           \<lparr>sk_ciphertext = [], sk_nonce = [], sk_tag = [], sk_dek = [], sk_kek = [], sk_hint = [2]\<rparr>)],
     vd_auth = \<lparr>tenants = [1], users = [], sessions = [], identities = [], audits = [], magic = Map.empty\<rparr>\<rparr>, sd_kv = []\<rparr>"

definition plain_vault_env :: vault_env where
  "plain_vault_env = \<lparr>ve_aead = \<lparr>aead_encrypt = (\<lambda>k n a m. None), aead_decrypt = (\<lambda>k n a m. None)\<rparr>, ve_kms = Stub_Kms,
     ve_kek_id = [], ve_uuid_text = (\<lambda>u. []), ve_collate = (\<lambda>a b. length a \<le> length b)\<rparr>"

lemma two_keys_providers: "tenant_providers plain_vault_env 1 two_keys = [str ''deepseek'', str ''anthropic'']"
  by (simp add: tenant_providers_def two_keys_def fresh_row_def plain_vault_env_def latest_key_def str_def Let_def)

theorem primary_is_latest_witness:
  "latest_key (filter (\<lambda>r. cr_tenant r = 1) (vd_creds (sd_vault two_keys))) (str ''anthropic'')
    \<le> latest_key (filter (\<lambda>r. cr_tenant r = 1) (vd_creds (sd_vault two_keys))) (str ''deepseek'')"
  using primary_is_latest [OF two_keys_providers, of "hd (vd_creds (sd_vault two_keys))"]
  by (simp add: two_keys_def fresh_row_def)

text \<open>
  Further: only the primary's own pick matters: storing, changing or corrupting the stored model of any other
  provider leaves the tenant's route as it was.
\<close>

theorem other_picks_ignored:
  assumes "tenant_providers env t db = primary # ps" "q \<noteq> primary"
  shows "resolve_tenant_route env t (kv_put t' (model_key q) v db) = resolve_tenant_route env t db"
  using assms by (simp add: resolve_tenant_route_def Let_def kv_put_get)

theorem other_picks_ignored_witness:
  "resolve_tenant_route plain_vault_env 1 (kv_put 1 (model_key (str ''anthropic'')) JNull two_keys)
    = resolve_tenant_route plain_vault_env 1 two_keys"
  using other_picks_ignored [OF two_keys_providers, of "str ''anthropic''" 1 JNull] by (simp add: str_def)

text \<open>
  Further: a pick the settings route accepts for the primary provider is the model every later turn runs on, until it
  is changed; a pick it refuses changes nothing.
\<close>

theorem pick_takes_effect:
  assumes "tenant_providers env t db = primary # ps"
  shows "(case set_active t primary m db of
      (Inr resp, db') \<Rightarrow> is_routable_model primary m \<and> effective_route env True dr t db' = (primary, m)
    | (Inl e, db') \<Rightarrow> \<not> is_routable_model primary m \<and> db' = db)"
  using assms
  by (simp add: set_active_def effective_route_def effective_route_with_providers_def resolve_tenant_route_def
      Let_def kv_put_get model_field_def get_str_def json_obj_def)

theorem pick_takes_effect_witness:
  "(case set_active 1 (str ''deepseek'') (str ''deepseek-v9'') two_keys of
      (Inr resp, db') \<Rightarrow> is_routable_model (str ''deepseek'') (str ''deepseek-v9'')
         \<and> effective_route plain_vault_env True (str ''openai'', str ''gpt-4o-mini'') 1 db' = (str ''deepseek'', str ''deepseek-v9'')
    | (Inl e, db') \<Rightarrow> \<not> is_routable_model (str ''deepseek'') (str ''deepseek-v9'') \<and> db' = two_keys)"
  by (rule pick_takes_effect [OF two_keys_providers])

text \<open>
  Further: a key for OpenRouter is never used: no model of it can be picked, and no tenant is routed to it, unless it is
  the default route of the server.
\<close>

theorem openrouter_unreachable:
  "\<not> is_routable_model (str ''openrouter'') m
   \<and> (fst (effective_route env db_ok dr t db) = str ''openrouter'' \<longleftrightarrow>
       fst dr = str ''openrouter'' \<and> effective_route_with_providers env db_ok dr t db = (fst dr, snd dr, []))"
proof -
  have r: "\<not> is_routable_model (str ''openrouter'') m" for m
    by (simp add: is_routable_model_def provider_models_def str_def)
  have c: "provider_models (str ''openrouter'') = []" by (simp add: provider_models_def str_def)
  have f: "first_catalog_route ps \<noteq> Some (str ''openrouter'', x)" for ps x
    using c by (auto simp: first_catalog_route_def find_Some_iff split: option.splits)
  have "resolve_tenant_route env t db \<noteq> Some (str ''openrouter'', x)" for x
    using r f by (auto simp: resolve_tenant_route_def Let_def split: list.splits option.splits if_splits)
  then show ?thesis using r
    by (auto simp: effective_route_def effective_route_with_providers_def split: option.splits prod.splits if_splits)
qed

section \<open>Chains\<close>

definition link_of :: "link \<Rightarrow> rstr \<times> rstr" where "link_of l = (fst l, fst (snd l))"

text \<open>What a link may be, and the whole specification of a chain.\<close>

definition link_ok :: "rstr option \<Rightarrow> registry \<Rightarrow> rstr \<Rightarrow> rstr \<Rightarrow> rstr list \<Rightarrow> link \<Rightarrow> bool" where
  "link_ok var reg p m extra l \<longleftrightarrow> snd (snd l) = api_mode_of var reg (fst l) (fst (snd l))
     \<and> (if fst l = p then fst (snd l) = m \<or> (case reg p of None \<Rightarrow> False | Some pr \<Rightarrow> fst (snd l) \<in> set (fallback_models pr))
        else fst l \<in> set extra \<and> provider_models (fst l) \<noteq> [] \<and> fst (snd l) = hd (provider_models (fst l)))"

definition chain_spec :: "rstr option \<Rightarrow> registry \<Rightarrow> rstr \<Rightarrow> rstr \<Rightarrow> rstr list \<Rightarrow> link list \<Rightarrow> bool" where
  "chain_spec var reg p m extra ls \<longleftrightarrow> ls \<noteq> [] \<and> link_of (hd ls) = (p, m) \<and> distinct (map link_of ls)
     \<and> list_all (link_ok var reg p m extra) ls
     \<and> list_all (\<lambda>q. q = p \<or> provider_models q = [] \<or> q \<in> fst ` set ls) extra"

lemma chain_spec_base:
  assumes "\<And>pr. reg p = Some pr \<Longrightarrow> distinct (fallback_models pr)"
  shows "chain_spec var reg p m [] ((p, m, api_mode_of var reg p m) # same_provider_links var reg p m)"
  using assms by (auto simp: chain_spec_def link_ok_def link_of_def same_provider_links_def list_all_iff distinct_map inj_on_def
      split: option.splits)

lemma link_ok_mono: "link_ok var reg p m extra l \<Longrightarrow> link_ok var reg p m (extra @ xs) l"
  by (auto simp: link_ok_def split: if_splits)

lemma chain_spec_step:
  assumes "chain_spec var reg p m extra ls"
  shows "chain_spec var reg p m (extra @ [q]) (add_cross_link var reg p q ls)"
proof -
  have old: "list_all (link_ok var reg p m (extra @ [q])) ls"
    using assms link_ok_mono by (auto simp: chain_spec_def list_all_iff)
  show ?thesis
  proof (cases "q = p \<or> provider_models q = []")
    case True
    then have "add_cross_link var reg p q ls = ls" by (auto simp: add_cross_link_def)
    then show ?thesis using assms old True by (auto simp: chain_spec_def)
  next
    case False
    then obtain d ds where d: "provider_models q = d # ds" "q \<noteq> p" by (cases "provider_models q") auto
    show ?thesis
    proof (cases "list_ex (\<lambda>l. fst l = q \<and> fst (snd l) = d) ls")
      case True
      then have "add_cross_link var reg p q ls = ls" "q \<in> fst ` set ls"
        using d by (auto simp: add_cross_link_def list_ex_iff)
      then show ?thesis using assms old by (simp add: chain_spec_def)
    next
      case False
      then have e: "add_cross_link var reg p q ls = ls @ [(q, d, api_mode_of var reg q d)]"
        using d by (simp add: add_cross_link_def)
      have "link_of (q, d, api_mode_of var reg q d) \<notin> link_of ` set ls"
        using False by (auto simp: link_of_def list_ex_iff)
      moreover have "link_ok var reg p m (extra @ [q]) (q, d, api_mode_of var reg q d)" using d by (simp add: link_ok_def)
      ultimately show ?thesis using assms old unfolding e
        by (auto simp: chain_spec_def list_all_iff)
    qed
  qed
qed

lemma chain_spec_fold:
  "chain_spec var reg p m done ls \<Longrightarrow> chain_spec var reg p m (done @ extra) (fold (add_cross_link var reg p) extra ls)"
proof (induction extra arbitrary: "done" ls)
  case (Cons q extra)
  from Cons.IH [OF chain_spec_step [OF Cons.prems, of q]] show ?case by simp
qed simp

lemma fallbacks_distinct: "register_all p = Some pr \<Longrightarrow> distinct (fallback_models pr)"
  by (auto simp: register_all_def openai_profile_def anthropic_profile_def gemini_profile_def deepseek_profile_def
      kimi_profile_def qwen_profile_def openrouter_profile_def fallback_profile_def split: if_splits)


end
