(* ===== verification/Transcribe.thy ===== *)
theory Transcribe
  imports Routing
begin

text \<open>
  Voice transcription: the capability table (\<open>router/src/stt_vendors.rs\<close>), the providers of the three wire families
  (\<open>stt_openai.rs\<close>, \<open>stt_chat_audio.rs\<close>, \<open>stt_minimax.rs\<close>), the chain (\<open>stt.rs\<close>), the
  transcriber that selects a vendor and opens its key and the routes
  (\<open>app-server/src/transcribe/\<close>, the provider choice in \<open>settings/routes.rs\<close>).

  Parameters (\<open>stt_env\<close>): the HTTP client, the JSON reader and its error text, base64, Unicode lower-casing,
  the vault, the model override. That building a multipart part with a literal MIME type succeeds is part of its documentation.
\<close>

section \<open>Vendors\<close>

datatype stt_kind = Multipart | Chat_Audio | Mini_Max

record stt_vendor =
  sv_id :: rstr
  sv_kind :: stt_kind
  sv_base :: rstr
  sv_model :: rstr
  sv_max_bytes :: nat
  sv_max_seconds :: nat
  sv_audio_only :: bool

definition MB :: nat where "MB = 1024 * 1024"

definition vendor :: "string \<Rightarrow> stt_kind \<Rightarrow> string \<Rightarrow> string \<Rightarrow> nat \<Rightarrow> nat \<Rightarrow> bool \<Rightarrow> stt_vendor" where
  "vendor i k url m bytes secs ao = \<lparr>sv_id = str i, sv_kind = k, sv_base = str url, sv_model = str m,
     sv_max_bytes = bytes, sv_max_seconds = secs, sv_audio_only = ao\<rparr>"

definition STT_VENDORS :: "stt_vendor list" where
  "STT_VENDORS =
     [vendor ''openai'' Multipart ''https://api.openai.com/v1'' ''gpt-4o-mini-transcribe-2025-12-15'' (25 * MB) 600 False,
      vendor ''groq'' Multipart ''https://api.groq.com/openai/v1'' ''whisper-large-v3-turbo'' (25 * MB) 600 False,
      vendor ''zhipu'' Multipart ''https://open.bigmodel.cn/api/paas/v4'' ''glm-asr-2512'' (25 * MB) 30 False,
      vendor ''gemini'' Chat_Audio ''https://generativelanguage.googleapis.com/v1beta/openai'' ''gemini-2.5-flash'' (20 * MB) 540 False,
      vendor ''qwen'' Chat_Audio ''https://dashscope.aliyuncs.com/compatible-mode/v1'' ''qwen3-asr-flash'' (10 * MB) 180 True]"

definition stt_vendor_of :: "rstr \<Rightarrow> stt_vendor option" where
  "stt_vendor_of i = find (\<lambda>v. to_ascii_lowercase (sv_id v) = to_ascii_lowercase (trim i)) STT_VENDORS"

definition is_stt_capable :: "rstr \<Rightarrow> bool" where
  "is_stt_capable p \<longleftrightarrow> stt_vendor_of p \<noteq> None"

definition resolve_model :: "stt_vendor \<Rightarrow> rstr option \<Rightarrow> rstr" where
  "resolve_model v requested =
     (case Option.bind requested (\<lambda>r. if trim r = [] then None else Some (trim r)) of
        None \<Rightarrow> sv_model v
      | Some m \<Rightarrow> if list_ex (\<lambda>w. sv_id w \<noteq> sv_id v \<and> sv_model w = m) STT_VENDORS then sv_model v else m)"

section \<open>Audio containers\<close>

record audio_format =
  af_kind :: rstr
  af_file :: rstr
  af_mime :: rstr

definition audio :: "string \<Rightarrow> string \<Rightarrow> audio_format" where
  "audio k mime = \<lparr>af_kind = str k, af_file = str (''audio.'' @ k), af_mime = str mime\<rparr>"

definition AUDIO_M4A :: audio_format where "AUDIO_M4A = audio ''m4a'' ''audio/mp4''"

definition detect_audio_format :: "bytes \<Rightarrow> audio_format" where
  "detect_audio_format b =
     (if 12 \<le> length b \<and> take 4 (drop 4 b) = str ''ftyp'' then
        (if to_ascii_lowercase (take 2 (drop 8 b)) = str ''3g'' then audio ''3gp'' ''audio/3gpp'' else AUDIO_M4A)
      else if 12 \<le> length b \<and> take 4 b = str ''RIFF'' \<and> take 4 (drop 8 b) = str ''WAVE'' then audio ''wav'' ''audio/wav''
      else if starts_with b (str ''OggS'') then audio ''ogg'' ''audio/ogg''
      else if starts_with b [0x1A, 0x45, 0xDF, 0xA3] then audio ''webm'' ''audio/webm''
      else if starts_with b (str ''fLaC'') then audio ''flac'' ''audio/flac''
      else if starts_with b (str ''caff'') then audio ''caf'' ''audio/x-caf''
      else if starts_with b (str ''#!AMR'') then audio ''amr'' ''audio/amr''
      else if starts_with b (str ''ID3'') \<or> 2 \<le> length b \<and> b ! 0 = 0xFF \<and> and (b ! 1) 0xE0 = 0xE0 then audio ''mp3'' ''audio/mpeg''
      else AUDIO_M4A)"

section \<open>Providers\<close>

record transcription =
  tr_success :: bool
  tr_text :: rstr
  tr_error :: "rstr option"
  tr_provider :: rstr

definition stt_fail :: "rstr \<Rightarrow> rstr \<Rightarrow> transcription" where
  "stt_fail provider msg = \<lparr>tr_success = False, tr_text = [], tr_error = Some msg, tr_provider = provider\<rparr>"

definition stt_ok :: "rstr \<Rightarrow> rstr \<Rightarrow> transcription" where
  "stt_ok provider txt = \<lparr>tr_success = True, tr_text = txt, tr_error = None, tr_provider = provider\<rparr>"

datatype stt_body =
    Form_Body rstr rstr rstr bytes "rstr option"  \<comment> \<open>model, file name, MIME type, file, language\<close>
  | Json_Body jvalue

record stt_request =
  sr_url :: rstr
  sr_query :: "(rstr \<times> rstr) list"
  sr_bearer :: rstr
  sr_body :: stt_body

datatype stt_reply = No_Reply rstr | Reply nat rstr

record stt_env =
  se_send :: "stt_request \<Rightarrow> stt_reply"
  se_json :: "rstr \<Rightarrow> rstr + jvalue"  \<comment> \<open>the error text, or the value\<close>
  se_base64 :: "bytes \<Rightarrow> rstr"
  se_unbase64 :: "rstr \<Rightarrow> bytes option"
  se_lower :: "rstr \<Rightarrow> rstr"
  se_vault :: vault_env
  se_openai_model :: "rstr option"

definition is_success_status :: "nat \<Rightarrow> bool" where
  "is_success_status st \<longleftrightarrow> 200 \<le> st \<and> st < 300"

definition non_empty :: "rstr option \<Rightarrow> rstr option" where
  "non_empty x = (case x of Some s \<Rightarrow> if s = [] then None else Some s | None \<Rightarrow> None)"

definition pointed_text :: "jvalue \<Rightarrow> string list \<Rightarrow> rstr" where
  "pointed_text v path = trim (the_or [] (Option.bind (pointer v (map str path)) as_str))"

definition unreadable_clip :: "bytes \<Rightarrow> rstr" where
  "unreadable_clip a = str ''the recording couldn'' @ 39 # str ''t be read by the speech service ('' @ show_nat (length a)
     @ str '' bytes, detected '' @ af_kind (detect_audio_format a) @ str ''). It was likely too short or didn'' @ 39
     # str ''t finish recording '' @ 8212 # str '' hold the mic and speak for at least a second, then try again.''"

text \<open>The multipart family: \<open>base\<close>, \<open>name\<close> and \<open>def_model\<close> are the fields of the provider.\<close>

definition openai_stt :: "stt_env \<Rightarrow> rstr \<Rightarrow> rstr \<Rightarrow> rstr \<Rightarrow> rstr \<Rightarrow> bytes \<Rightarrow> rstr option \<Rightarrow> rstr option \<Rightarrow> transcription" where
  "openai_stt env key base name def_model a model language =
     (let fmt = detect_audio_format a in
      case se_send env \<lparr>sr_url = base @ str ''/audio/transcriptions'', sr_query = [], sr_bearer = key,
             sr_body = Form_Body (the_or def_model model) (af_file fmt) (af_mime fmt) a (non_empty language)\<rparr> of
        No_Reply e \<Rightarrow> stt_fail name (name @ str '' stt transport: '' @ e)
      | Reply st body \<Rightarrow>
          if \<not> is_success_status st then
            (let l = se_lower env body in
             if st = 400 \<and> (contains l (str ''corrupt'') \<or> contains l (str ''unsupported'')) then stt_fail name (unreadable_clip a)
             else stt_fail name (name @ str '' stt '' @ show_nat st @ str '': '' @ body))
          else (case se_json env body of
              Inl e \<Rightarrow> stt_fail name (name @ str '' stt decode: '' @ e)
            | Inr v \<Rightarrow> stt_ok name (trim (the_or [] (get_str v ''text'')))))"

definition chat_audio_body :: "stt_env \<Rightarrow> bool \<Rightarrow> rstr \<Rightarrow> bytes \<Rightarrow> rstr option \<Rightarrow> jvalue" where
  "chat_audio_body env audio_only model a language =
     (let fmt = detect_audio_format a;
          url = str ''data:'' @ af_mime fmt @ str '';base64,'' @ se_base64 env a;
          hint = (case non_empty language of Some l \<Rightarrow> str '' The spoken language is '' @ l @ str ''.'' | None \<Rightarrow> []);
          input = json_obj [(''type'', JString (str ''input_audio'')),
            (''input_audio'', json_obj [(''data'', JString url), (''format'', JString (af_kind fmt))])];
          text_part = json_obj [(''type'', JString (str ''text'')), (''text'', JString
            (str ''Transcribe this audio verbatim. Return only the transcript text, no commentary.'' @ hint))] in
      json_obj [(''model'', JString model), (''messages'', JArray [json_obj [(''role'', JString (str ''user'')),
        (''content'', JArray (if audio_only then [input] else [input, text_part]))]])])"

definition chat_audio_stt :: "stt_env \<Rightarrow> rstr \<Rightarrow> rstr \<Rightarrow> rstr \<Rightarrow> rstr \<Rightarrow> bool \<Rightarrow> bytes \<Rightarrow> rstr option \<Rightarrow> rstr option
    \<Rightarrow> transcription" where
  "chat_audio_stt env key base name def_model audio_only a model language =
     (case se_send env \<lparr>sr_url = trim_end_matches 47 base @ str ''/chat/completions'', sr_query = [], sr_bearer = key,
             sr_body = Json_Body (chat_audio_body env audio_only (the_or def_model model) a language)\<rparr> of
        No_Reply e \<Rightarrow> stt_fail name (name @ str '' stt transport: '' @ e)
      | Reply st body \<Rightarrow>
          if \<not> is_success_status st then stt_fail name (name @ str '' stt '' @ show_nat st @ str '': '' @ body)
          else (case se_json env body of
              Inl e \<Rightarrow> stt_fail name (name @ str '' stt decode: '' @ e)
            | Inr v \<Rightarrow> (let t = pointed_text v [''choices'', ''0'', ''message'', ''content''] in
                if t = [] then stt_fail name (name @ str '' stt returned an empty transcript'') else stt_ok name t)))"

definition minimax_stt :: "stt_env \<Rightarrow> rstr \<Rightarrow> rstr \<Rightarrow> rstr \<Rightarrow> bytes \<Rightarrow> rstr option \<Rightarrow> transcription" where
  "minimax_stt env blob base def_model a model =
     (let mm = str ''minimax'';
          creds = (case se_json env blob of Inr v \<Rightarrow> v | Inl _ \<Rightarrow> json_obj [(''api_key'', JString blob)]);
          api_key = the_or [] (get_str creds ''api_key'');
          group_id = the_or [] (get_str creds ''group_id'') in
      if api_key = [] then stt_fail mm (str ''minimax: missing api_key in stored credential'')
      else if group_id = [] then stt_fail mm (str ''minimax: missing GroupId '' @ 8212 #
        str '' re-add your MiniMax key with its GroupId in Settings'')
      else (let m = the_or def_model model;
                fields = [(''audio'', JString (se_base64 env a)), (''format'', JString (af_kind (detect_audio_format a)))];
                body = json_obj (if m = [] then fields else fields @ [(''model'', JString m)]) in
        case se_send env \<lparr>sr_url = trim_end_matches 47 base @ str ''/audio/transcriptions'', sr_query = [(str ''GroupId'', group_id)],
               sr_bearer = api_key, sr_body = Json_Body body\<rparr> of
          No_Reply e \<Rightarrow> stt_fail mm (str ''minimax stt transport: '' @ e)
        | Reply st body \<Rightarrow>
            if \<not> is_success_status st then stt_fail mm (str ''minimax stt '' @ show_nat st @ str '': '' @ body)
            else (case se_json env body of
                Inl e \<Rightarrow> stt_fail mm (str ''minimax stt decode: '' @ e)
              | Inr v \<Rightarrow> (let t = pointed_text v [''text''] in
                  if t = [] then stt_fail mm (str ''minimax stt returned an empty transcript'') else stt_ok mm t))))"

text \<open>A provider of a chain: whether it is available, and its call.\<close>

type_synonym stt_provider = "bool \<times> (bytes \<Rightarrow> rstr option \<Rightarrow> rstr option \<Rightarrow> transcription)"

fun try_providers :: "stt_provider list \<Rightarrow> bytes \<Rightarrow> rstr option \<Rightarrow> rstr option \<Rightarrow> transcription \<Rightarrow> transcription" where
  "try_providers [] a model language last_result = last_result"
| "try_providers ((ok, call) # ps) a model language last_result =
     (if \<not> ok then try_providers ps a model language last_result
      else let r = call a model language in
        if tr_success r then r else try_providers ps a model language r)"

definition stt_router :: "stt_provider list \<Rightarrow> nat \<Rightarrow> bytes \<Rightarrow> rstr option \<Rightarrow> rstr option \<Rightarrow> transcription" where
  "stt_router ps max_bytes a model language =
     (if max_bytes < length a then stt_fail (str ''router'') (str ''audio constraint violated: '' @ show_nat (length a)
         @ str '' > '' @ show_nat max_bytes @ str '' bytes'')
      else try_providers ps a model language (stt_fail (str ''router'') (str ''no STT provider configured'')))"

section \<open>The transcriber\<close>

text \<open>The best key of a provider that is not dead: \<open>ORDER BY (status = 'ok') DESC, priority LIMIT 1\<close>,
  the first in scan order among equals.\<close>

definition key_better :: "cred_row \<Rightarrow> cred_row \<Rightarrow> bool" where
  "key_better a b \<longleftrightarrow> (if (cr_status a = Db_Ok) = (cr_status b = Db_Ok) then cr_priority a < cr_priority b else cr_status a = Db_Ok)"

fun best_key :: "cred_row list \<Rightarrow> cred_row option" where
  "best_key [] = None"
| "best_key (r # rs) = (case best_key rs of None \<Rightarrow> Some r | Some b \<Rightarrow> if key_better b r then Some b else Some r)"

text \<open>\<open>str::from_utf8\<close>: the bytes are the encoding of what they decode to.\<close>

definition strict_utf8 :: "bytes \<Rightarrow> rstr option" where
  "strict_utf8 bs = (if as_bytes (from_utf8_lossy bs) = bs then Some (from_utf8_lossy bs) else None)"

text \<open>\<open>None\<close> inside: no usable key; a panic of the cipher is \<open>None\<close> outside.\<close>

definition open_key :: "stt_env \<Rightarrow> uuid \<Rightarrow> rstr \<Rightarrow> settings_db \<Rightarrow> rstr option option" where
  "open_key env t p db =
     (case best_key (filter (\<lambda>r. cr_status r \<noteq> Db_Dead) (provider_rows t p (vd_creds (sd_vault db)))) of
        None \<Rightarrow> Some None
      | Some r \<Rightarrow> (case open_sealed (se_vault env) t (cr_sealed r) of
          None \<Rightarrow> None
        | Some (Inl e) \<Rightarrow> Some None
        | Some (Inr pt) \<Rightarrow> Some (Some (the_or [] (strict_utf8 pt)))))"

text \<open>\<open>SELECT provider .. WHERE status <> 'dead' GROUP BY provider ORDER BY MIN(priority), provider\<close>.\<close>

definition least_priority :: "cred_row list \<Rightarrow> rstr \<Rightarrow> int" where
  "least_priority rows p = foldr (\<lambda>r m. if cr_provider r = p then min m (cr_priority r) else m) rows
     (case find (\<lambda>r. cr_provider r = p) rows of Some r \<Rightarrow> cr_priority r | None \<Rightarrow> 0)"

definition configured_providers :: "stt_env \<Rightarrow> uuid \<Rightarrow> settings_db \<Rightarrow> rstr list" where
  "configured_providers env t db =
     (let rows = filter (\<lambda>r. cr_tenant r = t \<and> cr_status r \<noteq> Db_Dead) (vd_creds (sd_vault db));
          before = (\<lambda>p q. least_priority rows p < least_priority rows q
             \<or> least_priority rows p = least_priority rows q \<and> ve_collate (se_vault env) p q) in
      foldr (insert_provider before) (remdups (map cr_provider rows)) [])"

definition stored_choice :: "uuid \<Rightarrow> settings_db \<Rightarrow> rstr option" where
  "stored_choice t db = Option.bind (kv_get t STT_PROVIDER_KEY db) (\<lambda>v. get_str v ''provider'')"

definition explicit_setting :: "uuid \<Rightarrow> settings_db \<Rightarrow> rstr option" where
  "explicit_setting t db = (case stored_choice t db of
       None \<Rightarrow> None | Some s \<Rightarrow> if trim s = [] \<or> trim s = str ''auto'' then None else Some (trim s))"

definition not_capable :: "rstr \<Rightarrow> rstr" where
  "not_capable p = p @ str '' doesn'' @ 39 # str ''t support voice transcription '' @ 8212 #
     str '' pick an STT-capable provider in Settings''"

definition no_stt_provider :: rstr where
  "no_stt_provider = str ''no speech-to-text provider configured '' @ 8212 #
     str '' add a key for OpenAI, Groq, Zhipu, Gemini, or Qwen in Settings to use voice''"

definition setting_unreadable :: rstr where
  "setting_unreadable = str ''couldn'' @ 39 # str ''t read your voice-transcription setting '' @ 8212 # str '' please try again''"

fun first_capable :: "rstr list \<Rightarrow> stt_vendor option" where
  "first_capable [] = None"
| "first_capable (p # ps) = (case stt_vendor_of p of Some v \<Rightarrow> Some v | None \<Rightarrow> first_capable ps)"

text \<open>\<open>db_ok\<close> is whether the setting could be read.\<close>

definition resolve_vendor :: "stt_env \<Rightarrow> bool \<Rightarrow> uuid \<Rightarrow> settings_db \<Rightarrow> rstr + stt_vendor" where
  "resolve_vendor env db_ok t db =
     (if \<not> db_ok then Inl setting_unreadable
      else case explicit_setting t db of
        Some sel \<Rightarrow> (case stt_vendor_of sel of Some v \<Rightarrow> Inr v | None \<Rightarrow> Inl (not_capable sel))
      | None \<Rightarrow> (case first_capable (configured_providers env t db) of Some v \<Rightarrow> Inr v | None \<Rightarrow> Inl no_stt_provider))"

definition build_provider :: "stt_env \<Rightarrow> stt_vendor \<Rightarrow> rstr \<Rightarrow> stt_provider" where
  "build_provider env v key = (True, case sv_kind v of
       Multipart \<Rightarrow> openai_stt env key (sv_base v) (sv_id v)
         (if sv_id v = str ''openai'' then the_or (sv_model v) (se_openai_model env) else sv_model v)
     | Chat_Audio \<Rightarrow> chat_audio_stt env key (sv_base v) (sv_id v) (sv_model v) (sv_audio_only v)
     | Mini_Max \<Rightarrow> (\<lambda>a model language. minimax_stt env key (sv_base v) (sv_model v) a model))"

definition no_usable_key :: "rstr \<Rightarrow> rstr" where
  "no_usable_key p = str ''no usable '' @ p @ str '' key '' @ 8212 # str '' check your key in Settings''"

definition routed_transcribe :: "stt_env \<Rightarrow> bool \<Rightarrow> uuid \<Rightarrow> bytes \<Rightarrow> rstr option \<Rightarrow> rstr option \<Rightarrow> settings_db
    \<Rightarrow> transcription option" where
  "routed_transcribe env db_ok t a model language db =
     (case resolve_vendor env db_ok t db of
        Inl why \<Rightarrow> Some (stt_fail (str ''router'') why)
      | Inr v \<Rightarrow> (case open_key env t (sv_id v) db of
          None \<Rightarrow> None
        | Some None \<Rightarrow> Some (stt_fail (sv_id v) (no_usable_key (sv_id v)))
        | Some (Some key) \<Rightarrow> Some (stt_router [build_provider env v key] (sv_max_bytes v) a
             (map_option (\<lambda>m. resolve_model v (Some m)) model) language)))"

section \<open>The routes\<close>

definition list_stt_providers :: "stt_env \<Rightarrow> uuid \<Rightarrow> settings_db \<Rightarrow> jvalue" where
  "list_stt_providers env t db =
     json_obj [(''selected'', opt_str (case stored_choice t db of
           Some s \<Rightarrow> if s = str ''auto'' then None else Some s | None \<Rightarrow> None)),
       (''available'', JArray (map JString (filter is_stt_capable (configured_providers env t db)))),
       (''all_capable'', JArray (map (\<lambda>v. JString (sv_id v)) STT_VENDORS))]"

definition get_stt_provider :: "uuid \<Rightarrow> settings_db \<Rightarrow> jvalue" where
  "get_stt_provider t db = json_obj [(''provider'', opt_str (stored_choice t db))]"

definition set_stt_provider :: "uuid \<Rightarrow> rstr \<Rightarrow> settings_db \<Rightarrow> (http_error + jvalue) \<times> settings_db" where
  "set_stt_provider t provider db =
     (let p = trim provider in
      if p \<noteq> str ''auto'' \<and> \<not> is_stt_capable p
      then (Inl (Bad_Request (39 # p @ 39 # str '' does not support voice transcription'')), db)
      else let v = json_obj [(''provider'', JString p)] in (Inr v, kv_put t STT_PROVIDER_KEY v db))"

record transcribe_req =
  tq_audio :: rstr
  tq_language :: "rstr option"
  tq_model :: "rstr option"

definition transcription_json :: "transcription \<Rightarrow> jvalue" where
  "transcription_json r = json_obj [(''transcript'', JString (tr_text r)), (''provider'', JString (tr_provider r)),
     (''success'', JBool (tr_success r)), (''error'', opt_str (tr_error r))]"

text \<open>\<open>transcriber\<close> is the state's transcriber; the cost check that fails to read lets the call through.\<close>

definition transcribe :: "stt_env \<Rightarrow> cost_env \<Rightarrow> (bytes \<Rightarrow> rstr option \<Rightarrow> rstr option \<Rightarrow> transcription option)
    \<Rightarrow> uuid \<Rightarrow> uuid \<Rightarrow> transcribe_req \<Rightarrow> cost_db \<Rightarrow> (http_error + jvalue) option" where
  "transcribe env cenv transcriber t u rq db =
     (case check_ceiling cenv t u db of
        Inr (Some why) \<Rightarrow> Some (Inl Cost_Cap)
      | _ \<Rightarrow> (case se_unbase64 env (tq_audio rq) of
          None \<Rightarrow> Some (Inl (Bad_Request (str ''audio_b64 is not valid base64'')))
        | Some a \<Rightarrow> if a = [] then Some (Inl (Bad_Request (str ''empty audio'')))
            else map_option (\<lambda>r. Inr (transcription_json r)) (transcriber a (tq_model rq) (tq_language rq))))"

section \<open>Results\<close>

definition coherent :: "transcription \<Rightarrow> bool" where
  "coherent r \<longleftrightarrow> (if tr_success r then tr_error r = None else tr_error r \<noteq> None \<and> tr_text r = [])"

lemma coherent_simps [simp]: "coherent (stt_fail p e)" "coherent (stt_ok p x)"
  by (simp_all add: coherent_def stt_fail_def stt_ok_def)

definition well_named :: "rstr \<Rightarrow> transcription \<Rightarrow> bool" where
  "well_named p r \<longleftrightarrow> coherent r \<and> tr_provider r = p"

lemma well_named_simps [simp]: "well_named p (stt_fail p e)" "well_named p (stt_ok p x)"
  by (simp_all add: well_named_def stt_fail_def stt_ok_def coherent_def)

lemma well_named_if: "(b \<Longrightarrow> well_named p x) \<Longrightarrow> (\<not> b \<Longrightarrow> well_named p y) \<Longrightarrow> well_named p (if b then x else y)"
  by simp

lemma openai_named: "well_named name (openai_stt env key base name m a model language)"
  unfolding openai_stt_def Let_def by (simp split: stt_reply.split sum.split)

lemma chat_audio_named: "well_named name (chat_audio_stt env key base name m ao a model language)"
  unfolding chat_audio_stt_def Let_def by (simp split: stt_reply.split sum.split)

lemma minimax_named: "well_named (str ''minimax'') (minimax_stt env blob base m a model)"
  unfolding minimax_stt_def Let_def
  by (intro well_named_if well_named_simps) (simp split: stt_reply.split sum.split)

lemma listed_kind: "v \<in> set STT_VENDORS \<Longrightarrow> sv_kind v \<noteq> Mini_Max"
  by (auto simp: STT_VENDORS_def vendor_def)

lemma provider_named: "v \<in> set STT_VENDORS \<Longrightarrow> well_named (sv_id v) (snd (build_provider env v key) a m l)"
  using listed_kind [of v] openai_named chat_audio_named
  by (cases "sv_kind v") (simp_all add: build_provider_def)

lemma vendor_listed: "stt_vendor_of p = Some v \<Longrightarrow> v \<in> set STT_VENDORS"
  by (auto simp: stt_vendor_of_def find_Some_iff)

lemma stt_router_one:
  "stt_router [build_provider env v key] n a m l =
     (if n < length a then stt_fail (str ''router'') (str ''audio constraint violated: '' @ show_nat (length a)
         @ str '' > '' @ show_nat n @ str '' bytes'')
      else snd (build_provider env v key) a m l)"
  by (simp add: stt_router_def build_provider_def Let_def)

text \<open>
  Further: a transcription never fails outside its envelope: a result is a success without an error or a failure with
  one and no text, and it names the router or the one vendor that was selected.
\<close>

theorem transcription_envelope:
  assumes "routed_transcribe env db_ok t a model language db = Some r"
  shows "coherent r \<and> (tr_provider r = str ''router'' \<or> (\<exists>v. resolve_vendor env db_ok t db = Inr v \<and> tr_provider r = sv_id v))"
proof (cases "resolve_vendor env db_ok t db")
  case (Inl why)
  then show ?thesis using assms by (auto simp: routed_transcribe_def stt_fail_def coherent_def)
next
  case (Inr v)
  have v: "v \<in> set STT_VENDORS"
  proof -
    have "first_capable ps = Some v \<Longrightarrow> v \<in> set STT_VENDORS" for ps
      by (induction ps) (auto dest: vendor_listed split: option.splits)
    then show ?thesis using Inr by (auto simp: resolve_vendor_def dest: vendor_listed split: if_splits option.splits)
  qed
  have "well_named (sv_id v) r \<or> coherent r \<and> tr_provider r = str ''router''"
    using assms Inr provider_named [OF v]
    by (auto simp: routed_transcribe_def stt_router_one stt_fail_def coherent_def well_named_def split: option.splits if_splits)
  then show ?thesis using Inr by (auto simp: well_named_def)
qed

definition stt_env0 :: stt_env where
  "stt_env0 = \<lparr>se_send = (\<lambda>rq. Reply 200 []), se_json = (\<lambda>b. Inr JNull), se_base64 = (\<lambda>b. b), se_unbase64 = Some,
     se_lower = (\<lambda>s. s), se_vault = plain_vault_env, se_openai_model = None\<rparr>"

theorem transcription_envelope_witness:
  "coherent (stt_fail (str ''router'') no_stt_provider)"
proof -
  have "routed_transcribe stt_env0 True 2 [1] None None two_keys = Some (stt_fail (str ''router'') no_stt_provider)"
    by (simp add: routed_transcribe_def resolve_vendor_def explicit_setting_def stored_choice_def kv_get_def two_keys_def
        configured_providers_def fresh_row_def)
  from transcription_envelope [OF this] show ?thesis by blast
qed

text \<open>
  Further: an explicit choice is honoured and confined: the result depends on the keys of the chosen vendor alone;
  keys of other vendors, their status and priority, make no difference and are never used instead.
\<close>

theorem explicit_choice_confined:
  assumes "explicit_setting t db = Some sel" "explicit_setting t db' = Some sel" "stt_vendor_of sel = Some v"
    and "provider_rows t (sv_id v) (vd_creds (sd_vault db)) = provider_rows t (sv_id v) (vd_creds (sd_vault db'))"
  shows "routed_transcribe env db_ok t a model language db = routed_transcribe env db_ok t a model language db'"
  using assms by (simp add: routed_transcribe_def resolve_vendor_def open_key_def)

theorem explicit_choice_confined_witness:
  "routed_transcribe stt_env0 True 1 [1] None None (kv_put 1 STT_PROVIDER_KEY (json_obj [(''provider'', JString (str ''groq''))]) two_keys)
   = routed_transcribe stt_env0 True 1 [1] None None (kv_put 1 STT_PROVIDER_KEY (json_obj [(''provider'', JString (str ''groq''))])
       (two_keys\<lparr>sd_vault := (sd_vault two_keys)\<lparr>vd_creds := []\<rparr>\<rparr>))"
proof (rule explicit_choice_confined)
  show "explicit_setting 1 (kv_put 1 STT_PROVIDER_KEY (json_obj [(''provider'', JString (str ''groq''))]) d) = Some (str ''groq'')" for d
    by (simp add: explicit_setting_def stored_choice_def kv_put_get get_str_def json_obj_def) code_simp
  then show "explicit_setting 1 (kv_put 1 STT_PROVIDER_KEY (json_obj [(''provider'', JString (str ''groq''))]) d) = Some (str ''groq'')" for d .
  show "stt_vendor_of (str ''groq'') = Some (STT_VENDORS ! 1)" by code_simp
  show "provider_rows 1 (sv_id (STT_VENDORS ! 1)) (vd_creds (sd_vault (kv_put 1 STT_PROVIDER_KEY (json_obj [(''provider'', JString (str ''groq''))]) two_keys)))
    = provider_rows 1 (sv_id (STT_VENDORS ! 1)) (vd_creds (sd_vault (kv_put 1 STT_PROVIDER_KEY (json_obj [(''provider'', JString (str ''groq''))])
       (two_keys\<lparr>sd_vault := (sd_vault two_keys)\<lparr>vd_creds := []\<rparr>\<rparr>))))"
    by (simp add: provider_rows_def two_keys_def fresh_row_def STT_VENDORS_def vendor_def str_def)
qed

text \<open>
  Further: a clip over the limit of the selected vendor is never sent: the result is the same whatever the
  HTTP client would do.
\<close>

theorem oversized_never_sent:
  assumes "resolve_vendor env db_ok t db = Inr v" "sv_max_bytes v < length a"
  shows "routed_transcribe (env\<lparr>se_send := send\<rparr>) db_ok t a model language db = routed_transcribe (env\<lparr>se_send := send'\<rparr>) db_ok t a model language db"
proof -
  have "configured_providers (env\<lparr>se_send := s\<rparr>) t db = configured_providers env t db" for s
    by (simp add: configured_providers_def)
  then have r: "resolve_vendor (env\<lparr>se_send := s\<rparr>) db_ok t db = Inr v" for s
    using assms(1) by (simp only: resolve_vendor_def)
  have "se_vault (env\<lparr>se_send := s\<rparr>) = se_vault env" for s by simp
  then have k: "open_key (env\<lparr>se_send := s\<rparr>) t p db = open_key env t p db" for s p
    by (simp only: open_key_def)
  show ?thesis using assms(2) by (simp add: routed_transcribe_def r k stt_router_one split: option.split)
qed

theorem oversized_never_sent_witness:
  "routed_transcribe (stt_env0\<lparr>se_send := \<lambda>rq. Reply 200 []\<rparr>) True 1 (replicate (Suc (sv_max_bytes (STT_VENDORS ! 1))) 0) None None
      (kv_put 1 STT_PROVIDER_KEY (json_obj [(''provider'', JString (str ''groq''))]) two_keys)
   = routed_transcribe (stt_env0\<lparr>se_send := \<lambda>rq. No_Reply []\<rparr>) True 1 (replicate (Suc (sv_max_bytes (STT_VENDORS ! 1))) 0) None None
      (kv_put 1 STT_PROVIDER_KEY (json_obj [(''provider'', JString (str ''groq''))]) two_keys)"
proof (rule oversized_never_sent)
  have "explicit_setting 1 (kv_put 1 STT_PROVIDER_KEY (json_obj [(''provider'', JString (str ''groq''))]) d) = Some (str ''groq'')" for d
    by (simp add: explicit_setting_def stored_choice_def kv_put_get get_str_def json_obj_def) code_simp
  moreover have "stt_vendor_of (str ''groq'') = Some (STT_VENDORS ! 1)" by code_simp
  ultimately show "resolve_vendor stt_env0 True 1 (kv_put 1 STT_PROVIDER_KEY (json_obj [(''provider'', JString (str ''groq''))]) two_keys)
      = Inr (STT_VENDORS ! 1)" by (simp add: resolve_vendor_def)
qed simp

text \<open>
  Further: the cost gate of the route is exact: it refuses with the cost error exactly when the ceiling check
  refuses, and then no provider is called, whatever the transcriber.
\<close>

theorem transcribe_gate:
  "transcribe env cenv transcriber t u rq db = Some (Inl Cost_Cap) \<longleftrightarrow> (\<exists>why. check_ceiling cenv t u db = Inr (Some why))"
  by (auto simp: transcribe_def split: sum.splits option.splits if_splits)

text \<open>
  Further: model correction: whatever model is asked for, a vendor is never sent the default model of another.
\<close>

theorem model_never_foreign:
  assumes "v \<in> set STT_VENDORS" "w \<in> set STT_VENDORS" "sv_id w \<noteq> sv_id v"
  shows "resolve_model v requested \<noteq> sv_model w"
proof -
  have "sv_model v \<noteq> sv_model w"
    using assms by (auto simp: STT_VENDORS_def vendor_def str_def)
  then show ?thesis using assms(2,3)
    by (auto simp: resolve_model_def list_ex_iff split: option.splits)
qed

theorem model_never_foreign_witness:
  "resolve_model (STT_VENDORS ! 1) (Some (str ''glm-asr-2512'')) \<noteq> sv_model (STT_VENDORS ! 2)"
  by (rule model_never_foreign) (simp_all add: STT_VENDORS_def vendor_def str_def)

text \<open>
  Further: a key saved under a differently cased provider name is selected but never found: the tenant gets
  \<open>no usable key\<close>, even when another capable vendor has a key.
\<close>

theorem cased_name_unusable:
  assumes "explicit_setting t db = None" "configured_providers env t db = p # ps" "stt_vendor_of p = Some v"
    and "provider_rows t (sv_id v) (vd_creds (sd_vault db)) = []"
  shows "routed_transcribe env True t a model language db = Some (stt_fail (sv_id v) (no_usable_key (sv_id v)))"
  using assms by (simp add: routed_transcribe_def resolve_vendor_def open_key_def)

definition cased_keys :: settings_db where
  "cased_keys = \<lparr>sd_vault = \<lparr>vd_creds =
       [fresh_row 5 10 1 \<lparr>pk_provider = str ''OpenAI'', pk_label = None, pk_key = [], pk_priority = 0\<rparr>
           \<lparr>sk_ciphertext = [], sk_nonce = [], sk_tag = [], sk_dek = [], sk_kek = [], sk_hint = [1]\<rparr>,
        fresh_row 6 20 1 \<lparr>pk_provider = str ''groq'', pk_label = None, pk_key = [], pk_priority = 1\<rparr>
           \<lparr>sk_ciphertext = [], sk_nonce = [], sk_tag = [], sk_dek = [], sk_kek = [], sk_hint = [2]\<rparr>],
     vd_auth = \<lparr>tenants = [1], users = [], sessions = [], identities = [], audits = [], magic = Map.empty\<rparr>\<rparr>, sd_kv = []\<rparr>"

theorem cased_name_unusable_witness:
  "routed_transcribe stt_env0 True 1 [1] None None cased_keys
    = Some (stt_fail (sv_id (STT_VENDORS ! 0)) (no_usable_key (sv_id (STT_VENDORS ! 0))))"
proof (rule cased_name_unusable)
  show "explicit_setting 1 cased_keys = None"
    by (simp add: explicit_setting_def stored_choice_def kv_get_def cased_keys_def)
  show "configured_providers stt_env0 1 cased_keys = [str ''OpenAI'', str ''groq'']"
    by (simp add: configured_providers_def cased_keys_def fresh_row_def least_priority_def stt_env0_def plain_vault_env_def str_def Let_def)
  show "stt_vendor_of (str ''OpenAI'') = Some (STT_VENDORS ! 0)" by code_simp
  show "provider_rows 1 (sv_id (STT_VENDORS ! 0)) (vd_creds (sd_vault cased_keys)) = []"
    by (simp add: provider_rows_def cased_keys_def fresh_row_def STT_VENDORS_def vendor_def str_def)
qed

text \<open>
  Further: the families disagree on an empty transcript: for one and the same empty answer the multipart family
  reports success, the other two a failure.
\<close>

theorem empty_transcript_split:
  assumes "\<And>rq. se_send env rq = Reply 200 body" "se_json env body = Inr JNull"
  shows "tr_success (openai_stt env key base name m a model language)
    \<and> tr_text (openai_stt env key base name m a model language) = []
    \<and> \<not> tr_success (chat_audio_stt env key base name m ao a model language)"
  using assms by (simp add: openai_stt_def chat_audio_stt_def is_success_status_def get_str_def pointed_text_def
      stt_ok_def stt_fail_def the_or_def trim_def trim_start_def trim_end_def Let_def)

theorem empty_transcript_split_witness:
  "tr_success (openai_stt stt_env0 [] [] [] [] [1] None None) \<and> \<not> tr_success (chat_audio_stt stt_env0 [] [] [] [] False [1] None None)"
  using empty_transcript_split [of stt_env0 "[]"] by (simp add: stt_env0_def)

end
