(* ===== verification/Structured.thy ===== *)
theory Structured
  imports Json
begin

text \<open>
  Reading JSON out of what a model wrote: the wiki's \<open>wiki/json_hardening.rs\<close> and the router's
  \<open>router/structured.rs\<close> (with its one-shot repair ladder and the fail-closed ranker). Both cut the object
  out of reasoning blocks, fences and prose by counting braces and hand the slice to
  \<open>serde_json::from_str\<close>, the parameter \<open>from_str\<close> (\<open>Inl\<close> is its error's text). The scanners walk
  bytes in the code; every byte they look at is ASCII, so walking characters is the same.
\<close>

type_synonym json_reader = "rstr \<Rightarrow> rstr + jvalue"

definition think_end :: rstr where "think_end = str ''</think>''"
definition think_start :: rstr where "think_start = str ''<think>''"
definition fence :: rstr where "fence = [96, 96, 96]"
definition fence_json :: rstr where "fence_json = fence @ str ''json''"

section \<open>The wiki's reader\<close>

text \<open>The text after the last occurrence (\<open>rfind\<close>).\<close>

definition after_last :: "rstr \<Rightarrow> rstr \<Rightarrow> rstr option" where
  "after_last p s = map_option (\<lambda>i. rev (take i (rev s))) (find_str (rev p) (rev s))"

function strip_matches :: "rstr \<Rightarrow> rstr \<Rightarrow> rstr" where
  "strip_matches p s = (if p \<noteq> [] \<and> prefix p s then strip_matches p (drop (length p) s) else s)"
  by pat_completeness auto
termination
  by (relation "measure (\<lambda>(p, s). length s)") (auto dest!: prefix_length_le intro!: diff_less)

declare strip_matches.simps [simp del]

definition strip_suffix_str :: "rstr \<Rightarrow> rstr \<Rightarrow> rstr" where
  "strip_suffix_str p s = (if suffix p s then take (length s - length p) s else s)"

text \<open>How many characters a scan reads up to the brace that closes the depth, in a string (\<open>q\<close>) after a
  backslash (\<open>e\<close>) or not.\<close>

fun close_at :: "int \<Rightarrow> bool \<Rightarrow> bool \<Rightarrow> rstr \<Rightarrow> nat option" where
  "close_at d q e [] = None"
| "close_at d q e (c # s) =
     (if c = 34 \<and> \<not> e then map_option Suc (close_at d (\<not> q) False s)
      else if c = 92 \<and> q then map_option Suc (close_at d q (\<not> e) s)
      else if c = 123 \<and> \<not> q then map_option Suc (close_at (d + 1) q False s)
      else if c = 125 \<and> \<not> q then (if d - 1 = 0 then Some 1 else map_option Suc (close_at (d - 1) q False s))
      else map_option Suc (close_at d q False s))"

definition unwrap_response :: "rstr \<Rightarrow> rstr" where
  "unwrap_response raw = (let s = trim raw;
     s = (case after_last think_end s of None \<Rightarrow> s | Some t \<Rightarrow> trim t);
     s = trim (strip_matches fence (strip_matches fence_json s))
   in trim (strip_suffix_str fence s))"

definition parse_json_response :: "json_reader \<Rightarrow> json_reader" where
  "parse_json_response from_str raw = (let s = unwrap_response raw; t = dropWhile (\<lambda>c. c \<noteq> 123) s in
     case close_at 0 False False t of Some n \<Rightarrow> from_str (take n t) | None \<Rightarrow> from_str s)"

definition next_max_tokens_on_truncation :: "u32 \<Rightarrow> u32 option" where
  "next_max_tokens_on_truncation n = Some (sat_mul n 2)"

section \<open>The router's reader\<close>

function strip_thinks :: "rstr \<Rightarrow> rstr" where
  "strip_thinks s = (case (find_str think_start s, find_str think_end s) of
     (Some a, Some b) \<Rightarrow> if a < b then strip_thinks (take a s @ drop (b + length think_end) s) else s
   | _ \<Rightarrow> s)"
  by pat_completeness auto
termination
proof (relation "measure length", goal_cases)
  case (2 s _ _ a b)
  then have "b < length s"
    using find_str_prefix [of think_end s b] by (cases "b < length s") (auto simp: think_end_def str_def)
  then show ?case using 2 by (simp add: think_end_def)
qed simp

declare strip_thinks.simps [simp del]

definition inner_fence :: "rstr \<Rightarrow> rstr" where
  "inner_fence s = (case find_str fence s of
     None \<Rightarrow> s
   | Some i \<Rightarrow> (let after = drop (i + 3) s; after = the_or after (strip_prefix_str after (str ''json'')) in
       case find_str fence after of None \<Rightarrow> s | Some e \<Rightarrow> take e after))"

text \<open>Braces are counted in strings as well, and the depth can go below zero. \<open>st\<close> is the text from the
  last brace opened at depth zero, with the number of characters read since.\<close>

fun brace_span :: "int \<Rightarrow> (rstr \<times> nat) option \<Rightarrow> rstr \<Rightarrow> rstr option" where
  "brace_span d st [] = None"
| "brace_span d st (c # s) = (let next = map_option (\<lambda>(t, n). (t, Suc n)) st in
     if c = 123 then brace_span (d + 1) (if d = 0 then Some (c # s, 1) else next) s
     else if c = 125 then (if d - 1 = 0 then (case next of
             Some (t, n) \<Rightarrow> Some (take n t) | None \<Rightarrow> brace_span (d - 1) next s)
           else brace_span (d - 1) next s)
     else brace_span d next s)"

definition router_parse_json :: "json_reader \<Rightarrow> json_reader" where
  "router_parse_json from_str raw = (let s = inner_fence (strip_thinks raw) in
     case brace_span 0 None s of Some t \<Rightarrow> from_str t | None \<Rightarrow> from_str (trim s))"

text \<open>One repair pass, counted; the repair is the caller's function.\<close>

definition parse_with_repair :: "json_reader \<Rightarrow> nat \<Rightarrow> (rstr \<Rightarrow> rstr + rstr) \<Rightarrow> rstr \<Rightarrow> (rstr + jvalue) \<times> nat" where
  "parse_with_repair from_str attempts repair raw = (case router_parse_json from_str raw of
     Inr v \<Rightarrow> (Inr v, attempts)
   | Inl _ \<Rightarrow> (case repair raw of
       Inl e \<Rightarrow> (Inl e, attempts + 1)
     | Inr fixed \<Rightarrow> (router_parse_json from_str fixed, attempts + 1)))"

definition rank_or_empty :: "json_reader \<Rightarrow> rstr + rstr \<Rightarrow> rstr list" where
  "rank_or_empty from_str answer = (case answer of
     Inl _ \<Rightarrow> []
   | Inr body \<Rightarrow> (case router_parse_json from_str body of
       Inl _ \<Rightarrow> []
     | Inr v \<Rightarrow> the_or [] (map_option (List.map_filter as_str) (Option.bind (jget v (str ''selected'')) as_array))))"

section \<open>The text of a JSON object\<close>

text \<open>What delimits an object: string literals with escapes, nested objects, and characters that are neither
  quote nor brace. Every text \<open>serde_json\<close> prints for an object has this shape. \<open>ok\<close> says which
  characters string literals may hold.\<close>

inductive literal :: "(rchar \<Rightarrow> bool) \<Rightarrow> rstr \<Rightarrow> bool" for ok where
  lit_end: "literal ok [34]"
| lit_char: "literal ok t \<Longrightarrow> c \<noteq> 34 \<Longrightarrow> c \<noteq> 92 \<Longrightarrow> ok c \<Longrightarrow> literal ok (c # t)"
| lit_esc: "literal ok t \<Longrightarrow> ok c \<Longrightarrow> literal ok (92 # c # t)"

inductive body_text :: "(rchar \<Rightarrow> bool) \<Rightarrow> rstr \<Rightarrow> bool" for ok where
  body_nil: "body_text ok []"
| body_char: "body_text ok t \<Longrightarrow> c \<notin> {34, 123, 125} \<Longrightarrow> body_text ok (c # t)"
| body_lit: "literal ok l \<Longrightarrow> body_text ok t \<Longrightarrow> body_text ok (34 # l @ t)"
| body_obj: "body_text ok b \<Longrightarrow> body_text ok t \<Longrightarrow> body_text ok (123 # b @ 125 # t)"

definition object_text :: "(rchar \<Rightarrow> bool) \<Rightarrow> rstr \<Rightarrow> bool" where
  "object_text ok t \<longleftrightarrow> (\<exists>b. body_text ok b \<and> t = 123 # b @ [125])"

lemma close_at_literal:
  "literal ok l \<Longrightarrow> close_at d True False (l @ s) = map_option (\<lambda>n. length l + n) (close_at d False False s)"
  by (induction rule: literal.induct) (simp_all add: option.map_comp comp_def)

lemma close_at_body:
  "body_text ok b \<Longrightarrow> 0 < d \<Longrightarrow> close_at d False False (b @ s) = map_option (\<lambda>n. length b + n) (close_at d False False s)"
proof (induction arbitrary: d s rule: body_text.induct)
  case (body_lit l t)
  then show ?case by (cases "close_at d False False s") (simp_all add: close_at_literal)
next
  case (body_obj b t)
  then show ?case by (cases "close_at d False False s") simp_all
next
  case (body_char t c)
  then show ?case by (cases "close_at d False False s") simp_all
next
  case body_nil
  then show ?case by (cases "close_at d False False s") simp_all
qed

lemma close_at_object: "object_text ok t \<Longrightarrow> close_at 0 False False (t @ s) = Some (length t)"
  by (auto simp: object_text_def close_at_body)

section \<open>Where the object is\<close>

text \<open>\<open>holds t s\<close>: \<open>t\<close> stands in \<open>s\<close> behind text without an opening brace. Every stage of the
  unwrapping keeps this.\<close>

definition holds :: "rstr \<Rightarrow> rstr \<Rightarrow> bool" where
  "holds t s \<longleftrightarrow> (\<exists>pre post. s = pre @ t @ post \<and> 123 \<notin> set pre)"

lemma object_ends: "object_text ok t \<Longrightarrow> t \<noteq> [] \<and> hd t = 123 \<and> last t = 125"
  by (auto simp: object_text_def)

lemma dropWhile_pre: "123 \<notin> set pre \<Longrightarrow> \<not> P 123 \<Longrightarrow> \<exists>pre'. dropWhile P (pre @ 123 # s) = pre' @ 123 # s \<and> 123 \<notin> set pre'"
  by (induction pre) auto

lemma dropWhile_stop: "\<not> P c \<Longrightarrow> dropWhile P (x @ c # s) = dropWhile P x @ c # s"
  by (induction x) simp_all

lemma holds_trim_start:
  assumes "object_text ok t" "holds t s"
  shows "holds t (trim_start s)"
proof -
  obtain pre post where s: "s = pre @ t @ post" "123 \<notin> set pre" using assms(2) by (auto simp: holds_def)
  obtain b where t: "t = 123 # b" using object_ends [OF assms(1)] by (cases t) auto
  have "\<not> is_ws 123" by (simp add: is_ws_def)
  then obtain pre' where "dropWhile is_ws s = pre' @ t @ post" "123 \<notin> set pre'"
    using dropWhile_pre [OF s(2), of is_ws "b @ post"] s(1) t by auto
  then show ?thesis unfolding holds_def trim_start_def by blast
qed

lemma trim_end_append: "a \<noteq> [] \<Longrightarrow> \<not> is_ws (last a) \<Longrightarrow> trim_end (a @ b) = a @ trim_end b"
proof (induction b rule: rev_induct)
  case Nil
  then show ?case by (cases a rule: rev_cases) (simp_all add: trim_end_def)
qed (simp add: trim_end_def flip: append_assoc)

lemma holds_trim_end:
  assumes "object_text ok t" "holds t s"
  shows "holds t (trim_end s)"
proof -
  obtain pre post where s: "s = (pre @ t) @ post" "123 \<notin> set pre" using assms(2) by (auto simp: holds_def)
  have "trim_end s = (pre @ t) @ trim_end post"
    unfolding s(1) using object_ends [OF assms(1)] by (intro trim_end_append) (auto simp: is_ws_def)
  then show ?thesis using s(2) unfolding holds_def by auto
qed

lemma holds_trim: "object_text ok t \<Longrightarrow> holds t s \<Longrightarrow> holds t (trim s)"
  by (simp add: trim_def holds_trim_start holds_trim_end)

lemma holds_strip_prefix:
  assumes "object_text ok t" "holds t s" "prefix p s" "123 \<notin> set p"
  shows "holds t (drop (length p) s)"
proof -
  obtain pre post where s: "s = pre @ t @ post" "123 \<notin> set pre" using assms(2) by (auto simp: holds_def)
  have le: "length p \<le> length pre"
  proof (rule ccontr)
    assume "\<not> length p \<le> length pre"
    then have "p ! length pre = s ! length pre" "length pre < length p"
      using assms(3) by (auto simp: prefix_def nth_append)
    moreover have "s ! length pre = 123" using object_ends [OF assms(1)] s(1) by (cases t) (auto simp: nth_append)
    ultimately show False using assms(4) nth_mem by metis
  qed
  then have "drop (length p) s = drop (length p) pre @ t @ post" using s(1) by simp
  moreover have "123 \<notin> set (drop (length p) pre)" using s(2) by (meson in_set_dropD)
  ultimately show ?thesis unfolding holds_def by blast
qed

lemma holds_strip_matches:
  "object_text ok t \<Longrightarrow> 123 \<notin> set p \<Longrightarrow> holds t s \<Longrightarrow> holds t (strip_matches p s)"
proof (induction p s rule: strip_matches.induct)
  case (1 p s)
  show ?case
  proof (cases "p \<noteq> [] \<and> prefix p s")
    case True
    then have "holds t (strip_matches p (drop (length p) s))"
      using 1 holds_strip_prefix by blast
    then show ?thesis using True by (subst strip_matches.simps) simp
  next
    case False
    then have "strip_matches p s = s" by (subst strip_matches.simps) auto
    then show ?thesis using "1.prems" by simp
  qed
qed

lemma holds_strip_suffix:
  assumes "object_text ok t" "holds t s" "125 \<notin> set p"
  shows "holds t (strip_suffix_str p s)"
proof (cases "suffix p s")
  case True
  obtain pre post where s: "s = pre @ t @ post" "123 \<notin> set pre" using assms(2) by (auto simp: holds_def)
  obtain b where t: "t = b @ [125]" using object_ends [OF assms(1)] by (cases t rule: rev_cases) auto
  have "suffix p ((pre @ b) @ 125 # post)" using True s(1) t by simp
  then have "suffix p post" using assms(3) by (auto simp: suffix_append suffix_Cons)
  then obtain q where "post = q @ p" by (auto simp: suffix_def)
  then show ?thesis using True s unfolding holds_def strip_suffix_str_def by auto
qed (use assms in \<open>simp add: strip_suffix_str_def\<close>)

text \<open>A word whose first letter does not come again in it cannot overlap itself.\<close>

lemma find_str_first:
  "\<not> contains b q \<Longrightarrow> q \<noteq> [] \<Longrightarrow> hd q \<notin> set (tl q) \<Longrightarrow> find_str q (b @ q @ a) = Some (length b)"
proof (induction b)
  case Nil
  then show ?case by (cases q) (auto simp: prefix_def)
next
  case (Cons c b)
  have "\<not> prefix q (c # b @ q @ a)"
  proof
    assume p: "prefix q (c # b @ q @ a)"
    then obtain q' where q: "q = c # q'" "prefix q' (b @ q @ a)" using Cons.prems(2) by (cases q) auto
    show False
    proof (cases "length q' \<le> length b")
      case True
      then have "prefix q' b" using q(2) by (metis prefix_def prefix_length_prefix)
      then have "sublist q (c # b)" using q(1) by (metis prefix_Cons prefix_imp_sublist)
      then show False using Cons.prems(1) by (simp add: contains_iff_sublist)
    next
      case False
      then have "q' ! length b = (b @ q @ a) ! length b" using q(2) by (metis not_le nth_append prefix_def)
      then have "q' ! length b = hd q" using q(1) by (simp add: nth_append)
      then show False using False Cons.prems(3) q(1) nth_mem [of "length b" q'] by simp
    qed
  qed
  then show ?case using Cons not_contains_Cons [OF Cons.prems(1)] by simp
qed

lemma contains_rev: "contains (rev s) (rev p) = contains s p"
  by (simp add: contains_iff_sublist)

lemma after_last_found:
  assumes "\<not> contains b p" "p \<noteq> []" "last p \<notin> set (butlast p)"
  shows "after_last p (a @ p @ b) = Some b"
proof -
  have "hd (rev p) \<notin> set (tl (rev p))" using assms(2,3) by (cases p rule: rev_cases) simp_all
  then have "find_str (rev p) (rev b @ rev p @ rev a) = Some (length b)"
    using find_str_first [of "rev b" "rev p" "rev a"] assms(1,2) by (simp add: contains_rev)
  then show ?thesis by (simp add: after_last_def)
qed

lemma after_last_absent: "\<not> contains s p \<Longrightarrow> after_last p s = None"
  using contains_rev [of s p] by (simp add: after_last_def contains_def)

lemma think_end_shape: "think_end \<noteq> []" "last think_end \<notin> set (butlast think_end)" "\<not> is_ws (hd think_end)" "\<not> is_ws (last think_end)"
  by code_simp+

lemma contains_trim: "contains (trim s) p \<Longrightarrow> contains s p"
proof -
  have "sublist (trim s) s"
    unfolding trim_def trim_end_def trim_start_def
    by (metis rev_rev_ident sublist_dropWhile sublist_order.order_trans sublist_rev)
  then show "contains (trim s) p \<Longrightarrow> contains s p"
    by (meson contains_iff_sublist sublist_order.order_trans)
qed

section \<open>Properties\<close>

text \<open>
  Further: the object in an answer is found. Behind an optional reasoning block, a fence and prose without an
  opening brace, and before any text that holds no end of a reasoning block, the reader hands exactly
  the object's text to \<open>serde_json\<close>, whatever braces, quotes and escapes its strings hold.
\<close>

theorem object_found:
  assumes t: "object_text ok t" and pre: "123 \<notin> set pre" and no_end: "\<not> contains (pre @ t @ post) think_end"
    and thought: "thought = [] \<or> (\<exists>x. thought = x @ think_end)"
  shows "parse_json_response from_str (thought @ pre @ t @ post) = from_str t"
proof -
  let ?s1 = "case after_last think_end (trim (thought @ pre @ t @ post)) of None \<Rightarrow> trim (thought @ pre @ t @ post) | Some s \<Rightarrow> trim s"
  have base: "holds t (pre @ t @ post)" using pre unfolding holds_def by blast
  have "holds t ?s1"
    using thought
  proof
    assume "thought = []"
    moreover from this have "after_last think_end (trim (pre @ t @ post)) = None"
      using no_end contains_trim by (intro after_last_absent) blast
    ultimately show ?thesis using holds_trim [OF t base] by simp
  next
    assume "\<exists>x. thought = x @ think_end"
    then obtain x where x: "thought = x @ think_end" by blast
    let ?b = "trim_end (pre @ t @ post)"
    have "trim_start (x @ think_end @ pre @ t @ post) = dropWhile is_ws x @ think_end @ pre @ t @ post"
      using think_end_shape(1,3) dropWhile_stop [of is_ws "hd think_end" x "tl think_end @ pre @ t @ post"]
      by (simp add: trim_start_def flip: append_Cons)
    then have "trim (thought @ pre @ t @ post) = trim_end ((dropWhile is_ws x @ think_end) @ (pre @ t @ post))"
      using think_end_shape(1) by (simp add: x trim_def)
    also have "\<dots> = dropWhile is_ws x @ think_end @ ?b"
      using think_end_shape(1,4) by (subst trim_end_append) simp_all
    finally have "trim (thought @ pre @ t @ post) = dropWhile is_ws x @ think_end @ ?b" .
    moreover have "\<not> contains ?b think_end"
    proof
      assume "contains ?b think_end"
      moreover have "sublist ?b (pre @ t @ post)"
        unfolding trim_end_def by (metis rev_rev_ident sublist_dropWhile sublist_rev)
      ultimately show False using no_end by (meson contains_iff_sublist sublist_order.order_trans)
    qed
    ultimately have "after_last think_end (trim (thought @ pre @ t @ post)) = Some ?b"
      using after_last_found think_end_shape(1,2) by simp
    then show ?thesis using holds_trim [OF t holds_trim_end [OF t base]] by simp
  qed
  moreover have "123 \<notin> set fence_json" "123 \<notin> set fence" "125 \<notin> set fence" by code_simp+
  ultimately have "holds t (unwrap_response (thought @ pre @ t @ post))"
    unfolding unwrap_response_def Let_def by (intro holds_trim [OF t] holds_strip_suffix [OF t] holds_strip_matches [OF t])
  then obtain pre' post' where u: "unwrap_response (thought @ pre @ t @ post) = pre' @ t @ post'" "123 \<notin> set pre'"
    by (auto simp: holds_def)
  have "dropWhile (\<lambda>c. c \<noteq> 123) (pre' @ t @ post') = t @ post'"
    using u(2) object_ends [OF t] by (induction pre') (cases t; auto)+
  then show ?thesis using u close_at_object [OF t] by (simp add: parse_json_response_def)
qed

definition sample_object :: rstr where
  "sample_object = [123, 34, 97, 34, 58, 34, 125, 34, 125]"

text \<open>The object \<open>{"a":"}"}\<close>.\<close>

lemma sample_object_text: "object_text (\<lambda>_. True) sample_object"
proof -
  have "literal (\<lambda>_. True) [125, 34]" "literal (\<lambda>_. True) [97, 34]" by (auto intro: literal.intros)
  then have "body_text (\<lambda>_. True) (34 # [97, 34] @ 58 # 34 # [125, 34] @ [])"
    by (intro body_lit body_char body_nil) simp_all
  then show ?thesis unfolding object_text_def sample_object_def by auto
qed

theorem object_found_witness:
  "parse_json_response from_str ((str ''so {'' @ think_end) @ (fence_json @ nl) @ sample_object @ (nl @ fence)) = from_str sample_object"
  by (rule object_found [OF sample_object_text]) (code_simp, code_simp, blast)

lemma brace_span_skip:
  "123 \<notin> set s \<Longrightarrow> 125 \<notin> set s \<Longrightarrow> brace_span d st (s @ r) = brace_span d (map_option (\<lambda>(t, n). (t, n + length s)) st) r"
proof (induction s arbitrary: st)
  case Nil
  then show ?case by (cases st) auto
next
  case (Cons c s)
  then show ?case by (cases st) auto
qed

lemma literal_braceless: "literal (\<lambda>c. c \<notin> {123, 125}) l \<Longrightarrow> 123 \<notin> set l \<and> 125 \<notin> set l"
  by (induction rule: literal.induct) auto

lemma brace_span_body:
  "body_text (\<lambda>c. c \<notin> {123, 125}) b \<Longrightarrow> 0 < d
    \<Longrightarrow> brace_span d (Some (t, n)) (b @ r) = brace_span d (Some (t, n + length b)) r"
proof (induction arbitrary: d n r rule: body_text.induct)
  case (body_lit l b)
  then show ?case
    using brace_span_skip [of l d "Some (t, n + 1)" "b @ r"] literal_braceless [OF body_lit(1)] by (simp add: algebra_simps)
next
  case (body_obj b s)
  then show ?case by (simp add: algebra_simps)
qed simp_all

lemma brace_span_object:
  assumes "object_text (\<lambda>c. c \<notin> {123, 125}) t"
  shows "brace_span 0 None (t @ r) = Some t"
proof -
  obtain b where b: "body_text (\<lambda>c. c \<notin> {123, 125}) b" "t = 123 # b @ [125]" using assms by (auto simp: object_text_def)
  then show ?thesis using brace_span_body [OF b(1), of 1 "t @ r" 1 "125 # r"] by simp
qed



text \<open>
  Further: the router's reader counts braces in strings. A closing brace in a string ends its object early, and a
  stray closing brace in front hides the object; the wiki's reader gets the whole object both times.
\<close>

theorem router_counts_string_braces:
  "router_parse_json from_str sample_object = from_str (take 7 sample_object)
   \<and> parse_json_response from_str sample_object = from_str sample_object
   \<and> router_parse_json from_str (125 # str '' '' @ [123, 125]) = from_str (125 # str '' '' @ [123, 125])
   \<and> parse_json_response from_str (125 # str '' '' @ [123, 125]) = from_str [123, 125]"
proof -
  have "brace_span 0 None (inner_fence (strip_thinks sample_object)) = Some (take 7 sample_object)"
    "brace_span 0 None (inner_fence (strip_thinks (125 # str '' '' @ [123, 125]))) = None"
    "trim (inner_fence (strip_thinks (125 # str '' '' @ [123, 125]))) = 125 # str '' '' @ [123, 125]"
    by code_simp+
  moreover have "parse_json_response from_str ([] @ [] @ sample_object @ []) = from_str sample_object"
    by (rule object_found [OF sample_object_text]) (simp, code_simp, simp)
  moreover have "unwrap_response (125 # str '' '' @ [123, 125]) = 125 # str '' '' @ [123, 125]" by code_simp
  ultimately show ?thesis
    by (simp add: router_parse_json_def parse_json_response_def str_eval)
qed

end
