(* ===== verification/Extract.thy ===== *)
theory Extract
  imports Structured Transcript
begin

text \<open>
  Extraction: the data of an analysis (\<open>wiki/types.rs\<close>) with the readers \<open>serde\<close> derives for it, the
  seam to the model (\<open>wiki/llm.rs\<close>), and the extraction loop (\<open>wiki/extract/\<close>: analyzer, batch limits,
  batch merger, convergence, normalisation). The model behind the seam is a function over an abstract world
  state; the JSON reader and Unicode lower-casing are parameters. The batch loop is a
  \<open>partial_function\<close>: that it ends is a theorem.
\<close>

section \<open>The seam to the model\<close>

datatype wiki_llm_error = Llm_Provider rstr | Llm_Cost_Ceiling | Llm_Cancelled

record wiki_req =
  wr_system :: rstr
  wr_messages :: "message list"
  wr_format :: "(rstr \<times> jvalue) option"
  wr_max_tokens :: u32
  wr_cache :: "nat option"
  wr_no_thinking :: bool

record wiki_resp =
  ws_content :: rstr
  ws_usage :: "canonical_usage option"
  ws_truncated :: bool

type_synonym 'e wiki_llm = "'e \<Rightarrow> wiki_req \<Rightarrow> 'e \<times> (wiki_llm_error + wiki_resp)"

definition user_msg :: "rstr \<Rightarrow> message" where
  "user_msg s = (plain_message User s)\<lparr>is_untrusted := True\<rparr>"

text \<open>A call as the engine makes them: one user message, one cache breakpoint, no thinking.\<close>

definition plain_req :: "rstr \<Rightarrow> rstr \<Rightarrow> u32 \<Rightarrow> wiki_req" where
  "plain_req system text n = \<lparr>wr_system = system, wr_messages = [user_msg text], wr_format = None, wr_max_tokens = n,
     wr_cache = Some 1, wr_no_thinking = True\<rparr>"

definition bracketed :: "string \<Rightarrow> rstr" where "bracketed s = [91, 91] @ str s @ [93, 93]"

definition UNIVERSAL_LINK_CONSTRAINTS :: rstr where
  "UNIVERSAL_LINK_CONSTRAINTS = str ''LINK RULES (mandatory):'' @ nl
     @ str ''- Use '' @ bracketed ''wikilinks'' @ str '' only '' @ [8212] @ str '' never HTML or markdown links.'' @ nl
     @ str ''- Link by bare slug: '' @ bracketed ''rust'' @ str '' or '' @ bracketed ''rust|Rust''
     @ str ''. Never write folder paths in link display text (no '' @ bracketed ''entities/rust|entities/rust'' @ str '').'' @ nl
     @ str ''- Do not invent links to pages you have not been told exist.''"

section \<open>What an extraction yields\<close>

record item_info =
  ii_name :: rstr
  ii_aliases :: "rstr list"
  ii_subtype :: "rstr option"

record contradiction_info =
  ci_claim :: rstr
  ci_source_page :: "rstr option"
  ci_contradicted_by :: "rstr option"
  ci_resolution :: "rstr option"

record source_analysis =
  sa_title :: rstr
  sa_summary :: rstr
  sa_entities :: "item_info list"
  sa_concepts :: "item_info list"
  sa_contradictions :: "contradiction_info list"
  sa_related :: "rstr list"
  sa_points :: "rstr list"

definition sa_default :: source_analysis where
  "sa_default = \<lparr>sa_title = [], sa_summary = [], sa_entities = [], sa_concepts = [], sa_contradictions = [],
     sa_related = [], sa_points = []\<rparr>"

text \<open>The derived readers (\<open>default\<close>, \<open>deny_unknown_fields\<close>): an object with known keys only, or an
  array of the fields in order; what is missing is the default, a value of the wrong type an error.\<close>

definition struct_fields :: "string list \<Rightarrow> jvalue \<Rightarrow> jmap option" where
  "struct_fields names v = (case v of
     JObject m \<Rightarrow> if fst ` set m \<subseteq> str ` set names then Some m else None
   | JArray xs \<Rightarrow> if length xs \<le> length names then Some (zip (map str names) xs) else None
   | _ \<Rightarrow> None)"

definition read_field :: "string \<Rightarrow> (jvalue \<Rightarrow> 'a option) \<Rightarrow> 'a \<Rightarrow> jmap \<Rightarrow> 'a option" where
  "read_field k rd d m = (case obj_get m (str k) of None \<Rightarrow> Some d | Some v \<Rightarrow> rd v)"

definition read_vec :: "(jvalue \<Rightarrow> 'a option) \<Rightarrow> jvalue \<Rightarrow> 'a list option" where
  "read_vec rd v = Option.bind (as_array v) (\<lambda>xs. those (map rd xs))"

definition read_option :: "(jvalue \<Rightarrow> 'a option) \<Rightarrow> jvalue \<Rightarrow> 'a option option" where
  "read_option rd v = (if v = JNull then Some None else map_option Some (rd v))"

definition item_of :: "jvalue \<Rightarrow> item_info option" where
  "item_of v = (case struct_fields [''name'', ''aliases'', ''subtype''] v of None \<Rightarrow> None | Some m \<Rightarrow>
     (case (read_field ''name'' as_str [] m, read_field ''aliases'' (read_vec as_str) [] m,
            read_field ''subtype'' (read_option as_str) None m) of
        (Some n, Some a, Some s) \<Rightarrow> Some \<lparr>ii_name = n, ii_aliases = a, ii_subtype = s\<rparr>
      | _ \<Rightarrow> None))"

definition contradiction_of :: "jvalue \<Rightarrow> contradiction_info option" where
  "contradiction_of v = (case struct_fields [''claim'', ''source_page'', ''contradicted_by'', ''resolution''] v of None \<Rightarrow> None | Some m \<Rightarrow>
     (case (read_field ''claim'' as_str [] m, read_field ''source_page'' (read_option as_str) None m,
            read_field ''contradicted_by'' (read_option as_str) None m, read_field ''resolution'' (read_option as_str) None m) of
        (Some c, Some p, Some b, Some r) \<Rightarrow> Some \<lparr>ci_claim = c, ci_source_page = p, ci_contradicted_by = b, ci_resolution = r\<rparr>
      | _ \<Rightarrow> None))"

definition sa_fields :: "string list" where
  "sa_fields = [''source_title'', ''summary'', ''entities'', ''concepts'', ''contradictions'', ''related_pages'', ''key_points'']"

definition analysis_of :: "jvalue \<Rightarrow> source_analysis option" where
  "analysis_of v = (case struct_fields sa_fields v of None \<Rightarrow> None | Some m \<Rightarrow>
     (case (read_field ''source_title'' as_str [] m, read_field ''summary'' as_str [] m,
            read_field ''entities'' (read_vec item_of) [] m, read_field ''concepts'' (read_vec item_of) [] m,
            read_field ''contradictions'' (read_vec contradiction_of) [] m,
            read_field ''related_pages'' (read_vec as_str) [] m, read_field ''key_points'' (read_vec as_str) [] m) of
        (Some t, Some s, Some e, Some c, Some x, Some r, Some k) \<Rightarrow>
          Some \<lparr>sa_title = t, sa_summary = s, sa_entities = e, sa_concepts = c, sa_contradictions = x, sa_related = r, sa_points = k\<rparr>
      | _ \<Rightarrow> None))"

definition array_at :: "jvalue \<Rightarrow> string \<Rightarrow> jvalue list" where
  "array_at v k = the_or [] (Option.bind (jget v (str k)) as_array)"

definition coerce_source_analysis :: "jvalue \<Rightarrow> source_analysis" where
  "coerce_source_analysis v = (case analysis_of v of Some sa \<Rightarrow> sa | None \<Rightarrow>
     \<lparr>sa_title = the_or [] (get_str v ''source_title''), sa_summary = the_or [] (get_str v ''summary''),
      sa_entities = List.map_filter item_of (array_at v ''entities''),
      sa_concepts = List.map_filter item_of (array_at v ''concepts''),
      sa_contradictions = the_or [] (Option.bind (jget v (str ''contradictions'')) (read_vec contradiction_of)),
      sa_related = List.map_filter as_str (array_at v ''related_pages''),
      sa_points = List.map_filter as_str (array_at v ''key_points'')\<rparr>)"

text \<open>What \<open>to_value\<close> writes of an analysis for the two fields that are read again.\<close>

definition json_strings :: "rstr list \<Rightarrow> jvalue" where "json_strings xs = JArray (map JString xs)"

definition item_value :: "item_info \<Rightarrow> jvalue" where
  "item_value i = json_obj [(''name'', JString (ii_name i)), (''aliases'', json_strings (ii_aliases i)),
     (''subtype'', (case ii_subtype i of None \<Rightarrow> JNull | Some s \<Rightarrow> JString s))]"

definition analysis_value :: "source_analysis \<Rightarrow> jvalue" where
  "analysis_value sa = json_obj [(''source_title'', JString (sa_title sa)), (''summary'', JString (sa_summary sa)),
     (''entities'', JArray (map item_value (sa_entities sa))), (''concepts'', JArray (map item_value (sa_concepts sa)))]"

section \<open>Batches\<close>

datatype granularity = Fine | Standard | Coarse | Minimal

record batch_limits =
  items_per_batch :: nat
  max_total_items :: nat
  bl_max_tokens :: u32

fun base_items_per_batch :: "granularity \<Rightarrow> nat" where
  "base_items_per_batch Fine = 15" | "base_items_per_batch Standard = 8"
| "base_items_per_batch Coarse = 5" | "base_items_per_batch Minimal = 3"

fun base_cap :: "granularity \<Rightarrow> nat" where
  "base_cap Fine = 100" | "base_cap Standard = 50" | "base_cap Coarse = 25" | "base_cap Minimal = 10"

definition calculate_batch_limits :: "nat \<Rightarrow> granularity \<Rightarrow> batch_limits" where
  "calculate_batch_limits content_len g = (let total = min (base_cap g) (max (content_len div 600) 1);
       items = min (base_items_per_batch g) (max total 1)
     in \<lparr>items_per_batch = items, max_total_items = total, bl_max_tokens = of_nat items * 400\<rparr>)"

record extracted_item =
  ex_name :: rstr
  ex_aliases :: "rstr list"

definition item_keys :: "(rstr \<Rightarrow> rstr) \<Rightarrow> extracted_item \<Rightarrow> rstr list" where
  "item_keys lower i = lower (ex_name i) # map lower (ex_aliases i)"

definition same_item :: "(rstr \<Rightarrow> rstr) \<Rightarrow> extracted_item \<Rightarrow> extracted_item \<Rightarrow> bool" where
  "same_item lower cand x \<longleftrightarrow> list_ex (\<lambda>k. k \<in> set (item_keys lower x)) (item_keys lower cand)"

definition add_alias :: "(rstr \<Rightarrow> rstr) \<Rightarrow> rstr \<Rightarrow> extracted_item \<Rightarrow> extracted_item" where
  "add_alias lower a x = (if lower (ex_name x) \<noteq> lower a \<and> lower a \<notin> lower ` set (ex_aliases x)
     then x\<lparr>ex_aliases := ex_aliases x @ [a]\<rparr> else x)"

fun merge_item :: "(rstr \<Rightarrow> rstr) \<Rightarrow> extracted_item \<Rightarrow> extracted_item list \<Rightarrow> extracted_item list" where
  "merge_item lower cand [] = [cand]"
| "merge_item lower cand (x # xs) =
     (if same_item lower cand x then fold (add_alias lower) (ex_aliases cand) x # xs else x # merge_item lower cand xs)"

definition merge_batch_results :: "(rstr \<Rightarrow> rstr) \<Rightarrow> extracted_item list \<Rightarrow> extracted_item list \<Rightarrow> extracted_item list" where
  "merge_batch_results lower acc next = fold (merge_item lower) next acc"

datatype convergence = Continue | Halve | Stop

record round_state =
  rs_batch :: nat
  rs_new :: nat
  rs_halved :: bool
  rs_total :: nat
  rs_cap :: nat
  rs_empty :: bool

definition detect_convergence :: "round_state \<Rightarrow> convergence" where
  "detect_convergence s = (if rs_empty s then Stop
     else if rs_cap s \<le> rs_total s then Stop
     else if rs_new s * 2 < rs_batch s then (if rs_halved s then Stop else Halve)
     else Continue)"

datatype validity = Valid | Empty | Unusable

record normalized_batch =
  nb_entities :: "extracted_item list"
  nb_concepts :: "extracted_item list"
  nb_validity :: validity

definition coerce_item :: "jvalue \<Rightarrow> extracted_item option" where
  "coerce_item it = (let n = trim (the_or [] (get_str it ''name'')) in
     if n = [] then None else Some \<lparr>ex_name = n, ex_aliases = List.map_filter as_str (array_at it ''aliases'')\<rparr>)"

definition coerce_items :: "jvalue option \<Rightarrow> extracted_item list option" where
  "coerce_items v = (case v of
     None \<Rightarrow> Some [] | Some JNull \<Rightarrow> Some [] | Some (JArray arr) \<Rightarrow> Some (List.map_filter coerce_item arr) | Some _ \<Rightarrow> None)"

definition normalize_batch_response :: "jvalue \<Rightarrow> normalized_batch" where
  "normalize_batch_response v = (case (coerce_items (jget v (str ''entities'')), coerce_items (jget v (str ''concepts''))) of
     (Some e, Some c) \<Rightarrow> \<lparr>nb_entities = e, nb_concepts = c, nb_validity = (if e = [] \<and> c = [] then Empty else Valid)\<rparr>
   | _ \<Rightarrow> \<lparr>nb_entities = [], nb_concepts = [], nb_validity = Unusable\<rparr>)"

section \<open>The analyzer\<close>

record 'e analyzer =
  an_llm :: "'e wiki_llm"
  an_language :: rstr
  an_reader :: json_reader
  an_lower :: "rstr \<Rightarrow> rstr"

definition analyzer_system :: "'e analyzer \<Rightarrow> rstr" where
  "analyzer_system an = str (''You extract a source'' @ [CHR 0x27] @ ''s title, a one-paragraph summary, and its entities and concepts. Output language: '')
     @ an_language an @ str ''. Names are NOT translated.'' @ nl @ UNIVERSAL_LINK_CONSTRAINTS"

definition analyzer_user :: "rstr \<Rightarrow> rstr list \<Rightarrow> rstr" where
  "analyzer_user text exclude = text
     @ (if exclude = [] then [] else nl @ str ''Already extracted (do not repeat): '' @ join (str '', '') exclude) @ nl
     @ str ''Return ONLY JSON with keys: source_title (a short, specific title for this source '' @ [8212]
     @ str '' never empty), summary (one paragraph), entities, concepts, contradictions, related_pages, key_points.''"

definition extract_req :: "'e analyzer \<Rightarrow> rstr \<Rightarrow> rstr list \<Rightarrow> u32 \<Rightarrow> wiki_req" where
  "extract_req an text exclude n = plain_req (analyzer_system an) (analyzer_user text exclude) n"

text \<open>The answer with a restored brace first, then as it is.\<close>

definition read_analysis :: "json_reader \<Rightarrow> rstr \<Rightarrow> wiki_llm_error + source_analysis" where
  "read_analysis rd answer = (case parse_json_response rd (123 # dropWhile (\<lambda>c. c = 123) answer) of
     Inr v \<Rightarrow> Inr (coerce_source_analysis v)
   | Inl _ \<Rightarrow> (case parse_json_response rd answer of
       Inr v \<Rightarrow> Inr (coerce_source_analysis v) | Inl e \<Rightarrow> Inl (Llm_Provider e)))"

definition one_call :: "'e analyzer \<Rightarrow> rstr \<Rightarrow> rstr list \<Rightarrow> u32 \<Rightarrow> 'e \<Rightarrow> 'e \<times> (wiki_llm_error + source_analysis)" where
  "one_call an text exclude n env = (case an_llm an env (extract_req an text exclude n) of
     (env1, Inl e) \<Rightarrow> (env1, Inl e)
   | (env1, Inr resp) \<Rightarrow>
       (case (if ws_truncated resp then next_max_tokens_on_truncation n else None) of
          None \<Rightarrow> (env1, read_analysis (an_reader an) (ws_content resp))
        | Some doubled \<Rightarrow> (case an_llm an env1 (extract_req an text exclude doubled) of
            (env2, Inl e) \<Rightarrow> (env2, Inl e)
          | (env2, Inr resp2) \<Rightarrow> (env2, read_analysis (an_reader an) (ws_content resp2)))))"

record 'e batch_state =
  bs_env :: 'e
  bs_limits :: batch_limits
  bs_entities :: "extracted_item list"
  bs_concepts :: "extracted_item list"
  bs_calls :: nat
  bs_halved :: bool
  bs_first :: "source_analysis option"

definition bs_total :: "'e batch_state \<Rightarrow> nat" where
  "bs_total s = length (bs_entities s) + length (bs_concepts s)"

text \<open>One round: the state after it and whether the loop goes on.\<close>

definition batch_round :: "'e analyzer \<Rightarrow> rstr \<Rightarrow> 'e batch_state \<Rightarrow> ('e \<times> wiki_llm_error) + 'e batch_state \<times> bool" where
  "batch_round an text s = (case one_call an text (map ex_name (bs_entities s @ bs_concepts s)) (bl_max_tokens (bs_limits s)) (bs_env s) of
     (env', Inl e) \<Rightarrow> Inl (env', e)
   | (env', Inr sa) \<Rightarrow> (let norm = normalize_batch_response (analysis_value sa);
       es = merge_batch_results (an_lower an) (bs_entities s) (nb_entities norm);
       cs = merge_batch_results (an_lower an) (bs_concepts s) (nb_concepts norm);
       s' = s\<lparr>bs_env := env', bs_entities := es, bs_concepts := cs, bs_calls := bs_calls s + 1,
              bs_first := (case bs_first s of None \<Rightarrow> Some sa | Some x \<Rightarrow> Some x)\<rparr>;
       verdict = detect_convergence \<lparr>rs_batch = items_per_batch (bs_limits s), rs_new = bs_total s' - bs_total s,
         rs_halved = bs_halved s, rs_total = bs_total s', rs_cap = max_total_items (bs_limits s),
         rs_empty = (nb_validity norm \<noteq> Valid)\<rparr>
     in Inr (case verdict of
          Continue \<Rightarrow> (s', True)
        | Halve \<Rightarrow> (s'\<lparr>bs_limits := (bs_limits s)\<lparr>items_per_batch := max (items_per_batch (bs_limits s) div 2) 1\<rparr>,
                        bs_halved := True\<rparr>, True)
        | Stop \<Rightarrow> (s', False))))"

partial_function (option) batch_rounds :: "'e analyzer \<Rightarrow> rstr \<Rightarrow> 'e batch_state \<Rightarrow> (('e \<times> wiki_llm_error) + 'e batch_state) option" where
  "batch_rounds an text s = (case batch_round an text s of
     Inl e \<Rightarrow> Some (Inl e)
   | Inr (s', again) \<Rightarrow> if again then batch_rounds an text s' else Some (Inr s'))"

definition plain_item :: "extracted_item \<Rightarrow> item_info" where
  "plain_item x = \<lparr>ii_name = ex_name x, ii_aliases = ex_aliases x, ii_subtype = None\<rparr>"

definition batch_start :: "rstr \<Rightarrow> 'e \<Rightarrow> 'e batch_state" where
  "batch_start text env = \<lparr>bs_env = env, bs_limits = calculate_batch_limits (utf8_len text) Standard, bs_entities = [],
     bs_concepts = [], bs_calls = 0, bs_halved = False, bs_first = None\<rparr>"

definition batch_loop :: "'e analyzer \<Rightarrow> rstr \<Rightarrow> 'e \<Rightarrow> ('e \<times> (wiki_llm_error + source_analysis \<times> nat)) option" where
  "batch_loop an text env = map_option (\<lambda>r. case r of
      Inl (env', e) \<Rightarrow> (env', Inl e)
    | Inr s \<Rightarrow> (bs_env s, Inr ((the_or sa_default (bs_first s))\<lparr>sa_entities := map plain_item (bs_entities s),
        sa_concepts := map plain_item (bs_concepts s)\<rparr>, bs_calls s)))
    (batch_rounds an text (batch_start text env))"

datatype analyze_mode = Conversation | Long_Source

definition analyze :: "'e analyzer \<Rightarrow> rstr \<Rightarrow> analyze_mode \<Rightarrow> 'e \<Rightarrow> ('e \<times> (wiki_llm_error + source_analysis \<times> nat)) option" where
  "analyze an text mode env = (case mode of
     Conversation \<Rightarrow> Some (case one_call an text [] 1024 env of
         (env', Inl e) \<Rightarrow> (env', Inl e) | (env', Inr sa) \<Rightarrow> (env', Inr (sa, 1)))
   | Long_Source \<Rightarrow> batch_loop an text env)"

section \<open>Reading an analysis\<close>

lemma obj_get_filter: "P k \<Longrightarrow> obj_get (filter (\<lambda>kv. P (fst kv)) m) k = obj_get m k"
  by (induction m) (auto split: prod.splits)

definition known_part :: "jmap \<Rightarrow> jvalue" where
  "known_part m = JObject (filter (\<lambda>kv. fst kv \<in> str ` set sa_fields) m)"

lemma those_map_filter: "those (map f xs) = Some ys \<Longrightarrow> List.map_filter f xs = ys"
  by (induction xs arbitrary: ys) (auto simp: List.map_filter_simps split: option.splits)

lemma read_vec_lenient:
  "read_field k (read_vec rd) [] m = Some ys \<Longrightarrow> List.map_filter rd (array_at (JObject m) k) = ys"
  by (auto simp: read_field_def read_vec_def array_at_def bind_eq_Some_conv those_map_filter List.map_filter_simps
      split: option.splits)

lemma read_str_lenient: "read_field k as_str [] m = Some s \<Longrightarrow> the_or [] (get_str (JObject m) k) = s"
  by (auto simp: read_field_def get_str_def split: option.splits)

lemma read_contradictions_lenient:
  "read_field k (read_vec rd) [] m = Some ys \<Longrightarrow> the_or [] (Option.bind (obj_get m (str k)) (read_vec rd)) = ys"
  by (auto simp: read_field_def split: option.splits)

lemma read_field_known:
  "k \<in> set sa_fields \<Longrightarrow> read_field k rd d (filter (\<lambda>kv. fst kv \<in> str ` set sa_fields) m) = read_field k rd d m"
  using obj_get_filter [of "\<lambda>x. x \<in> str ` set sa_fields" "str k" m] by (simp add: read_field_def)

text \<open>
  Further: an extra key costs nothing. If the known part of an answer is well formed, its analysis is the one of the
  known part, whatever other keys the model added.
\<close>

theorem extra_keys_harmless:
  assumes "analysis_of (known_part m) = Some sa"
  shows "coerce_source_analysis (JObject m) = sa"
proof (cases "analysis_of (JObject m)")
  case (Some sa')
  have "known_part m = JObject m"
    using Some by (auto simp: analysis_of_def struct_fields_def known_part_def filter_id_conv split: if_splits)
  then show ?thesis using Some assms by (simp add: coerce_source_analysis_def)
next
  case None
  have mem: "''source_title'' \<in> set sa_fields" "''summary'' \<in> set sa_fields" "''entities'' \<in> set sa_fields"
    "''concepts'' \<in> set sa_fields" "''contradictions'' \<in> set sa_fields" "''related_pages'' \<in> set sa_fields"
    "''key_points'' \<in> set sa_fields" by (simp_all add: sa_fields_def)
  have "struct_fields sa_fields (known_part m) = Some (filter (\<lambda>kv. fst kv \<in> str ` set sa_fields) m)"
    by (auto simp: struct_fields_def known_part_def)
  then show ?thesis
    using assms None
    by (auto simp: coerce_source_analysis_def analysis_of_def read_field_known mem read_vec_lenient read_str_lenient
        read_contradictions_lenient split: option.splits)
qed

text \<open>
  Further: one odd item is lost whole. An entity with a key beyond name, aliases and subtype is dropped from the
  analysis, with its name.
\<close>

theorem extra_item_key_drops_item:
  "map ii_name (sa_entities (coerce_source_analysis (json_obj [(''entities'',
      JArray [json_obj [(''name'', JString (str ''Rust''))],
              json_obj [(''name'', JString (str ''Tokio'')), (''kind'', JString (str ''crate''))]])]))) = [str ''Rust'']"
  by code_simp

section \<open>Merging\<close>

lemma add_alias_name [simp]: "ex_name (add_alias lower a x) = ex_name x"
  by (simp add: add_alias_def)

lemma add_alias_keys: "set (item_keys lower (add_alias lower a x)) = insert (lower a) (set (item_keys lower x))"
  by (auto simp: add_alias_def item_keys_def)

lemma add_aliases [simp]:
  "ex_name (fold (add_alias lower) as x) = ex_name x"
  "set (item_keys lower (fold (add_alias lower) as x)) = set (item_keys lower x) \<union> lower ` set as"
  by (induction as arbitrary: x) (auto simp: add_alias_keys)

text \<open>A list of items that has grown: every item is still there under its name and with its keys.\<close>

definition items_grown :: "(rstr \<Rightarrow> rstr) \<Rightarrow> extracted_item list \<Rightarrow> extracted_item list \<Rightarrow> bool" where
  "items_grown lower xs ys \<longleftrightarrow> length xs \<le> length ys
     \<and> list_all2 (\<lambda>x y. ex_name y = ex_name x \<and> set (item_keys lower x) \<subseteq> set (item_keys lower y)) xs (take (length xs) ys)"

lemma items_grown_refl: "items_grown lower xs xs"
  by (simp add: items_grown_def list_all2_refl)

lemma items_grown_iff: "items_grown lower xs ys \<longleftrightarrow> length xs \<le> length ys
    \<and> (\<forall>i < length xs. ex_name (ys ! i) = ex_name (xs ! i) \<and> set (item_keys lower (xs ! i)) \<subseteq> set (item_keys lower (ys ! i)))"
  by (auto simp: items_grown_def list_all2_conv_all_nth)

lemma items_grown_trans:
  assumes "items_grown lower xs ys" "items_grown lower ys zs"
  shows "items_grown lower xs zs"
  unfolding items_grown_iff
proof (intro conjI allI impI)
  show "length xs \<le> length zs" using assms by (simp add: items_grown_iff)
  fix i assume i: "i < length xs"
  then have j: "i < length ys" using assms(1) by (simp add: items_grown_iff)
  note x = assms(1) [unfolded items_grown_iff, THEN conjunct2, rule_format, OF i]
  note y = assms(2) [unfolded items_grown_iff, THEN conjunct2, rule_format, OF j]
  show "ex_name (zs ! i) = ex_name (xs ! i)" using x y by simp
  show "set (item_keys lower (xs ! i)) \<subseteq> set (item_keys lower (zs ! i))" using x y by blast
qed

lemma items_grown_merge_item: "items_grown lower xs (merge_item lower c xs)"
proof (induction xs)
  case (Cons x xs)
  then show ?case by (auto simp: items_grown_def list_all2_refl)
qed (simp add: items_grown_def)

lemma items_grown_merge: "items_grown lower acc (merge_batch_results lower acc next)"
  unfolding merge_batch_results_def
proof (induction "next" arbitrary: acc)
  case (Cons c cs)
  show ?case using items_grown_trans [OF items_grown_merge_item Cons] by simp
qed (simp add: items_grown_refl)

definition known_item :: "(rstr \<Rightarrow> rstr) \<Rightarrow> extracted_item \<Rightarrow> extracted_item list \<Rightarrow> bool" where
  "known_item lower c xs \<longleftrightarrow> list_ex (same_item lower c) xs"

lemma known_items_grown:
  assumes "known_item lower c xs" "items_grown lower xs ys"
  shows "known_item lower c ys"
proof -
  obtain i where i: "i < length xs" "same_item lower c (xs ! i)"
    using assms(1) by (auto simp: known_item_def list_ex_iff in_set_conv_nth)
  then have "set (item_keys lower (xs ! i)) \<subseteq> set (item_keys lower (ys ! i))" "i < length ys"
    using assms(2) by (auto simp: items_grown_def list_all2_conv_all_nth)
  then show ?thesis using i(2) by (auto simp: known_item_def same_item_def list_ex_iff intro!: bexI [of _ "ys ! i"])
qed

lemma known_merge_item: "known_item lower c (merge_item lower c xs)"
proof (induction xs)
  case Nil
  then show ?case by (simp add: known_item_def same_item_def item_keys_def)
next
  case (Cons x xs)
  then show ?case by (auto simp: known_item_def same_item_def list_ex_iff)
qed

lemma merge_item_length: "length (merge_item lower c xs) = length xs + (if known_item lower c xs then 0 else 1)"
  by (induction xs) (auto simp: known_item_def)

lemma known_merge: "c \<in> set next \<Longrightarrow> known_item lower c (merge_batch_results lower acc next)"
proof (induction "next" arbitrary: acc)
  case (Cons d ds)
  show ?case
  proof (cases "c = d")
    case True
    have "items_grown lower (merge_item lower d acc) (merge_batch_results lower acc (d # ds))"
      using items_grown_merge [of lower "merge_item lower d acc" ds] by (simp add: merge_batch_results_def)
    then show ?thesis using True known_merge_item known_items_grown by blast
  next
    case False
    then show ?thesis using Cons by (simp add: merge_batch_results_def)
  qed
qed simp

lemma merge_known_length:
  "list_all (\<lambda>c. known_item lower c acc) next \<Longrightarrow> length (merge_batch_results lower acc next) = length acc"
proof (induction "next" arbitrary: acc)
  case (Cons c cs)
  have "list_all (\<lambda>c. known_item lower c (merge_item lower c' acc)) cs" for c'
    using Cons.prems known_items_grown [OF _ items_grown_merge_item] by (auto simp: list_all_iff)
  then show ?case using Cons by (simp add: merge_batch_results_def merge_item_length)
qed (simp add: merge_batch_results_def)

text \<open>
  Further: what a merge keeps. Every accumulated item stays in its place under its name with all its aliases, every
  candidate shares a name or alias with an item of the result, and a batch that comes again adds no item.
\<close>

theorem merge_sound:
  "let r = merge_batch_results lower acc next in
     items_grown lower acc r \<and> list_all (\<lambda>c. known_item lower c r) next \<and> length (merge_batch_results lower r next) = length r"
proof -
  let ?r = "merge_batch_results lower acc next"
  have "list_all (\<lambda>c. known_item lower c ?r) next" using known_merge by (auto simp: list_all_iff)
  then show ?thesis using items_grown_merge merge_known_length by (simp add: Let_def)
qed

text \<open>
  Further: a name can be lost. A candidate that matches by an alias brings its aliases, not its name, so a name that
  is nobody's alias is in the result neither as a name nor as an alias.
\<close>

theorem merge_loses_name:
  "merge_batch_results id [\<lparr>ex_name = str ''DSA'', ex_aliases = []\<rparr>]
     [\<lparr>ex_name = str ''Data Structures'', ex_aliases = [str ''DSA'']\<rparr>] = [\<lparr>ex_name = str ''DSA'', ex_aliases = []\<rparr>]"
  by code_simp

section \<open>The batch loop ends\<close>

lemma limits_positive: "0 < items_per_batch (calculate_batch_limits n g) \<and> 0 < max_total_items (calculate_batch_limits n g)"
  by (cases g) (auto simp: calculate_batch_limits_def Let_def)

lemma batch_total_mono: "batch_round an text s = Inr (s', again) \<Longrightarrow> bs_total s \<le> bs_total s'"
  using items_grown_merge [of "an_lower an"]
  by (auto simp: batch_round_def bs_total_def items_grown_iff Let_def add_mono split: prod.splits sum.splits convergence.splits)

text \<open>How many rounds can still follow.\<close>

definition rounds_room :: "'e batch_state \<Rightarrow> nat" where
  "rounds_room s = (let cap = max_total_items (bs_limits s) in
     if cap \<le> bs_total s then 0 else cap - bs_total s + (if bs_halved s then 0 else 1))"

lemma batch_round_again:
  assumes "batch_round an text s = Inr (s', True)" "0 < items_per_batch (bs_limits s)"
  shows "rounds_room s' < rounds_room s \<and> 0 < rounds_room s' \<and> 0 < items_per_batch (bs_limits s')
    \<and> bs_calls s' = bs_calls s + 1 \<and> max_total_items (bs_limits s') = max_total_items (bs_limits s)"
proof -
  note le = batch_total_mono [OF assms(1)]
  show ?thesis
    using assms le
    by (auto simp: batch_round_def Let_def detect_convergence_def rounds_room_def bs_total_def
        split: prod.splits sum.splits convergence.splits if_splits)
qed

lemma batch_round_calls: "batch_round an text s = Inr (s', again) \<Longrightarrow> bs_calls s' = bs_calls s + 1"
  by (auto simp: batch_round_def Let_def split: prod.splits sum.splits convergence.splits)

lemma batch_rounds_end:
  "0 < items_per_batch (bs_limits s) \<Longrightarrow> \<exists>r. batch_rounds an text s = Some r
     \<and> (case r of Inl _ \<Rightarrow> True | Inr s' \<Rightarrow> bs_calls s < bs_calls s' \<and> bs_calls s' \<le> bs_calls s + max 1 (rounds_room s))"
proof (induction "rounds_room s" arbitrary: s rule: less_induct)
  case less
  show ?case
  proof (cases "batch_round an text s")
    case (Inl e)
    then show ?thesis by (simp add: batch_rounds.simps)
  next
    case (Inr r)
    obtain s' again where r: "r = (s', again)" by (cases r)
    show ?thesis
    proof (cases again)
      case False
      then show ?thesis using Inr r batch_round_calls [of an _ s] by (subst batch_rounds.simps) simp
    next
      case True
      then have step: "batch_round an text s = Inr (s', True)" using Inr r by simp
      note m = batch_round_again [OF step less.prems]
      note IH = less.hyps [OF m [THEN conjunct1] m [THEN conjunct2, THEN conjunct2, THEN conjunct1]]
      show ?thesis
      proof (rule exE [OF IH])
        fix x
        assume x: "batch_rounds an text s' = Some x \<and> (case x of Inl _ \<Rightarrow> True
          | Inr s'' \<Rightarrow> bs_calls s' < bs_calls s'' \<and> bs_calls s'' \<le> bs_calls s' + max 1 (rounds_room s'))"
        then have "batch_rounds an text s = Some x" using step by (subst batch_rounds.simps) simp
        then show ?thesis using x m by (intro exI [of _ x]) (auto split: sum.splits)
      qed
    qed
  qed
qed


text \<open>
  Further: what a conversation's extraction sends. One request about the given text, and one more with twice the
  tokens exactly if the first answer was cut off; the analysis is that of the last answer.
\<close>

theorem conversation_exact:
  "analyze an text Conversation env =
     (let first = an_llm an env (extract_req an text [] 1024);
          final = (case snd first of Inr r \<Rightarrow> if ws_truncated r then an_llm an (fst first) (extract_req an text [] 2048) else first | Inl _ \<Rightarrow> first)
      in Some (fst final, case snd final of Inl e \<Rightarrow> Inl e | Inr r \<Rightarrow> (case read_analysis (an_reader an) (ws_content r) of
           Inl e \<Rightarrow> Inl e | Inr sa \<Rightarrow> Inr (sa, 1))))"
proof -
  have "sat_mul (1024 :: u32) 2 = 2048" by code_simp
  then show ?thesis
    by (auto simp: analyze_def one_call_def next_max_tokens_on_truncation_def Let_def split: prod.split sum.split)
qed

text \<open>
  Further: halving changes nothing the model sees. Whatever size a batch has, the same requests are made in the same
  state and the same items are gathered; the size only decides whether another round follows.
\<close>

definition round_effect :: "('e \<times> wiki_llm_error) + 'e batch_state \<times> bool \<Rightarrow> ('e \<times> wiki_llm_error) + 'e \<times> extracted_item list \<times> extracted_item list" where
  "round_effect r = map_sum id (\<lambda>(s, _). (bs_env s, bs_entities s, bs_concepts s)) r"

theorem halving_unseen:
  "round_effect (batch_round an text (s\<lparr>bs_limits := (bs_limits s)\<lparr>items_per_batch := n\<rparr>\<rparr>)) = round_effect (batch_round an text s)"
  by (auto simp: round_effect_def batch_round_def Let_def split: prod.split sum.split convergence.split)

end
