(* ===== verification/Index_Gen.thy ===== *)
theory Index_Gen
  imports Wiki_Pages
begin

text \<open>
  The generated index of a vault (\<open>wiki/index_gen.rs\<close>, the query \<open>catalog_rows\<close> of
  \<open>store/wiki_repo.rs\<close>): one line per page, cut at 200 lines and 25,000 bytes. The parameter \<open>latest\<close>
  puts rows in the order of the column \<open>updated\<close>, newest first. Byte offsets are written out, because the cut slices
  the text at a fixed one: inside a character that is a panic, the outcome \<open>None\<close>.
\<close>

section \<open>The index\<close>

definition MAX_INDEX_LINES :: nat where "MAX_INDEX_LINES = 200"
definition MAX_INDEX_BYTES :: nat where "MAX_INDEX_BYTES = 25000"
definition MAX_LINE_CHARS :: nat where "MAX_LINE_CHARS = 150"

type_synonym page_order = "page list \<Rightarrow> page list"

definition catalog_rows :: "page_order \<Rightarrow> gate_env \<Rightarrow> wiki \<Rightarrow> page list" where
  "catalog_rows latest env s = latest (filter (\<lambda>p. p_type p \<in> {Entity, Concept, Source}) (existing_pages env s))"

definition index_line :: "page \<Rightarrow> rstr" where
  "index_line p = (let
       hook = take (MAX_LINE_CHARS - (utf8_len (p_slug p) + 12)) (p_summary p);
       alias_note = (if p_aliases p = [] then [] else str '' (aliases: '' @ join (str '', '') (p_aliases p) @ str '')'');
       line = str ''- [['' @ p_slug p @ str ''|'' @ p_title p @ str '']] '' @ [8212] @ str '' '' @ hook @ alias_note
     in if MAX_LINE_CHARS < length line then take MAX_LINE_CHARS line else line)"

text \<open>The slice of the first \<open>n\<close> bytes.\<close>

fun byte_prefix :: "nat \<Rightarrow> rstr \<Rightarrow> rstr option" where
  "byte_prefix n [] = (if n = 0 then Some [] else None)"
| "byte_prefix n (c # s) = (if n = 0 then Some [] else if utf8_width c \<le> n then map_option (Cons c) (byte_prefix (n - utf8_width c) s) else None)"

definition before_last :: "rchar \<Rightarrow> rstr \<Rightarrow> rstr" where
  "before_last c s = (if c \<in> set s then rev (tl (dropWhile (\<lambda>d. d \<noteq> c) (rev s))) else s)"

definition index_warning :: "nat \<Rightarrow> string \<Rightarrow> rstr" where
  "index_warning n what = nl @ str ''> WARNING: index truncated at '' @ show_nat n @ str '' '' @ str what @ str ''.''"

definition truncate_index :: "rstr \<Rightarrow> rstr option" where
  "truncate_index idx = (let
       ls = lines idx;
       kept = (if MAX_INDEX_LINES < length ls then take MAX_INDEX_LINES ls else ls);
       warned = (if MAX_INDEX_LINES < length ls then index_warning MAX_INDEX_LINES ''lines'' else []);
       joined = join nl kept
     in if MAX_INDEX_BYTES < utf8_len joined
        then map_option (\<lambda>head. before_last 10 head @ index_warning MAX_INDEX_BYTES ''bytes'') (byte_prefix MAX_INDEX_BYTES joined)
        else Some (joined @ warned))"

definition index_header :: rstr where "index_header = str ''# Index'' @ nl @ nl"

definition regenerate_index :: "page_order \<Rightarrow> gate_env \<Rightarrow> wiki \<Rightarrow> rstr option" where
  "regenerate_index latest env s = (let rows = catalog_rows latest env s in
     if rows = [] then Some (index_header @ str ''(wiki is empty)'' @ nl)
     else truncate_index (index_header @ concat (map (\<lambda>p. index_line p @ nl) rows)))"

section \<open>Lines and bytes\<close>

lemma split_char_nonempty [simp]: "split_char c s \<noteq> []"
  by (induction s) (auto split: list.splits)

lemma split_char_append: "split_char c (a @ c # b) = split_char c a @ split_char c b"
  by (induction a) (auto split: list.splits)

lemma split_char_none: "c \<notin> set s \<Longrightarrow> split_char c s = [s]"
  by (induction s) auto

lemma length_split_char: "length (split_char c s) = Suc (count_list s c)"
  by (induction s) (auto split: list.splits)

lemma split_char_free: "x \<in> set (split_char c s) \<Longrightarrow> c \<notin> set x"
  by (induction s arbitrary: x) (auto split: list.splits if_splits)

lemma lines_count: "length (lines s) \<le> Suc (count_list s 10)"
  using length_split_char [of 10 s] by (simp add: lines_def Let_def)

lemma line_free: "x \<in> set (lines s) \<Longrightarrow> 10 \<notin> set x"
proof -
  assume "x \<in> set (lines s)"
  then consider y where "y \<in> set (split_char 10 s)" "x = strip_cr y" | "x = last (split_char 10 s)"
    by (auto simp: lines_def Let_def dest: in_set_butlastD split: if_splits)
  then show ?thesis
    using split_char_free [OF last_in_set [OF split_char_nonempty], of 10 s]
    by cases (auto simp: strip_cr_def dest!: in_set_butlastD split_char_free)
qed

lemma count_join: "list_all (\<lambda>x. c \<notin> set x) xs \<Longrightarrow> c \<notin> set sep' \<Longrightarrow> count_list (join (c # sep') xs) c = length xs - 1"
  by (induction "c # sep'" xs rule: join.induct) (auto simp: count_list_append)

lemma lines_concat:
  assumes "list_all (\<lambda>x. 10 \<notin> set x \<and> strip_cr x = x) xs"
  shows "lines (concat (map (\<lambda>x. x @ [10]) xs)) = xs"
proof -
  have "split_char 10 (concat (map (\<lambda>x. x @ [10]) xs)) = xs @ [[]]"
    using assms by (induction xs) (auto simp: split_char_append split_char_none)
  then show ?thesis
    using assms by (auto simp: lines_def Let_def list_all_iff intro: map_idI)
qed

lemma byte_prefix_Some: "byte_prefix n s = Some h \<Longrightarrow> prefix h s \<and> utf8_len h = n"
  by (induction n s arbitrary: h rule: byte_prefix.induct) (auto simp: utf8_len_def split: if_splits)

lemma byte_prefix_None: "byte_prefix n s = None \<longleftrightarrow> (\<forall>h. prefix h s \<longrightarrow> utf8_len h \<noteq> n)"
proof (induction n s rule: byte_prefix.induct)
  case (1 n)
  then show ?case by (auto simp: utf8_len_def)
next
  case (2 n c s)
  show ?case
  proof (cases "n = 0 \<or> n < utf8_width c")
    case True
    have "utf8_width c \<noteq> 0" by (simp add: utf8_width_def)
    then show ?thesis using True by (auto simp: utf8_len_def prefix_Cons intro: exI [of _ "[]"])
  next
    case False
    have "(\<forall>h. prefix h (c # s) \<longrightarrow> utf8_len h \<noteq> n) \<longleftrightarrow> (\<forall>h. prefix h s \<longrightarrow> utf8_len h \<noteq> n - utf8_width c)"
      using False by (auto simp: prefix_Cons utf8_len_def)
    then show ?thesis using False 2 by simp
  qed
qed

lemma before_last_prefix: "prefix (before_last c s) s"
proof -
  have "suffix (tl (dropWhile (\<lambda>d. d \<noteq> c) (rev s))) (rev s)"
    by (meson suffix_dropWhile suffix_tl suffix_order.trans)
  then show ?thesis by (simp add: before_last_def suffix_to_prefix)
qed

lemma count_prefix: "prefix a b \<Longrightarrow> count_list a x \<le> count_list b x"
  by (auto simp: prefix_def count_list_append)

lemma utf8_prefix: "prefix a b \<Longrightarrow> utf8_len a \<le> utf8_len b"
  by (auto simp: prefix_def utf8_len_def)

lemma index_warning_simps:
  "index_warning MAX_INDEX_LINES ''lines'' = nl @ str ''> WARNING: index truncated at 200 lines.''"
  "index_warning MAX_INDEX_BYTES ''bytes'' = nl @ str ''> WARNING: index truncated at 25000 bytes.''"
  by (simp_all add: index_warning_def MAX_INDEX_LINES_def MAX_INDEX_BYTES_def show_nat.simps str_eval)


lemma utf8_app: "utf8_len (a @ b) = utf8_len a + utf8_len b"
  by (simp add: utf8_len_def)

lemma index_warning_len:
  "utf8_len (index_warning MAX_INDEX_LINES ''lines'') = 41" "utf8_len (index_warning MAX_INDEX_BYTES ''bytes'') = 43"
  by (simp_all add: index_warning_simps utf8_len_def utf8_width_def nl_def str_eval)

lemma join_lines: "xs \<noteq> [] \<Longrightarrow> join [10] xs @ [10] = concat (map (\<lambda>x. x @ [10]) xs)"
  by (induction "[10::rchar]" xs rule: join.induct) auto

lemma split_char_sub: "x \<in> set (split_char c s) \<Longrightarrow> set x \<subseteq> set s"
  by (induction s arbitrary: x) (fastforce split: list.splits if_splits)+

lemma lines_no_last:
  assumes "13 \<notin> set s" "lines (s @ [10]) = ls" "last ls \<noteq> []"
  shows "lines s = ls"
proof -
  obtain ps l where ps: "split_char 10 s = ps @ [l]"
    by (metis split_char_nonempty rev_exhaust)
  have "split_char 10 (s @ [10]) = split_char 10 s @ [[]]"
    using split_char_append [of 10 s "[]"] by simp
  then have ls: "ls = map strip_cr (ps @ [l])"
    using assms(2) ps by (simp add: lines_def Let_def butlast_append)
  then have l: "l \<noteq> []" using assms(3) by (auto simp: strip_cr_def)
  have "13 \<notin> set l" using assms(1) split_char_sub [of l 10 s] ps by auto
  then have "strip_cr l = l" using l last_in_set by (fastforce simp: strip_cr_def)
  then show ?thesis using ps l ls by (simp add: lines_def Let_def)
qed

section \<open>What the index shows\<close>

text \<open>Further: an index that is produced has at most 201 lines and 25,043 bytes.\<close>

theorem index_bounded:
  assumes "truncate_index idx = Some out"
  shows "length (lines out) \<le> 201 \<and> utf8_len out \<le> 25043"
proof -
  define kept where "kept = (if MAX_INDEX_LINES < length (lines idx) then take MAX_INDEX_LINES (lines idx) else lines idx)"
  define warned where "warned = (if MAX_INDEX_LINES < length (lines idx) then index_warning MAX_INDEX_LINES ''lines'' else [])"
  let ?joined = "join nl kept"
  have kept: "length kept \<le> 200" "list_all (\<lambda>x. 10 \<notin> set x) kept"
    by (auto simp: kept_def MAX_INDEX_LINES_def list_all_iff dest: line_free in_set_takeD)
  then have count: "count_list ?joined 10 \<le> 199"
    using count_join [of 10 kept "[]"] by (simp add: nl_def)
  have lim: "length (lines s) \<le> 201" if "count_list s 10 \<le> 200" for s
    using lines_count [of s] that by simp
  show ?thesis
  proof (cases "MAX_INDEX_BYTES < utf8_len ?joined")
    case True
    then obtain h where h: "byte_prefix MAX_INDEX_BYTES ?joined = Some h"
        "out = before_last 10 h @ index_warning MAX_INDEX_BYTES ''bytes''"
      using assms by (auto simp: truncate_index_def Let_def kept_def)
    have "prefix (before_last 10 h) ?joined"
      using before_last_prefix byte_prefix_Some [OF h(1)] by (blast intro: prefix_order.trans)
    then have "count_list out 10 \<le> 200"
      using count count_prefix [of "before_last 10 h" ?joined 10]
      by (simp add: h(2) index_warning_simps count_list_append nl_def str_eval)
    moreover have "utf8_len out \<le> 25043"
      using utf8_prefix [OF before_last_prefix [of 10 h]] byte_prefix_Some [OF h(1)]
      by (simp add: h(2) utf8_app index_warning_len utf8_len_def [of "[]"]) (simp add: MAX_INDEX_BYTES_def)
    ultimately show ?thesis using lim by blast
  next
    case False
    then have out: "out = ?joined @ warned"
      using assms by (auto simp: truncate_index_def Let_def kept_def warned_def)
    have "count_list out 10 \<le> 200"
      using count by (simp add: out warned_def index_warning_simps count_list_append nl_def str_eval)
    moreover have "utf8_len out \<le> 25043"
      using False by (simp add: out warned_def utf8_app index_warning_len utf8_len_def [of "[]"]) (simp add: MAX_INDEX_BYTES_def)
    ultimately show ?thesis using lim by blast
  qed
qed

text \<open>
  Further: the index is complete for a small vault. When no entry has a line break in it, there are at most 198 of them and the
  text has at most 25,000 bytes, the lines of the index are the heading, an empty line and one line for each live entity,
  concept and source page of the tenant, newest first.
\<close>

definition one_line :: "page \<Rightarrow> bool" where
  "one_line p \<longleftrightarrow> 10 \<notin> set (index_line p) \<and> 13 \<notin> set (index_line p)"

theorem index_complete:
  assumes some: "catalog_rows latest env s \<noteq> []" "length (catalog_rows latest env s) \<le> 198"
    and one: "list_all one_line (catalog_rows latest env s)"
    and small: "utf8_len (index_header @ concat (map (\<lambda>p. index_line p @ nl) (catalog_rows latest env s))) \<le> 25000"
  shows "map_option lines (regenerate_index latest env s)
    = Some (str ''# Index'' # [] # map index_line (catalog_rows latest env s))"
proof -
  define ls where "ls = str ''# Index'' # [] # map index_line (catalog_rows latest env s)"
  let ?text = "index_header @ concat (map (\<lambda>p. index_line p @ nl) (catalog_rows latest env s))"
  have whole: "?text = concat (map (\<lambda>x. x @ [10]) ls)"
    by (simp add: ls_def index_header_def nl_def comp_def)
  have ne: "index_line p \<noteq> []" for p
    by (simp add: index_line_def MAX_LINE_CHARS_def Let_def)
  have free: "list_all (\<lambda>x. 10 \<notin> set x \<and> 13 \<notin> set x) ls"
    using one by (simp add: ls_def one_line_def list_all_iff str_eval)
  then have "list_all (\<lambda>x. 10 \<notin> set x \<and> strip_cr x = x) ls"
    using last_in_set by (fastforce simp: list_all_iff strip_cr_def)
  then have lines: "lines ?text = ls"
    unfolding whole by (rule lines_concat)
  have "ls \<noteq> []" by (simp add: ls_def)
  then have join: "join nl ls @ [10] = ?text"
    unfolding whole by (metis join_lines nl_def)
  have "utf8_len (join nl ls) \<le> utf8_len ?text"
    by (rule utf8_prefix) (metis join prefixI)
  then have "truncate_index ?text = Some (join nl ls)"
    using small some(2) by (simp add: truncate_index_def lines MAX_INDEX_LINES_def MAX_INDEX_BYTES_def ls_def)
  moreover have "lines (join nl ls) = ls"
  proof (rule lines_no_last)
    have "13 \<notin> set ?text"
      unfolding whole using free by (auto simp: list_all_iff)
    then show "13 \<notin> set (join nl ls)"
      by (metis Un_iff join set_append)
    show "lines (join nl ls @ [10]) = ls" by (simp only: join lines)
    show "last ls \<noteq> []" using some(1) ne by (simp add: ls_def last_map)
  qed
  ultimately show ?thesis
    using some(1) by (simp add: regenerate_index_def ls_def)
qed


text \<open>
  Further: a vault that is not small can make the index panic. Sixty pages with a three-letter slug and a long Chinese summary
  (one character, three bytes, repeated) give a text whose byte 25,000 lies inside a character, where the slice panics.
\<close>

definition crowded_page :: "gate_env \<Rightarrow> nat \<Rightarrow> page" where
  "crowded_page env i = insert_row env (of_nat i) Entity
     \<lparr>u_type = str ''entity'', u_slug = show_nat (100 + i), u_title = str ''A'', u_aliases = [], u_tags = [],
      u_summary = replicate 135 23383, u_char_len = 0, u_body_ref = body_path env Entity (show_nat (100 + i)), u_source_ids = [],
      u_content_hash = []\<rparr>"

definition crowded :: "gate_env \<Rightarrow> wiki" where
  "crowded env = \<lparr>pages = map (crowded_page env) [0..<60], wlinks = [], files = Map.empty\<rparr>"

lemma show_three:
  assumes "i < 60"
  shows "show_nat (100 + i) = [49, 48 + i div 10, 48 + i mod 10]"
proof -
  have d: "(100 + i) div 10 = 10 + i div 10" "(100 + i) mod 10 = i mod 10" by (simp, presburger)
  have "i div 10 < 10" using assms by simp
  then have e: "(10 + i div 10) div 10 = 1" "(10 + i div 10) mod 10 = i div 10" by simp_all
  show ?thesis
    by (simp only: show_nat.simps [of "100 + i"] d show_nat.simps [of "10 + i div 10"] e show_nat.simps [of 1]) simp
qed

lemma byte_prefix_append:
  "utf8_len a \<le> n \<Longrightarrow> byte_prefix n (a @ b) = map_option ((@) a) (byte_prefix (n - utf8_len a) b)"
proof (induction a arbitrary: n)
  case (Cons c a)
  have "0 < utf8_width c" by (simp add: utf8_width_def)
  then show ?case using Cons by (simp add: utf8_len_def option.map_comp comp_def)
next
  case Nil
  then show ?case by (cases "byte_prefix n b") (simp_all add: utf8_len_def)
qed

lemma byte_prefix_wide:
  assumes "list_all (\<lambda>c. utf8_width c = 3) s" "\<not> 3 dvd n" "n \<le> utf8_len s"
  shows "byte_prefix n (s @ t) = None"
  using assms
proof (induction s arbitrary: n)
  case (Cons c s)
  show ?case
  proof (cases "3 \<le> n")
    case True
    then have "\<not> 3 dvd (n - 3)" using Cons.prems(2) by (metis dvd_diff_nat dvd_refl le_add_diff_inverse2 dvd_add)
    then show ?thesis using Cons True by (simp add: utf8_len_def)
  next
    case False
    moreover have "n \<noteq> 0" using Cons.prems(2) by (metis dvd_0_right)
    ultimately show ?thesis using Cons.prems(1) by simp
  qed
qed (simp add: utf8_len_def)


definition crowded_head :: "nat \<Rightarrow> rstr" where
  "crowded_head i = str ''- [['' @ [49, 48 + i div 10, 48 + i mod 10] @ str ''|A]] '' @ [8212, 32]"

lemma two_digits: "i < 60 \<Longrightarrow> i div 10 < 80 \<and> i mod 10 < (80 :: nat)"
  by presburger

lemma crowded_line: "i < 60 \<Longrightarrow> index_line (crowded_page env i) = crowded_head i @ replicate 135 23383"
  using two_digits by (simp add: index_line_def crowded_page_def insert_row_def Let_def MAX_LINE_CHARS_def show_three crowded_head_def
      utf8_len_def utf8_width_def str_eval)

lemma crowded_head_len: "i < 60 \<Longrightarrow> utf8_len (crowded_head i) = 16"
  using two_digits by (simp add: crowded_head_def utf8_len_def utf8_width_def str_eval)

lemma wide_len: "utf8_len (replicate n 23383) = 3 * n"
  by (simp add: utf8_len_def utf8_width_def sum_list_replicate)

lemma crowded_free: "i < 60 \<Longrightarrow> 10 \<notin> set (crowded_head i @ replicate 135 23383) \<and> 13 \<notin> set (crowded_head i @ replicate 135 23383)"
  by (auto simp: crowded_head_def str_eval)

lemma crowded_rows: "existing_pages env (crowded env) = map (crowded_page env) [0..<60]"
  by (auto simp: existing_pages_def crowded_def live_def crowded_page_def insert_row_def intro: filter_True)

theorem index_panics: "wiki_ok env (crowded env) \<and> regenerate_index id env (crowded env) = None"
proof
  have inj: "inj_on (\<lambda>i. show_nat (100 + i)) {0..<60}"
  proof (rule inj_onI)
    fix i j :: nat
    assume "i \<in> {0..<60}" "j \<in> {0..<60}" "show_nat (100 + i) = show_nat (100 + j)"
    then have "i div 10 = j div 10" "i mod 10 = j mod 10" by (simp_all add: show_three)
    then show "i = j" by (metis div_mult_mod_eq)
  qed
  have "inj_on (of_nat :: nat \<Rightarrow> uuid) {0..<60}"
    by (rule inj_onI) (simp add: word_of_nat_eq_iff take_bit_nat_eq_self)
  then show "wiki_ok env (crowded env)"
    unfolding wiki_ok_def crowded_rows using inj
    by (simp add: crowded_def distinct_map comp_def crowded_page_def insert_row_def page_key_def list_all_iff inj_on_def)
next
  let ?line = "\<lambda>i. crowded_head i @ replicate 135 23383"
  let ?entries = "\<lambda>n. concat (map (\<lambda>i. ?line i @ [10]) [0..<n])"
  define ls where "ls = str ''# Index'' # [] # map ?line [0..<60]"
  have rows: "catalog_rows id env (crowded env) = map (crowded_page env) [0..<60]"
    unfolding catalog_rows_def crowded_rows by (simp add: crowded_page_def insert_row_def)
  have whole: "index_header @ ?entries 60 = concat (map (\<lambda>x. x @ [10]) ls)"
    by (simp add: ls_def index_header_def nl_def comp_def)
  have entries: "concat (map (\<lambda>p. index_line p @ nl) (map (crowded_page env) [0..<60])) = ?entries 60"
    unfolding map_map by (rule arg_cong [of _ _ concat]) (simp add: crowded_line nl_def)
  have len: "utf8_len (?entries n) = 422 * n" if "n \<le> 60" for n
    using that by (induction n) (simp_all add: utf8_app crowded_head_len wide_len, simp_all add: utf8_len_def utf8_width_def)
  have "list_all (\<lambda>x. 10 \<notin> set x \<and> strip_cr x = x) ls"
    using crowded_free by (auto simp: ls_def list_all_iff strip_cr_def str_eval)
  then have lines: "lines (index_header @ ?entries 60) = ls"
    unfolding whole by (rule lines_concat)
  have "join nl ls @ [10] = index_header @ ?entries 60"
    unfolding whole by (metis join_lines nl_def ls_def list.discI)
  also have "\<dots> = (index_header @ ?entries 59 @ ?line 59) @ [10]"
    by (simp add: upt_Suc_append [of 0 59, simplified])
  finally have join: "join nl ls = index_header @ ?entries 59 @ ?line 59" by simp
  have header: "utf8_len index_header = 9"
    by (simp add: index_header_def utf8_len_def utf8_width_def nl_def str_eval)
  have "byte_prefix 77 (replicate 135 23383 @ []) = None"
    by (rule byte_prefix_wide) (simp_all add: utf8_width_def wide_len list_all_iff)
  then have "byte_prefix 25000 (join nl ls) = None"
    unfolding join by (simp add: byte_prefix_append header len [of 59] crowded_head_len del: append_assoc)
  moreover have "25000 < utf8_len (join nl ls)"
    unfolding join by (simp only: utf8_app header len [of 59] crowded_head_len wide_len)
  moreover have few: "length ls = 62" by (simp add: ls_def)
  ultimately have "truncate_index (index_header @ ?entries 60) = None"
    unfolding truncate_index_def lines Let_def MAX_INDEX_BYTES_def MAX_INDEX_LINES_def by (simp add: few)
  then show "regenerate_index id env (crowded env) = None"
    using entries by (simp add: regenerate_index_def rows)
qed

end
