(* ===== verification/Ingest.thy ===== *)
theory Ingest
  imports Index_Gen Extract Captures Cost
begin

text \<open>
  The ingest of one capture (\<open>wiki/ingest.rs\<close>) and its job handler (\<open>ingest/mod.rs\<close>): the dedup
  gate, the analysis, the source page and one page for each entity and concept, written by up to \<open>concurrency\<close> tasks at a
  time. The state puts together the tables of the captures, the cost guard and an abstract world; the model is a
  function on the whole state, so what other tasks and transactions do while it is awaited is part of its effect. The tasks
  interleave at their awaits in the order of a schedule. A panic is the outcome \<open>None\<close>. Of errors the kind is modelled, not the
  text; failures of reads are not modelled. Parameters (\<open>ingest_deps\<close>): the model, the gate's environment, the
  clock, the cost environment, the order of the column \<open>updated\<close>, the cancellation token, the JSON reader, Unicode
  lower-casing, the text of ids, fresh page ids.
\<close>

section \<open>State and dependencies\<close>

record 'e ingest_world =
  iw_store :: store
  iw_guard :: cost_guard
  iw_env :: 'e

record 'e ingest_deps =
  id_llm :: "'e ingest_world wiki_llm"
  id_gate :: gate_env
  id_user :: uuid
  id_request :: request
  id_clock :: "'e ingest_world \<Rightarrow> int"
  id_cost :: "'e ingest_world \<Rightarrow> cost_env"
  id_latest :: page_order
  id_cancelled :: "'e ingest_world \<Rightarrow> bool"
  id_concurrency :: nat
  id_language :: rstr
  id_source_tags :: "rstr list"
  id_reader :: json_reader
  id_lower :: "rstr \<Rightarrow> rstr"
  id_hex :: "uuid \<Rightarrow> rstr"
  id_fresh :: "nat \<Rightarrow> uuid"

definition with_concurrency :: "nat \<Rightarrow> 'e ingest_deps \<Rightarrow> 'e ingest_deps" where
  "with_concurrency n d = d\<lparr>id_concurrency := max n 1\<rparr>"

record idea_input =
  in_id :: uuid
  in_body :: rstr
  in_origin :: rstr

datatype ingest_error = Ing_Cost guard_error | Ing_Llm wiki_llm_error | Ing_Gate gate_error

record ingest_report =
  ir_created :: "uuid list"
  ir_merged :: "uuid list"
  ir_skipped :: bool
  ir_contradictions :: "uuid list"
  ir_errors :: "ingest_error list"

definition empty_report :: ingest_report where
  "empty_report = \<lparr>ir_created = [], ir_merged = [], ir_skipped = False, ir_contradictions = [], ir_errors = []\<rparr>"

text \<open>A computation: the state it leaves and its outcome, \<open>None\<close> for a panic.\<close>

type_synonym ('e, 'a) ingested = "'e ingest_world \<times> (ingest_error + 'a) option"

definition ing_bind :: "('e, 'a) ingested \<Rightarrow> ('a \<Rightarrow> 'e ingest_world \<Rightarrow> ('e, 'b) ingested) \<Rightarrow> ('e, 'b) ingested" where
  "ing_bind x f = (case x of
     (w, None) \<Rightarrow> (w, None) | (w, Some (Inl e)) \<Rightarrow> (w, Some (Inl e)) | (w, Some (Inr a)) \<Rightarrow> f a w)"

definition tenant :: "'e ingest_deps \<Rightarrow> uuid" where "tenant d = ge_tenant (id_gate d)"

definition now_request :: "'e ingest_deps \<Rightarrow> 'e ingest_world \<Rightarrow> request" where
  "now_request d w = (id_request d)\<lparr>rq_tenant := tenant d, rq_user := id_user d, rq_now := id_clock d w\<rparr>"

definition iw_vault :: "'e ingest_world \<Rightarrow> wiki" where "iw_vault w = Captures.vault (iw_store w)"

definition set_vault :: "wiki \<Rightarrow> 'e ingest_world \<Rightarrow> 'e ingest_world" where
  "set_vault v w = w\<lparr>iw_store := (iw_store w)\<lparr>Captures.vault := v\<rparr>\<rparr>"

section \<open>Prompts and fallbacks\<close>

definition build_page_generation_prompt :: "rstr list \<Rightarrow> rstr" where
  "build_page_generation_prompt planned = str ''Write the page. Planned pages you may link: '' @ join (str '', '') planned @ nl
     @ UNIVERSAL_LINK_CONSTRAINTS"

definition build_merge_prompt :: rstr where
  "build_merge_prompt = str ''Merge new info into the existing page. Return NO_NEW_CONTENT if nothing is new.'' @ nl
     @ UNIVERSAL_LINK_CONSTRAINTS"

definition dedup_prompt :: "rstr \<Rightarrow> rstr" where
  "dedup_prompt index = str ''Decide if the NEW capture is fully_redundant vs the INDEX. Reply JSON {'' @ [34]
     @ str ''fully_redundant'' @ [34] @ str '':bool}.'' @ nl @ str ''INDEX:'' @ nl @ index"

definition fenced :: "idea_input \<Rightarrow> rstr" where "fenced idea = util_fence_untrusted (in_origin idea) (in_body idea)"

definition dedup_req :: "rstr \<Rightarrow> idea_input \<Rightarrow> wiki_req" where
  "dedup_req index idea = plain_req (dedup_prompt index) (fenced idea) 64"

definition summary_req :: "idea_input \<Rightarrow> wiki_req" where
  "summary_req idea = plain_req (build_page_generation_prompt []) (str ''Write a source summary for:'' @ nl @ fenced idea) 2048"

definition page_req :: "rstr \<Rightarrow> rstr \<Rightarrow> wiki_req" where
  "page_req name ty = plain_req (build_page_generation_prompt []) (str ''Write a '' @ ty @ str '' page for '' @ name @ str ''.'') 1024"

definition merge_req :: "rstr \<Rightarrow> rstr \<Rightarrow> wiki_req" where
  "merge_req existing new = plain_req build_merge_prompt (str ''EXISTING:'' @ nl @ existing @ nl @ nl @ str ''NEW:'' @ nl @ new) 2048"

definition fallback_title :: "rstr \<Rightarrow> rstr" where
  "fallback_title body = (let
       line = the_or [] (find (\<lambda>l. l \<noteq> []) (map trim (lines body)));
       sentence = trim (takeWhile (\<lambda>c. c \<notin> {46, 12290, 33, 63, 10}) line);
       title = trim (take 80 sentence)
     in if title = [] then str ''Untitled note'' else title)"

definition fallback_summary :: "rstr \<Rightarrow> rstr" where
  "fallback_summary body = take 200 (join (str '' '') (words body))"

definition short_idea_id :: "'e ingest_deps \<Rightarrow> uuid \<Rightarrow> rstr" where
  "short_idea_id d i = take 8 (id_hex d i)"

section \<open>Stages 1 to 4\<close>

definition guard :: "'e ingest_deps \<Rightarrow> 'e ingest_world \<Rightarrow> ('e, unit) ingested" where
  "guard d w = (w, Some (case check_before_call (id_cost d w) (tenant d) (id_user d) (iw_guard w) of
     None \<Rightarrow> Inr () | Some e \<Rightarrow> Inl (Ing_Cost e)))"

definition ask :: "'e ingest_deps \<Rightarrow> wiki_req \<Rightarrow> 'e ingest_world \<Rightarrow> ('e, rstr) ingested" where
  "ask d req w = (case id_llm d w req of
     (w', Inl e) \<Rightarrow> (w', Some (Inl (Ing_Llm e))) | (w', Inr r) \<Rightarrow> (w', Some (Inr (ws_content r))))"

definition index_now :: "'e ingest_deps \<Rightarrow> 'e ingest_world \<Rightarrow> ('e, rstr) ingested" where
  "index_now d w = (w, map_option Inr (regenerate_index (id_latest d) (id_gate d) (iw_vault w)))"

definition says_redundant :: "json_reader \<Rightarrow> rstr \<Rightarrow> bool" where
  "says_redundant rd answer = (case parse_json_response rd answer of
     Inl _ \<Rightarrow> False | Inr v \<Rightarrow> the_or False (Option.bind (jget v (str ''fully_redundant'')) as_bool))"

definition is_redundant :: "'e ingest_deps \<Rightarrow> rstr \<Rightarrow> idea_input \<Rightarrow> 'e ingest_world \<Rightarrow> ('e, bool) ingested" where
  "is_redundant d index idea w = ing_bind (ask d (dedup_req index idea) w) (\<lambda>answer w. (w, Some (Inr (says_redundant (id_reader d) answer))))"

definition analyzer_of :: "'e ingest_deps \<Rightarrow> 'e ingest_world analyzer" where
  "analyzer_of d = \<lparr>an_llm = id_llm d, an_language = id_language d, an_reader = id_reader d, an_lower = id_lower d\<rparr>"

definition analysis :: "'e ingest_deps \<Rightarrow> idea_input \<Rightarrow> 'e ingest_world \<Rightarrow> ('e, source_analysis) ingested" where
  "analysis d idea w = (case analyze (analyzer_of d) (fenced idea) Conversation w of
     None \<Rightarrow> (w, None) | Some (w', Inl e) \<Rightarrow> (w', Some (Inl (Ing_Llm e))) | Some (w', Inr (sa, _)) \<Rightarrow> (w', Some (Inr sa)))"

definition source_page_slug :: "'e ingest_deps \<Rightarrow> uuid \<Rightarrow> wiki \<Rightarrow> rstr option" where
  "source_page_slug d i s = (case id_latest d (filter (\<lambda>p. p_type p = Source \<and> i \<in> set (p_source_ids p)) (existing_pages (id_gate d) s)) of
     [] \<Rightarrow> None | p # _ \<Rightarrow> Some (p_slug p))"

definition blank :: "rstr \<Rightarrow> bool" where "blank s \<longleftrightarrow> trim s = []"

definition source_title :: "idea_input \<Rightarrow> source_analysis \<Rightarrow> rstr" where
  "source_title idea sa = (if blank (sa_title sa) then fallback_title (in_body idea) else sa_title sa)"

definition source_slug :: "'e ingest_deps \<Rightarrow> idea_input \<Rightarrow> source_analysis \<Rightarrow> rstr option \<Rightarrow> rstr" where
  "source_slug d idea sa prior = the_or
     (if blank (sa_title sa)
      then slugify (ge_unicode (id_gate d)) (fallback_title (in_body idea)) @ str ''-'' @ short_idea_id d (in_id idea)
      else slugify (ge_unicode (id_gate d)) (sa_title sa)) prior"

definition source_summary :: "idea_input \<Rightarrow> source_analysis \<Rightarrow> rstr" where
  "source_summary idea sa = (if blank (sa_title sa) \<and> blank (sa_summary sa) then fallback_summary (in_body idea) else sa_summary sa)"

definition source_write :: "'e ingest_deps \<Rightarrow> idea_input \<Rightarrow> source_analysis \<Rightarrow> rstr option \<Rightarrow> rstr \<Rightarrow> page_write" where
  "source_write d idea sa prior body = \<lparr>w_type = str ''source'', w_slug = source_slug d idea sa prior, w_title = source_title idea sa,
     w_aliases = [], w_tags = id_source_tags d, w_summary = source_summary idea sa, w_source_ids = [in_id idea], w_body = body,
     w_created = None, w_reviewed = None\<rparr>"

definition gate_result :: "'e ingest_world \<Rightarrow> (gate_error + 'a) \<times> wiki \<Rightarrow> ('e, 'a) ingested" where
  "gate_result w r = (set_vault (snd r) w, Some (map_sum Ing_Gate id (fst r)))"

definition source_page :: "'e ingest_deps \<Rightarrow> idea_input \<Rightarrow> source_analysis \<Rightarrow> rstr \<Rightarrow> 'e ingest_world \<Rightarrow> ('e, uuid) ingested" where
  "source_page d idea sa body w = gate_result w (write_page (id_gate d) (id_fresh d 0)
     (source_write d idea sa (source_page_slug d (in_id idea) (iw_vault w)) body) (iw_vault w))"

section \<open>Stage 5: one task per item\<close>

text \<open>
  Where a task is: not started, holding a permit, with the model's page, waiting for the model's merge into a page,
  with that merge, or done. A step runs to the next await of the model or to the end.
\<close>

datatype item_phase =
    Queued
  | Asking
  | Drafted rstr
  | Merging page resolution rstr rstr
  | Merged page resolution rstr rstr
  | Finished "ingest_error + page_outcome"

record item_task =
  it_name :: rstr
  it_type :: rstr
  it_fresh :: uuid
  it_phase :: item_phase

definition item_write :: "idea_input \<Rightarrow> item_task \<Rightarrow> rstr \<Rightarrow> create_or_update_req" where
  "item_write idea it body = \<lparr>c_name = it_name it, c_type = it_type it, c_body = body, c_aliases = [], c_tags = [], c_summary = [],
     c_source = Some (in_id idea)\<rparr>"

text \<open>The end of \<open>create_or_update\<close>: what was written, or why not.\<close>

definition wrote :: "'e ingest_world \<Rightarrow> (uuid \<Rightarrow> page_outcome) \<Rightarrow> (gate_error + uuid) \<times> wiki \<Rightarrow> 'e ingest_world \<times> item_phase" where
  "wrote w out r = (set_vault (snd r) w, Finished (case fst r of Inl e \<Rightarrow> Inl (Ing_Gate e) | Inr i \<Rightarrow> Inr (out i)))"

definition created_outcome :: "uuid \<Rightarrow> page_outcome" where
  "created_outcome i = \<lparr>o_page = i, o_created = True, o_merged = False, o_skipped = False, o_collision = False\<rparr>"

definition merged_outcome :: "page \<Rightarrow> resolution \<Rightarrow> page_outcome" where
  "merged_outcome p res = \<lparr>o_page = p_id p, o_created = False, o_merged = True, o_skipped = False, o_collision = (r_action res = Flag)\<rparr>"

definition write_merge :: "'e ingest_deps \<Rightarrow> idea_input \<Rightarrow> item_task \<Rightarrow> page \<Rightarrow> resolution \<Rightarrow> rstr \<Rightarrow> rstr \<Rightarrow> 'e ingest_world
    \<Rightarrow> 'e ingest_world \<times> item_phase" where
  "write_merge d idea it p res proposed body w = wrote w (\<lambda>_. merged_outcome p res) (write_at (id_gate d) (it_fresh it)
     (str (page_as_str (p_type p))) (p_slug p) (p_title p) body (item_write idea it proposed) (iw_vault w))"

definition place :: "'e ingest_deps \<Rightarrow> idea_input \<Rightarrow> item_task \<Rightarrow> rstr \<Rightarrow> 'e ingest_world \<Rightarrow> 'e ingest_world \<times> item_phase" where
  "place d idea it body w = (let v = iw_vault w; c = item_write idea it body;
       res = resolve (id_gate d) (it_name it) (it_type it) (existing_pages (id_gate d) v)
     in case r_target res of
       None \<Rightarrow> wrote w created_outcome (write_at (id_gate d) (it_fresh it) (it_type it) (slugify (ge_unicode (id_gate d)) (it_name it))
           (it_name it) body c v)
     | Some target \<Rightarrow> (case page_by_id (id_gate d) target v of
         None \<Rightarrow> (w, Finished (Inl (Ing_Gate NoPage)))
       | Some p \<Rightarrow> (case read_body (id_gate d) target v of
           Inl e \<Rightarrow> (w, Finished (Inl (Ing_Gate e)))
         | Inr existing \<Rightarrow> if p_reviewed p then write_merge d idea it p res body (new_information existing body) w
             else (w, Merging p res existing body))))"

definition item_step :: "'e ingest_deps \<Rightarrow> idea_input \<Rightarrow> item_task \<Rightarrow> 'e ingest_world \<Rightarrow> 'e ingest_world \<times> item_phase" where
  "item_step d idea it w = (case it_phase it of
     Queued \<Rightarrow> (w, Asking)
   | Asking \<Rightarrow> (case id_llm d w (page_req (it_name it) (it_type it)) of
       (w', Inl e) \<Rightarrow> (w', Finished (Inl (Ing_Llm e))) | (w', Inr r) \<Rightarrow> (w', Drafted (ws_content r)))
   | Drafted body \<Rightarrow> place d idea it body w
   | Merging p res existing body \<Rightarrow> (case id_llm d w (merge_req existing body) of
       (w', Inl e) \<Rightarrow> (w', Finished (Inl (Ing_Llm e))) | (w', Inr r) \<Rightarrow> (w', Merged p res body (ws_content r)))
   | Merged p res body answer \<Rightarrow> if trim answer = NO_NEW_CONTENT
       then (w, Finished (Inr ((merged_outcome p res)\<lparr>o_merged := False, o_skipped := True\<rparr>)))
       else write_merge d idea it p res body answer w
   | Finished r \<Rightarrow> (w, Finished r))"

fun phase_rank :: "item_phase \<Rightarrow> nat" where
  "phase_rank Queued = 5" | "phase_rank Asking = 4" | "phase_rank (Drafted _) = 3" | "phase_rank (Merging _ _ _ _) = 2"
| "phase_rank (Merged _ _ _ _) = 1" | "phase_rank (Finished _) = 0"

fun holds_permit :: "item_phase \<Rightarrow> bool" where
  "holds_permit Queued = False" | "holds_permit (Finished _) = False" | "holds_permit _ = True"

definition permits_used :: "item_task list \<Rightarrow> nat" where
  "permits_used its = length (filter (\<lambda>it. holds_permit (it_phase it)) its)"

definition runnable :: "nat \<Rightarrow> item_task list \<Rightarrow> nat list" where
  "runnable permits its = filter (\<lambda>n. holds_permit (it_phase (its ! n))
     \<or> it_phase (its ! n) = Queued \<and> permits_used its < permits) [0..<length its]"

definition record_result :: "item_phase \<Rightarrow> ingest_report \<Rightarrow> ingest_report" where
  "record_result ph rep = (case ph of
     Finished (Inl e) \<Rightarrow> rep\<lparr>ir_errors := ir_errors rep @ [e]\<rparr>
   | Finished (Inr out) \<Rightarrow> if o_created out then rep\<lparr>ir_created := ir_created rep @ [o_page out]\<rparr>
       else rep\<lparr>ir_merged := ir_merged rep @ [o_page out]\<rparr>
   | _ \<Rightarrow> rep)"

definition pool_work :: "item_task list \<Rightarrow> nat" where "pool_work its = sum_list (map (\<lambda>it. phase_rank (it_phase it)) its)"

text \<open>The schedule picks the task that runs next among those that can.\<close>

definition pick :: "(nat \<Rightarrow> nat) \<Rightarrow> nat list \<Rightarrow> nat \<Rightarrow> nat" where
  "pick sched ready k = ready ! (sched k mod length ready)"

lemma item_step_rank: "it_phase it \<noteq> Finished r \<Longrightarrow> (\<And>r. it_phase it \<noteq> Finished r) \<Longrightarrow>
    phase_rank (snd (item_step d idea it w)) < phase_rank (it_phase it)"
  by (auto simp: item_step_def place_def write_merge_def wrote_def Let_def split: item_phase.splits option.splits sum.splits prod.splits)

lemma runnable_pick:
  assumes "runnable n its \<noteq> []"
  shows "pick sched (runnable n its) k < length its \<and> \<not> (\<exists>r. it_phase (its ! pick sched (runnable n its) k) = Finished r)"
proof -
  have "pick sched (runnable n its) k \<in> set (runnable n its)"
    using assms by (simp add: pick_def)
  then show ?thesis by (auto simp: runnable_def)
qed

lemma sum_list_update_less: "n < length xs \<Longrightarrow> f y < f (xs ! n) \<Longrightarrow> sum_list (map f (xs[n := y])) < (sum_list (map f xs) :: nat)"
proof (induction xs arbitrary: n)
  case (Cons x xs)
  then show ?case by (cases n) auto
qed simp

definition advance :: "'e ingest_deps \<Rightarrow> idea_input \<Rightarrow> nat \<Rightarrow> item_task list \<Rightarrow> 'e ingest_world \<Rightarrow> 'e ingest_world \<times> item_task list" where
  "advance d idea n its w = (case item_step d idea (its ! n) w of (w', ph) \<Rightarrow> (w', its[n := (its ! n)\<lparr>it_phase := ph\<rparr>]))"

lemma advance_work:
  assumes "runnable m its \<noteq> []" "advance d idea (pick sched (runnable m its) k) its w = (w', its')"
  shows "pool_work its' < pool_work its"
proof -
  let ?n = "pick sched (runnable m its) k"
  have n: "?n < length its" "\<And>r. it_phase (its ! ?n) \<noteq> Finished r"
    using runnable_pick [OF assms(1), of sched k] by auto
  show ?thesis
    using assms(2) item_step_rank [OF n(2) n(2), where w = w and d = d and idea = idea]
    by (auto simp: advance_def pool_work_def split: prod.splits intro!: sum_list_update_less n(1))
qed

function run_pool :: "'e ingest_deps \<Rightarrow> idea_input \<Rightarrow> (nat \<Rightarrow> nat) \<Rightarrow> nat \<Rightarrow> item_task list \<Rightarrow> ingest_report \<Rightarrow> 'e ingest_world
    \<Rightarrow> ingest_report \<times> item_task list \<times> 'e ingest_world" where
  "run_pool d idea sched k its rep w = (let ready = runnable (id_concurrency d) its in
     if ready = [] then (rep, its, w)
     else (let n = pick sched ready k; (w', its') = advance d idea n its w
       in run_pool d idea sched (k + 1) its' (record_result (it_phase (its' ! n)) rep) w'))"
  by pat_completeness auto
termination
  by (relation "measure (\<lambda>(d, idea, sched, k, its, rep, w). pool_work its)") (auto dest: advance_work [OF _ sym])

declare run_pool.simps [simp del]

definition wanted_items :: "source_analysis \<Rightarrow> (rstr \<times> rstr) list" where
  "wanted_items sa = map (\<lambda>e. (ii_name e, str ''entity'')) (sa_entities sa) @ map (\<lambda>c. (ii_name c, str ''concept'')) (sa_concepts sa)"

text \<open>Queueing: cancellation ends it, an exhausted ceiling ends the run before any task has started.\<close>

fun queue_items :: "'e ingest_deps \<Rightarrow> nat \<Rightarrow> (rstr \<times> rstr) list \<Rightarrow> 'e ingest_world \<Rightarrow> ingest_error + item_task list" where
  "queue_items d k [] w = Inr []"
| "queue_items d k ((name, ty) # rest) w = (if id_cancelled d w then Inr []
     else case check_before_call (id_cost d w) (tenant d) (id_user d) (iw_guard w) of
       Some e \<Rightarrow> Inl (Ing_Cost e)
     | None \<Rightarrow> map_sum id (Cons \<lparr>it_name = name, it_type = ty, it_fresh = id_fresh d k, it_phase = Queued\<rparr>) (queue_items d (k + 1) rest w))"

section \<open>The run\<close>

definition mark :: "'e ingest_deps \<Rightarrow> uuid \<Rightarrow> ingest_state \<Rightarrow> 'e ingest_world \<Rightarrow> 'e ingest_world" where
  "mark d i st w = w\<lparr>iw_store := set_ingest_state (now_request d w) i st (iw_store w)\<rparr>"

definition stamp :: "'e ingest_deps \<Rightarrow> uuid \<Rightarrow> 'e ingest_world \<Rightarrow> 'e ingest_world" where
  "stamp d i w = w\<lparr>iw_store := set_last_ingested (now_request d w) i (iw_store w)\<rparr>"

definition item_pages :: "'e ingest_deps \<Rightarrow> idea_input \<Rightarrow> (nat \<Rightarrow> nat) \<Rightarrow> source_analysis \<Rightarrow> ingest_report \<Rightarrow> 'e ingest_world
    \<Rightarrow> ('e, ingest_report) ingested" where
  "item_pages d idea sched sa rep w = (case queue_items d 1 (wanted_items sa) w of
     Inl e \<Rightarrow> (w, Some (Inl e))
   | Inr its \<Rightarrow> (case run_pool d idea sched 0 its rep w of (rep', _, w') \<Rightarrow> (w', Some (Inr rep'))))"

definition ingest_pages :: "'e ingest_deps \<Rightarrow> idea_input \<Rightarrow> (nat \<Rightarrow> nat) \<Rightarrow> 'e ingest_world \<Rightarrow> ('e, ingest_report) ingested" where
  "ingest_pages d idea sched w =
     ing_bind (guard d w) (\<lambda>_ w.
     ing_bind (analysis d idea w) (\<lambda>sa w.
     ing_bind (guard d w) (\<lambda>_ w.
     ing_bind (ask d (summary_req idea) w) (\<lambda>body w.
     ing_bind (source_page d idea sa body w) (\<lambda>src w.
     ing_bind (item_pages d idea sched sa (empty_report\<lparr>ir_created := [src]\<rparr>) w) (\<lambda>rep w.
     ing_bind (index_now d w) (\<lambda>_ w.
     (stamp d (in_id idea) (mark d (in_id idea) Ingested w), Some (Inr rep)))))))))"

definition run_ingest :: "'e ingest_deps \<Rightarrow> idea_input \<Rightarrow> (nat \<Rightarrow> nat) \<Rightarrow> 'e ingest_world \<Rightarrow> ('e, ingest_report) ingested" where
  "run_ingest d idea sched w =
     ing_bind (guard d w) (\<lambda>_ w.
     ing_bind (index_now d w) (\<lambda>index w.
     ing_bind (is_redundant d index idea w) (\<lambda>redundant w.
     if redundant then (mark d (in_id idea) SkippedRedundant w, Some (Inr (empty_report\<lparr>ir_skipped := True\<rparr>)))
     else ingest_pages d idea sched w)))"

section \<open>The job handler\<close>

datatype handler_error = Missing_Idea_Id | No_Idea | Ingest_Failed ingest_error

text \<open>The handler builds the dependencies from the job: the idea's user, its origin as the only source tag.\<close>

definition handle_ingest :: "(rstr \<Rightarrow> uuid option) \<Rightarrow> 'e ingest_deps \<Rightarrow> (nat \<Rightarrow> nat) \<Rightarrow> jvalue \<Rightarrow> 'e ingest_world
    \<Rightarrow> 'e ingest_world \<times> (handler_error + ingest_report) option" where
  "handle_ingest parse_uuid d sched payload w = (case Option.bind (Option.bind (jget payload (str ''idea_id'')) as_str) parse_uuid of
     None \<Rightarrow> (w, Some (Inl Missing_Idea_Id))
   | Some i \<Rightarrow> (case load_idea (tenant d) i (iw_store w) of
       None \<Rightarrow> (w, Some (Inl No_Idea))
     | Some (user, body, origin) \<Rightarrow> map_prod id (map_option (map_sum Ingest_Failed id))
         (run_ingest (d\<lparr>id_user := user, id_concurrency := 4, id_source_tags := [origin]\<rparr>)
            \<lparr>in_id = i, in_body = body, in_origin = origin\<rparr> sched w)))"

section \<open>Invariants of a run\<close>

lemma set_vault_simps [simp]:
  "iw_vault (set_vault v w) = v" "iw_guard (set_vault v w) = iw_guard w" "iw_env (set_vault v w) = iw_env w"
  "ideas (iw_store (set_vault v w)) = ideas (iw_store w)"
  by (simp_all add: set_vault_def iw_vault_def)

lemma vault_frame [simp]: "iw_vault (mark d i st w) = iw_vault w" "iw_vault (stamp d i w) = iw_vault w"
  by (simp_all add: iw_vault_def mark_def stamp_def set_ingest_state_def set_last_ingested_def)

lemma bind_cases:
  assumes "ing_bind x f = (w', r)"
  obtains "x = (w', None)" "r = None" | e where "x = (w', Some (Inl e))" "r = Some (Inl e)"
    | a w where "x = (w, Some (Inr a))" "f a w = (w', r)"
  using assms by (auto simp: ing_bind_def split: prod.splits option.splits sum.splits)

text \<open>What every call of the model and every write of the gate keeps, the whole run keeps.\<close>

definition step_keeps :: "'e ingest_deps \<Rightarrow> ('e ingest_world \<Rightarrow> bool) \<Rightarrow> bool" where
  "step_keeps d I \<longleftrightarrow> (\<forall>w req. I w \<longrightarrow> I (fst (id_llm d w req)))
     \<and> (\<forall>w i pw. I w \<longrightarrow> I (set_vault (snd (write_page (id_gate d) i pw (iw_vault w))) w))
     \<and> (\<forall>w i st. I w \<longrightarrow> I (mark d i st w)) \<and> (\<forall>w i. I w \<longrightarrow> I (stamp d i w))"

lemma keeps_llm: "step_keeps d I \<Longrightarrow> I w \<Longrightarrow> id_llm d w req = (w', r) \<Longrightarrow> I w'"
  unfolding step_keeps_def by (metis fst_conv)

lemma keeps_bind:
  assumes "I (fst x)" "\<And>a w. x = (w, Some (Inr a)) \<Longrightarrow> I w \<Longrightarrow> I (fst (f a w))"
  shows "I (fst (ing_bind x f))"
  using assms by (cases x) (auto simp: ing_bind_def split: option.splits sum.splits)

lemma keeps_ask: "step_keeps d I \<Longrightarrow> I w \<Longrightarrow> I (fst (ask d req w))"
  by (auto simp: ask_def dest: keeps_llm split: prod.splits sum.splits)

lemma keeps_one_call:
  assumes k: "step_keeps d I" and w: "I w"
  shows "I (fst (one_call (analyzer_of d) t ex n w))"
proof (cases "id_llm d w (extract_req (analyzer_of d) t ex n)")
  case (Pair w1 r)
  note w1 = keeps_llm [OF k w Pair]
  show ?thesis
  proof (cases "id_llm d w1 (extract_req (analyzer_of d) t ex (the_or 0 (next_max_tokens_on_truncation n)))")
    case w2: (Pair w2 r2)
    show ?thesis
      using Pair w1 w2 keeps_llm [OF k w1 w2]
      by (auto simp: one_call_def analyzer_of_def split: sum.splits option.splits prod.splits if_splits)
  qed
qed

lemma keeps_analysis: "step_keeps d I \<Longrightarrow> I w \<Longrightarrow> I (fst (analysis d idea w))"
  using keeps_one_call [of d I w "fenced idea" "[]" 1024]
  by (auto simp: analysis_def analyze_def split: prod.splits sum.splits option.splits)

lemma keeps_write: "step_keeps d I \<Longrightarrow> I w \<Longrightarrow> I (set_vault (snd (write_at (id_gate d) i ty sl tt body c (iw_vault w))) w)"
  unfolding step_keeps_def write_at_w by blast

lemma keeps_place: "step_keeps d I \<Longrightarrow> I w \<Longrightarrow> I (fst (place d idea it body w))"
  using keeps_write by (auto simp: place_def wrote_def write_merge_def Let_def split: option.splits sum.splits)

lemma keeps_item: "step_keeps d I \<Longrightarrow> I w \<Longrightarrow> I (fst (item_step d idea it w))"
  using keeps_write keeps_place
  by (auto simp: item_step_def wrote_def write_merge_def dest: keeps_llm split: item_phase.splits prod.splits sum.splits)

lemma keeps_pool:
  assumes "step_keeps d I" "I w"
  shows "I (snd (snd (run_pool d idea sched k its rep w)))"
  using assms
proof (induction d idea sched k its rep w rule: run_pool.induct)
  case (1 d idea sched k its rep w)
  show ?case
  proof (cases "runnable (id_concurrency d) its = []")
    case False
    obtain w' its' where s: "advance d idea (pick sched (runnable (id_concurrency d) its) k) its w = (w', its')"
      by fastforce
    then have "I w'"
      using keeps_item [OF 1(2,3), of idea "its ! pick sched (runnable (id_concurrency d) its) k"]
      by (auto simp: advance_def split: prod.splits)
    then show ?thesis
      using 1(1) [OF refl False refl s [symmetric] refl 1(2)] False s by (subst run_pool.simps) (simp add: Let_def)
  qed (use 1 in \<open>subst run_pool.simps, simp\<close>)
qed

lemma keeps_run: "step_keeps d I \<Longrightarrow> I w \<Longrightarrow> I (fst (run_ingest d idea sched w))"
proof -
  assume k: "step_keeps d I"
  have source: "I (fst (source_page d idea sa body w))" if "I w" for sa body w
    using k that unfolding source_page_def gate_result_def step_keeps_def by auto
  have items: "I (fst (item_pages d idea sched sa rep w))" if "I w" for sa rep w
    using keeps_pool [OF k that, of idea sched 0 _ rep]
    that by (auto simp: item_pages_def prod.case_eq_if split: sum.splits)
  have marks: "I (mark d i st w)" "I (stamp d i w)" if "I w" for i st w
    using k that by (auto simp: step_keeps_def)
  have pure: "fst (guard d w) = w" "fst (index_now d w) = w" for w
    by (simp_all add: guard_def index_now_def)
  have pages: "I (fst (ingest_pages d idea sched w))" if "I w" for w
    unfolding ingest_pages_def
    by (intro keeps_bind [where I = I]) (simp_all add: pure that keeps_ask [OF k] keeps_analysis [OF k] source items marks)
  have redundant: "I (fst (is_redundant d index idea w))" if "I w" for index w
    unfolding is_redundant_def by (rule keeps_bind [where I = I]) (simp_all add: keeps_ask [OF k that])
  show "I w \<Longrightarrow> I (fst (run_ingest d idea sched w))"
    unfolding run_ingest_def by (intro keeps_bind [where I = I]) (simp_all add: pure redundant pages marks)
qed

text \<open>
  Further: an ingest keeps the wiki's tables well formed and within the quota, whatever the model answers and however the tasks
  interleave, as long as what happens while the model is awaited does.
\<close>

theorem ingest_keeps_wiki:
  assumes llm: "\<And>w req. wiki_ok (id_gate d) (iw_vault w) \<and> within_quota (id_gate d) (iw_vault w) \<Longrightarrow>
      wiki_ok (id_gate d) (iw_vault (fst (id_llm d w req))) \<and> within_quota (id_gate d) (iw_vault (fst (id_llm d w req)))"
    and cap: "ge_max_bytes (id_gate d) < 2 ^ 64 - 1"
    and w: "wiki_ok (id_gate d) (iw_vault w)" "within_quota (id_gate d) (iw_vault w)"
  shows "wiki_ok (id_gate d) (iw_vault (fst (run_ingest d idea sched w)))
    \<and> within_quota (id_gate d) (iw_vault (fst (run_ingest d idea sched w)))"
proof (rule keeps_run [where I = "\<lambda>w. wiki_ok (id_gate d) (iw_vault w) \<and> within_quota (id_gate d) (iw_vault w)"])
  show "step_keeps d (\<lambda>w. wiki_ok (id_gate d) (iw_vault w) \<and> within_quota (id_gate d) (iw_vault w))"
    unfolding step_keeps_def using llm write_page_ok write_page_quota [OF _ _ cap] by auto
qed (use w in simp)

section \<open>The tasks\<close>

text \<open>What the pool can reach: any runnable task moves. The state of the world may change in between.\<close>

inductive tasks_reach :: "'e ingest_deps \<Rightarrow> idea_input \<Rightarrow> item_task list \<Rightarrow> bool" for d idea where
  start: "list_all (\<lambda>it. it_phase it = Queued) its \<Longrightarrow> tasks_reach d idea its"
| move: "tasks_reach d idea its \<Longrightarrow> n \<in> set (runnable (id_concurrency d) its) \<Longrightarrow> advance d idea n its w = (w', its')
    \<Longrightarrow> tasks_reach d idea its'"

lemma permits_update:
  "n < length its \<Longrightarrow> permits_used (its[n := it]) + (if holds_permit (it_phase (its ! n)) then 1 else 0)
     = permits_used its + (if holds_permit (it_phase it) then 1 else 0)"
proof (induction its arbitrary: n)
  case (Cons a its)
  then show ?case by (cases n) (auto simp: permits_used_def)
qed simp

lemma permits_bound:
  assumes "tasks_reach d idea its"
  shows "permits_used its \<le> id_concurrency d"
  using assms
proof induction
  case (start its)
  then have "permits_used its = 0"
    by (auto simp: permits_used_def list_all_iff filter_empty_conv)
  then show ?case by simp
next
  case (move its n w w' its')
  obtain ph where its': "its' = its[n := (its ! n)\<lparr>it_phase := ph\<rparr>]"
    using move(3) by (auto simp: advance_def split: prod.splits)
  have n: "n < length its" "holds_permit (it_phase (its ! n)) \<or> permits_used its < id_concurrency d"
    using move(2) by (auto simp: runnable_def)
  show ?case
    using permits_update [OF n(1), of "(its ! n)\<lparr>it_phase := ph\<rparr>"] n(2) move(4) by (auto simp: its' split: if_splits)
qed

definition all_finished :: "item_task list \<Rightarrow> bool" where
  "all_finished its \<longleftrightarrow> list_all (\<lambda>it. \<exists>r. it_phase it = Finished r) its"

lemma idle_finished:
  assumes "runnable m its = []" "0 < m"
  shows "all_finished its"
proof -
  have none: "\<not> holds_permit (it_phase (its ! n))" "it_phase (its ! n) = Queued \<Longrightarrow> m \<le> permits_used its" if "n < length its" for n
    using assms(1) that by (auto simp: runnable_def filter_empty_conv)
  then have "permits_used its = 0"
    by (auto simp: permits_used_def filter_empty_conv in_set_conv_nth)
  then have "\<exists>r. it_phase (its ! n) = Finished r" if "n < length its" for n
    using none [OF that] assms(2) by (cases "it_phase (its ! n)") auto
  then show ?thesis by (auto simp: all_finished_def list_all_length)
qed

text \<open>
  Further: at most as many tasks as the configured concurrency are between their start and their end, and the pool is never
  stuck: as long as a task is unfinished some task can move.
\<close>

theorem pool_bounded_and_live:
  assumes "tasks_reach d idea its" "0 < id_concurrency d"
  shows "permits_used its \<le> id_concurrency d \<and> (\<not> all_finished its \<longrightarrow> runnable (id_concurrency d) its \<noteq> [])"
  using permits_bound [OF assms(1)] idle_finished [OF _ assms(2)] by blast

definition reported :: "ingest_report \<Rightarrow> nat" where
  "reported rep = length (ir_created rep) + length (ir_merged rep) + length (ir_errors rep)"

definition unfinished :: "item_task list \<Rightarrow> nat" where
  "unfinished its = length (filter (\<lambda>it. \<not> (\<exists>r. it_phase it = Finished r)) its)"

lemma unfinished_update:
  "n < length its \<Longrightarrow> \<not> (\<exists>r. it_phase (its ! n) = Finished r) \<Longrightarrow>
     unfinished its = unfinished (its[n := it]) + (if \<exists>r. it_phase it = Finished r then 1 else 0)"
proof (induction its arbitrary: n)
  case (Cons a its)
  then show ?case by (cases n) (auto simp: unfinished_def)
qed simp

lemma record_result_reported:
  "reported (record_result ph rep) = reported rep + (if \<exists>r. ph = Finished r then 1 else 0)"
  by (auto simp: record_result_def reported_def split: item_phase.splits sum.splits)

lemma run_pool_reports:
  assumes "0 < id_concurrency d" "run_pool d idea sched k its rep w = (rep', its', w')"
  shows "reported rep' = reported rep + unfinished its \<and> all_finished its'"
  using assms
proof (induction d idea sched k its rep w rule: run_pool.induct)
  case (1 d idea sched k its rep w)
  let ?ready = "runnable (id_concurrency d) its" and ?n = "pick sched (runnable (id_concurrency d) its) k"
  show ?case
  proof (cases "?ready = []")
    case True
    then have "all_finished its" by (rule idle_finished [OF _ 1(2)])
    moreover from this have "unfinished its = 0"
      by (auto simp: all_finished_def unfinished_def list_all_iff filter_empty_conv)
    ultimately show ?thesis using 1(3) True by (simp add: run_pool.simps [of d idea sched k])
  next
    case False
    obtain w1 its1 where s: "advance d idea ?n its w = (w1, its1)"
      by fastforce
    have n: "?n < length its" "\<not> (\<exists>r. it_phase (its ! ?n) = Finished r)"
      using runnable_pick [OF False, of sched k] by auto
    obtain ph where its1: "its1 = its[?n := (its ! ?n)\<lparr>it_phase := ph\<rparr>]"
      using s by (auto simp: advance_def split: prod.splits)
    have "run_pool d idea sched (k + 1) its1 (record_result (it_phase (its1 ! ?n)) rep) w1 = (rep', its', w')"
      using 1(3) False s by (subst (asm) run_pool.simps) (simp add: Let_def)
    from 1(1) [OF refl False refl s [symmetric] refl 1(2) this]
    show ?thesis
      using unfinished_update [OF n, of "(its ! ?n)\<lparr>it_phase := ph\<rparr>"] n(1) by (simp add: record_result_reported its1)
  qed
qed

lemma queue_items_all:
  "queue_items d k xs w = Inr its \<Longrightarrow> \<not> id_cancelled d w \<Longrightarrow>
    map (\<lambda>it. (it_name it, it_type it)) its = xs \<and> list_all (\<lambda>it. it_phase it = Queued) its"
proof (induction d k xs w arbitrary: its rule: queue_items.induct)
  case (2 d k name ty rest w)
  then obtain more where "check_before_call (id_cost d w) (tenant d) (id_user d) (iw_guard w) = None"
      "queue_items d (k + 1) rest w = Inr more"
      "its = \<lparr>it_name = name, it_type = ty, it_fresh = id_fresh d k, it_phase = Queued\<rparr> # more"
    by (cases "queue_items d (k + 1) rest w") (auto split: option.splits)
  then show ?case using 2(1) [of more] 2(3) by simp
qed simp

lemma unfinished_queued: "list_all (\<lambda>it. it_phase it = Queued) its \<Longrightarrow> unfinished its = length its"
  by (auto simp: unfinished_def list_all_iff intro!: arg_cong [of _ _ length] filter_True)

text \<open>
  C34: every wanted page is accounted for. When a run that is not cancelled gets past queueing, the report holds
  exactly one entry (a created page, a page merged into, or an error) for each entity and concept of the
  analysis, whatever the model answers and whatever fails: no failed item takes another with it.
\<close>

theorem every_item_reported:
  assumes "item_pages d idea sched sa rep w = (w', Some (Inr rep'))" "\<not> id_cancelled d w" "0 < id_concurrency d"
  shows "reported rep' = reported rep + length (sa_entities sa) + length (sa_concepts sa)"
proof -
  obtain its where its: "queue_items d 1 (wanted_items sa) w = Inr its"
    using assms(1) by (auto simp: item_pages_def split: sum.splits)
  obtain its' where run: "run_pool d idea sched 0 its rep w = (rep', its', w')"
    using assms(1) its by (auto simp: item_pages_def split: prod.splits)
  note q = queue_items_all [OF its assms(2)]
  have "length its = length (wanted_items sa)" using q by (metis length_map)
  then show ?thesis
    using run_pool_reports [OF assms(3) run] unfinished_queued [of its] q by (simp add: wanted_items_def)
qed

section \<open>One task on its own\<close>

lemma run_alone:
  assumes "0 < id_concurrency d"
  shows "run_pool d idea sched k [it] rep w = (if \<exists>r. it_phase it = Finished r then (rep, [it], w)
     else (case item_step d idea it w of (w', ph) \<Rightarrow>
       run_pool d idea sched (k + 1) [it\<lparr>it_phase := ph\<rparr>] (record_result ph rep) w'))"
proof (cases "it_phase it")
  case (Finished r)
  then show ?thesis by (subst run_pool.simps) (simp add: runnable_def)
qed (use assms in \<open>subst run_pool.simps; simp add: runnable_def permits_used_def pick_def advance_def split: prod.splits\<close>)+

lemma set_vault_same [simp]: "set_vault (iw_vault w) w = w"
  by (simp add: set_vault_def iw_vault_def)

text \<open>A model that answers without delay: nothing else happens while it is awaited.\<close>

definition prompt_model :: "'e ingest_deps \<Rightarrow> (wiki_req \<Rightarrow> wiki_llm_error + wiki_resp) \<Rightarrow> bool" where
  "prompt_model d ans \<longleftrightarrow> (\<forall>w req. id_llm d w req = (w, ans req))"

definition merge_by :: "(wiki_req \<Rightarrow> wiki_llm_error + wiki_resp) \<Rightarrow> rstr \<Rightarrow> rstr \<Rightarrow> rstr + rstr" where
  "merge_by ans existing proposed = map_sum (\<lambda>_. []) ws_content (ans (merge_req existing proposed))"

definition item_result :: "(gate_error + page_outcome) \<times> wiki \<Rightarrow> ingest_report \<Rightarrow> 'e ingest_world \<Rightarrow> ingest_report \<times> 'e ingest_world \<Rightarrow> bool" where
  "item_result r rep w out \<longleftrightarrow> snd out = set_vault (snd r) w
     \<and> (\<exists>e. fst out = record_result (Finished (case fst r of Inl _ \<Rightarrow> Inl e | Inr x \<Rightarrow> Inr x)) rep)"

lemma record_running [simp]:
  "record_result Asking rep = rep" "record_result (Drafted b) rep = rep" "record_result (Merging p r b c) rep = rep"
  "record_result (Merged p r b c) rep = rep"
  by (simp_all add: record_result_def)

lemma resolve_target_id: "r_target res = Some target \<Longrightarrow> page_by_id env target s = Some p \<Longrightarrow> p_id p = target"
  by (auto simp: page_by_id_def find_Some_iff)

definition stored_merge :: "'e ingest_deps \<Rightarrow> idea_input \<Rightarrow> item_task \<Rightarrow> page \<Rightarrow> resolution \<Rightarrow> rstr \<Rightarrow> rstr \<Rightarrow> wiki
    \<Rightarrow> (gate_error + page_outcome) \<times> wiki" where
  "stored_merge d idea it p res proposed b v = (case write_at (id_gate d) (it_fresh it) (str (page_as_str (p_type p))) (p_slug p)
       (p_title p) b (item_write idea it proposed) v of
     (Inl e, s') \<Rightarrow> (Inl e, s') | (Inr _, s') \<Rightarrow> (Inr (merged_outcome p res), s'))"

lemma stored_merge_result:
  "item_result (stored_merge d idea it p res proposed b (iw_vault w)) rep w
     (record_result (snd (write_merge d idea it p res proposed b w)) rep, fst (write_merge d idea it p res proposed b w))"
  by (auto simp: stored_merge_def write_merge_def wrote_def item_result_def split: sum.splits prod.splits)

lemma write_merge_final: "\<exists>w' r. write_merge d idea it p res proposed b w = (w', Finished r)"
  by (simp add: write_merge_def wrote_def)

lemma item_write_phase [simp]: "item_write idea (it\<lparr>it_phase := ph\<rparr>) b = item_write idea it b"
  by (simp add: item_write_def)

lemma merge_phase [simp]:
  "write_merge d idea (it\<lparr>it_phase := ph\<rparr>) p res proposed b w = write_merge d idea it p res proposed b w"
  by (simp add: write_merge_def)

lemma place_phase [simp]: "place d idea (it\<lparr>it_phase := ph\<rparr>) b w = place d idea it b w"
  by (simp add: place_def Let_def split: option.splits sum.splits)

lemma run_next:
  assumes "0 < id_concurrency d" "\<not> (\<exists>r. it_phase it = Finished r)" "item_step d idea it w = (w', ph)"
  shows "run_pool d idea sched k [it] rep w = run_pool d idea sched (k + 1) [it\<lparr>it_phase := ph\<rparr>] (record_result ph rep) w'"
  using assms by (subst run_alone) simp_all

lemma run_last:
  assumes "0 < id_concurrency d" "\<not> (\<exists>r. it_phase it = Finished r)" "item_step d idea it w = (w', Finished r)"
  shows "run_pool d idea sched k [it] rep w = (record_result (Finished r) rep, [it\<lparr>it_phase := Finished r\<rparr>], w')"
  unfolding run_next [OF assms] by (subst run_alone [OF assms(1)]) simp

lemma item_write_simps [simp]: "c_name (item_write idea it b) = it_name it" "c_type (item_write idea it b) = it_type it"
  "c_body (item_write idea it b) = b"
  by (simp_all add: item_write_def)

text \<open>The factory on a name that leads to a page with a body.\<close>

definition merge_end :: "'e ingest_deps \<Rightarrow> (wiki_req \<Rightarrow> wiki_llm_error + wiki_resp) \<Rightarrow> idea_input \<Rightarrow> item_task \<Rightarrow> page \<Rightarrow> resolution
    \<Rightarrow> rstr \<Rightarrow> rstr \<Rightarrow> wiki \<Rightarrow> (gate_error + page_outcome) \<times> wiki" where
  "merge_end d ans idea it p res existing body v = (case merge_by ans existing body of
     Inl e \<Rightarrow> (Inl (LlmError e), v)
   | Inr b \<Rightarrow> if trim b = NO_NEW_CONTENT then (Inr ((merged_outcome p res)\<lparr>o_merged := False, o_skipped := True\<rparr>), v)
       else stored_merge d idea it p res body b v)"

lemma factory_merging:
  assumes "r_target (resolve (id_gate d) (it_name it) (it_type it) (existing_pages (id_gate d) v)) = Some target"
    and "page_by_id (id_gate d) target v = Some p" "read_body (id_gate d) target v = Inr existing"
    and res: "res = resolve (id_gate d) (it_name it) (it_type it) (existing_pages (id_gate d) v)"
  shows "create_or_update (id_gate d) (merge_by ans) (it_fresh it) (item_write idea it body) v =
    (if p_reviewed p then stored_merge d idea it p res body (new_information existing body) v
     else merge_end d ans idea it p res existing body v)"
  unfolding create_or_update_def stored_merge_def merge_end_def
  using assms(1-3) resolve_target_id [OF assms(1,2)]
  by (auto simp: res merged_outcome_def Let_def split: sum.splits prod.splits)

lemma merging_alone:
  assumes m: "prompt_model d ans" and n: "0 < id_concurrency d"
  shows "item_result (merge_end d ans idea it p res existing body (iw_vault w)) rep w
    (case run_pool d idea sched k [it\<lparr>it_phase := Merging p res existing body\<rparr>] rep w of (rep', _, w') \<Rightarrow> (rep', w'))"
proof (cases "ans (merge_req existing body)")
  case (Inl e)
  have "run_pool d idea sched k [it\<lparr>it_phase := Merging p res existing body\<rparr>] rep w
     = (record_result (Finished (Inl (Ing_Llm e))) rep, [it\<lparr>it_phase := Finished (Inl (Ing_Llm e))\<rparr>], w)"
    using m Inl by (subst run_last [OF n]) (auto simp: item_step_def prompt_model_def)
  then show ?thesis using Inl by (auto simp: merge_end_def merge_by_def item_result_def)
next
  case r: (Inr r)
  have next_phase: "run_pool d idea sched k [it\<lparr>it_phase := Merging p res existing body\<rparr>] rep w
     = run_pool d idea sched (k + 1) [it\<lparr>it_phase := Merged p res body (ws_content r)\<rparr>] rep w"
    using r m by (subst run_next [OF n]) (auto simp: item_step_def prompt_model_def)
  show ?thesis
  proof (cases "trim (ws_content r) = NO_NEW_CONTENT")
    case True
    let ?out = "Inr ((merged_outcome p res)\<lparr>o_merged := False, o_skipped := True\<rparr>)"
    have "run_pool d idea sched (k + 1) [it\<lparr>it_phase := Merged p res body (ws_content r)\<rparr>] rep w
       = (record_result (Finished ?out) rep, [it\<lparr>it_phase := Finished ?out\<rparr>], w)"
      using True by (subst run_last [OF n]) (auto simp: item_step_def)
    then show ?thesis using True r by (simp add: next_phase merge_end_def merge_by_def item_result_def)
  next
    case False
    obtain w' x where x: "write_merge d idea it p res body (ws_content r) w = (w', Finished x)"
      using write_merge_final by blast
    have "run_pool d idea sched (k + 1) [it\<lparr>it_phase := Merged p res body (ws_content r)\<rparr>] rep w
       = (record_result (Finished x) rep, [it\<lparr>it_phase := Finished x\<rparr>], w')"
      using False x by (subst run_last [OF n]) (auto simp: item_step_def)
    then show ?thesis
      using stored_merge_result [of d idea it p res body "ws_content r" w rep] False r x
      by (simp add: next_phase merge_end_def merge_by_def)
  qed
qed

lemma placed_result:
  assumes "place d idea it body w = (w', Finished r)"
  shows "item_result (create_or_update (id_gate d) m (it_fresh it) (item_write idea it body) (iw_vault w)) rep w (record_result (Finished r) rep, w')"
proof -
  let ?v = "iw_vault w"
  let ?res = "resolve (id_gate d) (it_name it) (it_type it) (existing_pages (id_gate d) ?v)"
  show ?thesis
  proof (cases "r_target ?res")
    case None
    then show ?thesis
      using assms
      by (cases "write_at (id_gate d) (it_fresh it) (it_type it) (slugify (ge_unicode (id_gate d)) (it_name it)) (it_name it) body
           (item_write idea it body) ?v")
        (auto simp: place_def wrote_def create_or_update_def Let_def item_result_def created_outcome_def split: sum.splits)
  next
    case (Some target)
    show ?thesis
    proof (cases "page_by_id (id_gate d) target ?v")
      case None
      then show ?thesis using Some assms by (auto simp: place_def create_or_update_def Let_def item_result_def)
    next
      case page: (Some p)
      show ?thesis
      proof (cases "read_body (id_gate d) target ?v")
        case (Inl e)
        then show ?thesis using Some page assms by (auto simp: place_def create_or_update_def Let_def item_result_def)
      next
        case (Inr existing)
        then have rev: "p_reviewed p" "write_merge d idea it p ?res body (new_information existing body) w = (w', Finished r)"
          using Some page assms by (auto simp: place_def Let_def split: if_splits)
        have "create_or_update (id_gate d) m (it_fresh it) (item_write idea it body) ?v
            = stored_merge d idea it p ?res body (new_information existing body) ?v"
          unfolding create_or_update_def stored_merge_def using Some page Inr rev(1) resolve_target_id [OF Some page]
          by (auto simp: merged_outcome_def Let_def split: sum.splits prod.splits)
        then show ?thesis
          using stored_merge_result [of d idea it p ?res body "new_information existing body" w rep] rev(2) by simp
      qed
    qed
  qed
qed

lemma place_cases:
  obtains w' r where "place d idea it body w = (w', Finished r)"
    | target p res existing where "place d idea it body w = (w, Merging p res existing body)" "\<not> p_reviewed p"
      "res = resolve (id_gate d) (it_name it) (it_type it) (existing_pages (id_gate d) (iw_vault w))" "r_target res = Some target"
      "page_by_id (id_gate d) target (iw_vault w) = Some p" "read_body (id_gate d) target (iw_vault w) = Inr existing"
  by (cases "place d idea it body w")
    (auto simp: place_def wrote_def write_merge_def Let_def split: option.splits sum.splits if_splits)

lemma place_alone:
  assumes m: "prompt_model d ans" and n: "0 < id_concurrency d"
  shows "item_result (create_or_update (id_gate d) (merge_by ans) (it_fresh it) (item_write idea it body) (iw_vault w)) rep w
    (case run_pool d idea sched k [it\<lparr>it_phase := Drafted body\<rparr>] rep w of (rep', _, w') \<Rightarrow> (rep', w'))"
proof (cases rule: place_cases [of d idea it body w])
  case (1 w' r)
  then have "run_pool d idea sched k [it\<lparr>it_phase := Drafted body\<rparr>] rep w = (record_result (Finished r) rep, [it\<lparr>it_phase := Finished r\<rparr>], w')"
    by (subst run_last [OF n]) (auto simp: item_step_def)
  then show ?thesis using placed_result [OF 1, of _ rep] by simp
next
  case (2 target p res existing)
  then have "run_pool d idea sched k [it\<lparr>it_phase := Drafted body\<rparr>] rep w
     = run_pool d idea sched (k + 1) [it\<lparr>it_phase := Merging p res existing body\<rparr>] rep w"
    by (subst run_next [OF n]) (auto simp: item_step_def)
  then show ?thesis
    using merging_alone [OF m n, of idea it p res existing body w rep sched "k + 1"] 2
      factory_merging [of d it "iw_vault w" target p existing res ans idea body] by simp
qed


section \<open>The dedup gate and the bookkeeping\<close>

lemma record_result_skipped [simp]: "ir_skipped (record_result ph rep) = ir_skipped rep"
  by (simp add: record_result_def split: item_phase.splits sum.splits)

lemma run_pool_skipped: "ir_skipped (fst (run_pool d idea sched k its rep w)) = ir_skipped rep"
proof (induction d idea sched k its rep w rule: run_pool.induct)
  case (1 d idea sched k its rep w)
  then show ?case
    by (subst run_pool.simps) (auto simp: Let_def split: prod.splits)
qed

lemma bind_Inr: "ing_bind x f = (w', Some (Inr b)) \<longleftrightarrow> (\<exists>a w. x = (w, Some (Inr a)) \<and> f a w = (w', Some (Inr b)))"
  by (auto simp: ing_bind_def split: prod.splits option.splits sum.splits)

lemma item_pages_skipped: "item_pages d idea sched sa rep w = (w', Some (Inr rep')) \<Longrightarrow> ir_skipped rep' = ir_skipped rep"
  using run_pool_skipped [of d idea sched 0 _ rep w] by (auto simp: item_pages_def prod.case_eq_if split: sum.splits)

text \<open>The two ways a run can end well.\<close>

lemma run_ingest_cases:
  assumes "run_ingest d idea sched w = (w', Some (Inr rep))"
  obtains (skipped) index where "rep = empty_report\<lparr>ir_skipped := True\<rparr>"
      "regenerate_index (id_latest d) (id_gate d) (iw_vault w) = Some index"
      "w' = mark d (in_id idea) SkippedRedundant (fst (id_llm d w (dedup_req index idea)))"
    | (written) w1 where "\<not> ir_skipped rep" "w' = stamp d (in_id idea) (mark d (in_id idea) Ingested w1)"
proof -
  obtain index redundant w1 where i: "regenerate_index (id_latest d) (id_gate d) (iw_vault w) = Some index"
      "is_redundant d index idea w = (w1, Some (Inr redundant))"
      "(if redundant then (mark d (in_id idea) SkippedRedundant w1, Some (Inr (empty_report\<lparr>ir_skipped := True\<rparr>)))
        else ingest_pages d idea sched w1) = (w', Some (Inr rep))"
    using assms by (auto simp: run_ingest_def bind_Inr guard_def index_now_def split: option.splits)
  have w1: "w1 = fst (id_llm d w (dedup_req index idea))"
    using i(2) by (auto simp: is_redundant_def ask_def ing_bind_def split: prod.splits sum.splits)
  show thesis
  proof (cases redundant)
    case True
    then show thesis using skipped [of index] i(1,3) w1 by auto
  next
    case False
    then obtain w3 sa src rep' w4 w5 where r: "item_pages d idea sched sa (empty_report\<lparr>ir_created := [src]\<rparr>) w3 = (w4, Some (Inr rep))"
        "w' = stamp d (in_id idea) (mark d (in_id idea) Ingested w5)"
      using i(3) by (auto simp: ingest_pages_def bind_Inr)
    have "\<not> ir_skipped rep"
      using item_pages_skipped [OF r(1)] by (simp add: empty_report_def)
    then show thesis using written r(2) by blast
  qed
qed

lemma updated_idea:
  assumes "x \<in> set (update_ideas rq (\<lambda>x. i_id x = i) f is)" "i_tenant x = rq_tenant rq" "i_id x = i"
    and "\<And>y. i_tenant (f y) = i_tenant y" "\<And>y. i_id (f y) = i_id y"
  obtains y where "y \<in> set is" "i_tenant y = rq_tenant rq" "i_id y = i" "x = touch (rq_now rq) f y"
proof -
  obtain y where y: "y \<in> set is" "x = (if i_tenant y = rq_tenant rq \<and> i_id y = i then touch (rq_now rq) f y else y)"
    using assms(1) by (auto simp: update_ideas_def)
  then have "i_tenant y = rq_tenant rq \<and> i_id y = i" using assms(2,3) by metis
  then show thesis using that y by simp
qed

lemma now_request_simps [simp]: "rq_tenant (now_request d w) = tenant d" "rq_now (now_request d w) = id_clock d w"
  by (simp_all add: now_request_def)

lemma marked_idea:
  assumes "x \<in> set (ideas (iw_store (mark d i st w)))" "i_tenant x = tenant d" "i_id x = i"
  shows "i_state x = st \<and> i_updated x = id_clock d w"
proof -
  have x: "x \<in> set (update_ideas (now_request d w) (\<lambda>x. i_id x = i) (\<lambda>x. x\<lparr>i_state := st\<rparr>) (ideas (iw_store w)))"
    using assms(1) by (simp add: mark_def set_ingest_state_def)
  show ?thesis
    by (rule updated_idea [OF x]) (use assms(2,3) in \<open>simp_all add: touch_def\<close>)
qed

lemma stamped_idea:
  assumes "x \<in> set (ideas (iw_store (stamp d i w)))" "i_tenant x = tenant d" "i_id x = i"
  shows "i_last_ingested x = Some (i_updated x) \<and> (\<exists>y\<in>set (ideas (iw_store w)). i_tenant y = tenant d \<and> i_id y = i \<and> i_state x = i_state y)"
proof -
  have x: "x \<in> set (update_ideas (now_request d w) (\<lambda>x. i_id x = i) (\<lambda>x. x\<lparr>i_last_ingested := Some (id_clock d w)\<rparr>) (ideas (iw_store w)))"
    using assms(1) by (simp add: stamp_def set_last_ingested_def)
  show ?thesis
    by (rule updated_idea [OF x]) (use assms(2,3) in \<open>force simp: touch_def\<close>)+
qed

text \<open>
  Further: what a run decides about the capture. A run that reports the capture as redundant has called the model once
  and written nothing: the wiki is what it was when that call returned, the capture is marked as skipped. A run that reports
  pages leaves the capture ingested and not due, also when its text was edited while the run was under way (the
  new text is then never ingested).
\<close>

theorem run_decides:
  assumes "run_ingest d idea sched w = (w', Some (Inr rep))" "rq_tenant rq = tenant d"
  shows "if ir_skipped rep
    then \<exists>index. regenerate_index (id_latest d) (id_gate d) (iw_vault w) = Some index
       \<and> iw_vault w' = iw_vault (fst (id_llm d w (dedup_req index idea)))
       \<and> (\<forall>x\<in>set (ideas (iw_store w')). i_tenant x = tenant d \<and> i_id x = in_id idea \<longrightarrow> i_state x = SkippedRedundant)
    else \<forall>x\<in>set (ideas (iw_store w')). i_tenant x = tenant d \<and> i_id x = in_id idea \<longrightarrow> i_state x = Ingested \<and> \<not> dirty rq x"
  using assms(1)
proof (cases rule: run_ingest_cases)
  case (skipped index)
  then show ?thesis using marked_idea [where st = SkippedRedundant and d = d] by auto
next
  case (written w1)
  have "i_state x = Ingested \<and> \<not> dirty rq x"
    if "x \<in> set (ideas (iw_store w'))" "i_tenant x = tenant d" "i_id x = in_id idea" for x
    using stamped_idea [OF that(1) [unfolded written(2)] that(2,3)] marked_idea [of _ d "in_id idea" Ingested]
    by (auto simp: dirty_def)
  then show ?thesis using written(1) by auto
qed

text \<open>
  Further: a redundant edit never settles. When a capture that was ingested before is edited and the new text is found redundant,
  the mark itself makes the row newer than its last ingest: the capture is due again after every run.
\<close>

theorem redundant_edit_stays_due:
  assumes run: "run_ingest d idea sched w = (w', Some (Inr rep))" "ir_skipped rep" and rq: "rq_tenant rq = tenant d"
    and quiet: "\<And>req. iw_store (fst (id_llm d w req)) = iw_store w"
      "\<And>req. id_clock d (fst (id_llm d w req)) > t"
    and x: "x \<in> set (ideas (iw_store w))" "i_tenant x = tenant d" "i_id x = in_id idea" "i_active x" "i_last_ingested x = Some t"
  shows "\<exists>x'\<in>set (ideas (iw_store w')). i_tenant x' = tenant d \<and> i_id x' = in_id idea \<and> i_body x' = i_body x
    \<and> i_last_ingested x' = Some t \<and> dirty rq x'"
  using run(1)
proof (cases rule: run_ingest_cases)
  case (skipped index)
  let ?w = "fst (id_llm d w (dedup_req index idea))"
  have "touch (id_clock d ?w) (\<lambda>x. x\<lparr>i_state := SkippedRedundant\<rparr>) x \<in> set (ideas (iw_store w'))"
    using x(1-3) unfolding skipped(3)
    by (auto simp: mark_def set_ingest_state_def update_ideas_def now_request_def quiet(1) intro!: image_eqI [of _ _ x])
  then show ?thesis
    using x quiet(2) [of "dedup_req index idea"]
    by (intro bexI [of _ "touch (id_clock d ?w) (\<lambda>x. x\<lparr>i_state := SkippedRedundant\<rparr>) x"]) (simp_all add: touch_def dirty_def rq)
qed (use run(2) in simp)

section \<open>The source page\<close>

lemma source_page_written:
  assumes "source_page d idea sa body w = (w', Some (Inr i))"
  shows "write_page (id_gate d) (id_fresh d 0) (source_write d idea sa (source_page_slug d (in_id idea) (iw_vault w)) body) (iw_vault w)
    = (Inr i, iw_vault w')"
  using assms by (auto simp: source_page_def gate_result_def prod_eq_iff map_sum_def split: sum.splits)

lemma source_write_simps [simp]: "w_type (source_write d idea sa prior b) = str ''source''"
  "w_slug (source_write d idea sa prior b) = source_slug d idea sa prior" "w_source_ids (source_write d idea sa prior b) = [in_id idea]"
  "w_body (source_write d idea sa prior b) = b"
  by (simp_all add: source_write_def)

definition source_of :: "uuid \<Rightarrow> page \<Rightarrow> bool" where
  "source_of i p \<longleftrightarrow> p_type p = Source \<and> i \<in> set (p_source_ids p)"

lemma source_page_slug_Some:
  assumes latest: "\<And>ps. set (id_latest d ps) = set ps" and p: "p \<in> set (existing_pages (id_gate d) v)" "source_of i p"
  obtains q where "q \<in> set (existing_pages (id_gate d) v)" "source_of i q" "source_page_slug d i v = Some (p_slug q)"
proof -
  let ?rows = "filter (\<lambda>p. p_type p = Source \<and> i \<in> set (p_source_ids p)) (existing_pages (id_gate d) v)"
  have "p \<in> set (id_latest d ?rows)" using p by (simp add: latest source_of_def)
  then obtain q qs where q: "id_latest d ?rows = q # qs" by (cases "id_latest d ?rows") auto
  then have "q \<in> set ?rows" using latest [of ?rows] by (metis list.set_intros(1))
  then show thesis using that [of q] q by (simp add: source_page_slug_def source_of_def)
qed

lemma source_key: "str (page_as_str ty) = str ''source'' \<longleftrightarrow> ty = Source"
  by (cases ty) simp_all

text \<open>
  Further: re-ingesting a capture rewrites its page. When the capture already has a source page, the run writes to such a page
  under its old id, whatever title the model now gives, and the live pages keep their ids.
\<close>

theorem reingest_reuses_page:
  assumes ok: "wiki_ok (id_gate d) (iw_vault w)" and latest: "\<And>ps. set (id_latest d ps) = set ps"
    and p: "p \<in> set (existing_pages (id_gate d) (iw_vault w))" "source_of (in_id idea) p"
    and run: "source_page d idea sa body w = (w', Some (Inr i))"
  shows "(\<exists>q\<in>set (existing_pages (id_gate d) (iw_vault w)). source_of (in_id idea) q \<and> i = p_id q)
    \<and> map p_id (existing_pages (id_gate d) (iw_vault w')) = map p_id (existing_pages (id_gate d) (iw_vault w))"
proof -
  obtain q where q: "q \<in> set (existing_pages (id_gate d) (iw_vault w))" "source_of (in_id idea) q"
      "source_page_slug d (in_id idea) (iw_vault w) = Some (p_slug q)"
    by (rule source_page_slug_Some [OF latest p])
  then have slug: "source_slug d idea sa (source_page_slug d (in_id idea) (iw_vault w)) = p_slug q"
    by (simp add: source_slug_def)
  from ok source_page_written [OF run] show ?thesis
  proof (cases rule: write_page_existing)
    case (update r)
    then have "page_key r = page_key q"
      using q(2) by (simp add: page_key_def source_of_def slug source_key [symmetric])
    then have "r = q"
      using ok q(1) update(1) by (auto simp: wiki_ok_def distinct_map inj_on_def)
    moreover have "map p_id (existing_pages (id_gate d) (iw_vault w')) = map p_id (existing_pages (id_gate d) (iw_vault w))"
      unfolding update(4) by (simp add: comp_def)
    ultimately show ?thesis using q update(5) by auto
  next
    case (insert ty)
    have "ty = Source" using insert(1) source_key [of ty] by simp
    then have "(Source, p_slug q) \<notin> page_key ` set (existing_pages (id_gate d) (iw_vault w))"
      using insert(2) by (simp add: slug)
    moreover have "page_key q = (Source, p_slug q)" using q(2) by (simp add: page_key_def source_of_def)
    ultimately show ?thesis using q(1) by (metis image_eqI)
  qed blast
qed

text \<open>
  Further: two captures with the same title share a page. When the model gives a first-time capture a title whose slug is that of another
  capture's source page, the run overwrites that page's text, and deleting either capture later deletes the
  page for both.
\<close>

theorem same_title_shares_page:
  assumes ok: "wiki_ok (id_gate d) (iw_vault w)" and latest: "\<And>ps. set (id_latest d ps) = set ps"
    and mine: "\<And>q. q \<in> set (existing_pages (id_gate d) (iw_vault w)) \<Longrightarrow> \<not> source_of (in_id idea) q"
    and other: "p \<in> set (existing_pages (id_gate d) (iw_vault w))" "source_of other p"
    and title: "\<not> blank (sa_title sa)" "slugify (ge_unicode (id_gate d)) (sa_title sa) = p_slug p"
    and run: "source_page d idea sa body w = (w', Some (Inr i))"
    and del: "delete_capture rq dev a (iw_store w') = (Inr True, s')" "rq_tenant rq = tenant d" "a \<in> {other, in_id idea}"
  shows "i = p_id p \<and> files (iw_vault w') (p_body_ref p) = Some (sanitize_links body)
    \<and> (\<forall>q\<in>set (existing_pages (id_gate d) (Captures.vault s')). p_id q \<noteq> p_id p)"
proof -
  let ?env = "id_gate d" and ?v = "iw_vault w" and ?v' = "iw_vault w'"
  let ?w = "source_write d idea sa (source_page_slug d (in_id idea) (iw_vault w)) body"
  have "id_latest d (filter (\<lambda>p. p_type p = Source \<and> in_id idea \<in> set (p_source_ids p)) (existing_pages ?env ?v)) = []"
    using mine latest by (simp add: source_of_def filter_False flip: set_empty)
  then have slug: "source_slug d idea sa (source_page_slug d (in_id idea) (iw_vault w)) = p_slug p"
    using title by (simp add: source_slug_def source_page_slug_def)
  note wr = source_page_written [OF run]
  have p: "str (page_as_str (p_type p)) = str ''source''" using other(2) by (simp add: source_of_def)
  have rows: "i = p_id p \<and> existing_pages ?env ?v' = map (\<lambda>q. if q = p then update_row (upsert_of ?env ?w (gate_path ?env ?w)) q else q)
      (existing_pages ?env ?v)"
    using ok wr
  proof (cases rule: write_page_existing)
    case (update r)
    then have "page_key r = page_key p" using p by (simp add: page_key_def slug)
    then have "r = p" using ok other(1) update(1) by (auto simp: wiki_ok_def distinct_map inj_on_def)
    then show ?thesis using update by simp
  next
    case (insert ty)
    then have "(ty, p_slug p) = page_key p" using p by (simp add: page_key_def slug)
    then show ?thesis using insert(2) other(1) slug by simp
  qed blast
  have "p_body_ref p = gate_path ?env ?w"
    using ok other(1) gate_path_body [of ?w "p_type p" ?env] p by (simp add: wiki_ok_def list_all_iff slug)
  note ref = this
  from wr have stored: "files ?v' (p_body_ref p) = Some (sanitize_links body)"
  proof (cases rule: write_page_cases)
    case (written j s2)
    then show ?thesis using upsert_frame [OF written(3)] ref by simp
  qed simp_all
  have ids: "distinct (map p_id (pages ?v'))"
    using write_page_ok [OF ok, of "id_fresh d 0" ?w] wr by (simp add: wiki_ok_def)
  let ?p = "update_row (upsert_of ?env ?w (gate_path ?env ?w)) p"
  have row: "?p \<in> set (existing_pages ?env ?v')"
    using rows other(1) by (auto intro!: image_eqI [of _ _ p])
  have gone: "contributed rq a ?p \<and> orphaned a ?p"
    using row other(2) del(2,3)
    by (auto simp: contributed_def orphaned_def source_of_def existing_pages_def live_def tenant_def update_row_def upsert_of_def Let_def)
  have "pages (Captures.vault s') = map (retract rq a) (pages ?v')"
    using del(1) by (auto simp: delete_capture_def Let_def retract_pages_map iw_vault_def split: if_splits option.splits)
  moreover have "r = ?p" if "r \<in> set (pages ?v')" "p_id (retract rq a r) = p_id p" for r
    using ids row that by (auto simp: retract_one distinct_map inj_on_def existing_pages_def)
  ultimately have "\<forall>q\<in>set (existing_pages ?env (Captures.vault s')). p_id q \<noteq> p_id p"
    using gone by (auto simp: existing_pages_def live_def retract_def)
  then show ?thesis using rows stored by blast
qed

section \<open>Witnesses\<close>

definition sample_answer :: "wiki_req \<Rightarrow> wiki_llm_error + wiki_resp" where
  "sample_answer req = Inr \<lparr>ws_content = str ''see [[go]]'', ws_usage = None, ws_truncated = False\<rparr>"

definition sample_deps :: "unit ingest_deps" where
  "sample_deps = \<lparr>id_llm = (\<lambda>w req. (w, sample_answer req)), id_gate = sample_env, id_user = 2,
     id_request = sample_rq 0,
     id_clock = (\<lambda>_. 5), id_cost = (\<lambda>_. \<lparr>ce_today = 0, ce_uuid_text = (\<lambda>_. []), ce_citext_eq = (=)\<rparr>), id_latest = id,
     id_cancelled = (\<lambda>_. False), id_concurrency = 4, id_language = str ''en'', id_source_tags = [str ''web''],
     id_reader = (\<lambda>_. Inl []), id_lower = map to_ascii_lower, id_hex = (\<lambda>_. str ''00000000''), id_fresh = of_nat\<rparr>"

definition sample_world :: "unit ingest_world" where
  "sample_world = \<lparr>iw_store = store_of [],
     iw_guard = \<lparr>cg_db = \<lparr>cd_tenants = [], cd_users = [], cd_ledger = []\<rparr>, cg_seen = {}\<rparr>, iw_env = ()\<rparr>"

definition sample_idea_input :: idea_input where
  "sample_idea_input = \<lparr>in_id = 9, in_body = str ''hello'', in_origin = str ''web''\<rparr>"

definition sample_analysis :: source_analysis where
  "sample_analysis = sa_default\<lparr>sa_entities := [\<lparr>ii_name = str ''Rust'', ii_aliases = [], ii_subtype = None\<rparr>],
     sa_concepts := [\<lparr>ii_name = str ''Go'', ii_aliases = [], ii_subtype = None\<rparr>]\<rparr>"

lemma sample_items:
  "map_option (map_sum (\<lambda>_. ()) (\<lambda>rep. (ir_created rep, ir_merged rep, ir_errors rep)))
     (snd (item_pages sample_deps sample_idea_input (\<lambda>_. 1) sample_analysis empty_report sample_world)) = Some (Inr ([2, 1], [], []))"
  by code_simp

theorem every_item_reported_witness:
  "\<exists>rep' w'. item_pages sample_deps sample_idea_input (\<lambda>_. 1) sample_analysis empty_report sample_world = (w', Some (Inr rep'))
     \<and> reported rep' = reported empty_report + length (sa_entities sample_analysis) + length (sa_concepts sample_analysis)"
proof -
  obtain x where "snd (item_pages sample_deps sample_idea_input (\<lambda>_. 1) sample_analysis empty_report sample_world) = Some x"
      "map_sum (\<lambda>_. ()) (\<lambda>rep. (ir_created rep, ir_merged rep, ir_errors rep)) x = Inr ([2, 1], [], [])"
    using sample_items by auto
  then obtain rep' w' where run: "item_pages sample_deps sample_idea_input (\<lambda>_. 1) sample_analysis empty_report sample_world = (w', Some (Inr rep'))"
    by (cases x) (auto simp: prod_eq_iff)
  have "reported rep' = reported empty_report + length (sa_entities sample_analysis) + length (sa_concepts sample_analysis)"
    by (rule every_item_reported [OF run]) (simp_all add: sample_deps_def)
  then show ?thesis using run by blast
qed

definition sample_task :: item_task where
  "sample_task = \<lparr>it_name = str ''Rust'', it_type = str ''entity'', it_fresh = 3, it_phase = Queued\<rparr>"


theorem pool_bounded_and_live_witness:
  "permits_used [sample_task] \<le> id_concurrency sample_deps
   \<and> (\<not> all_finished [sample_task] \<longrightarrow> runnable (id_concurrency sample_deps) [sample_task] \<noteq> [])"
  by (rule pool_bounded_and_live [of sample_deps sample_idea_input])
    (simp_all add: tasks_reach.start sample_task_def sample_deps_def)

theorem ingest_keeps_wiki_witness:
  "wiki_ok sample_env (iw_vault (fst (run_ingest sample_deps sample_idea_input (\<lambda>_. 0) sample_world)))
   \<and> within_quota sample_env (iw_vault (fst (run_ingest sample_deps sample_idea_input (\<lambda>_. 0) sample_world)))"
proof -
  have env: "id_gate sample_deps = sample_env" by (simp add: sample_deps_def)
  have start: "iw_vault sample_world = empty_wiki" by (simp add: sample_world_def store_of_def iw_vault_def)
  show ?thesis
    using ingest_keeps_wiki [where d = sample_deps and w = sample_world and idea = sample_idea_input and sched = "\<lambda>_. 0"]
    unfolding env start
    by (simp add: empty_wiki_ok) (simp add: sample_deps_def sample_env_def within_quota_def vault_usage_def existing_pages_def empty_wiki_def)
qed

end
