(* ===== verification/Router_Llm.thy ===== *)
theory Router_Llm
  imports Harness Routing Cost Extract Streams Social
begin

text \<open>
  The model behind the wiki engine (\<open>ingest/router_llm.rs\<close>): \<open>RouterWikiLlm\<close> turns one request of the
  engine into one turn of the router's loop and accrues what the turn used; with it the scripted providers of
  \<open>router/stub.rs\<close> and \<open>wiki/llm.rs\<close>. The state \<open>'e\<close> is the world of the dispatch and the tools; the settings and
  the cost tables are reached in it by the functions of \<open>seam_env\<close>, environment variables are parameters. The cancellation token of the
  seam is its own and never fires.
\<close>

section \<open>Scripted providers\<close>

record stub_script =
  ss_thinking :: "rstr option"
  ss_text :: "rstr option"
  ss_tool :: "(rstr \<times> rstr) option"
  ss_finish :: finish_reason
  ss_error :: "api_error option"
  ss_reasoning_content :: "rstr option"
  ss_usage :: "canonical_usage option"

definition script_default :: stub_script where
  "script_default = \<lparr>ss_thinking = None, ss_text = None, ss_tool = None, ss_finish = Protocol.Stop, ss_error = None,
     ss_reasoning_content = None, ss_usage = None\<rparr>"

definition script_text :: "rstr \<Rightarrow> stub_script" where "script_text t = script_default\<lparr>ss_text := Some t\<rparr>"

definition script_tool_call :: "rstr \<Rightarrow> rstr \<Rightarrow> stub_script" where
  "script_tool_call name args = script_default\<lparr>ss_tool := Some (name, args), ss_finish := ToolCalls\<rparr>"

text \<open>The stub ignores the request.\<close>

definition stub_complete :: "stub_script \<Rightarrow> api_error + normalized_response" where
  "stub_complete s = (case ss_error s of
     Some e \<Rightarrow> Inl e
   | None \<Rightarrow> Inr \<lparr>nr_content = ss_text s,
       nr_tool_calls = map_option (\<lambda>(n, a). [\<lparr>tc_id = Some (str ''call_0''), tc_name = n, arguments = a, tc_provider_data = None\<rparr>]) (ss_tool s),
       nr_finish_reason = ss_finish s, nr_reasoning = ss_thinking s, nr_usage = ss_usage s,
       nr_provider_data = map_option (\<lambda>r. json_obj [(''reasoning_content'', JString r)]) (ss_reasoning_content s)\<rparr>)"

definition stub_block :: "block \<Rightarrow> delta \<Rightarrow> stream_event list" where
  "stub_block b d = [ContentBlockStart b, ContentBlockDelta d, ContentBlockStop]"

definition stub_stream :: "stub_script \<Rightarrow> event_out list" where
  "stub_stream s = (case ss_error s of
     Some e \<Rightarrow> [Inl e]
   | None \<Rightarrow> map Inr ([MessageStart]
       @ (case ss_thinking s of Some t \<Rightarrow> stub_block ThinkingBlock (ThinkingDelta t) | None \<Rightarrow> [])
       @ (case ss_text s of Some t \<Rightarrow> stub_block TextBlock (TextDelta t) | None \<Rightarrow> [])
       @ (case ss_tool s of Some (n, a) \<Rightarrow> stub_block (ToolUse (str ''call_0'') n) (InputJsonDelta a) | None \<Rightarrow> [])
       @ [MessageDelta (Some (ss_finish s)) (ss_usage s), MessageStop]))"

text \<open>The scripted model of the engine: a queue of bodies, the last system prefix and the last tail.\<close>

record stub_llm =
  sl_responses :: "rstr list"
  sl_system :: rstr
  sl_tail :: rstr
  sl_calls :: u64

definition scripted :: "rstr list \<Rightarrow> stub_llm" where
  "scripted rs = \<lparr>sl_responses = rs, sl_system = [], sl_tail = [], sl_calls = 0\<rparr>"

definition stub_create_message :: "stub_llm wiki_llm" where
  "stub_create_message s req = (let
       body = (case sl_responses s of [] \<Rightarrow> str ''{}'' | b # _ \<Rightarrow> b);
       s' = \<lparr>sl_responses = tl (sl_responses s), sl_system = wr_system req,
             sl_tail = the_or [] (Option.bind (find (\<lambda>m. content m \<noteq> None) (rev (wr_messages req))) content), sl_calls = sl_calls s + 1\<rparr>
     in (s', if body = str ''__ERROR__'' then Inl (Llm_Provider (str ''scripted error''))
             else Inr \<lparr>ws_content = body, ws_usage = None, ws_truncated = False\<rparr>))"

section \<open>The seam\<close>

record recall_override =
  ro_provider :: "rstr option"
  ro_model :: "rstr option"
  ro_effort :: "rstr option"

definition no_override :: recall_override where
  "no_override = \<lparr>ro_provider = None, ro_model = None, ro_effort = None\<rparr>"

definition override_route :: "recall_override \<Rightarrow> (rstr \<times> rstr) option" where
  "override_route ov = (case (ro_provider ov, ro_model ov) of (Some p, Some m) \<Rightarrow> Some (p, m) | _ \<Rightarrow> None)"

text \<open>A fixed harness, or one built for the tenant of each call.\<close>

datatype 'e harness_source =
    Prebuilt "'e \<Rightarrow> dispatch_request \<Rightarrow> 'e \<times> (api_error + normalized_response)"
  | Per_Tenant rstr

record 'e seam =
  se_source :: "'e harness_source"
  se_tools :: "tool_def list"
  se_recall :: "(uuid \<Rightarrow> 'e tool_exec) option"

record 'e seam_env =
  sv_dispatch :: "'e http_dispatch"
  sv_vault :: vault_env
  sv_db_ok :: bool
  sv_stub_var :: "rstr option"
  sv_default :: "rstr \<times> rstr"
  sv_tokens_var :: "rstr option"
  sv_rounds_var :: "rstr option"
  sv_settings :: "'e \<Rightarrow> settings_db"
  sv_cost_env :: "'e \<Rightarrow> cost_env"
  sv_cost :: "(cost_db \<Rightarrow> cost_db) \<Rightarrow> 'e \<Rightarrow> 'e"

definition stub_source :: "stub_script \<Rightarrow> 'e harness_source" where
  "stub_source s = Prebuilt (\<lambda>env req. (env, stub_complete s))"

definition seam_stub :: "rstr \<Rightarrow> 'e seam" where
  "seam_stub reply = \<lparr>se_source = stub_source (script_text reply), se_tools = [], se_recall = None\<rparr>"

definition seam_live :: "rstr \<Rightarrow> 'e seam" where
  "seam_live reply = \<lparr>se_source = Per_Tenant reply, se_tools = [], se_recall = None\<rparr>"

definition seam_live_recall :: "rstr \<Rightarrow> tool_def list \<Rightarrow> (uuid \<Rightarrow> 'e tool_exec) \<Rightarrow> 'e seam" where
  "seam_live_recall reply tools ex = \<lparr>se_source = Per_Tenant reply, se_tools = tools, se_recall = Some ex\<rparr>"

definition seam_live_with_tools :: "rstr \<Rightarrow> tool_def list \<Rightarrow> 'e seam" where
  "seam_live_with_tools reply tools = \<lparr>se_source = Per_Tenant reply, se_tools = tools, se_recall = None\<rparr>"

definition turn_budget_from_env :: "rstr option \<Rightarrow> rstr option \<Rightarrow> budget" where
  "turn_budget_from_env tokens_var rounds_var = budget_tokens
     (case Option.bind tokens_var parse_u64 of Some n \<Rightarrow> of_nat n | None \<Rightarrow> 250000)
     (case Option.bind rounds_var parse_u64 of Some n \<Rightarrow> if n < 2 ^ 32 then of_nat n else 32 | None \<Rightarrow> 32)"

definition seam_params :: "wiki_req \<Rightarrow> recall_override \<Rightarrow> req_params" where
  "seam_params req ov = \<lparr>temperature = None, max_tokens = Some (wr_max_tokens req),
     response_format = map_option (\<lambda>(name, schema). json_obj [(''type'', JString (str ''json_schema'')),
        (''json_schema'', json_obj [(''name'', JString name), (''schema'', schema)])]) (wr_format req),
     stream = False, server_tools = [],
     rp_reasoning = (case Option.bind (ro_effort ov) parse_effort of
        Some e \<Rightarrow> Some \<lparr>effort = Some e\<rparr>
      | None \<Rightarrow> if wr_no_thinking req then Some \<lparr>effort = Some Providers.Minimal\<rparr> else None),
     session_id = None\<rparr>"

definition seam_history :: "wiki_req \<Rightarrow> message list" where
  "seam_history req = plain_message System (wr_system req) # wr_messages req"

definition seam_tools :: "'e seam \<Rightarrow> uuid \<Rightarrow> 'e tool_dispatcher" where
  "seam_tools se t = (if se_tools se = [] then \<lparr>defs = [], exec = None\<rparr>
     else \<lparr>defs = se_tools se, exec = map_option (\<lambda>f. f t) (se_recall se)\<rparr>)"

text \<open>The turn: no persistence, no cost check, a token that never fires. \<open>f\<close> is the provider seam.\<close>

definition seam_ctx :: "'e seam_env \<Rightarrow> 'e seam \<Rightarrow> uuid \<Rightarrow> wiki_req \<Rightarrow> bool \<Rightarrow> recall_override
    \<Rightarrow> ('e \<Rightarrow> dispatch_request \<Rightarrow> 'e \<times> (api_error + normalized_response)) \<Rightarrow> 'e turn_ctx" where
  "seam_ctx v se t req sink ov f = \<lparr>history = seam_history req,
     ctx_budget = turn_budget_from_env (sv_tokens_var v) (sv_rounds_var v), ctx_params = seam_params req ov,
     ctx_tools = seam_tools se t, ctx_tenant = t, has_sink = sink,
     world = \<lparr>is_cancelled = (\<lambda>_. False), check_before_call = (\<lambda>env. (env, None)), complete = f\<rparr>\<rparr>"

definition seam_dispatch :: "'e seam_env \<Rightarrow> 'e http_dispatch" where
  "seam_dispatch v = (sv_dispatch v)\<lparr>hd_registry := register_all,
     hd_world := (hd_world (sv_dispatch v))\<lparr>hw_cancelled := (\<lambda>_. False)\<rparr>\<rparr>"

definition seam_harness :: "'e seam_env \<Rightarrow> rstr \<Rightarrow> uuid \<Rightarrow> recall_override \<Rightarrow> 'e \<Rightarrow> harness_kind \<times> rstr \<times> rstr" where
  "seam_harness v reply t ov env = (let rv = responses_var (sv_dispatch v); db = sv_settings v env in
     case override_route ov of
       Some (p, m) \<Rightarrow> build_harness_for_route (sv_vault v) (sv_db_ok v) (sv_stub_var v) rv (sv_default v) t p m reply db
     | None \<Rightarrow> build_harness_for (sv_vault v) (sv_db_ok v) (sv_stub_var v) rv (sv_default v) t reply db)"

type_synonym 'e turn_run = "turn_event list \<times> 'e \<times> (rstr + turn_result)"

definition run_harness :: "'e seam_env \<Rightarrow> (('e \<Rightarrow> dispatch_request \<Rightarrow> 'e \<times> (api_error + normalized_response)) \<Rightarrow> 'e turn_ctx)
    \<Rightarrow> harness_kind \<Rightarrow> 'e \<Rightarrow> 'e turn_run" where
  "run_harness v ctx h env = (case h of
     Stub_Harness reply \<Rightarrow> run_turn (ctx (\<lambda>env _. (env, stub_complete (script_text reply)))) env
   | Live_Harness chain \<Rightarrow> (case run_turn (harness_ctx (seam_dispatch v) (ctx (\<lambda>env _. (env, Inl (Transport []))))) (harness_start env chain) of
       (evs, st, r) \<Rightarrow> (evs, he_env st, r)))"

text \<open>The turn of a call and, on the live path, the provider and model it is priced at.\<close>

definition seam_turn :: "'e seam_env \<Rightarrow> 'e seam \<Rightarrow> uuid \<Rightarrow> wiki_req \<Rightarrow> bool \<Rightarrow> recall_override \<Rightarrow> 'e
    \<Rightarrow> 'e turn_run \<times> (rstr \<times> rstr) option" where
  "seam_turn v se t req sink ov env = (case se_source se of
     Prebuilt f \<Rightarrow> (run_turn (seam_ctx v se t req sink ov f) env, None)
   | Per_Tenant reply \<Rightarrow> (case seam_harness v reply t ov env of
       (h, p, m) \<Rightarrow> (run_harness v (seam_ctx v se t req sink ov) h env, Some (p, m))))"

fun wiki_result :: "rstr + turn_result \<Rightarrow> wiki_llm_error + wiki_resp" where
  "wiki_result (Inl e) = Inl (Llm_Provider e)"
| "wiki_result (Inr Interrupted) = Inl Llm_Cancelled"
| "wiki_result (Inr (Refused r)) = Inl (Llm_Provider r)"
| "wiki_result (Inr (Final c u f)) = Inr \<lparr>ws_content = the_or [] c, ws_usage = Some u, ws_truncated = (f = Length)\<rparr>"

definition accrue_result :: "'e seam_env \<Rightarrow> uuid \<Rightarrow> (rstr \<times> rstr) option \<Rightarrow> rstr + turn_result \<Rightarrow> 'e \<Rightarrow> 'e" where
  "accrue_result v t target r env = (case (target, r) of
     (Some (p, m), Inr (Final c u f)) \<Rightarrow> sv_cost v (accrue_turn_cost (sv_cost_env v env) t p m u) env
   | _ \<Rightarrow> env)"

definition drive :: "'e seam_env \<Rightarrow> 'e seam \<Rightarrow> uuid \<Rightarrow> wiki_req \<Rightarrow> bool \<Rightarrow> recall_override \<Rightarrow> 'e
    \<Rightarrow> turn_event list \<times> 'e \<times> (wiki_llm_error + wiki_resp)" where
  "drive v se t req sink ov env = (case seam_turn v se t req sink ov env of
     ((evs, env', r), target) \<Rightarrow> (evs, accrue_result v t target r env', wiki_result r))"

definition create_message :: "'e seam_env \<Rightarrow> 'e seam \<Rightarrow> uuid \<Rightarrow> 'e wiki_llm" where
  "create_message v se t env req = snd (drive v se t req False no_override env)"

definition create_message_observed_with_override :: "'e seam_env \<Rightarrow> 'e seam \<Rightarrow> uuid \<Rightarrow> wiki_req \<Rightarrow> bool \<Rightarrow> recall_override \<Rightarrow> 'e
    \<Rightarrow> turn_event list \<times> 'e \<times> (wiki_llm_error + wiki_resp)" where
  "create_message_observed_with_override v se t req sink ov env =
     (case drive v se t req sink ov env of (evs, env', r) \<Rightarrow> (if sink then filter is_sink_event evs else [], env', r))"

section \<open>What a turn sends\<close>

text \<open>Every request of a turn is made from a state whose transcript extends the one the turn began with.\<close>

lemma turn_step_requests:
  "Called r \<in> set (fst (turn_step ctx s)) \<Longrightarrow> r = turn_request ctx s"
  by (auto simp: turn_step_def finish_turn_def sink_events_def Let_def split: if_splits prod.splits sum.splits option.splits list.splits)

lemma turn_step_extends:
  assumes "turn_step ctx s = (evs, Inr s')"
  shows "prefix (ls_messages s) (ls_messages s')"
  using assms by (auto simp: turn_step_def working_messages_def Let_def split: if_splits prod.splits sum.splits option.splits list.splits)

lemma turn_loop_requests:
  "Called r \<in> set (fst (turn_loop ctx s)) \<Longrightarrow> \<exists>s'. r = turn_request ctx s' \<and> prefix (ls_messages s) (ls_messages s')"
proof (induction "rounds_left (ls_budget s)" arbitrary: s rule: less_induct)
  case less
  obtain evs x where x: "turn_step ctx s = (evs, x)" by (cases "turn_step ctx s")
  show ?case
  proof (cases x)
    case (Inl e)
    then have "Called r \<in> set evs" using less.prems x by (cases e) (simp add: turn_loop_stop)
    then show ?thesis using turn_step_requests [of r ctx s] x by auto
  next
    case (Inr s')
    note step = x [unfolded Inr]
    have ext: "prefix (ls_messages s) (ls_messages s')" by (rule turn_step_extends [OF step])
    from less.prems consider "Called r \<in> set evs" | "Called r \<in> set (fst (turn_loop ctx s'))"
      by (auto simp: turn_loop_more [OF step])
    then show ?thesis
    proof cases
      case 1
      then show ?thesis using turn_step_requests [of r ctx s] x by auto
    next
      case 2
      have "rounds_left (ls_budget s') < rounds_left (ls_budget s)" using rounds_left_step [OF step] by simp
      from less.hyps [OF this 2] show ?thesis using ext prefix_order.trans by blast
    qed
  qed
qed

lemma repair_keeps_head:
  assumes "role m = System"
  shows "\<exists>out'. foldl repair_step (m # out) ms = m # out'"
proof (induction ms arbitrary: out)
  case (Cons x xs)
  have "\<exists>o'. repair_step (m # out) x = m # o'"
    using assms by (cases out) (auto simp: repair_step_def coalesces_def)
  then show ?case using Cons by auto
qed simp

lemma api_copy_keeps_system:
  assumes "role m = System"
  shows "\<exists>ms'. build_api_copy (m # ms) = m # ms'"
proof -
  have "repair_step [] m = [m]" by (simp add: repair_step_def)
  then obtain out' where "foldl repair_step [] (m # ms) = m # out'" using repair_keeps_head [OF assms, of "[]" ms] by auto
  then show ?thesis
    using assms by (simp add: build_api_copy_def repair_role_alternation_def clean_orphan_tool_results_def Let_def)
qed

section \<open>The seam, proved\<close>

text \<open>A turn with a final answer has the content and finish of a response and the usage of all; another ended in an
  error of a provider.\<close>

definition answered :: "turn_event list \<Rightarrow> rstr + turn_result \<Rightarrow> bool" where
  "answered evs r = (case r of
     Inl e \<Rightarrow> \<exists>a. e = api_error_display a
   | Inr (Final c u f) \<Rightarrow> u = usage_of evs \<and> (\<exists>nr. Returned nr \<in> set evs \<and> c = nr_content nr \<and> f = nr_finish_reason nr)
   | _ \<Rightarrow> False)"

lemma run_turn_answered:
  assumes "\<forall>e. \<not> is_cancelled (world ctx) e" "\<forall>e. snd (turn_world.check_before_call (world ctx) e) = None"
  shows "answered (fst (run_turn ctx env)) (snd (snd (run_turn ctx env)))"
proof -
  let ?s = "initial_state ctx env"
  have "case snd (snd (turn_loop ctx s)) of Inl e \<Rightarrow> \<exists>a. e = api_error_display a | Inr r \<Rightarrow> \<exists>c u f. r = Final c u f" for s
  proof (induction rule: turn_loop_induct [where P = "\<lambda>s evs r. case r of Inl e \<Rightarrow> \<exists>a. e = api_error_display a | Inr r \<Rightarrow> \<exists>c u f. r = Final c u f" and s = s])
    case (denied s env e)
    then show ?case using assms(2) by (metis option.distinct(1) snd_conv)
  qed (use assms(1) in auto)
  from this [of ?s] show ?thesis
    using turn_loop_ledger [of ctx ?s]
    by (auto simp: answered_def run_turn_events prologue_inert initial_state_def split: sum.splits turn_result.splits)
qed

lemma seam_ctx_world [simp]:
  "\<not> is_cancelled (world (seam_ctx v se t req sink ov f)) e"
  "turn_world.check_before_call (world (seam_ctx v se t req sink ov f)) e = (e, None)"
  "history (seam_ctx v se t req sink ov f) = seam_history req"
  "ctx_params (seam_ctx v se t req sink ov f) = seam_params req ov"
  "ctx_tenant (seam_ctx v se t req sink ov f) = t"
  "defs (ctx_tools (seam_ctx v se t req sink ov f)) = se_tools se"
  "ctx_budget (seam_ctx v se t req sink ov f) = turn_budget_from_env (sv_tokens_var v) (sv_rounds_var v)"
  by (simp_all add: seam_ctx_def seam_tools_def)

lemma harness_ctx_seam [simp]:
  "\<not> is_cancelled (world (harness_ctx (seam_dispatch v) c)) e"
  "turn_world.check_before_call (world (harness_ctx d c)) h = lift_guard (turn_world.check_before_call (world c)) h"
  "history (harness_ctx d c) = history c" "ctx_params (harness_ctx d c) = ctx_params c"
  "ctx_tenant (harness_ctx d c) = ctx_tenant c" "defs (ctx_tools (harness_ctx d c)) = defs (ctx_tools c)"
  "ctx_budget (harness_ctx d c) = ctx_budget c"
  by (simp_all add: harness_ctx_def seam_dispatch_def)

text \<open>The turn behind a call, whichever harness it has.\<close>

definition seam_like :: "'e seam_env \<Rightarrow> 'e seam \<Rightarrow> uuid \<Rightarrow> wiki_req \<Rightarrow> recall_override \<Rightarrow> 's turn_ctx \<Rightarrow> bool" where
  "seam_like v se t req ov ctx \<longleftrightarrow> (\<forall>e. \<not> is_cancelled (world ctx) e) \<and> (\<forall>e. snd (turn_world.check_before_call (world ctx) e) = None)
     \<and> history ctx = seam_history req \<and> ctx_params ctx = seam_params req ov \<and> ctx_tenant ctx = t
     \<and> defs (ctx_tools ctx) = se_tools se \<and> ctx_budget ctx = turn_budget_from_env (sv_tokens_var v) (sv_rounds_var v)"

lemma seam_turn_any:
  fixes v :: "'e seam_env"
  assumes plain: "\<And>ctx st. seam_like v se t req ov (ctx :: 'e turn_ctx) \<Longrightarrow> Q (fst (run_turn ctx st)) (snd (snd (run_turn ctx st)))"
    and live: "\<And>ctx st. seam_like v se t req ov (ctx :: 'e harness_env turn_ctx) \<Longrightarrow> Q (fst (run_turn ctx st)) (snd (snd (run_turn ctx st)))"
    and run: "seam_turn v se t req sink ov env = ((evs, env', r), target)"
  shows "Q evs r"
proof (cases "se_source se")
  case (Prebuilt f)
  then show ?thesis
    using plain [of "seam_ctx v se t req sink ov f" env] run by (simp add: seam_turn_def seam_like_def del: run_turn_result)
next
  case (Per_Tenant reply)
  obtain h p m where h: "seam_harness v reply t ov env = (h, p, m)" by (cases "seam_harness v reply t ov env")
  show ?thesis
  proof (cases h)
    case (Stub_Harness r)
    then show ?thesis
      using plain [of "seam_ctx v se t req sink ov (\<lambda>env _. (env, stub_complete (script_text r)))" env] run
      by (simp add: seam_turn_def seam_like_def Per_Tenant h run_harness_def del: run_turn_result)
  next
    case (Live_Harness chain)
    let ?c = "harness_ctx (seam_dispatch v) (seam_ctx v se t req sink ov (\<lambda>env _. (env, Inl (Transport []))))"
    have "seam_like v se t req ov ?c" by (simp add: seam_like_def lift_guard_def)
    then show ?thesis
      using live [of ?c "harness_start env chain"] run
      by (auto simp: seam_turn_def Per_Tenant h run_harness_def Live_Harness simp del: run_turn_result split: prod.splits)
  qed
qed

lemma seam_like_answered:
  "seam_like v se t req ov ctx \<Longrightarrow> answered (fst (run_turn ctx st)) (snd (snd (run_turn ctx st)))"
  by (rule run_turn_answered) (simp_all add: seam_like_def)

text \<open>A request of a call: the tenant's, with the parameters asked for, the seam's tools or none, and the system
  prefix unchanged at its head.\<close>

definition seam_request :: "'e seam \<Rightarrow> uuid \<Rightarrow> wiki_req \<Rightarrow> recall_override \<Rightarrow> turn_event \<Rightarrow> bool" where
  "seam_request se t req ov e = (case e of
     Called r \<Rightarrow> dr_tenant r = t \<and> dr_params r = seam_params req ov \<and> (dr_tools r = [] \<or> dr_tools r = se_tools se)
       \<and> (case dr_messages r of [] \<Rightarrow> False | m # _ \<Rightarrow> m = plain_message System (wr_system req))
   | _ \<Rightarrow> True)"

lemma seam_like_requests:
  assumes "seam_like v se t req ov ctx"
  shows "list_all (seam_request se t req ov) (fst (run_turn ctx st))
    \<and> length (filter is_called (fst (run_turn ctx st)))
      \<le> unat (max_rounds (turn_budget_from_env (sv_tokens_var v) (sv_rounds_var v))) + 1"
proof
  have "seam_request se t req ov e" if e: "e \<in> set (fst (turn_loop ctx (initial_state ctx st)))" for e
  proof (cases e)
    case (Called r)
    obtain s where s: "r = turn_request ctx s" "prefix (seam_history req) (ls_messages s)"
      using turn_loop_requests [OF e [unfolded Called]] assms by (auto simp: initial_state_def seam_like_def)
    then obtain zs where zs: "ls_messages s = plain_message System (wr_system req) # zs"
      by (auto simp: seam_history_def prefix_def)
    obtain ms where "working_messages s = plain_message System (wr_system req) # ms"
      by (cases "exhausted (ls_budget s) \<and> \<not> ls_nudged s") (simp_all add: working_messages_def zs)
    moreover obtain ms' where "build_api_copy (plain_message System (wr_system req) # ms) = plain_message System (wr_system req) # ms'"
      using api_copy_keeps_system [of "plain_message System (wr_system req)" ms] by (auto simp: plain_message_def)
    ultimately show ?thesis
      using assms s by (simp add: seam_request_def Called turn_request_def seam_like_def)
  qed (simp_all add: seam_request_def)
  then show "list_all (seam_request se t req ov) (fst (run_turn ctx st))"
    by (auto simp: run_turn_events list_all_iff seam_request_def split: option.splits)
  have "rounds_left (ls_budget (initial_state ctx st)) \<le> unat (max_rounds (ctx_budget ctx))"
    by (simp add: initial_state_def rounds_left_def)
  then show "length (filter is_called (fst (run_turn ctx st)))
      \<le> unat (max_rounds (turn_budget_from_env (sv_tokens_var v) (sv_rounds_var v))) + 1"
    using turn_loop_calls [of ctx "initial_state ctx st"] assms
    by (simp add: run_turn_events prologue_inert seam_like_def)
qed

text \<open>
  Further: what a call of the engine sends. Every request of its turn is the tenant's, carries the answer length, format and
  effort asked for, begins with the system prefix as it was given and offers the tools of the seam or none; there are at
  most as many as the round budget and one.
\<close>

theorem seam_sends:
  "list_all (seam_request se t req ov) (fst (drive v se t req sink ov env))
   \<and> length (filter is_called (fst (drive v se t req sink ov env)))
      \<le> unat (max_rounds (turn_budget_from_env (sv_tokens_var v) (sv_rounds_var v))) + 1"
proof -
  obtain evs env' r target where run: "seam_turn v se t req sink ov env = ((evs, env', r), target)"
    by (metis prod.exhaust)
  show ?thesis
    unfolding drive_def run prod.case fst_conv
    by (rule seam_turn_any [where Q = "\<lambda>evs r. list_all (seam_request se t req ov) evs \<and> length (filter is_called evs)
          \<le> unat (max_rounds (turn_budget_from_env (sv_tokens_var v) (sv_rounds_var v))) + 1",
        OF seam_like_requests seam_like_requests run])
qed

text \<open>
  Further: the default budget. Without the two variables, or with values that are no numbers of their width, a call makes
  at most 33 provider calls.
\<close>

theorem default_budget:
  "unat (max_rounds (turn_budget_from_env None None)) = 32"
  "unat (max_rounds (turn_budget_from_env (Some (str ''1'')) (Some (str ''4294967296'')))) = 32"
  "unat (max_rounds (turn_budget_from_env None (Some (str ''+7'')))) = 7"
  by code_simp+

text \<open>
  Further: what a call of the engine answers. It is never cancelled nor refused for its cost: the answer is the last
  response of the turn, with the usage of all its responses, or the error of a provider.
\<close>

theorem seam_answers:
  "case drive v se t req sink ov env of (evs, _, r) \<Rightarrow> (case r of
     Inl e \<Rightarrow> \<exists>a. e = Llm_Provider (api_error_display a)
   | Inr w \<Rightarrow> ws_usage w = Some (usage_of evs) \<and> (\<exists>nr. Returned nr \<in> set evs \<and> ws_content w = the_or [] (nr_content nr)
       \<and> ws_truncated w = (nr_finish_reason nr = Length)))"
proof -
  obtain evs env' r target where run: "seam_turn v se t req sink ov env = ((evs, env', r), target)"
    by (metis prod.exhaust)
  have "answered evs r"
    by (rule seam_turn_any [where Q = answered, OF seam_like_answered seam_like_answered run])
  then show ?thesis
    by (auto simp: drive_def run answered_def split: sum.splits turn_result.splits)
qed

text \<open>
  Further: a call is billed once, if it answers. The live seam accrues exactly the usage of all responses of the turn,
  at the price of the model the turn began with; when the turn ends in an error nothing is accrued, whatever
  its earlier rounds used.
\<close>

theorem seam_bills:
  assumes "se_source se = Per_Tenant reply" "seam_harness v reply t ov env = (h, p, m)"
    and run: "run_harness v (seam_ctx v se t req sink ov) h env = (evs, env', r)"
  shows "fst (snd (drive v se t req sink ov env)) = (case snd (snd (drive v se t req sink ov env)) of
     Inr _ \<Rightarrow> sv_cost v (accrue_turn_cost (sv_cost_env v env') t p m (usage_of evs)) env' | Inl _ \<Rightarrow> env')"
proof -
  have turn: "seam_turn v se t req sink ov env = ((evs, env', r), Some (p, m))"
    using assms by (simp add: seam_turn_def)
  have "answered evs r" by (rule seam_turn_any [where Q = answered, OF seam_like_answered seam_like_answered turn])
  then show ?thesis
    by (auto simp: drive_def turn accrue_result_def answered_def split: sum.splits turn_result.splits)
qed

text \<open>Further: a scripted stream is bracketed, and its deltas say what the scripted answer says.\<close>

definition text_of :: "stream_event list \<Rightarrow> rstr" where
  "text_of evs = concat (map (\<lambda>e. case e of ContentBlockDelta (TextDelta t) \<Rightarrow> t | _ \<Rightarrow> []) evs)"

theorem stub_stream_faithful:
  "bracket_run False (events_of (stub_stream s)) = Some False
   \<and> (case stub_complete s of Inl e \<Rightarrow> stub_stream s = [Inl e] | Inr nr \<Rightarrow> text_of (events_of (stub_stream s)) = the_or [] (nr_content nr))"
  by (auto simp: stub_stream_def stub_complete_def stub_block_def text_of_def case_prod_unfold split: option.splits)

end
