(* ===== verification/Web_Tool.thy ===== *)
theory Web_Tool
  imports Ssrf Json Utf8
begin

text \<open>
  The live-internet tools (\<open>web_tool.rs\<close>): HTML to text, the parser of DuckDuckGo's result page, and the client
  behind \<open>web_fetch\<close> and \<open>web_search\<close>. Texts are lists of characters; \<open>to_ascii_lowercase\<close> keeps every offset,
  so slices of the text at offsets of its lower-cased copy are slices of lists. Parameters: the JSON and URL readers, the query parameters of a
  URL, the encoder of a query and the network, which answers a request with a status, a content type and the chunks of a body.
\<close>

section \<open>HTML to text\<close>

definition DEFAULT_MAX_CHARS :: nat where "DEFAULT_MAX_CHARS = 8000"
definition MAX_BODY_BYTES :: nat where "MAX_BODY_BYTES = 2 * 1024 * 1024"

text \<open>The end of the block that opens at \<open>start\<close> of the lower-cased text.\<close>

definition block_end :: "rstr \<Rightarrow> rstr \<Rightarrow> nat \<Rightarrow> nat" where
  "block_end tag lower start = (let close = str ''</'' @ tag @ str ''>'' in
     case find_str close (drop start lower) of Some r \<Rightarrow> start + r + length close | None \<Rightarrow> length lower)"

definition cut_block :: "rstr \<Rightarrow> nat \<Rightarrow> rstr \<Rightarrow> rstr" where
  "cut_block tag start s = take start s @ [32] @ drop (block_end tag (to_ascii_lowercase s) start) s"

lemma length_lower [simp]: "length (to_ascii_lowercase s) = length s"
  by (simp add: to_ascii_lowercase_def)

lemma lower_take_drop: "to_ascii_lowercase (take n s) = take n (to_ascii_lowercase s)"
  "to_ascii_lowercase (drop n s) = drop n (to_ascii_lowercase s)" "to_ascii_lowercase (a @ b) = to_ascii_lowercase a @ to_ascii_lowercase b"
  by (simp_all add: to_ascii_lowercase_def take_map drop_map)

lemma count_lower [simp]: "count_list (to_ascii_lowercase s) 60 = count_list s 60"
  by (induction s) (auto simp: to_ascii_lowercase_def to_ascii_lower_def)

lemma block_end_gt: "start < length lower \<Longrightarrow> start < block_end tag lower start"
  by (auto simp: block_end_def Let_def str_def split: option.splits)

lemma count_list_drop: "count_list (drop n xs) x \<le> count_list xs x"
  by (metis append_take_drop_id count_list_append le_add2)

lemma cut_block_count:
  assumes "find_str (60 # tag) (to_ascii_lowercase s) = Some start"
  shows "count_list (cut_block tag start s) 60 < count_list s 60"
proof -
  let ?e = "block_end tag (to_ascii_lowercase s) start"
  from assms obtain x y where xy: "to_ascii_lowercase s = x @ (60 # tag) @ y" "length x = start"
    by (auto dest: find_str_Some_split)
  then have "start < length (to_ascii_lowercase s)" by simp
  then have lt: "start < length s" and e: "start < ?e" using block_end_gt by auto
  have "to_ascii_lowercase s ! start = 60" using xy by (auto simp: nth_append)
  then have at: "s ! start = 60" using lt by (simp add: to_ascii_lowercase_def to_ascii_lower_def split: if_splits)
  have "drop ?e s = drop (?e - Suc start) (drop (Suc start) s)" using e by simp
  then have "count_list (drop ?e s) 60 \<le> count_list (drop (Suc start) s) 60" by (metis count_list_drop)
  moreover have "count_list s 60 = count_list (take start s) 60 + (1 + count_list (drop (Suc start) s) 60)"
    using count_list_append [of "take start s" "drop start s" 60] Cons_nth_drop_Suc [OF lt] at
    by (metis append_take_drop_id count_list.simps(2) add.commute)
  ultimately show ?thesis by (simp add: cut_block_def count_list_append)
qed

function strip_tag :: "rstr \<Rightarrow> rstr \<Rightarrow> rstr" where
  "strip_tag tag s = (case find_str (60 # tag) (to_ascii_lowercase s) of
     None \<Rightarrow> s | Some start \<Rightarrow> strip_tag tag (cut_block tag start s))"
  by pat_completeness auto
termination
  by (relation "measure (\<lambda>(tag, s). count_list s 60)") (auto dest: cut_block_count)

declare strip_tag.simps [simp del]

definition strip_blocks :: "rstr \<Rightarrow> rstr list \<Rightarrow> rstr" where
  "strip_blocks html tags = foldl (\<lambda>s tag. strip_tag tag s) html tags"

definition decode_entities :: "rstr \<Rightarrow> rstr" where
  "decode_entities s = foldl (\<lambda>s (a, b). replace s (str a) b) s
     [(''&nbsp;'', [32]), (''&lt;'', [60]), (''&gt;'', [62]), (''&quot;'', [34]), (''&#39;'', [39]), (''&apos;'', [39]), (''&amp;'', [38])]"

definition collapse_ws :: "rstr \<Rightarrow> rstr" where "collapse_ws s = join [32] (words s)"

text \<open>Tags become spaces; a \<open>>\<close> outside a tag is dropped.\<close>

fun drop_tags :: "bool \<Rightarrow> rstr \<Rightarrow> rstr" where
  "drop_tags in_tag [] = []"
| "drop_tags in_tag (c # s) = (if c = 60 then 32 # drop_tags True s else if c = 62 then drop_tags False s
     else if in_tag then drop_tags in_tag s else c # drop_tags in_tag s)"

definition BLOCK_TAGS :: "rstr list" where "BLOCK_TAGS = map str [''script'', ''style'', ''head'', ''noscript'']"

definition html_to_text :: "rstr \<Rightarrow> rstr" where
  "html_to_text html = collapse_ws (decode_entities (drop_tags False (strip_blocks html BLOCK_TAGS)))"

definition truncate_chars :: "rstr \<Rightarrow> nat \<Rightarrow> rstr" where
  "truncate_chars s n = (if length s \<le> n then s else take n s @ [8230])"

section \<open>The result page\<close>

record search_hit =
  sh_title :: rstr
  sh_url :: rstr
  sh_snippet :: rstr

definition attr_value :: "rstr \<Rightarrow> rstr \<Rightarrow> rstr option" where
  "attr_value tag name = (let pat = name @ [61, 34] in
     case find_str pat (to_ascii_lowercase tag) of None \<Rightarrow> None
     | Some i \<Rightarrow> (let rest = drop (i + length pat) tag in map_option (\<lambda>e. take e rest) (find_str [34] rest)))"

text \<open>The scanners walk over the rest of the page; \<open>rest\<close> is the text from the cursor on.\<close>

lemma find_str_room: "find_str p s = Some i \<Longrightarrow> i + length p \<le> length s"
  using find_str_Some_split by blast

function extract_anchors :: "rstr \<Rightarrow> rstr \<Rightarrow> (rstr \<times> rstr) list" where
  "extract_anchors marker rest = (case find_str (str ''<a '') (to_ascii_lowercase rest) of
     None \<Rightarrow> []
   | Some a \<Rightarrow> (let r = drop a rest in case find_str [62] r of
       None \<Rightarrow> []
     | Some g \<Rightarrow> (let tag = take (g + 1) r; inner = drop (g + 1) r;
           close = find_str (str ''</a>'') (to_ascii_lowercase inner);
           hit = (if contains (to_ascii_lowercase tag) marker
                  then (case attr_value tag (str ''href'') of Some h \<Rightarrow> [(h, case close of Some c \<Rightarrow> take c inner | None \<Rightarrow> [])] | None \<Rightarrow> [])
                  else [])
         in hit @ extract_anchors marker (case close of Some c \<Rightarrow> drop (c + 4) inner | None \<Rightarrow> inner))))"
  by pat_completeness auto
termination
  by (relation "measure (\<lambda>(marker, rest). length rest)")
    (auto dest!: find_str_room split: option.splits)

text \<open>The marker is a constant of the program, not empty.\<close>

function extract_class_texts :: "rstr \<Rightarrow> rstr \<Rightarrow> rstr list" where
  "extract_class_texts marker rest = (if marker = [] then [] else case find_str marker (to_ascii_lowercase rest) of
     None \<Rightarrow> []
   | Some a \<Rightarrow> (let r = drop a rest in case find_str [62] r of
       None \<Rightarrow> extract_class_texts marker (drop (length marker) r)
     | Some g \<Rightarrow> (let inner = drop (g + 1) r in case find_str (str ''</'') inner of
           None \<Rightarrow> extract_class_texts marker (drop (length marker) r)
         | Some c \<Rightarrow> take c inner # extract_class_texts marker (drop (c + 2) inner))))"
  by pat_completeness auto
termination
  by (relation "measure (\<lambda>(marker, rest). length rest)")
    (auto dest!: find_str_room intro!: diff_less simp flip: length_greater_0_conv)

declare extract_anchors.simps [simp del] extract_class_texts.simps [simp del]

text \<open>\<open>url_pairs\<close>: the query parameters of an address, decoded, if it parses.\<close>

definition ddg_unwrap :: "(rstr \<Rightarrow> (rstr \<times> rstr) list option) \<Rightarrow> rstr \<Rightarrow> rstr" where
  "ddg_unwrap url_pairs href = (let
       abs = (case strip_prefix_str href (str ''//'') of Some rest \<Rightarrow> str ''https://'' @ rest | None \<Rightarrow> href)
     in case Option.bind (url_pairs abs) (\<lambda>ps. find (\<lambda>(k, v). k = str ''uddg'') ps) of
       Some (_, v) \<Rightarrow> v
     | None \<Rightarrow> if starts_with href (str ''http'') then href else [])"

fun hits_of :: "(rstr \<Rightarrow> (rstr \<times> rstr) list option) \<Rightarrow> rstr list \<Rightarrow> (rstr \<times> rstr) list \<Rightarrow> search_hit list" where
  "hits_of url_pairs snippets [] = []"
| "hits_of url_pairs snippets ((href, title) # as) = (let
       url = ddg_unwrap url_pairs href;
       snippet = (case snippets of [] \<Rightarrow> [] | s # _ \<Rightarrow> html_to_text s)
     in (if url = [] then [] else [\<lparr>sh_title = html_to_text title, sh_url = url, sh_snippet = snippet\<rparr>])
        @ hits_of url_pairs (tl snippets) as)"

definition parse_ddg_results :: "(rstr \<Rightarrow> (rstr \<times> rstr) list option) \<Rightarrow> rstr \<Rightarrow> search_hit list" where
  "parse_ddg_results url_pairs html = hits_of url_pairs (extract_class_texts (str ''result__snippet'') html)
     (extract_anchors (str ''result__a'') html)"

section \<open>The client\<close>

datatype redirect = Redirect_Error | Redirect_Follow | Redirect_Stop

definition redirect_policy :: "(rstr \<Rightarrow> url option) \<Rightarrow> nat \<Rightarrow> rstr \<Rightarrow> redirect" where
  "redirect_policy url_parse previous target = (if 5 \<le> previous then Redirect_Error
     else case classify_url url_parse target of Inr _ \<Rightarrow> Redirect_Follow | Inl _ \<Rightarrow> Redirect_Stop)"

text \<open>The chunks of a body; \<open>Inl\<close> is a failed read.\<close>

fun capped_bytes :: "nat list \<Rightarrow> (rstr + nat list) list \<Rightarrow> rstr + nat list" where
  "capped_bytes buf [] = Inr buf"
| "capped_bytes buf (Inl e # cs) = Inl (str ''web read failed: '' @ e)"
| "capped_bytes buf (Inr c # cs) = (if MAX_BODY_BYTES < length buf + length c
     then Inr (buf @ take (MAX_BODY_BYTES - length buf) c) else capped_bytes (buf @ c) cs)"

definition read_capped :: "(rstr + nat list) list \<Rightarrow> rstr + rstr" where
  "read_capped chunks = map_sum id from_utf8_lossy (capped_bytes [] chunks)"

record http_answer =
  ha_status :: nat
  ha_ctype :: rstr
  ha_chunks :: "(rstr + nat list) list"

text \<open>The world of the client: the readers, the text of an address, the network from state to state.\<close>

record 'e web_client =
  wc_json :: "rstr \<Rightarrow> rstr + jvalue"
  wc_url :: "rstr \<Rightarrow> url option"
  wc_pairs :: "rstr \<Rightarrow> (rstr \<times> rstr) list option"
  wc_url_str :: "url \<Rightarrow> rstr"
  wc_query_url :: "rstr \<Rightarrow> rstr + rstr"
  wc_url_error :: "url_error \<Rightarrow> rstr"
  wc_get :: "'e \<Rightarrow> url \<Rightarrow> 'e \<times> (rstr + http_answer)"

text \<open>\<open>arg.trim()\<close> of a text argument, empty if there is none.\<close>

definition text_arg :: "jvalue \<Rightarrow> string \<Rightarrow> rstr" where "text_arg v k = trim (the_or [] (get_str v k))"

definition with_args :: "(rstr \<Rightarrow> rstr + jvalue) \<Rightarrow> string \<Rightarrow> rstr \<Rightarrow> 'e \<Rightarrow> (jvalue \<Rightarrow> 'e \<times> (rstr + rstr)) \<Rightarrow> 'e \<times> (rstr + rstr)" where
  "with_args rd tool args w f = (case rd args of
     Inl e \<Rightarrow> (w, Inl (str ''invalid '' @ str tool @ str '' arguments: '' @ e)) | Inr v \<Rightarrow> f v)"

definition max_chars_of :: "jvalue \<Rightarrow> nat" where
  "max_chars_of v = max 200 (min (case Option.bind (jget v (str ''max_chars'')) as_u64 of Some n \<Rightarrow> unat n | None \<Rightarrow> DEFAULT_MAX_CHARS) 20000)"

definition looks_html :: "rstr \<Rightarrow> rstr \<Rightarrow> bool" where
  "looks_html ctype body \<longleftrightarrow> contains ctype (str ''html'') \<or> (case trim_start body of [] \<Rightarrow> False | c # _ \<Rightarrow> c = 60)"

definition fetched_text :: "nat \<Rightarrow> http_answer \<Rightarrow> rstr \<Rightarrow> rstr" where
  "fetched_text n a body = truncate_chars (if looks_html (ha_ctype a) body then html_to_text body else collapse_ws body) n"

definition web_fetch :: "'e web_client \<Rightarrow> rstr \<Rightarrow> 'e \<Rightarrow> 'e \<times> (rstr + rstr)" where
  "web_fetch c args w = with_args (wc_json c) ''web_fetch'' args w (\<lambda>v. let raw = text_arg v ''url'' in
     if raw = [] then (w, Inl (str ''web_fetch requires a `url`''))
     else case classify_url (wc_url c) raw of
       Inl e \<Rightarrow> (w, Inl (wc_url_error c e))
     | Inr u \<Rightarrow> (case wc_get c w u of
         (w', Inl e) \<Rightarrow> (w', Inl (str ''web_fetch failed: '' @ e))
       | (w', Inr a) \<Rightarrow> (w', map_sum id (\<lambda>body. str ''Fetched '' @ wc_url_str c u @ str '' (HTTP '' @ show_nat (ha_status a) @ str ''):'' @ nl @ nl
             @ fetched_text (max_chars_of v) a body) (read_capped (ha_chunks a)))))"

definition hit_lines :: "nat \<Rightarrow> search_hit \<Rightarrow> rstr" where
  "hit_lines i h = nl @ str ''['' @ show_nat i @ str ''] '' @ truncate_chars (sh_title h) 200 @ nl @ str ''    '' @ sh_url h @ nl
     @ str ''    '' @ truncate_chars (sh_snippet h) 300 @ nl"

definition search_text :: "(rstr \<Rightarrow> (rstr \<times> rstr) list option) \<Rightarrow> rstr \<Rightarrow> rstr \<Rightarrow> rstr" where
  "search_text url_pairs query body = (let hits = parse_ddg_results url_pairs body in
     if hits = [] then str ''No structured results parsed for '' @ [34] @ query @ [34] @ str ''. Page text:'' @ nl @ truncate_chars (html_to_text body) 1500
     else str ''Top web results for '' @ [34] @ query @ [34] @ str '':'' @ nl @ concat (map (\<lambda>(i, h). hit_lines i h) (zip [1..<7] hits)))"

definition web_search :: "'e web_client \<Rightarrow> rstr \<Rightarrow> 'e \<Rightarrow> 'e \<times> (rstr + rstr)" where
  "web_search c args w = with_args (wc_json c) ''web_search'' args w (\<lambda>v. let query = text_arg v ''query'' in
     if query = [] then (w, Inl (str ''web_search requires a `query`''))
     else case wc_query_url c query of
       Inl e \<Rightarrow> (w, Inl e)
     | Inr address \<Rightarrow> (case classify_url (wc_url c) address of
         Inl e \<Rightarrow> (w, Inl (wc_url_error c e))
       | Inr u \<Rightarrow> (case wc_get c w u of
           (w', Inl e) \<Rightarrow> (w', Inl (str ''web_search failed: '' @ e))
         | (w', Inr a) \<Rightarrow> (w', map_sum id (search_text (wc_pairs c) query) (read_capped (ha_chunks a))))))"

section \<open>Blocks\<close>

lemma sublist_gap:
  assumes "sublist p (x @ [c] @ y)" "c \<notin> set p"
  shows "sublist p x \<or> sublist p y"
proof -
  have end': "suffix a x \<and> prefix b (c # y) \<and> p = a @ b \<Longrightarrow> sublist p x" for a b
    using assms(2) by (cases b) (auto simp: prefix_def suffix_imp_sublist)
  have "sublist p (c # y) \<Longrightarrow> sublist p y"
    using assms(2) by (auto simp: sublist_Cons_right prefix_Cons)
  then show ?thesis using assms(1) end' by (auto simp: sublist_append)
qed

lemma cut_block_keeps_absent:
  assumes "\<not> contains (to_ascii_lowercase s) p" "32 \<notin> set p"
  shows "\<not> contains (to_ascii_lowercase (cut_block tag n s)) p"
proof
  let ?l = "to_ascii_lowercase s"
  assume "contains (to_ascii_lowercase (cut_block tag n s)) p"
  then have "sublist p (take n ?l @ [32] @ drop (block_end tag ?l n) ?l)"
    by (simp add: contains_iff_sublist cut_block_def lower_take_drop) (simp add: to_ascii_lowercase_def to_ascii_lower_def drop_map)
  then have "sublist p (take n ?l) \<or> sublist p (drop (block_end tag ?l n) ?l)" using assms(2) by (rule sublist_gap)
  then show False
    using assms(1) sublist_take [of n ?l] sublist_drop [of "block_end tag ?l n" ?l]
    by (metis contains_iff_sublist sublist_order.order_trans)
qed

lemma strip_tag_removes: "\<not> contains (to_ascii_lowercase (strip_tag tag s)) (60 # tag)"
proof (induction tag s rule: strip_tag.induct)
  case (1 tag s)
  then show ?case
    by (subst strip_tag.simps) (auto simp: contains_def split: option.split)
qed

lemma strip_tag_keeps_absent:
  "\<not> contains (to_ascii_lowercase s) p \<Longrightarrow> 32 \<notin> set p \<Longrightarrow> \<not> contains (to_ascii_lowercase (strip_tag tag s)) p"
proof (induction tag s rule: strip_tag.induct)
  case (1 tag s)
  then show ?case
    using cut_block_keeps_absent [OF 1(2,3)] by (subst strip_tag.simps) (auto split: option.split)
qed

lemma strip_blocks_removes:
  "tag \<in> set tags \<Longrightarrow> 32 \<notin> set tag \<Longrightarrow> \<not> contains (to_ascii_lowercase (strip_blocks s tags)) (60 # tag)"
proof (induction tags arbitrary: s)
  case (Cons x xs)
  show ?case
  proof (cases "tag \<in> set xs")
    case True
    then show ?thesis using Cons by (simp add: strip_blocks_def)
  next
    case False
    have keep: "\<not> contains (to_ascii_lowercase s') (60 # tag) \<Longrightarrow> \<not> contains (to_ascii_lowercase (foldl (\<lambda>s tag. strip_tag tag s) s' ys)) (60 # tag)" for s' ys
      using Cons.prems(2) by (induction ys arbitrary: s') (auto simp: strip_tag_keeps_absent)
    show ?thesis using False Cons.prems strip_tag_removes [of x s] keep [of "strip_tag x s" xs] by (simp add: strip_blocks_def)
  qed
qed simp

text \<open>
  Further: no script is left. In the text of a page after the block pass no \<open><script\<close>, \<open><style\<close>, \<open><head\<close> or \<open><noscript\<close>
  begins, in any case and however the tags are nested or left open.
\<close>

theorem blocks_stripped:
  "list_all (\<lambda>tag. \<not> contains (to_ascii_lowercase (strip_blocks html BLOCK_TAGS)) (60 # tag)) BLOCK_TAGS"
  unfolding list_all_iff
  by (intro ballI strip_blocks_removes) (auto simp: BLOCK_TAGS_def str_def)

text \<open>
  Further: a page with a \<open><header>\<close> is lost. The block pass looks for \<open><head\<close>, which \<open><header>\<close> begins with, and for \<open></head>\<close>, which
  does not follow: everything from the header on is dropped.
\<close>

theorem header_swallows_page:
  "html_to_text (str ''<html><body><header>Blog</header><p>The text</p></body></html>'') = []"
  by code_simp

text \<open>
  Further: snippets are matched by position. A result without a snippet gets the snippet of the next one.
\<close>

definition shifted_page :: rstr where
  "shifted_page = (let q = [34] in str ''<a class='' @ q @ str ''result__a'' @ q @ str '' href='' @ q @ str ''http://a'' @ q @ str ''>A</a>''
     @ str ''<a class='' @ q @ str ''result__a'' @ q @ str '' href='' @ q @ str ''http://b'' @ q @ str ''>B</a>''
     @ str ''<a class='' @ q @ str ''result__snippet'' @ q @ str ''>about B</a>'')"

theorem snippets_shift:
  "map (\<lambda>h. (sh_url h, sh_snippet h)) (parse_ddg_results (\<lambda>_. None) shifted_page)
   = [(str ''http://a'', str ''about B''), (str ''http://b'', [])]"
  by code_simp

section \<open>The client, proved\<close>

lemma capped_bytes_prefix:
  "capped_bytes buf chunks = Inr b \<Longrightarrow> length buf \<le> MAX_BODY_BYTES \<Longrightarrow>
     length b \<le> MAX_BODY_BYTES \<and> (\<exists>cs. list_all2 (\<lambda>x c. x = Inr c) (take (length cs) chunks) cs \<and> prefix b (buf @ concat cs))"
proof (induction buf chunks rule: capped_bytes.induct)
  case (1 buf)
  then show ?case by (auto intro: exI [of _ "[]"])
next
  case (3 buf c cs)
  show ?case
  proof (cases "MAX_BODY_BYTES < length buf + length c")
    case True
    then have "b = buf @ take (MAX_BODY_BYTES - length buf) c" using 3(2) by simp
    then show ?thesis using 3(3) by (auto intro!: exI [of _ "[c]"] take_is_prefix)
  next
    case False
    then obtain ds where "length b \<le> MAX_BODY_BYTES" "list_all2 (\<lambda>x c. x = Inr c) (take (length ds) cs) ds" "prefix b ((buf @ c) @ concat ds)"
      using 3 by auto
    then show ?thesis by (auto intro!: exI [of _ "c # ds"])
  qed
qed simp

text \<open>
  Further: a body is capped. What is read of a page is at most two mebibytes and a beginning of its body.
\<close>

theorem body_capped:
  assumes "capped_bytes [] chunks = Inr b"
  shows "length b \<le> 2 * 1024 * 1024
    \<and> (\<exists>cs. list_all2 (\<lambda>x c. x = Inr c) (take (length cs) chunks) cs \<and> prefix b (concat cs))"
  using capped_bytes_prefix [OF assms] by (simp add: MAX_BODY_BYTES_def)

lemma truncate_chars_length: "length (truncate_chars s n) \<le> n + 1"
  by (simp add: truncate_chars_def)

text \<open>
  Further: what a fetch shows is bounded. Whatever the model asks for and the page holds, the text is at most 20,001 characters.
\<close>

theorem fetch_bounded: "length (fetched_text (max_chars_of v) a body) \<le> 20001"
proof -
  have "max_chars_of v \<le> 20000" by (simp add: max_chars_of_def)
  then show ?thesis using truncate_chars_length by (metis fetched_text_def add_le_mono1 le_trans numeral_plus_one semiring_norm(2,4,5,8))
qed

text \<open>
  Further: the tools reach checked addresses only. A call of either tool sends at most one request, and only to an address the
  egress check accepted, whatever the arguments and the model say.
\<close>

theorem web_guarded:
  "fst (web_fetch c args w) = w \<or> (\<exists>raw u. classify_url (wc_url c) raw = Inr u \<and> fst (web_fetch c args w) = fst (wc_get c w u))"
  "fst (web_search c args w) = w \<or> (\<exists>raw u. classify_url (wc_url c) raw = Inr u \<and> fst (web_search c args w) = fst (wc_get c w u))"
proof -
  show "fst (web_fetch c args w) = w \<or> (\<exists>raw u. classify_url (wc_url c) raw = Inr u \<and> fst (web_fetch c args w) = fst (wc_get c w u))"
    by (auto simp: web_fetch_def with_args_def Let_def split: sum.split prod.split) (metis fst_conv)+
  show "fst (web_search c args w) = w \<or> (\<exists>raw u. classify_url (wc_url c) raw = Inr u \<and> fst (web_search c args w) = fst (wc_get c w u))"
    by (auto simp: web_search_def with_args_def Let_def split: sum.split prod.split) (metis fst_conv)+
qed

end
