(* ===== verification/Recall_Tools.thy ===== *)
theory Recall_Tools
  imports Web_Tool Captures Index_Gen Turn
begin

text \<open>
  What the recall assistant can call: the search route (\<open>search-route\<close>), the search statements
  (\<open>store/search_repo.rs\<close>), the tool policy and \<open>recall_search\<close> (\<open>ideas/recall\<close>) and the executor of the
  tools (\<open>recall_tools.rs\<close>). Parameters (\<open>search_env\<close>): the full-text match of Postgres, its rank and similarity orders, its
  lower-casing, the text of ids, letters and digits of Unicode; of the file system the resolved path of a name.
  Errors of the database are not modelled. Additions of \<open>u64\<close> wrap, as in a release build.
\<close>

section \<open>The route of a pattern\<close>

datatype search_mode = Tsvector | Trigram | Like

definition is_cjk :: "rchar \<Rightarrow> bool" where
  "is_cjk c \<longleftrightarrow> 0x4E00 \<le> c \<and> c \<le> 0x9FFF \<or> 0x3040 \<le> c \<and> c \<le> 0x309F \<or> 0x30A0 \<le> c \<and> c \<le> 0x30FF \<or> 0xAC00 \<le> c \<and> c \<le> 0xD7AF"

definition route_search :: "rstr \<Rightarrow> search_mode" where
  "route_search q = (let n = length (filter is_cjk q); longest = foldr max (map length (words q)) 0 in
     if 2 \<le> n then Trigram else if n = 1 then Like else if 3 \<le> longest then Tsvector else Like)"

section \<open>The search statements\<close>

text \<open>\<open>LIKE\<close> with its default escape; a pattern that ends in the escape is an error, which a pattern between two
  percent signs never is.\<close>

function like_match :: "rstr \<Rightarrow> rstr \<Rightarrow> bool" where
  "like_match pat t = (case pat of
     [] \<Rightarrow> t = []
   | c # p \<Rightarrow> if c = 37 then like_match p t \<or> (if t = [] then False else like_match pat (tl t))
       else if c = 95 then t \<noteq> [] \<and> like_match p (tl t)
       else if c = 92 then (case p of [] \<Rightarrow> False | d # p' \<Rightarrow> t \<noteq> [] \<and> hd t = d \<and> like_match p' (tl t))
       else t \<noteq> [] \<and> hd t = c \<and> like_match p (tl t))"
  by pat_completeness auto
termination
  by (relation "measure (\<lambda>(p, t). length p + length t)") (auto simp: neq_Nil_conv)

declare like_match.simps [simp del]

record search_env =
  sx_match :: "rstr \<Rightarrow> rstr \<Rightarrow> bool"
  sx_rank :: "rstr \<Rightarrow> idea list \<Rightarrow> idea list"
  sx_similar :: "rstr \<Rightarrow> idea list \<Rightarrow> idea list"
  sx_lower :: "rstr \<Rightarrow> rstr"
  sx_hex :: "uuid \<Rightarrow> rstr"
  sx_alnum :: "rchar \<Rightarrow> bool"

definition ilike :: "search_env \<Rightarrow> rstr \<Rightarrow> rstr \<Rightarrow> bool" where
  "ilike sx q body = like_match (sx_lower sx ([37] @ q @ [37])) (sx_lower sx body)"

record raw_hit =
  rh_id :: uuid
  rh_body :: rstr
  rh_session :: "uuid option"
  rh_kind :: rstr

definition idea_hit :: "idea \<Rightarrow> raw_hit" where
  "idea_hit x = \<lparr>rh_id = i_id x, rh_body = i_body x, rh_session = None, rh_kind = str ''idea''\<rparr>"

definition mode_match :: "search_env \<Rightarrow> search_mode \<Rightarrow> rstr \<Rightarrow> idea \<Rightarrow> bool" where
  "mode_match sx mode q x = (case mode of Tsvector \<Rightarrow> sx_match sx (i_body x) q | _ \<Rightarrow> ilike sx q (i_body x))"

definition mode_order :: "search_env \<Rightarrow> search_mode \<Rightarrow> rstr \<Rightarrow> idea list \<Rightarrow> idea list" where
  "mode_order sx mode q xs = (case mode of Tsvector \<Rightarrow> sx_rank sx q xs | Trigram \<Rightarrow> sx_similar sx q xs | Like \<Rightarrow> xs)"

definition search_ideas :: "search_env \<Rightarrow> uuid \<Rightarrow> rstr \<Rightarrow> search_mode \<Rightarrow> nat \<Rightarrow> store \<Rightarrow> raw_hit list" where
  "search_ideas sx t q mode limit s = map idea_hit (take limit (mode_order sx mode q
     (filter (\<lambda>x. i_tenant x = t \<and> i_active x \<and> mode_match sx mode q x) (ideas s))))"

section \<open>The tools offered\<close>

definition arg_schema :: "string \<Rightarrow> string \<Rightarrow> string \<times> jvalue" where
  "arg_schema ty desc = (''p'', json_obj [(''type'', JString (str ty)), (''description'', JString (str desc))])"

definition object_schema :: "(string \<times> jvalue) list \<Rightarrow> string list \<Rightarrow> jvalue" where
  "object_schema props required = json_obj [(''type'', JString (str ''object'')), (''properties'', json_obj props),
     (''required'', JArray (map (\<lambda>k. JString (str k)) required))]"

definition plain_tool :: "string \<Rightarrow> rstr \<Rightarrow> tool_def" where
  "plain_tool name desc = \<lparr>td_name = str name, td_description = desc, input_schema = object_schema [] []\<rparr>"

definition recall_search_tool :: tool_def where
  "recall_search_tool = \<lparr>td_name = str ''recall_search'',
     td_description = str (''Search the user'' @ [CHR 0x27] @ ''s captures, transcripts, and wiki for a pattern YOU choose. Modes are inferred from args: a bare slug '')
       @ [8594] @ str '' browse recent; a free pattern '' @ [8594] @ str ('' discovery (returns bookended hits: the goal + the conclusion of each result'' @ [CHR 0x27] @ ''s lineage with an anchored window); a match id + direction '')
       @ [8594] @ str '' scroll. Returns a conservative file:line citation.'',
     input_schema = object_schema
       [(''pattern'', snd (arg_schema ''string'' ''Your search pattern (passed through verbatim).'')),
        (''mode'', json_obj [(''type'', JString (str ''string'')),
           (''enum'', JArray (map (\<lambda>k. JString (str k)) [''browse'', ''discovery'', ''scroll'']))])] [''pattern'']\<rparr>"

definition read_page_tool :: tool_def where
  "read_page_tool = \<lparr>td_name = str ''read_page'', td_description = str ''Read a whole wiki page by its slug (realpath-guarded, .md only).'',
     input_schema = object_schema [(''slug'', snd (arg_schema ''string''
        (''The wiki page slug, e.g. '' @ [CHR 0x22] @ ''rust'' @ [CHR 0x22] @ '' or '' @ [CHR 0x22] @ ''postgres-migrations'' @ [CHR 0x22] @ ''.'')))] [''slug'']\<rparr>"

definition read_lines_tool :: tool_def where
  "read_lines_tool = \<lparr>td_name = str ''read_lines'',
     td_description = str ''Read a line window [start, end] (1-based, inclusive) of a wiki page by slug.'',
     input_schema = object_schema [(''slug'', snd (arg_schema ''string'' ''The wiki page slug.'')),
        (''start'', snd (arg_schema ''integer'' ''First line to read (1-based).'')),
        (''end'', snd (arg_schema ''integer'' ''Last line to read (inclusive).''))] [''slug'']\<rparr>"

definition web_search_tool :: tool_def where
  "web_search_tool = \<lparr>td_name = str ''web_search'',
     td_description = str ''Search the public web for a query. Returns the top results as title '' @ [8212] @ str '' URL '' @ [8212]
       @ str '' snippet. Use it for current events, recent facts, or to find a page to web_fetch.'',
     input_schema = object_schema [(''query'', snd (arg_schema ''string'' ''What to search the web for.''))] [''query'']\<rparr>"

definition web_fetch_tool :: tool_def where
  "web_fetch_tool = \<lparr>td_name = str ''web_fetch'',
     td_description = str ''Fetch a public web page by URL and return its readable text. http/https only; private, loopback, and link-local hosts are blocked. Use it to read a page the user names or a result from web_search.'',
     input_schema = object_schema [(''url'', snd (arg_schema ''string'' ''The absolute http(s) URL to fetch.'')),
        (''max_chars'', snd (arg_schema ''integer'' ''Optional cap on returned characters.''))] [''url'']\<rparr>"

record tool_policy =
  tp_tools :: "tool_def list"
  tp_network_off :: bool
  tp_root_confined :: bool
  tp_allow_propose :: bool

definition build_tool_policy :: "bool \<Rightarrow> bool \<Rightarrow> tool_policy" where
  "build_tool_policy allow_propose allow_web = \<lparr>tp_tools = [recall_search_tool, read_page_tool, read_lines_tool]
       @ (if allow_web then [web_search_tool, web_fetch_tool] else [])
       @ (if allow_propose then [plain_tool ''propose_edit'' (str ''Propose an edit to a page (routed through candidates'' @ [8594] @ str ''confirm).''),
            plain_tool ''propose_write'' (str ''Propose a new page (routed through candidates'' @ [8594] @ str ''confirm).'')] else []),
     tp_network_off = (\<not> allow_web), tp_root_confined = True, tp_allow_propose = allow_propose\<rparr>"

section \<open>\<open>recall_search\<close>\<close>

datatype recall_mode = Browse | Discovery | Scroll

definition infer_mode :: "search_env \<Rightarrow> rstr \<Rightarrow> bool \<Rightarrow> recall_mode" where
  "infer_mode sx q direction = (if direction \<or> starts_with q (str ''hit-'') then Scroll
     else if 32 \<notin> set q \<and> q \<noteq> [] \<and> list_all (\<lambda>c. sx_alnum sx c \<or> c = 45 \<or> c = 95) q then Browse else Discovery)"

record recall_args =
  ra_pattern :: rstr
  ra_mode :: recall_mode
  ra_session :: "uuid option"

record citation =
  ci_path :: rstr
  ci_start :: nat
  ci_end :: nat

definition safe_citation :: "rstr \<Rightarrow> nat \<Rightarrow> citation option" where
  "safe_citation rel line = (if 47 \<in> set rel \<or> contains rel (str ''..'') then None
     else Some \<lparr>ci_path = rel, ci_start = line, ci_end = line\<rparr>)"

definition bookends :: "rstr \<Rightarrow> rstr option \<times> rstr option" where
  "bookends body = (let ls = filter (\<lambda>l. l \<noteq> []) (map trim (lines body)) in
     if ls = [] then (None, None) else (Some (hd ls), Some (last ls)))"

record recall_hit =
  hr_id :: uuid
  hr_window :: rstr
  hr_goal :: "rstr option"
  hr_conclusion :: "rstr option"
  hr_citation :: "citation option"

definition bookended :: "search_env \<Rightarrow> raw_hit \<Rightarrow> recall_hit" where
  "bookended sx r = \<lparr>hr_id = rh_id r, hr_window = rh_body r, hr_goal = fst (bookends (rh_body r)), hr_conclusion = snd (bookends (rh_body r)),
     hr_citation = safe_citation (sx_hex sx (rh_id r) @ str ''.md'') 0\<rparr>"

fun collapse :: "search_env \<Rightarrow> uuid option \<Rightarrow> uuid list \<Rightarrow> raw_hit list \<Rightarrow> recall_hit list" where
  "collapse sx cur seen [] = []"
| "collapse sx cur seen (r # rs) = (if cur \<noteq> None \<and> rh_session r = cur then collapse sx cur seen rs
     else if rh_id r \<in> set seen then collapse sx cur seen rs
     else bookended sx r # collapse sx cur (rh_id r # seen) rs)"

definition run_recall_search :: "search_env \<Rightarrow> uuid \<Rightarrow> recall_args \<Rightarrow> store \<Rightarrow> search_mode \<times> recall_hit list" where
  "run_recall_search sx t args s = (let mode = route_search (ra_pattern args) in
     (mode, collapse sx (ra_session args) [] (search_ideas sx t (ra_pattern args) mode 50 s)))"

section \<open>The executor\<close>

text \<open>The files a tool can reach: the vault root, the resolved path of a name, the text behind a path.\<close>

record tool_files =
  tf_root :: rstr
  tf_real :: "rstr \<Rightarrow> rstr option"
  tf_read :: "rstr \<Rightarrow> rstr option"

definition path_join :: "rstr \<Rightarrow> rstr \<Rightarrow> rstr" where
  "path_join root rel = (if starts_with rel [47] then rel else root @ [47] @ rel)"

definition under_root :: "tool_files \<Rightarrow> rstr \<Rightarrow> bool" where
  "under_root fs p = (case (tf_real fs (tf_root fs), tf_real fs p) of
     (Some r, Some q) \<Rightarrow> q = r \<or> starts_with q (r @ [47]) | _ \<Rightarrow> False)"

definition page_candidates :: "rstr \<Rightarrow> rstr \<Rightarrow> rstr list" where
  "page_candidates root slug = map (path_join root) [slug @ str ''.md'', str ''entities/'' @ slug @ str ''.md'',
     str ''concepts/'' @ slug @ str ''.md'', str ''sources/'' @ slug @ str ''.md'']"

definition resolve_page :: "tool_files \<Rightarrow> rstr \<Rightarrow> rstr option" where
  "resolve_page fs slug = (if contains slug (str ''..'') then None
     else case List.map_filter (\<lambda>c. if under_root fs c then Option.bind (tf_real fs c) (tf_read fs) else None) (page_candidates (tf_root fs) slug) of
       [] \<Rightarrow> None | b # _ \<Rightarrow> Some b)"

definition mode_text :: "search_mode \<Rightarrow> rstr" where
  "mode_text m = (case m of Tsvector \<Rightarrow> str ''Tsvector'' | Trigram \<Rightarrow> str ''Trigram'' | Like \<Rightarrow> str ''Like'')"

definition hit_text :: "nat \<Rightarrow> recall_hit \<Rightarrow> rstr" where
  "hit_text i h = nl @ str ''['' @ show_nat i @ str ''] ''
     @ (case hr_citation h of Some c \<Rightarrow> ci_path c @ str '':'' @ show_nat (ci_start c) | None \<Rightarrow> str ''(no citation)'') @ nl
     @ (case hr_goal h of Some g \<Rightarrow> str ''  goal: '' @ truncate_chars g 200 @ nl | None \<Rightarrow> [])
     @ (case hr_conclusion h of Some g \<Rightarrow> str ''  conclusion: '' @ truncate_chars g 200 @ nl | None \<Rightarrow> [])
     @ str ''  window: '' @ truncate_chars (hr_window h) 600 @ nl"

definition search_answer :: "rstr \<Rightarrow> search_mode \<times> recall_hit list \<Rightarrow> rstr" where
  "search_answer q r = (case r of (mode, hits) \<Rightarrow>
     if hits = [] then str ''No results found for '' @ [34] @ q @ [34] @ str '' (mode: '' @ mode_text mode @ str '').''
     else str ''Found '' @ show_nat (length hits) @ str '' result(s) for '' @ [34] @ q @ [34] @ str '' (mode: '' @ mode_text mode @ str ''):'' @ nl
       @ concat (map (\<lambda>(i, h). hit_text i h) (zip [1..<11] hits)))"

text \<open>The world of the tools: what they read of the state, and the web client if there is one.\<close>

record 'e recall_exec =
  rx_search :: search_env
  rx_store :: "'e \<Rightarrow> store"
  rx_files :: "'e \<Rightarrow> tool_files"
  rx_json :: "rstr \<Rightarrow> rstr + jvalue"
  rx_session :: "uuid option"
  rx_web :: "'e web_client option"

definition exec_recall_search :: "'e recall_exec \<Rightarrow> uuid \<Rightarrow> rstr \<Rightarrow> 'e \<Rightarrow> 'e \<times> (rstr + rstr)" where
  "exec_recall_search x t args w = with_args (rx_json x) ''recall_search'' args w (\<lambda>v. let q = text_arg v ''pattern'' in
     if q = [] then (w, Inl (str ''recall_search requires a non-empty `pattern`''))
     else (w, Inr (search_answer q (run_recall_search (rx_search x) t
        \<lparr>ra_pattern = q, ra_mode = infer_mode (rx_search x) q False, ra_session = rx_session x\<rparr> (rx_store x w)))))"

definition not_found :: "rstr \<Rightarrow> rstr" where "not_found slug = str ''page not found: '' @ slug"

definition exec_read_page :: "'e recall_exec \<Rightarrow> rstr \<Rightarrow> 'e \<Rightarrow> 'e \<times> (rstr + rstr)" where
  "exec_read_page x args w = with_args (rx_json x) ''read_page'' args w (\<lambda>v. let slug = text_arg v ''slug'' in
     if slug = [] then (w, Inl (str ''read_page requires a `slug`''))
     else (w, Inr (case resolve_page (rx_files x w) slug of Some body \<Rightarrow> truncate_chars body 8000 | None \<Rightarrow> not_found slug)))"

definition line_window :: "u64 \<Rightarrow> u64 \<Rightarrow> rstr \<Rightarrow> rstr" where
  "line_window start end' body = (let w = map (\<lambda>(i, l). show_nat (i + 1) @ str '': '' @ l)
       (filter (\<lambda>(i, l). unat start \<le> i + 1 \<and> i < unat end') (zip [0..<length (lines body)] (lines body)))
     in if w = [] then str ''(no lines in range)'' else join nl w)"

definition window_args :: "jvalue \<Rightarrow> u64 \<times> u64" where
  "window_args v = (let start = max (the_or 1 (Option.bind (jget v (str ''start'')) as_u64)) 1 in
     (start, the_or (start + 40) (Option.bind (jget v (str ''end'')) as_u64)))"

definition exec_read_lines :: "'e recall_exec \<Rightarrow> rstr \<Rightarrow> 'e \<Rightarrow> 'e \<times> (rstr + rstr)" where
  "exec_read_lines x args w = with_args (rx_json x) ''read_lines'' args w (\<lambda>v. let slug = text_arg v ''slug'' in
     if slug = [] then (w, Inl (str ''read_lines requires a `slug`''))
     else (w, Inr (case resolve_page (rx_files x w) slug of
       Some body \<Rightarrow> (case window_args v of (s, e) \<Rightarrow> line_window s e body) | None \<Rightarrow> not_found slug)))"

definition recall_tool_exec :: "'e recall_exec \<Rightarrow> uuid \<Rightarrow> 'e tool_exec" where
  "recall_tool_exec x t w name args = (
     if name = str ''recall_search'' then exec_recall_search x t args w
     else if name = str ''read_page'' then exec_read_page x args w
     else if name = str ''read_lines'' then exec_read_lines x args w
     else if name = str ''web_fetch'' then (case rx_web x of
         Some c \<Rightarrow> web_fetch c args w | None \<Rightarrow> (w, Inl (str ''web_fetch is disabled (no internet access in this context)'')))
     else if name = str ''web_search'' then (case rx_web x of
         Some c \<Rightarrow> web_search c args w | None \<Rightarrow> (w, Inl (str ''web_search is disabled (no internet access in this context)'')))
     else (w, Inl (str ''unknown recall tool: '' @ name)))"

section \<open>Patterns\<close>

lemma like_any: "like_match [37] t"
proof (induction t)
  case (Cons c t)
  then show ?case by (subst like_match.simps) simp
qed (simp add: like_match.simps)

definition literal_text :: "rstr \<Rightarrow> bool" where "literal_text q \<longleftrightarrow> 37 \<notin> set q \<and> 95 \<notin> set q \<and> 92 \<notin> set q"

lemma like_prefix: "literal_text q \<Longrightarrow> like_match (q @ [37]) t \<longleftrightarrow> prefix q t"
proof (induction q arbitrary: t)
  case Nil
  then show ?case by (simp add: like_any)
next
  case (Cons c q)
  then show ?case
    by (subst append_Cons, subst like_match.simps) (cases t; auto simp: literal_text_def)
qed

lemma like_contains: "literal_text q \<Longrightarrow> like_match (37 # q @ [37]) t \<longleftrightarrow> contains t q"
proof (induction t)
  case Nil
  then show ?case
    by (subst like_match.simps) (auto simp: like_prefix contains_iff_sublist)
next
  case (Cons c t)
  then show ?case
    by (subst like_match.simps) (auto simp: like_prefix contains_iff_sublist sublist_Cons_right)
qed

text \<open>
  Further: a literal pattern is a substring test. Without the characters percent, underscore and backslash, the short
  and the CJK route find exactly the captures whose text contains the pattern, in any case.
\<close>

theorem ilike_substring:
  assumes "sx_lower sx ([37] @ q @ [37]) = [37] @ sx_lower sx q @ [37]" "literal_text (sx_lower sx q)"
  shows "ilike sx q body \<longleftrightarrow> contains (sx_lower sx body) (sx_lower sx q)"
  using like_contains [OF assms(2)] assms(1) by (simp add: ilike_def)

text \<open>
  Further: a pattern is not quoted. The pattern percent finds every capture, and so does an underscore every
  capture with a text, whatever they say.
\<close>

lemma like_percent: "like_match p t \<Longrightarrow> like_match (37 # p) t"
  by (subst like_match.simps) simp

lemma like_one: "t \<noteq> [] \<Longrightarrow> like_match [95, 37] t"
  by (subst like_match.simps) (simp add: like_any)

theorem wildcards_unquoted:
  assumes "sx_lower sx = map to_ascii_lower"
  shows "ilike sx [37] body" "body \<noteq> [] \<Longrightarrow> ilike sx [95] body"
  using assms by (simp_all add: ilike_def to_ascii_lower_def like_percent like_any like_one)

section \<open>The search, proved\<close>

lemma collapse_subset: "h \<in> set (collapse sx cur seen rs) \<Longrightarrow> \<exists>r\<in>set rs. h = bookended sx r"
  by (induction sx cur seen rs rule: collapse.induct) (auto split: if_splits)

lemma collapse_length: "length (collapse sx cur seen rs) \<le> length rs"
  by (induction sx cur seen rs rule: collapse.induct) auto

lemma bookended_id [simp]: "hr_id (bookended sx r) = rh_id r" "hr_window (bookended sx r) = rh_body r"
  by (simp_all add: bookended_def)

lemma collapse_distinct: "distinct (map hr_id (collapse sx cur seen rs)) \<and> set seen \<inter> hr_id ` set (collapse sx cur seen rs) = {}"
proof (induction sx cur seen rs rule: collapse.induct)
  case (2 sx cur seen r rs)
  then show ?case by (cases "cur \<noteq> None \<and> rh_session r = cur"; cases "rh_id r \<in> set seen") auto
qed simp

lemma collapse_all: "list_all (\<lambda>r. rh_session r = None) rs \<Longrightarrow> hr_id ` set (collapse sx cur seen rs) = rh_id ` set rs - set seen"
proof (induction sx cur seen rs rule: collapse.induct)
  case (2 sx cur seen r rs)
  then have r: "rh_session r = None" and rs: "list_all (\<lambda>r. rh_session r = None) rs" by simp_all
  then have live: "\<not> (cur \<noteq> None \<and> rh_session r = cur)" by auto
  show ?case
  proof (cases "rh_id r \<in> set seen")
    case True
    then show ?thesis using 2(2) [OF live True rs] live by (simp add: insert_Diff_if)
  next
    case False
    then show ?thesis using 2(3) [OF live False rs] live by auto
  qed
qed simp

lemma mode_order_set:
  assumes "\<And>q xs. mset (sx_rank sx q xs) = mset xs" "\<And>q xs. mset (sx_similar sx q xs) = mset xs"
  shows "mset (mode_order sx mode q xs) = mset xs"
  using assms by (simp add: mode_order_def split: search_mode.split)

text \<open>
  Further: what a search returns. At most fifty hits with distinct ids, each the whole body of a live capture of the tenant that
  matches the pattern on its route; and if at most fifty match, all of them.
\<close>

theorem search_exact:
  assumes "\<And>q xs. mset (sx_rank sx q xs) = mset xs" "\<And>q xs. mset (sx_similar sx q xs) = mset xs"
    and run: "run_recall_search sx t args s = (mode, hits)"
  shows "mode = route_search (ra_pattern args) \<and> length hits \<le> 50 \<and> distinct (map hr_id hits)
    \<and> (\<forall>h\<in>set hits. \<exists>x\<in>set (ideas s). i_tenant x = t \<and> i_active x \<and> mode_match sx mode (ra_pattern args) x
         \<and> hr_id h = i_id x \<and> hr_window h = i_body x)
    \<and> (let found = filter (\<lambda>x. i_tenant x = t \<and> i_active x \<and> mode_match sx mode (ra_pattern args) x) (ideas s)
       in length found \<le> 50 \<longrightarrow> hr_id ` set hits = i_id ` set found)"
proof -
  let ?q = "ra_pattern args" and ?mode = "route_search (ra_pattern args)"
  let ?found = "filter (\<lambda>x. i_tenant x = t \<and> i_active x \<and> mode_match sx ?mode ?q x) (ideas s)"
  let ?rows = "search_ideas sx t ?q ?mode 50 s"
  have m: "mode = ?mode" and hits: "hits = collapse sx (ra_session args) [] ?rows"
    using run by (auto simp: run_recall_search_def Let_def)
  have ms: "mset (mode_order sx ?mode ?q ?found) = mset ?found" by (rule mode_order_set [OF assms(1,2)])
  then have st: "set (mode_order sx ?mode ?q ?found) = set ?found" and ln: "length (mode_order sx ?mode ?q ?found) = length ?found"
    using mset_eq_setD [OF ms] mset_eq_length [OF ms] by simp_all
  have rows: "r \<in> set ?rows \<Longrightarrow> \<exists>x\<in>set ?found. r = idea_hit x" for r
    using st by (auto simp: search_ideas_def dest: in_set_takeD)
  have all: "hr_id ` set hits = rh_id ` set ?rows"
  proof -
    have "list_all (\<lambda>r. rh_session r = None) ?rows" by (auto simp: search_ideas_def list_all_iff idea_hit_def)
    from collapse_all [OF this, of sx "ra_session args" "[]"] show ?thesis by (simp add: hits)
  qed
  have "length ?found \<le> 50 \<Longrightarrow> hr_id ` set hits = i_id ` set ?found"
    using st ln by (simp add: all search_ideas_def image_image idea_hit_def)
  moreover have "length hits \<le> 50"
    using collapse_length [of sx "ra_session args" "[]" ?rows] by (simp add: hits search_ideas_def)
  moreover have "distinct (map hr_id hits)" using collapse_distinct by (simp add: hits)
  moreover have "\<forall>h\<in>set hits. \<exists>x\<in>set (ideas s). i_tenant x = t \<and> i_active x \<and> mode_match sx ?mode ?q x \<and> hr_id h = i_id x \<and> hr_window h = i_body x"
    using collapse_subset rows by (fastforce simp: hits idea_hit_def)
  ultimately show ?thesis unfolding m Let_def by blast
qed

text \<open>
  Further: the mode has no effect. The tool describes three modes; the search is the same in all of them.
\<close>

theorem mode_ignored: "run_recall_search sx t (args\<lparr>ra_mode := m\<rparr>) s = run_recall_search sx t args s"
  by (simp add: run_recall_search_def)

section \<open>The files, proved\<close>

lemma in_map_filter: "y \<in> set (List.map_filter f xs) \<Longrightarrow> \<exists>x\<in>set xs. f x = Some y"
  by (induction xs) (auto simp: List.map_filter_simps split: option.splits)

lemma resolve_page_Some:
  assumes "resolve_page fs slug = Some b"
  obtains c r q where "tf_real fs (tf_root fs) = Some r" "tf_real fs c = Some q" "q = r \<or> starts_with q (r @ [47])" "tf_read fs q = Some b"
proof -
  let ?f = "\<lambda>c. if under_root fs c then Option.bind (tf_real fs c) (tf_read fs) else None"
  obtain bs where "List.map_filter ?f (page_candidates (tf_root fs) slug) = b # bs"
    using assms by (auto simp: resolve_page_def split: if_splits list.splits)
  then have "b \<in> set (List.map_filter ?f (page_candidates (tf_root fs) slug))" by simp
  from in_map_filter [OF this] obtain c where "?f c = Some b" by blast
  then obtain q where "under_root fs c" "tf_real fs c = Some q" "tf_read fs q = Some b"
    by (auto simp: bind_eq_Some_conv split: if_splits)
  then show thesis using that by (auto simp: under_root_def split: option.splits)
qed

text \<open>
  Further: reads are confined. Whatever slug the model gives, what a page read shows is the beginning of a file whose resolved
  path is under the resolved vault root, or the message that there is no such page.
\<close>

theorem read_confined:
  assumes "exec_read_page x args w = (w', Inr out)"
  shows "w' = w \<and> ((\<exists>slug. out = not_found slug) \<or> (\<exists>c r q b. tf_real (rx_files x w) (tf_root (rx_files x w)) = Some r
     \<and> tf_real (rx_files x w) c = Some q \<and> (q = r \<or> starts_with q (r @ [47])) \<and> tf_read (rx_files x w) q = Some b
     \<and> out = truncate_chars b 8000))"
  using assms
  by (auto simp: exec_read_page_def with_args_def Let_def split: sum.splits if_splits option.splits elim!: resolve_page_Some) blast+

text \<open>The files of a vault, with every stored path its own resolved path.\<close>

definition vault_files :: "rstr \<Rightarrow> wiki \<Rightarrow> tool_files" where
  "vault_files root v = \<lparr>tf_root = root, tf_real = (\<lambda>p. if p = root \<or> files v p \<noteq> None then Some p else None), tf_read = files v\<rparr>"

lemma map_filter_first:
  "f c = Some b \<Longrightarrow> list_all (\<lambda>x. f x = None) as \<Longrightarrow> List.map_filter f (as @ c # bs) = b # List.map_filter f bs"
  by (induction as) (auto simp: List.map_filter_simps)

definition candidate_text :: "tool_files \<Rightarrow> rstr \<Rightarrow> rstr option" where
  "candidate_text fs c = (if under_root fs c then Option.bind (tf_real fs c) (tf_read fs) else None)"

lemma resolve_page_first:
  assumes "\<not> contains slug (str ''..'')" "page_candidates (tf_root fs) slug = as @ c # bs"
    and "candidate_text fs c = Some b" "list_all (\<lambda>x. candidate_text fs x = None) as"
  shows "resolve_page fs slug = Some b"
  using map_filter_first [OF assms(3,4)] assms(1,2)
  by (simp add: resolve_page_def candidate_text_def [abs_def])

text \<open>
  Further: a written page can be read. After a successful write the tool shows the sanitised text for the page's
  slug, unless a file at an earlier place of the search order has the same name.
\<close>

theorem page_readable:
  assumes w: "write_page env j w s = (Inr i, s')" and slug: "\<not> starts_with (w_slug w) [47]" "\<not> contains (w_slug w) (str ''..'')"
    and first: "page_candidates (ge_root env) (w_slug w) = as @ gate_path env w # bs" "list_all (\<lambda>c. files s' c = None \<and> c \<noteq> ge_root env) as"
  shows "resolve_page (vault_files (ge_root env) s') (w_slug w) = Some (sanitize_links (w_body w))"
  using w
proof (cases rule: write_page_cases)
  case (written k s2)
  have body: "files s' (gate_path env w) = Some (sanitize_links (w_body w))"
    using upsert_frame [OF written(3)] written(4) by simp
  let ?fs = "vault_files (ge_root env) s'"
  have "gate_path env w = ge_root env @ [47] @ rel_path (w_type w) (w_slug w)"
    by (simp add: gate_path_def str_eval)
  then have hit: "candidate_text ?fs (gate_path env w) = Some (sanitize_links (w_body w))"
    using body by (simp add: candidate_text_def vault_files_def under_root_def starts_with_def)
  have "list_all (\<lambda>c. candidate_text ?fs c = None) as"
    using first(2) by (auto simp: candidate_text_def vault_files_def list_all_iff under_root_def)
  then show ?thesis
    by (intro resolve_page_first [OF slug(2) _ hit]) (simp_all add: vault_files_def first(1))
qed auto

text \<open>
  Further: a deleted page can still be read. Deleting a capture, and with it the pages it is the only source of, leaves
  their files: the tools show the same text as before, to a model that has the slug.
\<close>

theorem deleted_page_read:
  assumes "delete_capture rq dev i s = (r, s')"
  shows "resolve_page (vault_files root (Captures.vault s')) slug = resolve_page (vault_files root (Captures.vault s)) slug"
proof -
  have "files (Captures.vault s') = files (Captures.vault s)"
    using assms by (auto simp: delete_capture_def Let_def split: if_splits option.splits)
  then show ?thesis by (simp add: vault_files_def)
qed

text \<open>
  Further: the tools only read. A call of a recall tool leaves the world as it is or has sent one request to an address the egress
  check accepted.
\<close>

theorem recall_tools_read_only:
  "fst (recall_tool_exec x t w name args) = w
   \<or> (\<exists>c raw u. rx_web x = Some c \<and> classify_url (wc_url c) raw = Inr u \<and> fst (recall_tool_exec x t w name args) = fst (wc_get c w u))"
proof -
  have inert: "fst (exec_recall_search x t args w) = w" "fst (exec_read_page x args w) = w" "fst (exec_read_lines x args w) = w"
    by (simp_all add: exec_recall_search_def exec_read_page_def exec_read_lines_def with_args_def Let_def split: sum.split)
  have web: "fst (web_fetch c args w) = w \<or> (\<exists>raw u. classify_url (wc_url c) raw = Inr u \<and> fst (web_fetch c args w) = fst (wc_get c w u))"
    "fst (web_search c args w) = w \<or> (\<exists>raw u. classify_url (wc_url c) raw = Inr u \<and> fst (web_search c args w) = fst (wc_get c w u))" for c
    by (rule web_guarded)+
  show ?thesis using inert web by (cases "rx_web x") (auto simp: recall_tool_exec_def)
qed

text \<open>
  Further: the tools offered are the tools there are. The recall policy names the three read tools and, if allowed, the two web tools; none
  of them proposes a change, and each has an answer of its own, also when there is no web client.
\<close>

theorem offered_known:
  "map td_name (tp_tools (build_tool_policy False web)) = map str ([''recall_search'', ''read_page'', ''read_lines''] @ (if web then [''web_search'', ''web_fetch''] else []))"
  "rx_web x = None \<Longrightarrow> td \<in> set (tp_tools (build_tool_policy False web)) \<Longrightarrow> snd (recall_tool_exec x t w (td_name td) args) \<noteq> Inl (str ''unknown recall tool: '' @ td_name td)"
proof -
  show names: "map td_name (tp_tools (build_tool_policy False web)) = map str ([''recall_search'', ''read_page'', ''read_lines''] @ (if web then [''web_search'', ''web_fetch''] else []))"
    by (simp add: build_tool_policy_def recall_search_tool_def read_page_tool_def read_lines_tool_def web_search_tool_def web_fetch_tool_def)
  assume "rx_web x = None" and td: "td \<in> set (tp_tools (build_tool_policy False web))"
  have "td_name td \<in> set (map td_name (tp_tools (build_tool_policy False web)))" using td by simp
  then have "td_name td \<in> set (map str [''recall_search'', ''read_page'', ''read_lines'', ''web_search'', ''web_fetch''])"
    unfolding names by (auto split: if_splits)
  then show "snd (recall_tool_exec x t w (td_name td) args) \<noteq> Inl (str ''unknown recall tool: '' @ td_name td)"
    using \<open>rx_web x = None\<close>
    by (auto simp: recall_tool_exec_def exec_recall_search_def exec_read_page_def exec_read_lines_def with_args_def Let_def str_eval split: sum.split)
qed

text \<open>
  Further: a window that wraps. The last line is computed for every call, so a first line near the end of the machine integers makes it
  wrap to a small one and the window is empty; in a build with overflow checks the call panics.
\<close>

theorem window_wraps:
  "window_args (json_obj [(''start'', JNumber (PosInt (- 1)))]) = (- 1, 39)"
  by code_simp

end
