(* ===== verification/Conversations.thy ===== *)
theory Conversations
  imports Redact Rust_Strings Http_Error Web_Tool
begin

text \<open>
  The transcript of recall threads (\<open>store/messages_repo.rs\<close>, \<open>conversations/routes.rs\<close>): the message rows in the order of
  their sequence numbers, one header row per thread, and the two read routes with their redaction. A row-level-security test is the
  tenant test of each statement; a header of another tenant makes the upsert fail. The two statements that seed the tenant and the user
  change nothing for the caller, whose rows exist. Parameters: the texts of ids and instants.
\<close>

section \<open>The tables\<close>

record message_row =
  mr_tenant :: uuid
  mr_session :: uuid
  mr_user :: uuid
  mr_role :: rstr
  mr_content :: "rstr option"
  mr_seq :: nat
  mr_active :: bool

record convo_row =
  cv_id :: uuid
  cv_tenant :: uuid
  cv_user :: uuid
  cv_title :: rstr
  cv_updated :: int

record chats =
  ch_messages :: "message_row list"
  ch_convos :: "convo_row list"
  ch_next :: nat

definition no_chats :: chats where "no_chats = \<lparr>ch_messages = [], ch_convos = [], ch_next = 1\<rparr>"

definition insert_message :: "string \<Rightarrow> uuid \<Rightarrow> uuid \<Rightarrow> uuid \<Rightarrow> rstr \<Rightarrow> chats \<Rightarrow> chats" where
  "insert_message role t u session text c = c\<lparr>ch_messages := ch_messages c @ [\<lparr>mr_tenant = t, mr_session = session, mr_user = u,
     mr_role = str role, mr_content = Some text, mr_seq = ch_next c, mr_active = True\<rparr>], ch_next := ch_next c + 1\<rparr>"

definition insert_user_message :: "uuid \<Rightarrow> uuid \<Rightarrow> uuid \<Rightarrow> rstr \<Rightarrow> chats \<Rightarrow> chats" where
  "insert_user_message = insert_message ''user''"

definition insert_assistant_message :: "uuid \<Rightarrow> uuid \<Rightarrow> uuid \<Rightarrow> rstr \<Rightarrow> chats \<Rightarrow> chats" where
  "insert_assistant_message = insert_message ''assistant''"

definition session_rows :: "uuid \<Rightarrow> uuid \<Rightarrow> chats \<Rightarrow> message_row list" where
  "session_rows t session c = sort_key mr_seq (filter (\<lambda>m. mr_tenant m = t \<and> mr_session m = session \<and> mr_active m) (ch_messages c))"

definition last_rows :: "nat \<Rightarrow> 'a list \<Rightarrow> 'a list" where "last_rows n xs = drop (length xs - n) xs"

definition read_session :: "uuid \<Rightarrow> uuid \<Rightarrow> chats \<Rightarrow> (rstr option \<times> rstr) list" where
  "read_session t session c = map (\<lambda>m. (mr_content m, mr_role m)) (last_rows 1000 (session_rows t session c))"

definition derive_title :: "rstr \<Rightarrow> rstr" where
  "derive_title s = (let flat = collapse_ws s in if flat = [] then str ''New conversation'' else take 80 flat)"

text \<open>The upsert; \<open>None\<close> is the policy's refusal.\<close>

definition upsert_convo :: "int \<Rightarrow> uuid \<Rightarrow> uuid \<Rightarrow> uuid \<Rightarrow> rstr \<Rightarrow> chats \<Rightarrow> chats option" where
  "upsert_convo now t u thread first c = (case find (\<lambda>v. cv_id v = thread) (ch_convos c) of
     None \<Rightarrow> Some (c\<lparr>ch_convos := ch_convos c @ [\<lparr>cv_id = thread, cv_tenant = t, cv_user = u, cv_title = derive_title first, cv_updated = now\<rparr>]\<rparr>)
   | Some v \<Rightarrow> if cv_tenant v = t then Some (c\<lparr>ch_convos := map (\<lambda>x. if cv_id x = thread then x\<lparr>cv_updated := now\<rparr> else x) (ch_convos c)\<rparr>)
       else None)"

definition last_snippet :: "uuid \<Rightarrow> uuid \<Rightarrow> chats \<Rightarrow> rstr option" where
  "last_snippet t thread c = (case rev (session_rows t thread c) of [] \<Rightarrow> None | m # _ \<Rightarrow> mr_content m)"

definition list_convos :: "uuid \<Rightarrow> chats \<Rightarrow> (uuid \<times> rstr \<times> int \<times> rstr option) list" where
  "list_convos t c = map (\<lambda>v. (cv_id v, cv_title v, cv_updated v, last_snippet t (cv_id v) c))
     (take 100 (sort_key (\<lambda>v. - cv_updated v) (filter (\<lambda>v. cv_tenant v = t) (ch_convos c))))"

section \<open>The routes\<close>

definition json_opt_str :: "rstr option \<Rightarrow> jvalue" where
  "json_opt_str x = (case x of None \<Rightarrow> JNull | Some s \<Rightarrow> JString s)"

definition list_conversations :: "(uuid \<Rightarrow> rstr) \<Rightarrow> (int \<Rightarrow> rstr) \<Rightarrow> uuid \<Rightarrow> chats \<Rightarrow> jvalue" where
  "list_conversations show_id show_time t c = redact_json (json_obj [(''conversations'', JArray (map (\<lambda>(i, title, at, snippet).
     json_obj [(''id'', JString (show_id i)), (''title'', JString title), (''updated_at'', JString (show_time at)),
       (''last_snippet'', json_opt_str snippet)]) (list_convos t c)))])"

definition get_messages :: "uuid \<Rightarrow> uuid \<Rightarrow> chats \<Rightarrow> jvalue" where
  "get_messages t thread c = redact_json (json_obj [(''messages'', JArray (map (\<lambda>(text, role).
     json_obj [(''role'', JString role), (''content'', JString (the_or [] text))])
       (filter (\<lambda>(text, role). role = str ''user'' \<or> role = str ''assistant'') (read_session t thread c))))])"

section \<open>What is stored\<close>

definition chats_ok :: "chats \<Rightarrow> bool" where
  "chats_ok c \<longleftrightarrow> sorted_wrt (<) (map mr_seq (ch_messages c)) \<and> (\<forall>m\<in>set (ch_messages c). mr_seq m < ch_next c)
     \<and> distinct (map cv_id (ch_convos c))"

lemma insert_ok: "chats_ok c \<Longrightarrow> chats_ok (insert_message role t u session text c)"
  by (auto simp: chats_ok_def insert_message_def sorted_wrt_append less_Suc_eq)

lemma touched_ids: "map cv_id (map (\<lambda>x. if cv_id x = i then x\<lparr>cv_updated := now\<rparr> else x) xs) = map cv_id xs"
  by (induction xs) simp_all

lemma upsert_convo_ok: "chats_ok c \<Longrightarrow> upsert_convo now t u thread first c = Some c' \<Longrightarrow> chats_ok c'"
  by (auto simp: chats_ok_def upsert_convo_def find_None_iff touched_ids simp del: map_map split: option.splits if_splits)

lemma sorted_rows:
  assumes "chats_ok c"
  shows "session_rows t session c = filter (\<lambda>m. mr_tenant m = t \<and> mr_session m = session \<and> mr_active m) (ch_messages c)"
proof -
  have "sorted (map mr_seq (ch_messages c))"
    using assms by (auto simp: chats_ok_def intro: sorted_wrt_mono_rel [of _ "(<)"])
  then have "sorted (map mr_seq (filter P (ch_messages c)))" for P by (rule sorted_filter)
  then show ?thesis by (simp add: session_rows_def sorted_sort_id sort_key_id_if_sorted)
qed

text \<open>
  Further: a turn reads back. After the question and the answer of a turn were stored, the thread ends with them in this order, after the
  newest of what it held, and no other thread and no other tenant sees a change.
\<close>

theorem turn_reads_back:
  assumes ok: "chats_ok c" and c'_def: "c' = insert_assistant_message t u thread a (insert_user_message t u thread q c)"
  shows "read_session t thread c' = last_rows 998 (read_session t thread c) @ [(Some q, str ''user''), (Some a, str ''assistant'')]
    \<and> (t' \<noteq> t \<or> s \<noteq> thread \<longrightarrow> read_session t' s c' = read_session t' s c)"
proof -
  have ok': "chats_ok c'"
    unfolding c'_def insert_assistant_message_def insert_user_message_def by (intro insert_ok ok)
  have window: "n - (n - 1000 + 998) + (n - 1000) = n - 998" for n :: nat by arith
  have "read_session t thread c' = last_rows 998 (read_session t thread c) @ [(Some q, str ''user''), (Some a, str ''assistant'')]"
    by (simp add: read_session_def sorted_rows [OF ok] sorted_rows [OF ok'])
       (simp add: c'_def insert_assistant_message_def insert_user_message_def insert_message_def last_rows_def drop_map window)
  moreover have "t' \<noteq> t \<or> s \<noteq> thread \<Longrightarrow> read_session t' s c' = read_session t' s c"
    by (simp add: read_session_def sorted_rows [OF ok] sorted_rows [OF ok'])
       (auto simp: c'_def insert_assistant_message_def insert_user_message_def insert_message_def)
  ultimately show ?thesis by blast
qed

text \<open>
  Further: the first question names a thread. A later turn of the owner keeps the title; a title is never empty and has at most eighty characters.
\<close>

theorem title_is_first:
  assumes "upsert_convo now t u thread q c = Some c'" "upsert_convo now' t u' thread q' c' = Some c''"
  shows "map (\<lambda>v. (cv_id v, cv_tenant v, cv_title v)) (ch_convos c'') = map (\<lambda>v. (cv_id v, cv_tenant v, cv_title v)) (ch_convos c')"
    "derive_title q \<noteq> []" "length (derive_title q) \<le> 80"
proof -
  have "thread \<in> set (map cv_id (ch_convos c'))"
    using assms(1) by (auto simp: upsert_convo_def touched_ids find_Some_iff simp del: map_map set_map split: option.splits if_splits) auto
  then have "\<exists>v. find (\<lambda>v. cv_id v = thread) (ch_convos c') = Some v"
    by (auto simp flip: not_None_eq simp: find_None_iff)
  then show "map (\<lambda>v. (cv_id v, cv_tenant v, cv_title v)) (ch_convos c'') = map (\<lambda>v. (cv_id v, cv_tenant v, cv_title v)) (ch_convos c')"
    using assms(2) by (auto simp: upsert_convo_def split: if_splits)
qed (simp_all add: derive_title_def Let_def str_eval)

text \<open>
  Further: a thread has one owner. The header of a thread of another tenant is refused and left as it is; the message rows of the
  intruder are stored under the intruder's tenant, where the owner never reads them.
\<close>

theorem foreign_thread_refused:
  assumes "find (\<lambda>v. cv_id v = thread) (ch_convos c) = Some v" "cv_tenant v \<noteq> t" "chats_ok c"
  shows "upsert_convo now t u thread q c = None"
    "read_session (cv_tenant v) thread (insert_user_message t u thread q c) = read_session (cv_tenant v) thread c"
  using assms sorted_rows [OF assms(3)] sorted_rows [OF insert_ok [OF assms(3)]]
  by (auto simp: upsert_convo_def read_session_def insert_user_message_def) (simp add: insert_message_def)

end
