(* ===== verification/Recall.thy ===== *)
theory Recall
  imports Router_Llm Recall_Tools Conversations Stream_Hub
begin

text \<open>
  The recall assistant: its prompt (\<open>ideas/recall/prompt.rs\<close>), the driver of a recall turn (\<open>recall.rs\<close>), and the reading of its
  references (\<open>wiki/query.rs\<close>). A run is the list of events it publishes, the state it leaves and whether it ended; it does not end if it
  panics. The events are published on the stream of the thread in their order. Reads that fail are not modelled.
\<close>

section \<open>The prompt\<close>

definition recall_focus :: "bool \<Rightarrow> rstr" where
  "recall_focus prefer_wiki = (if prefer_wiki
     then str ''This is a WIKI QUERY: prioritise the user'' @ [39] @ str ''s wiki when it is relevant, and always cite the pages you draw on. ''
       @ str ''You may still use your general knowledge to explain, connect ideas, and fill gaps the wiki does not cover.''
     else str ''Answer general-knowledge questions directly from what you know '' @ [8212]
       @ str '' do NOT force a search and do NOT restrict yourself to the wiki. Reach for the tools when (and only when) the question is about the user''
       @ [39] @ str ''s own notes, ideas, projects, captures, or past conclusions.'')"

definition web_paragraph :: "bool \<Rightarrow> rstr" where
  "web_paragraph allow_web = (if allow_web
     then str ''You also have LIVE INTERNET access '' @ [8212] @ str '' use it whenever the question is about current events, recent facts, ''
       @ str ''anything that may have changed since your training, or a URL the user gives you:'' @ nl
       @ str ''- web_search(query): search the public web; returns titles, URLs, and snippets you can follow up.'' @ nl
       @ str ''- web_fetch(url): fetch a public web page and read its text (http/https only).'' @ nl
     else [])"

definition build_recall_prompt :: "rstr \<Rightarrow> bool \<Rightarrow> rstr \<Rightarrow> rstr \<Rightarrow> bool \<Rightarrow> rstr" where
  "build_recall_prompt index prefer_wiki provider model allow_web =
     str ''You are QCue, the user'' @ [39] @ str ''s personal assistant. You have your FULL general knowledge and answer any question to the best of your ability ''
       @ [8212] @ str '' you are NOT limited to the user'' @ [39] @ str ''s notes.'' @ nl @ nl
     @ str ''Your identity: you are running on the model `'' @ model @ str ''`, served by '' @ provider
       @ str '', configured by the user with their own API key (BYOK). When the user asks which model, provider, AI, or company you are, answer truthfully and specifically ''
       @ [8212] @ str '' name the model (`'' @ model @ str ''`) and the provider ('' @ provider @ str ''). Do not be vague or evasive about it. ''
       @ str ''You must NOT claim to be a DIFFERENT vendor'' @ [39] @ str ''s model than the one named here.'' @ nl @ nl
     @ str ''The user keeps a personal '' @ [34] @ str ''second brain'' @ [34] @ str '': a wiki distilled from their captured ideas. You can consult it with tools:'' @ nl
       @ str ''- recall_search(pattern): full-text search the user'' @ [39] @ str ''s captures, transcripts, and wiki.'' @ nl
       @ str ''- read_page(slug): read a whole wiki page.'' @ nl @ str ''- read_lines(slug, start, end): read a line window of a page.'' @ nl
     @ web_paragraph allow_web @ nl @ recall_focus prefer_wiki @ nl @ nl
     @ str ''When you use a wiki page, cite it inline as [[slug]] and end with a `## References` section listing each page you used as [[slug|Display]] ''
       @ [8212] @ str '' short description. Do not add a References section when you did not use any page.'' @ nl
     @ UNIVERSAL_LINK_CONSTRAINTS @ nl @ nl
     @ str ''The user'' @ [39] @ str ''s wiki index (a table of contents '' @ [8212] @ str '' use the tools to read the actual content):'' @ nl @ index"

section \<open>References\<close>

definition reference_slug :: "rstr \<Rightarrow> rstr option" where
  "reference_slug line = Option.bind (find_str [91, 91] line) (\<lambda>start. Option.bind (find_str [93, 93] (drop start line)) (\<lambda>e.
     let slug = trim (takeWhile (\<lambda>c. c \<noteq> 124) (take (e - 2) (drop (start + 2) line))) in if slug = [] then None else Some slug))"

definition parse_references :: "rstr \<Rightarrow> citation list" where
  "parse_references answer = (case find_str (str ''## References'') answer of
     None \<Rightarrow> []
   | Some i \<Rightarrow> map (\<lambda>slug. \<lparr>ci_path = slug @ str ''.md'', ci_start = 0, ci_end = 0\<rparr>)
       (List.map_filter reference_slug (tl (lines (drop i answer)))))"

section \<open>The request\<close>

definition RECALL_MAX_TOKENS :: u32 where "RECALL_MAX_TOKENS = 2048"
definition TOOL_RESULT_PREVIEW_CHARS :: nat where "TOOL_RESULT_PREVIEW_CHARS = 600"

definition history_message :: "role \<Rightarrow> rstr \<Rightarrow> message" where
  "history_message r text = (plain_message r text)\<lparr>is_untrusted := True\<rparr>"

definition replayed :: "rstr option \<times> rstr \<Rightarrow> message option" where
  "replayed m = (case m of (text, r) \<Rightarrow>
     if r = str ''assistant'' then map_option (history_message Assistant) text
     else if r = str ''user'' then map_option (\<lambda>c. history_message User (util_fence_untrusted (str ''prior_user_query'') c)) text
     else None)"

definition build_recall_request :: "rstr \<Rightarrow> (rstr option \<times> rstr) list \<Rightarrow> rstr \<Rightarrow> bool \<Rightarrow> rstr \<Rightarrow> rstr \<Rightarrow> bool \<Rightarrow> wiki_req" where
  "build_recall_request index rows question prefer_wiki provider model allow_web =
     \<lparr>wr_system = build_recall_prompt index prefer_wiki provider model allow_web,
      wr_messages = List.map_filter replayed rows @ [history_message User (util_fence_untrusted (str ''user_query'') question)],
      wr_format = None, wr_max_tokens = RECALL_MAX_TOKENS, wr_cache = Some 1, wr_no_thinking = False\<rparr>"

section \<open>The driver\<close>

datatype surface = Recall_Surface | Wiki_Surface

definition surface_label :: "surface \<Rightarrow> rstr" where
  "surface_label m = (case m of Recall_Surface \<Rightarrow> str ''recall'' | Wiki_Surface \<Rightarrow> str ''wiki_query'')"

type_synonym stream_msg = "rstr \<times> jvalue"

definition OVERLOADED_CODE :: int where "OVERLOADED_CODE = - 32001"
definition NO_CREDENTIALS_CODE :: int where "NO_CREDENTIALS_CODE = - 32030"
definition COST_CEILING_CODE :: int where "COST_CEILING_CODE = - 32031"

definition error_msg :: "int \<Rightarrow> rstr \<Rightarrow> stream_msg" where
  "error_msg code text = (str ''error'', json_obj [(''code'', json_int code), (''message'', JString text)])"

fun wiki_error_display :: "wiki_llm_error \<Rightarrow> rstr" where
  "wiki_error_display (Llm_Provider e) = str ''provider error: '' @ e"
| "wiki_error_display Llm_Cost_Ceiling = str ''cost ceiling reached''"
| "wiki_error_display Llm_Cancelled = str ''cancelled''"

definition recall_error_event :: "rstr \<Rightarrow> int \<times> rstr" where
  "recall_error_event err = (let lc = to_ascii_lowercase err in
     if contains lc (str ''no credentials'') \<or> contains lc (str ''no eligible credential'') \<or> contains lc (str ''decrypt failed'')
     then (NO_CREDENTIALS_CODE, str ''Recall needs an API key. Add a provider key (e.g. DeepSeek) in Settings to enable it.'')
     else (OVERLOADED_CODE, str ''Recall couldn'' @ [39] @ str ''t complete: '' @ err))"

text \<open>What the sink of a turn publishes; the deltas of the answer are not streamed.\<close>

definition step_msg :: "from_str \<Rightarrow> turn_event \<Rightarrow> stream_msg option" where
  "step_msg rd e = (case e of
     OnToolCall _ name args \<Rightarrow> Some (str ''tool_call'', json_obj [(''tool'', JString name),
        (''args'', case rd args of Some v \<Rightarrow> v | None \<Rightarrow> JString args)])
   | OnToolResult _ name text \<Rightarrow> Some (str ''tool_result'', json_obj [(''tool'', JString name),
        (''result'', JString (take TOOL_RESULT_PREVIEW_CHARS text))])
   | _ \<Rightarrow> None)"

definition json_u64 :: "u64 \<Rightarrow> jvalue" where "json_u64 n = JNumber (PosInt n)"

definition citation_msg :: "citation \<Rightarrow> stream_msg" where
  "citation_msg c = (str ''citation'', json_obj [(''rel_path'', JString (ci_path c)), (''start_line'', json_int (int (ci_start c))),
     (''end_line'', json_int (int (ci_end c)))])"

definition answer_msgs :: "rstr \<Rightarrow> citation list \<Rightarrow> canonical_usage option \<Rightarrow> stream_msg list" where
  "answer_msgs answer cs usage = (let u = the_or usage_default usage in
     [(str ''message_delta'', json_obj [(''delta'', JString answer)])] @ map citation_msg cs
     @ [(str ''usage'', json_obj [(''input'', json_u64 (u_input u)), (''output'', json_u64 (u_output u)), (''cache_read'', json_u64 (u_cache_read u)),
          (''cache_write'', json_u64 (u_cache_write u)), (''reasoning'', json_u64 (u_reasoning u))]),
        (str ''done'', json_obj [(''ok'', JBool True)])])"

record 'e recall_deps =
  rd_seam :: "'e seam"
  rd_env :: "'e seam_env"
  rd_gate :: gate_env
  rd_latest :: page_order
  rd_wiki :: "'e \<Rightarrow> wiki"
  rd_cost :: "'e \<Rightarrow> cost_db"
  rd_clock :: "'e \<Rightarrow> int"
  rd_json :: from_str
  rd_web_var :: "rstr option"

text \<open>The state of a run; \<open>rw_permits\<close> of the 32 turns that may run at once are free.\<close>

record 'e recall_world =
  rw_env :: 'e
  rw_chats :: chats
  rw_permits :: nat

definition MAX_CONCURRENT_RECALL_TURNS :: nat where "MAX_CONCURRENT_RECALL_TURNS = 32"

definition resolve_identity :: "'e recall_deps \<Rightarrow> uuid \<Rightarrow> recall_override \<Rightarrow> 'e \<Rightarrow> rstr \<times> rstr" where
  "resolve_identity d t ov env = (let v = rd_env d in
     if stub_llm_enabled (sv_stub_var v) then (str ''stub'', str ''stub'')
     else case override_route ov of Some r \<Rightarrow> r | None \<Rightarrow> effective_route (sv_vault v) (sv_db_ok v) (sv_default v) t (sv_settings v env))"

definition recall_request :: "'e recall_deps \<Rightarrow> uuid \<Rightarrow> uuid \<Rightarrow> rstr \<Rightarrow> surface \<Rightarrow> recall_override \<Rightarrow> rstr \<Rightarrow> 'e recall_world \<Rightarrow> wiki_req" where
  "recall_request d t thread question mode ov index w = (case resolve_identity d t ov (rw_env w) of (provider, model) \<Rightarrow>
     build_recall_request index (read_session t thread (rw_chats w)) question (mode = Wiki_Surface)
       (provider_display_name provider) model (web_tools_enabled (rd_web_var d)))"

definition persist_question :: "int \<Rightarrow> uuid \<Rightarrow> uuid \<Rightarrow> uuid \<Rightarrow> rstr \<Rightarrow> chats \<Rightarrow> chats" where
  "persist_question now t u thread question c = (let c1 = insert_user_message t u thread question c in
     the_or c1 (upsert_convo now t u thread question c1))"

definition recall_answer :: "'e recall_deps \<Rightarrow> uuid \<Rightarrow> uuid \<Rightarrow> uuid \<Rightarrow> rstr \<Rightarrow> wiki_req \<Rightarrow> recall_override \<Rightarrow> 'e recall_world
    \<Rightarrow> stream_msg list \<times> 'e recall_world" where
  "recall_answer d t u thread question req ov w = (let c = persist_question (rd_clock d (rw_env w)) t u thread question (rw_chats w) in
     case create_message_observed_with_override (rd_env d) (rd_seam d) t req True ov (rw_env w) of (evs, env', r) \<Rightarrow>
       (case r of
          Inr resp \<Rightarrow> (List.map_filter (step_msg (rd_json d)) evs @ answer_msgs (ws_content resp) (parse_references (ws_content resp)) (ws_usage resp),
            w\<lparr>rw_env := env', rw_chats := insert_assistant_message t u thread (ws_content resp) c\<rparr>)
        | Inl e \<Rightarrow> (List.map_filter (step_msg (rd_json d)) evs @ [case recall_error_event (wiki_error_display e) of (code, text) \<Rightarrow> error_msg code text],
            w\<lparr>rw_env := env', rw_chats := c\<rparr>)))"

definition recall_turn :: "'e recall_deps \<Rightarrow> uuid \<Rightarrow> uuid \<Rightarrow> uuid \<Rightarrow> rstr \<Rightarrow> surface \<Rightarrow> recall_override \<Rightarrow> 'e recall_world
    \<Rightarrow> stream_msg list \<times> 'e recall_world \<times> bool" where
  "recall_turn d t u thread question mode ov w = (let
       env = rw_env w;
       started = (str ''session_started'', json_obj [(''mode'', JString (surface_label mode))])
     in case check_ceiling (sv_cost_env (rd_env d) env) t u (rd_cost d env) of
       Inl _ \<Rightarrow> ([started, error_msg OVERLOADED_CODE (str ''cost check failed; try again'')], w, True)
     | Inr (Some why) \<Rightarrow> ([started, error_msg COST_CEILING_CODE why], w, True)
     | Inr None \<Rightarrow>
         if rw_permits w = 0 then ([started, error_msg OVERLOADED_CODE (str ''server busy; please retry shortly'')], w, True)
         else (case regenerate_index (rd_latest d) ((rd_gate d)\<lparr>ge_tenant := t\<rparr>) (rd_wiki d env) of
             None \<Rightarrow> ([started], w, False)
           | Some index \<Rightarrow> (case recall_answer d t u thread question (recall_request d t thread question mode ov index w) ov w of
               (msgs, w') \<Rightarrow> (started # msgs, w', True))))"

text \<open>Publishing: the next number of the stream, then the envelope.\<close>

definition publish_msg :: "('tx, 'rx) broadcast \<Rightarrow> uuid \<Rightarrow> stream_msg \<Rightarrow> 'tx hub \<Rightarrow> 'tx hub" where
  "publish_msg bc thread m h = (case hub_next_seq bc thread h of (n, h1) \<Rightarrow>
     hub_publish bc \<lparr>schema_version = 1, thread_id = thread, turn_id = None, env_seq = n, event = fst m, payload = snd m\<rparr> h1)"

definition publish_all :: "('tx, 'rx) broadcast \<Rightarrow> uuid \<Rightarrow> stream_msg list \<Rightarrow> 'tx hub \<Rightarrow> 'tx hub" where
  "publish_all bc thread ms h = fold (publish_msg bc thread) ms h"

definition run_recall_stream :: "('tx, 'rx) broadcast \<Rightarrow> 'e recall_deps \<Rightarrow> uuid \<Rightarrow> uuid \<Rightarrow> uuid \<Rightarrow> rstr \<Rightarrow> surface \<Rightarrow> recall_override
    \<Rightarrow> 'e recall_world \<Rightarrow> 'tx hub \<Rightarrow> 'e recall_world \<times> 'tx hub" where
  "run_recall_stream bc d t u thread question mode ov w h = (case recall_turn d t u thread question mode ov w of
     (ms, w', ended) \<Rightarrow> (w', (if ended then hub_close thread else id) (publish_all bc thread ms h)))"

text \<open>The route: a fresh connection subscribes and starts a run, a resuming one only subscribes.\<close>

definition recall_override_from :: "rstr option \<Rightarrow> rstr option \<Rightarrow> rstr option \<Rightarrow> recall_override" where
  "recall_override_from p m e = (let clean = (\<lambda>x. case x of Some s \<Rightarrow> if trim s = [] then None else Some s | None \<Rightarrow> None) in
     \<lparr>ro_provider = clean p, ro_model = clean m, ro_effort = clean e\<rparr>)"

definition stream_or_resume :: "('tx, 'rx) broadcast \<Rightarrow> 'e recall_deps \<Rightarrow> uuid \<Rightarrow> uuid \<Rightarrow> uuid \<Rightarrow> u64 option \<Rightarrow> rstr \<Rightarrow> surface \<Rightarrow> recall_override
    \<Rightarrow> 'e recall_world \<Rightarrow> 'tx hub \<Rightarrow> 'rx option \<times> envelope list \<times> 'e recall_world \<times> 'tx hub" where
  "stream_or_resume bc d t u thread resume question mode ov w h = (case hub_subscribe bc t thread h of (rx, h1) \<Rightarrow>
     (case resume of
        Some since \<Rightarrow> (rx, the_or [] (hub_replay_since t thread since h1), w, h1)
      | None \<Rightarrow> (case run_recall_stream bc d t u thread question mode ov w h1 of (w', h2) \<Rightarrow> (rx, [], w', h2))))"

section \<open>What a run publishes\<close>

definition closes_run :: "stream_msg \<Rightarrow> bool" where
  "closes_run m \<longleftrightarrow> fst m \<in> {str ''done'', str ''error''}"

definition is_tool_step :: "stream_msg \<Rightarrow> bool" where
  "is_tool_step m \<longleftrightarrow> fst m \<in> {str ''tool_call'', str ''tool_result''}"

lemma tool_step_open: "is_tool_step m \<Longrightarrow> \<not> closes_run m"
  by (auto simp: is_tool_step_def closes_run_def str_eval)

lemma steps_are_tools: "list_all is_tool_step (List.map_filter (step_msg rd) evs)"
  by (induction evs) (auto simp: map_filter_simps step_msg_def is_tool_step_def split: turn_event.splits)

lemma citations_open: "filter closes_run (map citation_msg cs) = []"
  by (induction cs) (simp_all add: citation_msg_def closes_run_def str_eval)

lemma tools_open: "list_all is_tool_step ms \<Longrightarrow> filter closes_run ms = []"
  by (induction ms) (auto dest: tool_step_open)

lemma answer_closes: "filter closes_run (answer_msgs a cs u) = [(str ''done'', json_obj [(''ok'', JBool True)])]"
proof -
  have "filter closes_run (answer_msgs a cs u) = filter closes_run (map citation_msg cs) @ [(str ''done'', json_obj [(''ok'', JBool True)])]"
    by (simp add: answer_msgs_def Let_def) (simp add: closes_run_def str_eval)
  then show ?thesis by (simp add: citations_open)
qed

lemma answer_last: "last (answer_msgs a cs u) = (str ''done'', json_obj [(''ok'', JBool True)])"
  by (simp add: answer_msgs_def Let_def)

lemma error_closes [simp]: "closes_run (error_msg code text)"
  by (simp add: error_msg_def closes_run_def)

lemma answer_ends:
  "case fst (recall_answer d t u thread question req ov w) of ms \<Rightarrow> ms \<noteq> [] \<and> filter closes_run ms = [last ms]"
proof -
  obtain evs env' r where r: "create_message_observed_with_override (rd_env d) (rd_seam d) t req True ov (rw_env w) = (evs, env', r)"
    by (metis prod.exhaust)
  show ?thesis
    using answer_last answer_closes tools_open [OF steps_are_tools, of "rd_json d" evs]
    by (auto simp: recall_answer_def r Let_def answer_msgs_def split: sum.splits prod.splits)
qed

text \<open>
  C38: a run opens and closes once. It publishes its opening event first; if it ends, exactly one event of the rest is a
  success or an error and that event is the last one; if it does not, the opening event is all that was published and nothing
  was stored.
\<close>

theorem run_closes_once:
  "case recall_turn d t u thread question mode ov w of (ms, w', ended) \<Rightarrow>
     fst (hd ms) = str ''session_started'' \<and> (if ended then filter closes_run ms = [last ms]
       else length ms = 1 \<and> w' = w \<and> regenerate_index (rd_latest d) ((rd_gate d)\<lparr>ge_tenant := t\<rparr>) (rd_wiki d (rw_env w)) = None)"
proof -
  have s: "\<not> closes_run (str ''session_started'', x)" for x by (simp add: closes_run_def str_eval)
  show ?thesis
  proof (cases "regenerate_index (rd_latest d) ((rd_gate d)\<lparr>ge_tenant := t\<rparr>) (rd_wiki d (rw_env w))")
    case None
    then show ?thesis by (auto simp: recall_turn_def Let_def s split: sum.splits option.splits)
  next
    case (Some index)
    then show ?thesis
      using answer_ends [of d t u thread question "recall_request d t thread question mode ov index w" ov w]
      by (auto simp: recall_turn_def Let_def s split: sum.splits option.splits prod.splits)
  qed
qed

text \<open>
  Further: a run that is refused costs nothing. At a ceiling and when 32 runs are under way the run ends with one error
  after its opening event, and stores nothing.
\<close>

theorem refused_run_is_free:
  assumes "check_ceiling (sv_cost_env (rd_env d) (rw_env w)) t u (rd_cost d (rw_env w)) \<noteq> Inr None \<or> rw_permits w = 0"
  shows "\<exists>code text. recall_turn d t u thread question mode ov w
      = ([(str ''session_started'', json_obj [(''mode'', JString (surface_label mode))]), error_msg code text], w, True)
    \<and> code \<in> {OVERLOADED_CODE, COST_CEILING_CODE}"
  using assms by (auto simp: recall_turn_def Let_def split: sum.splits option.splits)

text \<open>
  Further: the identity a run states is the one it uses. The provider and the model named in its prompt are those the
  harness of the call is built for, an override and the scripted stub included.
\<close>

theorem identity_matches:
  assumes "se_source (rd_seam d) = Per_Tenant reply"
  shows "resolve_identity d t ov env = snd (seam_harness (rd_env d) reply t ov env)"
  by (auto simp: resolve_identity_def seam_harness_def build_harness_for_def build_harness_for_route_def effective_route_def Let_def
      split: option.splits prod.splits)

text \<open>
  Further: nothing of a thread reaches the system prefix. Only user and assistant messages of the thread are replayed, all of
  them marked untrusted, and the question comes last, in its fence.
\<close>

theorem history_is_untrusted:
  "list_all (\<lambda>m. is_untrusted m \<and> role m \<in> {User, Assistant}) (wr_messages (recall_request d t thread q mode ov index w))
   \<and> last (wr_messages (recall_request d t thread q mode ov index w)) = history_message User (util_fence_untrusted (str ''user_query'') q)
   \<and> wr_system (recall_request d t thread q mode ov index w)
       = wr_system (recall_request d t thread' q' mode ov index (w\<lparr>rw_chats := chats'\<rparr>))"
proof -
  have "list_all (\<lambda>m. is_untrusted m \<and> role m \<in> {User, Assistant}) (List.map_filter replayed rows)" for rows
    by (induction rows) (auto simp: map_filter_simps replayed_def history_message_def plain_message_def split: option.splits prod.splits if_splits)
  then show ?thesis
    by (simp add: recall_request_def build_recall_request_def case_prod_unfold) (simp add: history_message_def plain_message_def)
qed

section \<open>What a run stores\<close>

lemma upsert_messages: "upsert_convo now t u thread q c = Some c' \<Longrightarrow> ch_messages c' = ch_messages c \<and> ch_next c' = ch_next c"
  by (auto simp: upsert_convo_def split: option.splits if_splits)

lemma read_session_messages: "ch_messages c = ch_messages c' \<Longrightarrow> read_session t s c = read_session t s c'"
  by (simp add: read_session_def session_rows_def)

lemma insert_messages:
  "ch_messages c = ch_messages c' \<Longrightarrow> ch_next c = ch_next c'
   \<Longrightarrow> ch_messages (insert_message r t u th x c) = ch_messages (insert_message r t u th x c')"
  by (simp add: insert_message_def)

lemma asked_messages:
  "ch_messages (persist_question now t u thread q c) = ch_messages (insert_user_message t u thread q c)
   \<and> ch_next (persist_question now t u thread q c) = ch_next (insert_user_message t u thread q c)"
  by (cases "upsert_convo now t u thread q (insert_user_message t u thread q c)")
     (auto simp: persist_question_def Let_def the_or_def dest: upsert_messages)

lemma pair_window: "last_rows 1000 (xs @ [a, b]) = last_rows 998 xs @ [a, b]"
proof -
  have "length xs + 2 - 1000 - length xs = 0 \<or> length xs + 2 - 1000 = length xs - 998" by arith
  then show ?thesis by (auto simp: last_rows_def)
qed

text \<open>
  Further: an answered run is remembered. It adds exactly its question and the answer it published to the thread, in this order,
  and a run that ended in an error adds its question alone.
\<close>

theorem answered_run_remembered:
  assumes ok: "chats_ok (rw_chats w)"
    and run: "create_message_observed_with_override (rd_env d) (rd_seam d) t req True ov (rw_env w) = (evs, env', r)"
  shows "read_session t thread (rw_chats (snd (recall_answer d t u thread q req ov w)))
    = (case r of
         Inr resp \<Rightarrow> last_rows 998 (read_session t thread (rw_chats w)) @ [(Some q, str ''user''), (Some (ws_content resp), str ''assistant'')]
       | Inl _ \<Rightarrow> read_session t thread (insert_user_message t u thread q (rw_chats w)))"
proof (cases r)
  case (Inl e)
  then show ?thesis
    using asked_messages [of "rd_clock d (rw_env w)" t u thread q "rw_chats w"]
    by (auto simp: recall_answer_def run intro!: read_session_messages)
next
  case (Inr resp)
  have "read_session t thread (rw_chats (snd (recall_answer d t u thread q req ov w)))
      = read_session t thread (insert_assistant_message t u thread (ws_content resp) (insert_user_message t u thread q (rw_chats w)))"
    using asked_messages [of "rd_clock d (rw_env w)" t u thread q "rw_chats w"]
    by (auto simp: recall_answer_def run Inr insert_assistant_message_def intro!: read_session_messages insert_messages)
  then show ?thesis
    by (simp add: Inr conjunct1 [OF turn_reads_back [OF ok refl]])
qed

section \<open>The stream of a run\<close>

fun numbered :: "uuid \<Rightarrow> u64 \<Rightarrow> stream_msg list \<Rightarrow> envelope list" where
  "numbered thread n [] = []"
| "numbered thread n (m # ms) =
     \<lparr>schema_version = 1, thread_id = thread, turn_id = None, env_seq = n + 1, event = fst m, payload = snd m\<rparr> # numbered thread (n + 1) ms"

lemma publish_msg_entry:
  assumes "map_of h thread = Some e"
  shows "map_of (publish_msg bc thread m h) thread = Some (let env = \<lparr>schema_version = 1, thread_id = thread, turn_id = None,
      env_seq = se_seq e + 1, event = fst m, payload = snd m\<rparr>
    in e\<lparr>ring := ring_push env (ring e), tx := bc_send bc env (tx e), se_seq := se_seq e + 1\<rparr>)"
  using assms by (simp add: publish_msg_def hub_next_seq_def hub_publish_def or_insert_def Let_def)

lemma publish_all_entry:
  "map_of h thread = Some e \<Longrightarrow> map_of (publish_all bc thread ms h) thread =
     Some (e\<lparr>ring := fold ring_push (numbered thread (se_seq e) ms) (ring e), tx := fold (bc_send bc) (numbered thread (se_seq e) ms) (tx e),
       se_seq := se_seq e + of_nat (length ms)\<rparr>)"
proof (induction ms arbitrary: h e)
  case Nil
  then show ?case by (simp add: publish_all_def)
next
  case (Cons m ms)
  show ?case
    using Cons.IH [OF publish_msg_entry [OF Cons.prems, of bc m]]
    by (simp add: publish_all_def Let_def add.assoc)
qed

text \<open>
  Further: another tenant can write into a stream. A run of a tenant that does not own the thread's stream gets no receiver, but its
  events are sent to the receivers of the owner and numbered in the owner's sequence, and when it ends it closes the owner's stream.
\<close>

theorem foreign_run_reaches_owner:
  assumes e: "map_of h thread = Some e" and foreign: "owner e \<noteq> t" "owner e \<noteq> nil_uuid"
    and run: "recall_turn d t u thread q mode ov w = (ms, w', ended)"
  shows "stream_or_resume bc d t u thread None q mode ov w h = (None, [], w', (if ended then hub_close thread else id) (publish_all bc thread ms h))"
    "\<exists>e'. map_of (publish_all bc thread ms h) thread = Some e' \<and> owner e' = owner e
       \<and> tx e' = fold (bc_send bc) (numbered thread (se_seq e) ms) (tx e)"
    "ended \<Longrightarrow> map_of (snd (snd (snd (stream_or_resume bc d t u thread None q mode ov w h)))) thread = None"
proof -
  have sub: "hub_subscribe bc t thread h = (None, h)"
    using e foreign by (simp add: hub_subscribe_def)
  show route: "stream_or_resume bc d t u thread None q mode ov w h = (None, [], w', (if ended then hub_close thread else id) (publish_all bc thread ms h))"
    by (simp add: stream_or_resume_def sub run_recall_stream_def run)
  show "\<exists>e'. map_of (publish_all bc thread ms h) thread = Some e' \<and> owner e' = owner e
      \<and> tx e' = fold (bc_send bc) (numbered thread (se_seq e) ms) (tx e)"
    by (simp add: publish_all_entry [OF e])
  show "ended \<Longrightarrow> map_of (snd (snd (snd (stream_or_resume bc d t u thread None q mode ov w h)))) thread = None"
    by (simp add: route)
qed

text \<open>
  Further: a finished run cannot be replayed. Closing removes the ring with the stream, so a client that reconnects after the end
  gets no missed event, whatever it asks for, and waits on a stream of its own.
\<close>

theorem finished_run_not_replayed:
  assumes "run_recall_stream bc d t u thread q mode ov w h = (w', h')" "snd (snd (recall_turn d t u thread q mode ov w))"
    and room: "length h' < MAX_STREAMS"
  shows "\<exists>rx h''. stream_or_resume bc d t u thread (Some since) q mode ov w' h' = (Some rx, [], w', h'')
    \<and> map_option (\<lambda>e. rr_buf (ring e)) (map_of h'' thread) = Some []"
proof -
  obtain ms v where t: "recall_turn d t u thread q mode ov w = (ms, v, True)"
    using assms(2) by (metis prod.collapse)
  have gone: "map_of h' thread = None"
    using assms(1) by (auto simp: run_recall_stream_def t)
  show ?thesis
    using room
    by (auto simp: stream_or_resume_def hub_subscribe_def gone Let_def fresh_entry_def ring_new_def hub_replay_since_def ring_since_def case_prod_unfold)
qed

text \<open>
  Further: a panicking run leaves its stream open. When the index cannot be built the client has its opening event and nothing
  more, and the stream stays in the registry.
\<close>

theorem panicking_run_hangs:
  assumes idx: "regenerate_index (rd_latest d) ((rd_gate d)\<lparr>ge_tenant := t\<rparr>) (rd_wiki d (rw_env w)) = None"
    and ok: "check_ceiling (sv_cost_env (rd_env d) (rw_env w)) t u (rd_cost d (rw_env w)) = Inr None" "0 < rw_permits w"
    and e: "map_of h thread = Some e"
  shows "\<exists>m e'. run_recall_stream bc d t u thread q mode ov w h = (w, publish_msg bc thread m h) \<and> fst m = str ''session_started''
    \<and> map_of (publish_msg bc thread m h) thread = Some e' \<and> se_seq e' = se_seq e + 1"
  using assms
  by (simp add: run_recall_stream_def recall_turn_def publish_all_def publish_msg_entry [OF e] Let_def del: fst_conv) auto

section \<open>References, proved\<close>

text \<open>
  Further: a reference may leave the wiki. The reader of the reference list does not apply the check of the search tool: a slug with
  parent steps becomes the path of a citation.
\<close>

theorem reference_unchecked:
  "map ci_path (parse_references (str ''See.'' @ nl @ str ''## References'' @ nl @ str ''- [[../../etc/passwd|x]]'')) = [str ''../../etc/passwd.md'']
   \<and> safe_citation (str ''../../etc/passwd.md'') 0 = None"
  by code_simp

end
