(* ===== verification/Dream_Agent.thy ===== *)
theory Dream_Agent
  imports Dream Recall
begin

text \<open>
  The dream as a job: the agent (\<open>ideas/dream/agent.rs\<close>) with its prompt (\<open>prompts/consolidation.rs\<close>), the handler
  (\<open>dream/mod.rs\<close>), the gate for destructive proposals (\<open>wiki/approvals.rs\<close>), the cron tick and the manual route (\<open>dream/scheduler.rs\<close>,
  \<open>dream/routes.rs\<close>). The state is the tenant's lock row beside the rest of the program's; the token of a job never fires. Parameters: id texts, time texts.
\<close>

section \<open>The agent\<close>

definition dream_tool_policy :: tool_policy where
  "dream_tool_policy = build_tool_policy True False"

definition build_consolidation_prompt :: "rstr \<Rightarrow> rstr" where
  "build_consolidation_prompt extra =
     str ''You are performing a dream '' @ [8212] @ str '' a reflective pass over your wiki. Synthesize what you'' @ [39] @ str ''ve learned recently into durable, well-organized pages so future sessions can orient quickly.'' @ nl @ nl
     @ str ''The wiki layout is: entities/ concepts/ sources/ index.md log.md, plus daily logs logs/YYYY/MM/DD.md.'' @ nl @ nl
     @ str ''## Phase 1 '' @ [8212] @ str '' Orient (read-only)'' @ nl
     @ str ''- ls the wiki root; read index.md to understand the current catalog.'' @ nl
     @ str ''- Skim existing entity/concept/source pages so you improve them rather than creating duplicates.'' @ nl
     @ str ''- Review recent logs/YYYY/MM/* entries.'' @ nl @ nl
     @ str ''## Phase 2 '' @ [8212] @ str '' Gather recent signal (read-only)'' @ nl
     @ str ''- Scan daily logs + new captures since the clock; note facts that drifted or contradict what'' @ [39] @ str ''s now true.'' @ nl
     @ str ''- Use the recall_search tool with narrow terms YOU choose (then read_page / read_lines to follow up) over the capture-log/transcript JSONL. Don'' @ [39]
       @ str ''t exhaustively read; look only for things you already suspect matter.'' @ nl @ nl
     @ str ''## Phase 3 '' @ [8212] @ str '' Consolidate (propose writes)'' @ nl
     @ str ''- Merge new signal into existing pages rather than near-duplicates.'' @ nl
     @ str ''- Convert relative dates ('' @ [34] @ str ''yesterday'' @ [34] @ str '') to absolute dates so they stay interpretable.'' @ nl
     @ str ''- Delete/fix contradicted facts '' @ [8212] @ str '' fix at the source page.'' @ nl @ UNIVERSAL_LINK_CONSTRAINTS @ nl @ nl
     @ str ''## Phase 4 '' @ [8212] @ str '' Prune and index (propose writes)'' @ nl
     @ str ''- Rewrite index.md so it stays under 200 lines AND under ~25KB. It'' @ [39] @ str ''s an index, not a dump '' @ [8212]
       @ str '' one line per entry under ~150 characters: `- [[Title]] '' @ [8212] @ str '' one-line hook`.'' @ nl
     @ str ''- Remove stale/superseded pointers; demote any index line over ~200 characters into the topic page.'' @ nl
     @ str ''- Add pointers to newly important pages; resolve contradictions by fixing the wrong page.'' @ nl
     @ str ''- Append a log.md / daily-log entry of what changed.'' @ nl @ nl
     @ str ''Return a brief summary of what you consolidated, updated, or pruned. If nothing changed, say so.'' @ nl @ nl
     @ str ''## Additional context'' @ nl @ extra @ nl"

definition dream_request :: "rstr \<Rightarrow> wiki_req" where
  "dream_request since = \<lparr>wr_system = str ''You are the QCue Dream consolidation agent (read-only fork).'',
     wr_messages = [plain_message User (build_consolidation_prompt (str ''Tools are READ-ONLY except propose_edit/propose_write (which route through confirm). ''
       @ str ''Sessions since: '' @ since))],
     wr_format = None, wr_max_tokens = 4096, wr_cache = Some 1, wr_no_thinking = False\<rparr>"

record 'e dream_world =
  dr_lock :: lock_state
  dr_env :: 'e

record 'e dream_deps =
  dd_llm :: "'e wiki_llm"
  dd_cost_env :: "'e \<Rightarrow> cost_env"
  dd_cost :: "'e \<Rightarrow> cost_db"
  dd_gate :: gate_env
  dd_files :: "'e \<Rightarrow> (rstr \<rightharpoonup> rstr)"
  dd_store :: "'e \<Rightarrow> store"
  dd_request :: request
  dd_var :: "rstr option"
  dd_now :: "'e \<Rightarrow> time"
  dd_acquired :: "'e \<Rightarrow> time"
  dd_show_time :: "time \<Rightarrow> rstr"
  dd_parse_uuid :: "rstr \<Rightarrow> uuid option"
  dd_fresh :: "'e \<Rightarrow> uuid"
  dd_db_error :: "db_error \<Rightarrow> rstr"

definition guard_display :: "'e dream_deps \<Rightarrow> guard_error \<Rightarrow> rstr" where
  "guard_display d e = (case e of Ceiling_Reached why \<Rightarrow> str ''cost ceiling reached: '' @ why | Guard_Db e \<Rightarrow> dd_db_error d e)"

definition in_vault :: "'e dream_deps \<Rightarrow> 'e \<Rightarrow> rstr \<Rightarrow> bool" where
  "in_vault d env rel \<longleftrightarrow> (case resolve_in_root (dd_gate d) (dd_files d env) rel 1000000 of Inr _ \<Rightarrow> True | Inl _ \<Rightarrow> False)"

definition agent_run :: "'e dream_deps \<Rightarrow> bool \<Rightarrow> uuid \<Rightarrow> uuid \<Rightarrow> time \<Rightarrow> 'e dream_world \<Rightarrow> run_result \<times> 'e dream_world" where
  "agent_run d cancelled t u since w = (let env = dr_env w in
     if cancelled then (RunErr (str ''dream cancelled before start''), w)
     else case check_before_call (dd_cost_env d env) t u \<lparr>cg_db = dd_cost d env, cg_seen = {}\<rparr> of
       Some e \<Rightarrow> (RunErr (guard_display d e), w)
     | None \<Rightarrow> (case dd_llm d env (dream_request (dd_show_time d since)) of
         (env', Inl e) \<Rightarrow> (RunErr (wiki_error_display e), w\<lparr>dr_env := env'\<rparr>)
       | (env', Inr resp) \<Rightarrow> (RunOk \<lparr>files_touched = collect_files_touched (in_vault d env') (ws_content resp), turns = 1\<rparr>, w\<lparr>dr_env := env'\<rparr>)))"

definition propose_write :: "'e dream_deps \<Rightarrow> rstr \<Rightarrow> rstr \<Rightarrow> 'e \<Rightarrow> path_error + unit" where
  "propose_write d rel body env = (case resolve_in_root (dd_gate d) (dd_files d env) rel 1000000 of Inl e \<Rightarrow> Inl e | Inr _ \<Rightarrow> Inr ())"

section \<open>Destructive proposals\<close>

datatype destructive_op = Wiki_Merge uuid uuid | Wiki_Delete uuid

definition op_action :: "destructive_op \<Rightarrow> rstr" where
  "op_action p = (case p of Wiki_Merge _ _ \<Rightarrow> str ''wiki_merge'' | Wiki_Delete _ \<Rightarrow> str ''wiki_delete'')"

definition op_subject :: "(uuid \<Rightarrow> rstr) \<Rightarrow> destructive_op \<Rightarrow> jvalue" where
  "op_subject show_id p = (case p of
     Wiki_Merge a b \<Rightarrow> json_obj [(''from'', JString (show_id a)), (''into'', JString (show_id b))]
   | Wiki_Delete a \<Rightarrow> json_obj [(''page'', JString (show_id a))])"

definition soft_delete_target :: "destructive_op \<Rightarrow> uuid" where
  "soft_delete_target p = (case p of Wiki_Merge a _ \<Rightarrow> a | Wiki_Delete a \<Rightarrow> a)"

datatype approval_status = Awaiting | Approved | Rejected | Expired

record approval =
  pa_id :: uuid
  pa_tenant :: uuid
  pa_user :: uuid
  pa_action :: rstr
  pa_subject :: jvalue
  pa_by :: rstr
  pa_status :: approval_status
  pa_decided_by :: "uuid option"
  pa_created :: time

definition route_destructive :: "(uuid \<Rightarrow> rstr) \<Rightarrow> time \<Rightarrow> gate_env \<Rightarrow> uuid \<Rightarrow> uuid \<Rightarrow> rstr \<Rightarrow> destructive_op
    \<Rightarrow> approval list \<times> wiki \<Rightarrow> uuid \<times> approval list \<times> wiki" where
  "route_destructive show_id now env new_id u requested_by p s = (case s of (as, w) \<Rightarrow>
     (new_id, as @ [\<lparr>pa_id = new_id, pa_tenant = ge_tenant env, pa_user = u, pa_action = op_action p, pa_subject = op_subject show_id p, pa_by = requested_by,
        pa_status = Awaiting, pa_decided_by = None, pa_created = now\<rparr>],
      soft_delete env (soft_delete_target p) w))"

definition propose_merge :: "(uuid \<Rightarrow> rstr) \<Rightarrow> time \<Rightarrow> gate_env \<Rightarrow> uuid \<Rightarrow> uuid \<Rightarrow> uuid \<Rightarrow> uuid \<Rightarrow> approval list \<times> wiki
    \<Rightarrow> approval list \<times> wiki" where
  "propose_merge show_id now env new_id u source target s = snd (route_destructive show_id now env new_id u (str ''dream'') (Wiki_Merge source target) s)"

section \<open>The handler\<close>

text \<open>The lock operations on the lock row of the state.\<close>

definition on_lock :: "(lock_state \<Rightarrow> lock_state) \<Rightarrow> 'e dream_world \<Rightarrow> 'e dream_world" where
  "on_lock f w = w\<lparr>dr_lock := f (dr_lock w)\<rparr>"

definition job_lock :: "'e dream_world lock_ops" where
  "job_lock = \<lparr>l_read = (\<lambda>w. read_clock (dr_lock w)),
     l_acquire = (\<lambda>now h w. case try_acquire now h (dr_lock w) of (p, s) \<Rightarrow> (p, w\<lparr>dr_lock := s\<rparr>)),
     l_release = on_lock release, l_rollback = (\<lambda>prior. on_lock (rollback prior))\<rparr>"

definition job_env :: "'e dream_deps \<Rightarrow> uuid \<Rightarrow> uuid \<Rightarrow> uuid \<Rightarrow> 'e dream_world \<Rightarrow> 'e dream_world dream_env" where
  "job_env d t u current w = (let env = dr_env w in
     \<lparr>de_cfg = dream_config_default, de_var = dd_var d, de_now = dd_now d env, de_acquired = dd_acquired d env,
      de_captures = (\<lambda>since. captures_since (dd_request d) since current (dd_store d env)),
      de_runner = agent_run d False t u, de_cancelled = False\<rparr>)"

definition json_str_list :: "rstr list \<Rightarrow> jvalue" where "json_str_list xs = JArray (map JString xs)"

definition outcome_fields :: "dream_outcome \<Rightarrow> (string \<times> jvalue) list" where
  "outcome_fields out = [(''improved_pages'', json_int (int (length (files_touched out)))), (''files_touched'', json_str_list (files_touched out)),
     (''turns'', json_int (int (turns out)))]"

definition payload_uuid :: "'e dream_deps \<Rightarrow> string \<Rightarrow> jvalue \<Rightarrow> uuid option" where
  "payload_uuid d k p = Option.bind (Option.bind (jget p (str k)) as_str) (dd_parse_uuid d)"

text \<open>What a job publishes, the state it leaves, its answer. The scheduler is new, so it has no stamp of a scan.\<close>

definition handle_dream :: "(uuid \<Rightarrow> rstr) \<Rightarrow> 'e dream_deps \<Rightarrow> uuid \<Rightarrow> jvalue \<Rightarrow> 'e dream_world
    \<Rightarrow> stream_msg list \<times> 'e dream_world \<times> (rstr + jvalue)" where
  "handle_dream show_id d t p w = (case payload_uuid d ''user_id'' p of
     None \<Rightarrow> ([], w, Inl (str ''dream payload missing user_id''))
   | Some u \<Rightarrow> (let current = the_or (dd_fresh d (dr_env w)) (payload_uuid d ''current_session'' p);
         started = (str ''dream_started'', json_obj [(''tenant'', JString (show_id t))])
       in case try_dream job_lock (job_env d t u current w) None w of (r, _, w') \<Rightarrow> (case r of
            Dreamed out \<Rightarrow> ([started, (str ''dream_completed'', json_obj (outcome_fields out))], w',
              Inr (json_obj ((''dreamed'', JBool True) # outcome_fields out)))
          | NoDream \<Rightarrow> ([started, (str ''dream_completed'', json_obj [(''dreamed'', JBool False)])], w', Inr (json_obj [(''dreamed'', JBool False)]))
          | DreamFailed e \<Rightarrow> ([started, (str ''dream_failed'', json_obj [(''error'', JString e)])], w', Inl e))))"

definition dream_job :: "(uuid \<Rightarrow> rstr) \<Rightarrow> ('tx, 'rx) broadcast \<Rightarrow> 'e dream_deps \<Rightarrow> uuid \<Rightarrow> uuid \<Rightarrow> jvalue \<Rightarrow> 'e dream_world \<Rightarrow> 'tx hub
    \<Rightarrow> 'e dream_world \<times> 'tx hub \<times> (rstr + jvalue)" where
  "dream_job show_id bc d t job p w h = (case handle_dream show_id d t p w of (ms, w', r) \<Rightarrow> (w', publish_all bc job ms h, r))"

section \<open>Cron and manual start\<close>

record dream_start =
  st_show_id :: "uuid \<Rightarrow> rstr"
  st_print :: "jvalue \<Rightarrow> rstr"
  st_enabled :: bool
  st_var :: "rstr option"
  st_now :: time
  st_fresh :: "nat \<Rightarrow> uuid \<times> uuid"

definition cron_payload :: "dream_start \<Rightarrow> uuid \<Rightarrow> uuid \<Rightarrow> jvalue" where
  "cron_payload c u session = json_obj [(''user_id'', JString (st_show_id c u)), (''current_session'', JString (st_show_id c session))]"

text \<open>The tenants of a tick with their first user; an enqueue that fails is rolled back.\<close>

fun tick_tenants :: "dream_start \<Rightarrow> (uuid \<Rightarrow> lock_state) \<Rightarrow> nat \<Rightarrow> (uuid \<times> uuid) list \<Rightarrow> job list \<Rightarrow> nat \<times> job list" where
  "tick_tenants c locks k [] js = (0, js)"
| "tick_tenants c locks k ((t, u) # ts) js = (
     if dream_due pg_lock dream_config_default (st_var c) (st_now c) None (locks t)
     then (case st_fresh c k of (session, new_id) \<Rightarrow>
       (case enqueue (st_print c) (st_now c) new_id t (Some u) Dream (cron_payload c u session) (Some (str ''dream:'' @ st_show_id c t)) js of
          (Inr _, js') \<Rightarrow> (case tick_tenants c locks (k + 1) ts js' of (n, js'') \<Rightarrow> (n + 1, js''))
        | (Inl _, _) \<Rightarrow> tick_tenants c locks (k + 1) ts js))
     else tick_tenants c locks (k + 1) ts js)"

definition tick_once :: "dream_start \<Rightarrow> (uuid \<Rightarrow> lock_state) \<Rightarrow> (uuid \<times> uuid) list \<Rightarrow> job list \<Rightarrow> nat \<times> job list" where
  "tick_once c locks owners js = (if st_enabled c then tick_tenants c locks 0 owners js else (0, js))"

definition dream_run_route :: "dream_start \<Rightarrow> uuid \<Rightarrow> uuid \<Rightarrow> job list \<Rightarrow> (http_error + jvalue) \<times> job list" where
  "dream_run_route c t u js = (case st_fresh c 0 of (session, new_id) \<Rightarrow>
     (case enqueue (st_print c) (st_now c) new_id t (Some u) Dream
         (json_obj [(''manual'', JBool True), (''user_id'', JString (st_show_id c u)), (''current_session'', JString (st_show_id c session))])
         (Some (str ''dream:manual'')) js of
        (Inr i, js') \<Rightarrow> (Inr (json_obj [(''job_id'', JString (st_show_id c i))]), js')
      | (Inl _, _) \<Rightarrow> (Inl Server_Overloaded, js)))"

section \<open>The contract of the lock, on a job's state\<close>

definition job_held :: "time \<Rightarrow> 'e dream_world \<Rightarrow> bool" where "job_held n w = pg_held n (dr_lock w)"

interpretation job: consolidation_lock job_lock job_held
  by unfold_locales (auto simp: job_lock_def job_held_def on_lock_def pg_defs split: option.splits if_splits prod.splits)

lemma agent_keeps_lock [simp]: "dr_lock (snd (agent_run d c t u since w)) = dr_lock w"
  by (auto simp: agent_run_def Let_def split: option.splits sum.splits prod.splits)

lemma job_runner [simp]: "de_runner (job_env d t u cur w) = agent_run d False t u" "\<not> de_cancelled (job_env d t u cur w)"
  "de_acquired (job_env d t u cur w) = dd_acquired d (dr_env w)"
  by (simp_all add: job_env_def Let_def)

text \<open>The states of a run: nothing happened, or the lock was taken, the agent ran and the lock was given back.\<close>

lemma try_dream_job:
  assumes "try_dream job_lock (job_env d t u cur w) None w = (r, scan, w')"
  shows "(r = NoDream \<and> w' = w) \<or> (\<exists>prior s run w1. try_acquire (dd_acquired d (dr_env w)) (str ''dream-worker'') (dr_lock w) = (Some prior, s)
    \<and> agent_run d False t u (read_clock (dr_lock w)) (w\<lparr>dr_lock := s\<rparr>) = (run, w1) \<and> dr_lock w1 = s
    \<and> (case run of RunOk out \<Rightarrow> r = Dreamed out \<and> w' = on_lock release w1 | RunErr e \<Rightarrow> r = DreamFailed e \<and> w' = on_lock (rollback prior) w1))"
proof -
  obtain p s where a: "try_acquire (dd_acquired d (dr_env w)) (str ''dream-worker'') (dr_lock w) = (p, s)" by (metis prod.exhaust)
  obtain run w1 where run: "agent_run d False t u (read_clock (dr_lock w)) (w\<lparr>dr_lock := s\<rparr>) = (run, w1)" by (metis prod.exhaust)
  have w1: "dr_lock w1 = s" using agent_keeps_lock [of d False t u "read_clock (dr_lock w)" "w\<lparr>dr_lock := s\<rparr>"] run by simp
  have none: "p = None \<Longrightarrow> w\<lparr>dr_lock := s\<rparr> = w" using a by (auto simp: try_acquire_def split: option.splits if_splits)
  show ?thesis
    using assms none by (cases p; cases run) (auto simp: try_dream_def Let_def job_lock_def a run w1 split: if_splits)
qed

lemma taken:
  "try_acquire n h s = (Some prior, s') \<Longrightarrow> prior = read_clock s \<and> read_clock s' = n \<and> s' \<noteq> None"
  by (auto simp: try_acquire_def read_clock_def split: option.splits if_splits)

lemma given_back:
  assumes "s \<noteq> None"
  shows "read_clock (release s) = read_clock s" "\<not> pg_held n (release s)" "read_clock (rollback p s) = p" "\<not> pg_held n (rollback p s)"
  using assms by (auto simp: pg_defs)

lemma job_outcome:
  assumes "try_dream job_lock (job_env d t u cur w) None w = (r, scan, w')"
  shows "case r of
      NoDream \<Rightarrow> w' = w
    | Dreamed _ \<Rightarrow> read_clock (dr_lock w') = dd_acquired d (dr_env w) \<and> \<not> pg_held n (dr_lock w')
    | DreamFailed _ \<Rightarrow> read_clock (dr_lock w') = read_clock (dr_lock w) \<and> \<not> pg_held n (dr_lock w')"
  using try_dream_job [OF assms]
proof (elim disjE exE conjE)
  fix prior s run w1
  assume a: "try_acquire (dd_acquired d (dr_env w)) (str ''dream-worker'') (dr_lock w) = (Some prior, s)" and l: "dr_lock w1 = s"
    and r: "case run of RunOk out \<Rightarrow> r = Dreamed out \<and> w' = on_lock release w1 | RunErr e \<Rightarrow> r = DreamFailed e \<and> w' = on_lock (rollback prior) w1"
  have t: "prior = read_clock (dr_lock w)" "read_clock s = dd_acquired d (dr_env w)" "s \<noteq> None" using taken [OF a] by auto
  show ?thesis using r by (cases run) (simp_all add: on_lock_def l t given_back [OF t(3)])
qed simp

lemma refused_agent:
  assumes "check_before_call (dd_cost_env d (dr_env w)) t u \<lparr>cg_db = dd_cost d (dr_env w), cg_seen = {}\<rparr> \<noteq> None"
  shows "\<exists>e. agent_run d False t u since (w\<lparr>dr_lock := s\<rparr>) = (RunErr e, w\<lparr>dr_lock := s\<rparr>)"
  using assms by (auto simp: agent_run_def Let_def)

lemma refused_outcome:
  assumes "check_before_call (dd_cost_env d (dr_env w)) t u \<lparr>cg_db = dd_cost d (dr_env w), cg_seen = {}\<rparr> \<noteq> None"
    and "try_dream job_lock (job_env d t u cur w) None w = (r, scan, w')"
  shows "dr_env w' = dr_env w \<and> (\<forall>out. r \<noteq> Dreamed out)"
  using try_dream_job [OF assms(2)]
proof (elim disjE exE conjE)
  fix prior s run w1
  assume g: "agent_run d False t u (read_clock (dr_lock w)) (w\<lparr>dr_lock := s\<rparr>) = (run, w1)"
    and r: "case run of RunOk out \<Rightarrow> r = Dreamed out \<and> w' = on_lock release w1 | RunErr e \<Rightarrow> r = DreamFailed e \<and> w' = on_lock (rollback prior) w1"
  obtain e where "run = RunErr e" "w1 = w\<lparr>dr_lock := s\<rparr>"
    using refused_agent [OF assms(1), of "read_clock (dr_lock w)" s] g by auto
  then show ?thesis using r by (simp add: on_lock_def)
qed simp

text \<open>
  Further: a dream job reports once, and its clock tells what it reported. A job with a user publishes its start and exactly one end. If it
  reports a dream the clock stands at the acquisition, if it reports a failure it stands where it was, in both cases
  the lease is free; if it reports that nothing was dreamed the state is as before.
\<close>

theorem dream_reports_once:
  assumes user: "payload_uuid d ''user_id'' p = Some u" and run: "handle_dream show_id d t p w = (ms, w', r)"
  shows "map fst ms = [str ''dream_started'', (case r of Inl _ \<Rightarrow> str ''dream_failed'' | Inr _ \<Rightarrow> str ''dream_completed'')]"
    "case r of
      Inl e \<Rightarrow> read_clock (dr_lock w') = read_clock (dr_lock w) \<and> \<not> pg_held n (dr_lock w')
    | Inr v \<Rightarrow> v = json_obj [(''dreamed'', JBool False)] \<and> w' = w
        \<or> read_clock (dr_lock w') = dd_acquired d (dr_env w) \<and> \<not> pg_held n (dr_lock w')"
proof -
  obtain res scan w1 where tried: "try_dream job_lock (job_env d t u (the_or (dd_fresh d (dr_env w)) (payload_uuid d ''current_session'' p)) w) None w
      = (res, scan, w1)" by (metis prod.exhaust)
  show "map fst ms = [str ''dream_started'', (case r of Inl _ \<Rightarrow> str ''dream_failed'' | Inr _ \<Rightarrow> str ''dream_completed'')]"
    using run by (auto simp: handle_dream_def user tried Let_def split: dream_result.splits)
  show "case r of
      Inl e \<Rightarrow> read_clock (dr_lock w') = read_clock (dr_lock w) \<and> \<not> pg_held n (dr_lock w')
    | Inr v \<Rightarrow> v = json_obj [(''dreamed'', JBool False)] \<and> w' = w
        \<or> read_clock (dr_lock w') = dd_acquired d (dr_env w) \<and> \<not> pg_held n (dr_lock w')"
    using job_outcome [OF tried, of n] run by (cases res) (auto simp: handle_dream_def user tried Let_def)
qed

text \<open>
  Further: a dream without budget calls no model. When the check refuses, the rest of the state is as before and no dream is reported.
\<close>

theorem refused_dream_is_free:
  assumes "\<And>u. check_before_call (dd_cost_env d (dr_env w)) t u \<lparr>cg_db = dd_cost d (dr_env w), cg_seen = {}\<rparr> \<noteq> None"
    and "handle_dream show_id d t p w = (ms, w', r)"
  shows "dr_env w' = dr_env w \<and> (case r of Inl _ \<Rightarrow> True | Inr v \<Rightarrow> v = json_obj [(''dreamed'', JBool False)])"
proof (cases "payload_uuid d ''user_id'' p")
  case None
  then show ?thesis using assms(2) by (auto simp: handle_dream_def)
next
  case (Some u)
  obtain res scan w1 where tried: "try_dream job_lock (job_env d t u (the_or (dd_fresh d (dr_env w)) (payload_uuid d ''current_session'' p)) w) None w
      = (res, scan, w1)" by (metis prod.exhaust)
  show ?thesis
    using assms(2) refused_outcome [OF assms(1) tried] by (cases res) (auto simp: handle_dream_def Some tried Let_def)
qed

lemma elapsed_mono: "now \<le> now' \<Longrightarrow> elapsed_hours now since \<le> elapsed_hours now' since"
proof -
  let ?f = "\<lambda>d::int. if 0 \<le> d then d div 1000000 else - (- d div 1000000)"
  assume le: "now \<le> now'"
  have "?f (now - since) \<le> ?f (now' - since)"
    using le zdiv_mono1 [of "now - since" "now' - since" 1000000] zdiv_mono1 [of "- (now' - since)" "- (now - since)" 1000000]
      pos_imp_zdiv_nonneg_iff [of 1000000 "now' - since"] pos_imp_zdiv_nonneg_iff [of 1000000 "- (now - since)"]
    by (simp split: if_splits) linarith
  then show ?thesis by (simp add: elapsed_hours_def Let_def divide_right_mono)
qed

text \<open>
  Further: a job that does nothing leaves the dream due. When the session gate stops a job the lock row is as before, so at every later time the
  next tick starts another job.
\<close>

theorem idle_dream_restarts:
  assumes due: "dream_due pg_lock dream_config_default (dd_var d) (dd_now d (dr_env w)) None (dr_lock w)"
    and idle: "captures_since (dd_request d) (read_clock (dr_lock w)) cur (dd_store d (dr_env w)) < 5"
    and later: "dd_now d (dr_env w) \<le> now"
  shows "fst (try_dream job_lock (job_env d t u cur w) None w) = NoDream"
    "dream_due pg_lock dream_config_default (dd_var d) now None (dr_lock (snd (snd (try_dream job_lock (job_env d t u cur w) None w))))"
proof -
  have r: "fst (try_dream job_lock (job_env d t u cur w) None w) = NoDream \<and> snd (snd (try_dream job_lock (job_env d t u cur w) None w)) = w"
    using idle by (simp add: try_dream_def Let_def job_env_def eval_gate_def dream_config_default_def job_lock_def cheap_gates_def)
  then show "fst (try_dream job_lock (job_env d t u cur w) None w) = NoDream" by simp
  show "dream_due pg_lock dream_config_default (dd_var d) now None (dr_lock (snd (snd (try_dream job_lock (job_env d t u cur w) None w))))"
    using due r elapsed_mono [OF later, of "l_read pg_lock (dr_lock w)"]
    by (simp add: dream_due_def scan_throttle_ok_def)
qed

lemma in_vault_path:
  assumes "in_vault d env rel"
  shows "\<exists>path. resolve_in_root (dd_gate d) (dd_files d env) rel 1000000 = Inr path \<and> ends_with rel (str ''.md'') \<and> \<not> contains rel (str ''..'')"
proof -
  obtain path where "resolve_in_root (dd_gate d) (dd_files d env) rel 1000000 = Inr path"
    using assms by (auto simp: in_vault_def split: sum.splits)
  then show ?thesis by (auto simp: resolve_in_root_def Let_def split: if_splits option.splits)
qed

text \<open>
  Further: the files a dream reports are in the vault: distinct Markdown paths the path guard accepts, whatever the model wrote.
\<close>

theorem dream_reports_vault_files:
  assumes "agent_run d c t u since w = (RunOk out, w')"
  shows "distinct (files_touched out) \<and> (\<forall>rel\<in>set (files_touched out).
    \<exists>path. resolve_in_root (dd_gate d) (dd_files d (dr_env w')) rel 1000000 = Inr path \<and> ends_with rel (str ''.md'') \<and> \<not> contains rel (str ''..''))"
proof -
  obtain answer where files: "files_touched out = collect_files_touched (in_vault d (dr_env w')) answer"
    using assms by (auto simp: agent_run_def Let_def split: if_splits option.splits sum.splits prod.splits)
  have ok: "distinct (files_touched out) \<and> list_all (\<lambda>rel. in_vault d (dr_env w') rel \<and> ends_with rel md) (files_touched out)"
    unfolding files by (rule files_touched_confined)
  show ?thesis
  proof (intro conjI ballI)
    show "distinct (files_touched out)" using ok by (rule conjunct1)
    fix rel assume "rel \<in> set (files_touched out)"
    with ok have "in_vault d (dr_env w') rel" by (simp add: list_all_iff)
    then show "\<exists>path. resolve_in_root (dd_gate d) (dd_files d (dr_env w')) rel 1000000 = Inr path \<and> ends_with rel (str ''.md'') \<and> \<not> contains rel (str ''..'')"
      by (rule in_vault_path)
  qed
qed

text \<open>
  Further: a merge hides its source before anybody approved it. The proposal adds one pending approval, and the source page is
  no longer among the tenant's pages; other pages stay.
\<close>

theorem merge_hides_unapproved:
  assumes "propose_merge show_id now env new_id u source target (as, w) = (as', w')"
  shows "length as' = length as + 1 \<and> existing_pages env w' = filter (\<lambda>p. p_id p \<noteq> source) (existing_pages env w)"
  using assms by (auto simp: propose_merge_def route_destructive_def soft_delete_target_def soft_delete_existing)

lemma enqueue_grows:
  "enqueue pr now i t u k p ref js = (r, js') \<Longrightarrow> js' = js \<or> (\<exists>j. js' = js @ [j] \<and> j_tenant j = t \<and> j_kind j = k)"
  by (auto simp: enqueue_def new_job_def split: if_splits option.splits)

text \<open>
  Further: a tick starts at most one job per tenant it was given, counts at least the jobs it adds, and touches no other job.
\<close>

theorem tick_bounded:
  "prefix js (snd (tick_tenants c locks k ts js)) \<and> length (snd (tick_tenants c locks k ts js)) \<le> length js + fst (tick_tenants c locks k ts js)
   \<and> fst (tick_tenants c locks k ts js) \<le> length ts"
proof (induction ts arbitrary: k js)
  case (Cons a ts)
  obtain t u where a: "a = (t, u)" by (cases a)
  obtain session new_id where f: "st_fresh c k = (session, new_id)" by (cases "st_fresh c k")
  obtain r js' where e: "enqueue (st_print c) (st_now c) new_id t (Some u) Dream (cron_payload c u session) (Some (str ''dream:'' @ st_show_id c t)) js = (r, js')"
    by (metis prod.exhaust)
  have "prefix js js' \<and> length js' \<le> length js + 1" using enqueue_grows [OF e] by auto
  moreover note Cons.IH [where k = "k + 1" and js = js] Cons.IH [where k = "k + 1" and js = js']
  ultimately show ?case
    by (cases r) (auto simp: a f e split: prod.splits)
qed simp

end
