(* ===== verification/Live_Turn.thy ===== *)
theory Live_Turn
  imports Recall Wire_Session
begin

text \<open>
  A live turn over the session socket (\<open>wire/engine.rs\<close>, \<open>RecallTurnStarter\<close>): the events with their payloads and numbers, what is
  stored, and the interrupt. The kinds of the events refine \<open>Wire_Session.live_turn\<close>; request and stored rows are those of the event-stream driver. Parameters: which
  pushes of the sink the bounded channel takes, and how far a call had come when it was dropped.
\<close>

section \<open>Events\<close>

fun as_wire :: "runtime_event \<Rightarrow> string" where
  "as_wire ThreadStarted = ''threadStarted''"
| "as_wire TurnStarted = ''turnStarted''"
| "as_wire ItemStarted = ''itemStarted''"
| "as_wire ItemDelta = ''itemDelta''"
| "as_wire ItemCompleted = ''itemCompleted''"
| "as_wire TurnCompleted = ''turnCompleted''"
| "as_wire UsageEvent = ''usage''"
| "as_wire ErrorEvent = ''error''"

text \<open>An event and whether the sink pushed it (\<open>try_send\<close>) or the task sent it.\<close>

record ws_emit =
  we_sink :: bool
  we_kind :: runtime_event
  we_payload :: jvalue

definition sent :: "runtime_event \<Rightarrow> jvalue \<Rightarrow> ws_emit" where "sent k p = \<lparr>we_sink = False, we_kind = k, we_payload = p\<rparr>"
definition pushed :: "runtime_event \<Rightarrow> jvalue \<Rightarrow> ws_emit" where "pushed k p = \<lparr>we_sink = True, we_kind = k, we_payload = p\<rparr>"

definition typed :: "string \<Rightarrow> (string \<times> jvalue) list \<Rightarrow> jvalue" where "typed ty fs = json_obj ((''type'', JString (str ty)) # fs)"
definition ws_delta :: "rstr \<Rightarrow> jvalue" where "ws_delta s = json_obj [(''delta'', JString s)]"

definition WS_TOOL_RESULT_PREVIEW_CHARS :: nat where "WS_TOOL_RESULT_PREVIEW_CHARS = 600"

definition ws_item :: "from_str \<Rightarrow> turn_event \<Rightarrow> ws_emit list" where
  "ws_item rd e = (case e of
     Turn.OnToolCall _ name args \<Rightarrow>
       [pushed ItemStarted (typed ''toolCall'' [(''name'', JString name), (''args'', case rd args of Some v \<Rightarrow> v | None \<Rightarrow> JString args)]),
        pushed ItemCompleted (typed ''toolCall'' [(''name'', JString name)])]
   | Turn.OnToolResult _ name res \<Rightarrow>
       [pushed ItemStarted (typed ''toolResult'' [(''name'', JString name)]), pushed ItemDelta (ws_delta (take WS_TOOL_RESULT_PREVIEW_CHARS res)),
        pushed ItemCompleted (typed ''toolResult'' [(''name'', JString name)])]
   | Turn.OnAssistantDelta _ s \<Rightarrow>
       [pushed ItemStarted (typed ''agentMessage'' []), pushed ItemDelta (ws_delta s), pushed ItemCompleted (typed ''agentMessage'' [])]
   | _ \<Rightarrow> [])"

definition error_emits :: "jvalue \<Rightarrow> ws_emit list" where
  "error_emits d = [sent ItemStarted (typed ''error'' []), sent ItemDelta d, sent ItemCompleted (typed ''error'' [])]"

definition turn_end :: "string \<Rightarrow> ws_emit" where "turn_end s = sent TurnCompleted (json_obj [(''status'', JString (str s))])"

definition failed_turn :: "jvalue \<Rightarrow> ws_emit list" where "failed_turn d = error_emits d @ [turn_end ''failed'']"

definition coded :: "rstr \<Rightarrow> int \<Rightarrow> jvalue" where "coded s code = json_obj [(''delta'', JString s), (''code'', json_int code)]"

section \<open>The turn\<close>

text \<open>An interrupt drops the call: the events it had reported and the state it had reached.\<close>

type_synonym 'e interrupt = "(nat \<times> 'e) option"

definition ws_call :: "'e recall_deps \<Rightarrow> uuid \<Rightarrow> uuid \<Rightarrow> uuid \<Rightarrow> wiki_req \<Rightarrow> 'e interrupt \<Rightarrow> 'e recall_world \<Rightarrow> ws_emit list \<times> 'e recall_world" where
  "ws_call d t u thread req ic w =
     (case create_message_observed_with_override (rd_env d) (rd_seam d) t req True no_override (rw_env w) of (evs, env', r) \<Rightarrow>
       (case ic of
          Some (n, env'') \<Rightarrow> (concat (map (ws_item (rd_json d)) (take n evs)) @ [turn_end ''interrupted''], w\<lparr>rw_env := env''\<rparr>)
        | None \<Rightarrow> (case r of
            Inr resp \<Rightarrow> (concat (map (ws_item (rd_json d)) evs) @ [turn_end ''completed''],
              w\<lparr>rw_env := env', rw_chats := insert_assistant_message t u thread (ws_content resp) (rw_chats w)\<rparr>)
          | Inl e \<Rightarrow> (concat (map (ws_item (rd_json d)) evs) @ failed_turn (ws_delta (wiki_error_display e)), w\<lparr>rw_env := env'\<rparr>))))"

text \<open>The spawned task; a client that is gone at the first event ends it.\<close>

definition ws_task :: "'e recall_deps \<Rightarrow> uuid \<Rightarrow> uuid \<Rightarrow> uuid \<Rightarrow> wiki_req \<Rightarrow> bool \<Rightarrow> 'e interrupt \<Rightarrow> 'e recall_world \<Rightarrow> ws_emit list \<times> 'e recall_world" where
  "ws_task d t u thread req present ic w = (if \<not> present then ([], w)
     else let started = sent TurnStarted JNull; env = rw_env w in
       case check_ceiling (sv_cost_env (rd_env d) env) t u (rd_cost d env) of
         Inr (Some why) \<Rightarrow> (started # failed_turn (coded why COST_CEILING_CODE), w)
       | Inl _ \<Rightarrow> (started # failed_turn (ws_delta (str ''cost check failed; try again'')), w)
       | Inr None \<Rightarrow> if rw_permits w = 0 then (started # failed_turn (coded (str ''server busy; please retry shortly'') OVERLOADED_CODE), w)
           else (case ws_call d t u thread req ic w of (es, w') \<Rightarrow> (started # es, w')))"

text \<open>The request is built and the question stored before the task starts. \<open>None\<close>: the index builder panicked.\<close>

definition start_live :: "'e recall_deps \<Rightarrow> uuid \<Rightarrow> uuid \<Rightarrow> uuid \<Rightarrow> rstr \<Rightarrow> surface \<Rightarrow> bool \<Rightarrow> 'e interrupt \<Rightarrow> 'e recall_world
    \<Rightarrow> (ws_emit list \<times> 'e recall_world) option" where
  "start_live d t u thread input mode present ic w =
     map_option (\<lambda>index. let req = recall_request d t thread input mode no_override index w in
         ws_task d t u thread req present ic (w\<lparr>rw_chats := persist_question (rd_clock d (rw_env w)) t u thread input (rw_chats w)\<rparr>))
       (regenerate_index (rd_latest d) ((rd_gate d)\<lparr>ge_tenant := t\<rparr>) (rd_wiki d (rw_env w)))"

text \<open>Every event takes a number; a push the channel has no room for is lost.\<close>

definition delivered :: "uuid \<Rightarrow> uuid \<Rightarrow> (nat \<Rightarrow> bool) \<Rightarrow> ws_emit list \<Rightarrow> envelope list" where
  "delivered thread turn fits es = map (\<lambda>(i, e). \<lparr>schema_version = 1, thread_id = thread, turn_id = Some turn, env_seq = of_nat i + 1,
       event = str (as_wire (we_kind e)), payload = we_payload e\<rparr>)
     (filter (\<lambda>(i, e). we_sink e \<longrightarrow> fits i) (enumerate 0 es))"

section \<open>The kinds of the events\<close>

definition sink_call_of :: "turn_event \<Rightarrow> sink_call option" where
  "sink_call_of e = (case e of
     Turn.OnToolCall _ name args \<Rightarrow> Some (OnToolCall name args) | Turn.OnToolResult _ name res \<Rightarrow> Some (OnToolResult name res)
   | Turn.OnAssistantDelta _ s \<Rightarrow> Some (OnAssistantDelta s) | _ \<Rightarrow> None)"

definition gate_of :: "db_error + rstr option \<Rightarrow> ws_gate" where
  "gate_of r = (case r of Inl _ \<Rightarrow> CeilingError | Inr None \<Rightarrow> CeilingOk | Inr (Some why) \<Rightarrow> CeilingHit why)"

definition outcome_of :: "'e interrupt \<Rightarrow> wiki_llm_error + wiki_resp \<Rightarrow> ws_outcome" where
  "outcome_of ic r = (case ic of Some _ \<Rightarrow> WsCancelled
     | None \<Rightarrow> (case r of Inr resp \<Rightarrow> WsAnswer (ws_content resp) | Inl e \<Rightarrow> WsFailed (wiki_error_display e)))"

definition ws_reported :: "'e interrupt \<Rightarrow> turn_event list \<Rightarrow> turn_event list" where
  "ws_reported ic evs = (case ic of Some (n, _) \<Rightarrow> take n evs | None \<Rightarrow> evs)"

lemma item_kinds: "map we_kind (ws_item rd e) = (case sink_call_of e of Some c \<Rightarrow> runtime_events c | None \<Rightarrow> [])"
  by (simp add: ws_item_def sink_call_of_def pushed_def split: turn_event.split)

lemma item_sink: "list_all we_sink (ws_item rd e)"
  by (simp add: ws_item_def pushed_def split: turn_event.split)

lemma items_kinds: "map we_kind (concat (map (ws_item rd) evs)) = concat (map runtime_events (List.map_filter sink_call_of evs))"
  by (induction evs) (simp_all add: item_kinds map_filter_simps split: option.splits)

lemma items_sink: "list_all we_sink (concat (map (ws_item rd) evs))"
  by (induction evs) (simp_all add: item_sink)

definition kept_kinds :: "(nat \<Rightarrow> bool) \<Rightarrow> nat \<Rightarrow> ws_emit list \<Rightarrow> runtime_event list" where
  "kept_kinds fits n es = map (\<lambda>(i, e). we_kind e) (filter (\<lambda>(i, e). we_sink e \<longrightarrow> fits i) (enumerate n es))"

lemma kept_append: "kept_kinds fits n (xs @ ys) = kept_kinds fits n xs @ kept_kinds fits (n + length xs) ys"
  by (simp add: kept_kinds_def enumerate_append_eq)

lemma kept_task: "\<not> list_ex we_sink es \<Longrightarrow> kept_kinds fits n es = map we_kind es"
  by (induction es arbitrary: n) (auto simp: kept_kinds_def)

lemma kept_sink: "list_all we_sink es \<Longrightarrow> kept_kinds fits n es = map snd (filter (\<lambda>(i, _). fits (i + n)) (enumerate 0 (map we_kind es)))"
proof (induction es rule: rev_induct)
  case (snoc e es)
  then show ?case by (simp add: kept_kinds_def enumerate_append_eq add.commute)
qed (simp add: kept_kinds_def)

lemma delivered_kinds: "map event (delivered thread turn fits es) = map (\<lambda>k. str (as_wire k)) (kept_kinds fits 0 es)"
  by (simp add: delivered_def kept_kinds_def case_prod_unfold)

lemma kept_items:
  "kept_kinds fits n (concat (map (ws_item rd) evs)) = sink_sent (\<lambda>i. fits (i + n)) (List.map_filter sink_call_of evs)"
  by (simp add: kept_sink items_sink items_kinds sink_sent_def)

lemma error_kinds [simp]: "kept_kinds fits n (error_emits d) = error_item"
  by (subst kept_task) (simp_all add: error_emits_def error_item_def sent_def)

lemma end_kinds [simp]: "kept_kinds fits n [turn_end s] = [TurnCompleted]"
  by (subst kept_task) (simp_all add: turn_end_def sent_def)

lemma failed_kinds [simp]: "kept_kinds fits n (failed_turn d) = error_item @ [TurnCompleted]"
  by (simp add: failed_turn_def kept_append)

lemma start_kinds: "kept_kinds fits n (sent TurnStarted p # es) = TurnStarted # kept_kinds fits (Suc n) es"
  by (simp add: kept_kinds_def sent_def)

lemma ws_call_kinds:
  assumes "create_message_observed_with_override (rd_env d) (rd_seam d) t req True no_override (rw_env w) = (evs, env', r)"
  shows "TurnStarted # kept_kinds fits 1 (fst (ws_call d t u thread req ic w))
    = fst (live_turn CeilingOk True (\<lambda>i. fits (i + 1)) (List.map_filter sink_call_of (ws_reported ic evs)) (outcome_of ic r))"
  by (cases ic; cases r) (auto simp: ws_call_def assms live_turn_def ws_reported_def outcome_of_def kept_append kept_items)


section \<open>What a live turn stores\<close>

text \<open>
  Further: the two drivers do the same. Over the same state, with room in the budget and a free permit, an uninterrupted live turn and a run of
  the event-stream driver without an override make the same call and leave the same rows and the same state.
\<close>

theorem drivers_agree:
  assumes room: "check_ceiling (sv_cost_env (rd_env d) (rw_env w)) t u (rd_cost d (rw_env w)) = Inr None" "0 < rw_permits w"
    and live: "start_live d t u thread input mode True None w = Some (es, w1)"
    and run: "recall_turn d t u thread input mode no_override w = (ms, w2, ended)"
  shows "ended \<and> w1 = w2"
  using assms
  by (auto simp: start_live_def recall_turn_def ws_task_def ws_call_def recall_answer_def Let_def split: option.splits prod.splits sum.splits)

text \<open>
  Further: a refused live turn still stores its question. The request is built and the question stored before the ceiling is checked, so a turn that is
  refused leaves a question without an answer, which the next turn of the thread replays; the event-stream driver stores nothing.
\<close>

theorem refused_live_turn_stores:
  assumes over: "check_ceiling (sv_cost_env (rd_env d) (rw_env w)) t u (rd_cost d (rw_env w)) = Inr (Some why)"
    and live: "start_live d t u thread input mode True ic w = Some (es, w1)"
  shows "read_session t thread (rw_chats w1) = read_session t thread (insert_user_message t u thread input (rw_chats w))"
    "fst (snd (recall_turn d t u thread input mode ov w)) = w"
proof -
  have "rw_chats w1 = persist_question (rd_clock d (rw_env w)) t u thread input (rw_chats w)"
    using live over by (auto simp: start_live_def ws_task_def)
  then show "read_session t thread (rw_chats w1) = read_session t thread (insert_user_message t u thread input (rw_chats w))"
    using asked_messages [of "rd_clock d (rw_env w)" t u thread input "rw_chats w"] by (auto intro: read_session_messages)
  show "fst (snd (recall_turn d t u thread input mode ov w)) = w"
    using over by (simp add: recall_turn_def Let_def)
qed

text \<open>
  Further: the numbers of a live turn tell what was lost. They are strictly increasing, and when nothing is lost they count from one.
\<close>

theorem live_numbers:
  assumes "length es < 2 ^ 64 - 1"
  shows "sorted_wrt (<) (map env_seq (delivered thread turn fits es))"
    "map env_seq (delivered thread turn (\<lambda>_. True) es) = map (\<lambda>i. of_nat i + 1) [0..<length es]"
proof -
  let ?P = "\<lambda>(i, e). we_sink e \<longrightarrow> fits i"
  have numbers: "map env_seq (delivered thread turn fits es) = map (\<lambda>x. of_nat (Suc (fst x))) (filter ?P (enumerate 0 es))"
    by (simp add: delivered_def case_prod_unfold add.commute)
  have u: "unat (of_nat (Suc i) :: u64) = Suc i" if "i < length es" for i
    using that assms by (simp add: unat_of_nat del: of_nat_Suc) 
  have "sorted_wrt (\<lambda>x y. fst x < fst y) (enumerate 0 es)"
    by (auto simp: sorted_wrt_iff_nth_less nth_enumerate_eq)
  then have "sorted_wrt (\<lambda>x y. fst x < fst y) (filter ?P (enumerate 0 es))" by (rule sorted_wrt_filter)
  then have "sorted_wrt (\<lambda>x y. (of_nat (Suc (fst x)) :: u64) < of_nat (Suc (fst y))) (filter ?P (enumerate 0 es))"
    by (rule sorted_wrt_mono_rel [rotated])
       (auto simp: word_less_nat_alt u in_set_enumerate_eq simp del: of_nat_Suc)
  then show "sorted_wrt (<) (map env_seq (delivered thread turn fits es))"
    by (simp add: numbers sorted_wrt_map del: of_nat_Suc)
  show "map env_seq (delivered thread turn (\<lambda>_. True) es) = map (\<lambda>i. of_nat i + 1) [0..<length es]"
    by (rule nth_equalityI) (simp_all add: delivered_def case_prod_unfold nth_enumerate_eq)
qed

end
