(* ===== verification/Approvals.thy ===== *)
theory Approvals
  imports Dream_Agent
begin

text \<open>
  What a person sees of the wiki and decides about it: the approval routes (\<open>activity/routes.rs\<close>) and the wiki read routes
  (\<open>wikiapi/routes.rs\<close>). A request's transaction is one function: what fails changes nothing. Parameters: the texts of ids and of the column
  \<open>updated\<close>, the order of that column, the database's order of titles, the resolution of file names.
\<close>

section \<open>Approvals\<close>

definition waits :: "uuid \<Rightarrow> approval \<Rightarrow> bool" where
  "waits t a \<longleftrightarrow> pa_tenant a = t \<and> pa_status a = Awaiting"

fun approval_text :: "approval_status \<Rightarrow> string" where
  "approval_text Awaiting = ''pending''"
| "approval_text Approved = ''approved''"
| "approval_text Rejected = ''rejected''"
| "approval_text Expired = ''expired''"

definition list_approvals :: "(uuid \<Rightarrow> rstr) \<Rightarrow> uuid \<Rightarrow> approval list \<Rightarrow> jvalue" where
  "list_approvals show_id t as = redact_json (json_obj [(''approvals'', JArray (map (\<lambda>a.
     json_obj [(''id'', JString (show_id (pa_id a))), (''action'', JString (pa_action a)), (''status'', JString (str (approval_text (pa_status a)))),
       (''requested_by'', JString (pa_by a)), (''subject_ref'', pa_subject a)])
     (take 500 (sort_key (\<lambda>a. - pa_created a) (filter (waits t) as)))))])"

definition restore_target :: "(rstr \<Rightarrow> uuid option) \<Rightarrow> approval \<Rightarrow> uuid option" where
  "restore_target parse_id a = Option.bind (Option.bind
     (if pa_action a = str ''wiki_merge'' then jget (pa_subject a) (str ''from'')
      else if pa_action a = str ''wiki_delete'' then jget (pa_subject a) (str ''page'') else None) as_str) parse_id"

text \<open>\<open>UPDATE .. SET deleted_at = NULL\<close>; \<open>None\<close> if a live page has the type and the slug (the unique index).\<close>

definition gone :: "gate_env \<Rightarrow> uuid \<Rightarrow> page \<Rightarrow> bool" where
  "gone env i p \<longleftrightarrow> p_tenant p = ge_tenant env \<and> p_deleted p \<and> p_id p = i"

definition restore_page :: "gate_env \<Rightarrow> uuid \<Rightarrow> wiki \<Rightarrow> wiki option" where
  "restore_page env i s = (let s' = s\<lparr>pages := map (\<lambda>p. if gone env i p then p\<lparr>p_deleted := False\<rparr> else p) (pages s)\<rparr> in
     if distinct (map page_key (existing_pages env s')) \<or> existing_pages env s' = existing_pages env s then Some s' else None)"

definition decide :: "approval_status \<Rightarrow> uuid \<Rightarrow> approval \<Rightarrow> approval" where
  "decide st u a = a\<lparr>pa_status := st, pa_decided_by := Some u\<rparr>"

definition respond_approval :: "(uuid \<Rightarrow> rstr) \<Rightarrow> (rstr \<Rightarrow> uuid option) \<Rightarrow> rstr \<Rightarrow> gate_env \<Rightarrow> uuid \<Rightarrow> uuid \<Rightarrow> bool
    \<Rightarrow> approval list \<times> wiki \<Rightarrow> (http_error + jvalue) \<times> approval list \<times> wiki" where
  "respond_approval show_id parse_id unique_error env u i approve s = (case s of (as, w) \<Rightarrow>
     (case find (\<lambda>a. waits (ge_tenant env) a \<and> pa_id a = i) as of
        None \<Rightarrow> (Inl Not_Found, as, w)
      | Some a \<Rightarrow> (let st = if approve then Approved else Rejected;
            as' = map (\<lambda>a. if waits (ge_tenant env) a \<and> pa_id a = i then decide st u a else a) as;
            answer = redact_json (json_obj [(''id'', JString (show_id i)), (''status'', JString (str (approval_text st)))])
          in case (if approve then None else restore_target parse_id a) of
               None \<Rightarrow> (Inr answer, as', w)
             | Some p \<Rightarrow> (case restore_page env p w of
                 Some w' \<Rightarrow> (Inr answer, as', w')
               | None \<Rightarrow> (Inl (Db_Error unique_error), as, w)))))"

section \<open>Reading the wiki\<close>

record wiki_read_env =
  wr_show_id :: "uuid \<Rightarrow> rstr"
  wr_show_updated :: "page \<Rightarrow> rstr"
  wr_latest :: page_order
  wr_by_title :: "page list \<Rightarrow> page list"
  wr_files :: tool_files

definition page_fields :: "wiki_read_env \<Rightarrow> page \<Rightarrow> rstr \<Rightarrow> jvalue list \<Rightarrow> jvalue" where
  "page_fields e p body backlinks = json_obj [(''id'', JString (wr_show_id e (p_id p))), (''type'', JString (str (page_as_str (p_type p)))),
     (''slug'', JString (p_slug p)), (''title'', JString (p_title p)), (''summary'', JString (p_summary p)), (''body_markdown'', JString body),
     (''updated'', JString (wr_show_updated e p)), (''aliases'', json_str_list (p_aliases p)), (''tags'', json_str_list (p_tags p)),
     (''backlinks'', JArray backlinks)]"

definition wiki_index :: "wiki_read_env \<Rightarrow> gate_env \<Rightarrow> wiki \<Rightarrow> jvalue" where
  "wiki_index e env s = redact_json (json_obj [(''pages'', JArray (map (\<lambda>p. page_fields e p [] []) (take 2000 (wr_latest e (existing_pages env s)))))])"

definition linking_pages :: "gate_env \<Rightarrow> uuid \<Rightarrow> wiki \<Rightarrow> page list" where
  "linking_pages env i s = concat (map (\<lambda>l. filter (\<lambda>p. p_id p = l_src l) (existing_pages env s))
     (filter (\<lambda>l. l_tenant l = ge_tenant env \<and> l_target l = Some i) (wlinks s)))"

definition read_body_confined :: "tool_files \<Rightarrow> rstr \<Rightarrow> rstr" where
  "read_body_confined fs body_ref = (if under_root fs body_ref then the_or [] (Option.bind (tf_real fs body_ref) (tf_read fs)) else [])"

definition wiki_page :: "wiki_read_env \<Rightarrow> gate_env \<Rightarrow> rstr \<Rightarrow> wiki \<Rightarrow> http_error + jvalue" where
  "wiki_page e env slug s = (case find (named slug) (existing_pages env s) of
     None \<Rightarrow> Inl Not_Found
   | Some p \<Rightarrow> Inr (redact_json (page_fields e p (read_body_confined (wr_files e) (p_body_ref p))
       (map (\<lambda>q. json_obj [(''target_slug'', JString (p_slug q)), (''target_page_id'', JString (wr_show_id e (p_id q))), (''display'', JString (p_title q))])
         (wr_by_title e (linking_pages env (p_id p) s))))))"

section \<open>Decisions\<close>

lemma soft_delete_restore:
  assumes ok: "distinct (map page_key (existing_pages env w))" and live: "\<And>p. p \<in> set (pages w) \<Longrightarrow> p_tenant p = ge_tenant env \<Longrightarrow> p_id p = i \<Longrightarrow> \<not> p_deleted p"
  shows "restore_page env i (soft_delete env i w) = Some w"
proof -
  have "map (\<lambda>p. if gone env i p then p\<lparr>p_deleted := False\<rparr> else p) (map (\<lambda>p. if live env p \<and> p_id p = i then p\<lparr>p_deleted := True\<rparr> else p) (pages w)) = pages w"
    using live by (auto simp: gone_def live_def intro!: map_idI)
  then have "(soft_delete env i w)\<lparr>pages := map (\<lambda>p. if gone env i p then p\<lparr>p_deleted := False\<rparr> else p) (pages (soft_delete env i w))\<rparr> = w"
    by (simp add: soft_delete_def)
  then show ?thesis using ok by (simp add: restore_page_def Let_def)
qed

definition subject_reads :: "(uuid \<Rightarrow> rstr) \<Rightarrow> (rstr \<Rightarrow> uuid option) \<Rightarrow> bool" where
  "subject_reads show_id parse_id \<longleftrightarrow> (\<forall>i. parse_id (show_id i) = Some i)"

lemma restore_target_proposed:
  assumes "subject_reads show_id parse_id" "pa_action a = op_action p" "pa_subject a = op_subject show_id p"
  shows "restore_target parse_id a = Some (soft_delete_target p)"
  using assms by (cases p) (simp_all add: restore_target_def op_action_def op_subject_def soft_delete_target_def subject_reads_def
      json_obj_def str_eval)

lemma proposal_row:
  assumes "route_destructive show_id now env new_id u origin p (as, w) = (new_id, as1, w1)"
  obtains a where "as1 = as @ [a]" "w1 = soft_delete env (soft_delete_target p) w" "pa_id a = new_id" "waits (ge_tenant env) a"
    "pa_action a = op_action p" "pa_subject a = op_subject show_id p"
proof -
  let ?a = "\<lparr>pa_id = new_id, pa_tenant = ge_tenant env, pa_user = u, pa_action = op_action p, pa_subject = op_subject show_id p, pa_by = origin,
    pa_status = Awaiting, pa_decided_by = None, pa_created = now\<rparr>"
  have "as1 = as @ [?a]" "w1 = soft_delete env (soft_delete_target p) w"
    using assms by (simp_all add: route_destructive_def)
  then show thesis by (rule that) (simp_all add: waits_def)
qed

lemma decided_gone:
  "find (\<lambda>a. waits t a \<and> pa_id a = i) (map (\<lambda>a. if waits t a \<and> pa_id a = i then decide (if b then Approved else Rejected) u a else a) as) = None"
proof -
  have "\<not> waits t (decide (if b then Approved else Rejected) u a)" for a
    by (simp add: waits_def decide_def)
  then show ?thesis by (induction as) simp_all
qed

lemma there_live:
  assumes "wiki_ok env w" "i \<in> p_id ` set (existing_pages env w)" "p \<in> set (pages w)" "p_id p = i"
  shows "\<not> p_deleted p"
proof -
  obtain q where q: "q \<in> set (pages w)" "live env q" "p_id q = i" using assms(2) by (auto simp: existing_pages_def)
  then have "q = p" using assms by (auto simp: wiki_ok_def distinct_map inj_on_def)
  then show ?thesis using q by (simp add: live_def)
qed


text \<open>A vault with one page, and ids printed as their numbers.\<close>

definition number_text :: "uuid \<Rightarrow> rstr" where "number_text i = [unat i]"
definition text_number :: "rstr \<Rightarrow> uuid option" where "text_number s = (case s of [n] \<Rightarrow> Some (of_nat n) | _ \<Rightarrow> None)"

definition lone_page :: page where
  "lone_page = \<lparr>p_id = 5, p_tenant = 1, p_type = Entity, p_slug = str ''a'', p_title = str ''A'', p_aliases = [], p_tags = [], p_summary = [],
     p_char_len = 0, p_body_ref = body_path sample_env Entity (str ''a''), p_source_ids = [], p_content_hash = [], p_sync_version = 1,
     p_reviewed = False, p_deleted = False\<rparr>"

definition lone_wiki :: wiki where "lone_wiki = \<lparr>pages = [lone_page], wlinks = [], files = (\<lambda>_. None)\<rparr>"


text \<open>
  Further: a rejection can bring back what was not proposed away. If the page was deleted before the proposal was made, the proposal does nothing to
  it, and rejecting the proposal makes it live again.
\<close>

theorem rejection_resurrects:
  assumes reads: "subject_reads show_id parse_id" and fresh: "new_id \<notin> pa_id ` set as"
    and dead: "q \<in> set (pages w)" "p_tenant q = ge_tenant env" "p_deleted q" "p_id q = soft_delete_target p" "distinct (map p_id (pages w))"
    and free: "restore_page env (p_id q) w = Some w'"
    and proposed: "route_destructive show_id now env new_id u origin p (as, w) = (new_id, as1, w1)"
  shows "w1 = w \<and> snd (snd (respond_approval show_id parse_id err env u' new_id False (as1, w1))) = w' \<and> q\<lparr>p_deleted := False\<rparr> \<in> set (existing_pages env w')"
proof -
  obtain a where a: "as1 = as @ [a]" "w1 = soft_delete env (soft_delete_target p) w" "pa_id a = new_id" "waits (ge_tenant env) a"
    "pa_action a = op_action p" "pa_subject a = op_subject show_id p"
    by (rule proposal_row [OF proposed])
  have found: "find (\<lambda>a. waits (ge_tenant env) a \<and> pa_id a = new_id) as1 = Some a"
    using fresh a by (induction as arbitrary: as1) auto
  have "\<not> (live env x \<and> p_id x = p_id q)" if "x \<in> set (pages w)" for x
    using dead that by (auto simp: live_def distinct_map inj_on_def)
  then have "map (\<lambda>x. if live env x \<and> p_id x = p_id q then x\<lparr>p_deleted := True\<rparr> else x) (pages w) = pages w"
    by (intro map_idI) auto
  then have "w1 = w" using dead(4) by (simp add: a(2) soft_delete_def)
  moreover have "restore_target parse_id a = Some (p_id q)"
    using restore_target_proposed [OF reads a(5,6)] dead(4) by simp
  moreover have "q\<lparr>p_deleted := False\<rparr> \<in> set (existing_pages env w')"
    using free dead by (auto simp: restore_page_def Let_def existing_pages_def gone_def live_def image_iff split: if_splits)
  ultimately show ?thesis using free by (simp add: respond_approval_def found)
qed

text \<open>
  Further: a rejection can fail for good. If a page with the type and the slug was created in between, the rejection is an error, changes
  nothing, and the proposal goes on waiting.
\<close>

theorem rejection_blocked:
  assumes "find (\<lambda>a. waits (ge_tenant env) a \<and> pa_id a = i) as = Some a" "restore_target parse_id a = Some p" "restore_page env p w = None"
  shows "respond_approval show_id parse_id err env u i False (as, w) = (Inl (Db_Error err), as, w)"
  using assms by (simp add: respond_approval_def Let_def)

section \<open>What a reader sees\<close>

lemma linking_pages_iff:
  "q \<in> set (linking_pages env i s) \<longleftrightarrow> q \<in> set (existing_pages env s)
     \<and> (\<exists>l\<in>set (wlinks s). l_tenant l = ge_tenant env \<and> l_src l = p_id q \<and> l_target l = Some i)"
  by (auto simp: linking_pages_def)

text \<open>
  Further: a page shows live pages only. The page a route answers is a live page of the tenant with this slug or alias; its back links are exactly
  the live pages of the tenant with a link to it, and its body, if it is not empty, is the text of a file under the vault.
\<close>

theorem page_shows_live:
  assumes order: "set (wr_by_title e (linking_pages env (p_id p) s)) = set (linking_pages env (p_id p) s)"
    and p: "find (named slug) (existing_pages env s) = Some p"
  shows "p \<in> set (existing_pages env s) \<and> named slug p"
    "q \<in> set (wr_by_title e (linking_pages env (p_id p) s)) \<longleftrightarrow> q \<in> set (existing_pages env s)
       \<and> (\<exists>l\<in>set (wlinks s). l_tenant l = ge_tenant env \<and> l_src l = p_id q \<and> l_target l = Some (p_id p))"
    "read_body_confined fs r \<noteq> [] \<Longrightarrow> \<exists>root q. tf_real fs (tf_root fs) = Some root \<and> tf_real fs r = Some q \<and> (q = root \<or> starts_with q (root @ [47]))
       \<and> tf_read fs q = Some (read_body_confined fs r)"
proof -
  show "p \<in> set (existing_pages env s) \<and> named slug p" using p by (auto simp: find_Some_iff)
  show "q \<in> set (wr_by_title e (linking_pages env (p_id p) s)) \<longleftrightarrow> q \<in> set (existing_pages env s)
       \<and> (\<exists>l\<in>set (wlinks s). l_tenant l = ge_tenant env \<and> l_src l = p_id q \<and> l_target l = Some (p_id p))"
    unfolding order by (rule linking_pages_iff)
  show "read_body_confined fs r \<noteq> [] \<Longrightarrow> \<exists>root q. tf_real fs (tf_root fs) = Some root \<and> tf_real fs r = Some q \<and> (q = root \<or> starts_with q (root @ [47]))
       \<and> tf_read fs q = Some (read_body_confined fs r)"
    by (cases "Option.bind (tf_real fs r) (tf_read fs)") (auto simp: read_body_confined_def under_root_def bind_eq_Some_conv split: if_splits option.splits)
qed

text \<open>
  Further: what the list shows can be decided. Every listed proposal is one of the tenant's that waits, newest first.
\<close>

theorem listed_waits:
  "set (take 500 (sort_key (\<lambda>a. - pa_created a) (filter (waits t) as))) \<subseteq> {a \<in> set as. pa_tenant a = t \<and> pa_status a = Awaiting}
   \<and> sorted_wrt (\<lambda>a b. pa_created b \<le> pa_created a) (take 500 (sort_key (\<lambda>a. - pa_created a) (filter (waits t) as)))"
proof
  show "set (take 500 (sort_key (\<lambda>a. - pa_created a) (filter (waits t) as))) \<subseteq> {a \<in> set as. pa_tenant a = t \<and> pa_status a = Awaiting}"
    by (auto simp: waits_def dest!: in_set_takeD)
  have "sorted (map (\<lambda>a. - pa_created a) (sort_key (\<lambda>a. - pa_created a) (filter (waits t) as)))" by simp
  then have "sorted_wrt (\<lambda>a b. pa_created b \<le> pa_created a) (sort_key (\<lambda>a. - pa_created a) (filter (waits t) as))"
    by (simp add: sorted_wrt_map)
  then show "sorted_wrt (\<lambda>a b. pa_created b \<le> pa_created a) (take 500 (sort_key (\<lambda>a. - pa_created a) (filter (waits t) as)))"
    by (rule sorted_wrt_take)
qed

end
