(* ===== verification/Spec2Isabelle.thy ===== *)
theory Spec2Isabelle
  imports Classify Pool Turn Transcript Ssrf Providers Transport Prompt_Cache Dispatch Harness Sse Streams
    Stream_Hub Wire_Session Jobs Dream Wiki_Text Wiki_Pages Redact Sync_Log Captures Sync Http_Error Tokens Social
    Auth Auth_Safety Rate_Limit Price Cost Cost_Safety Vault Vault_Safety Routing Transcribe Structured Extract Index_Gen Ingest
    Router_Llm Web_Tool Recall_Tools Conversations Recall Dream_Agent Live_Turn Approvals
begin

text \<open>
  A verification library for QCue (\<open>src/qcue-rs\<close>), a multi-tenant assistant: people capture ideas, a
  language-model harness turns them into a wiki, and a recall assistant answers over it. Modelled is the Rust
  workspace from the provider wire up to the routes; each theory names at its head the source files it translates.

  \<^bold>\<open>The program and its theories.\<close>

  \<^item> \<^bold>\<open>Vocabulary.\<close> \<open>Prelude\<close> (machine integers, options, collections of rules), \<open>Rust_Strings\<close> and
    \<open>Utf8\<close> (strings as lists of code points, byte offsets where the code slices), \<open>Json\<close> (\<open>serde_json::Value\<close>),
    \<open>Protocol\<close> (the data of the \<open>protocol\<close> crate).
  \<^item> \<^bold>\<open>The harness.\<close> \<open>Classify\<close> turns a failed response into a reason and one action, \<open>Pool\<close> keeps the
    credentials of a provider, \<open>Ssrf\<close> guards every address, \<open>Providers\<close> holds the vendor profiles, \<open>Transport\<close> the three wire
    formats, \<open>Prompt_Cache\<close> the cache breakpoints, \<open>Transcript\<close> what a transcript looks like on the wire. \<open>Dispatch\<close> is one provider call
    with recovery over credentials and fallback links, \<open>Turn\<close> the loop of calls and tools, \<open>Harness\<close> their composition.
    \<open>Sse\<close> and \<open>Streams\<close> read streamed answers. \<open>Structured\<close> reads JSON out of an answer.
  \<^item> \<^bold>\<open>The server.\<close> \<open>Stream_Hub\<close> (replay ring, subscriptions), \<open>Wire_Session\<close> (the JSON-RPC session), \<open>Jobs\<close> (the durable
    queue), \<open>Dream\<close> and \<open>Dream_Agent\<close> (the nightly consolidation), \<open>Http_Error\<close>, \<open>Redact\<close>, \<open>Rate_Limit\<close>, \<open>Tokens\<close>, \<open>Social\<close>, \<open>Auth\<close> and
    \<open>Auth_Safety\<close> (accounts), \<open>Vault\<close> and \<open>Vault_Safety\<close> (sealed provider keys), \<open>Routing\<close> (which model a tenant's call runs
    on), \<open>Price\<close>, \<open>Cost\<close>, \<open>Cost_Safety\<close> (the ledger), \<open>Transcribe\<close> (voice).
  \<^item> \<^bold>\<open>The wiki.\<close> \<open>Wiki_Text\<close> (slugs, links), \<open>Wiki_Pages\<close> (tables, write gate, conflict ladder, page factory), \<open>Captures\<close>, \<open>Extract\<close> (analysis
    in batches), \<open>Index_Gen\<close>, \<open>Ingest\<close> (one capture to pages), \<open>Router_Llm\<close> (an engine request as one turn),
    \<open>Sync_Log\<close> and \<open>Sync\<close> (devices, operations, materialisation).
  \<^item> \<^bold>\<open>The assistant.\<close> \<open>Web_Tool\<close>, \<open>Recall_Tools\<close>, \<open>Conversations\<close>, \<open>Recall\<close> (a run from its opening event to its last) and
    \<open>Live_Turn\<close> (the same over the session socket); \<open>Approvals\<close> is what a person sees of the wiki and decides about it.

  The parts meet where the code composes them: \<open>Harness\<close> interprets the meter of \<open>Turn\<close> with the dispatch; \<open>Recall\<close> runs
  \<open>Router_Llm\<close>, which runs \<open>Harness\<close> over the route of \<open>Routing\<close>, and publishes into \<open>Stream_Hub\<close>; \<open>Ingest\<close> calls \<open>Extract\<close> and the page factory of
  \<open>Wiki_Pages\<close> for the jobs of \<open>Jobs\<close>; \<open>Sync\<close> and \<open>Captures\<close> write through the same gate.

  \<^bold>\<open>How code becomes definitions.\<close> A struct is a record and an enum a datatype, with the names of the code; a method is a
  function from its state to its result and the new state. A record of tables stands for the database: a table is
  the list of its rows in the order a scan meets them, a transaction is a function that is applied or not, and a
  row-level-security policy is the tenant test of each statement. \<open>u32\<close>, \<open>u64\<close>, \<open>i64\<close> keep their width wherever
  they can wrap. An error is the left of a sum or \<open>None\<close>; a panic is \<open>None\<close> where the source slices bytes, and arithmetic
  wraps as in a release build. \<open>f64\<close> is the IEEE rounding of a rational. What other tasks do between two steps of a
  handler is an explicit list of operations or a schedule (\<open>Stream_Hub\<close>, \<open>Sync\<close>, \<open>Ingest\<close>, \<open>Auth_Safety\<close>).

  \<^bold>\<open>Bounds.\<close> A provider call makes at most sixteen attempts, so the dispatch loop is a recursion on the attempts left.
  A turn recurses on the rounds of its budget; without settings that is 33 calls. The worker loop recurses on the attempts the due
  rows have left; the extraction on its at most 50 rounds and one; the pool of ingest tasks on the work left in its tasks. No bound
  is an assumption: each is a number of the code or a measure, and the theorems on termination say that the loops end.

  \<^bold>\<open>What the lemmas show.\<close>

  \<^item> \<^bold>\<open>Invariants\<close> over all operation sequences: leases and credentials (\<open>Pool\<close>), queue and job ids (\<open>Jobs\<close>), wiki tables (\<open>Wiki_Pages\<close>), account
    tables (\<open>Auth_Safety\<close>), sync log, ledger rows, hub entries, bracketed event streams.
  \<^item> \<^bold>\<open>Safety\<close>: every request goes to a checked address with an eligible credential after a passed cost check; tenants do not read each
    other's streams, keys or rows; a revoked session stays revoked; a reviewed page never loses text; a run of the assistant
    ends with exactly one event.
  \<^item> \<^bold>\<open>Refinement and equivalence\<close>: the session refines a contract of slots, the sweeping rate limiter one that never
    forgets, a reloaded pool the pool that was written; chunked and unchunked frames, the two JSON readers, a lone ingest task and one call of
    the page factory, the two drivers of the assistant agree; the events of a live turn refine their contract.
  \<^item> \<^bold>\<open>Round trips\<close> of transcripts, keys, UTF-8 and HTML-free texts, \<^bold>\<open>termination\<close> and \<^bold>\<open>bounds\<close> of calls, retries, spending, pages, events.
  \<^item> Where the code falls short of a comment or of its purpose a theorem shows the behaviour at a concrete or general
    input; these are the theorems the list of findings names.

  The contracts are locales (\<open>turn_meter\<close>, \<open>tag_fence\<close>, \<open>bounded_log\<close> and \<open>replay_log\<close>, \<open>block_parser\<close>, \<open>consolidation_lock\<close>, \<open>auth_preserved\<close>,
  \<open>spending_gate\<close>), each interpreted on the definitions of the code.

  \<^bold>\<open>Parameters.\<close> Code that is not in the repository is an argument: the JSON, URL, date and id parsers and printers, DNS, the clock and
  random bytes, tokio's broadcast channel, HTTP clients and their answers, SHA-256, AES-GCM, Argon2, JWT and RSA, base64, Unicode's tables, resolution of file names, and of
  PostgreSQL full-text match, rank, similarity, case folding and the order of rows with equal keys. A hypothesis about one of these states documented
  behaviour (decryption undoes encryption, printing a value and reading it gives the value) and has a witness.

  \<^bold>\<open>Not modelled.\<close> Start-up, configuration and static routes (\<open>main.rs\<close>, \<open>config.rs\<close>, \<open>router.rs\<close>, \<open>state.rs\<close>, \<open>db.rs\<close>, \<open>health.rs\<close>, \<open>legal.rs\<close>,
  \<open>wellknown.rs\<close>, \<open>release.rs\<close>): they read variables and files and answer constants. The object store and the on-disk purge of an
  account: they are calls of the file system. The bridge to the application (\<open>ffi\<close>) and the build tools (\<open>xtask\<close>, \<open>codegen\<close>, \<open>build.rs\<close>): generated or
  glue. Helpers without a caller in the running program (\<open>clean_markdown\<close>, \<open>file_back\<close>, \<open>frontmatter\<close>, \<open>recall/curated\<close>, \<open>recall/prefetch\<close>, the \<open>QueryEngine\<close> of
  \<open>wiki/query.rs\<close>, two of the three searches). Serialisation attributes and the schema types of
  \<open>app-server-protocol\<close>, which fix names only. Read-only projections: the feed and the detail of captures, the job list. The Flutter application and the documentation are in other languages.
\<close>

end
